(* ===== verification/Prelude.thy ===== *)
theory Prelude
  imports Main "HOL-Library.Word"
begin

text \<open>
  Shared vocabulary of the development: the machine integers of the 64-bit target, the
  outcome of a Rust function that may return, fail or panic, state passing for code that
  mutates through \<open>&mut\<close>, and the generic facts on words, lists and results that the
  component theories use.

  The kernel is built with \<open>MODE ?= release\<close>, so integer arithmetic wraps and
  \<open>debug_assert!\<close> is absent; \<open>usize\<close> arithmetic is therefore arithmetic on
  \<open>64 word\<close>.
\<close>

unbundle bit_operations_syntax

named_theorems word_nat \<open>reading 64-bit arithmetic as arithmetic on natural numbers\<close>
named_theorems result_simps \<open>evaluation of outcomes and of actions\<close>

type_synonym u8 = "8 word"
type_synonym u32 = "32 word"
type_synonym u64 = "64 word"
type_synonym usize = "64 word"

text \<open>Signed integers are \<open>int\<close> with the wrap-around of their width written out.\<close>

definition isize_wrap :: "int \<Rightarrow> int" where
  "isize_wrap x = (x + 2 ^ 63) mod 2 ^ 64 - 2 ^ 63"

lemma isize_wrap_id [simp]: "- (2 ^ 63) \<le> x \<Longrightarrow> x < 2 ^ 63 \<Longrightarrow> isize_wrap x = x"
  by (simp add: isize_wrap_def)

subsection \<open>Outcomes of Rust functions\<close>

text \<open>
  \<open>Ok\<close> and \<open>Err\<close> are the constructors of \<open>core::result::Result\<close>; \<open>Panic\<close>
  is the outcome of a failed \<open>assert!\<close>, of \<open>unwrap\<close> or \<open>expect\<close> on a failure and of an
  index out of bounds. \<open>Diverge\<close> is the outcome of a loop that has used up the iterations its
  fuel allows; each loop that has fuel comes with a theorem that its fuel is enough.
\<close>

datatype ('a, 'e) result = Ok 'a | Err 'e | Panic | Diverge

fun res_bind :: "('a, 'e) result \<Rightarrow> ('a \<Rightarrow> ('b, 'e) result) \<Rightarrow> ('b, 'e) result" where
  "res_bind (Ok a) f = f a"
| "res_bind (Err e) f = Err e"
| "res_bind Panic f = Panic"
| "res_bind Diverge f = Diverge"

fun unwrap :: "('a, 'e) result \<Rightarrow> ('a, 'f) result" where
  "unwrap (Ok a) = Ok a"
| "unwrap (Err e) = Panic"
| "unwrap Panic = Panic"
| "unwrap Diverge = Diverge"

fun map_err :: "('e \<Rightarrow> 'f) \<Rightarrow> ('a, 'e) result \<Rightarrow> ('a, 'f) result" where
  "map_err f (Ok a) = Ok a"
| "map_err f (Err e) = Err (f e)"
| "map_err f Panic = Panic"
| "map_err f Diverge = Diverge"

fun is_ok :: "('a, 'e) result \<Rightarrow> bool" where
  "is_ok (Ok a) = True"
| "is_ok (Err e) = False"
| "is_ok Panic = False"
| "is_ok Diverge = False"

lemma res_bind_Ok_iff [simp]: "res_bind r f = Ok b \<longleftrightarrow> (\<exists>a. r = Ok a \<and> f a = Ok b)"
  by (cases r) auto

lemma unwrap_Ok_iff [simp]: "unwrap r = Ok a \<longleftrightarrow> r = Ok a"
  by (cases r) auto

lemma unwrap_not_Err [simp]: "unwrap r \<noteq> Err e"
  by (cases r) auto

lemma map_err_Ok_iff [simp]: "map_err f r = Ok a \<longleftrightarrow> r = Ok a"
  by (cases r) auto

lemma is_ok_iff: "is_ok r \<longleftrightarrow> (\<exists>a. r = Ok a)"
  by (cases r) auto

subsection \<open>Actions: state passing with early return\<close>

text \<open>
  A function with \<open>&mut\<close> access to a state takes the state and returns the outcome with
  the new state. Writes made before an early return persist, so the state is returned in
  every case. \<open>and_then\<close> is the sequencing of the \<open>?\<close> operator.
\<close>

type_synonym ('s, 'a, 'e) action = "'s \<Rightarrow> ('a, 'e) result \<times> 's"

definition and_then ::
  "('s, 'a, 'e) action \<Rightarrow> ('a \<Rightarrow> ('s, 'b, 'e) action) \<Rightarrow> ('s, 'b, 'e) action" where
  "and_then m f s = (case m s of
      (Ok a, s') \<Rightarrow> f a s'
    | (Err e, s') \<Rightarrow> (Err e, s')
    | (Panic, s') \<Rightarrow> (Panic, s')
    | (Diverge, s') \<Rightarrow> (Diverge, s'))"

definition assert_then :: "bool \<Rightarrow> ('s, 'b, 'e) action \<Rightarrow> ('s, 'b, 'e) action" where
  "assert_then b m s = (if b then m s else (Panic, s))"

definition unwrap_act :: "('s, 'a, 'e) action \<Rightarrow> ('s, 'a, 'f) action" where
  "unwrap_act m s = (case m s of (r, s') \<Rightarrow> (unwrap r, s'))"

lemma and_then_Ok_iff [result_simps]:
  "and_then m f s = (Ok b, t) \<longleftrightarrow> (\<exists>a s'. m s = (Ok a, s') \<and> f a s' = (Ok b, t))"
  by (auto simp: and_then_def split: prod.splits result.splits)

lemma and_then_return [result_simps]: "and_then (\<lambda>s. (Ok (a s), s)) f s = f (a s) s"
  by (simp add: and_then_def)

lemma and_then_run [result_simps]: "m s = (Ok a, s') \<Longrightarrow> and_then m f s = f a s'"
  by (simp add: and_then_def)

lemma and_then_fail [result_simps]:
  "m s = (Err e, s') \<Longrightarrow> and_then m f s = (Err e, s')"
  "m s = (Panic, s') \<Longrightarrow> and_then m f s = (Panic, s')"
  "m s = (Diverge, s') \<Longrightarrow> and_then m f s = (Diverge, s')"
  by (simp_all add: and_then_def)

lemma assert_then_Ok_iff [result_simps]:
  "assert_then b m s = (Ok a, t) \<longleftrightarrow> b \<and> m s = (Ok a, t)"
  by (simp add: assert_then_def)

lemma unwrap_act_Ok_iff [result_simps]:
  "unwrap_act m s = (Ok a, t) \<longleftrightarrow> m s = (Ok a, t)"
  by (auto simp: unwrap_act_def split: prod.splits)

lemma fst_run: "fst p = a \<Longrightarrow> p = (a, snd p)"
  by (cases p) simp

lemma range_subset_le: "{i..<i + n} \<subseteq> {..<t} \<Longrightarrow> 0 < n \<Longrightarrow> i + n \<le> (t :: nat)"
  using atLeastLessThan_subset_iff [of i "i + n" 0 t] by (simp add: lessThan_atLeast0)

subsection \<open>Words read as natural numbers\<close>

lemma unat_lt64 [simp]: "unat (x :: usize) < 18446744073709551616"
  using unsigned_less [of x] by simp

lemma unat_add_no_overflow [word_nat]:
  "unat (x :: usize) + unat y < 2 ^ 64 \<Longrightarrow> unat (x + y) = unat x + unat y"
  by (simp add: unat_word_ariths)

lemma unat_sub_no_underflow [word_nat]:
  "unat (y :: usize) \<le> unat x \<Longrightarrow> unat (x - y) = unat x - unat y"
  by (simp add: unat_sub word_le_nat_alt)

lemma unat_of_nat_64 [word_nat]: "n < 2 ^ 64 \<Longrightarrow> unat (of_nat n :: usize) = n"
  by (simp add: unat_of_nat)

lemma usize_eqI: "unat (x :: usize) = unat y \<Longrightarrow> x = y"
  by (simp add: word_unat_eq_iff)

lemma unat_pow2_64: "k < 64 \<Longrightarrow> unat (2 ^ k :: usize) = 2 ^ k"
  using unat_of_nat_64 [of "2 ^ k"] power_strict_increasing [of k 64 "2 :: nat"] by simp

lemma bit_usize_lt: "bit (x :: usize) n \<Longrightarrow> n < 64"
  using bit_imp_le_length [of x n] by simp

lemma usize_bit_eqI: "(\<And>n. bit (x :: usize) n \<longleftrightarrow> bit y n) \<Longrightarrow> x = y"
  by (rule bit_eqI) simp

lemma take_bit_usize_self: "unat (x :: usize) < 2 ^ k \<Longrightarrow> take_bit k x = x"
  by (rule usize_eqI) (simp only: unsigned_take_bit_eq, simp add: take_bit_eq_mod)

lemma word_and_mask_take_bit: "(x :: usize) AND (2 ^ k - 1) = take_bit k x"
  by (simp add: take_bit_eq_mask mask_eq_exp_minus_1)

lemma unat_and_pow2_mask: "unat ((x :: usize) AND (2 ^ k - 1)) = unat x mod 2 ^ k"
  unfolding word_and_mask_take_bit by (simp only: unsigned_take_bit_eq) (simp add: take_bit_eq_mod)

lemma and_not_pow2_mask: "(x :: usize) AND NOT (2 ^ k - 1) = x - take_bit k x"
proof -
  have "x AND NOT (2 ^ k - 1) = push_bit k (drop_bit k x)"
    unfolding mask_eq_exp_minus_1 [symmetric]
    by (rule bit_eqI) (auto simp: bit_simps)
  then show ?thesis
    using bits_ident [of k x] by (simp add: eq_diff_eq)
qed

lemma unat_and_not_pow2_mask:
  "unat ((x :: usize) AND NOT (2 ^ k - 1)) = unat x div 2 ^ k * 2 ^ k"
proof -
  have t: "unat (take_bit k x) = unat x mod 2 ^ k"
    by (simp only: unsigned_take_bit_eq) (simp add: take_bit_eq_mod)
  have "unat (x - take_bit k x) = unat x - unat x mod 2 ^ k"
    by (subst unat_sub_no_underflow) (simp_all add: t)
  then show ?thesis
    by (simp add: and_not_pow2_mask minus_mod_eq_div_mult)
qed

subsection \<open>Bits of machine words\<close>

text \<open>\<open>1 << n\<close> on \<open>usize\<close>: in a release build the shift amount is taken modulo 64.\<close>

definition shl1 :: "usize \<Rightarrow> usize" where
  "shl1 n = push_bit (unat n mod 64) 1"

definition trailing_zeros :: "usize \<Rightarrow> nat" where
  "trailing_zeros x = length (takeWhile (\<lambda>n. \<not> bit x n) [0..<64])"

lemma trailing_zeros_one [simp]: "trailing_zeros 1 = 0"
  by (simp add: trailing_zeros_def upt_conv_Cons)

lemma trailing_zeros_le: "trailing_zeros x \<le> 64"
  using length_takeWhile_le [of "\<lambda>n. \<not> bit x n" "[0..<64]"] by (simp add: trailing_zeros_def)

lemma trailing_zeros_below: "p < trailing_zeros x \<Longrightarrow> \<not> bit x p"
proof -
  assume p: "p < trailing_zeros x"
  then have "takeWhile (\<lambda>n. \<not> bit x n) [0..<64] ! p = p"
    using trailing_zeros_le [of x] by (simp add: trailing_zeros_def takeWhile_nth)
  then show ?thesis
    using p nth_mem [of p "takeWhile (\<lambda>n. \<not> bit x n) [0..<64]"] set_takeWhileD [of p] by (auto simp: trailing_zeros_def)
qed

lemma trailing_zeros_bit: "trailing_zeros x < 64 \<Longrightarrow> bit x (trailing_zeros x)"
  using nth_length_takeWhile [of "\<lambda>n. \<not> bit x n" "[0..<64]"] by (simp add: trailing_zeros_def)

end
