(* ===== verification/MemoryAddr.thy ===== *)
theory MemoryAddr
  imports Prelude
begin

text \<open>
  The crate \<open>crates/memory_addr\<close>: alignment arithmetic on addresses. \<open>PhysAddr\<close> and
  \<open>VirtAddr\<close> are transparent wrappers of \<open>usize\<close> and are modelled by it; their methods
  are the free functions below applied to the wrapped value.
\<close>

type_synonym PhysAddr = usize
type_synonym VirtAddr = usize

definition PAGE_SIZE_4K :: usize where
  "PAGE_SIZE_4K = 0x1000"

definition align_down :: "usize \<Rightarrow> usize \<Rightarrow> usize" where
  "align_down addr align = addr AND NOT (align - 1)"

definition align_up :: "usize \<Rightarrow> usize \<Rightarrow> usize" where
  "align_up addr align = (addr + align - 1) AND NOT (align - 1)"

definition align_offset :: "usize \<Rightarrow> usize \<Rightarrow> usize" where
  "align_offset addr align = addr AND (align - 1)"

definition is_aligned :: "usize \<Rightarrow> usize \<Rightarrow> bool" where
  "is_aligned addr align \<longleftrightarrow> align_offset addr align = 0"

definition align_down_4k :: "usize \<Rightarrow> usize" where
  "align_down_4k addr = align_down addr PAGE_SIZE_4K"

definition align_up_4k :: "usize \<Rightarrow> usize" where
  "align_up_4k addr = align_up addr PAGE_SIZE_4K"

definition align_offset_4k :: "usize \<Rightarrow> usize" where
  "align_offset_4k addr = align_offset addr PAGE_SIZE_4K"

definition is_aligned_4k :: "usize \<Rightarrow> bool" where
  "is_aligned_4k addr \<longleftrightarrow> is_aligned addr PAGE_SIZE_4K"

subsection \<open>The functions over natural numbers\<close>

lemma unat_PAGE_SIZE_4K [simp]: "unat PAGE_SIZE_4K = 4096"
  by (simp add: PAGE_SIZE_4K_def)

lemma PAGE_SIZE_4K_pow2: "PAGE_SIZE_4K = 2 ^ 12"
  by (simp add: PAGE_SIZE_4K_def)

lemma unat_align_down [word_nat]: "unat (align_down a (2 ^ k)) = unat a div 2 ^ k * 2 ^ k"
  by (simp add: align_down_def unat_and_not_pow2_mask)

lemma unat_align_offset [word_nat]: "unat (align_offset a (2 ^ k)) = unat a mod 2 ^ k"
  by (simp add: align_offset_def unat_and_pow2_mask)

lemma is_aligned_iff_dvd [word_nat]: "is_aligned a (2 ^ k) \<longleftrightarrow> 2 ^ k dvd unat a"
  using unat_align_offset [of a k]
  by (metis is_aligned_def mod_0_imp_dvd dvd_imp_mod_0 unat_eq_zero)

lemma align_down_plus_offset: "align_down a (2 ^ k) + align_offset a (2 ^ k) = a"
  by (simp add: align_down_def align_offset_def and_not_pow2_mask word_and_mask_take_bit)

lemma unat_align_up [word_nat]:
  assumes "k < 64" and "unat a + 2 ^ k \<le> 2 ^ 64"
  shows "unat (align_up a (2 ^ k)) = (unat a + 2 ^ k - 1) div 2 ^ k * 2 ^ k"
proof -
  have p: "unat (2 ^ k - 1 :: usize) = 2 ^ k - 1"
    using unat_pow2_64 [OF assms(1)] by (simp add: unat_sub_no_underflow)
  have "unat (a + (2 ^ k - 1)) = unat a + (2 ^ k - 1)"
    by (rule unat_add_no_overflow [of a "2 ^ k - 1", unfolded p]) (use assms(2) in simp)
  then have "unat (a + 2 ^ k - 1) = unat a + 2 ^ k - 1"
    by (simp add: add_diff_eq)
  then show ?thesis
    by (simp add: align_up_def unat_and_not_pow2_mask)
qed

lemma align_down_4k_pow2: "align_down_4k a = align_down a (2 ^ 12)"
  by (simp add: align_down_4k_def PAGE_SIZE_4K_pow2)

lemma is_aligned_4k_iff [word_nat]: "is_aligned_4k a \<longleftrightarrow> 4096 dvd unat a"
  using is_aligned_iff_dvd [of a 12] by (simp add: is_aligned_4k_def PAGE_SIZE_4K_pow2)

lemma unat_align_down_4k [word_nat]: "unat (align_down_4k a) = unat a div 4096 * 4096"
  using unat_align_down [of a 12] by (simp add: align_down_4k_pow2)

subsection \<open>Alignment is what the documentation says\<close>

text \<open>
  For a power-of-two alignment, \<open>align_down\<close> returns the greatest aligned address not
  above its argument.
\<close>

lemma align_down_greatest:
  shows "is_aligned (align_down a (2 ^ k)) (2 ^ k) \<and> align_down a (2 ^ k) \<le> a \<and>
    (\<forall>x. is_aligned x (2 ^ k) \<and> x \<le> a \<longrightarrow> x \<le> align_down a (2 ^ k))"
proof (intro conjI allI impI)
  show "is_aligned (align_down a (2 ^ k)) (2 ^ k)"
    by (simp add: is_aligned_iff_dvd unat_align_down)
  show "align_down a (2 ^ k) \<le> a"
    by (simp add: word_le_nat_alt unat_align_down)
  fix x assume x: "is_aligned x (2 ^ k) \<and> x \<le> a"
  then obtain q where q: "unat x = 2 ^ k * q"
    by (auto simp: is_aligned_iff_dvd dvd_def)
  with x have "2 ^ k * q \<le> unat a"
    by (simp add: word_le_nat_alt)
  then have "q \<le> unat a div 2 ^ k"
    by (simp add: less_eq_div_iff_mult_less_eq mult.commute)
  with q show "x \<le> align_down a (2 ^ k)"
    by (simp add: word_le_nat_alt unat_align_down)
qed

text \<open>
  \<open>align_up\<close> returns the least aligned address not below its argument, provided the sum
  does not pass the end of the address space.
\<close>

lemma align_up_least:
  assumes "k < 64" and "unat a + 2 ^ k \<le> 2 ^ 64"
  shows "is_aligned (align_up a (2 ^ k)) (2 ^ k) \<and> a \<le> align_up a (2 ^ k) \<and>
    (\<forall>x. is_aligned x (2 ^ k) \<and> a \<le> x \<longrightarrow> align_up a (2 ^ k) \<le> x)"
proof (intro conjI allI impI)
  note u = unat_align_up [OF assms]
  let ?P = "(2 :: nat) ^ k"
  show "is_aligned (align_up a (2 ^ k)) (2 ^ k)"
    by (simp add: is_aligned_iff_dvd u)
  have "(unat a + ?P - 1) mod ?P < ?P" by simp
  then have "unat a + ?P - 1 < (unat a + ?P - 1) div ?P * ?P + ?P"
    using div_mult_mod_eq [of "unat a + ?P - 1" ?P] by linarith
  then show "a \<le> align_up a (2 ^ k)"
    by (simp add: word_le_nat_alt u)
  fix x assume x: "is_aligned x (2 ^ k) \<and> a \<le> x"
  then obtain q where q: "unat x = ?P * q" by (auto simp: is_aligned_iff_dvd dvd_def)
  with x have "unat a \<le> ?P * q" by (simp add: word_le_nat_alt)
  moreover have "(q + 1) * ?P = ?P * q + ?P" and "0 < ?P" by (simp_all add: algebra_simps)
  ultimately have "unat a + ?P - 1 < (q + 1) * ?P" by linarith
  then have "(unat a + ?P - 1) div ?P < q + 1" by (simp add: less_mult_imp_div_less)
  then have "(unat a + ?P - 1) div ?P * ?P \<le> q * ?P" by (intro mult_le_mono1) simp
  then show "align_up a (2 ^ k) \<le> x" by (simp add: word_le_nat_alt u q mult.commute)
qed

end
