(* ===== verification/AxErrno.thy ===== *)
theory AxErrno
  imports Prelude
begin

text \<open>
  \<open>crates/axerrno/src/lib.rs\<close>: the error type that the modules of the kernel share, and its numbering.
  \<open>LinuxError\<close> is generated by the build from \<open>errno.h\<close> and is not part of the model.
\<close>

datatype AxError =
    AddrInUse | AlreadyExists | BadAddress | BadState | ConnectionRefused | ConnectionReset
  | DirectoryNotEmpty | InvalidData | InvalidInput | Io | IsADirectory | NoMemory | NotADirectory
  | NotConnected | NotFound | PermissionDenied | ResourceBusy | StorageFull | UnexpectedEof
  | Unsupported | WouldBlock | WriteZero | Interrupted | Timeout

text \<open>The variants in the order of their discriminants, from 1.\<close>

definition AxError_variants :: "AxError list" where
  "AxError_variants =
     [AddrInUse, AlreadyExists, BadAddress, BadState, ConnectionRefused, ConnectionReset,
      DirectoryNotEmpty, InvalidData, InvalidInput, Io, IsADirectory, NoMemory, NotADirectory,
      NotConnected, NotFound, PermissionDenied, ResourceBusy, StorageFull, UnexpectedEof,
      Unsupported, WouldBlock, WriteZero, Interrupted, Timeout]"

fun position_of :: "'a \<Rightarrow> 'a list \<Rightarrow> nat" where
  "position_of x [] = 0"
| "position_of x (y # ys) = (if x = y then 0 else Suc (position_of x ys))"

definition AxError_code :: "AxError \<Rightarrow> int" where
  "AxError_code e = 1 + int (position_of e AxError_variants)"

definition AxError_try_from :: "int \<Rightarrow> (AxError, int) result" where
  "AxError_try_from value =
     (if value > 0 \<and> value \<le> int (length AxError_variants)
      then Ok (AxError_variants ! nat (value - 1)) else Err value)"

lemma position_of_nth: "x \<in> set xs \<Longrightarrow> position_of x xs < length xs \<and> xs ! position_of x xs = x"
  by (induction xs) auto

lemma nth_position_of: "distinct xs \<Longrightarrow> i < length xs \<Longrightarrow> position_of (xs ! i) xs = i"
proof (induction xs arbitrary: i)
  case (Cons y ys)
  then show ?case by (cases i) auto
qed simp

lemma AxError_variants_all: "e \<in> set AxError_variants"
  by (cases e) (simp_all add: AxError_variants_def)

lemma AxError_variants_distinct: "distinct AxError_variants"
  by (simp add: AxError_variants_def)

text \<open>The numbering is a bijection between the variants and the codes from 1 to 24.\<close>

lemma AxError_code_roundtrip:
  "AxError_try_from (AxError_code e) = Ok e"
  "AxError_try_from v = Ok e \<longleftrightarrow> v = AxError_code e"
proof -
  have p: "position_of e AxError_variants < length AxError_variants \<and> AxError_variants ! position_of e AxError_variants = e"
    by (rule position_of_nth [OF AxError_variants_all])
  then show 1: "AxError_try_from (AxError_code e) = Ok e"
    by (simp add: AxError_try_from_def AxError_code_def)
  show "AxError_try_from v = Ok e \<longleftrightarrow> v = AxError_code e"
  proof
    assume a: "AxError_try_from v = Ok e"
    then have v: "0 < v" "v \<le> int (length AxError_variants)" "AxError_variants ! nat (v - 1) = e"
      by (auto simp: AxError_try_from_def split: if_splits)
    then have "position_of e AxError_variants = nat (v - 1)"
      using nth_position_of [OF AxError_variants_distinct, of "nat (v - 1)"] by auto
    then show "v = AxError_code e" using v by (simp add: AxError_code_def)
  qed (use 1 in simp)
qed

end
