(* ===== verification/Allocator.thy ===== *)
theory Allocator
  imports MemoryAddr AxErrno
begin

text \<open>
  Page-granularity allocation: \<open>BitmapPageAllocator\<close> of \<open>crates/allocator/src/bitmap.rs\<close>, the
  two-level \<open>GlobalAllocator\<close> of \<open>modules/axalloc/src/lib.rs\<close> and the owned pages of
  \<open>modules/axalloc/src/page.rs\<close>.

  The bitmap itself is the crate \<open>bitmap_allocator\<close>, which is not part of the repository: its
  operations are the fields of the parameter \<open>BitAlloc\<close>, with the documented behaviour in the
  locale \<open>bit_alloc\<close> (\<open>free b\<close> is the set of bits that are available). The byte allocator of
  \<open>GlobalAllocator\<close> is chosen by a cargo feature (TLSF by default, a third-party crate) and is
  the parameter \<open>ByteAllocator\<close>.
\<close>

datatype AllocError = InvalidParam | MemoryOverlap | NoMemory | NotAllocated

record 'b BitAlloc =
  ba_alloc :: "'b \<Rightarrow> nat option \<times> 'b"
  ba_alloc_contiguous :: "'b \<Rightarrow> nat \<Rightarrow> nat \<Rightarrow> nat option \<times> 'b"
  ba_dealloc :: "nat \<Rightarrow> 'b \<Rightarrow> 'b"
  ba_insert :: "nat \<Rightarrow> nat \<Rightarrow> 'b \<Rightarrow> 'b"

record 'b BitmapPageAllocator =
  base :: usize
  total_pages :: usize
  used_pages :: usize
  inner :: 'b

definition is_power_of_two :: "usize \<Rightarrow> bool" where
  "is_power_of_two x \<longleftrightarrow> x \<noteq> 0 \<and> x AND (x - 1) = 0"

definition bitmap_new :: "'b \<Rightarrow> 'b BitmapPageAllocator" where
  "bitmap_new DEFAULT = \<lparr>base = 0, total_pages = 0, used_pages = 0, inner = DEFAULT\<rparr>"

definition bitmap_init ::
  "'b BitAlloc \<Rightarrow> usize \<Rightarrow> usize \<Rightarrow> usize \<Rightarrow> ('b BitmapPageAllocator, unit, AllocError) action" where
  "bitmap_init B PAGE_SIZE start sz A =
     (if \<not> is_power_of_two PAGE_SIZE then (Panic, A)
      else let endp = align_down (start + sz) PAGE_SIZE;
               start = align_up start PAGE_SIZE;
               total = (endp - start) div PAGE_SIZE
           in (Ok (), A\<lparr>base := start, total_pages := total,
                inner := ba_insert B 0 (unat total) (inner A)\<rparr>))"

definition bitmap_add_memory ::
  "usize \<Rightarrow> usize \<Rightarrow> ('b BitmapPageAllocator, unit, AllocError) action" where
  "bitmap_add_memory start sz A = (Err NoMemory, A)"

definition alloc_pages ::
  "'b BitAlloc \<Rightarrow> usize \<Rightarrow> usize \<Rightarrow> usize \<Rightarrow> ('b BitmapPageAllocator, usize, AllocError) action" where
  "alloc_pages B PAGE_SIZE num_pages align_pow2 A =
     (if align_pow2 mod PAGE_SIZE \<noteq> 0 then (Err InvalidParam, A)
      else let align_pow2 = align_pow2 div PAGE_SIZE in
        if \<not> is_power_of_two align_pow2 then (Err InvalidParam, A)
        else let align_log2 = trailing_zeros align_pow2 in
          if num_pages < 1 then (Err InvalidParam, A)
          else case (if num_pages = 1 then ba_alloc B (inner A)
                     else ba_alloc_contiguous B (inner A) (unat num_pages) align_log2) of
            (Some idx, b) \<Rightarrow> (Ok (of_nat idx * PAGE_SIZE + base A),
                 A\<lparr>inner := b, used_pages := used_pages A + num_pages\<rparr>)
          | (None, b) \<Rightarrow> (Err NoMemory, A\<lparr>inner := b\<rparr>))"

definition dealloc_pages ::
  "'b BitAlloc \<Rightarrow> usize \<Rightarrow> usize \<Rightarrow> usize \<Rightarrow> 'b BitmapPageAllocator \<Rightarrow> 'b BitmapPageAllocator" where
  "dealloc_pages B PAGE_SIZE pos num_pages A =
     A\<lparr>used_pages := used_pages A - num_pages,
       inner := ba_dealloc B (unat ((pos - base A) div PAGE_SIZE)) (inner A)\<rparr>"

definition available_pages :: "'b BitmapPageAllocator \<Rightarrow> usize" where
  "available_pages A = total_pages A - used_pages A"

subsection \<open>The global allocator\<close>

record Layout =
  layout_size :: usize
  layout_align :: usize

record 'h ByteAllocator =
  by_init :: "usize \<Rightarrow> usize \<Rightarrow> 'h \<Rightarrow> 'h"
  by_add_memory :: "usize \<Rightarrow> usize \<Rightarrow> ('h, unit, AllocError) action"
  by_alloc :: "Layout \<Rightarrow> ('h, usize, AllocError) action"
  by_dealloc :: "usize \<Rightarrow> Layout \<Rightarrow> 'h \<Rightarrow> 'h"
  by_total_bytes :: "'h \<Rightarrow> usize"

record ('b, 'h) GlobalAllocator =
  balloc :: 'h
  palloc :: "'b BitmapPageAllocator"

definition PAGE_SIZE :: usize where "PAGE_SIZE = 0x1000"
definition MIN_HEAP_SIZE :: usize where "MIN_HEAP_SIZE = 0x8000"

definition global_alloc_pages ::
  "'b BitAlloc \<Rightarrow> usize \<Rightarrow> usize \<Rightarrow> (('b, 'h) GlobalAllocator, usize, AllocError) action" where
  "global_alloc_pages B num_pages align_pow2 G =
     (case alloc_pages B PAGE_SIZE num_pages align_pow2 (palloc G) of
        (r, A) \<Rightarrow> (r, G\<lparr>palloc := A\<rparr>))"

definition global_dealloc_pages ::
  "'b BitAlloc \<Rightarrow> usize \<Rightarrow> usize \<Rightarrow> ('b, 'h) GlobalAllocator \<Rightarrow> ('b, 'h) GlobalAllocator" where
  "global_dealloc_pages B pos num_pages G =
     G\<lparr>palloc := dealloc_pages B PAGE_SIZE pos num_pages (palloc G)\<rparr>"

definition global_init ::
  "'b BitAlloc \<Rightarrow> 'h ByteAllocator \<Rightarrow> usize \<Rightarrow> usize \<Rightarrow>
     (('b, 'h) GlobalAllocator, unit, AllocError) action" where
  "global_init B H start_vaddr sz G =
     (if \<not> MIN_HEAP_SIZE < sz then (Panic, G)
      else case bitmap_init B PAGE_SIZE start_vaddr sz (palloc G) of
        (Ok _, A) \<Rightarrow> and_then
            (unwrap_act (global_alloc_pages B (MIN_HEAP_SIZE div PAGE_SIZE) PAGE_SIZE))
            (\<lambda>heap_ptr G. (Ok (), G\<lparr>balloc := by_init H heap_ptr MIN_HEAP_SIZE (balloc G)\<rparr>))
            (G\<lparr>palloc := A\<rparr>)
      | (_, A) \<Rightarrow> (Panic, G\<lparr>palloc := A\<rparr>))"

fun next_power_of_two_from :: "nat \<Rightarrow> nat \<Rightarrow> usize \<Rightarrow> usize" where
  "next_power_of_two_from 0 k x = 0"
| "next_power_of_two_from (Suc n) k x =
     (if unat x \<le> 2 ^ k then 2 ^ k else next_power_of_two_from n (Suc k) x)"

text \<open>\<open>usize::next_power_of_two\<close>, which wraps to 0 in a release build.\<close>

definition next_power_of_two :: "usize \<Rightarrow> usize" where
  "next_power_of_two x = next_power_of_two_from 64 0 x"

definition expand_bytes :: "'h ByteAllocator \<Rightarrow> Layout \<Rightarrow> 'h \<Rightarrow> usize" where
  "expand_bytes H layout h =
     max (next_power_of_two (max (by_total_bytes H h) (layout_size layout))) PAGE_SIZE"

fun global_alloc ::
  "nat \<Rightarrow> 'b BitAlloc \<Rightarrow> 'h ByteAllocator \<Rightarrow> Layout \<Rightarrow>
     (('b, 'h) GlobalAllocator, usize, AllocError) action" where
  "global_alloc 0 B H layout G = (Diverge, G)"
| "global_alloc (Suc fuel) B H layout G =
     (case by_alloc H layout (balloc G) of
        (Ok ptr, h) \<Rightarrow> (Ok ptr, G\<lparr>balloc := h\<rparr>)
      | (Err e, h) \<Rightarrow>
          let expand_size = expand_bytes H layout h in
          and_then (global_alloc_pages B (expand_size div PAGE_SIZE) PAGE_SIZE) (\<lambda>heap_ptr G.
            (case by_add_memory H heap_ptr expand_size (balloc G) of
               (Ok _, h) \<Rightarrow> global_alloc fuel B H layout (G\<lparr>balloc := h\<rparr>)
             | (Err e, h) \<Rightarrow> (Err e, G\<lparr>balloc := h\<rparr>)
             | (Panic, h) \<Rightarrow> (Panic, G\<lparr>balloc := h\<rparr>)
             | (Diverge, h) \<Rightarrow> (Diverge, G\<lparr>balloc := h\<rparr>))) (G\<lparr>balloc := h\<rparr>)
      | (Panic, h) \<Rightarrow> (Panic, G\<lparr>balloc := h\<rparr>)
      | (Diverge, h) \<Rightarrow> (Diverge, G\<lparr>balloc := h\<rparr>))"

definition global_dealloc ::
  "'h ByteAllocator \<Rightarrow> usize \<Rightarrow> Layout \<Rightarrow> ('b, 'h) GlobalAllocator \<Rightarrow> ('b, 'h) GlobalAllocator" where
  "global_dealloc H pos layout G = G\<lparr>balloc := by_dealloc H pos layout (balloc G)\<rparr>"

definition global_add_memory ::
  "'h ByteAllocator \<Rightarrow> usize \<Rightarrow> usize \<Rightarrow> (('b, 'h) GlobalAllocator, unit, AllocError) action" where
  "global_add_memory H start_vaddr sz G =
     (case by_add_memory H start_vaddr sz (balloc G) of (r, h) \<Rightarrow> (r, G\<lparr>balloc := h\<rparr>))"

subsection \<open>Owned pages\<close>

fun alloc_err_to_ax_err :: "AllocError \<Rightarrow> AxError" where
  "alloc_err_to_ax_err InvalidParam = InvalidInput"
| "alloc_err_to_ax_err MemoryOverlap = InvalidInput"
| "alloc_err_to_ax_err NotAllocated = InvalidInput"
| "alloc_err_to_ax_err NoMemory = AxError.NoMemory"

record PhysPage =
  start_vaddr :: VirtAddr

definition PhysPage_alloc ::
  "'b BitAlloc \<Rightarrow> (('b, 'h) GlobalAllocator, PhysPage, AxError) action" where
  "PhysPage_alloc B G = (case global_alloc_pages B 1 PAGE_SIZE G of
     (r, G') \<Rightarrow> (map_err alloc_err_to_ax_err (res_bind r (\<lambda>vaddr. Ok \<lparr>start_vaddr = vaddr\<rparr>)), G'))"

definition PhysPage_alloc_contiguous ::
  "'b BitAlloc \<Rightarrow> usize \<Rightarrow> usize \<Rightarrow> u8 list option \<Rightarrow>
     (('b, 'h) GlobalAllocator, PhysPage option list \<times> u8 list, AxError) action" where
  "PhysPage_alloc_contiguous B num_pages align_pow2 data G =
     (case global_alloc_pages B num_pages align_pow2 G of
        (r, G') \<Rightarrow> (map_err alloc_err_to_ax_err (res_bind r (\<lambda>vaddr.
            let pages = replicate (unat (num_pages * PAGE_SIZE)) 0 in
            case data of
              None \<Rightarrow> Ok (map (\<lambda>page_idx. Some \<lparr>start_vaddr = vaddr + of_nat page_idx * PAGE_SIZE\<rparr>)
                        [0..<unat num_pages], pages)
            | Some d \<Rightarrow>
                if length d \<le> length pages
                then Ok (map (\<lambda>page_idx. Some \<lparr>start_vaddr = vaddr + of_nat page_idx * PAGE_SIZE\<rparr>)
                        [0..<unat num_pages], d @ drop (length d) pages)
                else Panic)), G'))"

definition PhysPage_drop ::
  "'b BitAlloc \<Rightarrow> PhysPage \<Rightarrow> ('b, 'h) GlobalAllocator \<Rightarrow> ('b, 'h) GlobalAllocator" where
  "PhysPage_drop B p G = global_dealloc_pages B (start_vaddr p) 1 G"

record GlobalPage =
  gp_start_vaddr :: VirtAddr
  gp_num_pages :: usize

definition GlobalPage_alloc_contiguous ::
  "'b BitAlloc \<Rightarrow> usize \<Rightarrow> usize \<Rightarrow> (('b, 'h) GlobalAllocator, GlobalPage, AxError) action" where
  "GlobalPage_alloc_contiguous B num_pages align_pow2 G =
     (case global_alloc_pages B num_pages align_pow2 G of
        (r, G') \<Rightarrow> (map_err alloc_err_to_ax_err (res_bind r (\<lambda>vaddr.
           Ok \<lparr>gp_start_vaddr = vaddr, gp_num_pages = num_pages\<rparr>)), G'))"

definition GlobalPage_drop ::
  "'b BitAlloc \<Rightarrow> GlobalPage \<Rightarrow> ('b, 'h) GlobalAllocator \<Rightarrow> ('b, 'h) GlobalAllocator" where
  "GlobalPage_drop B p G = global_dealloc_pages B (gp_start_vaddr p) (gp_num_pages p) G"


subsection \<open>The contract of the bitmap\<close>

locale bit_alloc =
  fixes B :: "'b BitAlloc" and free :: "'b \<Rightarrow> nat set"
  assumes alloc_Some: "ba_alloc B b = (Some k, b') \<Longrightarrow> k \<in> free b \<and> free b' = free b - {k}"
    and alloc_None: "ba_alloc B b = (None, b') \<Longrightarrow> free b = {} \<and> free b' = {}"
    and contiguous_Some: "ba_alloc_contiguous B b n a = (Some k, b') \<Longrightarrow>
      {k..<k + n} \<subseteq> free b \<and> free b' = free b - {k..<k + n} \<and> 2 ^ a dvd k"
    and contiguous_None: "ba_alloc_contiguous B b n a = (None, b') \<Longrightarrow> free b' = free b"
    and dealloc_free: "k \<notin> free b \<Longrightarrow> free (ba_dealloc B k b) = insert k (free b)"
    and insert_free: "free (ba_insert B lo hi b) = free b \<union> {lo..<hi}"

text \<open>
  A page allocator is well formed when its pages fit the address space and the bitmap offers
  none but them. \<open>page_addr\<close> is the address of a page.
\<close>

definition page_alloc_wf :: "('b \<Rightarrow> nat set) \<Rightarrow> nat \<Rightarrow> 'b BitmapPageAllocator \<Rightarrow> bool" where
  "page_alloc_wf free k A \<longleftrightarrow> k < 64 \<and> unat (base A) + unat (total_pages A) * 2 ^ k \<le> 2 ^ 64 \<and>
     2 ^ k dvd unat (base A) \<and> free (inner A) \<subseteq> {..<unat (total_pages A)}"

definition page_addr :: "nat \<Rightarrow> 'b BitmapPageAllocator \<Rightarrow> nat \<Rightarrow> usize" where
  "page_addr k A idx = of_nat idx * 2 ^ k + base A"

lemma page_mult_bound:
  assumes "page_alloc_wf free k A" and "idx < unat (total_pages A)"
  shows "unat (base A) + idx * 2 ^ k + 2 ^ k \<le> 2 ^ 64"
proof -
  have "Suc idx * 2 ^ k \<le> unat (total_pages A) * 2 ^ k"
    using assms(2) by (intro mult_le_mono1) simp
  then show ?thesis using assms(1) by (simp add: page_alloc_wf_def)
qed

lemma unat_page_addr:
  assumes "page_alloc_wf free k A" and "idx < unat (total_pages A)"
  shows "unat (page_addr k A idx) = unat (base A) + idx * 2 ^ k"
proof -
  have le: "unat (base A) + idx * 2 ^ k + 2 ^ k \<le> 2 ^ 64" by (rule page_mult_bound [OF assms])
  moreover have "(0 :: nat) < 2 ^ k" by simp
  ultimately have lt: "unat (base A) + idx * 2 ^ k < 2 ^ 64" by linarith
  have "page_addr k A idx = of_nat (unat (base A) + idx * 2 ^ k)"
    by (simp add: page_addr_def)
  then show ?thesis using unat_of_nat_64 [OF lt] by metis
qed

lemma page_index_of_addr:
  assumes wf: "page_alloc_wf free k A" and "idx < unat (total_pages A)"
  shows "unat ((page_addr k A idx - base A) div 2 ^ k) = idx"
proof -
  have k: "k < 64" using wf by (simp add: page_alloc_wf_def)
  have "unat (page_addr k A idx - base A) = idx * 2 ^ k"
    using unat_page_addr [OF assms] by (subst unat_sub_no_underflow) simp_all
  then show ?thesis by (simp add: unat_div unat_pow2_64 [OF k])
qed

lemma page_addr_aligned:
  assumes "page_alloc_wf free k A" and "idx < unat (total_pages A)"
  shows "2 ^ k dvd unat (page_addr k A idx)"
  using assms(1) unat_page_addr [OF assms] by (simp add: page_alloc_wf_def)

lemma page_addr_inj:
  assumes "page_alloc_wf free k A" and "i < unat (total_pages A)" and "j < unat (total_pages A)"
    and "page_addr k A i = page_addr k A j"
  shows "i = j"
proof -
  have "unat (base A) + i * 2 ^ k = unat (base A) + j * 2 ^ k"
    using unat_page_addr [OF assms(1,2)] unat_page_addr [OF assms(1,3)] assms(4) by metis
  then show ?thesis by simp
qed

subsection \<open>Allocation and deallocation of pages\<close>

lemma is_power_of_two_PAGE_SIZE [simp]: "is_power_of_two 1" "PAGE_SIZE div PAGE_SIZE = 1" "PAGE_SIZE mod PAGE_SIZE = 0"
  by (simp_all add: is_power_of_two_def PAGE_SIZE_def)

context bit_alloc
begin

lemma alloc_pages_Ok:
  assumes run: "alloc_pages B (2 ^ k) n al A = (Ok pos, A')" and wf: "page_alloc_wf free k A"
  shows "\<exists>idx. {idx..<idx + unat n} \<subseteq> free (inner A) \<and> 0 < n \<and> pos = page_addr k A idx \<and>
    A' = A\<lparr>inner := inner A', used_pages := used_pages A + n\<rparr> \<and>
    free (inner A') = free (inner A) - {idx..<idx + unat n} \<and> page_alloc_wf free k A' \<and>
    (1 < n \<longrightarrow> 2 ^ trailing_zeros (al div 2 ^ k) dvd idx)"
proof -
  have n: "\<not> n < 1" using run by (auto simp: alloc_pages_def Let_def split: if_splits)
  then have n0: "0 < n" by (metis not_less word_le_0_iff word_less_1 word_neq_0_conv)
  let ?call = "if n = 1 then ba_alloc B (inner A)
      else ba_alloc_contiguous B (inner A) (unat n) (trailing_zeros (al div 2 ^ k))"
  obtain idx b where c: "?call = (Some idx, b)" and pos: "pos = of_nat idx * 2 ^ k + base A"
    and A': "A' = A\<lparr>inner := b, used_pages := used_pages A + n\<rparr>"
    using run n by (auto simp: alloc_pages_def Let_def split: if_splits prod.splits option.splits)
  have "{idx..<idx + unat n} \<subseteq> free (inner A) \<and> free b = free (inner A) - {idx..<idx + unat n} \<and>
      (1 < n \<longrightarrow> 2 ^ trailing_zeros (al div 2 ^ k) dvd idx)"
  proof (cases "n = 1")
    case True
    then show ?thesis using c alloc_Some [of "inner A" idx b] by auto
  next
    case False
    then show ?thesis using c contiguous_Some [of "inner A" "unat n" _ idx b] by simp
  qed
  then show ?thesis
    using pos wf n0 by (intro exI [of _ idx]) (auto simp: A' page_addr_def page_alloc_wf_def)
qed

lemma alloc_pages_Err:
  assumes "alloc_pages B (2 ^ k) n al A = (Err e, A')"
  shows "free (inner A') = free (inner A) \<and> A' = A\<lparr>inner := inner A'\<rparr> \<and> (e = InvalidParam \<or> e = NoMemory)"
proof -
  let ?call = "if n = 1 then ba_alloc B (inner A)
      else ba_alloc_contiguous B (inner A) (unat n) (trailing_zeros (al div 2 ^ k))"
  have "A' = A \<and> e = InvalidParam \<or> (\<exists>b. ?call = (None, b) \<and> A' = A\<lparr>inner := b\<rparr> \<and> e = NoMemory)"
    using assms by (auto simp: alloc_pages_def Let_def split: if_splits prod.splits option.splits)
  moreover have "free b = free (inner A)" if "?call = (None, b)" for b
    using that alloc_None [of "inner A" b] contiguous_None [of "inner A" "unat n" _ b]
    by (cases "n = 1") auto
  ultimately show ?thesis by auto
qed

lemma dealloc_pages_free:
  assumes wf: "page_alloc_wf free k A" and "idx < unat (total_pages A)" and "idx \<notin> free (inner A)"
  shows "free (inner (dealloc_pages B (2 ^ k) (page_addr k A idx) n A)) = insert idx (free (inner A))"
    and "page_alloc_wf free k (dealloc_pages B (2 ^ k) (page_addr k A idx) n A)"
proof -
  show *: "free (inner (dealloc_pages B (2 ^ k) (page_addr k A idx) n A)) = insert idx (free (inner A))"
    using dealloc_free [OF assms(3)] by (simp add: dealloc_pages_def page_index_of_addr [OF assms(1,2)])
  show "page_alloc_wf free k (dealloc_pages B (2 ^ k) (page_addr k A idx) n A)"
    using wf assms(2) * by (simp add: page_alloc_wf_def dealloc_pages_def)
qed

lemma bitmap_init_wf:
  assumes "k < 64" and "unat start + unat sz + 2 ^ k < 2 ^ 64" and "2 ^ k \<le> unat sz"
    and "free (inner A) = {}" and run: "bitmap_init B (2 ^ k) start sz A = (r, A')"
  shows "r = Ok () \<and> page_alloc_wf free k A' \<and> free (inner A') = {..<unat (total_pages A')} \<and>
    used_pages A' = used_pages A \<and> unat start \<le> unat (base A') \<and>
    unat (base A') + unat (total_pages A') * 2 ^ k \<le> unat start + unat sz"
proof -
  have pw: "is_power_of_two (2 ^ k)"
  proof -
    have "(2 ^ k :: usize) \<noteq> 0" using unat_pow2_64 [OF assms(1)] by (metis unat_0 power_not_zero zero_neq_numeral)
    moreover have "(2 ^ k :: usize) AND (2 ^ k - 1) = 0"
      by (rule usize_eqI) (simp add: unat_and_pow2_mask unat_pow2_64 [OF assms(1)])
    ultimately show ?thesis by (simp add: is_power_of_two_def)
  qed
  define st where "st = align_up start (2 ^ k)"
  define en where "en = align_down (start + sz) (2 ^ k)"
  have ust: "unat st = (unat start + 2 ^ k - 1) div 2 ^ k * 2 ^ k"
    unfolding st_def using assms(1-3) by (intro unat_align_up) auto
  have "unat (start + sz) = unat start + unat sz"
    using assms(2) by (intro unat_add_no_overflow) simp
  then have uen: "unat en = (unat start + unat sz) div 2 ^ k * 2 ^ k"
    by (simp add: en_def unat_align_down)
  let ?P = "(2 :: nat) ^ k"
  have ds: "unat start \<le> unat st" "?P dvd unat st"
    unfolding ust using div_mult_mod_eq [of "unat start + ?P - 1" ?P] mod_less_divisor [of ?P "unat start + ?P - 1"]
    by (auto simp del: mod_less_divisor) 
  have "(unat start + ?P - 1) div ?P \<le> (unat start + unat sz) div ?P"
    using assms(3) by (intro div_le_mono) simp
  then have le: "unat st \<le> unat en" unfolding ust uen by (rule mult_le_mono1)
  have en: "unat en \<le> unat start + unat sz" unfolding uen by simp
  have tot: "unat ((en - st) div 2 ^ k) * ?P = unat en - unat st"
    using le ds(2) by (simp add: unat_div unat_pow2_64 [OF assms(1)] unat_sub_no_underflow uen)
  have A': "r = Ok ()" "A' = A\<lparr>base := st, total_pages := (en - st) div 2 ^ k,
      inner := ba_insert B 0 (unat ((en - st) div 2 ^ k)) (inner A)\<rparr>"
    using run pw by (auto simp: bitmap_init_def Let_def st_def en_def)
  show ?thesis
    using ds le en tot assms(1,2) by (auto simp: A' page_alloc_wf_def insert_free assms(4))
qed

lemma free_finite: "page_alloc_wf free k A \<Longrightarrow> finite (free (inner A))"
  unfolding page_alloc_wf_def by (meson finite_lessThan finite_subset)

lemma alloc_pages_card:
  assumes "alloc_pages B (2 ^ k) n al A = (Ok pos, A')" and wf: "page_alloc_wf free k A"
  shows "card (free (inner A')) + unat n = card (free (inner A))"
proof -
  obtain idx where i: "{idx..<idx + unat n} \<subseteq> free (inner A)"
    "free (inner A') = free (inner A) - {idx..<idx + unat n}"
    using alloc_pages_Ok [OF assms] by blast
  have "card {idx..<idx + unat n} \<le> card (free (inner A))"
    using card_mono [OF free_finite [OF wf] i(1)] .
  then show ?thesis
    using i card_Diff_subset [OF _ i(1)] by simp
qed

lemma global_alloc_terminates:
  assumes calm: "\<And>l h. fst (by_alloc H l h) \<noteq> Diverge" "\<And>a n h. fst (by_add_memory H a n h) \<noteq> Diverge"
    and "page_alloc_wf free 12 (palloc G)" and "card (free (inner (palloc G))) < fuel"
  shows "fst (global_alloc fuel B H layout G) \<noteq> Diverge"
  using assms(3,4)
proof (induction fuel arbitrary: G)
  case (Suc fuel)
  obtain r h where a: "by_alloc H layout (balloc G) = (r, h)" by fastforce
  show ?case
  proof (cases r)
    case (Err e)
    define n where "n = expand_bytes H layout h div PAGE_SIZE"
    have n: "0 < unat n"
    proof -
      have "PAGE_SIZE \<le> expand_bytes H layout h" by (simp add: expand_bytes_def)
      then have "4096 \<le> unat (expand_bytes H layout h)" by (simp add: word_le_nat_alt PAGE_SIZE_def)
      then show ?thesis by (simp add: n_def unat_div PAGE_SIZE_def)
    qed
    obtain r1 A where p: "alloc_pages B PAGE_SIZE n PAGE_SIZE (palloc G) = (r1, A)" by fastforce
    have pg: "PAGE_SIZE = 2 ^ 12" by (simp add: PAGE_SIZE_def)
    show ?thesis
    proof (cases r1)
      case (Ok pos)
      note ok = p [unfolded Ok pg]
      have wf: "page_alloc_wf free 12 A"
        using alloc_pages_Ok [OF ok Suc.prems(1)] by blast
      have "card (free (inner A)) < fuel"
        using alloc_pages_card [OF ok Suc.prems(1)] n Suc.prems(2) by linarith
      then have IH: "fst (global_alloc fuel B H layout (G\<lparr>balloc := h, palloc := A, balloc := h'\<rparr>)) \<noteq> Diverge" for h'
        using Suc.IH [of "G\<lparr>balloc := h, palloc := A, balloc := h'\<rparr>"] wf by simp
      obtain r2 h2 where b: "by_add_memory H pos (expand_bytes H layout h) h = (r2, h2)" by fastforce
      then show ?thesis
        using IH [of h2] calm(2) [of pos "expand_bytes H layout h" h] p
        by (cases r2) (simp_all add: a Err Ok and_then_def global_alloc_pages_def Let_def n_def)
    qed (use p in \<open>auto simp: a Err and_then_def global_alloc_pages_def Let_def n_def
        alloc_pages_def split: if_splits prod.splits option.splits\<close>)
  qed (use calm(1) [of layout "balloc G"] in \<open>simp_all add: a\<close>)
qed simp

end

subsection \<open>A bitmap as the list of its free bits\<close>

definition list_bits :: "nat list BitAlloc" where
  "list_bits = \<lparr>
     ba_alloc = (\<lambda>l. case l of [] \<Rightarrow> (None, []) | k # l' \<Rightarrow> (Some k, filter (\<lambda>j. j \<noteq> k) l')),
     ba_alloc_contiguous = (\<lambda>l n a. case find (\<lambda>k. k mod 2 ^ a = 0 \<and>
          list_all (\<lambda>j. j \<in> set l) [k..<k + n]) l of
        None \<Rightarrow> (None, l) | Some k \<Rightarrow> (Some k, filter (\<lambda>j. j \<notin> {k..<k + n}) l)),
     ba_dealloc = (\<lambda>k l. k # l),
     ba_insert = (\<lambda>lo hi l. l @ [lo..<hi])\<rparr>"

lemma list_bits_bit_alloc: "bit_alloc list_bits set"
proof
  fix b b' k n a lo hi
  show "ba_alloc list_bits b = (Some k, b') \<Longrightarrow> k \<in> set b \<and> set b' = set b - {k}"
    by (auto simp: list_bits_def split: list.splits)
  show "ba_alloc list_bits b = (None, b') \<Longrightarrow> set b = {} \<and> set b' = {}"
    by (auto simp: list_bits_def split: list.splits)
  show "ba_alloc_contiguous list_bits b n a = (Some k, b') \<Longrightarrow>
      {k..<k + n} \<subseteq> set b \<and> set b' = set b - {k..<k + n} \<and> 2 ^ a dvd k"
    by (auto simp: list_bits_def find_Some_iff list_all_iff split: option.splits)
  show "ba_alloc_contiguous list_bits b n a = (None, b') \<Longrightarrow> set b' = set b"
    by (auto simp: list_bits_def split: option.splits)
  show "k \<notin> set b \<Longrightarrow> set (ba_dealloc list_bits k b) = insert k (set b)"
    by (simp add: list_bits_def)
  show "set (ba_insert list_bits lo hi b) = set b \<union> {lo..<hi}"
    by (simp add: list_bits_def)
qed

interpretation list_bitmap: bit_alloc list_bits set
  by (rule list_bits_bit_alloc)


subsection \<open>Properties\<close>

text \<open>
  C37: a successful \<open>alloc_pages\<close> hands out pages that were all free, lie inside the managed
  region and are page aligned, marks exactly them as taken and counts them; a failing one
  takes nothing. Its only errors are \<open>InvalidParam\<close> and \<open>NoMemory\<close>.
\<close>

theorem alloc_pages_fresh:
  assumes "bit_alloc B free" and "page_alloc_wf free k A"
    and "alloc_pages B (2 ^ k) n al A = (r, A')"
  shows "page_alloc_wf free k A' \<and>
    (\<forall>pos. r = Ok pos \<longrightarrow> 2 ^ k dvd unat pos \<and> used_pages A' = used_pages A + n \<and>
       (\<exists>idx. pos = page_addr k A idx \<and> {idx..<idx + unat n} \<subseteq> free (inner A) \<and>
          idx + unat n \<le> unat (total_pages A) \<and>
          free (inner A') = free (inner A) - {idx..<idx + unat n})) \<and>
    (\<forall>e. r = Err e \<longrightarrow> (e = InvalidParam \<or> e = NoMemory) \<and>
       free (inner A') = free (inner A) \<and> used_pages A' = used_pages A)"
proof (cases r)
  case (Ok pos)
  obtain idx where i: "{idx..<idx + unat n} \<subseteq> free (inner A)" "0 < n" "pos = page_addr k A idx"
    "A' = A\<lparr>inner := inner A', used_pages := used_pages A + n\<rparr>"
    "free (inner A') = free (inner A) - {idx..<idx + unat n}" "page_alloc_wf free k A'"
    using bit_alloc.alloc_pages_Ok [OF assms(1) assms(3) [unfolded Ok] assms(2)] by blast
  have n: "0 < unat n" using i(2) by (simp add: word_less_nat_alt)
  have "{idx..<idx + unat n} \<subseteq> {..<unat (total_pages A)}"
    using i(1) assms(2) by (auto simp: page_alloc_wf_def)
  then have "idx + unat n \<le> unat (total_pages A)" by (rule range_subset_le [OF _ n])
  moreover from this n have "idx < unat (total_pages A)" by linarith
  moreover have "used_pages A' = used_pages A + n" by (subst i(4)) simp
  ultimately show ?thesis
    using i page_addr_aligned [OF assms(2)] by (auto simp: Ok)
next
  case (Err e)
  have e: "free (inner A') = free (inner A)" "A' = A\<lparr>inner := inner A'\<rparr>" "e = InvalidParam \<or> e = NoMemory"
    using bit_alloc.alloc_pages_Err [OF assms(1) assms(3) [unfolded Err]] by auto
  have t: "used_pages A' = used_pages A" "total_pages A' = total_pages A" "base A' = base A"
    by (subst e(2), simp)+
  then show ?thesis using e(1,3) assms(2) by (auto simp: Err page_alloc_wf_def)
qed (use assms(3) in \<open>auto simp: alloc_pages_def Let_def split: if_splits prod.splits option.splits\<close>)


definition demo_pages :: "nat list BitmapPageAllocator" where
  "demo_pages = \<lparr>base = 0x80201000, total_pages = 8, used_pages = 0, inner = [0, 1, 2, 3, 4, 5, 6, 7]\<rparr>"

lemma demo_pages_wf: "page_alloc_wf set 12 demo_pages"
  by (simp add: page_alloc_wf_def demo_pages_def)

theorem alloc_pages_fresh_witness:
  "\<exists>A'. alloc_pages list_bits (2 ^ 12) 2 0x1000 demo_pages = (Ok 0x80201000, A') \<and>
     page_alloc_wf set 12 A' \<and> used_pages A' = 2"
proof -
  have "fst (alloc_pages list_bits (2 ^ 12) 2 0x1000 demo_pages) = Ok 0x80201000"
    by code_simp
  note run = fst_run [OF this]
  have "used_pages demo_pages + 2 = 2" by (simp add: demo_pages_def)
  then show ?thesis
    using alloc_pages_fresh [OF list_bits_bit_alloc demo_pages_wf run] run by metis
qed

text \<open>
  Initialisation accepts a region of at least one page, manages only whole pages inside
  it, and makes all of them available.
\<close>

lemma bitmap_init_region:
  assumes "bit_alloc B free" and "k < 64" and "unat start + unat sz + 2 ^ k < 2 ^ 64"
    and "2 ^ k \<le> unat sz" and "free (inner A) = {}" and "bitmap_init B (2 ^ k) start sz A = (r, A')"
  shows "r = Ok () \<and> page_alloc_wf free k A' \<and> free (inner A') = {..<unat (total_pages A')} \<and>
    used_pages A' = used_pages A \<and> unat start \<le> unat (base A') \<and>
    unat (base A') + unat (total_pages A') * 2 ^ k \<le> unat start + unat sz"
  by (rule bit_alloc.bitmap_init_wf [OF assms])

text \<open>
  \<open>dealloc_pages\<close> with a page count above one gives back the first page only, although it
  takes the whole count off \<open>used_pages\<close>: after allocating \<open>n\<close> pages and returning them the other
  \<open>n - 1\<close> pages stay unavailable for ever while the statistics report them as available.
\<close>

lemma dealloc_pages_leaks:
  assumes "bit_alloc B free" and "page_alloc_wf free k A"
    and "alloc_pages B (2 ^ k) n al A = (Ok pos, A')"
    and "A'' = dealloc_pages B (2 ^ k) pos n A'"
  shows "used_pages A'' = used_pages A \<and> available_pages A'' = available_pages A \<and>
    card (free (inner A'')) + unat n = card (free (inner A)) + 1"
proof -
  obtain idx where i: "{idx..<idx + unat n} \<subseteq> free (inner A)" "0 < n" "pos = page_addr k A idx"
    "A' = A\<lparr>inner := inner A', used_pages := used_pages A + n\<rparr>"
    "free (inner A') = free (inner A) - {idx..<idx + unat n}" "page_alloc_wf free k A'"
    using bit_alloc.alloc_pages_Ok [OF assms(1,3,2)] by blast
  have t: "total_pages A' = total_pages A" "base A' = base A" "used_pages A' = used_pages A + n"
    by (subst i(4), simp)+
  have "0 < unat n" using i(2) by (simp add: word_less_nat_alt)
  then have mem: "idx \<in> {idx..<idx + unat n}" by simp
  then have "idx \<in> free (inner A)" using i(1) by blast
  then have idx: "idx < unat (total_pages A')" "idx \<notin> free (inner A')"
    using i(5) mem assms(2) t(1) by (auto simp: page_alloc_wf_def)
  have "pos = page_addr k A' idx" by (simp add: i(3) page_addr_def t(2))
  then have "free (inner A'') = insert idx (free (inner A'))"
    using bit_alloc.dealloc_pages_free(1) [OF assms(1) i(6) idx, of n] assms(4) by simp
  then have "card (free (inner A'')) = Suc (card (free (inner A')))"
    using bit_alloc.free_finite [OF assms(1) i(6)] idx(2) by simp
  then show ?thesis
    using bit_alloc.alloc_pages_card [OF assms(1,3,2)] t assms(4)
    by (simp add: dealloc_pages_def available_pages_def)
qed

text \<open>
  C38: the two-level allocator always returns: each round that cannot serve the request takes
  at least one page from the page allocator, so after as many rounds as there are free pages
  it has either served the request or reported the error of the page allocator.
\<close>

theorem global_alloc_returns:
  assumes "bit_alloc B free" and "page_alloc_wf free 12 (palloc G)"
    and "\<And>l h. fst (by_alloc H l h) \<noteq> Diverge" and "\<And>a n h. fst (by_add_memory H a n h) \<noteq> Diverge"
  shows "fst (global_alloc (card (free (inner (palloc G))) + 1) B H layout G) \<noteq> Diverge"
  by (rule bit_alloc.global_alloc_terminates [OF assms(1,3,4,2)]) simp

definition greedy_bytes :: "nat ByteAllocator" where
  "greedy_bytes = \<lparr>by_init = (\<lambda>_ _ h. h), by_add_memory = (\<lambda>_ n h. (Ok (), h + unat n)),
     by_alloc = (\<lambda>l h. if unat (layout_size l) \<le> h then (Ok 0x1000, h - unat (layout_size l)) else (Err NoMemory, h)),
     by_dealloc = (\<lambda>_ l h. h + unat (layout_size l)), by_total_bytes = (\<lambda>h. of_nat h)\<rparr>"

theorem global_alloc_returns_witness:
  "fst (global_alloc (card (set (inner demo_pages)) + 1) list_bits greedy_bytes
     \<lparr>layout_size = 0x20000, layout_align = 8\<rparr> \<lparr>balloc = 0, palloc = demo_pages\<rparr>) \<noteq> Diverge"
proof -
  have "fst (by_alloc greedy_bytes l h) \<noteq> Diverge" "fst (by_add_memory greedy_bytes a n h) \<noteq> Diverge" for l h a n
    by (simp_all add: greedy_bytes_def)
  then show ?thesis
    using global_alloc_returns [OF list_bits_bit_alloc, of "\<lparr>balloc = 0, palloc = demo_pages\<rparr>" greedy_bytes]
      demo_pages_wf by (simp del: global_alloc.simps)
qed

end
