(* ===== verification/Slab.thy ===== *)
theory Slab
  imports Allocator
begin

text \<open>
  The crate \<open>crates/slab_allocator\<close> and its wrapper \<open>crates/allocator/src/slab.rs\<close>: seven slabs of
  fixed block sizes over a buddy heap. The buddy heap is the crate \<open>buddy_system_allocator\<close>,
  which is not part of the repository, and is the parameter \<open>BuddyHeap\<close> with the contract in the
  locale \<open>buddy_heap\<close>. A free list links its blocks through the blocks themselves; it is the list
  of their addresses, first the head.
\<close>

definition SET_SIZE :: usize where "SET_SIZE = 64"
definition SLAB_MIN_HEAP_SIZE :: usize where "SLAB_MIN_HEAP_SIZE = 0x8000"

record 'd BuddyHeap =
  bd_new :: 'd
  bd_init :: "usize \<Rightarrow> usize \<Rightarrow> 'd \<Rightarrow> 'd"
  bd_add_to_heap :: "usize \<Rightarrow> usize \<Rightarrow> 'd \<Rightarrow> 'd"
  bd_alloc :: "Layout \<Rightarrow> 'd \<Rightarrow> usize option \<times> 'd"
  bd_dealloc :: "usize \<Rightarrow> Layout \<Rightarrow> 'd \<Rightarrow> 'd"
  bd_stats_total_bytes :: "'d \<Rightarrow> usize"
  bd_stats_alloc_actual :: "'d \<Rightarrow> usize"

subsection \<open>Free lists\<close>

record FreeBlockList =
  fl_len :: usize
  fl_head :: "usize list"

definition fl_new_empty :: FreeBlockList where
  "fl_new_empty = \<lparr>fl_len = 0, fl_head = []\<rparr>"

fun fl_pop :: "FreeBlockList \<Rightarrow> usize option \<times> FreeBlockList" where
  "fl_pop l = (case fl_head l of
      [] \<Rightarrow> (None, l)
    | node # rest \<Rightarrow> (Some node, l\<lparr>fl_head := rest, fl_len := fl_len l - 1\<rparr>))"

definition fl_push :: "usize \<Rightarrow> FreeBlockList \<Rightarrow> FreeBlockList" where
  "fl_push free_block l = l\<lparr>fl_head := free_block # fl_head l, fl_len := fl_len l + 1\<rparr>"

definition fl_new :: "usize \<Rightarrow> usize \<Rightarrow> nat \<Rightarrow> FreeBlockList" where
  "fl_new start_addr block_size num_of_blocks =
     fold (\<lambda>i l. fl_push (start_addr + of_nat i * block_size) l) (rev [0..<num_of_blocks]) fl_new_empty"

subsection \<open>One slab\<close>

record Slab =
  free_block_list :: FreeBlockList
  total_blocks :: usize

definition slab_new :: "usize \<Rightarrow> usize \<Rightarrow> usize \<Rightarrow> Slab" where
  "slab_new BLK_SIZE start_addr slab_size =
     (let num_of_blocks = slab_size div BLK_SIZE
      in \<lparr>free_block_list = fl_new start_addr BLK_SIZE (unat num_of_blocks), total_blocks = num_of_blocks\<rparr>)"

definition slab_used_blocks :: "Slab \<Rightarrow> usize" where
  "slab_used_blocks s = total_blocks s - fl_len (free_block_list s)"

function fl_move_all :: "FreeBlockList \<Rightarrow> FreeBlockList \<Rightarrow> FreeBlockList" where
  "fl_move_all src dst = (case fl_pop src of
      (None, _) \<Rightarrow> dst
    | (Some block, src') \<Rightarrow> fl_move_all src' (fl_push block dst))"
  by pat_completeness auto
termination
  by (relation "measure (\<lambda>(src, _). length (fl_head src))") (auto split: list.splits)

declare fl_move_all.simps [simp del]

definition slab_grow :: "usize \<Rightarrow> usize \<Rightarrow> usize \<Rightarrow> Slab \<Rightarrow> Slab" where
  "slab_grow BLK_SIZE start_addr slab_size s =
     (let num_of_blocks = slab_size div BLK_SIZE;
          block_list = fl_new start_addr BLK_SIZE (unat num_of_blocks)
      in s\<lparr>total_blocks := total_blocks s + num_of_blocks,
           free_block_list := fl_move_all block_list (free_block_list s)\<rparr>)"

fun slab_allocate ::
  "'d BuddyHeap \<Rightarrow> usize \<Rightarrow> Layout \<Rightarrow> (Slab \<times> 'd, usize, unit) action" where
  "slab_allocate D BLK_SIZE layout0 (s, buddy) =
     (case fl_pop (free_block_list s) of
        (Some block, l) \<Rightarrow> (Ok block, (s\<lparr>free_block_list := l\<rparr>, buddy))
      | (None, l) \<Rightarrow>
          let layout = \<lparr>layout_size = SET_SIZE * BLK_SIZE, layout_align = 4096\<rparr> in
          (case bd_alloc D layout buddy of
             (Some ptr, buddy') \<Rightarrow>
               let s' = slab_grow BLK_SIZE ptr (SET_SIZE * BLK_SIZE) s in
               (case fl_pop (free_block_list s') of
                  (Some block, l') \<Rightarrow> (Ok block, (s'\<lparr>free_block_list := l'\<rparr>, buddy'))
                | (None, l') \<Rightarrow> (Panic, (s', buddy')))
           | (None, buddy') \<Rightarrow> (Err (), (s, buddy'))))"

definition slab_deallocate :: "usize \<Rightarrow> Slab \<Rightarrow> Slab" where
  "slab_deallocate ptr s = s\<lparr>free_block_list := fl_push ptr (free_block_list s)\<rparr>"

subsection \<open>The heap\<close>

datatype HeapAllocator = Slab64Bytes | Slab128Bytes | Slab256Bytes | Slab512Bytes
  | Slab1024Bytes | Slab2048Bytes | Slab4096Bytes | BuddyAllocator

record 'd Heap =
  slab_64_bytes :: Slab
  slab_128_bytes :: Slab
  slab_256_bytes :: Slab
  slab_512_bytes :: Slab
  slab_1024_bytes :: Slab
  slab_2048_bytes :: Slab
  slab_4096_bytes :: Slab
  buddy_allocator :: 'd

definition layout_to_allocator :: "Layout \<Rightarrow> HeapAllocator" where
  "layout_to_allocator layout =
     (if layout_size layout > 4096 then BuddyAllocator
      else if layout_size layout \<le> 64 \<and> layout_align layout \<le> 64 then Slab64Bytes
      else if layout_size layout \<le> 128 \<and> layout_align layout \<le> 128 then Slab128Bytes
      else if layout_size layout \<le> 256 \<and> layout_align layout \<le> 256 then Slab256Bytes
      else if layout_size layout \<le> 512 \<and> layout_align layout \<le> 512 then Slab512Bytes
      else if layout_size layout \<le> 1024 \<and> layout_align layout \<le> 1024 then Slab1024Bytes
      else if layout_size layout \<le> 2048 \<and> layout_align layout \<le> 2048 then Slab2048Bytes
      else Slab4096Bytes)"

definition heap_new :: "'d BuddyHeap \<Rightarrow> usize \<Rightarrow> usize \<Rightarrow> ('d Heap, unit) result" where
  "heap_new D heap_start_addr heap_size =
     (if heap_start_addr mod 4096 \<noteq> 0 then Panic
      else if \<not> heap_size \<ge> SLAB_MIN_HEAP_SIZE then Panic
      else if heap_size mod SLAB_MIN_HEAP_SIZE \<noteq> 0 then Panic
      else Ok \<lparr>slab_64_bytes = slab_new 64 0 0, slab_128_bytes = slab_new 128 0 0,
        slab_256_bytes = slab_new 256 0 0, slab_512_bytes = slab_new 512 0 0,
        slab_1024_bytes = slab_new 1024 0 0, slab_2048_bytes = slab_new 2048 0 0,
        slab_4096_bytes = slab_new 4096 0 0,
        buddy_allocator = bd_init D heap_start_addr heap_size (bd_new D)\<rparr>)"

definition heap_add_memory ::
  "'d BuddyHeap \<Rightarrow> usize \<Rightarrow> usize \<Rightarrow> ('d Heap, unit, unit) action" where
  "heap_add_memory D heap_start_addr heap_size h =
     (if heap_start_addr mod 4096 \<noteq> 0 then (Panic, h)
      else if heap_size mod 4096 \<noteq> 0 then (Panic, h)
      else (Ok (), h\<lparr>buddy_allocator :=
             bd_add_to_heap D heap_start_addr (heap_start_addr + heap_size) (buddy_allocator h)\<rparr>))"

text \<open>The slab behind a class: its block size, how it is read and how it is replaced.\<close>

fun class_size :: "HeapAllocator \<Rightarrow> usize" where
  "class_size Slab64Bytes = 64"
| "class_size Slab128Bytes = 128"
| "class_size Slab256Bytes = 256"
| "class_size Slab512Bytes = 512"
| "class_size Slab1024Bytes = 1024"
| "class_size Slab2048Bytes = 2048"
| "class_size Slab4096Bytes = 4096"
| "class_size BuddyAllocator = 0"

fun get_slab :: "HeapAllocator \<Rightarrow> 'd Heap \<Rightarrow> Slab" where
  "get_slab Slab64Bytes h = slab_64_bytes h"
| "get_slab Slab128Bytes h = slab_128_bytes h"
| "get_slab Slab256Bytes h = slab_256_bytes h"
| "get_slab Slab512Bytes h = slab_512_bytes h"
| "get_slab Slab1024Bytes h = slab_1024_bytes h"
| "get_slab Slab2048Bytes h = slab_2048_bytes h"
| "get_slab Slab4096Bytes h = slab_4096_bytes h"
| "get_slab BuddyAllocator h = \<lparr>free_block_list = fl_new_empty, total_blocks = 0\<rparr>"

fun set_slab :: "HeapAllocator \<Rightarrow> Slab \<Rightarrow> 'd Heap \<Rightarrow> 'd Heap" where
  "set_slab Slab64Bytes s h = h\<lparr>slab_64_bytes := s\<rparr>"
| "set_slab Slab128Bytes s h = h\<lparr>slab_128_bytes := s\<rparr>"
| "set_slab Slab256Bytes s h = h\<lparr>slab_256_bytes := s\<rparr>"
| "set_slab Slab512Bytes s h = h\<lparr>slab_512_bytes := s\<rparr>"
| "set_slab Slab1024Bytes s h = h\<lparr>slab_1024_bytes := s\<rparr>"
| "set_slab Slab2048Bytes s h = h\<lparr>slab_2048_bytes := s\<rparr>"
| "set_slab Slab4096Bytes s h = h\<lparr>slab_4096_bytes := s\<rparr>"
| "set_slab BuddyAllocator s h = h"

definition heap_allocate :: "'d BuddyHeap \<Rightarrow> Layout \<Rightarrow> ('d Heap, usize, unit) action" where
  "heap_allocate D layout h =
     (let c = layout_to_allocator layout in
      if c = BuddyAllocator then
        (case bd_alloc D layout (buddy_allocator h) of
           (Some ptr, d) \<Rightarrow> (Ok ptr, h\<lparr>buddy_allocator := d\<rparr>)
         | (None, d) \<Rightarrow> (Err (), h\<lparr>buddy_allocator := d\<rparr>))
      else
        (case slab_allocate D (class_size c) layout (get_slab c h, buddy_allocator h) of
           (r, (s, d)) \<Rightarrow> (r, set_slab c s (h\<lparr>buddy_allocator := d\<rparr>))))"

definition heap_deallocate :: "'d BuddyHeap \<Rightarrow> usize \<Rightarrow> Layout \<Rightarrow> ('d Heap, unit, unit) action" where
  "heap_deallocate D ptr layout h =
     (let c = layout_to_allocator layout in
      if c = BuddyAllocator then
        if ptr = 0 then (Panic, h)
        else (Ok (), h\<lparr>buddy_allocator := bd_dealloc D ptr layout (buddy_allocator h)\<rparr>)
      else (Ok (), set_slab c (slab_deallocate ptr (get_slab c h)) h))"

definition usable_size :: "Layout \<Rightarrow> usize \<times> usize" where
  "usable_size layout = (let c = layout_to_allocator layout in
     (layout_size layout, if c = BuddyAllocator then layout_size layout else class_size c))"

definition heap_total_bytes :: "'d BuddyHeap \<Rightarrow> 'd Heap \<Rightarrow> usize" where
  "heap_total_bytes D h =
     total_blocks (slab_64_bytes h) * 64 + total_blocks (slab_128_bytes h) * 128 +
     total_blocks (slab_256_bytes h) * 256 + total_blocks (slab_512_bytes h) * 512 +
     total_blocks (slab_1024_bytes h) * 1024 + total_blocks (slab_2048_bytes h) * 2048 +
     total_blocks (slab_4096_bytes h) * 4096 + bd_stats_total_bytes D (buddy_allocator h)"

definition heap_used_bytes :: "'d BuddyHeap \<Rightarrow> 'd Heap \<Rightarrow> usize" where
  "heap_used_bytes D h =
     slab_used_blocks (slab_64_bytes h) * 64 + slab_used_blocks (slab_128_bytes h) * 128 +
     slab_used_blocks (slab_256_bytes h) * 256 + slab_used_blocks (slab_512_bytes h) * 512 +
     slab_used_blocks (slab_1024_bytes h) * 1024 + slab_used_blocks (slab_2048_bytes h) * 2048 +
     slab_used_blocks (slab_4096_bytes h) * 4096 + bd_stats_alloc_actual D (buddy_allocator h)"

definition heap_available_bytes :: "'d BuddyHeap \<Rightarrow> 'd Heap \<Rightarrow> usize" where
  "heap_available_bytes D h = heap_total_bytes D h - heap_used_bytes D h"

text \<open>\<open>SlabByteAllocator\<close>: the heap is absent until \<open>init\<close>, and using it before panics.\<close>

definition SlabByteAllocator_init ::
  "'d BuddyHeap \<Rightarrow> usize \<Rightarrow> usize \<Rightarrow> ('d Heap option, unit, unit) action" where
  "SlabByteAllocator_init D start sz heap =
     (case heap_new D start sz of Ok h \<Rightarrow> (Ok (), Some h) | _ \<Rightarrow> (Panic, heap))"

definition SlabByteAllocator_alloc ::
  "'d BuddyHeap \<Rightarrow> Layout \<Rightarrow> ('d Heap option, usize, AllocError) action" where
  "SlabByteAllocator_alloc D layout heap = (case heap of
      None \<Rightarrow> (Panic, None)
    | Some h \<Rightarrow> (case heap_allocate D layout h of
        (r, h') \<Rightarrow> (map_err (\<lambda>_. NoMemory) r, Some h')))"

definition SlabByteAllocator_dealloc ::
  "'d BuddyHeap \<Rightarrow> usize \<Rightarrow> Layout \<Rightarrow> ('d Heap option, unit, unit) action" where
  "SlabByteAllocator_dealloc D pos layout heap = (case heap of
      None \<Rightarrow> (Panic, None)
    | Some h \<Rightarrow> (case heap_deallocate D pos layout h of (r, h') \<Rightarrow> (r, Some h')))"

definition SlabByteAllocator_add_memory ::
  "'d BuddyHeap \<Rightarrow> usize \<Rightarrow> usize \<Rightarrow> ('d Heap option, unit, unit) action" where
  "SlabByteAllocator_add_memory D start sz heap = (case heap of
      None \<Rightarrow> (Panic, None)
    | Some h \<Rightarrow> (case heap_add_memory D start sz h of (r, h') \<Rightarrow> (r, Some h')))"


subsection \<open>Free lists as lists\<close>

definition fl_wf :: "FreeBlockList \<Rightarrow> bool" where
  "fl_wf l \<longleftrightarrow> fl_len l = of_nat (length (fl_head l))"

lemma fl_push_simps [simp]:
  "fl_head (fl_push b l) = b # fl_head l" "fl_len (fl_push b l) = fl_len l + 1"
  by (simp_all add: fl_push_def)

lemma fl_wf_push: "fl_wf l \<Longrightarrow> fl_wf (fl_push b l)"
  by (simp add: fl_wf_def)

lemma fold_push_head:
  "fl_head (fold (\<lambda>i l. fl_push (f i) l) xs l) = map f (rev xs) @ fl_head l"
  by (induction xs arbitrary: l) auto

lemma fold_push_wf: "fl_wf l \<Longrightarrow> fl_wf (fold (\<lambda>i l. fl_push (f i) l) xs l)"
  by (induction xs arbitrary: l) (auto simp: fl_wf_push)

lemma fl_new_head: "fl_head (fl_new a b n) = map (\<lambda>i. a + of_nat i * b) [0..<n]"
  by (simp add: fl_new_def fold_push_head fl_new_empty_def)

lemma fl_new_wf: "fl_wf (fl_new a b n)"
  unfolding fl_new_def by (rule fold_push_wf) (simp add: fl_wf_def fl_new_empty_def)

lemma fl_move_all_head: "fl_head (fl_move_all src dst) = rev (fl_head src) @ fl_head dst"
proof (induction src dst rule: fl_move_all.induct)
  case (1 src dst)
  then show ?case
    by (cases "fl_head src") (simp_all add: fl_move_all.simps [of src])
qed

lemma fl_move_all_wf: "fl_wf dst \<Longrightarrow> fl_wf (fl_move_all src dst)"
proof (induction src dst rule: fl_move_all.induct)
  case (1 src dst)
  then show ?case
    by (cases "fl_head src") (simp_all add: fl_move_all.simps [of src] fl_wf_push)
qed

lemma fl_pop_wf: "fl_wf l \<Longrightarrow> fl_pop l = (Some b, l') \<Longrightarrow> fl_wf l' \<and> fl_head l = b # fl_head l'"
  by (auto simp: fl_wf_def split: list.splits)

subsection \<open>The contract of the buddy heap and the invariant of a slab\<close>

locale buddy_heap =
  fixes D :: "'d BuddyHeap" and granted :: "'d \<Rightarrow> nat set"
  assumes bd_alloc_Some: "bd_alloc D l d = (Some p, d') \<Longrightarrow>
      unat (layout_align l) dvd unat p \<and> unat p + unat (layout_size l) \<le> 2 ^ 64 \<and>
      {unat p..<unat p + unat (layout_size l)} \<inter> granted d = {} \<and>
      granted d' = granted d \<union> {unat p..<unat p + unat (layout_size l)}"
    and bd_alloc_None: "bd_alloc D l d = (None, d') \<Longrightarrow> granted d' = granted d"
    and bd_alloc_total: "bd_alloc D l d = (r, d') \<Longrightarrow> bd_stats_total_bytes D d' = bd_stats_total_bytes D d"

definition slab_block :: "usize \<Rightarrow> usize \<Rightarrow> nat set" where
  "slab_block blk b = {unat b..<unat b + unat blk}"

definition slab_inv :: "usize \<Rightarrow> nat set \<Rightarrow> Slab \<Rightarrow> bool" where
  "slab_inv blk G s \<longleftrightarrow> fl_wf (free_block_list s) \<and> distinct (fl_head (free_block_list s)) \<and>
     (\<forall>b \<in> set (fl_head (free_block_list s)). unat blk dvd unat b \<and> slab_block blk b \<subseteq> G)"

definition slab_sizes :: "usize set" where
  "slab_sizes = {64, 128, 256, 512, 1024, 2048, 4096}"

lemma slab_size_facts:
  assumes "blk \<in> slab_sizes"
  shows "unat (SET_SIZE * blk) = 64 * unat blk" "unat (SET_SIZE * blk div blk) = 64" "0 < unat blk"
    "unat blk dvd 4096"
  using assms by (auto simp: slab_sizes_def SET_SIZE_def)

lemma grow_blocks:
  assumes blk: "blk \<in> slab_sizes" and p: "unat p + 64 * unat blk \<le> 2 ^ 64" and i: "i < 64"
  shows "unat (p + of_nat i * blk) = unat p + i * unat blk"
proof -
  have "i * unat blk + unat blk \<le> 64 * unat blk"
    using mult_le_mono1 [of "Suc i" 64 "unat blk"] i by simp
  then have lt: "unat p + i * unat blk < 2 ^ 64" using p slab_size_facts(3) [OF blk] by linarith
  have "p + of_nat i * blk = of_nat (unat p + i * unat blk)" by simp
  then show ?thesis using unat_of_nat_64 [OF lt] by metis
qed

lemma grow_inv:
  assumes blk: "blk \<in> slab_sizes" and inv: "slab_inv blk G s"
    and p: "unat p + 64 * unat blk \<le> 2 ^ 64" and al: "4096 dvd unat p"
    and new: "{unat p..<unat p + 64 * unat blk} \<inter> G = {}"
  shows "slab_inv blk (G \<union> {unat p..<unat p + 64 * unat blk}) (slab_grow blk p (SET_SIZE * blk) s)"
    and "fl_head (free_block_list (slab_grow blk p (SET_SIZE * blk) s)) =
      rev (map (\<lambda>i. p + of_nat i * blk) [0..<64]) @ fl_head (free_block_list s)"
proof -
  note sz = slab_size_facts [OF blk] and nb = grow_blocks [OF blk p]
  let ?new = "map (\<lambda>i. p + of_nat i * blk) [0..<64]"
  show hd: "fl_head (free_block_list (slab_grow blk p (SET_SIZE * blk) s)) = rev ?new @ fl_head (free_block_list s)"
    by (simp add: slab_grow_def Let_def fl_move_all_head fl_new_head sz(2))
  have dn: "distinct ?new"
    unfolding distinct_map
  proof (intro conjI inj_onI)
    fix i j assume ij: "i \<in> set [0..<64]" "j \<in> set [0..<64]" "p + of_nat i * blk = p + of_nat j * blk"
    then have "unat p + i * unat blk = unat p + j * unat blk"
      using nb [of i] nb [of j] by (metis atLeastLessThan_iff set_upt)
    then show "i = j" using sz(3) by simp
  qed simp
  have blocks: "unat blk dvd unat b \<and> slab_block blk b \<subseteq> {unat p..<unat p + 64 * unat blk}" if bn: "b \<in> set ?new" for b
  proof -
    obtain i where i: "i < 64" "b = p + of_nat i * blk" using bn by auto
    have "i * unat blk + unat blk \<le> 64 * unat blk"
      using mult_le_mono1 [of "Suc i" 64 "unat blk"] i(1) by simp
    then show ?thesis
      using nb [OF i(1)] dvd_trans [OF sz(4) al] by (auto simp: i(2) slab_block_def)
  qed
  have "set ?new \<inter> set (fl_head (free_block_list s)) = {}"
  proof (rule ccontr)
    assume "set ?new \<inter> set (fl_head (free_block_list s)) \<noteq> {}"
    then obtain b where b: "b \<in> set ?new" "b \<in> set (fl_head (free_block_list s))" by blast
    then have "unat b \<in> slab_block blk b" using sz(3) by (simp add: slab_block_def)
    then show False using blocks [OF b(1)] b(2) inv new unfolding slab_inv_def by blast
  qed
  then show "slab_inv blk (G \<union> {unat p..<unat p + 64 * unat blk}) (slab_grow blk p (SET_SIZE * blk) s)"
    unfolding slab_inv_def hd using inv blocks dn
    by (auto simp: slab_inv_def slab_grow_def Let_def fl_move_all_wf)
qed


context buddy_heap
begin

lemma slab_allocate_spec:
  assumes blk: "blk \<in> slab_sizes" and inv: "slab_inv blk (granted d) s"
    and run: "slab_allocate D blk layout (s, d) = (r, (s', d'))"
  shows "slab_inv blk (granted d') s' \<and> granted d \<subseteq> granted d' \<and>
    (\<forall>b. r = Ok b \<longrightarrow> unat blk dvd unat b \<and> slab_block blk b \<subseteq> granted d' \<and>
       b \<notin> set (fl_head (free_block_list s')) \<and> slab_used_blocks s' = slab_used_blocks s + 1 \<and>
       (fl_head (free_block_list s) \<noteq> [] \<longrightarrow> d' = d \<and> fl_head (free_block_list s) = b # fl_head (free_block_list s')) \<and>
       (fl_head (free_block_list s) = [] \<longrightarrow> slab_block blk b \<inter> granted d = {})) \<and>
    (\<forall>e. r = Err e \<longrightarrow> s' = s \<and> fl_head (free_block_list s) = []) \<and> r \<noteq> Panic \<and> r \<noteq> Diverge"
proof (cases "fl_head (free_block_list s)")
  case (Cons b rest)
  then show ?thesis
    using run inv by (auto simp: slab_inv_def fl_wf_def slab_used_blocks_def)
next
  case Nil
  let ?l = "\<lparr>layout_size = SET_SIZE * blk, layout_align = 4096\<rparr>"
  obtain po d1 where a: "bd_alloc D ?l d = (po, d1)" by fastforce
  show ?thesis
  proof (cases po)
    case None
    then show ?thesis
      using run inv a Nil bd_alloc_None [of ?l d d1] by auto
  next
    case (Some p)
    note sz = slab_size_facts [OF blk]
    have g: "4096 dvd unat p" "unat p + 64 * unat blk \<le> 2 ^ 64"
      "{unat p..<unat p + 64 * unat blk} \<inter> granted d = {}"
      "granted d1 = granted d \<union> {unat p..<unat p + 64 * unat blk}"
      using bd_alloc_Some [of ?l d p d1] a Some sz(1) by auto
    define s1 where "s1 = slab_grow blk p (SET_SIZE * blk) s"
    note gi = grow_inv [OF blk inv g(2,1,3), folded s1_def]
    have up: "[0..<64] = [0..<63] @ [63 :: nat]" by (simp add: upt_rec)
    define b where "b = p + of_nat 63 * blk"
    define rest where "rest = rev (map (\<lambda>i. p + of_nat i * blk) [0..<63])"
    have hd: "fl_head (free_block_list s1) = b # rest"
      using gi(2) Nil by (simp only: up map_append rev_append b_def rest_def) simp
    have r: "r = Ok b" "d' = d1" "s' = s1\<lparr>free_block_list := (free_block_list s1)\<lparr>fl_head := rest,
        fl_len := fl_len (free_block_list s1) - 1\<rparr>\<rparr>"
      using run a Some Nil hd by (auto simp: Let_def s1_def [symmetric])
    have "slab_inv blk (granted d') s'" "unat blk dvd unat b" "slab_block blk b \<subseteq> granted d'" "b \<notin> set rest"
      using gi(1) hd unfolding slab_inv_def r fl_wf_def g(4) by auto
    moreover have "slab_used_blocks s' = slab_used_blocks s + 1"
    proof -
      have "fl_len (free_block_list s) = 0" "fl_len (free_block_list s1) = of_nat 64"
        using inv gi Nil by (simp_all add: slab_inv_def fl_wf_def)
      moreover have "total_blocks s1 = total_blocks s + 64"
        using blk by (auto simp: s1_def slab_grow_def Let_def slab_sizes_def SET_SIZE_def)
      ultimately show ?thesis by (simp add: r(3) slab_used_blocks_def)
    qed
    moreover have "slab_block blk b \<subseteq> {unat p..<unat p + 64 * unat blk}"
      using grow_blocks [OF blk g(2), of 63] by (auto simp: slab_block_def b_def)
    then have "slab_block blk b \<inter> granted d = {}" using g(3) by blast
    ultimately show ?thesis using Nil g(4) by (auto simp: r)
  qed
qed

end

lemma slab_allocate_grows:
  assumes "fl_head (free_block_list s) = []" and "slab_allocate D blk l (s, d) = (Ok b, (s', d'))"
  shows "\<exists>q. bd_alloc D \<lparr>layout_size = SET_SIZE * blk, layout_align = 4096\<rparr> d = (Some q, d') \<and>
    total_blocks s' = total_blocks s + SET_SIZE * blk div blk"
  using assms by (auto simp: Let_def slab_grow_def split: prod.splits option.splits list.splits)

lemma slab_deallocate_inv:
  assumes "slab_inv blk G s" and "unat blk dvd unat b" and "slab_block blk b \<subseteq> G"
    and "b \<notin> set (fl_head (free_block_list s))"
  shows "slab_inv blk G (slab_deallocate b s)"
  using assms by (auto simp: slab_inv_def slab_deallocate_def fl_wf_push)


subsection \<open>A bump allocator as a buddy heap\<close>

definition bump_top :: "(nat \<times> nat) list \<Rightarrow> nat" where
  "bump_top d = foldr max (map snd d) 0"

lemma foldr_max_ge: "x \<in> set xs \<Longrightarrow> x \<le> foldr max xs (a :: nat)"
  by (induction xs) (auto simp: le_max_iff_disj)

definition bump_heap :: "(nat \<times> nat) list BuddyHeap" where
  "bump_heap = \<lparr>bd_new = [], bd_init = (\<lambda>a n d. [(0, unat a)]), bd_add_to_heap = (\<lambda>_ _ d. d),
     bd_alloc = (\<lambda>l d. let a = unat (layout_align l); p = (bump_top d + a) div a * a in
        if a = 0 \<or> 2 ^ 40 < p + unat (layout_size l) then (None, d)
        else (Some (of_nat p), (p, p + unat (layout_size l)) # d)),
     bd_dealloc = (\<lambda>_ _ d. d), bd_stats_total_bytes = (\<lambda>d. 2 ^ 40), bd_stats_alloc_actual = (\<lambda>d. of_nat (length d))\<rparr>"

definition bump_granted :: "(nat \<times> nat) list \<Rightarrow> nat set" where
  "bump_granted d = (\<Union>(a, b) \<in> set d. {a..<b})"

lemma bump_heap_buddy: "buddy_heap bump_heap bump_granted"
proof
  fix l d p d'
  show "bd_alloc bump_heap l d = (None, d') \<Longrightarrow> bump_granted d' = bump_granted d"
    by (auto simp: bump_heap_def Let_def split: if_splits)
  show "bd_alloc bump_heap l d = (r, d') \<Longrightarrow> bd_stats_total_bytes bump_heap d' = bd_stats_total_bytes bump_heap d" for r
    by (simp add: bump_heap_def)
  assume run: "bd_alloc bump_heap l d = (Some p, d')"
  define a where "a = unat (layout_align l)"
  define q where "q = (bump_top d + a) div a * a"
  have a: "0 < a" and q: "q + unat (layout_size l) \<le> 2 ^ 40" "p = of_nat q" "d' = (q, q + unat (layout_size l)) # d"
    using run by (auto simp: bump_heap_def Let_def a_def q_def split: if_splits)
  have u: "unat p = q" unfolding q(2) by (rule unat_of_nat_64) (use q(1) in simp)
  have "(bump_top d + a) mod a < a" using a by simp
  then have top: "bump_top d < q" using div_mult_mod_eq [of "bump_top d + a" a] a unfolding q_def by linarith
  have "{q..<q + unat (layout_size l)} \<inter> bump_granted d = {}"
  proof (rule ccontr)
    assume "{q..<q + unat (layout_size l)} \<inter> bump_granted d \<noteq> {}"
    then obtain x s e where x: "q \<le> x" "(s, e) \<in> set d" "x < e" by (auto simp: bump_granted_def)
    have "e \<le> bump_top d" unfolding bump_top_def using x(2) by (intro foldr_max_ge) force
    then show False using x top by linarith
  qed
  then show "unat (layout_align l) dvd unat p \<and> unat p + unat (layout_size l) \<le> 2 ^ 64 \<and>
      {unat p..<unat p + unat (layout_size l)} \<inter> bump_granted d = {} \<and>
      bump_granted d' = bump_granted d \<union> {unat p..<unat p + unat (layout_size l)}"
    using q(1) by (auto simp: u q(3) bump_granted_def a_def [symmetric]) (simp add: q_def)
qed

interpretation bump: buddy_heap bump_heap bump_granted
  by (rule bump_heap_buddy)

subsection \<open>Properties\<close>



text \<open>
  Deallocating the block just allocated restores the free list and the counters of a slab
  that still had a free block.
\<close>

lemma slab_dealloc_alloc:
  assumes "fl_wf (free_block_list s)" and "fl_head (free_block_list s) \<noteq> []"
    and "slab_allocate D blk layout (s, d) = (r, (s', d'))"
  shows "\<exists>b. r = Ok b \<and> slab_deallocate b s' = s \<and> d' = d"
  using assms by (cases "fl_head (free_block_list s)")
    (auto simp: slab_deallocate_def fl_push_def fl_wf_def)

definition class_of :: "usize \<Rightarrow> usize" where
  "class_of m = (if m \<le> 64 then 64 else if m \<le> 128 then 128 else if m \<le> 256 then 256
     else if m \<le> 512 then 512 else if m \<le> 1024 then 1024 else if m \<le> 2048 then 2048 else 4096)"

lemma class_of_need:
  assumes "layout_size l \<le> 4096"
  shows "class_size (layout_to_allocator l) = class_of (max (layout_size l) (layout_align l))"
proof -
  have "\<not> layout_size l > 4096" using assms by simp
  then show ?thesis by (simp add: layout_to_allocator_def class_of_def)
qed

lemma class_of_need_fits:
  assumes "m \<le> 4096"
  shows "class_of m \<in> slab_sizes \<and> m \<le> class_of m \<and> (\<forall>blk \<in> slab_sizes. m \<le> blk \<longrightarrow> class_of m \<le> blk)"
proof (intro conjI ballI impI)
  show "class_of m \<in> slab_sizes" by (simp add: class_of_def slab_sizes_def)
  show "m \<le> class_of m" using assms by (simp add: class_of_def)
  fix blk :: usize assume "blk \<in> slab_sizes" "m \<le> blk"
  then consider "blk = 64" | "blk = 128" | "blk = 256" | "blk = 512" | "blk = 1024" | "blk = 2048" | "blk = 4096"
    by (auto simp: slab_sizes_def)
  then show "class_of m \<le> blk" using \<open>m \<le> blk\<close> by cases (simp_all add: class_of_def)
qed

text \<open>
  For a size up to 4096 and an alignment up to 4096 the class chosen for a layout has blocks
  at least as large as the size and as the alignment, and no smaller class would do.
\<close>

lemma layout_class_fits:
  assumes "layout_size l \<le> 4096" and "layout_align l \<le> 4096"
  shows "class_size (layout_to_allocator l) \<in> slab_sizes \<and>
    layout_size l \<le> class_size (layout_to_allocator l) \<and>
    layout_align l \<le> class_size (layout_to_allocator l) \<and>
    (\<forall>blk \<in> slab_sizes. layout_size l \<le> blk \<and> layout_align l \<le> blk \<longrightarrow>
       class_size (layout_to_allocator l) \<le> blk)"
  using class_of_need_fits [of "max (layout_size l) (layout_align l)"] assms
  by (simp add: class_of_need)

text \<open>
  \<open>total_bytes\<close> counts the memory of a slab twice: when a slab grows out of the buddy heap
  the reported total rises by the size of the slab although no memory was added to the heap.
\<close>

lemma heap_total_counts_twice:
  assumes "buddy_heap D granted" and "layout_to_allocator l \<noteq> BuddyAllocator"
    and "fl_head (free_block_list (get_slab (layout_to_allocator l) h)) = []"
    and "heap_allocate D l h = (Ok p, h')"
  shows "heap_total_bytes D h' = heap_total_bytes D h + SET_SIZE * class_size (layout_to_allocator l)"
proof -
  let ?c = "layout_to_allocator l"
  obtain s1 d1 where a: "slab_allocate D (class_size ?c) l (get_slab ?c h, buddy_allocator h) = (Ok p, (s1, d1))"
    "h' = set_slab ?c s1 (h\<lparr>buddy_allocator := d1\<rparr>)"
    using assms(2,4) by (auto simp: heap_allocate_def Let_def simp del: slab_allocate.simps split: prod.splits)
  have "SET_SIZE * class_size ?c div class_size ?c = 64"
    using assms(2) by (cases ?c) (simp_all add: SET_SIZE_def)
  then obtain q where q: "bd_alloc D \<lparr>layout_size = SET_SIZE * class_size ?c, layout_align = 4096\<rparr> (buddy_allocator h) = (Some q, d1)"
    and t: "total_blocks s1 = total_blocks (get_slab ?c h) + 64"
    using slab_allocate_grows [OF assms(3) a(1)] by auto
  have "bd_stats_total_bytes D d1 = bd_stats_total_bytes D (buddy_allocator h)"
    by (rule buddy_heap.bd_alloc_total [OF assms(1) q])
  then show ?thesis
    using a(2) t assms(2) by (cases ?c) (simp_all add: heap_total_bytes_def SET_SIZE_def algebra_simps)
qed

end
