(* ===== verification/PageTableEntry.thy ===== *)
theory PageTableEntry
  imports MemoryAddr
begin

text \<open>
  The crate \<open>crates/page_table_entry\<close>: the generic \<open>MappingFlags\<close> of \<open>src/lib.rs\<close> and
  the RISC-V entry \<open>Rv64PTE\<close> of \<open>src/arch/riscv.rs\<close>. A set of \<open>bitflags\<close> is the word of
  its bits; \<open>contains\<close>, \<open>intersects\<close> and \<open>from_bits_truncate\<close> are the bit operations they
  stand for.
\<close>

type_synonym MappingFlags = usize
type_synonym PTEFlags = usize
type_synonym Rv64PTE = u64

definition flags_contains :: "usize \<Rightarrow> usize \<Rightarrow> bool" where
  "flags_contains f g \<longleftrightarrow> f AND g = g"

definition flags_intersects :: "usize \<Rightarrow> usize \<Rightarrow> bool" where
  "flags_intersects f g \<longleftrightarrow> f AND g \<noteq> 0"

definition READ :: MappingFlags where "READ = push_bit 0 1"
definition WRITE :: MappingFlags where "WRITE = push_bit 1 1"
definition EXECUTE :: MappingFlags where "EXECUTE = push_bit 2 1"
definition USER :: MappingFlags where "USER = push_bit 3 1"
definition DEVICE :: MappingFlags where "DEVICE = push_bit 4 1"
definition UNCACHED :: MappingFlags where "UNCACHED = push_bit 5 1"

definition PTE_V :: PTEFlags where "PTE_V = push_bit 0 1"
definition PTE_R :: PTEFlags where "PTE_R = push_bit 1 1"
definition PTE_W :: PTEFlags where "PTE_W = push_bit 2 1"
definition PTE_X :: PTEFlags where "PTE_X = push_bit 3 1"
definition PTE_U :: PTEFlags where "PTE_U = push_bit 4 1"
definition PTE_G :: PTEFlags where "PTE_G = push_bit 5 1"
definition PTE_A :: PTEFlags where "PTE_A = push_bit 6 1"
definition PTE_D :: PTEFlags where "PTE_D = push_bit 7 1"

lemmas flag_defs = READ_def WRITE_def EXECUTE_def USER_def DEVICE_def UNCACHED_def
  PTE_V_def PTE_R_def PTE_W_def PTE_X_def PTE_U_def PTE_G_def PTE_A_def PTE_D_def

definition PTEFlags_from_bits_truncate :: "usize \<Rightarrow> PTEFlags" where
  "PTEFlags_from_bits_truncate bits =
     bits AND (PTE_V OR PTE_R OR PTE_W OR PTE_X OR PTE_U OR PTE_G OR PTE_A OR PTE_D)"

definition MappingFlags_from :: "PTEFlags \<Rightarrow> MappingFlags" where
  "MappingFlags_from f =
     (if flags_contains f PTE_R then READ else 0) OR
     (if flags_contains f PTE_W then WRITE else 0) OR
     (if flags_contains f PTE_X then EXECUTE else 0) OR
     (if flags_contains f PTE_U then USER else 0)"

definition PTEFlags_from :: "MappingFlags \<Rightarrow> PTEFlags" where
  "PTEFlags_from f =
     (if f = 0 then 0
      else PTE_V OR
        (if flags_contains f READ then PTE_R else 0) OR
        (if flags_contains f WRITE then PTE_W else 0) OR
        (if flags_contains f EXECUTE then PTE_X else 0) OR
        (if flags_contains f USER then PTE_U else 0))"

definition PHYS_ADDR_MASK :: u64 where
  "PHYS_ADDR_MASK = push_bit 54 1 - push_bit 10 1"

definition new_page :: "PhysAddr \<Rightarrow> MappingFlags \<Rightarrow> bool \<Rightarrow> Rv64PTE" where
  "new_page paddr flags is_huge =
     (PTEFlags_from flags OR PTE_A OR PTE_D) OR (drop_bit 2 paddr AND PHYS_ADDR_MASK)"

definition new_fault_page :: "MappingFlags \<Rightarrow> bool \<Rightarrow> Rv64PTE" where
  "new_fault_page flags is_huge = PTE_A OR PTE_D"

definition new_table :: "PhysAddr \<Rightarrow> Rv64PTE" where
  "new_table paddr = PTE_V OR (drop_bit 2 paddr AND PHYS_ADDR_MASK)"

definition pte_paddr :: "Rv64PTE \<Rightarrow> PhysAddr" where
  "pte_paddr e = push_bit 2 (e AND PHYS_ADDR_MASK)"

definition pte_flags :: "Rv64PTE \<Rightarrow> MappingFlags" where
  "pte_flags e = MappingFlags_from (PTEFlags_from_bits_truncate e)"

definition set_paddr :: "Rv64PTE \<Rightarrow> PhysAddr \<Rightarrow> Rv64PTE" where
  "set_paddr e paddr = (e AND NOT PHYS_ADDR_MASK) OR (drop_bit 2 paddr AND PHYS_ADDR_MASK)"

definition set_flags :: "Rv64PTE \<Rightarrow> MappingFlags \<Rightarrow> bool \<Rightarrow> Rv64PTE" where
  "set_flags e flags is_huge = (e AND PHYS_ADDR_MASK) OR (PTEFlags_from flags OR PTE_A OR PTE_D)"

definition is_unused :: "Rv64PTE \<Rightarrow> bool" where
  "is_unused e \<longleftrightarrow> e = 0"

definition is_present :: "Rv64PTE \<Rightarrow> bool" where
  "is_present e \<longleftrightarrow> flags_contains (PTEFlags_from_bits_truncate e) PTE_V"

definition is_huge :: "Rv64PTE \<Rightarrow> bool" where
  "is_huge e \<longleftrightarrow> flags_intersects (PTEFlags_from_bits_truncate e) (PTE_R OR PTE_X)"

definition pte_clear :: "Rv64PTE \<Rightarrow> Rv64PTE" where
  "pte_clear e = 0"

subsection \<open>Bits\<close>

lemma bit_flag_iff:
  "bit READ n \<longleftrightarrow> n = 0" "bit WRITE n \<longleftrightarrow> n = 1" "bit EXECUTE n \<longleftrightarrow> n = 2"
  "bit USER n \<longleftrightarrow> n = 3" "bit DEVICE n \<longleftrightarrow> n = 4" "bit UNCACHED n \<longleftrightarrow> n = 5"
  "bit PTE_V n \<longleftrightarrow> n = 0" "bit PTE_R n \<longleftrightarrow> n = 1" "bit PTE_W n \<longleftrightarrow> n = 2"
  "bit PTE_X n \<longleftrightarrow> n = 3" "bit PTE_U n \<longleftrightarrow> n = 4" "bit PTE_G n \<longleftrightarrow> n = 5"
  "bit PTE_A n \<longleftrightarrow> n = 6" "bit PTE_D n \<longleftrightarrow> n = 7"
  unfolding flag_defs bit_push_bit_iff bit_1_iff by auto

lemma flags_contains_iff: "flags_contains f g \<longleftrightarrow> (\<forall>n. bit g n \<longrightarrow> bit f n)"
  unfolding flags_contains_def bit_eq_iff by (auto simp: bit_and_iff dest: bit_usize_lt)

lemma flags_intersects_iff: "flags_intersects f g \<longleftrightarrow> (\<exists>n. bit f n \<and> bit g n)"
  unfolding flags_intersects_def bit_eq_iff by (auto simp: bit_and_iff dest: bit_usize_lt)

lemma bit_PHYS_ADDR_MASK: "bit PHYS_ADDR_MASK n \<longleftrightarrow> 10 \<le> n \<and> n < 54"
proof -
  have *: "PHYS_ADDR_MASK = push_bit 10 (mask 44)"
    by (simp add: PHYS_ADDR_MASK_def mask_eq_exp_minus_1 push_bit_eq_mult)
  show ?thesis
    unfolding * by (auto simp: bit_simps)
qed

lemma bit_truncate: "bit (PTEFlags_from_bits_truncate e) n \<longleftrightarrow> n < 8 \<and> bit e n"
  unfolding PTEFlags_from_bits_truncate_def by (auto simp: bit_and_iff bit_or_iff bit_flag_iff)

lemma bit_MappingFlags_from:
  "bit (MappingFlags_from f) n \<longleftrightarrow>
    n = 0 \<and> bit f 1 \<or> n = 1 \<and> bit f 2 \<or> n = 2 \<and> bit f 3 \<or> n = 3 \<and> bit f 4"
  unfolding MappingFlags_from_def by (auto simp: bit_or_iff bit_flag_iff flags_contains_iff)

lemma bit_PTEFlags_from:
  "bit (PTEFlags_from f) n \<longleftrightarrow> f \<noteq> 0 \<and>
    (n = 0 \<or> n = 1 \<and> bit f 0 \<or> n = 2 \<and> bit f 1 \<or> n = 3 \<and> bit f 2 \<or> n = 4 \<and> bit f 3)"
  unfolding PTEFlags_from_def by (auto simp: bit_or_iff bit_flag_iff flags_contains_iff)

lemmas pte_bits = bit_flag_iff flags_contains_iff flags_intersects_iff bit_PHYS_ADDR_MASK
  bit_truncate bit_MappingFlags_from bit_PTEFlags_from bit_and_iff bit_or_iff bit_not_iff

lemma bit_new_page:
  "bit (new_page pa fl h) n \<longleftrightarrow>
     bit (PTEFlags_from fl) n \<or> n = 6 \<or> n = 7 \<or> 10 \<le> n \<and> n < 54 \<and> bit pa (n + 2)"
  unfolding new_page_def by (auto simp: pte_bits bit_drop_bit_eq add.commute)

lemma bit_new_table:
  "bit (new_table pa) n \<longleftrightarrow> n = 0 \<or> 10 \<le> n \<and> n < 54 \<and> bit pa (n + 2)"
  unfolding new_table_def by (auto simp: pte_bits bit_drop_bit_eq add.commute)

lemma bit_new_fault_page: "bit (new_fault_page fl h) n \<longleftrightarrow> n = 6 \<or> n = 7"
  unfolding new_fault_page_def by (auto simp: pte_bits)

lemma bit_pte_paddr: "bit (pte_paddr e) n \<longleftrightarrow> 12 \<le> n \<and> n < 56 \<and> bit e (n - 2)"
  unfolding pte_paddr_def bit_push_bit_iff by (auto simp: pte_bits)

lemma bit_set_paddr:
  "bit (set_paddr e pa) n \<longleftrightarrow>
     (if 10 \<le> n \<and> n < 54 then bit pa (n + 2) else n < 64 \<and> bit e n)"
  unfolding set_paddr_def by (auto simp: pte_bits bit_drop_bit_eq add.commute)

lemma bit_set_flags:
  "bit (set_flags e fl h) n \<longleftrightarrow>
     bit (PTEFlags_from fl) n \<or> n = 6 \<or> n = 7 \<or> 10 \<le> n \<and> n < 54 \<and> bit e n"
  unfolding set_flags_def by (auto simp: pte_bits)

text \<open>A physical address an entry can hold: aligned to 4K and below \<open>2 ^ 56\<close>.\<close>

definition valid_paddr :: "PhysAddr \<Rightarrow> bool" where
  "valid_paddr pa \<longleftrightarrow> is_aligned_4k pa \<and> unat pa < 2 ^ 56"

lemma valid_paddr_bits: "valid_paddr pa \<Longrightarrow> bit pa n \<Longrightarrow> 12 \<le> n \<and> n < 56"
proof -
  assume v: "valid_paddr pa" and b: "bit pa n"
  have "take_bit 12 pa = 0"
    using v by (simp add: valid_paddr_def is_aligned_4k_def is_aligned_def align_offset_def
        PAGE_SIZE_4K_pow2 word_and_mask_take_bit [of _ 12, simplified])
  then have "12 \<le> n"
    using b by (metis bit_0_eq bit_take_bit_iff bot_apply bot_bool_def not_le)
  moreover have "take_bit 56 pa = pa"
    using v by (intro take_bit_usize_self) (simp add: valid_paddr_def)
  then have "n < 56"
    using b by (metis bit_take_bit_iff)
  ultimately show ?thesis by simp
qed

subsection \<open>Encoding and decoding\<close>

definition RWXU :: MappingFlags where
  "RWXU = READ OR WRITE OR EXECUTE OR USER"

lemma bit_RWXU: "bit RWXU n \<longleftrightarrow> n < 4"
  unfolding RWXU_def by (auto simp: pte_bits)

lemma pte_paddr_eqI:
  assumes "valid_paddr pa" and e: "\<And>n. 10 \<le> n \<Longrightarrow> n < 54 \<Longrightarrow> bit e n \<longleftrightarrow> bit pa (n + 2)"
  shows "pte_paddr e = pa"
proof (rule usize_bit_eqI)
  fix n
  show "bit (pte_paddr e) n \<longleftrightarrow> bit pa n"
  proof (cases "12 \<le> n \<and> n < 56")
    case True
    then obtain m where m: "n = m + 2"
      by (intro that [of "n - 2"]) auto
    then show ?thesis using True e [of m] by (simp only: bit_pte_paddr) simp
  next
    case False
    then show ?thesis using valid_paddr_bits [OF assms(1), of n] by (auto simp: bit_pte_paddr)
  qed
qed

lemma pte_paddr_new_page: "valid_paddr pa \<Longrightarrow> pte_paddr (new_page pa fl h) = pa"
  by (erule pte_paddr_eqI) (simp add: bit_new_page bit_PTEFlags_from)

lemma pte_paddr_new_table: "valid_paddr pa \<Longrightarrow> pte_paddr (new_table pa) = pa"
  by (erule pte_paddr_eqI) (simp add: bit_new_table)

lemma pte_paddr_fault [simp]: "pte_paddr (new_fault_page fl h) = 0"
  by (rule usize_bit_eqI) (auto simp: bit_pte_paddr bit_new_fault_page)

lemma pte_flags_new_page: "pte_flags (new_page pa fl h) = fl AND RWXU"
proof (rule usize_bit_eqI)
  fix n :: nat
  have "bit fl 0 \<or> bit fl 1 \<or> bit fl 2 \<or> bit fl 3 \<Longrightarrow> fl \<noteq> 0" by auto
  moreover have "(n :: nat) < 4 \<longleftrightarrow> n = 0 \<or> n = 1 \<or> n = 2 \<or> n = 3" by auto
  ultimately show "bit (pte_flags (new_page pa fl h)) n = bit (fl AND RWXU) n"
    unfolding pte_flags_def bit_and_iff bit_RWXU
    by (auto simp: bit_MappingFlags_from bit_truncate bit_new_page bit_PTEFlags_from)
qed

lemma pte_flags_fault [simp]: "pte_flags (new_fault_page fl h) = 0"
  unfolding pte_flags_def
  by (rule usize_bit_eqI) (auto simp: bit_MappingFlags_from bit_truncate bit_new_fault_page)

lemma is_present_iff: "is_present e \<longleftrightarrow> bit e 0"
  by (auto simp: is_present_def pte_bits)

lemma is_huge_iff: "is_huge e \<longleftrightarrow> bit e 1 \<or> bit e 3"
proof -
  have "(\<exists>n. (n < (8 :: nat) \<and> P n) \<and> (n = 1 \<or> n = 3)) \<longleftrightarrow> P 1 \<or> P 3" for P
    by (rule iffI; elim disjE exE conjE; (simp; fail | rule exI [of _ 1], simp; fail | rule exI [of _ 3], simp; fail)?)
  then show ?thesis
    unfolding is_huge_def flags_intersects_iff bit_truncate bit_or_iff bit_flag_iff .
qed

lemma is_present_new_page [simp]: "is_present (new_page pa fl h) \<longleftrightarrow> fl \<noteq> 0"
  by (auto simp: is_present_iff bit_new_page bit_PTEFlags_from)

lemma is_huge_new_page [simp]:
  "is_huge (new_page pa fl h) \<longleftrightarrow> flags_intersects fl (READ OR EXECUTE)"
  by (auto simp: is_huge_iff bit_new_page bit_PTEFlags_from flags_intersects_iff bit_or_iff bit_flag_iff)

lemma pte_nonzeroI: "bit e n \<Longrightarrow> \<not> is_unused e"
  by (auto simp: is_unused_def)

lemma new_page_used [simp]: "\<not> is_unused (new_page pa fl h)"
  by (rule pte_nonzeroI [of _ 6]) (simp add: bit_new_page)

lemma new_fault_page_used [simp]: "\<not> is_unused (new_fault_page fl h)"
  by (rule pte_nonzeroI [of _ 6]) (simp add: bit_new_fault_page)

lemma new_table_used [simp]: "\<not> is_unused (new_table pa)"
  by (rule pte_nonzeroI [of _ 0]) (simp add: bit_new_table)

lemma new_table_kind [simp]: "is_present (new_table pa)" "\<not> is_huge (new_table pa)"
  by (auto simp: is_present_iff is_huge_iff bit_new_table)

lemma new_fault_page_kind [simp]:
  "\<not> is_present (new_fault_page fl h)" "\<not> is_huge (new_fault_page fl h)"
  by (auto simp: is_present_iff is_huge_iff bit_new_fault_page)

lemma zero_pte_kind [simp]: "is_unused 0" "\<not> is_present 0" "\<not> is_huge 0" "pte_paddr 0 = 0"
  by (simp_all add: is_unused_def is_present_iff is_huge_iff pte_paddr_def)

lemma unused_kind: "is_unused e \<Longrightarrow> \<not> is_present e \<and> \<not> is_huge e"
  by (simp add: is_unused_def)

lemma pte_paddr_aligned: "is_aligned_4k (pte_paddr e)"
proof -
  have "take_bit 12 (pte_paddr e) = 0"
    by (rule usize_bit_eqI) (auto simp: bit_take_bit_iff bit_pte_paddr)
  then show ?thesis
    by (simp add: is_aligned_4k_def is_aligned_def align_offset_def
        PAGE_SIZE_4K_pow2 word_and_mask_take_bit [of _ 12, simplified])
qed

lemma set_flags_new_page: "set_flags (new_page pa fl h) fl' h' = new_page pa fl' h'"
  by (rule usize_bit_eqI) (auto simp: bit_set_flags bit_new_page bit_PTEFlags_from)

lemma set_paddr_new_page: "set_paddr (new_page pa fl h) pa' = new_page pa' fl h"
  by (rule usize_bit_eqI) (auto simp: bit_set_paddr bit_new_page bit_PTEFlags_from dest: bit_usize_lt)

lemma pte_flags_bits: "(\<And>n. n < 8 \<Longrightarrow> bit e n \<longleftrightarrow> bit e' n) \<Longrightarrow> pte_flags e = pte_flags e'"
  unfolding pte_flags_def
  by (rule usize_bit_eqI) (auto simp: bit_MappingFlags_from bit_truncate)

lemma pte_flags_set_flags: "pte_flags (set_flags e fl h) = fl AND RWXU"
  unfolding pte_flags_new_page [of 0 fl h, symmetric]
  by (rule pte_flags_bits) (auto simp: bit_set_flags bit_new_page)

lemma pte_paddr_set_flags: "pte_paddr (set_flags e fl h) = pte_paddr e"
  by (rule usize_bit_eqI) (auto simp: bit_pte_paddr bit_set_flags bit_PTEFlags_from)

lemma pte_flags_set_paddr: "pte_flags (set_paddr e pa) = pte_flags e"
  by (rule pte_flags_bits) (auto simp: bit_set_paddr)

lemma pte_paddr_set_paddr: "valid_paddr pa \<Longrightarrow> pte_paddr (set_paddr e pa) = pa"
  by (erule pte_paddr_eqI) (simp add: bit_set_paddr)

lemma set_flags_kind:
  "is_present (set_flags e fl h) \<longleftrightarrow> fl \<noteq> 0"
  "is_huge (set_flags e fl h) \<longleftrightarrow> flags_intersects fl (READ OR EXECUTE)"
  "\<not> is_unused (set_flags e fl h)"
  using is_present_new_page [of 0 fl h] is_huge_new_page [of 0 fl h] pte_nonzeroI [of "set_flags e fl h" 6]
  by (auto simp: is_present_iff is_huge_iff bit_set_flags bit_new_page)

lemma set_paddr_kind:
  "is_present (set_paddr e pa) \<longleftrightarrow> is_present e" "is_huge (set_paddr e pa) \<longleftrightarrow> is_huge e"
  by (auto simp: is_present_iff is_huge_iff bit_set_paddr)

text \<open>
  An entry made for a frame at a representable physical address reads back as that frame
  with the permission bits READ, WRITE, EXECUTE and USER of the requested flags (DEVICE and
  UNCACHED have no encoding and are dropped); it is never taken for an unused entry, and
  changing its flags or its frame changes only that field.
\<close>

lemma pte_new_page_roundtrip:
  assumes "valid_paddr pa" and "valid_paddr pa'"
  shows "pte_paddr (new_page pa fl h) = pa \<and> pte_flags (new_page pa fl h) = fl AND RWXU \<and>
    \<not> is_unused (new_page pa fl h) \<and>
    pte_paddr (set_flags (new_page pa fl h) fl' h) = pa \<and>
    pte_flags (set_flags (new_page pa fl h) fl' h) = fl' AND RWXU \<and>
    pte_paddr (set_paddr (new_page pa fl h) pa') = pa' \<and>
    pte_flags (set_paddr (new_page pa fl h) pa') = fl AND RWXU"
  using assms
  by (simp add: pte_paddr_new_page pte_flags_new_page set_flags_new_page set_paddr_new_page)

end
