(* ===== verification/PageTable.thy ===== *)
theory PageTable
  imports PageTableEntry
begin

text \<open>
  The crate \<open>crates/page_table\<close>: the generic multi-level page table \<open>PageTable64\<close> of
  \<open>src/bits64.rs\<close> with the RISC-V entries of \<open>PageTableEntry\<close>, for the three levels of Sv39
  and the four levels of Sv48.

  A reference \<open>&mut PTE\<close> is the pair of the physical address of the table that holds the
  entry and the index in it. The record has, besides the fields of the struct, the physical
  memory its methods reach through \<open>PagingIf::phys_to_virt\<close> (\<open>phys\<close>, a table of entries per
  frame) and the state of the frame allocator behind \<open>PagingIf\<close> (\<open>frames\<close>); the operations
  \<open>alloc_frame\<close> and \<open>dealloc_frame\<close> of that trait are arguments, with their contract in the
  locale \<open>paging_if\<close>.
\<close>

datatype PagingError = NoMemory | NotAligned | NotMapped | AlreadyMapped | MappedToHugePage

datatype PageSize = Size4K | Size2M | Size1G

fun page_bytes :: "PageSize \<Rightarrow> usize" where
  "page_bytes Size4K = 0x1000"
| "page_bytes Size2M = 0x200000"
| "page_bytes Size1G = 0x40000000"

fun is_huge_size :: "PageSize \<Rightarrow> bool" where
  "is_huge_size Size4K = False"
| "is_huge_size Size2M = True"
| "is_huge_size Size1G = True"

definition paddr_is_valid :: "nat \<Rightarrow> usize \<Rightarrow> bool" where
  "paddr_is_valid PA_MAX_BITS paddr \<longleftrightarrow> paddr \<le> push_bit PA_MAX_BITS 1 - 1"

definition vaddr_is_valid :: "nat \<Rightarrow> usize \<Rightarrow> bool" where
  "vaddr_is_valid VA_MAX_BITS vaddr =
     (let top_mask = push_bit (VA_MAX_BITS - 1) (- 1)
      in vaddr AND top_mask = 0 \<or> vaddr AND top_mask = top_mask)"

definition ENTRY_COUNT :: usize where
  "ENTRY_COUNT = 512"

definition p4_index :: "VirtAddr \<Rightarrow> nat" where
  "p4_index vaddr = unat (drop_bit (12 + 27) vaddr AND (ENTRY_COUNT - 1))"

definition p3_index :: "VirtAddr \<Rightarrow> nat" where
  "p3_index vaddr = unat (drop_bit (12 + 18) vaddr AND (ENTRY_COUNT - 1))"

definition p2_index :: "VirtAddr \<Rightarrow> nat" where
  "p2_index vaddr = unat (drop_bit (12 + 9) vaddr AND (ENTRY_COUNT - 1))"

definition p1_index :: "VirtAddr \<Rightarrow> nat" where
  "p1_index vaddr = unat (drop_bit 12 vaddr AND (ENTRY_COUNT - 1))"

type_synonym physmem = "PhysAddr \<Rightarrow> nat \<Rightarrow> Rv64PTE"
type_synonym pte_ref = "PhysAddr \<times> nat"

record 'f PageTable64 =
  root_paddr :: PhysAddr
  intrm_tables :: "PhysAddr list"
  phys :: physmem
  frames :: 'f

type_synonym ('f, 'a) pt_action = "('f PageTable64, 'a, PagingError) action"

definition mem_write :: "physmem \<Rightarrow> pte_ref \<Rightarrow> Rv64PTE \<Rightarrow> physmem" where
  "mem_write m r e = m(fst r := (m (fst r))(snd r := e))"

definition read_entry :: "'f PageTable64 \<Rightarrow> pte_ref \<Rightarrow> Rv64PTE" where
  "read_entry s r = phys s (fst r) (snd r)"

definition write_entry :: "pte_ref \<Rightarrow> Rv64PTE \<Rightarrow> 'f PageTable64 \<Rightarrow> 'f PageTable64" where
  "write_entry r e s = s\<lparr>phys := mem_write (phys s) r e\<rparr>"

subsection \<open>Private operations\<close>

definition alloc_table ::
  "('f \<Rightarrow> PhysAddr option \<times> 'f) \<Rightarrow> ('f, PhysAddr) pt_action" where
  "alloc_table alloc_frame s = (case alloc_frame (frames s) of
      (Some paddr, f) \<Rightarrow> (Ok paddr, s\<lparr>frames := f, phys := (phys s)(paddr := (\<lambda>_. 0))\<rparr>)
    | (None, f) \<Rightarrow> (Err NoMemory, s\<lparr>frames := f\<rparr>))"

definition next_table_mut :: "Rv64PTE \<Rightarrow> (PhysAddr, PagingError) result" where
  "next_table_mut entry =
     (if \<not> is_present entry then Err NotMapped
      else if is_huge entry then Err MappedToHugePage
      else Ok (pte_paddr entry))"

definition next_table_mut_or_create ::
  "('f \<Rightarrow> PhysAddr option \<times> 'f) \<Rightarrow> pte_ref \<Rightarrow> ('f, PhysAddr) pt_action" where
  "next_table_mut_or_create alloc_frame r s =
     (if is_unused (read_entry s r)
      then and_then (alloc_table alloc_frame) (\<lambda>paddr s.
             (Ok paddr, write_entry r (new_table paddr)
                (s\<lparr>intrm_tables := intrm_tables s @ [paddr]\<rparr>))) s
      else (next_table_mut (read_entry s r), s))"

definition get_entry_mut ::
  "nat \<Rightarrow> 'f PageTable64 \<Rightarrow> VirtAddr \<Rightarrow> (pte_ref \<times> PageSize, PagingError) result" where
  "get_entry_mut LEVELS s vaddr =
     res_bind
       (if LEVELS = 3 then Ok (root_paddr s)
        else if LEVELS = 4 then next_table_mut (read_entry s (root_paddr s, p4_index vaddr))
        else Panic)
     (\<lambda>p3. let p3e = (p3, p3_index vaddr) in
       if is_huge (read_entry s p3e) then Ok (p3e, Size1G)
       else res_bind (next_table_mut (read_entry s p3e)) (\<lambda>p2. let p2e = (p2, p2_index vaddr) in
         if is_huge (read_entry s p2e) then Ok (p2e, Size2M)
         else res_bind (next_table_mut (read_entry s p2e)) (\<lambda>p1.
           Ok ((p1, p1_index vaddr), Size4K))))"

definition get_entry_mut_or_create ::
  "('f \<Rightarrow> PhysAddr option \<times> 'f) \<Rightarrow> nat \<Rightarrow> VirtAddr \<Rightarrow> PageSize \<Rightarrow> ('f, pte_ref) pt_action" where
  "get_entry_mut_or_create alloc_frame LEVELS vaddr page_size =
     and_then
       (if LEVELS = 3 then (\<lambda>s. (Ok (root_paddr s), s))
        else if LEVELS = 4 then (\<lambda>s.
          next_table_mut_or_create alloc_frame (root_paddr s, p4_index vaddr) s)
        else (\<lambda>s. (Panic, s)))
     (\<lambda>p3. let p3e = (p3, p3_index vaddr) in
       if page_size = Size1G then (\<lambda>s. (Ok p3e, s))
       else and_then (next_table_mut_or_create alloc_frame p3e) (\<lambda>p2.
         let p2e = (p2, p2_index vaddr) in
         if page_size = Size2M then (\<lambda>s. (Ok p2e, s))
         else and_then (next_table_mut_or_create alloc_frame p2e) (\<lambda>p1.
           (\<lambda>s. (Ok (p1, p1_index vaddr), s)))))"

subsection \<open>Public operations\<close>

definition try_new ::
  "('f \<Rightarrow> PhysAddr option \<times> 'f) \<Rightarrow> physmem \<Rightarrow> 'f \<Rightarrow>
     ('f PageTable64, PagingError) result \<times> 'f" where
  "try_new alloc_frame m f =
     (case alloc_table alloc_frame
             \<lparr>root_paddr = 0, intrm_tables = [], phys = m, frames = f\<rparr> of
        (r, s) \<Rightarrow> (res_bind r (\<lambda>p. Ok (s\<lparr>root_paddr := p, intrm_tables := [p]\<rparr>)), frames s))"

definition map_page ::
  "('f \<Rightarrow> PhysAddr option \<times> 'f) \<Rightarrow> nat \<Rightarrow> VirtAddr \<Rightarrow> PhysAddr \<Rightarrow> PageSize \<Rightarrow> MappingFlags \<Rightarrow>
     ('f, unit) pt_action" where
  "map_page alloc_frame LEVELS vaddr target page_size flags =
     and_then (get_entry_mut_or_create alloc_frame LEVELS vaddr page_size) (\<lambda>entry s.
       if \<not> is_unused (read_entry s entry) then (Err AlreadyMapped, s)
       else (Ok (), write_entry entry
               (new_page (align_down target (page_bytes page_size)) flags
                  (is_huge_size page_size)) s))"

definition map_overwrite ::
  "('f \<Rightarrow> PhysAddr option \<times> 'f) \<Rightarrow> nat \<Rightarrow> VirtAddr \<Rightarrow> PhysAddr \<Rightarrow> PageSize \<Rightarrow> MappingFlags \<Rightarrow>
     ('f, unit) pt_action" where
  "map_overwrite alloc_frame LEVELS vaddr target page_size flags =
     and_then (get_entry_mut_or_create alloc_frame LEVELS vaddr page_size) (\<lambda>entry s.
       if is_unused (read_entry s entry) then (Err AlreadyMapped, s)
       else (Ok (), write_entry entry
               (new_page (align_down target (page_bytes page_size)) flags
                  (is_huge_size page_size)) s))"

definition unmap :: "nat \<Rightarrow> VirtAddr \<Rightarrow> ('f, PhysAddr \<times> PageSize) pt_action" where
  "unmap LEVELS vaddr s = and_then (\<lambda>s. (get_entry_mut LEVELS s vaddr, s)) (\<lambda>(entry, size) s.
     if is_unused (read_entry s entry) then (Err NotMapped, s)
     else (Ok (pte_paddr (read_entry s entry), size),
           write_entry entry (pte_clear (read_entry s entry)) s)) s"

definition map_fault ::
  "('f \<Rightarrow> PhysAddr option \<times> 'f) \<Rightarrow> nat \<Rightarrow> VirtAddr \<Rightarrow> PageSize \<Rightarrow> MappingFlags \<Rightarrow>
     ('f, unit) pt_action" where
  "map_fault alloc_frame LEVELS vaddr page_size flags =
     and_then (get_entry_mut_or_create alloc_frame LEVELS vaddr page_size) (\<lambda>entry s.
       if \<not> is_unused (read_entry s entry) then (Err AlreadyMapped, s)
       else (Ok (), write_entry entry (new_fault_page flags (is_huge_size page_size)) s))"

definition pt_query ::
  "nat \<Rightarrow> 'f PageTable64 \<Rightarrow> VirtAddr \<Rightarrow>
     (PhysAddr \<times> MappingFlags \<times> PageSize, PagingError) result" where
  "pt_query LEVELS s vaddr = res_bind (get_entry_mut LEVELS s vaddr) (\<lambda>(entry, size).
     if is_unused (read_entry s entry) then Err NotMapped
     else let off = align_offset vaddr (page_bytes size)
          in Ok (pte_paddr (read_entry s entry) + off, pte_flags (read_entry s entry), size))"

definition pt_update ::
  "nat \<Rightarrow> VirtAddr \<Rightarrow> PhysAddr option \<Rightarrow> MappingFlags option \<Rightarrow> ('f, PageSize) pt_action" where
  "pt_update LEVELS vaddr paddr flags s =
     and_then (\<lambda>s. (get_entry_mut LEVELS s vaddr, s)) (\<lambda>(entry, size) s.
       if pte_paddr (read_entry s entry) = 0 then (Ok size, s)
       else let e0 = read_entry s entry;
                e1 = (case paddr of Some p \<Rightarrow> set_paddr e0 p | None \<Rightarrow> e0);
                e2 = (case flags of Some fl \<Rightarrow> set_flags e1 fl (is_huge_size size) | None \<Rightarrow> e1)
            in (Ok size, write_entry entry e2 s)) s"

subsection \<open>Regions\<close>

definition region_page_size :: "bool \<Rightarrow> VirtAddr \<Rightarrow> PhysAddr \<Rightarrow> usize \<Rightarrow> PageSize" where
  "region_page_size allow_huge vaddr paddr sz =
     (if allow_huge then
        if is_aligned vaddr (page_bytes Size1G) \<and> is_aligned paddr (page_bytes Size1G) \<and>
           page_bytes Size1G \<le> sz then Size1G
        else if is_aligned vaddr (page_bytes Size2M) \<and> is_aligned paddr (page_bytes Size2M) \<and>
           page_bytes Size2M \<le> sz then Size2M
        else Size4K
      else Size4K)"

fun map_region_loop ::
  "nat \<Rightarrow> ('f \<Rightarrow> PhysAddr option \<times> 'f) \<Rightarrow> nat \<Rightarrow> VirtAddr \<Rightarrow> PhysAddr \<Rightarrow> usize \<Rightarrow>
     MappingFlags \<Rightarrow> bool \<Rightarrow> ('f, unit) pt_action" where
  "map_region_loop 0 alloc_frame LEVELS vaddr paddr sz flags allow_huge s = (Diverge, s)"
| "map_region_loop (Suc fuel) alloc_frame LEVELS vaddr paddr sz flags allow_huge s =
     (if 0 < sz then
        let page_size = region_page_size allow_huge vaddr paddr sz in
        and_then (map_page alloc_frame LEVELS vaddr paddr page_size flags) (\<lambda>_.
          map_region_loop fuel alloc_frame LEVELS (vaddr + page_bytes page_size)
            (paddr + page_bytes page_size) (sz - page_bytes page_size) flags allow_huge) s
      else (Ok (), s))"

definition region_fuel :: "usize \<Rightarrow> nat" where
  "region_fuel sz = unat sz div 4096 + 1"

definition map_region ::
  "('f \<Rightarrow> PhysAddr option \<times> 'f) \<Rightarrow> nat \<Rightarrow> VirtAddr \<Rightarrow> PhysAddr \<Rightarrow> usize \<Rightarrow> MappingFlags \<Rightarrow>
     bool \<Rightarrow> ('f, unit) pt_action" where
  "map_region alloc_frame LEVELS vaddr paddr sz flags allow_huge s =
     (if \<not> is_aligned vaddr (page_bytes Size4K) \<or> \<not> is_aligned paddr (page_bytes Size4K) \<or>
         \<not> is_aligned sz (page_bytes Size4K)
      then (Err NotAligned, s)
      else map_region_loop (region_fuel sz) alloc_frame LEVELS vaddr paddr sz flags
             allow_huge s)"

fun map_fault_region_loop ::
  "nat \<Rightarrow> ('f \<Rightarrow> PhysAddr option \<times> 'f) \<Rightarrow> nat \<Rightarrow> VirtAddr \<Rightarrow> usize \<Rightarrow> MappingFlags \<Rightarrow>
     ('f, unit) pt_action" where
  "map_fault_region_loop 0 alloc_frame LEVELS vaddr sz flags s = (Diverge, s)"
| "map_fault_region_loop (Suc fuel) alloc_frame LEVELS vaddr sz flags s =
     (if 0 < sz then
        and_then (map_fault alloc_frame LEVELS vaddr Size4K flags) (\<lambda>_.
          map_fault_region_loop fuel alloc_frame LEVELS (vaddr + page_bytes Size4K)
            (sz - page_bytes Size4K) flags) s
      else (Ok (), s))"

definition map_fault_region ::
  "('f \<Rightarrow> PhysAddr option \<times> 'f) \<Rightarrow> nat \<Rightarrow> VirtAddr \<Rightarrow> usize \<Rightarrow> MappingFlags \<Rightarrow>
     ('f, unit) pt_action" where
  "map_fault_region alloc_frame LEVELS vaddr sz flags s =
     (if \<not> is_aligned vaddr (page_bytes Size4K) \<or> \<not> is_aligned sz (page_bytes Size4K)
      then (Err NotAligned, s)
      else map_fault_region_loop (region_fuel sz) alloc_frame LEVELS vaddr sz flags s)"

lemma page_bytes_nonzero [simp]: "0 < page_bytes ps" "page_bytes ps \<noteq> 0"
  by (cases ps; simp)+

lemma unat_diff_page_bytes [termination_simp]:
  "page_bytes ps \<le> sz \<Longrightarrow> unat (sz - page_bytes ps) < unat sz"
  by (metis page_bytes_nonzero diff_less unat_sub unat_gt_0 word_neq_0_conv word_le_nat_alt
      less_le_trans)

function unmap_region :: "nat \<Rightarrow> VirtAddr \<Rightarrow> usize \<Rightarrow> ('f, unit) pt_action" where
  "unmap_region LEVELS vaddr sz s =
     (if 0 < sz then
        (case unmap LEVELS vaddr s of
           (Ok (_, page_size), s') \<Rightarrow>
             if is_aligned vaddr (page_bytes page_size) \<and> page_bytes page_size \<le> sz
             then unmap_region LEVELS (vaddr + page_bytes page_size)
                    (sz - page_bytes page_size) s'
             else (Panic, s')
         | (Err e, s') \<Rightarrow> (Err e, s')
         | (Panic, s') \<Rightarrow> (Panic, s')
         | (Diverge, s') \<Rightarrow> (Diverge, s'))
      else (Ok (), s))"
  by pat_completeness auto
termination
  by (relation "measure (\<lambda>(_, _, sz, _). unat sz)") (simp_all add: unat_diff_page_bytes)

fun update_region_loop ::
  "nat \<Rightarrow> nat \<Rightarrow> VirtAddr \<Rightarrow> VirtAddr \<Rightarrow> MappingFlags \<Rightarrow> ('f, unit) pt_action" where
  "update_region_loop 0 LEVELS vaddr end_va flags s = (Diverge, s)"
| "update_region_loop (Suc fuel) LEVELS vaddr end_va flags s =
     (if vaddr < end_va then
        and_then (pt_update LEVELS vaddr None (Some flags)) (\<lambda>page_size.
          update_region_loop fuel LEVELS (vaddr + page_bytes page_size) end_va flags) s
      else (Ok (), s))"

definition update_region ::
  "nat \<Rightarrow> VirtAddr \<Rightarrow> usize \<Rightarrow> MappingFlags \<Rightarrow> ('f, unit) pt_action" where
  "update_region LEVELS vaddr sz flags s =
     update_region_loop (region_fuel sz + 1) LEVELS vaddr (vaddr + sz) flags s"

subsection \<open>Walking and dropping\<close>

text \<open>
  The callback \<open>func\<close> of \<open>walk\<close> only reads its arguments: the walk is modelled by the list
  of the calls it makes.
\<close>

type_synonym walk_call = "nat \<times> nat \<times> VirtAddr \<times> Rv64PTE"

function walk_recursive ::
  "nat \<Rightarrow> physmem \<Rightarrow> nat \<Rightarrow> PhysAddr \<Rightarrow> nat \<Rightarrow> VirtAddr \<Rightarrow> nat \<Rightarrow> nat \<Rightarrow>
     (walk_call list, PagingError) result" where
  "walk_recursive LEVELS m limit table level start_vaddr i n =
     (if 512 \<le> i then Ok []
      else let vaddr = start_vaddr + push_bit (12 + (LEVELS - 1 - level) * 9) (of_nat i);
               entry = m table i in
        if is_present entry then
          res_bind
            (if level < LEVELS - 1 \<and> \<not> is_huge entry
             then res_bind (next_table_mut entry) (\<lambda>table_entry.
                    walk_recursive LEVELS m limit table_entry (level + 1) vaddr 0 0)
             else Ok [])
          (\<lambda>sub. if limit \<le> n + 1 then Ok ((level, i, vaddr, entry) # sub)
             else res_bind (walk_recursive LEVELS m limit table level start_vaddr (i + 1) (n + 1))
                    (\<lambda>rest. Ok ((level, i, vaddr, entry) # sub @ rest)))
        else walk_recursive LEVELS m limit table level start_vaddr (i + 1) n)"
  by pat_completeness auto
termination
  by (relation "measures [\<lambda>(L, _, _, _, level, _, _, _). L - level, \<lambda>(_, _, _, _, _, _, i, _). 512 - i]")
    auto

definition walk :: "nat \<Rightarrow> 'f PageTable64 \<Rightarrow> nat \<Rightarrow> (walk_call list, PagingError) result" where
  "walk LEVELS s limit = walk_recursive LEVELS (phys s) limit (root_paddr s) 0 0 0 0"

declare unmap_region.simps [simp del] walk_recursive.simps [simp del]

definition drop_table :: "(PhysAddr \<Rightarrow> 'f \<Rightarrow> 'f) \<Rightarrow> 'f PageTable64 \<Rightarrow> 'f" where
  "drop_table dealloc_frame s = fold dealloc_frame (intrm_tables s) (frames s)"

end
