(* ===== verification/FrameAlloc.thy ===== *)
theory FrameAlloc
  imports Allocator PageTable
begin

text \<open>
  \<open>PagingIfImpl\<close> of \<open>modules/axhal/src/paging.rs\<close>: the frames of page tables come from the
  global allocator. \<open>PHYS_VIRT_OFFSET\<close> is a constant of the generated configuration crate and
  therefore a parameter.
\<close>

definition virt_to_phys :: "usize \<Rightarrow> VirtAddr \<Rightarrow> PhysAddr" where
  "virt_to_phys PHYS_VIRT_OFFSET vaddr = vaddr - PHYS_VIRT_OFFSET"

definition phys_to_virt :: "usize \<Rightarrow> PhysAddr \<Rightarrow> VirtAddr" where
  "phys_to_virt PHYS_VIRT_OFFSET paddr = paddr + PHYS_VIRT_OFFSET"

definition alloc_frame ::
  "'b BitAlloc \<Rightarrow> usize \<Rightarrow> ('b, 'h) GlobalAllocator \<Rightarrow> PhysAddr option \<times> ('b, 'h) GlobalAllocator" where
  "alloc_frame B PHYS_VIRT_OFFSET G = (case global_alloc_pages B 1 PAGE_SIZE_4K G of
      (Ok vaddr, G') \<Rightarrow> (Some (virt_to_phys PHYS_VIRT_OFFSET vaddr), G')
    | (_, G') \<Rightarrow> (None, G'))"

definition dealloc_frame ::
  "'b BitAlloc \<Rightarrow> usize \<Rightarrow> PhysAddr \<Rightarrow> ('b, 'h) GlobalAllocator \<Rightarrow> ('b, 'h) GlobalAllocator" where
  "dealloc_frame B PHYS_VIRT_OFFSET paddr G =
     global_dealloc_pages B (phys_to_virt PHYS_VIRT_OFFSET paddr) 1 G"

end
