(* ===== verification/Io.thy ===== *)
theory Io
  imports AxErrno
begin

text \<open>
  \<open>crates/axio\<close>: the traits \<open>Read\<close>, \<open>Write\<close> and \<open>BufRead\<close> with their default methods, the reader of a
  byte slice and \<open>BufReader\<close>. A reader is its \<open>read\<close> method: given the length of the buffer it returns
  the bytes that it puts at the front of the buffer, in the state of the reader. The locale \<open>byte_stream\<close>
  says when a reader delivers a fixed sequence of bytes.
\<close>

datatype SeekFrom = SeekStart u64 | SeekEnd int | SeekCurrent int

text \<open>\<open>u64::checked_add_signed\<close>.\<close>

definition checked_add_signed :: "u64 \<Rightarrow> int \<Rightarrow> u64 option" where
  "checked_add_signed x d = (let y = uint x + d in if 0 \<le> y \<and> y < 2 ^ 64 then Some (word_of_int y) else None)"

type_synonym 's reader = "nat \<Rightarrow> ('s, u8 list, AxError) action"
type_synonym 's writer = "u8 list \<Rightarrow> ('s, nat, AxError) action"

subsection \<open>\<open>Read\<close>\<close>

text \<open>
  The loop of \<open>read_to_end\<close> appends to the vector in the first component of the state. It runs as long
  as the reader returns bytes, so it has fuel.
\<close>

fun read_to_end_loop :: "nat \<Rightarrow> 's reader \<Rightarrow> (u8 list \<times> 's, unit, AxError) action" where
  "read_to_end_loop 0 rd (buf, s) = (Diverge, (buf, s))"
| "read_to_end_loop (Suc fuel) rd (buf, s) = (case rd 32 s of
      (Ok bs, s') \<Rightarrow> if bs = [] then (Ok (), (buf, s')) else read_to_end_loop fuel rd (buf @ bs, s')
    | (Err e, s') \<Rightarrow> (Err e, (buf, s'))
    | (Panic, s') \<Rightarrow> (Panic, (buf, s'))
    | (Diverge, s') \<Rightarrow> (Diverge, (buf, s')))"

definition read_to_end :: "nat \<Rightarrow> 's reader \<Rightarrow> (u8 list \<times> 's, nat, AxError) action" where
  "read_to_end fuel rd bs = and_then (read_to_end_loop fuel rd) (\<lambda>_ (buf, s). (Ok (length buf - length (fst bs)), (buf, s))) bs"

text \<open>
  The loop shared by \<open>read_exact\<close> and \<open>read_full\<close>: \<open>n\<close> bytes of the buffer are still to be filled, the bytes
  that have been read are appended to the first component of the state. A reader that claims to have
  read more than the buffer holds makes the slice panic.
\<close>

function fill_loop :: "nat \<Rightarrow> 's reader \<Rightarrow> (u8 list \<times> 's, nat, AxError) action" where
  "fill_loop n rd (got, s) =
     (if n = 0 then (Ok 0, (got, s))
      else case rd n s of
          (Ok bs, s') \<Rightarrow>
            if bs = [] then (Ok n, (got, s'))
            else if length bs > n then (Panic, (got, s'))
            else fill_loop (n - length bs) rd (got @ bs, s')
        | (Err e, s') \<Rightarrow> (Err e, (got, s'))
        | (Panic, s') \<Rightarrow> (Panic, (got, s'))
        | (Diverge, s') \<Rightarrow> (Diverge, (got, s')))"
  by pat_completeness auto
termination
  by (relation "measure fst") auto

declare fill_loop.simps [simp del]

definition read_exact :: "nat \<Rightarrow> 's reader \<Rightarrow> ('s, u8 list, AxError) action" where
  "read_exact n rd s = (case fill_loop n rd ([], s) of
      (Ok left, (got, s')) \<Rightarrow> if left \<noteq> 0 then (Err UnexpectedEof, s') else (Ok got, s')
    | (Err e, (got, s')) \<Rightarrow> (Err e, s')
    | (Panic, (got, s')) \<Rightarrow> (Panic, s')
    | (Diverge, (got, s')) \<Rightarrow> (Diverge, s'))"

definition read_full :: "nat \<Rightarrow> 's reader \<Rightarrow> ('s, u8 list, AxError) action" where
  "read_full n rd s = (case fill_loop n rd ([], s) of
      (Ok left, (got, s')) \<Rightarrow> (Ok got, s')
    | (Err e, (got, s')) \<Rightarrow> (Err e, s')
    | (Panic, (got, s')) \<Rightarrow> (Panic, s')
    | (Diverge, (got, s')) \<Rightarrow> (Diverge, s'))"

subsection \<open>\<open>Write\<close>\<close>

function write_all :: "'s writer \<Rightarrow> u8 list \<Rightarrow> ('s, unit, AxError) action" where
  "write_all wr buf s =
     (if buf = [] then (Ok (), s)
      else case wr buf s of
          (Ok n, s') \<Rightarrow>
            if n = 0 then (Err WriteZero, s')
            else if n > length buf then (Panic, s')
            else write_all wr (drop n buf) s'
        | (Err e, s') \<Rightarrow> (Err e, s')
        | (Panic, s') \<Rightarrow> (Panic, s')
        | (Diverge, s') \<Rightarrow> (Diverge, s'))"
  by pat_completeness auto
termination
  by (relation "measure (\<lambda>(wr, buf, s). length buf)") auto

declare write_all.simps [simp del]

subsection \<open>Readers of slices: \<open>impls.rs\<close>\<close>

definition slice_read :: "u8 list reader" where
  "slice_read n self = (let amt = min n (length self) in (Ok (take amt self), drop amt self))"

definition slice_read_exact :: "nat \<Rightarrow> (u8 list, u8 list, AxError) action" where
  "slice_read_exact n self = (if n > length self then (Err UnexpectedEof, self) else (Ok (take n self), drop n self))"

definition slice_read_to_end :: "(u8 list \<times> u8 list, nat, AxError) action" where
  "slice_read_to_end bs = (case bs of (buf, self) \<Rightarrow> (Ok (length self), (buf @ self, [])))"

subsection \<open>\<open>BufReader\<close>: \<open>bufreader.rs\<close>\<close>

definition DEFAULT_BUF_SIZE :: nat where "DEFAULT_BUF_SIZE = 1024"

record 's BufReader =
  br_inner :: 's
  br_pos :: nat
  br_filled :: nat
  br_buf :: "u8 list"

definition br_new :: "'s \<Rightarrow> 's BufReader" where
  "br_new s = \<lparr>br_inner = s, br_pos = 0, br_filled = 0, br_buf = replicate DEFAULT_BUF_SIZE 0\<rparr>"

text \<open>\<open>&self.buf[self.pos..self.filled]\<close> with \<open>pos \<le> filled \<le> 1024\<close>.\<close>

definition br_buffer :: "'s BufReader \<Rightarrow> u8 list" where
  "br_buffer b = take (br_filled b - br_pos b) (drop (br_pos b) (br_buf b))"

definition br_discard :: "'s BufReader \<Rightarrow> 's BufReader" where
  "br_discard b = b\<lparr>br_pos := 0, br_filled := 0\<rparr>"

definition br_is_empty :: "'s BufReader \<Rightarrow> bool" where
  "br_is_empty b \<longleftrightarrow> br_pos b \<ge> br_filled b"

definition br_fill_buf :: "'s reader \<Rightarrow> ('s BufReader, u8 list, AxError) action" where
  "br_fill_buf rd b =
     (if br_is_empty b
      then (case rd (length (br_buf b)) (br_inner b) of
          (Ok bs, s') \<Rightarrow> let b' = b\<lparr>br_inner := s', br_buf := bs @ drop (length bs) (br_buf b), br_pos := 0, br_filled := length bs\<rparr>
             in (Ok (br_buffer b'), b')
        | (Err e, s') \<Rightarrow> (Err e, b\<lparr>br_inner := s'\<rparr>)
        | (Panic, s') \<Rightarrow> (Panic, b\<lparr>br_inner := s'\<rparr>)
        | (Diverge, s') \<Rightarrow> (Diverge, b\<lparr>br_inner := s'\<rparr>))
      else (Ok (br_buffer b), b))"

definition br_consume :: "nat \<Rightarrow> 's BufReader \<Rightarrow> 's BufReader" where
  "br_consume amt b = b\<lparr>br_pos := min (br_pos b + amt) (br_filled b)\<rparr>"

definition on_inner_reader :: "('s, 'a, AxError) action \<Rightarrow> ('s BufReader, 'a, AxError) action" where
  "on_inner_reader m b = (case m (br_inner b) of (r, s) \<Rightarrow> (r, b\<lparr>br_inner := s\<rparr>))"

definition br_read :: "'s reader \<Rightarrow> 's BufReader reader" where
  "br_read rd n b =
     (if br_is_empty b \<and> n \<ge> DEFAULT_BUF_SIZE then on_inner_reader (rd n) (br_discard b)
      else and_then (br_fill_buf rd) (\<lambda>rem b.
        case slice_read n rem of
          (Ok bs, _) \<Rightarrow> (Ok bs, br_consume (length bs) b)
        | (_, _) \<Rightarrow> (Panic, b)) b)"

definition br_read_exact :: "'s reader \<Rightarrow> nat \<Rightarrow> ('s BufReader, u8 list, AxError) action" where
  "br_read_exact rd n b =
     (if n \<le> length (br_buffer b) then (Ok (take n (br_buffer b)), b\<lparr>br_pos := br_pos b + n\<rparr>)
      else on_inner_reader (read_exact n rd) b)"

definition br_read_to_end :: "nat \<Rightarrow> 's reader \<Rightarrow> (u8 list \<times> 's BufReader, nat, AxError) action" where
  "br_read_to_end fuel rd bb = (case bb of (buf, b) \<Rightarrow>
     let inner_buf = br_buffer b; b1 = br_discard b in
     (case read_to_end fuel rd (buf @ inner_buf, br_inner b1) of
        (Ok n, (buf', s')) \<Rightarrow> (Ok (length inner_buf + n), (buf', b1\<lparr>br_inner := s'\<rparr>))
      | (Err e, (buf', s')) \<Rightarrow> (Err e, (buf', b1\<lparr>br_inner := s'\<rparr>))
      | (Panic, (buf', s')) \<Rightarrow> (Panic, (buf', b1\<lparr>br_inner := s'\<rparr>))
      | (Diverge, (buf', s')) \<Rightarrow> (Diverge, (buf', b1\<lparr>br_inner := s'\<rparr>))))"

subsection \<open>\<open>BufRead\<close>\<close>

text \<open>
  \<open>read_until\<close> for any buffered reader with \<open>fill_buf\<close> and \<open>consume\<close>: it tries again after \<open>WouldBlock\<close>, so
  it has fuel. The count of the bytes read is the result.
\<close>

fun read_until_loop ::
  "nat \<Rightarrow> ('s, u8 list, AxError) action \<Rightarrow> (nat \<Rightarrow> 's \<Rightarrow> 's) \<Rightarrow> u8 \<Rightarrow> nat \<Rightarrow> (u8 list \<times> 's, nat, AxError) action" where
  "read_until_loop 0 fill consume byte rd_n (buf, s) = (Diverge, (buf, s))"
| "read_until_loop (Suc fuel) fill consume byte rd_n (buf, s) = (case fill s of
      (Ok available, s') \<Rightarrow>
        if byte \<in> set available
        then let i = length (takeWhile (\<lambda>b. b \<noteq> byte) available)
          in (Ok (rd_n + Suc i), (buf @ take (Suc i) available, consume (Suc i) s'))
        else let used = length available; s'' = consume used s' in
          if used = 0 then (Ok rd_n, (buf @ available, s''))
          else read_until_loop fuel fill consume byte (rd_n + used) (buf @ available, s'')
    | (Err e, s') \<Rightarrow> if e = WouldBlock then read_until_loop fuel fill consume byte rd_n (buf, s') else (Err e, (buf, s'))
    | (Panic, s') \<Rightarrow> (Panic, (buf, s'))
    | (Diverge, s') \<Rightarrow> (Diverge, (buf, s')))"

definition read_until ::
  "nat \<Rightarrow> ('s, u8 list, AxError) action \<Rightarrow> (nat \<Rightarrow> 's \<Rightarrow> 's) \<Rightarrow> u8 \<Rightarrow> (u8 list \<times> 's, nat, AxError) action" where
  "read_until fuel fill consume byte = read_until_loop fuel fill consume byte 0"

definition has_data_left :: "('s, u8 list, AxError) action \<Rightarrow> ('s, bool, AxError) action" where
  "has_data_left fill = and_then fill (\<lambda>b s. (Ok (b \<noteq> []), s))"

end
