(* ===== verification/MemArea.thy ===== *)
theory MemArea
  imports FrameAlloc Io
begin

text \<open>
  \<open>MapArea\<close> and \<open>MemBackend\<close> of \<open>modules/axmem/src/area.rs\<close> and \<open>backend.rs\<close>: a contiguous range of
  user pages, each allocated or still lazy, with the page table entries that belong to it.

  The functions run over \<open>mm\<close>: the page table (with the frame allocator behind it) and the bytes
  of the physical pages, by the kernel address of the page. The file behind a mapping is a
  trait object (\<open>Box<dyn FileExt>\<close>) and is the parameter \<open>FileOps\<close>. Dropping a \<open>PhysPage\<close> returns it to
  the allocator, so \<open>drop_pages\<close> appears wherever a page vector is shortened.
\<close>

record 'k FileOps =
  fo_seek :: "SeekFrom \<Rightarrow> ('k, u64, AxError) action"
  fo_read_from_seek :: "SeekFrom \<Rightarrow> nat \<Rightarrow> ('k, u8 list, AxError) action"
  fo_write_to_seek :: "SeekFrom \<Rightarrow> u8 list \<Rightarrow> ('k, nat, AxError) action"
  fo_readable :: "'k \<Rightarrow> bool"
  fo_writable :: "'k \<Rightarrow> bool"
  fo_clone :: "'k \<Rightarrow> 'k option"

record ('b, 'k) mm_env =
  env_bits :: "'b BitAlloc"
  env_off :: usize
  env_file :: "'k FileOps"

record ('b, 'h) mm =
  mm_pt :: "('b, 'h) GlobalAllocator PageTable64"
  mm_data :: "VirtAddr \<Rightarrow> u8 list"

record 'k MapArea =
  pages :: "PhysPage option list"
  vaddr :: VirtAddr
  area_flags :: MappingFlags
  backend :: "'k option"

text \<open>\<open>PageTable\<close> of \<open>axhal\<close> is the Sv39 page table: three levels.\<close>

definition LEVELS :: nat where "LEVELS = 3"

definition on_pt :: "(('b, 'h) GlobalAllocator, 'a) pt_action \<Rightarrow> (('b, 'h) mm, 'a, PagingError) action" where
  "on_pt m s = (case m (mm_pt s) of (r, pt) \<Rightarrow> (r, s\<lparr>mm_pt := pt\<rparr>))"

definition on_global ::
  "(('b, 'h) GlobalAllocator, 'a, 'e) action \<Rightarrow> (('b, 'h) mm, 'a, 'e) action" where
  "on_global m s = (case m (frames (mm_pt s)) of (r, G) \<Rightarrow> (r, s\<lparr>mm_pt := (mm_pt s)\<lparr>frames := G\<rparr>\<rparr>))"

definition env_alloc :: "('b, 'k) mm_env \<Rightarrow> ('b, 'h) GlobalAllocator \<Rightarrow> PhysAddr option \<times> ('b, 'h) GlobalAllocator" where
  "env_alloc E = alloc_frame (env_bits E) (env_off E)"

definition drop_page :: "('b, 'k) mm_env \<Rightarrow> PhysPage option \<Rightarrow> ('b, 'h) mm \<Rightarrow> ('b, 'h) mm" where
  "drop_page E slot s = (case slot of None \<Rightarrow> s
     | Some p \<Rightarrow> s\<lparr>mm_pt := (mm_pt s)\<lparr>frames := PhysPage_drop (env_bits E) p (frames (mm_pt s))\<rparr>\<rparr>)"

definition drop_pages :: "('b, 'k) mm_env \<Rightarrow> PhysPage option list \<Rightarrow> ('b, 'h) mm \<Rightarrow> ('b, 'h) mm" where
  "drop_pages E ps s = fold (drop_page E) ps s"

subsection \<open>The file behind a mapping\<close>

definition MemBackend_new :: "'k FileOps \<Rightarrow> 'k \<Rightarrow> u64 \<Rightarrow> ('k, AxError) result" where
  "MemBackend_new F file offset = (case fo_seek F (SeekStart offset) file of
      (Ok _, file') \<Rightarrow> Ok file' | _ \<Rightarrow> Panic)"

definition MemBackend_clone :: "'k FileOps \<Rightarrow> 'k \<Rightarrow> ('k, AxError) result" where
  "MemBackend_clone F file = (case fo_clone F file of Some file' \<Rightarrow> Ok file' | None \<Rightarrow> Panic)"

definition clone_with_delta :: "'k FileOps \<Rightarrow> u64 \<Rightarrow> 'k \<Rightarrow> ('k, AxError) result" where
  "clone_with_delta F delta file = res_bind (MemBackend_clone F file) (\<lambda>file'.
     (case fo_seek F (SeekCurrent (sint delta)) file' of (Ok _, file'') \<Rightarrow> Ok file'' | _ \<Rightarrow> Panic))"

text \<open>\<open>backend.as_ref().map(|b| ...)\<close>: the clone that a split gives to the new area.\<close>

definition clone_backend :: "'k FileOps \<Rightarrow> u64 \<Rightarrow> 'k option \<Rightarrow> ('k option, AxError) result" where
  "clone_backend F delta b = (case b of None \<Rightarrow> Ok None
     | Some file \<Rightarrow> res_bind (clone_with_delta F delta file) (\<lambda>file'. Ok (Some file')))"

subsection \<open>Creating areas\<close>

definition area_size :: "'k MapArea \<Rightarrow> usize" where
  "area_size a = of_nat (length (pages a)) * PAGE_SIZE_4K"

definition end_va :: "'k MapArea \<Rightarrow> VirtAddr" where
  "end_va a = vaddr a + area_size a"

definition new_lazy ::
  "('b, 'k) mm_env \<Rightarrow> VirtAddr \<Rightarrow> usize \<Rightarrow> MappingFlags \<Rightarrow> 'k option \<Rightarrow>
     (('b, 'h) mm, 'k MapArea, AxError) action" where
  "new_lazy E start num_pages flags b =
     and_then (unwrap_act (on_pt (map_fault_region (env_alloc E) LEVELS start (num_pages * PAGE_SIZE_4K) flags)))
       (\<lambda>_ s. (Ok \<lparr>pages = replicate (unat num_pages) None, vaddr = start, area_flags = flags,
                  backend = b\<rparr>, s))"

fun store_pages :: "PhysPage option list \<Rightarrow> u8 list \<Rightarrow> (VirtAddr \<Rightarrow> u8 list) \<Rightarrow> VirtAddr \<Rightarrow> u8 list" where
  "store_pages [] bytes data = data"
| "store_pages (None # ps) bytes data = store_pages ps (drop 4096 bytes) data"
| "store_pages (Some p # ps) bytes data =
     store_pages ps (drop 4096 bytes) (data(start_vaddr p := take 4096 bytes))"

definition new_alloc ::
  "('b, 'k) mm_env \<Rightarrow> VirtAddr \<Rightarrow> usize \<Rightarrow> MappingFlags \<Rightarrow> u8 list option \<Rightarrow> 'k option \<Rightarrow>
     (('b, 'h) mm, 'k MapArea, AxError) action" where
  "new_alloc E start num_pages flags data b =
     and_then (on_global (PhysPage_alloc_contiguous (env_bits E) num_pages PAGE_SIZE_4K data))
       (\<lambda>(ps, bytes) s.
          (case ps of
             Some p # _ \<Rightarrow>
               and_then (unwrap_act (on_pt (map_region (env_alloc E) LEVELS start
                   (virt_to_phys (env_off E) (start_vaddr p)) (num_pages * PAGE_SIZE_4K) flags False)))
                 (\<lambda>_ s. (Ok \<lparr>pages = ps, vaddr = start, area_flags = flags, backend = b\<rparr>, s))
                 (s\<lparr>mm_data := store_pages ps bytes (mm_data s)\<rparr>)
           | _ \<Rightarrow> (Panic, s)))"

definition area_dealloc :: "('b, 'k) mm_env \<Rightarrow> 'k MapArea \<Rightarrow> (('b, 'h) mm, 'k MapArea, AxError) action" where
  "area_dealloc E a =
     and_then (unwrap_act (on_pt (unmap_region LEVELS (vaddr a) (area_size a))))
       (\<lambda>_ s. (Ok (a\<lparr>pages := []\<rparr>), drop_pages E (pages a) s))"

subsection \<open>Page faults\<close>

definition area_handle_page_fault ::
  "('b, 'k) mm_env \<Rightarrow> VirtAddr \<Rightarrow> MappingFlags \<Rightarrow> ('k MapArea \<times> ('b, 'h) mm, bool, AxError) action" where
  "area_handle_page_fault E addr flags = (\<lambda>(a, s).
     if \<not> (vaddr a \<le> addr \<and> addr < end_va a) then (Panic, (a, s))
     else if \<not> flags_contains (area_flags a) flags then (Ok False, (a, s))
     else let page_index = unat ((addr - vaddr a) div PAGE_SIZE_4K) in
       if length (pages a) \<le> page_index then (Ok False, (a, s))
       else if pages a ! page_index \<noteq> None then (Ok False, (a, s))
       else (case on_global (PhysPage_alloc (env_bits E)) s of
           (Ok page, s1) \<Rightarrow>
             let (bytes, b') = (case backend a of
                   None \<Rightarrow> (replicate 4096 0, None)
                 | Some f \<Rightarrow> (case fo_read_from_seek (env_file E)
                                   (SeekCurrent (sint (of_nat page_index * PAGE_SIZE_4K))) 4096 f of
                       (Ok rd, f') \<Rightarrow> (rd @ drop (length rd) (mm_data s1 (start_vaddr page)), Some f')
                     | (_, f') \<Rightarrow> (replicate 4096 0, Some f')));
                 s2 = s1\<lparr>mm_data := (mm_data s1)(start_vaddr page := bytes)\<rparr>;
                 a1 = a\<lparr>backend := b'\<rparr>
             in (case on_pt (map_overwrite (env_alloc E) LEVELS (align_down_4k addr)
                              (virt_to_phys (env_off E) (start_vaddr page)) Size4K (area_flags a)) s2 of
                   (Ok _, s3) \<Rightarrow> (Ok True, (a1\<lparr>pages := (pages a)[page_index := Some page]\<rparr>, s3))
                 | (_, s3) \<Rightarrow> (Panic, (a1, s3)))
         | (_, s1) \<Rightarrow> (Panic, (a, s1))))"

definition sync_page_with_backend ::
  "('b, 'k) mm_env \<Rightarrow> (VirtAddr \<Rightarrow> u8 list) \<Rightarrow> nat \<Rightarrow> 'k MapArea \<Rightarrow> ('k MapArea, AxError) result" where
  "sync_page_with_backend E data page_index a =
     (if length (pages a) \<le> page_index then Panic
      else case pages a ! page_index of
        None \<Rightarrow> Ok a
      | Some page \<Rightarrow> (case backend a of
          None \<Rightarrow> Ok a
        | Some f \<Rightarrow>
            if fo_writable (env_file E) f then
              (case fo_write_to_seek (env_file E) (SeekStart (of_nat page_index * PAGE_SIZE_4K))
                      (data (start_vaddr page)) f of
                 (Ok _, f') \<Rightarrow> Ok (a\<lparr>backend := Some f'\<rparr>)
               | _ \<Rightarrow> Panic)
            else Ok a))"

subsection \<open>Shrinking and splitting\<close>

definition shrink_left ::
  "('b, 'k) mm_env \<Rightarrow> VirtAddr \<Rightarrow> 'k MapArea \<Rightarrow> (('b, 'h) mm, 'k MapArea, AxError) action" where
  "shrink_left E new_start a s =
     (if \<not> is_aligned_4k new_start then (Panic, s)
      else let delete_size = new_start - vaddr a;
               delete_pages = unat (delete_size div PAGE_SIZE_4K) in
        (case (case backend a of None \<Rightarrow> Ok None
               | Some f \<Rightarrow> (case fo_seek (env_file E) (SeekCurrent (sint delete_size)) f of
                   (Ok _, f') \<Rightarrow> Ok (Some f') | _ \<Rightarrow> Panic)) of
           Ok b' \<Rightarrow>
             if length (pages a) < delete_pages then (Panic, s)
             else and_then (unwrap_act (on_pt (unmap_region LEVELS (vaddr a) delete_size)))
               (\<lambda>_ s. (Ok (a\<lparr>pages := drop delete_pages (pages a), vaddr := new_start, backend := b'\<rparr>), s))
               (drop_pages E (take delete_pages (pages a)) s)
         | Err e \<Rightarrow> (Err e, s) | Panic \<Rightarrow> (Panic, s) | Diverge \<Rightarrow> (Diverge, s)))"

definition shrink_right ::
  "('b, 'k) mm_env \<Rightarrow> VirtAddr \<Rightarrow> 'k MapArea \<Rightarrow> (('b, 'h) mm, 'k MapArea, AxError) action" where
  "shrink_right E new_end a s =
     (if \<not> is_aligned_4k new_end then (Panic, s)
      else let delete_size = end_va a - new_end;
               delete_pages = unat (delete_size div PAGE_SIZE_4K);
               keep = length (pages a) - delete_pages in
        if length (pages a) < delete_pages then (Panic, s)
        else and_then (unwrap_act (on_pt (unmap_region LEVELS new_end delete_size)))
          (\<lambda>_ s. (Ok (a\<lparr>pages := take keep (pages a)\<rparr>), s))
          (drop_pages E (drop keep (pages a)) s))"

definition area_split ::
  "('b, 'k) mm_env \<Rightarrow> VirtAddr \<Rightarrow> 'k MapArea \<Rightarrow> ('k MapArea \<times> 'k MapArea, AxError) result" where
  "area_split E addr a =
     (if \<not> is_aligned_4k addr then Panic
      else let right_page_count = unat ((end_va a - addr) div PAGE_SIZE_4K);
               keep = length (pages a) - right_page_count in
        if length (pages a) < right_page_count then Panic
        else res_bind (clone_backend (env_file E) (addr - vaddr a) (backend a)) (\<lambda>b'.
          Ok (a\<lparr>pages := take keep (pages a)\<rparr>,
              \<lparr>pages = drop keep (pages a), vaddr = addr, area_flags = area_flags a, backend = b'\<rparr>)))"

definition area_split3 ::
  "('b, 'k) mm_env \<Rightarrow> VirtAddr \<Rightarrow> VirtAddr \<Rightarrow> 'k MapArea \<Rightarrow>
     ('k MapArea \<times> 'k MapArea \<times> 'k MapArea, AxError) result" where
  "area_split3 E start fin a =
     (if \<not> (is_aligned_4k start \<and> is_aligned_4k fin \<and> start < fin \<and> vaddr a < start \<and> fin < end_va a)
      then Panic
      else let n_right = unat ((end_va a - fin) div PAGE_SIZE_4K);
               keep = length (pages a) - n_right in
        if length (pages a) < n_right then Panic
        else let right_pages = drop keep (pages a);
                 a1 = a\<lparr>pages := take keep (pages a)\<rparr>;
                 n_mid = unat ((end_va a1 - start) div PAGE_SIZE_4K);
                 keep1 = length (pages a1) - n_mid in
          if length (pages a1) < n_mid then Panic
          else let mid_pages = drop keep1 (pages a1);
                   a2 = a1\<lparr>pages := take keep1 (pages a1)\<rparr> in
            res_bind (clone_backend (env_file E) (start - vaddr a) (backend a)) (\<lambda>b1.
              res_bind (clone_backend (env_file E) (fin - vaddr a) (backend a)) (\<lambda>b2.
                Ok (a2, \<lparr>pages = mid_pages, vaddr = start, area_flags = area_flags a, backend = b1\<rparr>,
                    \<lparr>pages = right_pages, vaddr = fin, area_flags = area_flags a, backend = b2\<rparr>))))"

definition remove_mid ::
  "('b, 'k) mm_env \<Rightarrow> VirtAddr \<Rightarrow> VirtAddr \<Rightarrow> 'k MapArea \<Rightarrow>
     (('b, 'h) mm, 'k MapArea \<times> 'k MapArea, AxError) action" where
  "remove_mid E left_end right_start a s =
     (if \<not> (is_aligned_4k left_end \<and> is_aligned_4k right_start \<and> left_end \<le> right_start) then (Panic, s)
      else let delete_size = right_start - left_end;
               lo = unat ((left_end - vaddr a) div PAGE_SIZE_4K);
               hi = unat ((right_start - vaddr a) div PAGE_SIZE_4K) in
        if length (pages a) < hi then (Panic, s)
        else (case clone_backend (env_file E) (right_start - vaddr a) (backend a) of
            Ok b' \<Rightarrow>
              let right_area = \<lparr>pages = drop hi (pages a), vaddr = right_start,
                                 area_flags = area_flags a, backend = b'\<rparr>;
                  kept = take hi (pages a) in
              if hi < lo then (Panic, s)
              else and_then (unwrap_act (on_pt (unmap_region LEVELS left_end delete_size)))
                (\<lambda>_ s. (Ok (a\<lparr>pages := take lo kept\<rparr>, right_area), s))
                (drop_pages E (drop lo kept) s)
          | Err e \<Rightarrow> (Err e, s) | Panic \<Rightarrow> (Panic, s) | Diverge \<Rightarrow> (Diverge, s)))"

subsection \<open>Observers and flags\<close>

definition allocated :: "'k MapArea \<Rightarrow> bool" where
  "allocated a \<longleftrightarrow> list_all (\<lambda>page. page \<noteq> None) (pages a)"

definition area_fill :: "u8 \<Rightarrow> 'k MapArea \<Rightarrow> ('b, 'h) mm \<Rightarrow> ('b, 'h) mm" where
  "area_fill byte a s = s\<lparr>mm_data := fold (\<lambda>slot data. case slot of None \<Rightarrow> data
     | Some p \<Rightarrow> data(start_vaddr p := replicate 4096 byte)) (pages a) (mm_data s)\<rparr>"

definition overlap_with :: "VirtAddr \<Rightarrow> VirtAddr \<Rightarrow> 'k MapArea \<Rightarrow> bool" where
  "overlap_with start fin a \<longleftrightarrow> vaddr a \<le> start \<and> start < end_va a \<or> start \<le> vaddr a \<and> vaddr a < fin"

definition contained_in :: "VirtAddr \<Rightarrow> VirtAddr \<Rightarrow> 'k MapArea \<Rightarrow> bool" where
  "contained_in start fin a \<longleftrightarrow> start \<le> vaddr a \<and> end_va a \<le> fin"

definition area_contains :: "VirtAddr \<Rightarrow> VirtAddr \<Rightarrow> 'k MapArea \<Rightarrow> bool" where
  "area_contains start fin a \<longleftrightarrow> vaddr a \<le> start \<and> fin \<le> end_va a"

definition strict_contain :: "VirtAddr \<Rightarrow> VirtAddr \<Rightarrow> 'k MapArea \<Rightarrow> bool" where
  "strict_contain start fin a \<longleftrightarrow> vaddr a < start \<and> fin < end_va a"

definition update_flags :: "MappingFlags \<Rightarrow> 'k MapArea \<Rightarrow> (('b, 'h) mm, 'k MapArea, AxError) action" where
  "update_flags flags a =
     and_then (unwrap_act (on_pt (update_region LEVELS (vaddr a) (area_size a) flags)))
       (\<lambda>_ s. (Ok (a\<lparr>area_flags := flags\<rparr>), s))"

subsection \<open>Cloning\<close>

text \<open>
  \<open>as_slice\<close> reads the area through the active page table, which maps its pages: the bytes of
  the area are the bytes of its physical pages in order.
\<close>

definition area_bytes :: "(VirtAddr \<Rightarrow> u8 list) \<Rightarrow> 'k MapArea \<Rightarrow> u8 list" where
  "area_bytes data a = concat (map (\<lambda>slot. case slot of None \<Rightarrow> [] | Some p \<Rightarrow> data (start_vaddr p)) (pages a))"

fun clone_slots ::
  "('b, 'k) mm_env \<Rightarrow> 'k MapArea \<Rightarrow> nat \<Rightarrow> PhysPage option list \<Rightarrow>
     (('b, 'h) mm, PhysPage option list, AxError) action" where
  "clone_slots E a idx [] s = (Ok [], s)"
| "clone_slots E a idx (Some page # slots) s =
     and_then (unwrap_act (on_global (PhysPage_alloc (env_bits E)))) (\<lambda>new_page s.
       and_then (unwrap_act (on_pt (map_page (env_alloc E) LEVELS (vaddr a + of_nat idx * PAGE_SIZE_4K)
           (virt_to_phys (env_off E) (start_vaddr new_page)) Size4K (area_flags a)))) (\<lambda>_.
         and_then (clone_slots E a (Suc idx) slots) (\<lambda>rest s. (Ok (Some new_page # rest), s)))
       (s\<lparr>mm_data := (mm_data s)(start_vaddr new_page := mm_data s (start_vaddr page))\<rparr>)) s"
| "clone_slots E a idx (None # slots) s =
     and_then (unwrap_act (on_pt (map_fault (env_alloc E) LEVELS (vaddr a + of_nat idx * PAGE_SIZE_4K)
         Size4K (area_flags a)))) (\<lambda>_.
       and_then (clone_slots E a (Suc idx) slots) (\<lambda>rest s. (Ok (None # rest), s))) s"

definition clone_alloc :: "('b, 'k) mm_env \<Rightarrow> 'k MapArea \<Rightarrow> (('b, 'h) mm, 'k MapArea, AxError) action" where
  "clone_alloc E a s =
     (case (case backend a of None \<Rightarrow> Ok None
            | Some f \<Rightarrow> res_bind (MemBackend_clone (env_file E) f) (\<lambda>f'. Ok (Some f'))) of
        Ok b' \<Rightarrow>
          if allocated a
          then new_alloc E (vaddr a) (of_nat (length (pages a))) (area_flags a)
                 (Some (area_bytes (mm_data s) a)) b' s
          else and_then (clone_slots E a 0 (pages a)) (\<lambda>ps s.
                 (Ok \<lparr>pages = ps, vaddr = vaddr a, area_flags = area_flags a, backend = b'\<rparr>, s)) s
      | Err e \<Rightarrow> (Err e, s) | Panic \<Rightarrow> (Panic, s) | Diverge \<Rightarrow> (Diverge, s))"

end
