(* ===== verification/BTree.thy ===== *)
theory BTree
  imports Prelude
begin

text \<open>
  The standard library's \<open>BTreeMap\<close>, as far as the kernel uses it: a map iterated in the order
  of its keys. It is the list of its entries in strictly ascending order of the keys. The
  locale \<open>ordered_map\<close> is the contract its clients use; it is interpreted on these lists.
\<close>

type_synonym ('k, 'v) btree = "('k \<times> 'v) list"

definition bt_ok :: "('k :: linorder, 'v) btree \<Rightarrow> bool" where
  "bt_ok m \<longleftrightarrow> sorted_wrt (<) (map fst m)"

fun bt_insert :: "'k :: linorder \<Rightarrow> 'v \<Rightarrow> ('k, 'v) btree \<Rightarrow> ('k, 'v) btree" where
  "bt_insert k v [] = [(k, v)]"
| "bt_insert k v ((k', v') # m) =
     (if k < k' then (k, v) # (k', v') # m
      else if k = k' then (k, v) # m
      else (k', v') # bt_insert k v m)"

fun bt_remove :: "'k :: linorder \<Rightarrow> ('k, 'v) btree \<Rightarrow> ('k, 'v) btree" where
  "bt_remove k [] = []"
| "bt_remove k ((k', v') # m) = (if k = k' then m else (k', v') # bt_remove k m)"

lemma set_bt_insert: "set (bt_insert k v m) \<subseteq> insert (k, v) (set m)"
  by (induction m) (auto split: if_splits)

lemma fst_bt_insert: "fst ` set (bt_insert k v m) = insert k (fst ` set m)"
proof (induction m)
  case (Cons e m)
  then show ?case by (cases e) (simp add: insert_commute)
qed simp

lemma bt_insert_ok: "bt_ok m \<Longrightarrow> bt_ok (bt_insert k v m)"
proof (induction m)
  case (Cons e m)
  obtain k' v' where e: "e = (k', v')" by (cases e)
  have "fst ` set (bt_insert k v m) = insert k (fst ` set m)" by (rule fst_bt_insert)
  then show ?case
    using Cons by (auto simp: bt_ok_def e)
qed (simp add: bt_ok_def)

lemma map_of_bt_insert: "bt_ok m \<Longrightarrow> map_of (bt_insert k v m) = (map_of m)(k \<mapsto> v)"
  by (induction m) (auto simp: bt_ok_def fun_eq_iff)

lemma bt_remove_sublist: "set (bt_remove k m) \<subseteq> set m"
  by (induction m) (auto split: if_splits)

lemma bt_remove_ok: "bt_ok m \<Longrightarrow> bt_ok (bt_remove k m)"
proof (induction m)
  case (Cons e m)
  then show ?case
    using bt_remove_sublist [of k m] by (cases e) (auto simp: bt_ok_def)
qed simp

lemma map_of_bt_remove: "bt_ok m \<Longrightarrow> map_of (bt_remove k m) = (map_of m)(k := None)"
proof (induction m)
  case (Cons e m)
  obtain k' v' where e: "e = (k', v')" by (cases e)
  have "map_of m k' = None"
    using Cons.prems by (auto simp: bt_ok_def e map_of_eq_None_iff)
  then show ?case using Cons by (auto simp: bt_ok_def e fun_eq_iff)
qed (simp add: fun_eq_iff)

lemma bt_ok_distinct: "bt_ok m \<Longrightarrow> distinct (map fst m)"
  unfolding bt_ok_def using strict_sorted_iff by blast

lemma bt_ok_Cons: "bt_ok ((k, v) # m) \<longleftrightarrow> (\<forall>e \<in> set m. k < fst e) \<and> bt_ok m"
  by (auto simp: bt_ok_def)

lemma bt_insert_new: "map_of m k = None \<Longrightarrow> set (bt_insert k v m) = insert (k, v) (set m)"
proof (induction m)
  case (Cons e m)
  obtain k' v' where e: "e = (k', v')" by (cases e)
  show ?case using Cons by (cases "k = k'") (simp_all add: e insert_commute)
qed simp

lemma bt_get_iff: "bt_ok m \<Longrightarrow> map_of m k = Some v \<longleftrightarrow> (k, v) \<in> set m"
  by (simp add: map_of_eq_Some_iff bt_ok_distinct)

lemma bt_insert_same: "bt_ok m \<Longrightarrow> (k, v) \<in> set m \<Longrightarrow> bt_insert k v m = m"
proof (induction m)
  case (Cons e m)
  obtain k' v' where e: "e = (k', v')" by (cases e)
  have "k' < k" if "(k, v) \<in> set m" using Cons.prems(1) that by (auto simp: e bt_ok_Cons)
  then show ?case using Cons by (auto simp: e bt_ok_Cons)
qed simp

lemma bt_first_least: "bt_ok ((k, v) # m) \<Longrightarrow> k' \<in> dom (map_of ((k, v) # m)) \<Longrightarrow> k \<le> k'"
  unfolding bt_ok_Cons dom_map_of_conv_image_fst by force

subsection \<open>The contract of an ordered map\<close>

locale ordered_map =
  fixes get :: "'m \<Rightarrow> 'k :: linorder \<Rightarrow> 'v option"
    and ins :: "'k \<Rightarrow> 'v \<Rightarrow> 'm \<Rightarrow> 'm" and del :: "'k \<Rightarrow> 'm \<Rightarrow> 'm"
    and pop :: "'m \<Rightarrow> ('k \<times> 'v \<times> 'm) option" and ok :: "'m \<Rightarrow> bool"
  assumes get_ins: "ok m \<Longrightarrow> get (ins k v m) = (get m)(k \<mapsto> v)"
    and get_del: "ok m \<Longrightarrow> get (del k m) = (get m)(k := None)"
    and ok_ins: "ok m \<Longrightarrow> ok (ins k v m)" and ok_del: "ok m \<Longrightarrow> ok (del k m)"
    and pop_None: "ok m \<Longrightarrow> pop m = None \<longleftrightarrow> get m = Map.empty"
    and pop_Some: "ok m \<Longrightarrow> pop m = Some (k, v, m') \<Longrightarrow>
      ok m' \<and> get m k = Some v \<and> get m' = (get m)(k := None) \<and> (\<forall>k' \<in> dom (get m). k \<le> k')"
begin

lemma ins_pop_least:
  assumes "ok m" and "get m k = None" and "\<forall>k' \<in> dom (get m). k \<le> k'"
  shows "\<exists>m'. pop (ins k v m) = Some (k, v, m') \<and> get m' = get m"
proof -
  have ok: "ok (ins k v m)" and g: "get (ins k v m) = (get m)(k \<mapsto> v)"
    using assms by (simp_all add: ok_ins get_ins)
  then have "pop (ins k v m) \<noteq> None" using pop_None [OF ok] by (auto simp: fun_eq_iff split: if_splits)
  then obtain k' v' m' where p: "pop (ins k v m) = Some (k', v', m')" by (metis not_None_eq prod_cases3)
  note q = pop_Some [OF ok p]
  have "k' = k"
    using q assms(3) g by (auto simp: dom_def split: if_splits intro: antisym)
  then show ?thesis using q p g assms(2) by (auto simp: fun_eq_iff)
qed

end

fun bt_pop_first :: "('k :: linorder, 'v) btree \<Rightarrow> ('k \<times> 'v \<times> ('k, 'v) btree) option" where
  "bt_pop_first [] = None"
| "bt_pop_first ((k, v) # m) = Some (k, v, m)"

interpretation bt: ordered_map map_of bt_insert bt_remove bt_pop_first bt_ok
proof
  fix m :: "('k :: linorder, 'v) btree" and k v m'
  assume ok: "bt_ok m"
  show "map_of (bt_insert k v m) = (map_of m)(k \<mapsto> v)" by (rule map_of_bt_insert [OF ok])
  show "map_of (bt_remove k m) = (map_of m)(k := None)" by (rule map_of_bt_remove [OF ok])
  show "bt_ok (bt_insert k v m)" by (rule bt_insert_ok [OF ok])
  show "bt_ok (bt_remove k m)" by (rule bt_remove_ok [OF ok])
  show "bt_pop_first m = None \<longleftrightarrow> map_of m = Map.empty" by (cases m) (auto simp: fun_eq_iff)
  assume p: "bt_pop_first m = Some (k, v, m')"
  then have m: "m = (k, v) # m'" by (cases m) auto
  have "bt_remove k m = m'" by (simp add: m)
  then have "map_of m' = (map_of m)(k := None)" using map_of_bt_remove [OF ok, of k] by simp
  then show "bt_ok m' \<and> map_of m k = Some v \<and> map_of m' = (map_of m)(k := None) \<and> (\<forall>k' \<in> dom (map_of m). k \<le> k')"
    using ok bt_first_least [of k v m'] by (auto simp: m bt_ok_Cons)
qed

end
