(* ===== verification/MemorySet.thy ===== *)
theory MemorySet
  imports MemArea BTree "HOL-Library.Product_Lexorder"
begin

text \<open>
  \<open>MemorySet\<close> of \<open>modules/axmem/src/lib.rs\<close> and the shared memory of \<open>shared.rs\<close>: the address space of
  a process as a map from start addresses to areas, the shared segments attached to it, and its
  page table. \<open>memory_regions()\<close> (the platform's memory map) and \<open>USER_MEMORY_START\<close> (generated
  configuration) are arguments. TLB flushes have no effect on this state.
\<close>

record SharedMemPermInfo =
  perm_key :: int
  perm_uid :: u32
  perm_gid :: u32
  perm_cuid :: u32
  perm_cgid :: u32
  perm_mode :: "16 word"

record SharedMemInfo =
  si_perm :: SharedMemPermInfo
  si_size :: usize
  si_a_time :: usize
  si_d_time :: usize
  si_c_time :: usize
  si_c_pid :: u64
  si_l_pid :: u64

record SharedMem =
  sm_pages :: GlobalPage
  sm_info :: SharedMemInfo

record ('b, 'h, 'k) MemorySet =
  ms_mm :: "('b, 'h) mm"
  owned_mem :: "(usize, 'k MapArea) btree"
  private_mem :: "(int, SharedMem) btree"
  attached_mem :: "(VirtAddr \<times> MappingFlags \<times> SharedMem) list"

type_synonym ('b, 'h, 'k, 'a) ms_action = "(('b, 'h, 'k) MemorySet, 'a, AxError) action"

definition on_mm :: "(('b, 'h) mm, 'a, AxError) action \<Rightarrow> ('b, 'h, 'k, 'a) ms_action" where
  "on_mm m S = (case m (ms_mm S) of (r, s) \<Rightarrow> (r, S\<lparr>ms_mm := s\<rparr>))"

text \<open>\<open>assert!(self.owned_mem.insert(key, area).is_none())\<close>\<close>

definition insert_area :: "'k MapArea \<Rightarrow> ('b, 'h, 'k, unit) ms_action" where
  "insert_area a S =
     (case map_of (owned_mem S) (vaddr a) of
        None \<Rightarrow> (Ok (), S\<lparr>owned_mem := bt_insert (vaddr a) a (owned_mem S)\<rparr>)
      | Some _ \<Rightarrow> (Panic, S\<lparr>owned_mem := bt_insert (vaddr a) a (owned_mem S)\<rparr>))"

subsection \<open>Construction\<close>

definition new_empty :: "('b, 'k) mm_env \<Rightarrow> ('b, 'h) mm \<Rightarrow> (('b, 'h, 'k) MemorySet, AxError) result" where
  "new_empty E s = (case try_new (env_alloc E) (phys (mm_pt s)) (frames (mm_pt s)) of
      (Ok pt, _) \<Rightarrow> Ok \<lparr>ms_mm = s\<lparr>mm_pt := pt\<rparr>, owned_mem = [], private_mem = [], attached_mem = []\<rparr>
    | _ \<Rightarrow> Panic)"

type_synonym mem_region = "PhysAddr \<times> usize \<times> MappingFlags"

fun map_kernel_regions ::
  "('b, 'k) mm_env \<Rightarrow> mem_region list \<Rightarrow> (('b, 'h) mm, unit, AxError) action" where
  "map_kernel_regions E [] s = (Ok (), s)"
| "map_kernel_regions E ((pa, sz, fl) # rs) s =
     and_then (unwrap_act (on_pt (map_region (env_alloc E) LEVELS (phys_to_virt (env_off E) pa) pa sz fl True)))
       (\<lambda>_. map_kernel_regions E rs) s"

definition new_with_kernel_mapped ::
  "('b, 'k) mm_env \<Rightarrow> mem_region list \<Rightarrow> ('b, 'h) mm \<Rightarrow> (('b, 'h, 'k) MemorySet, AxError) result" where
  "new_with_kernel_mapped E regions s =
     res_bind (new_empty E s) (\<lambda>S.
       (case map_kernel_regions E regions (ms_mm S) of
          (Ok _, s') \<Rightarrow> Ok (S\<lparr>ms_mm := s'\<rparr>) | _ \<Rightarrow> Panic))"

definition max_va :: "('b, 'h, 'k) MemorySet \<Rightarrow> VirtAddr" where
  "max_va S = (if owned_mem S = [] then 0 else end_va (snd (last (owned_mem S))))"

definition round_pages :: "usize \<Rightarrow> usize" where
  "round_pages sz = (sz + PAGE_SIZE_4K - 1) div PAGE_SIZE_4K"

definition new_region ::
  "('b, 'k) mm_env \<Rightarrow> VirtAddr \<Rightarrow> usize \<Rightarrow> MappingFlags \<Rightarrow> u8 list option \<Rightarrow> 'k option \<Rightarrow>
     ('b, 'h, 'k, unit) ms_action" where
  "new_region E va sz flags data b =
     (let num_pages = round_pages sz in
      and_then (case data of
          Some d \<Rightarrow> unwrap_act (on_mm (new_alloc E va num_pages flags (Some d) b))
        | None \<Rightarrow> on_mm (new_lazy E va num_pages flags b))
        insert_area)"

subsection \<open>Removing a range\<close>

definition split_one ::
  "('b, 'k) mm_env \<Rightarrow> VirtAddr \<Rightarrow> VirtAddr \<Rightarrow> 'k MapArea \<Rightarrow> ('b, 'h, 'k, unit) ms_action" where
  "split_one E start fin a =
     (if contained_in start fin a then
        and_then (on_mm (area_dealloc E a)) (\<lambda>_ S. (Ok (), S))
      else if strict_contain start fin a then
        and_then (on_mm (remove_mid E start fin a)) (\<lambda>(left, new_area).
          and_then (insert_area new_area) (\<lambda>_. insert_area left))
      else if start \<le> vaddr a \<and> vaddr a < fin then
        and_then (on_mm (shrink_left E fin a)) insert_area
      else and_then (on_mm (shrink_right E start a)) insert_area)"

fun for_each_area ::
  "('k MapArea \<Rightarrow> ('b, 'h, 'k, unit) ms_action) \<Rightarrow> (usize \<times> 'k MapArea) list \<Rightarrow> ('b, 'h, 'k, unit) ms_action" where
  "for_each_area f [] S = (Ok (), S)"
| "for_each_area f ((k, a) # l) S = and_then (f a) (\<lambda>_. for_each_area f l) S"

definition split_for_area ::
  "('b, 'k) mm_env \<Rightarrow> VirtAddr \<Rightarrow> usize \<Rightarrow> ('b, 'h, 'k, unit) ms_action" where
  "split_for_area E start sz S =
     (let fin = start + sz in
      if \<not> is_aligned_4k fin then (Panic, S)
      else let overlapped = filter (\<lambda>(_, a). overlap_with start fin a) (owned_mem S);
               prev = filter (\<lambda>(_, a). \<not> overlap_with start fin a) (owned_mem S)
           in for_each_area (split_one E start fin) overlapped (S\<lparr>owned_mem := prev\<rparr>))"

subsection \<open>Finding a free range and mapping\<close>

definition sm_bytes :: "SharedMem \<Rightarrow> usize" where
  "sm_bytes m = gp_num_pages (sm_pages m) * PAGE_SIZE"

fun scan_segments :: "usize \<Rightarrow> usize \<Rightarrow> (usize \<times> usize) list \<Rightarrow> VirtAddr option" where
  "scan_segments sz last_end [] = None"
| "scan_segments sz last_end ((start, fin) # segs) =
     (if last_end + sz \<le> start then Some last_end else scan_segments sz fin segs)"

definition segments_of :: "('b, 'h, 'k) MemorySet \<Rightarrow> (usize \<times> usize) list" where
  "segments_of S = map (\<lambda>(start, a). (start, start + area_size a)) (owned_mem S) @
     map (\<lambda>(start, _, m). (start, start + sm_bytes m)) (attached_mem S)"

definition find_free_area ::
  "usize \<Rightarrow> VirtAddr \<Rightarrow> usize \<Rightarrow> ('b, 'h, 'k) MemorySet \<Rightarrow> VirtAddr option" where
  "find_free_area USER_MEMORY_START hint sz S =
     scan_segments sz (max hint USER_MEMORY_START) (sort (segments_of S))"

definition mmap ::
  "('b, 'k) mm_env \<Rightarrow> usize \<Rightarrow> VirtAddr \<Rightarrow> usize \<Rightarrow> MappingFlags \<Rightarrow> bool \<Rightarrow> 'k option \<Rightarrow>
     ('b, 'h, 'k, usize) ms_action" where
  "mmap E USER_MEMORY_START start sz flags fixed b S =
     (let sz = round_pages sz * PAGE_SIZE_4K in
      if fixed then
        and_then (split_for_area E start sz) (\<lambda>_.
          and_then (new_region E start sz flags None b) (\<lambda>_ S. (Ok start, S))) S
      else case find_free_area USER_MEMORY_START start sz S of
        Some start \<Rightarrow> and_then (new_region E start sz flags None b) (\<lambda>_ S. (Ok start, S)) S
      | None \<Rightarrow> (Ok (- 1), S))"

definition munmap :: "('b, 'k) mm_env \<Rightarrow> VirtAddr \<Rightarrow> usize \<Rightarrow> ('b, 'h, 'k, unit) ms_action" where
  "munmap E start sz = (let sz = round_pages sz * PAGE_SIZE_4K in split_for_area E start sz)"

fun msync_pages ::
  "('b, 'k) mm_env \<Rightarrow> (VirtAddr \<Rightarrow> u8 list) \<Rightarrow> VirtAddr \<Rightarrow> VirtAddr \<Rightarrow> nat list \<Rightarrow> 'k MapArea \<Rightarrow>
     ('k MapArea, AxError) result" where
  "msync_pages E data start fin [] a = Ok a"
| "msync_pages E data start fin (i # is) a =
     (let page_vaddr = vaddr a + of_nat i * PAGE_SIZE_4K in
      if start \<le> page_vaddr \<and> page_vaddr < fin
      then res_bind (sync_page_with_backend E data i a) (msync_pages E data start fin is)
      else msync_pages E data start fin is a)"

fun msync_areas ::
  "('b, 'k) mm_env \<Rightarrow> (VirtAddr \<Rightarrow> u8 list) \<Rightarrow> VirtAddr \<Rightarrow> VirtAddr \<Rightarrow> (usize, 'k MapArea) btree \<Rightarrow>
     ((usize, 'k MapArea) btree, AxError) result" where
  "msync_areas E data start fin [] = Ok []"
| "msync_areas E data start fin ((k, a) # m) =
     res_bind (if backend a = None then Ok a
               else if overlap_with start fin a
               then msync_pages E data start fin [0..<length (pages a)] a else Ok a) (\<lambda>a'.
       res_bind (msync_areas E data start fin m) (\<lambda>m'. Ok ((k, a') # m')))"

definition msync :: "('b, 'k) mm_env \<Rightarrow> VirtAddr \<Rightarrow> usize \<Rightarrow> ('b, 'h, 'k, unit) ms_action" where
  "msync E start sz S =
     (case msync_areas E (mm_data (ms_mm S)) start (start + sz) (owned_mem S) of
        Ok m \<Rightarrow> (Ok (), S\<lparr>owned_mem := m\<rparr>) | Err e \<Rightarrow> (Err e, S) | Panic \<Rightarrow> (Panic, S) | Diverge \<Rightarrow> (Diverge, S))"

subsection \<open>Changing the protection of a range\<close>

definition lift_res :: "('a, AxError) result \<Rightarrow> ('b, 'h, 'k, 'a) ms_action" where
  "lift_res r S = (r, S)"

definition protect_one ::
  "('b, 'k) mm_env \<Rightarrow> VirtAddr \<Rightarrow> VirtAddr \<Rightarrow> MappingFlags \<Rightarrow> 'k MapArea \<Rightarrow> ('b, 'h, 'k, unit) ms_action" where
  "protect_one E start fin flags a =
     (if contained_in start fin a then
        and_then (on_mm (update_flags flags a)) insert_area
      else if strict_contain start fin a then
        and_then (lift_res (area_split3 E start fin a)) (\<lambda>(left, mid, right).
          and_then (on_mm (update_flags flags mid)) (\<lambda>mid.
            and_then (insert_area mid) (\<lambda>_.
              and_then (insert_area right) (\<lambda>_. insert_area left))))
      else if start \<le> vaddr a \<and> vaddr a < fin then
        and_then (lift_res (area_split E fin a)) (\<lambda>(left, right).
          and_then (on_mm (update_flags flags left)) (\<lambda>left.
            and_then (insert_area right) (\<lambda>_. insert_area left)))
      else
        and_then (lift_res (area_split E start a)) (\<lambda>(left, right).
          and_then (on_mm (update_flags flags right)) (\<lambda>right.
            and_then (insert_area right) (\<lambda>_. insert_area left))))"

definition mprotect ::
  "('b, 'k) mm_env \<Rightarrow> VirtAddr \<Rightarrow> usize \<Rightarrow> MappingFlags \<Rightarrow> ('b, 'h, 'k, unit) ms_action" where
  "mprotect E start sz flags S =
     (let fin = start + sz in
      if \<not> is_aligned_4k fin then (Panic, S)
      else let overlapped = filter (\<lambda>(_, a). overlap_with start fin a) (owned_mem S);
               prev = filter (\<lambda>(_, a). \<not> overlap_with start fin a) (owned_mem S)
           in for_each_area (protect_one E start fin flags) overlapped (S\<lparr>owned_mem := prev\<rparr>))"

subsection \<open>Page faults\<close>

fun find_area :: "VirtAddr \<Rightarrow> (usize, 'k MapArea) btree \<Rightarrow> (usize \<times> 'k MapArea) option" where
  "find_area addr m = find (\<lambda>(_, a). vaddr a \<le> addr \<and> addr < end_va a) m"

text \<open>\<open>values_mut()\<close> gives a mutable reference: the area found is replaced by the changed one.\<close>

definition fault_in ::
  "('b, 'k) mm_env \<Rightarrow> VirtAddr \<Rightarrow> MappingFlags \<Rightarrow> usize \<Rightarrow> 'k MapArea \<Rightarrow> ('b, 'h, 'k, bool) ms_action" where
  "fault_in E addr flags k a S = (case area_handle_page_fault E addr flags (a, ms_mm S) of
      (r, (a', s')) \<Rightarrow> (r, S\<lparr>ms_mm := s', owned_mem := bt_insert k a' (owned_mem S)\<rparr>))"

definition handle_page_fault ::
  "('b, 'k) mm_env \<Rightarrow> VirtAddr \<Rightarrow> MappingFlags \<Rightarrow> ('b, 'h, 'k, unit) ms_action" where
  "handle_page_fault E addr flags S = (case find_area addr (owned_mem S) of
      Some (k, a) \<Rightarrow> and_then (fault_in E addr flags k a)
        (\<lambda>done S. if \<not> done then (Err BadAddress, S) else (Ok (), S)) S
    | None \<Rightarrow> (Err BadAddress, S))"

definition check_page_table_entry_validity ::
  "VirtAddr \<Rightarrow> 'f PageTable64 \<Rightarrow> (unit, PagingError) result" where
  "check_page_table_entry_validity addr pt = (case get_entry_mut LEVELS pt addr of
      Ok (entry, _) \<Rightarrow> if \<not> is_present (read_entry pt entry) then Err NotMapped else Ok ()
    | _ \<Rightarrow> Err PageTable.NoMemory)"

definition manual_alloc_for_lazy ::
  "('b, 'k) mm_env \<Rightarrow> VirtAddr \<Rightarrow> ('b, 'h, 'k, unit) ms_action" where
  "manual_alloc_for_lazy E addr S = (case find_area addr (owned_mem S) of
      Some (k, a) \<Rightarrow>
        (case check_page_table_entry_validity addr (mm_pt (ms_mm S)) of
           Err PageTable.NoMemory \<Rightarrow> (Err InvalidInput, S)
         | Err NotMapped \<Rightarrow>
             (case get_entry_mut LEVELS (mm_pt (ms_mm S)) addr of
                Ok (entry, _) \<Rightarrow>
                  and_then (fault_in E addr (pte_flags (read_entry (mm_pt (ms_mm S)) entry)) k a)
                    (\<lambda>done S. if \<not> done then (Err BadAddress, S) else (Ok (), S)) S
              | _ \<Rightarrow> (Panic, S))
         | _ \<Rightarrow> (Ok (), S))
    | None \<Rightarrow> (Err InvalidInput, S))"

definition page_range :: "usize \<Rightarrow> usize \<Rightarrow> usize list" where
  "page_range first final = (if final < first then []
     else map (\<lambda>i. first + of_nat i * PAGE_SIZE_4K) [0..<Suc (unat ((final - first) div PAGE_SIZE_4K))])"

fun alloc_each :: "('b, 'k) mm_env \<Rightarrow> usize list \<Rightarrow> ('b, 'h, 'k, unit) ms_action" where
  "alloc_each E [] S = (Ok (), S)"
| "alloc_each E (addr # as) S = and_then (manual_alloc_for_lazy E addr) (\<lambda>_. alloc_each E as) S"

definition manual_alloc_range_for_lazy ::
  "('b, 'k) mm_env \<Rightarrow> VirtAddr \<Rightarrow> VirtAddr \<Rightarrow> ('b, 'h, 'k, unit) ms_action" where
  "manual_alloc_range_for_lazy E start fin S =
     (if fin < start then (Err InvalidInput, S)
      else alloc_each E (page_range (align_down_4k start) (align_down_4k fin)) S)"

definition unmap_user_areas :: "('b, 'k) mm_env \<Rightarrow> ('b, 'h, 'k, unit) ms_action" where
  "unmap_user_areas E = and_then
     (\<lambda>S. for_each_area (\<lambda>a. and_then (on_mm (area_dealloc E a)) (\<lambda>_ S. (Ok (), S))) (owned_mem S) S)
     (\<lambda>_ S. (Ok (), S\<lparr>owned_mem := []\<rparr>))"

definition ms_query ::
  "('b, 'h, 'k) MemorySet \<Rightarrow> VirtAddr \<Rightarrow> (PhysAddr \<times> MappingFlags \<times> PageSize, AxError) result" where
  "ms_query S va = (case pt_query LEVELS (mm_pt (ms_mm S)) va of Ok x \<Rightarrow> Ok x | _ \<Rightarrow> Err InvalidInput)"

definition map_page_without_alloc ::
  "('b, 'k) mm_env \<Rightarrow> VirtAddr \<Rightarrow> PhysAddr \<Rightarrow> MappingFlags \<Rightarrow> ('b, 'h, 'k, unit) ms_action" where
  "map_page_without_alloc E va pa flags S =
     (case on_pt (map_region (env_alloc E) LEVELS va pa PAGE_SIZE_4K flags False) (ms_mm S) of
        (r, s) \<Rightarrow> (map_err (\<lambda>_. InvalidInput) r, S\<lparr>ms_mm := s\<rparr>))"

subsection \<open>Shared memory\<close>

text \<open>\<open>AtomicI32::fetch_add\<close> wraps around.\<close>

definition i32_wrap :: "int \<Rightarrow> int" where
  "i32_wrap x = (x + 2 ^ 31) mod 2 ^ 32 - 2 ^ 31"

record shm_state =
  SHMID :: int
  SHARED_MEMS :: "(int, SharedMem) btree"
  KEY_TO_SHMID :: "(int, int) btree"

definition SharedMemInfo_new ::
  "usize \<Rightarrow> int \<Rightarrow> usize \<Rightarrow> u64 \<Rightarrow> u32 \<Rightarrow> u32 \<Rightarrow> 16 word \<Rightarrow> SharedMemInfo" where
  "SharedMemInfo_new now_secs key sz pid uid gid mode =
     \<lparr>si_perm = \<lparr>perm_key = key, perm_uid = uid, perm_gid = gid, perm_cuid = uid, perm_cgid = gid, perm_mode = mode\<rparr>,
      si_size = sz, si_a_time = 0, si_d_time = 0, si_c_time = now_secs, si_c_pid = pid, si_l_pid = 0\<rparr>"

definition SharedMem_try_new ::
  "'b BitAlloc \<Rightarrow> usize \<Rightarrow> int \<Rightarrow> usize \<Rightarrow> u64 \<Rightarrow> u32 \<Rightarrow> u32 \<Rightarrow> 16 word \<Rightarrow>
     (('b, 'h) GlobalAllocator, SharedMem, AxError) action" where
  "SharedMem_try_new B now_secs key sz pid uid gid mode =
     (let num_pages = round_pages sz in
      and_then (GlobalPage_alloc_contiguous B num_pages PAGE_SIZE_4K) (\<lambda>ps G.
        let sz = gp_num_pages ps * PAGE_SIZE in
        (Ok \<lparr>sm_pages = ps, sm_info = SharedMemInfo_new now_secs key sz pid uid gid mode\<rparr>, G)))"

definition sm_paddr :: "usize \<Rightarrow> SharedMem \<Rightarrow> PhysAddr" where
  "sm_paddr off m = virt_to_phys off (gp_start_vaddr (sm_pages m))"

definition create_shared_mem ::
  "'b BitAlloc \<Rightarrow> usize \<Rightarrow> int \<Rightarrow> usize \<Rightarrow> u64 \<Rightarrow> u32 \<Rightarrow> u32 \<Rightarrow> 16 word \<Rightarrow>
     (shm_state \<times> ('b, 'h) GlobalAllocator, int \<times> SharedMem, AxError) action" where
  "create_shared_mem B now_secs key sz pid uid gid mode = (\<lambda>(g, G).
     let shmid = SHMID g;
         g' = g\<lparr>SHMID := i32_wrap (shmid + 1), KEY_TO_SHMID := bt_insert key shmid (KEY_TO_SHMID g)\<rparr> in
     (case SharedMem_try_new B now_secs key sz pid uid gid mode G of
        (r, G') \<Rightarrow> (res_bind r (\<lambda>m. Ok (shmid, m)), (g', G'))))"

definition add_shared_mem :: "int \<Rightarrow> SharedMem \<Rightarrow> (shm_state, unit, AxError) action" where
  "add_shared_mem shmid m g =
     ((case map_of (SHARED_MEMS g) shmid of None \<Rightarrow> Ok () | Some _ \<Rightarrow> Panic),
      g\<lparr>SHARED_MEMS := bt_insert shmid m (SHARED_MEMS g)\<rparr>)"

definition add_private_shared_mem :: "int \<Rightarrow> SharedMem \<Rightarrow> ('b, 'h, 'k, unit) ms_action" where
  "add_private_shared_mem shmid m S =
     ((case map_of (private_mem S) shmid of None \<Rightarrow> Ok () | Some _ \<Rightarrow> Panic),
      S\<lparr>private_mem := bt_insert shmid m (private_mem S)\<rparr>)"

definition get_shared_mem :: "int \<Rightarrow> shm_state \<Rightarrow> SharedMem option" where
  "get_shared_mem shmid g = map_of (SHARED_MEMS g) shmid"

definition get_private_shared_mem :: "int \<Rightarrow> ('b, 'h, 'k) MemorySet \<Rightarrow> SharedMem option" where
  "get_private_shared_mem shmid S = map_of (private_mem S) shmid"

definition attach_shared_mem ::
  "('b, 'k) mm_env \<Rightarrow> SharedMem \<Rightarrow> VirtAddr \<Rightarrow> MappingFlags \<Rightarrow> ('b, 'h, 'k, unit) ms_action" where
  "attach_shared_mem E m addr flags =
     and_then (on_mm (unwrap_act (on_pt (map_region (env_alloc E) LEVELS addr (sm_paddr (env_off E) m)
         (sm_bytes m) flags False))))
       (\<lambda>_ S. (Ok (), S\<lparr>attached_mem := attached_mem S @ [(addr, flags, m)]\<rparr>))"

definition detach_shared_mem :: "int \<Rightarrow> ('b, 'h, 'k, unit) ms_action" where
  "detach_shared_mem shmid S = (Panic, S)"

subsection \<open>Moving and cloning\<close>

text \<open>The kernel address of the physical page that the active page table maps at a user page.\<close>

definition user_page :: "usize \<Rightarrow> 'f PageTable64 \<Rightarrow> VirtAddr \<Rightarrow> VirtAddr" where
  "user_page off pt va = (case get_entry_mut LEVELS pt va of
     Ok (entry, _) \<Rightarrow> phys_to_virt off (pte_paddr (read_entry pt entry)) | _ \<Rightarrow> 0)"

definition copy_user_page :: "usize \<Rightarrow> VirtAddr \<Rightarrow> VirtAddr \<Rightarrow> ('b, 'h) mm \<Rightarrow> ('b, 'h) mm" where
  "copy_user_page off src dst s =
     s\<lparr>mm_data := (mm_data s)(user_page off (mm_pt s) dst := mm_data s (user_page off (mm_pt s) src))\<rparr>"

text \<open>The copying loop of \<open>mremap\<close>; it reports whether the function goes on (the other case returns -1).\<close>

fun mremap_copy ::
  "('b, 'k) mm_env \<Rightarrow> VirtAddr \<Rightarrow> usize \<Rightarrow> usize list \<Rightarrow> ('b, 'h, 'k, bool) ms_action" where
  "mremap_copy E start old_page_start [] S = (Ok True, S)"
| "mremap_copy E start old_page_start (addr # as) S =
     (case check_page_table_entry_validity addr (mm_pt (ms_mm S)) of
        Ok _ \<Rightarrow>
          let page_start = start + addr - old_page_start in
          (case manual_alloc_for_lazy E page_start S of
             (Ok _, S') \<Rightarrow> mremap_copy E start old_page_start as
                 (S'\<lparr>ms_mm := copy_user_page (env_off E) addr page_start (ms_mm S')\<rparr>)
           | (Err _, S') \<Rightarrow> mremap_copy E start old_page_start as S'
           | (Panic, S') \<Rightarrow> (Panic, S')
           | (Diverge, S') \<Rightarrow> (Diverge, S'))
      | Err NotMapped \<Rightarrow> mremap_copy E start old_page_start as S
      | _ \<Rightarrow> (Ok False, S))"

definition mremap ::
  "('b, 'k) mm_env \<Rightarrow> usize \<Rightarrow> VirtAddr \<Rightarrow> usize \<Rightarrow> usize \<Rightarrow> ('b, 'h, 'k, usize) ms_action" where
  "mremap E USER_MEMORY_START old_start old_size new_size S =
     (case find_free_area USER_MEMORY_START old_start new_size S of
        None \<Rightarrow> (Ok (- 1), S)
      | Some start \<Rightarrow>
          let old_page_start = align_down_4k old_start;
              old_page_end = align_down_4k (old_start + old_size - 1) in
          and_then (new_region E start new_size (USER OR READ OR WRITE) None None) (\<lambda>_ S.
            if \<not> is_aligned_4k (start + new_size) then (Panic, S)
            else and_then (mremap_copy E start old_page_start (page_range old_page_start old_page_end))
              (\<lambda>go_on. if \<not> go_on then (\<lambda>S. (Ok (- 1), S))
                else and_then (munmap E old_start old_size) (\<lambda>_ S. (Ok start, S))) S) S)"

fun clone_areas ::
  "('b, 'k) mm_env \<Rightarrow> (usize, 'k MapArea) btree \<Rightarrow> (('b, 'h) mm, (usize, 'k MapArea) btree, AxError) action" where
  "clone_areas E [] s = (Ok [], s)"
| "clone_areas E ((k, a) # m) s =
     and_then (clone_alloc E a) (\<lambda>a'. and_then (clone_areas E m) (\<lambda>m' s. (Ok (bt_insert k a' m'), s))) s"

fun attach_each ::
  "('b, 'k) mm_env \<Rightarrow> (VirtAddr \<times> MappingFlags \<times> SharedMem) list \<Rightarrow> ('b, 'h, 'k, unit) ms_action" where
  "attach_each E [] S = (Ok (), S)"
| "attach_each E ((addr, flags, m) # l) S = and_then (attach_shared_mem E m addr flags) (\<lambda>_. attach_each E l) S"

text \<open>
  The clone works on a page table of its own but on the same frames and memory: the outcome is
  the new set, whose \<open>mm\<close> holds the frames and bytes that both sets see afterwards.
\<close>

definition clone_or_err ::
  "('b, 'k) mm_env \<Rightarrow> mem_region list \<Rightarrow> ('b, 'h, 'k) MemorySet \<Rightarrow> (('b, 'h, 'k) MemorySet, AxError) result" where
  "clone_or_err E regions S =
     res_bind (new_with_kernel_mapped E regions (ms_mm S)) (\<lambda>N.
       (case and_then (clone_areas E (owned_mem S)) (\<lambda>m s. (Ok (m, s), s)) (ms_mm N) of
          (Ok (m, s), _) \<Rightarrow>
            (case attach_each E (attached_mem S)
                    \<lparr>ms_mm = s, owned_mem = m, private_mem = private_mem S, attached_mem = []\<rparr> of
               (Ok _, N') \<Rightarrow> Ok N' | (Err e, _) \<Rightarrow> Err e | (Panic, _) \<Rightarrow> Panic | (Diverge, _) \<Rightarrow> Diverge)
        | (Err e, _) \<Rightarrow> Err e | (Panic, _) \<Rightarrow> Panic | (Diverge, _) \<Rightarrow> Diverge))"

end
