(* ===== verification/MemorySetCorrect.thy ===== *)
theory MemorySetCorrect
  imports MemorySet
begin

text \<open>
  The address space that a \<open>MemorySet\<close> denotes: for every address the page slot (allocated page
  or still lazy) and the flags of the area that covers it. The invariant says that the areas
  are keyed by their start, page aligned and disjoint; \<open>munmap\<close>, \<open>mprotect\<close>, \<open>mmap\<close> and the page
  fault handler are characterised by what they change of the address space.
\<close>

subsection \<open>Areas as ranges of slots\<close>

definition area_wf :: "'k MapArea \<Rightarrow> bool" where
  "area_wf a \<longleftrightarrow> 4096 dvd unat (vaddr a) \<and> unat (vaddr a) + 4096 * length (pages a) < 2 ^ 64"

definition in_area :: "'k MapArea \<Rightarrow> VirtAddr \<Rightarrow> bool" where
  "in_area a w \<longleftrightarrow> unat (vaddr a) \<le> unat w \<and> unat w < unat (vaddr a) + 4096 * length (pages a)"

definition slot_at :: "'k MapArea \<Rightarrow> VirtAddr \<Rightarrow> (PhysPage option \<times> MappingFlags) option" where
  "slot_at a w = (if in_area a w
     then Some (pages a ! ((unat w - unat (vaddr a)) div 4096), area_flags a) else None)"

lemma slot_at_in: "slot_at a w = Some x \<Longrightarrow> in_area a w"
  by (simp add: slot_at_def split: if_splits)

lemma unat_area_size: "area_wf a \<Longrightarrow> unat (area_size a) = 4096 * length (pages a)"
proof -
  assume "area_wf a"
  then have lt: "4096 * length (pages a) < 2 ^ 64" by (simp add: area_wf_def)
  have "area_size a = of_nat (4096 * length (pages a))"
    by (simp add: area_size_def PAGE_SIZE_4K_def)
  then show ?thesis using unat_of_nat_64 [OF lt] by metis
qed

lemma unat_end_va: "area_wf a \<Longrightarrow> unat (end_va a) = unat (vaddr a) + 4096 * length (pages a)"
  unfolding end_va_def using unat_area_size [of a]
  by (subst unat_add_no_overflow) (auto simp: area_wf_def)

lemma in_area_iff: "area_wf a \<Longrightarrow> in_area a w \<longleftrightarrow> vaddr a \<le> w \<and> w < end_va a"
  by (simp add: in_area_def word_le_nat_alt word_less_nat_alt unat_end_va)

lemma slot_at_take:
  assumes "n \<le> length (pages a)"
  shows "slot_at (a\<lparr>pages := take n (pages a)\<rparr>) w =
    (if unat w < unat (vaddr a) + 4096 * n then slot_at a w else None)"
proof -
  have "(unat w - unat (vaddr a)) div 4096 < n" if "unat (vaddr a) \<le> unat w" "unat w < unat (vaddr a) + 4096 * n"
    using that by (simp add: less_mult_imp_div_less)
  then show ?thesis using assms by (auto simp: slot_at_def in_area_def)
qed

lemma slot_at_drop:
  assumes "n \<le> length (pages a)" and "pages b = drop n (pages a)" and "area_flags b = area_flags a"
    and "unat (vaddr b) = unat (vaddr a) + 4096 * n"
  shows "slot_at b w = (if unat (vaddr a) + 4096 * n \<le> unat w then slot_at a w else None)"
proof (cases "unat (vaddr a) + 4096 * n \<le> unat w \<and> unat w < unat (vaddr a) + 4096 * length (pages a)")
  case True
  define d where "d = unat w - (unat (vaddr a) + 4096 * n)"
  have e: "unat w - unat (vaddr a) = d + 4096 * n" using True by (simp add: d_def)
  then have "(unat w - unat (vaddr a)) div 4096 = n + d div 4096" by simp
  moreover have "d div 4096 < length (pages a) - n"
  proof -
    have "d < (length (pages a) - n) * 4096"
      using True unfolding d_def diff_mult_distrib by linarith
    then show ?thesis by (rule less_mult_imp_div_less)
  qed
  ultimately show ?thesis
    using True assms by (auto simp: slot_at_def in_area_def d_def)
next
  case False
  then show ?thesis using assms by (auto simp: slot_at_def in_area_def)
qed

lemma area_wf_take: "area_wf a \<Longrightarrow> area_wf (a\<lparr>pages := take n (pages a)\<rparr>)"
  by (auto simp: area_wf_def min_def)

lemma area_wf_drop:
  assumes "area_wf a" and "n \<le> length (pages a)" and "pages b = drop n (pages a)"
    and "unat (vaddr b) = unat (vaddr a) + 4096 * n"
  shows "area_wf b"
  using assms by (simp add: area_wf_def diff_mult_distrib2)

text \<open>Page counts between aligned addresses.\<close>

lemma aligned_offset:
  assumes "area_wf a" and "is_aligned_4k addr" and "vaddr a \<le> addr"
  shows "unat addr = unat (vaddr a) + 4096 * unat ((addr - vaddr a) div PAGE_SIZE_4K)"
proof -
  have "unat ((addr - vaddr a) div PAGE_SIZE_4K) = (unat addr - unat (vaddr a)) div 4096"
    using assms(3) by (simp add: unat_div unat_sub_no_underflow word_le_nat_alt)
  moreover have "4096 dvd unat addr - unat (vaddr a)"
    using assms(1,2) by (simp add: area_wf_def is_aligned_4k_iff)
  ultimately show ?thesis using assms(3) by (simp add: word_le_nat_alt)
qed

lemma aligned_tail:
  assumes "area_wf a" and "is_aligned_4k addr" and "vaddr a \<le> addr" and "addr \<le> end_va a"
  shows "unat ((end_va a - addr) div PAGE_SIZE_4K) \<le> length (pages a)"
    and "unat addr = unat (vaddr a) + 4096 * (length (pages a) - unat ((end_va a - addr) div PAGE_SIZE_4K))"
proof -
  let ?k = "unat ((addr - vaddr a) div PAGE_SIZE_4K)"
  have k: "unat addr = unat (vaddr a) + 4096 * ?k" by (rule aligned_offset [OF assms(1-3)])
  have le: "?k \<le> length (pages a)"
    using k assms(1,4) by (simp add: word_le_nat_alt unat_end_va)
  have "unat ((end_va a - addr) div PAGE_SIZE_4K) = (unat (end_va a) - unat addr) div 4096"
    using assms(4) by (simp add: unat_div unat_sub_no_underflow word_le_nat_alt)
  also have "unat (end_va a) - unat addr = 4096 * (length (pages a) - ?k)"
    using k le by (simp add: unat_end_va [OF assms(1)] diff_mult_distrib2)
  finally have t: "unat ((end_va a - addr) div PAGE_SIZE_4K) = length (pages a) - ?k" by simp
  show "unat ((end_va a - addr) div PAGE_SIZE_4K) \<le> length (pages a)" by (simp add: t)
  show "unat addr = unat (vaddr a) + 4096 * (length (pages a) - unat ((end_va a - addr) div PAGE_SIZE_4K))"
    using k le by (simp add: t)
qed

subsection \<open>Pieces of an area\<close>

text \<open>
  \<open>pieces g a outs\<close>: the areas \<open>outs\<close> lie inside \<open>a\<close>, are disjoint, and hold at every address what
  \<open>g\<close> makes of the slot that \<open>a\<close> has there.
\<close>

definition pieces ::
  "(VirtAddr \<Rightarrow> (PhysPage option \<times> MappingFlags) option \<Rightarrow> (PhysPage option \<times> MappingFlags) option) \<Rightarrow>
     'k MapArea \<Rightarrow> 'k MapArea list \<Rightarrow> bool" where
  "pieces g a outs \<longleftrightarrow> (\<forall>b \<in> set outs. area_wf b \<and> (\<forall>w. in_area b w \<longrightarrow> in_area a w)) \<and>
     (\<forall>b \<in> set outs. \<forall>c \<in> set outs. \<forall>w. in_area b w \<and> in_area c w \<longrightarrow> b = c) \<and>
     (\<forall>w x. (\<exists>b \<in> set outs. slot_at b w = Some x) \<longleftrightarrow> g w (slot_at a w) = Some x)"

definition cut :: "VirtAddr \<Rightarrow> VirtAddr \<Rightarrow> VirtAddr \<Rightarrow> 'a option \<Rightarrow> 'a option" where
  "cut start fin w y = (if start \<le> w \<and> w < fin then None else y)"

definition reflag :: "VirtAddr \<Rightarrow> VirtAddr \<Rightarrow> MappingFlags \<Rightarrow> VirtAddr \<Rightarrow>
    (PhysPage option \<times> MappingFlags) option \<Rightarrow> (PhysPage option \<times> MappingFlags) option" where
  "reflag start fin flags w y = (if start \<le> w \<and> w < fin then map_option (\<lambda>(p, _). (p, flags)) y else y)"

lemma in_area_slot: "in_area a w \<longleftrightarrow> slot_at a w \<noteq> None"
  by (simp add: slot_at_def)

lemma slot_at_flags:
  "slot_at (a\<lparr>area_flags := fl\<rparr>) w = map_option (\<lambda>(p, _). (p, fl)) (slot_at a w)"
  by (simp add: slot_at_def in_area_def)

lemma area_wf_flags [simp]: "area_wf (a\<lparr>area_flags := fl\<rparr>) \<longleftrightarrow> area_wf a"
  by (simp add: area_wf_def)


lemma cut_None [simp]: "cut start fin w None = None"
  by (simp add: cut_def)

lemma reflag_None [simp]: "reflag start fin flags w None = None"
  by (simp add: reflag_def)

lemma pieces_empty: "(\<And>w. g w (slot_at a w) = None) \<Longrightarrow> pieces g a []"
  by (simp add: pieces_def)

lemma pieces_one:
  assumes "area_wf b" and "\<And>w. slot_at b w = g w (slot_at a w)" and "\<And>w. g w None = None"
  shows "pieces g a [b]"
  using assms unfolding pieces_def in_area_slot by (metis empty_set list.set(2) singletonD singletonI)

lemma pieces_cons:
  assumes "area_wf b" and "pieces h a bs" and "\<And>w. g w None = None"
    and "\<And>w. (in_area b w \<longrightarrow> h w (slot_at a w) = None) \<and>
           g w (slot_at a w) = (if in_area b w then slot_at b w else h w (slot_at a w))"
  shows "pieces g a (b # bs)"
proof -
  have sub: "in_area a w" if "in_area b w" for w
    using that assms(3) [of w] assms(4) [of w] by (metis in_area_slot)
  have apart: "\<not> in_area c w" if "in_area b w" "c \<in> set bs" for c w
    using that assms(2) assms(4) [of w] unfolding pieces_def in_area_slot by (metis not_None_eq)
  have "(\<exists>c \<in> set (b # bs). slot_at c w = Some x) \<longleftrightarrow> g w (slot_at a w) = Some x" for w x
  proof (cases "in_area b w")
    case True
    then show ?thesis using apart [OF True] assms(4) [of w] by (auto dest: slot_at_in)
  next
    case False
    then have "slot_at b w = None" by (simp add: slot_at_def)
    moreover have "(\<exists>c \<in> set bs. slot_at c w = Some x) \<longleftrightarrow> h w (slot_at a w) = Some x"
      using assms(2) unfolding pieces_def by blast
    ultimately show ?thesis using False assms(4) [of w] by simp
  qed
  then show ?thesis
    using assms(1,2) sub apart unfolding pieces_def by (auto 0 3)
qed

subsection \<open>Shrinking and splitting cut an area at a page boundary\<close>

definition page_at :: "'k MapArea \<Rightarrow> VirtAddr \<Rightarrow> nat \<Rightarrow> bool" where
  "page_at a addr n \<longleftrightarrow> n \<le> length (pages a) \<and> unat addr = unat (vaddr a) + 4096 * n"

definition below :: "VirtAddr \<Rightarrow> 'k MapArea \<Rightarrow> 'k MapArea \<Rightarrow> bool" where
  "below addr a b \<longleftrightarrow> area_wf b \<and> vaddr b = vaddr a \<and> (\<forall>w. slot_at b w = (if w < addr then slot_at a w else None))"

definition above :: "VirtAddr \<Rightarrow> 'k MapArea \<Rightarrow> 'k MapArea \<Rightarrow> bool" where
  "above addr a b \<longleftrightarrow> area_wf b \<and> (\<forall>w. slot_at b w = (if addr \<le> w then slot_at a w else None))"

lemma page_at_offset:
  "area_wf a \<Longrightarrow> is_aligned_4k addr \<Longrightarrow> vaddr a \<le> addr \<Longrightarrow>
     unat ((addr - vaddr a) div PAGE_SIZE_4K) \<le> length (pages a) \<Longrightarrow>
     page_at a addr (unat ((addr - vaddr a) div PAGE_SIZE_4K))"
  by (simp only: page_at_def aligned_offset simp_thms)

lemma page_at_tail:
  "area_wf a \<Longrightarrow> is_aligned_4k addr \<Longrightarrow> vaddr a \<le> addr \<Longrightarrow> addr \<le> end_va a \<Longrightarrow>
     page_at a addr (length (pages a) - unat ((end_va a - addr) div PAGE_SIZE_4K))"
  using aligned_tail(2) [of a addr] by (simp add: page_at_def)

lemma below_take: "area_wf a \<Longrightarrow> page_at a addr n \<Longrightarrow> below addr a (a\<lparr>pages := take n (pages a)\<rparr>)"
  by (simp add: below_def page_at_def area_wf_take slot_at_take word_less_nat_alt)

lemma above_drop:
  assumes "area_wf a" and "page_at a addr n" and "pages b = drop n (pages a)" and "vaddr b = addr"
    and "area_flags b = area_flags a"
  shows "above addr a b"
  using assms area_wf_drop [of a n b] slot_at_drop [of n a b]
  by (simp add: above_def page_at_def word_le_nat_alt)

lemma shrink_left_Ok:
  assumes "area_wf a" and "vaddr a \<le> addr" and "shrink_left E addr a s = (Ok b, s')"
  shows "above addr a b"
proof -
  let ?n = "unat ((addr - vaddr a) div PAGE_SIZE_4K)"
  have *: "is_aligned_4k addr" "?n \<le> length (pages a)" "pages b = drop ?n (pages a)" "vaddr b = addr"
    "area_flags b = area_flags a"
    using assms(3) by (auto simp: shrink_left_def Let_def result_simps split: if_splits result.splits)
  show ?thesis by (rule above_drop [OF assms(1) page_at_offset [OF assms(1) *(1) assms(2) *(2)] *(3-5)])
qed

lemma shrink_right_Ok:
  assumes "area_wf a" and "vaddr a \<le> addr" and "addr \<le> end_va a" and "shrink_right E addr a s = (Ok b, s')"
  shows "below addr a b"
proof -
  let ?n = "length (pages a) - unat ((end_va a - addr) div PAGE_SIZE_4K)"
  have *: "is_aligned_4k addr" "b = a\<lparr>pages := take ?n (pages a)\<rparr>"
    using assms(4) by (auto simp: shrink_right_def Let_def result_simps split: if_splits)
  show ?thesis unfolding *(2) by (rule below_take [OF assms(1) page_at_tail [OF assms(1) *(1) assms(2,3)]])
qed

lemma area_split_Ok:
  assumes "area_wf a" and "vaddr a \<le> addr" and "addr \<le> end_va a" and "area_split E addr a = Ok (left, right)"
  shows "below addr a left" and "above addr a right"
proof -
  let ?n = "length (pages a) - unat ((end_va a - addr) div PAGE_SIZE_4K)"
  have *: "is_aligned_4k addr" "left = a\<lparr>pages := take ?n (pages a)\<rparr>" "pages right = drop ?n (pages a)"
    "vaddr right = addr" "area_flags right = area_flags a"
    using assms(4) by (auto simp: area_split_def Let_def split: if_splits)
  note n = page_at_tail [OF assms(1) *(1) assms(2,3)]
  show "below addr a left" unfolding *(2) by (rule below_take [OF assms(1) n])
  show "above addr a right" by (rule above_drop [OF assms(1) n *(3-5)])
qed

lemma remove_mid_Ok:
  assumes "area_wf a" and "vaddr a \<le> start" and "fin \<le> end_va a" and "remove_mid E start fin a s = (Ok (left, right), s')"
  shows "start \<le> fin" and "below start a left" and "above fin a right"
proof -
  let ?lo = "unat ((start - vaddr a) div PAGE_SIZE_4K)" and ?hi = "unat ((fin - vaddr a) div PAGE_SIZE_4K)"
  have *: "is_aligned_4k start" "is_aligned_4k fin" "start \<le> fin" "?lo \<le> ?hi" "?hi \<le> length (pages a)"
    "left = a\<lparr>pages := take ?lo (pages a)\<rparr>" "pages right = drop ?hi (pages a)" "vaddr right = fin"
    "area_flags right = area_flags a"
    using assms(4) by (auto simp: remove_mid_def Let_def result_simps split: if_splits result.splits)
  show "start \<le> fin" by (rule *(3))
  show "below start a left" unfolding *(6)
    by (rule below_take [OF assms(1) page_at_offset [OF assms(1) *(1) assms(2)]]) (use *(4,5) in simp)
  have "vaddr a \<le> fin" using assms(2) *(3) by order
  then show "above fin a right"
    by (intro above_drop [OF assms(1) page_at_offset [OF assms(1) *(2) _ *(5)] *(7-9)])
qed

lemma below_end: "below addr a b \<Longrightarrow> vaddr a \<le> addr \<Longrightarrow> area_wf a \<Longrightarrow> w < end_va b \<Longrightarrow> vaddr a \<le> w \<Longrightarrow> w < addr"
  using in_area_iff [of b w] by (auto simp: below_def in_area_slot split: if_splits)

lemma area_split3_Ok:
  assumes "area_wf a" and "area_split3 E start fin a = Ok (left, mid, right)"
  shows "start < fin" and "below start a left" and "above fin a right" and "area_wf mid"
    and "slot_at mid w = (if start \<le> w \<and> w < fin then slot_at a w else None)"
proof -
  let ?n = "length (pages a) - unat ((end_va a - fin) div PAGE_SIZE_4K)"
  let ?a1 = "a\<lparr>pages := take ?n (pages a)\<rparr>"
  let ?m = "length (pages ?a1) - unat ((end_va ?a1 - start) div PAGE_SIZE_4K)"
  have *: "is_aligned_4k start" "is_aligned_4k fin" "start < fin" "vaddr a < start" "fin < end_va a"
    "left = ?a1\<lparr>pages := take ?m (pages ?a1)\<rparr>"
    "pages mid = drop ?m (pages ?a1)" "vaddr mid = start" "area_flags mid = area_flags ?a1"
    "pages right = drop ?n (pages a)" "vaddr right = fin" "area_flags right = area_flags a"
    using assms(2) by (auto simp: area_split3_def Let_def split: if_splits)
  have n: "page_at a fin ?n" by (rule page_at_tail [OF assms(1) *(2)]) (use *(3-5) in order)+
  have b1: "below fin a ?a1" by (rule below_take [OF assms(1) n])
  have wf1: "area_wf ?a1" by (rule area_wf_take [OF assms(1)])
  have "end_va ?a1 = fin"
    using n unat_end_va [OF wf1] by (intro usize_eqI) (simp add: page_at_def)
  then have m: "page_at ?a1 start ?m"
    by (intro page_at_tail [OF wf1 *(1)]) (use *(3,4) in simp_all)
  have l: "below start ?a1 left" unfolding *(6) by (rule below_take [OF wf1 m])
  have md: "above start ?a1 mid" by (rule above_drop [OF wf1 m *(7-9)])
  show "start < fin" by (rule *(3))
  show "below start a left" using l b1 *(3) by (auto simp: below_def)
  show "above fin a right" by (rule above_drop [OF assms(1) n *(10-12)])
  show "area_wf mid" using md by (simp add: above_def)
  show "slot_at mid w = (if start \<le> w \<and> w < fin then slot_at a w else None)"
    using md b1 by (simp add: above_def below_def)
qed

subsection \<open>One area of the address space\<close>

text \<open>\<open>adds outs S S'\<close>: the areas \<open>outs\<close> are entered into the map of owned areas, nothing else of it changes.\<close>

definition adds :: "'k MapArea list \<Rightarrow> ('b, 'h, 'k) MemorySet \<Rightarrow> ('b, 'h, 'k) MemorySet \<Rightarrow> bool" where
  "adds outs S S' \<longleftrightarrow>
     set (owned_mem S') = set (owned_mem S) \<union> (\<lambda>b. (vaddr b, b)) ` set outs \<and>
     (bt_ok (owned_mem S) \<longrightarrow> bt_ok (owned_mem S')) \<and>
     attached_mem S' = attached_mem S \<and> private_mem S' = private_mem S"

lemma on_mm_Ok_iff [result_simps]:
  "on_mm m S = (Ok x, S') \<longleftrightarrow> (\<exists>s. m (ms_mm S) = (Ok x, s) \<and> S' = S\<lparr>ms_mm := s\<rparr>)"
  by (auto simp: on_mm_def split: prod.splits)

lemma lift_res_Ok_iff [result_simps]: "lift_res r S = (Ok x, S') \<longleftrightarrow> r = Ok x \<and> S' = S"
  by (auto simp: lift_res_def)

lemma adds_mm [simp]: "adds outs (S\<lparr>ms_mm := s\<rparr>) S' \<longleftrightarrow> adds outs S S'"
  by (simp add: adds_def)

lemma adds_nil: "adds [] S (S\<lparr>ms_mm := s\<rparr>)"
  by (simp add: adds_def)

lemma adds_one: "insert_area b S = (Ok (), S') \<Longrightarrow> adds [b] S S'"
  by (auto simp: insert_area_def adds_def bt_insert_new bt_insert_ok split: option.splits)

lemma adds_cons: "adds bs S S' \<Longrightarrow> insert_area b S' = (Ok (), S'') \<Longrightarrow> adds (b # bs) S S''"
  by (auto simp: insert_area_def adds_def bt_insert_new bt_insert_ok split: option.splits)

lemma update_flags_Ok: "update_flags flags a s = (Ok b, s') \<Longrightarrow> b = a\<lparr>area_flags := flags\<rparr>"
  by (auto simp: update_flags_def result_simps)

lemma slot_at_outside: "area_wf a \<Longrightarrow> w < vaddr a \<or> end_va a \<le> w \<Longrightarrow> slot_at a w = None"
  using in_area_iff [of a w] by (auto simp: slot_at_def)

lemma slot_at_cases:
  "area_wf a \<Longrightarrow> slot_at a w = None \<or> vaddr a \<le> w \<and> w < end_va a \<and> slot_at a w \<noteq> None"
  using in_area_iff [of a w] by (auto simp: slot_at_def)

lemma pieces_hole:
  assumes "start \<le> fin" and "below start a left" and "above fin a right"
  shows "pieces (cut start fin) a [left, right]"
proof (rule pieces_cons [where h = "\<lambda>w y. if fin \<le> w then y else None"])
  show "area_wf left" using assms by (simp add: below_def)
  show "pieces (\<lambda>w y. if fin \<le> w then y else None) a [right]"
    using assms by (intro pieces_one) (auto simp: above_def)
  fix w
  have "in_area left w \<longleftrightarrow> w < start \<and> slot_at a w \<noteq> None" "slot_at left w = (if w < start then slot_at a w else None)"
    using assms by (auto simp: below_def in_area_slot)
  then show "(in_area left w \<longrightarrow> (if fin \<le> w then slot_at a w else None) = None) \<and>
      cut start fin w (slot_at a w) = (if in_area left w then slot_at left w else if fin \<le> w then slot_at a w else None)"
    using assms(1) by (auto simp: cut_def)
qed simp

lemma split_one_Ok:
  assumes "area_wf a" and "start < fin" and "overlap_with start fin a"
    and "split_one E start fin a S = (Ok (), S')"
  shows "\<exists>outs. pieces (cut start fin) a outs \<and> adds outs S S'"
proof -
  consider (whole) "contained_in start fin a"
    | (mid) "\<not> contained_in start fin a" "strict_contain start fin a"
    | (lower) "\<not> contained_in start fin a" "\<not> strict_contain start fin a" "start \<le> vaddr a" "vaddr a < fin"
    | (upper) "\<not> contained_in start fin a" "\<not> strict_contain start fin a" "\<not> (start \<le> vaddr a \<and> vaddr a < fin)"
    by blast
  then show ?thesis
  proof cases
    case whole
    then have "cut start fin w (slot_at a w) = None" for w
      using slot_at_cases [OF assms(1), of w] by (auto simp: cut_def contained_in_def)
    then have "pieces (cut start fin) a []" by (rule pieces_empty)
    moreover have "adds [] S S'"
      using assms(4) whole by (auto simp: split_one_def result_simps adds_nil)
    ultimately show ?thesis by blast
  next
    case mid
    then obtain left right s S1 where r: "remove_mid E start fin a (ms_mm S) = (Ok (left, right), s)"
      "insert_area right (S\<lparr>ms_mm := s\<rparr>) = (Ok (), S1)" "insert_area left S1 = (Ok (), S')"
      using assms(4) by (auto simp: split_one_def result_simps)
    have "vaddr a \<le> start" "fin \<le> end_va a" using mid(2) unfolding strict_contain_def by auto
    note q = remove_mid_Ok [OF assms(1) this r(1)]
    have "adds [right] S S1" using adds_one [OF r(2)] by simp
    from adds_cons [OF this r(3)] show ?thesis using pieces_hole [OF q] by blast
  next
    case lower
    then obtain b s where r: "shrink_left E fin a (ms_mm S) = (Ok b, s)" "insert_area b (S\<lparr>ms_mm := s\<rparr>) = (Ok (), S')"
      using assms(4) by (auto simp: split_one_def result_simps)
    have ab: "above fin a b" by (rule shrink_left_Ok [OF assms(1) _ r(1)]) (use lower in simp)
    have "slot_at b w = cut start fin w (slot_at a w)" for w
      using ab slot_at_cases [OF assms(1), of w] lower by (auto simp: above_def cut_def)
    then have "pieces (cut start fin) a [b]" using ab by (intro pieces_one) (simp_all add: above_def)
    then show ?thesis using adds_one [OF r(2)] by auto
  next
    case upper
    have lt: "vaddr a < start" "start < end_va a" "end_va a \<le> fin"
      using upper assms(2,3) by (auto simp: overlap_with_def strict_contain_def)
    obtain b s where r: "shrink_right E start a (ms_mm S) = (Ok b, s)" "insert_area b (S\<lparr>ms_mm := s\<rparr>) = (Ok (), S')"
      using assms(4) upper by (auto simp: split_one_def result_simps)
    have bl: "below start a b" by (rule shrink_right_Ok [OF assms(1) _ _ r(1)]) (use lt in simp_all)
    have "slot_at b w = cut start fin w (slot_at a w)" for w
      using bl slot_at_cases [OF assms(1), of w] lt by (auto simp: below_def cut_def)
    then have "pieces (cut start fin) a [b]" using bl by (intro pieces_one) (simp_all add: below_def)
    then show ?thesis using adds_one [OF r(2)] by auto
  qed
qed

lemma pieces_two:
  assumes "below addr a left" and "above addr a right" and "\<And>w. g w None = None"
    and "area_wf b" and "area_wf c"
    and "\<And>w. slot_at b w = (if w < addr then g w (slot_at a w) else None)"
    and "\<And>w. slot_at c w = (if addr \<le> w then g w (slot_at a w) else None)"
  shows "pieces g a [b, c]"
proof (rule pieces_cons [where h = "\<lambda>w y. if addr \<le> w then g w y else None"])
  show "pieces (\<lambda>w y. if addr \<le> w then g w y else None) a [c]"
    using assms by (intro pieces_one) auto
  show "(in_area b w \<longrightarrow> (if addr \<le> w then g w (slot_at a w) else None) = None) \<and>
      g w (slot_at a w) = (if in_area b w then slot_at b w else if addr \<le> w then g w (slot_at a w) else None)" for w
    using assms(6) [of w] by (auto simp: in_area_slot simp del: not_None_eq split: if_splits)
qed (use assms in auto)

lemma pieces_three:
  assumes "start < fin" and "below start a left" and "above fin a right"
    and "area_wf m" and "\<And>w. slot_at m w = (if start \<le> w \<and> w < fin then reflag start fin fl w (slot_at a w) else None)"
  shows "pieces (reflag start fin fl) a [left, right, m]"
proof (rule pieces_cons [where h = "\<lambda>w y. if start \<le> w then reflag start fin fl w y else None"])
  let ?h = "\<lambda>w y. if start \<le> w then reflag start fin fl w y else None"
  show "area_wf left" using assms by (simp add: below_def)
  show "pieces ?h a [right, m]"
  proof (rule pieces_cons [where h = "\<lambda>w y. if start \<le> w \<and> w < fin then reflag start fin fl w y else None"])
    show "area_wf right" using assms by (simp add: above_def)
    show "pieces (\<lambda>w y. if start \<le> w \<and> w < fin then reflag start fin fl w y else None) a [m]"
      using assms by (intro pieces_one) auto
    show "(in_area right w \<longrightarrow> (if start \<le> w \<and> w < fin then reflag start fin fl w (slot_at a w) else None) = None) \<and>
        ?h w (slot_at a w) = (if in_area right w then slot_at right w
          else if start \<le> w \<and> w < fin then reflag start fin fl w (slot_at a w) else None)" for w
      using assms(1,3) by (auto simp: above_def in_area_slot reflag_def simp del: not_None_eq)
  qed simp
  show "(in_area left w \<longrightarrow> ?h w (slot_at a w) = None) \<and>
      reflag start fin fl w (slot_at a w) = (if in_area left w then slot_at left w else ?h w (slot_at a w))" for w
    using assms(1,2) by (auto simp: below_def in_area_slot reflag_def simp del: not_None_eq)
qed simp

lemma protect_one_Ok:
  assumes "area_wf a" and "start < fin" and "overlap_with start fin a"
    and "protect_one E start fin fl a S = (Ok (), S')"
  shows "\<exists>outs. pieces (reflag start fin fl) a outs \<and> adds outs S S'"
proof -
  consider (whole) "contained_in start fin a"
    | (mid) "\<not> contained_in start fin a" "strict_contain start fin a"
    | (lower) "\<not> contained_in start fin a" "\<not> strict_contain start fin a" "start \<le> vaddr a" "vaddr a < fin"
    | (upper) "\<not> contained_in start fin a" "\<not> strict_contain start fin a" "\<not> (start \<le> vaddr a \<and> vaddr a < fin)"
    by blast
  then show ?thesis
  proof cases
    case whole
    then obtain s where r: "insert_area (a\<lparr>area_flags := fl\<rparr>) (S\<lparr>ms_mm := s\<rparr>) = (Ok (), S')"
      using assms(4) by (auto simp: protect_one_def result_simps dest!: update_flags_Ok)
    have "slot_at (a\<lparr>area_flags := fl\<rparr>) w = reflag start fin fl w (slot_at a w)" for w
      using slot_at_cases [OF assms(1), of w] whole by (auto simp: slot_at_flags reflag_def contained_in_def)
    then have "pieces (reflag start fin fl) a [a\<lparr>area_flags := fl\<rparr>]" using assms(1) by (intro pieces_one) simp_all
    then show ?thesis using adds_one [OF r] by auto
  next
    case mid
    then obtain l m r s S1 S2 where q: "area_split3 E start fin a = Ok (l, m, r)"
      "insert_area (m\<lparr>area_flags := fl\<rparr>) (S\<lparr>ms_mm := s\<rparr>) = (Ok (), S1)" "insert_area r S1 = (Ok (), S2)"
      "insert_area l S2 = (Ok (), S')"
      using assms(4) by (auto simp: protect_one_def result_simps dest!: update_flags_Ok)
    note sp = area_split3_Ok [OF assms(1) q(1)]
    have "slot_at (m\<lparr>area_flags := fl\<rparr>) w =
        (if start \<le> w \<and> w < fin then reflag start fin fl w (slot_at a w) else None)" for w
      by (simp add: slot_at_flags sp(5) reflag_def)
    then have "pieces (reflag start fin fl) a [l, r, m\<lparr>area_flags := fl\<rparr>]"
      using sp by (intro pieces_three) auto
    moreover have "adds [m\<lparr>area_flags := fl\<rparr>] S S1" using adds_one [OF q(2)] by simp
    ultimately show ?thesis using adds_cons [OF adds_cons [OF _ q(3)] q(4)] by blast
  next
    case lower
    then obtain l r s S1 where q: "area_split E fin a = Ok (l, r)"
      "insert_area r (S\<lparr>ms_mm := s\<rparr>) = (Ok (), S1)" "insert_area (l\<lparr>area_flags := fl\<rparr>) S1 = (Ok (), S')"
      using assms(4) by (auto simp: protect_one_def result_simps dest!: update_flags_Ok)
    have "vaddr a \<le> fin" "fin \<le> end_va a" using lower by (auto simp: contained_in_def)
    note sp = area_split_Ok [OF assms(1) this q(1)]
    have "pieces (reflag start fin fl) a [l\<lparr>area_flags := fl\<rparr>, r]"
    proof (rule pieces_two [OF sp])
      fix w show "slot_at (l\<lparr>area_flags := fl\<rparr>) w = (if w < fin then reflag start fin fl w (slot_at a w) else None)"
        using sp(1) slot_at_cases [OF assms(1), of w] lower by (auto simp: slot_at_flags below_def reflag_def)
      show "slot_at r w = (if fin \<le> w then reflag start fin fl w (slot_at a w) else None)"
        using sp(2) by (auto simp: above_def reflag_def)
    qed (use sp in \<open>simp_all add: below_def above_def\<close>)
    moreover have "adds [r] S S1" using adds_one [OF q(2)] by simp
    ultimately show ?thesis using adds_cons [OF _ q(3)] by blast
  next
    case upper
    have lt: "vaddr a < start" "start < end_va a" "end_va a \<le> fin"
      using upper assms(2,3) by (auto simp: overlap_with_def strict_contain_def)
    obtain l r s S1 where q: "area_split E start a = Ok (l, r)"
      "insert_area (r\<lparr>area_flags := fl\<rparr>) (S\<lparr>ms_mm := s\<rparr>) = (Ok (), S1)" "insert_area l S1 = (Ok (), S')"
      using assms(4) upper by (auto simp: protect_one_def result_simps dest!: update_flags_Ok)
    have "vaddr a \<le> start" "start \<le> end_va a" using lt by auto
    note sp = area_split_Ok [OF assms(1) this q(1)]
    have "pieces (reflag start fin fl) a [l, r\<lparr>area_flags := fl\<rparr>]"
    proof (rule pieces_two [OF sp])
      fix w show "slot_at l w = (if w < start then reflag start fin fl w (slot_at a w) else None)"
        using sp(1) by (auto simp: below_def reflag_def)
      show "slot_at (r\<lparr>area_flags := fl\<rparr>) w = (if start \<le> w then reflag start fin fl w (slot_at a w) else None)"
        using sp(2) slot_at_cases [OF assms(1), of w] lt by (auto simp: slot_at_flags above_def reflag_def)
    qed (use sp in \<open>simp_all add: below_def above_def\<close>)
    moreover have "adds [r\<lparr>area_flags := fl\<rparr>] S S1" using adds_one [OF q(2)] by simp
    ultimately show ?thesis using adds_cons [OF _ q(3)] by blast
  qed
qed

subsection \<open>The loop over the overlapping areas\<close>

definition apart :: "usize \<times> 'k MapArea \<Rightarrow> usize \<times> 'k MapArea \<Rightarrow> bool" where
  "apart e e' \<longleftrightarrow> (\<forall>w. \<not> (in_area (snd e) w \<and> in_area (snd e') w))"

definition areas_wf :: "(usize \<times> 'k MapArea) set \<Rightarrow> bool" where
  "areas_wf A \<longleftrightarrow> (\<forall>e \<in> A. fst e = vaddr (snd e) \<and> area_wf (snd e)) \<and> (\<forall>e \<in> A. \<forall>e' \<in> A. e = e' \<or> apart e e')"

definition slots :: "(usize \<times> 'k MapArea) set \<Rightarrow> VirtAddr \<Rightarrow> (PhysPage option \<times> MappingFlags) \<Rightarrow> bool" where
  "slots A w x \<longleftrightarrow> (\<exists>e \<in> A. slot_at (snd e) w = Some x)"

lemma apart_sym: "apart e e' \<Longrightarrow> apart e' e"
  by (auto simp: apart_def)

lemma slots_Un: "slots (A \<union> B) w x \<longleftrightarrow> slots A w x \<or> slots B w x"
  by (auto simp: slots_def)

lemma areas_wf_pieces:
  assumes "areas_wf A" and "pieces g a outs" and "\<forall>e \<in> A. apart e (vaddr a, a)"
  shows "areas_wf (A \<union> (\<lambda>b. (vaddr b, b)) ` set outs)"
proof -
  have in_a: "in_area a w" if "b \<in> set outs" "in_area b w" for b w
    using assms(2) that unfolding pieces_def by blast
  have "apart e (vaddr b, b)" if "e \<in> A" "b \<in> set outs" for e b
    using assms(3) that in_a [OF that(2)] unfolding apart_def by (metis snd_conv)
  then have x: "apart e e'" "apart e' e" if "e \<in> A" "e' \<in> (\<lambda>b. (vaddr b, b)) ` set outs" for e e'
    using that apart_sym by blast+
  have "b = c \<or> apart (vaddr b, b) (vaddr c, c)" if "b \<in> set outs" "c \<in> set outs" for b c
    using assms(2) that unfolding pieces_def apart_def by (metis snd_conv)
  then have y: "e = e' \<or> apart e e'"
    if "e \<in> (\<lambda>b. (vaddr b, b)) ` set outs" "e' \<in> (\<lambda>b. (vaddr b, b)) ` set outs" for e e'
    using that by auto
  have z: "fst e = vaddr (snd e) \<and> area_wf (snd e)" if "e \<in> (\<lambda>b. (vaddr b, b)) ` set outs" for e
    using assms(2) that by (auto simp: pieces_def)
  show ?thesis
    using assms(1) x y z unfolding areas_wf_def by (meson UnE)
qed

lemma slots_pieces: "pieces g a outs \<Longrightarrow> slots ((\<lambda>b. (vaddr b, b)) ` set outs) w x \<longleftrightarrow> g w (slot_at a w) = Some x"
  unfolding pieces_def slots_def by (metis (no_types, lifting) image_iff snd_conv)

lemma apart_pieces:
  assumes "pieces g a outs" and "apart (k, a) e'" and "e \<in> (\<lambda>b. (vaddr b, b)) ` set outs"
  shows "apart e e'"
  using assms unfolding pieces_def apart_def by (metis (no_types, lifting) image_iff snd_conv)

text \<open>What one step makes of an area, \<open>g\<close> on its slots, the loop makes of all of them.\<close>

lemma for_each_area_pieces:
  assumes step: "\<And>e S S'. e \<in> set l \<Longrightarrow> f (snd e) S = (Ok (), S') \<Longrightarrow> \<exists>outs. pieces g (snd e) outs \<and> adds outs S S'"
    and "for_each_area f l S = (Ok (), S')" and "areas_wf (set (owned_mem S))" and "bt_ok (owned_mem S)"
    and "sorted_wrt apart l" and "\<forall>e \<in> set (owned_mem S). \<forall>e' \<in> set l. apart e e'"
  shows "areas_wf (set (owned_mem S')) \<and> bt_ok (owned_mem S') \<and>
    attached_mem S' = attached_mem S \<and> private_mem S' = private_mem S \<and>
    (\<forall>w x. slots (set (owned_mem S')) w x \<longleftrightarrow>
       slots (set (owned_mem S)) w x \<or> (\<exists>e \<in> set l. g w (slot_at (snd e) w) = Some x))"
  using assms
proof (induction l arbitrary: S)
  case (Cons e l)
  obtain k a where e: "e = (k, a)" by (cases e)
  obtain S1 where r: "f a S = (Ok (), S1)" "for_each_area f l S1 = (Ok (), S')"
    using Cons.prems(2) by (auto simp: e result_simps)
  obtain outs where p: "pieces g a outs" "adds outs S S1" using Cons.prems(1) [of e] r(1) by (auto simp: e)
  have o1: "set (owned_mem S1) = set (owned_mem S) \<union> (\<lambda>b. (vaddr b, b)) ` set outs" "bt_ok (owned_mem S1)"
    "attached_mem S1 = attached_mem S" "private_mem S1 = private_mem S"
    using p(2) Cons.prems(4) by (simp_all add: adds_def)
  have "areas_wf (set (owned_mem S1))"
    unfolding o1(1) by (rule areas_wf_pieces [OF Cons.prems(3) p(1)]) (use Cons.prems(6) in \<open>auto simp: e apart_def\<close>)
  moreover have "\<forall>e \<in> set (owned_mem S1). \<forall>e' \<in> set l. apart e e'"
    using Cons.prems(5,6) apart_pieces [OF p(1)] unfolding o1(1) e by auto
  ultimately have "areas_wf (set (owned_mem S')) \<and> bt_ok (owned_mem S') \<and>
      attached_mem S' = attached_mem S1 \<and> private_mem S' = private_mem S1 \<and>
      (\<forall>w x. slots (set (owned_mem S')) w x \<longleftrightarrow>
         slots (set (owned_mem S1)) w x \<or> (\<exists>e \<in> set l. g w (slot_at (snd e) w) = Some x))"
    using Cons.IH [OF Cons.prems(1) r(2) _ o1(2)] Cons.prems(5) by simp
  then show ?case
    by (simp add: o1(1,3,4) slots_Un slots_pieces [OF p(1)] e disj_assoc)
qed simp

subsection \<open>The address space of a memory set\<close>

definition ms_wf :: "('b, 'h, 'k) MemorySet \<Rightarrow> bool" where
  "ms_wf S \<longleftrightarrow> bt_ok (owned_mem S) \<and> areas_wf (set (owned_mem S))"

definition ms_slot :: "('b, 'h, 'k) MemorySet \<Rightarrow> VirtAddr \<Rightarrow> (PhysPage option \<times> MappingFlags) option" where
  "ms_slot S w = (case find_area w (owned_mem S) of None \<Rightarrow> None | Some (_, a) \<Rightarrow> slot_at a w)"

lemma find_area_Some:
  assumes "ms_wf S" and "find_area w (owned_mem S) = Some (k, a)"
  shows "(k, a) \<in> set (owned_mem S)" and "k = vaddr a" and "area_wf a" and "in_area a w"
proof -
  have *: "(k, a) \<in> set (owned_mem S)" "vaddr a \<le> w \<and> w < end_va a"
    using assms(2) by (auto simp: find_Some_iff dest: nth_mem)
  then show "(k, a) \<in> set (owned_mem S)" "k = vaddr a" "area_wf a" "in_area a w"
    using assms(1) by (auto simp: ms_wf_def areas_wf_def in_area_iff)
qed

lemma find_area_None: "ms_wf S \<Longrightarrow> find_area w (owned_mem S) = None \<Longrightarrow> e \<in> set (owned_mem S) \<Longrightarrow> \<not> in_area (snd e) w"
  by (cases e) (fastforce simp: find_None_iff ms_wf_def areas_wf_def in_area_iff)

lemma distinct_sorted_wrt:
  "distinct xs \<Longrightarrow> \<forall>x \<in> set xs. \<forall>y \<in> set xs. x = y \<or> P x y \<Longrightarrow> sorted_wrt P xs"
  by (induction xs) auto

lemma ms_wf_same:
  "ms_wf S \<Longrightarrow> e \<in> set (owned_mem S) \<Longrightarrow> e' \<in> set (owned_mem S) \<Longrightarrow> in_area (snd e) w \<Longrightarrow> in_area (snd e') w \<Longrightarrow> e = e'"
  unfolding ms_wf_def areas_wf_def apart_def by blast

lemma ms_slot_iff:
  assumes "ms_wf S"
  shows "ms_slot S w = Some x \<longleftrightarrow> slots (set (owned_mem S)) w x"
proof (cases "find_area w (owned_mem S)")
  case None
  then show ?thesis
    using find_area_None [OF assms None] by (auto simp: ms_slot_def slots_def dest: slot_at_in)
next
  case (Some e)
  obtain k a where e: "e = (k, a)" by (cases e)
  note f = find_area_Some [OF assms Some [unfolded e]]
  have "e' = (k, a)" if "e' \<in> set (owned_mem S)" "slot_at (snd e') w = Some x" for e'
    by (rule ms_wf_same [OF assms that(1) f(1) slot_at_in [OF that(2)]]) (simp add: f(4))
  then have "slots (set (owned_mem S)) w x \<longleftrightarrow> slot_at a w = Some x"
    using f(1) unfolding slots_def by (metis snd_conv)
  then show ?thesis using Some by (simp add: ms_slot_def e)
qed

lemma option_eqI: "(\<And>x. u = Some x \<longleftrightarrow> v = Some x) \<Longrightarrow> u = v"
  by (cases u; cases v) auto

text \<open>A pass over the overlapping areas of a well-formed set changes the space by \<open>g\<close>.\<close>

lemma pass_over_areas:
  fixes S :: "('b, 'h, 'k) MemorySet"
  assumes wf: "ms_wf S" and g: "\<And>w. g w None = None"
    and id: "\<And>(a :: 'k MapArea) w. area_wf a \<Longrightarrow> \<not> overlap_with start fin a \<Longrightarrow> g w (slot_at a w) = slot_at a w"
    and step: "\<And>a S S'. area_wf a \<Longrightarrow> overlap_with start fin a \<Longrightarrow> f a S = (Ok (), S') \<Longrightarrow>
        \<exists>outs. pieces g a outs \<and> adds outs S S'"
    and run: "for_each_area f (filter (\<lambda>(_, a). overlap_with start fin a) (owned_mem S))
        (S\<lparr>owned_mem := filter (\<lambda>(_, a). \<not> overlap_with start fin a) (owned_mem S)\<rparr>) = (Ok (), S')"
  shows "ms_wf S' \<and> attached_mem S' = attached_mem S \<and> (\<forall>w. ms_slot S' w = g w (ms_slot S w))"
proof -
  let ?ov = "\<lambda>e :: usize \<times> 'k MapArea. overlap_with start fin (snd e)"
  have sp: "(\<lambda>(_, a). overlap_with start fin a) = ?ov" "(\<lambda>(_, a). \<not> overlap_with start fin a) = (\<lambda>e. \<not> ?ov e)"
    by auto
  let ?m = "owned_mem S"
  have ok: "bt_ok ?m" and A: "areas_wf (set ?m)" using wf by (simp_all add: ms_wf_def)
  have d: "distinct ?m" using bt_ok_distinct [OF ok] by (simp add: distinct_map)
  have "sorted_wrt apart ?m" using A by (intro distinct_sorted_wrt [OF d]) (simp add: areas_wf_def)
  then have sw: "sorted_wrt apart (filter ?ov ?m)" by (rule sorted_wrt_filter)
  have bf: "bt_ok (filter (\<lambda>e. \<not> ?ov e) ?m)" using ok unfolding bt_ok_def sorted_wrt_map by (rule sorted_wrt_filter)
  have af: "areas_wf (set (filter (\<lambda>e. \<not> ?ov e) ?m))" using A by (auto simp: areas_wf_def)
  have sep: "\<forall>e \<in> set (filter (\<lambda>e. \<not> ?ov e) ?m). \<forall>e' \<in> set (filter ?ov ?m). apart e e'"
    using A by (auto simp: areas_wf_def)
  have st: "\<exists>outs. pieces g (snd e) outs \<and> adds outs S1 S2"
    if "e \<in> set (filter ?ov ?m)" "f (snd e) S1 = (Ok (), S2)" for e S1 S2
    using that step [of "snd e" S1 S2] A by (auto simp: areas_wf_def)
  have loop: "areas_wf (set (owned_mem S')) \<and> bt_ok (owned_mem S') \<and>
      attached_mem S' = attached_mem S \<and> private_mem S' = private_mem S \<and>
      (\<forall>w x. slots (set (owned_mem S')) w x \<longleftrightarrow> slots (set (filter (\<lambda>e. \<not> ?ov e) ?m)) w x \<or>
         (\<exists>e \<in> set (filter ?ov ?m). g w (slot_at (snd e) w) = Some x))"
    using for_each_area_pieces [OF st run [unfolded sp]] af bf sw sep by simp
  have "ms_slot S' w = g w (ms_slot S w)" for w
  proof (rule option_eqI)
    fix x
    have "ms_slot S' w = Some x \<longleftrightarrow> slots (set (owned_mem S')) w x"
      by (rule ms_slot_iff) (use loop in \<open>simp add: ms_wf_def\<close>)
    also have "\<dots> \<longleftrightarrow> (\<exists>e \<in> set ?m. g w (slot_at (snd e) w) = Some x)"
    proof -
      have "g w (slot_at (snd e) w) = slot_at (snd e) w" if "e \<in> set ?m" "\<not> ?ov e" for e
        using that A by (intro id) (simp_all add: areas_wf_def)
      then have "slots (set (filter (\<lambda>e. \<not> ?ov e) ?m)) w x \<longleftrightarrow> (\<exists>e \<in> set ?m. \<not> ?ov e \<and> g w (slot_at (snd e) w) = Some x)"
        unfolding slots_def set_filter by (metis (mono_tags, lifting) mem_Collect_eq)
      moreover have "slots (set (owned_mem S')) w x \<longleftrightarrow> slots (set (filter (\<lambda>e. \<not> ?ov e) ?m)) w x \<or>
          (\<exists>e \<in> set (filter ?ov ?m). g w (slot_at (snd e) w) = Some x)"
        using loop by blast
      ultimately show ?thesis unfolding set_filter by blast
    qed
    also have "\<dots> \<longleftrightarrow> g w (ms_slot S w) = Some x"
    proof (cases "find_area w ?m")
      case None
      then have "slot_at (snd e) w = None" if "e \<in> set ?m" for e
        using find_area_None [OF wf None that] by (simp add: slot_at_def)
      then show ?thesis using None g by (simp add: ms_slot_def)
    next
      case (Some e)
      obtain k a where e: "e = (k, a)" by (cases e)
      note f = find_area_Some [OF wf Some [unfolded e]]
      have "slot_at (snd e') w = None" if "e' \<in> set ?m" "e' \<noteq> (k, a)" for e'
        using ms_wf_same [OF wf that(1) f(1)] that(2) f(4) by (auto simp: slot_at_def)
      then have "(\<exists>e \<in> set ?m. g w (slot_at (snd e) w) = Some x) \<longleftrightarrow> g w (slot_at a w) = Some x"
        using f(1) g by (metis option.distinct(1) snd_conv)
      then show ?thesis using Some by (simp add: ms_slot_def e)
    qed
    finally show "ms_slot S' w = Some x \<longleftrightarrow> g w (ms_slot S w) = Some x" .
  qed
  then show ?thesis using loop by (simp add: ms_wf_def)
qed

lemma not_overlap_slot:
  "area_wf a \<Longrightarrow> \<not> overlap_with start fin a \<Longrightarrow> start \<le> w \<Longrightarrow> w < fin \<Longrightarrow> slot_at a w = None"
  using slot_at_cases [of a w] by (auto simp: overlap_with_def)

lemma split_for_area_Ok:
  assumes "ms_wf S" and "start < start + sz" and "split_for_area E start sz S = (Ok (), S')"
  shows "ms_wf S' \<and> attached_mem S' = attached_mem S \<and> (\<forall>w. ms_slot S' w = cut start (start + sz) w (ms_slot S w))"
proof (rule pass_over_areas [OF assms(1), where f = "split_one E start (start + sz)"])
  show "cut start (start + sz) w (slot_at a w) = slot_at a w"
    if "area_wf a" "\<not> overlap_with start (start + sz) a" for a w
    using not_overlap_slot [OF that, of w] by (auto simp: cut_def)
  show "\<exists>outs. pieces (cut start (start + sz)) a outs \<and> adds outs S1 S2"
    if "area_wf a" "overlap_with start (start + sz) a" "split_one E start (start + sz) a S1 = (Ok (), S2)" for a S1 S2
    by (rule split_one_Ok [OF that(1) assms(2) that(2,3)])
qed (use assms(3) in \<open>auto simp: split_for_area_def Let_def split: if_splits\<close>)

lemma mprotect_Ok:
  assumes "ms_wf S" and "start < start + sz" and "mprotect E start sz fl S = (Ok (), S')"
  shows "ms_wf S' \<and> attached_mem S' = attached_mem S \<and> (\<forall>w. ms_slot S' w = reflag start (start + sz) fl w (ms_slot S w))"
proof (rule pass_over_areas [OF assms(1), where f = "protect_one E start (start + sz) fl"])
  show "reflag start (start + sz) fl w (slot_at a w) = slot_at a w"
    if "area_wf a" "\<not> overlap_with start (start + sz) a" for a w
    using not_overlap_slot [OF that, of w] by (auto simp: reflag_def)
  show "\<exists>outs. pieces (reflag start (start + sz) fl) a outs \<and> adds outs S1 S2"
    if "area_wf a" "overlap_with start (start + sz) a" "protect_one E start (start + sz) fl a S1 = (Ok (), S2)" for a S1 S2
    by (rule protect_one_Ok [OF that(1) assms(2) that(2,3)])
qed (use assms(3) in \<open>auto simp: mprotect_def Let_def split: if_splits\<close>)

end
