(* ===== verification/PageTableView.thy ===== *)
theory PageTableView
  imports PageTable
begin

text \<open>
  What the page table promises: the mapping it denotes, the invariant that its tables form
  a tree of frames it owns, and the effect of each operation of \<open>PageTable\<close> on the mapping.
  The tree is described by \<open>descend\<close>, which follows present entries that are no leaves.
\<close>

subsection \<open>Indices of an address\<close>

lemma index_nat: "unat (drop_bit k (v :: usize) AND (ENTRY_COUNT - 1)) = unat v div 2 ^ k mod 512"
proof -
  have "ENTRY_COUNT - 1 = 2 ^ 9 - 1"
    by (simp add: ENTRY_COUNT_def)
  then show ?thesis
    using unat_and_pow2_mask [of "drop_bit k v" 9]
    by (simp only: unat_drop_bit_eq drop_bit_eq_div [where 'a = nat]) simp
qed

lemma index_values:
  "p4_index v = unat v div 2 ^ 39 mod 512" "p3_index v = unat v div 2 ^ 30 mod 512"
  "p2_index v = unat v div 2 ^ 21 mod 512" "p1_index v = unat v div 2 ^ 12 mod 512"
  by (simp_all add: p4_index_def p3_index_def p2_index_def p1_index_def index_nat)

fun page_bits :: "PageSize \<Rightarrow> nat" where
  "page_bits Size4K = 12"
| "page_bits Size2M = 21"
| "page_bits Size1G = 30"

lemma page_bytes_pow2: "page_bytes ps = 2 ^ page_bits ps"
  by (cases ps) simp_all

lemma unat_page_bytes: "unat (page_bytes ps) = 2 ^ page_bits ps"
  by (cases ps) simp_all

text \<open>
  The steps of a walk: the index at each level with the size of the page a leaf there maps.
  The fourth level has no leaves.
\<close>

type_synonym walk_step = "nat \<times> PageSize option"

definition walk_steps :: "nat \<Rightarrow> VirtAddr \<Rightarrow> walk_step list" where
  "walk_steps levels v = (if levels = 4 then [(p4_index v, None)] else []) @
     [(p3_index v, Some Size1G), (p2_index v, Some Size2M), (p1_index v, Some Size4K)]"

fun path_to :: "PageSize \<Rightarrow> walk_step list \<Rightarrow> nat list" where
  "path_to ps [] = []"
| "path_to ps ((i, l) # st) = (if l = Some ps then [i] else i # path_to ps st)"

definition page_path :: "nat \<Rightarrow> PageSize \<Rightarrow> VirtAddr \<Rightarrow> nat list" where
  "page_path levels ps v = path_to ps (walk_steps levels v)"

text \<open>The number of the page of size \<open>ps\<close> that holds \<open>v\<close>, among the pages of the address space.\<close>

definition page_no :: "nat \<Rightarrow> PageSize \<Rightarrow> VirtAddr \<Rightarrow> nat" where
  "page_no levels ps v = unat v mod 2 ^ (12 + 9 * levels) div 2 ^ page_bits ps"

lemma digit_split: "(u :: nat) mod (m * 512) = m * (u div m mod 512) + u mod m"
  by (rule mod_mult2_eq)

lemma pow_512: "(2 :: nat) ^ 39 * 512 = 2 ^ 48" "(2 :: nat) ^ 30 * 512 = 2 ^ 39" "(2 :: nat) ^ 21 * 512 = 2 ^ 30"
    "(2 :: nat) ^ 12 * 512 = 2 ^ 21"
  by simp_all

lemma page_no_digits:
  assumes "levels = 3 \<or> levels = 4"
  shows "page_no levels Size1G v = (if levels = 4 then 512 * p4_index v else 0) + p3_index v"
    and "page_no levels Size2M v = 512 * page_no levels Size1G v + p2_index v"
    and "page_no levels Size4K v = 512 * page_no levels Size2M v + p1_index v"
proof -
  let ?u = "unat v"
  have d: "?u mod 2 ^ 48 = 2 ^ 39 * (?u div 2 ^ 39 mod 512) + ?u mod 2 ^ 39"
    "?u mod 2 ^ 39 = 2 ^ 30 * (?u div 2 ^ 30 mod 512) + ?u mod 2 ^ 30"
    "?u mod 2 ^ 30 = 2 ^ 21 * (?u div 2 ^ 21 mod 512) + ?u mod 2 ^ 21"
    "?u mod 2 ^ 21 = 2 ^ 12 * (?u div 2 ^ 12 mod 512) + ?u mod 2 ^ 12"
    by (rule digit_split [of ?u "2 ^ 39", unfolded pow_512] digit_split [of ?u "2 ^ 30", unfolded pow_512]
      digit_split [of ?u "2 ^ 21", unfolded pow_512] digit_split [of ?u "2 ^ 12", unfolded pow_512])+
  have b: "?u mod 2 ^ 30 < 2 ^ 30" "?u mod 2 ^ 21 < 2 ^ 21" "?u mod 2 ^ 12 < 2 ^ 12"
    by simp_all
  have split: "(2 ^ a * c + r) div 2 ^ a = c" if "r < 2 ^ a" for a c r :: nat
    using that by simp
  let ?h = "(if levels = 4 then 512 * p4_index v else 0) + p3_index v"
  have e30: "?u mod 2 ^ (12 + 9 * levels) = 2 ^ 30 * ?h + ?u mod 2 ^ 30"
    using assms d(1,2) by (auto simp: index_values)
  have e21: "?u mod 2 ^ (12 + 9 * levels) = 2 ^ 21 * (512 * ?h + p2_index v) + ?u mod 2 ^ 21"
    unfolding e30 by (subst d(3)) (simp add: index_values algebra_simps)
  have e12: "?u mod 2 ^ (12 + 9 * levels) =
      2 ^ 12 * (512 * (512 * ?h + p2_index v) + p1_index v) + ?u mod 2 ^ 12"
    unfolding e21 by (subst d(4)) (simp add: index_values algebra_simps)
  have g: "page_no levels Size1G v = ?h"
    unfolding page_no_def e30 using split [OF b(1)] by simp
  have m: "page_no levels Size2M v = 512 * ?h + p2_index v"
    unfolding page_no_def e21 using split [OF b(2)] by simp
  have k: "page_no levels Size4K v = 512 * (512 * ?h + p2_index v) + p1_index v"
    unfolding page_no_def e12 using split [OF b(3)] by simp
  show "page_no levels Size1G v = ?h" by (rule g)
  show "page_no levels Size2M v = 512 * page_no levels Size1G v + p2_index v"
    unfolding g by (rule m)
  show "page_no levels Size4K v = 512 * page_no levels Size2M v + p1_index v"
    unfolding m by (rule k)
qed

lemma index_bounds: "p4_index v < 512" "p3_index v < 512" "p2_index v < 512" "p1_index v < 512"
  by (simp_all add: index_values)

lemma digits_eq_iff:
  assumes "b < 512" and "d < 512"
  shows "(512 * a + b = 512 * c + d) \<longleftrightarrow> a = c \<and> b = (d :: nat)"
proof
  assume e: "512 * a + b = 512 * c + d"
  have "(512 * a + b) div 512 = a" "(512 * c + d) div 512 = c"
    using assms by simp_all
  then have "a = c" using e by simp
  with e show "a = c \<and> b = d" by simp
qed simp

lemma page_no_eq_iff:
  assumes "levels = 3 \<or> levels = 4"
  shows "page_no levels Size1G v = page_no levels Size1G w \<longleftrightarrow>
      (levels = 4 \<longrightarrow> p4_index v = p4_index w) \<and> p3_index v = p3_index w"
    and "page_no levels Size2M v = page_no levels Size2M w \<longleftrightarrow>
      page_no levels Size1G v = page_no levels Size1G w \<and> p2_index v = p2_index w"
    and "page_no levels Size4K v = page_no levels Size4K w \<longleftrightarrow>
      page_no levels Size2M v = page_no levels Size2M w \<and> p1_index v = p1_index w"
proof -
  note d = digits_eq_iff [OF index_bounds(2) index_bounds(2)]
    digits_eq_iff [OF index_bounds(3) index_bounds(3)]
    digits_eq_iff [OF index_bounds(4) index_bounds(4)]
  show "page_no levels Size1G v = page_no levels Size1G w \<longleftrightarrow>
      (levels = 4 \<longrightarrow> p4_index v = p4_index w) \<and> p3_index v = p3_index w"
    using assms by (auto simp: page_no_digits(1) d(1))
  show "page_no levels Size2M v = page_no levels Size2M w \<longleftrightarrow>
      page_no levels Size1G v = page_no levels Size1G w \<and> p2_index v = p2_index w"
    by (simp only: page_no_digits(2) [OF assms] d(2))
  show "page_no levels Size4K v = page_no levels Size4K w \<longleftrightarrow>
      page_no levels Size2M v = page_no levels Size2M w \<and> p1_index v = p1_index w"
    by (simp only: page_no_digits(3) [OF assms] d(3))
qed

lemma page_path_eq_iff:
  assumes "levels = 3 \<or> levels = 4"
  shows "page_path levels ps v = page_path levels ps w \<longleftrightarrow> page_no levels ps v = page_no levels ps w"
  using assms by (cases ps) (auto simp: page_path_def walk_steps_def page_no_eq_iff)

subsection \<open>The tree of tables\<close>

definition is_table :: "Rv64PTE \<Rightarrow> bool" where
  "is_table e \<longleftrightarrow> is_present e \<and> \<not> is_huge e"

fun descend :: "physmem \<Rightarrow> PhysAddr \<Rightarrow> nat list \<Rightarrow> PhysAddr option" where
  "descend m t [] = Some t"
| "descend m t (i # p) = (if is_table (m t i) then descend m (pte_paddr (m t i)) p else None)"

lemma descend_append: "descend m t (p @ q) = Option.bind (descend m t p) (\<lambda>u. descend m u q)"
  by (induction p arbitrary: t) auto

lemma descend_snoc:
  "descend m t (p @ [i]) = (case descend m t p of None \<Rightarrow> None
     | Some w \<Rightarrow> if is_table (m w i) then Some (pte_paddr (m w i)) else None)"
  by (auto simp: descend_append split: option.splits)

lemma descend_snoc_Some_iff:
  "descend m t (p @ [i]) = Some u \<longleftrightarrow>
     (\<exists>w. descend m t p = Some w \<and> is_table (m w i) \<and> u = pte_paddr (m w i))"
  by (auto simp: descend_append bind_eq_Some_conv split: if_splits)

text \<open>The entry that translates an address, as \<open>get_entry_mut\<close> finds it.\<close>

fun locate :: "physmem \<Rightarrow> PhysAddr \<Rightarrow> walk_step list \<Rightarrow> (pte_ref \<times> PageSize, PagingError) result" where
  "locate m t [] = Panic"
| "locate m t ((i, l) # st) =
     (if st = [] \<or> l \<noteq> None \<and> is_huge (m t i) then Ok ((t, i), the l)
      else res_bind (next_table_mut (m t i)) (\<lambda>u. locate m u st))"

lemma get_entry_mut_locate:
  "levels = 3 \<or> levels = 4 \<Longrightarrow>
     get_entry_mut levels s v = locate (phys s) (root_paddr s) (walk_steps levels v)"
  by (auto simp: get_entry_mut_def walk_steps_def read_entry_def Let_def
      next_table_mut_def intro: arg_cong [where f = "res_bind _"])

definition look :: "physmem \<Rightarrow> PhysAddr \<Rightarrow> walk_step list \<Rightarrow> (Rv64PTE \<times> PageSize, PagingError) result" where
  "look m t st = res_bind (locate m t st) (\<lambda>((u, i), ps).
     if is_unused (m u i) then Err NotMapped else Ok (m u i, ps))"

lemma look_single: "look m t [(i, l)] = (if is_unused (m t i) then Err NotMapped else Ok (m t i, the l))"
  by (simp add: look_def)

lemma huge_not_unused: "is_huge e \<Longrightarrow> \<not> is_unused e"
  by (auto simp: is_unused_def)

lemma look_Cons:
  "st \<noteq> [] \<Longrightarrow> look m t ((i, l) # st) =
     (if l \<noteq> None \<and> is_huge (m t i) then Ok (m t i, the l)
      else res_bind (next_table_mut (m t i)) (\<lambda>u. look m u st))"
  by (cases "next_table_mut (m t i)") (auto simp: look_def huge_not_unused)

lemma pt_query_look:
  assumes "levels = 3 \<or> levels = 4"
  shows "pt_query levels s v = res_bind (look (phys s) (root_paddr s) (walk_steps levels v))
    (\<lambda>(e, ps). Ok (pte_paddr e + align_offset v (page_bytes ps), pte_flags e, ps))"
  unfolding pt_query_def look_def get_entry_mut_locate [OF assms]
  by (cases "locate (phys s) (root_paddr s) (walk_steps levels v)")
    (auto simp: read_entry_def Let_def split: prod.splits)


subsection \<open>Writes into the tree\<close>

text \<open>
  \<open>tree k m r\<close>: along paths of fewer than \<open>k\<close> steps no table is reached twice, so
  that an entry of a table is an entry of one path only.
\<close>

definition tree :: "nat \<Rightarrow> physmem \<Rightarrow> PhysAddr \<Rightarrow> bool" where
  "tree k m r \<longleftrightarrow> (\<forall>p q t. length p < k \<longrightarrow> length q < k \<longrightarrow>
     descend m r p = Some t \<longrightarrow> descend m r q = Some t \<longrightarrow> p = q)"

definition tables :: "nat \<Rightarrow> physmem \<Rightarrow> PhysAddr \<Rightarrow> PhysAddr set" where
  "tables k m r = {t. \<exists>p. length p < k \<and> descend m r p = Some t}"

lemma treeD:
  "tree k m r \<Longrightarrow> descend m r p = Some t \<Longrightarrow> descend m r q = Some t \<Longrightarrow>
     length p < k \<Longrightarrow> length q < k \<Longrightarrow> p = q"
  unfolding tree_def by blast

lemma tablesI: "descend m r p = Some t \<Longrightarrow> length p < k \<Longrightarrow> t \<in> tables k m r"
  unfolding tables_def by blast

lemma mem_write_other: "(u, j) \<noteq> (t, i) \<Longrightarrow> mem_write m (t, i) e u j = m u j"
  by (auto simp: mem_write_def)

lemma mem_write_same [simp]: "mem_write m (t, i) e t i = e"
  by (simp add: mem_write_def)

text \<open>A write of a leaf or of an empty entry leaves the paths that avoid it as they were.\<close>

lemma descend_write_avoid:
  assumes "tree k m r" and "descend m r p = Some t" and "length p < k"
    and "\<not> (\<exists>z. q = p @ i # z)" and "length q \<le> k"
  shows "descend (mem_write m (t, i) e) r q = descend m r q"
  using assms(4,5)
proof (induction q rule: rev_induct)
  case (snoc j q)
  have IH: "descend (mem_write m (t, i) e) r q = descend m r q"
    using snoc by (metis append.assoc append_Cons length_append_singleton Suc_leD)
  show ?case
  proof (cases "descend m r q")
    case (Some u)
    have "(u, j) \<noteq> (t, i)"
      using treeD [OF assms(1) Some, of p] assms(2,3) snoc.prems by auto
    then show ?thesis
      using IH Some by (simp add: descend_append mem_write_other)
  qed (simp add: descend_append IH)
qed simp

lemma descend_write_through:
  assumes "tree k m r" and "descend m r p = Some t" and "length p < k" and "\<not> is_table e"
  shows "descend (mem_write m (t, i) e) r (p @ i # z) = None"
proof -
  have "descend (mem_write m (t, i) e) r p = Some t"
    using descend_write_avoid [OF assms(1,2,3), of p i e] assms(2,3) by simp
  then show ?thesis
    using assms(4) by (simp add: descend_append)
qed

lemma tree_write_leaf:
  assumes "tree k m r" and "descend m r p = Some t" and "length p < k"
    and "Suc (length p) < k \<Longrightarrow> \<not> is_table e"
  shows "tree k (mem_write m (t, i) e) r"
    and "tables k (mem_write m (t, i) e) r \<subseteq> tables k m r"
proof -
  have old: "descend m r q = Some u" if "descend (mem_write m (t, i) e) r q = Some u" "length q < k" for q u
  proof (cases "\<exists>z. q = p @ i # z")
    case True
    then have "\<not> is_table e" using assms(4) that(2) by auto
    then show ?thesis
      using True that(1) descend_write_through [OF assms(1,2,3)] by auto
  next
    case False
    then show ?thesis
      using descend_write_avoid [OF assms(1,2,3), of q i e] that by simp
  qed
  show "tree k (mem_write m (t, i) e) r"
    unfolding tree_def using old treeD [OF assms(1)] by blast
  show "tables k (mem_write m (t, i) e) r \<subseteq> tables k m r"
    unfolding tables_def using old by blast
qed

text \<open>A fresh, empty table hung into an unused entry adds one path and changes no lookup.\<close>

lemma descend_fresh:
  assumes "f \<notin> tables k m r" and "length q \<le> k"
  shows "descend (m(f := z)) r q = descend m r q"
  using assms(2)
proof (induction q rule: rev_induct)
  case (snoc j q)
  have IH: "descend (m(f := z)) r q = descend m r q"
    using snoc.prems by (intro snoc.IH) simp
  show ?case
  proof (cases "descend m r q")
    case (Some u)
    then have "(m(f := z)) u = m u" using assms(1) snoc.prems tablesI [OF Some, of k] by auto
    then show ?thesis by (simp only: descend_snoc IH Some option.case)
  qed (simp only: descend_snoc IH option.case)
qed simp

definition hang_table :: "physmem \<Rightarrow> pte_ref \<Rightarrow> PhysAddr \<Rightarrow> physmem" where
  "hang_table m e f = mem_write (m(f := (\<lambda>_. 0))) e (new_table f)"

lemma tree_fresh: "tree k m r \<Longrightarrow> f \<notin> tables k m r \<Longrightarrow> tree k (m(f := z)) r"
  by (auto simp: tree_def descend_fresh less_imp_le)

definition hangs :: "nat \<Rightarrow> physmem \<Rightarrow> PhysAddr \<Rightarrow> nat list \<Rightarrow> pte_ref \<Rightarrow> PhysAddr \<Rightarrow> bool" where
  "hangs k m r p e f \<longleftrightarrow> tree k m r \<and> descend m r p = Some (fst e) \<and> Suc (length p) < k \<and>
     is_unused (m (fst e) (snd e)) \<and> f \<notin> tables k m r \<and> valid_paddr f"

lemma hang_avoid:
  assumes h: "hangs k m r p (t, i) f" and "\<not> (\<exists>z. q = p @ i # z)" and "length q \<le> k"
  shows "descend (hang_table m (t, i) f) r q = descend m r q"
proof -
  note h' = h [unfolded hangs_def, simplified]
  have "descend (m(f := (\<lambda>_. 0))) r p = Some t"
    using h' descend_fresh [of f k m r p] by simp
  then show ?thesis
    unfolding hang_table_def
    using descend_write_avoid [of k "m(f := (\<lambda>_. 0))" r p t q i "new_table f"] tree_fresh [of k m r f]
      h' assms(2,3) descend_fresh [of f k m r q] by simp
qed

lemma hang_entry:
  assumes "hangs k m r p (t, i) f"
  shows "hang_table m (t, i) f t i = new_table f"
    and "hang_table m (t, i) f f j = 0"
    and "u \<noteq> f \<Longrightarrow> (u, j) \<noteq> (t, i) \<Longrightarrow> hang_table m (t, i) f u j = m u j"
proof -
  have "t \<noteq> f"
    using assms tablesI [of m r p t k] by (auto simp: hangs_def)
  then show "hang_table m (t, i) f f j = 0"
    by (simp add: hang_table_def mem_write_def)
qed (auto simp: hang_table_def mem_write_def)

lemma hang_new_path:
  assumes h: "hangs k m r p (t, i) f"
  shows "descend (hang_table m (t, i) f) r (p @ [i]) = Some f"
    and "descend (hang_table m (t, i) f) r (p @ i # j # z) = None"
proof -
  have "descend (hang_table m (t, i) f) r p = Some t"
    using hang_avoid [OF h, of p] h by (simp add: hangs_def)
  moreover have "is_table (new_table f)" "pte_paddr (new_table f) = f"
    using h by (simp_all add: is_table_def hangs_def pte_paddr_new_table)
  ultimately show *: "descend (hang_table m (t, i) f) r (p @ [i]) = Some f"
    by (simp add: descend_snoc hang_entry(1) [OF h])
  have "descend (hang_table m (t, i) f) r ((p @ [i]) @ [j]) = None"
    by (subst descend_snoc) (simp only: *, simp add: hang_entry(2) [OF h] is_table_def)
  then show "descend (hang_table m (t, i) f) r (p @ i # j # z) = None"
    using descend_append [of _ r "p @ [i, j]" z] by simp
qed

lemma hang_cases:
  assumes h: "hangs k m r p (t, i) f" and "length q \<le> k"
    and "descend (hang_table m (t, i) f) r q = Some u"
  shows "q = p @ [i] \<and> u = f \<or> descend m r q = Some u"
proof (cases "\<exists>z. q = p @ i # z")
  case True
  then obtain z where "q = p @ i # z" by blast
  then show ?thesis
    using assms(3) hang_new_path [OF h] by (cases z) auto
next
  case False
  then show ?thesis using hang_avoid [OF h] assms(2,3) by auto
qed

lemma hang_tree:
  assumes h: "hangs k m r p (t, i) f"
  shows "tree k (hang_table m (t, i) f) r"
    and "tables k (hang_table m (t, i) f) r \<subseteq> insert f (tables k m r)"
proof -
  have f: "f \<notin> tables k m r" and tr: "tree k m r" using h by (auto simp: hangs_def)
  have c: "q = p @ [i] \<and> u = f \<or> descend m r q = Some u \<and> u \<noteq> f"
    if "descend (hang_table m (t, i) f) r q = Some u" "length q < k" for q u
    using hang_cases [OF h _ that(1)] that(2) f tablesI [of m r q u k] by auto
  show "tree k (hang_table m (t, i) f) r"
    unfolding tree_def
  proof (intro allI impI)
    fix a b u
    assume "length a < k" "length b < k" "descend (hang_table m (t, i) f) r a = Some u"
      "descend (hang_table m (t, i) f) r b = Some u"
    then show "a = b" using c [of a u] c [of b u] treeD [OF tr] by blast
  qed
  show "tables k (hang_table m (t, i) f) r \<subseteq> insert f (tables k m r)"
    using c tablesI by (fastforce simp: tables_def)
qed

subsection \<open>Lookups after a write\<close>

lemma next_table_mut_Ok_iff: "next_table_mut e = Ok u \<longleftrightarrow> is_table e \<and> u = pte_paddr e"
  by (auto simp: next_table_mut_def is_table_def)

lemma look_res_bind_cong:
  "(\<And>u. next_table_mut e = Ok u \<Longrightarrow> g u = h u) \<Longrightarrow>
     res_bind (next_table_mut e) g = res_bind (next_table_mut e) h"
  by (cases "next_table_mut e") auto

lemma look_cong:
  assumes "\<And>q u j z. descend m r q = Some u \<Longrightarrow> pre @ map fst st = q @ j # z \<Longrightarrow> m' u j = m u j"
    and "descend m r pre = Some t0"
  shows "look m' t0 st = look m t0 st"
  using assms
proof (induction st arbitrary: pre t0)
  case Nil
  then show ?case by (simp add: look_def)
next
  case (Cons a st)
  obtain i l where a: "a = (i, l)" by (cases a)
  have e: "m' t0 i = m t0 i"
    using Cons.prems(1) [OF Cons.prems(2), of i] a by simp
  show ?case
  proof (cases "st = []")
    case True
    then show ?thesis using e by (simp add: a look_single)
  next
    case False
    have rec: "look m' u st = look m u st" if "next_table_mut (m t0 i) = Ok u" for u
    proof (rule Cons.IH [of "pre @ [i]"])
      show "descend m r (pre @ [i]) = Some u"
        using that Cons.prems(2) by (simp add: descend_snoc next_table_mut_Ok_iff)
    qed (use Cons.prems(1) a in simp)
    show ?thesis
      using e look_res_bind_cong [OF rec] by (simp add: a look_Cons False)
  qed
qed

lemma look_split:
  "descend m r (map fst st1) = Some t \<Longrightarrow> st2 \<noteq> [] \<Longrightarrow> look m r (st1 @ st2) = look m t st2"
proof (induction st1 arbitrary: r)
  case (Cons a st1)
  obtain i l where "a = (i, l)" by (cases a)
  then show ?case
    using Cons by (auto simp: look_Cons is_table_def next_table_mut_def split: if_splits)
qed simp

lemma path_split:
  assumes "map fst st = p @ i # z"
  obtains st1 l st2 where "st = st1 @ (i, l) # st2" and "map fst st1 = p" and "map fst st2 = z"
proof -
  obtain st1 rest where "st = st1 @ rest" "map fst st1 = p" "map fst rest = i # z"
    using assms by (auto simp: map_eq_append_conv)
  then show thesis using that by (auto simp: map_eq_Cons_conv)
qed

lemma look_write_avoid:
  assumes "tree k m r" and "descend m r p = Some t" and "length p < k"
    and "length st \<le> k" and "\<not> (\<exists>z. map fst st = p @ i # z)"
  shows "look (mem_write m (t, i) e) r st = look m r st"
proof (rule look_cong [where pre = "[]" and r = r])
  fix q u j z
  assume q: "descend m r q = Some u" and s: "[] @ map fst st = q @ j # z"
  have "length q < k" using arg_cong [OF s, of length] assms(4) by simp
  then have "(u, j) \<noteq> (t, i)"
    using treeD [OF assms(1) q, of p] assms s by auto
  then show "mem_write m (t, i) e u j = m u j" by (rule mem_write_other)
qed simp

lemma descend_write_self:
  "tree k m r \<Longrightarrow> descend m r p = Some t \<Longrightarrow> length p < k \<Longrightarrow>
     descend (mem_write m (t, i) e) r p = Some t"
  by (subst descend_write_avoid [of k]) auto

lemma look_write_through:
  assumes "tree k m r" and "descend m r p = Some t" and "length p < k"
    and "map fst st = p @ [i] @ z"
  obtains l st2 where "look (mem_write m (t, i) e) r st = look (mem_write m (t, i) e) t ((i, l) # st2)"
    and "look m r st = look m t ((i, l) # st2)" and "length st2 = length z"
    and "st ! length p = (i, l)"
proof -
  obtain st1 l st2 where st: "st = st1 @ (i, l) # st2" "map fst st1 = p" "map fst st2 = z"
    using path_split [of st p i z] assms(4) by auto
  show thesis
  proof (rule that [of l st2])
    show "look (mem_write m (t, i) e) r st = look (mem_write m (t, i) e) t ((i, l) # st2)"
      unfolding st(1) by (rule look_split)
        (use descend_write_self [OF assms(1-3)] st(2) in simp_all)
    show "look m r st = look m t ((i, l) # st2)"
      unfolding st(1) by (rule look_split) (use assms(2) st(2) in simp_all)
    show "length st2 = length z" using st(3) by auto
    show "st ! length p = (i, l)" using st(1,2) by (auto simp: nth_append)
  qed
qed

lemma next_table_mut_unused: "is_unused e \<Longrightarrow> next_table_mut e = Err NotMapped"
  by (simp add: next_table_mut_def unused_kind)

lemma look_unused: "is_unused (m t i) \<Longrightarrow> look m t ((i, l) # st) = Err NotMapped"
  by (cases "st = []")
    (auto simp: look_single look_Cons next_table_mut_unused dest: unused_kind)

lemma look_hang:
  assumes h: "hangs k m r p (t, i) f" and "length st = k"
  shows "look (hang_table m (t, i) f) r st = look m r st"
proof (cases "\<exists>z. map fst st = p @ i # z")
  case True
  then obtain st1 l st2 where st: "st = st1 @ (i, l) # st2" "map fst st1 = p"
    by (metis path_split)
  have "length st = Suc (length p + length st2)"
    using st by auto
  then have "st2 \<noteq> []"
    using assms by (auto simp: hangs_def)
  have d: "descend m r (map fst st1) = Some t" "descend (hang_table m (t, i) f) r (map fst st1) = Some t"
    using h hang_avoid [OF h, of p] by (simp_all add: st(2) hangs_def)
  have "look (hang_table m (t, i) f) t ((i, l) # st2) = look (hang_table m (t, i) f) f st2"
    using \<open>st2 \<noteq> []\<close> h
    by (simp add: look_Cons hang_entry(1) [OF h] next_table_mut_def hangs_def pte_paddr_new_table)
  also have "\<dots> = Err NotMapped"
    using \<open>st2 \<noteq> []\<close> by (cases st2) (auto intro!: look_unused simp: hang_entry(2) [OF h])
  also have "\<dots> = look m t ((i, l) # st2)"
    using h by (simp add: look_unused hangs_def)
  finally show ?thesis
    unfolding st(1) by (simp add: look_split [OF d(1)] look_split [OF d(2)])
next
  case False
  show ?thesis
  proof (rule look_cong [where pre = "[]" and r = r])
    fix q u j z
    assume q: "descend m r q = Some u" and s: "[] @ map fst st = q @ j # z"
    have lq: "length q < k" using arg_cong [OF s, of length] assms(2) by simp
    have "u \<noteq> f" using h tablesI [OF q lq] by (auto simp: hangs_def)
    moreover have "(u, j) \<noteq> (t, i)"
      using treeD [of k m r q u p] q lq s False h by (auto simp: hangs_def)
    ultimately show "hang_table m (t, i) f u j = m u j" by (rule hang_entry(3) [OF h])
  qed simp
qed

end
