(* ===== verification/PageTableOps.thy ===== *)
theory PageTableOps
  imports PageTableView
begin

text \<open>
  The contract of the frame allocator behind \<open>PagingIf\<close> (locale \<open>paging_if\<close>), the invariant
  of \<open>PageTable64\<close> over it, and the effect of every operation on the translation that
  \<open>query\<close> reports.
\<close>

subsection \<open>The contract of \<open>PagingIf\<close>\<close>

locale paging_if =
  fixes alloc_frame :: "'f \<Rightarrow> PhysAddr option \<times> 'f"
    and dealloc_frame :: "PhysAddr \<Rightarrow> 'f \<Rightarrow> 'f"
    and allocated :: "'f \<Rightarrow> PhysAddr set"
    and frames_ok :: "'f \<Rightarrow> bool"
  assumes alloc_frame_Some: "frames_ok f \<Longrightarrow> alloc_frame f = (Some p, f') \<Longrightarrow>
      frames_ok f' \<and> valid_paddr p \<and> p \<notin> allocated f \<and> allocated f' = insert p (allocated f)"
    and alloc_frame_None: "frames_ok f \<Longrightarrow> alloc_frame f = (None, f') \<Longrightarrow>
      frames_ok f' \<and> allocated f' = allocated f"
    and dealloc_frame: "frames_ok f \<Longrightarrow> p \<in> allocated f \<Longrightarrow>
      frames_ok (dealloc_frame p f) \<and> allocated (dealloc_frame p f) = allocated f - {p}"

text \<open>
  The invariant: the tables form a tree, no entry above the last level is a leaf without a
  mapping, and the tables are frames recorded once in \<open>intrm_tables\<close> and still allocated.
\<close>

definition interior :: "nat \<Rightarrow> physmem \<Rightarrow> PhysAddr \<Rightarrow> bool" where
  "interior k m r \<longleftrightarrow> (\<forall>p t i. Suc (length p) < k \<longrightarrow> descend m r p = Some t \<longrightarrow>
     is_unused (m t i) \<or> is_present (m t i))"

definition pt_inv ::
  "('f \<Rightarrow> PhysAddr set) \<Rightarrow> ('f \<Rightarrow> bool) \<Rightarrow> nat \<Rightarrow> 'f PageTable64 \<Rightarrow> bool" where
  "pt_inv allocated frames_ok levels s \<longleftrightarrow>
     tree levels (phys s) (root_paddr s) \<and> interior levels (phys s) (root_paddr s) \<and>
     tables levels (phys s) (root_paddr s) \<subseteq> set (intrm_tables s) \<and>
     distinct (intrm_tables s) \<and> set (intrm_tables s) \<subseteq> allocated (frames s) \<and>
     frames_ok (frames s)"

lemma pt_invD:
  assumes "pt_inv allocated frames_ok levels s"
  shows "tree levels (phys s) (root_paddr s)" and "interior levels (phys s) (root_paddr s)"
    and "tables levels (phys s) (root_paddr s) \<subseteq> set (intrm_tables s)"
    and "distinct (intrm_tables s)" and "set (intrm_tables s) \<subseteq> allocated (frames s)"
    and "frames_ok (frames s)"
  using assms by (simp_all add: pt_inv_def)

text \<open>A leaf that the walk recognises as one.\<close>

definition leaf_ok :: "PageSize \<Rightarrow> Rv64PTE \<Rightarrow> bool" where
  "leaf_ok ps e \<longleftrightarrow> ps = Size4K \<or> is_unused e \<or> is_huge e \<and> is_present e"

definition flags_ok :: "PageSize \<Rightarrow> MappingFlags \<Rightarrow> bool" where
  "flags_ok ps fl \<longleftrightarrow> ps = Size4K \<or> flags_intersects fl (READ OR EXECUTE)"

lemma leaf_ok_new_page: "flags_ok ps fl \<Longrightarrow> leaf_ok ps (new_page pa fl h)"
  by (auto simp: leaf_ok_def flags_ok_def flags_intersects_def)

lemma interior_write:
  assumes "tree k m r" and "descend m r p = Some t" and "length p < k" and "interior k m r"
    and "Suc (length p) < k \<Longrightarrow> is_unused e \<or> is_present e"
    and "Suc (length p) < k \<Longrightarrow> \<not> is_table e"
  shows "interior k (mem_write m (t, i) e) r"
  unfolding interior_def
proof (intro allI impI)
  fix q u j
  assume l: "Suc (length q) < k" and q: "descend (mem_write m (t, i) e) r q = Some u"
  have old: "descend m r q = Some u"
  proof (cases "\<exists>z. q = p @ i # z")
    case True
    then show ?thesis
      using q l assms(6) descend_write_through [OF assms(1-3)] by auto
  next
    case False
    then show ?thesis using q l descend_write_avoid [OF assms(1-3)] by simp
  qed
  show "is_unused (mem_write m (t, i) e u j) \<or> is_present (mem_write m (t, i) e u j)"
  proof (cases "(u, j) = (t, i)")
    case True
    then have "q = p" using treeD [OF assms(1) old, of p] assms(2,3) l by simp
    then show ?thesis using True assms(5) l by simp
  next
    case False
    have "mem_write m (t, i) e u j = m u j" by (rule mem_write_other [OF False])
    then show ?thesis
      using assms(4) old l by (simp add: interior_def)
  qed
qed

lemma interior_hang:
  assumes h: "hangs k m r p (t, i) f" and "interior k m r"
  shows "interior k (hang_table m (t, i) f) r"
  unfolding interior_def
proof (intro allI impI)
  fix q u j
  assume l: "Suc (length q) < k" and q: "descend (hang_table m (t, i) f) r q = Some u"
  consider "u = f" | "u \<noteq> f" "descend m r q = Some u"
    using hang_cases [OF h _ q] l by auto
  then show "is_unused (hang_table m (t, i) f u j) \<or> is_present (hang_table m (t, i) f u j)"
  proof cases
    case 1
    then show ?thesis by (simp add: hang_entry(2) [OF h])
  next
    case 2
    then show ?thesis
      using assms(2) l hang_entry(1,3) [OF h] by (cases "(u, j) = (t, i)") (auto simp: interior_def)
  qed
qed

subsection \<open>Paths of pages\<close>

lemma length_walk_steps [simp]: "levels = 3 \<or> levels = 4 \<Longrightarrow> length (walk_steps levels v) = levels"
  by (auto simp: walk_steps_def)

lemma page_path_prefix_iff:
  assumes "levels = 3 \<or> levels = 4"
  shows "(\<exists>z. map fst (walk_steps levels w) = page_path levels ps v @ z) \<longleftrightarrow>
    page_no levels ps w = page_no levels ps v"
proof -
  have "(\<exists>z. map fst (walk_steps levels w) = page_path levels ps v @ z) \<longleftrightarrow>
      page_path levels ps w = page_path levels ps v"
    using assms by (cases ps) (auto simp: page_path_def walk_steps_def)
  then show ?thesis using page_path_eq_iff [OF assms] by simp
qed

lemma page_path_step:
  assumes "levels = 3 \<or> levels = 4" and "page_path levels ps v = p @ [i]"
  shows "length p < levels" and "Suc (length p) < levels \<longleftrightarrow> ps \<noteq> Size4K"
    and "page_no levels ps w = page_no levels ps v \<Longrightarrow> walk_steps levels w ! length p = (i, Some ps)"
proof -
  have len: "length (page_path levels ps v) = Suc (length p)"
    unfolding assms(2) by simp
  show "length p < levels" "Suc (length p) < levels \<longleftrightarrow> ps \<noteq> Size4K"
    using assms(1) len by (cases ps; auto simp: page_path_def walk_steps_def)+
  assume "page_no levels ps w = page_no levels ps v"
  then have w: "page_path levels ps w = p @ [i]"
    using page_path_eq_iff [OF assms(1)] assms(2) by metis
  then have "i = page_path levels ps w ! length p" by simp
  then show "walk_steps levels w ! length p = (i, Some ps)"
    using assms(1) arg_cong [OF w, of length]
    by (cases ps) (auto simp: page_path_def walk_steps_def dest!: sym [where t = "length p"])
qed

text \<open>The effect of one write at the end of the path of a page.\<close>

lemma look_write_page:
  assumes lv: "levels = 3 \<or> levels = 4" and tr: "tree levels m r" and dp: "descend m r p = Some t"
    and pp: "page_path levels ps v = p @ [i]" and lf: "leaf_ok ps e"
  shows "look (mem_write m (t, i) e) r (walk_steps levels w) =
    (if page_no levels ps w \<noteq> page_no levels ps v then look m r (walk_steps levels w)
     else if is_unused e then Err NotMapped else Ok (e, ps))"
proof (cases "page_no levels ps w = page_no levels ps v")
  case False
  then have "\<not> (\<exists>z. map fst (walk_steps levels w) = p @ i # z)"
    using page_path_prefix_iff [OF lv, of w ps v] pp by simp
  then show ?thesis
    using look_write_avoid [OF tr dp page_path_step(1) [OF lv pp]] lv False by simp
next
  case True
  then obtain z where z: "map fst (walk_steps levels w) = p @ [i] @ z"
    using page_path_prefix_iff [OF lv, of w ps v] pp by auto
  obtain l st2 where *: "look (mem_write m (t, i) e) r (walk_steps levels w) =
      look (mem_write m (t, i) e) t ((i, l) # st2)" "length st2 = length z"
    "walk_steps levels w ! length p = (i, l)"
    using look_write_through [OF tr dp page_path_step(1) [OF lv pp] z] by metis
  have l: "l = Some ps" using *(3) page_path_step(3) [OF lv pp True] by simp
  have "length (map fst (walk_steps levels w)) = length (p @ [i] @ z)" by (simp only: z)
  then have "ps \<noteq> Size4K \<longleftrightarrow> st2 \<noteq> []"
    using page_path_step(2) [OF lv pp] *(2) lv by auto
  then show ?thesis
    using True lf by (cases "st2 = []")
      (auto simp: *(1) l look_single look_Cons leaf_ok_def next_table_mut_unused dest: unused_kind)
qed


subsection \<open>Creating tables on the way\<close>

text \<open>
  \<open>grown\<close>: a state after creating tables only; the invariant holds and no translation
  changed.
\<close>

definition grown ::
  "('f \<Rightarrow> PhysAddr set) \<Rightarrow> ('f \<Rightarrow> bool) \<Rightarrow> nat \<Rightarrow> 'f PageTable64 \<Rightarrow> 'f PageTable64 \<Rightarrow> bool" where
  "grown al ok levels s s' \<longleftrightarrow> pt_inv al ok levels s' \<and> root_paddr s' = root_paddr s \<and>
     (\<forall>st. length st = levels \<longrightarrow>
        look (phys s') (root_paddr s) st = look (phys s) (root_paddr s) st)"

lemma grown_refl: "pt_inv al ok levels s \<Longrightarrow> grown al ok levels s s"
  by (simp add: grown_def)

lemma grown_trans: "grown al ok levels s t \<Longrightarrow> grown al ok levels t u \<Longrightarrow> grown al ok levels s u"
  by (simp add: grown_def)

lemma grown_query:
  "grown al ok levels s s' \<Longrightarrow> levels = 3 \<or> levels = 4 \<Longrightarrow> pt_query levels s' v = pt_query levels s v"
  by (simp add: grown_def pt_query_look)

text \<open>
  \<open>walk_outcome\<close>: a step of a walk that ends in a table satisfying \<open>P\<close>, or stops because no
  frame is left or a huge page is in the way.
\<close>

definition walk_outcome ::
  "nat \<Rightarrow> 'f PageTable64 \<Rightarrow> VirtAddr \<Rightarrow> (PhysAddr \<Rightarrow> bool) \<Rightarrow> (PhysAddr, PagingError) result \<Rightarrow> bool" where
  "walk_outcome levels s v P r \<longleftrightarrow> (case r of Ok t \<Rightarrow> P t
     | Err e \<Rightarrow> e = NoMemory \<or> e = MappedToHugePage \<and> pt_query levels s v \<noteq> Err NotMapped
     | _ \<Rightarrow> False)"

lemma huge_on_path_mapped:
  assumes lv: "levels = 3 \<or> levels = 4" and dp: "descend (phys s) (root_paddr s) p = Some t"
    and lp: "Suc (length p) < levels" and pre: "map fst (walk_steps levels v) = p @ i # z"
    and "is_present (phys s t i)" and "is_huge (phys s t i)"
  shows "pt_query levels s v \<noteq> Err NotMapped"
proof -
  obtain st1 l st2 where st: "walk_steps levels v = st1 @ (i, l) # st2" "map fst st1 = p"
    using path_split [OF pre] by metis
  have "length (walk_steps levels v) = Suc (length p + length st2)" using st by auto
  then have "st2 \<noteq> []" using lp lv by auto
  then have "look (phys s) (root_paddr s) (walk_steps levels v) \<noteq> Err NotMapped"
    using look_split [of "phys s" "root_paddr s" st1 t] dp st assms(5,6)
    by (auto simp: look_Cons next_table_mut_def)
  then show ?thesis
    by (cases "look (phys s) (root_paddr s) (walk_steps levels v)") (auto simp: pt_query_look [OF lv])
qed

context paging_if
begin

abbreviation inv where "inv \<equiv> pt_inv allocated frames_ok"
abbreviation grows where "grows \<equiv> grown allocated frames_ok"

lemma create_spec:
  assumes inv: "inv levels s" and dp: "descend (phys s) (root_paddr s) p = Some t"
    and lp: "Suc (length p) < levels" and un: "is_unused (phys s t i)"
    and run: "next_table_mut_or_create alloc_frame (t, i) s = (r, s')"
  shows "grows levels s s' \<and> (r = Err NoMemory \<or>
    (\<exists>u. r = Ok u \<and> descend (phys s') (root_paddr s') (p @ [i]) = Some u))"
proof (cases "alloc_frame (frames s)")
  case (Pair fo f')
  note I = pt_invD [OF inv]
  note run' = run [unfolded next_table_mut_or_create_def read_entry_def and_then_def
      alloc_table_def write_entry_def, simplified]
  show ?thesis
  proof (cases fo)
    case None
    then have "r = Err NoMemory" "s' = s\<lparr>frames := f'\<rparr>"
      using run' un Pair by auto
    then show ?thesis
      using alloc_frame_None [OF I(6)] Pair None inv by (simp add: grown_def pt_inv_def)
  next
    case (Some f)
    have r: "r = Ok f" and s': "s' = s\<lparr>frames := f', phys := hang_table (phys s) (t, i) f,
        intrm_tables := intrm_tables s @ [f]\<rparr>"
      using run' un Pair Some by (auto simp: hang_table_def)
    note A = alloc_frame_Some [OF I(6)] Pair Some
    have h: "hangs levels (phys s) (root_paddr s) p (t, i) f"
      unfolding hangs_def using I dp lp un A by auto
    have "grows levels s s'"
      unfolding grown_def pt_inv_def s'
      using hang_tree [OF h] interior_hang [OF h I(2)] look_hang [OF h] I A by auto
    then show ?thesis
      using hang_new_path(1) [OF h] by (simp add: r s')
  qed
qed

lemma next_table_mut_or_create_spec:
  assumes lv: "levels = 3 \<or> levels = 4" and inv: "inv levels s"
    and dp: "descend (phys s) (root_paddr s) p = Some t" and lp: "Suc (length p) < levels"
    and pre: "map fst (walk_steps levels v) = p @ i # z"
    and run: "next_table_mut_or_create alloc_frame (t, i) s = (r, s')"
  shows "grows levels s s' \<and> walk_outcome levels s v
    (\<lambda>u. descend (phys s') (root_paddr s') (p @ [i]) = Some u) r"
proof (cases "is_unused (phys s t i)")
  case True
  then show ?thesis
    using create_spec [OF inv dp lp _ run] by (auto simp: walk_outcome_def)
next
  case False
  then have r: "r = next_table_mut (phys s t i)" and s': "s' = s"
    using run by (auto simp: next_table_mut_or_create_def read_entry_def)
  have "is_present (phys s t i)"
    using pt_invD(2) [OF inv] False dp lp by (auto simp: interior_def)
  then show ?thesis
    using huge_on_path_mapped [OF lv dp lp pre] grown_refl [OF inv] dp
    by (simp add: r s' next_table_mut_def walk_outcome_def descend_snoc is_table_def)
qed

text \<open>The entry reached for a page, or the reason why it is not reached.\<close>

definition entry_outcome ::
  "nat \<Rightarrow> 'f PageTable64 \<Rightarrow> VirtAddr \<Rightarrow> PageSize \<Rightarrow> 'f PageTable64 \<Rightarrow>
     (pte_ref, PagingError) result \<Rightarrow> bool" where
  "entry_outcome levels s v ps s' r \<longleftrightarrow> (case r of
      Ok (t, i) \<Rightarrow> \<exists>p. descend (phys s') (root_paddr s') p = Some t \<and> page_path levels ps v = p @ [i]
    | Err e \<Rightarrow> e = NoMemory \<or> e = MappedToHugePage \<and> pt_query levels s v \<noteq> Err NotMapped
    | _ \<Rightarrow> False)"

lemma walk_chain:
  assumes lv: "levels = 3 \<or> levels = 4" and inv: "inv levels s"
    and dp: "descend (phys s) (root_paddr s) p = Some t" and lp: "Suc (length p) < levels"
    and pre: "map fst (walk_steps levels v) = p @ i # z"
    and run: "and_then (next_table_mut_or_create alloc_frame (t, i)) g s = (r, s')"
    and cont: "\<And>u s1. inv levels s1 \<Longrightarrow> descend (phys s1) (root_paddr s1) (p @ [i]) = Some u \<Longrightarrow>
      g u s1 = (r, s') \<Longrightarrow> grows levels s1 s' \<and> entry_outcome levels s1 v ps s' r"
  shows "grows levels s s' \<and> entry_outcome levels s v ps s' r"
proof (cases "next_table_mut_or_create alloc_frame (t, i) s")
  case (Pair r1 s1)
  have sp: "grows levels s s1" "walk_outcome levels s v
      (\<lambda>u. descend (phys s1) (root_paddr s1) (p @ [i]) = Some u) r1"
    using next_table_mut_or_create_spec [OF lv inv dp lp pre Pair] by auto
  show ?thesis
  proof (cases r1)
    case (Ok u)
    then have "g u s1 = (r, s')" using run Pair by (simp add: and_then_def)
    then have "grows levels s1 s' \<and> entry_outcome levels s1 v ps s' r"
      using cont [of s1 u] sp Ok by (simp add: grown_def walk_outcome_def)
    then show ?thesis
      using grown_trans [OF sp(1)] grown_query [OF sp(1) lv, of v]
      by (cases r) (auto simp: entry_outcome_def)
  qed (use sp run Pair in \<open>auto simp: and_then_def walk_outcome_def entry_outcome_def\<close>)
qed

lemma entry_from_p3:
  assumes lv: "levels = 3 \<or> levels = 4" and inv: "inv levels s"
    and pre: "pre = (if levels = 4 then [p4_index v] else [])"
    and dp: "descend (phys s) (root_paddr s) pre = Some p3"
    and run: "(if ps = Size1G then (\<lambda>s. (Ok (p3, p3_index v), s))
       else and_then (next_table_mut_or_create alloc_frame (p3, p3_index v)) (\<lambda>p2.
         if ps = Size2M then (\<lambda>s. (Ok (p2, p2_index v), s))
         else and_then (next_table_mut_or_create alloc_frame (p2, p2_index v)) (\<lambda>p1.
           (\<lambda>s. (Ok (p1, p1_index v), s))))) s = (r, s')"
  shows "grows levels s s' \<and> entry_outcome levels s v ps s' r"
proof (cases "ps = Size1G")
  case True
  then show ?thesis
    using run dp lv grown_refl [OF inv]
    by (auto simp: entry_outcome_def page_path_def walk_steps_def pre)
next
  case not1G: False
  note run2 = run [unfolded if_not_P [OF not1G]]
  have st: "map fst (walk_steps levels v) = pre @ p3_index v # [p2_index v, p1_index v]"
    "map fst (walk_steps levels v) = (pre @ [p3_index v]) @ p2_index v # [p1_index v]"
    "Suc (length pre) < levels" "Suc (length (pre @ [p3_index v])) < levels"
    using lv by (auto simp: walk_steps_def pre)
  have pp: "page_path levels Size2M v = (pre @ [p3_index v]) @ [p2_index v]"
    "page_path levels Size4K v = (pre @ [p3_index v, p2_index v]) @ [p1_index v]"
    using lv by (auto simp: page_path_def walk_steps_def pre)
  show ?thesis
  proof (rule walk_chain [OF lv inv dp st(3,1) run2])
    fix p2 s1
    assume i1: "inv levels s1" and d1: "descend (phys s1) (root_paddr s1) (pre @ [p3_index v]) = Some p2"
      and g1: "(if ps = Size2M then (\<lambda>s. (Ok (p2, p2_index v), s))
         else and_then (next_table_mut_or_create alloc_frame (p2, p2_index v)) (\<lambda>p1.
           (\<lambda>s. (Ok (p1, p1_index v), s)))) s1 = (r, s')"
    show "grows levels s1 s' \<and> entry_outcome levels s1 v ps s' r"
    proof (cases "ps = Size2M")
      case True
      then show ?thesis
        using g1 d1 pp(1) grown_refl [OF i1] by (auto simp: entry_outcome_def)
    next
      case False
      then have ps: "ps = Size4K" using not1G by (cases ps) auto
      show ?thesis
      proof (rule walk_chain [OF lv i1 d1 st(4,2) g1 [unfolded if_not_P [OF False]]])
        fix p1 s2
        assume "inv levels s2" "(Ok (p1, p1_index v), s2) = (r, s')"
          "descend (phys s2) (root_paddr s2) ((pre @ [p3_index v]) @ [p2_index v]) = Some p1"
        then show "grows levels s2 s' \<and> entry_outcome levels s2 v ps s' r"
          using pp(2) ps by (auto simp: grown_refl entry_outcome_def)
      qed
    qed
  qed
qed

lemma get_entry_mut_or_create_spec:
  assumes lv: "levels = 3 \<or> levels = 4" and inv: "inv levels s"
    and run: "get_entry_mut_or_create alloc_frame levels v ps s = (r, s')"
  shows "grows levels s s' \<and> entry_outcome levels s v ps s' r"
proof (cases "levels = 3")
  case True
  then show ?thesis
    using entry_from_p3 [OF lv inv refl, of v "root_paddr s" ps r s']
      run [unfolded get_entry_mut_or_create_def Let_def]
    by (simp add: and_then_return)
next
  case False
  then have l4: "levels = 4" using lv by simp
  have st: "map fst (walk_steps levels v) = [] @ p4_index v # [p3_index v, p2_index v, p1_index v]"
    by (simp add: walk_steps_def l4)
  show ?thesis
  proof (rule walk_chain [OF lv inv _ _ st])
    show "and_then (next_table_mut_or_create alloc_frame (root_paddr s, p4_index v))
      (\<lambda>p3. (if ps = Size1G then (\<lambda>s. (Ok (p3, p3_index v), s))
       else and_then (next_table_mut_or_create alloc_frame (p3, p3_index v)) (\<lambda>p2.
         if ps = Size2M then (\<lambda>s. (Ok (p2, p2_index v), s))
         else and_then (next_table_mut_or_create alloc_frame (p2, p2_index v)) (\<lambda>p1.
           (\<lambda>s. (Ok (p1, p1_index v), s)))))) s = (r, s')"
      using run [unfolded get_entry_mut_or_create_def Let_def] by (simp add: l4 and_then_def)
  next
    fix u s1
    assume "inv levels s1" "descend (phys s1) (root_paddr s1) ([] @ [p4_index v]) = Some u"
      "(if ps = Size1G then (\<lambda>s. (Ok (u, p3_index v), s))
       else and_then (next_table_mut_or_create alloc_frame (u, p3_index v)) (\<lambda>p2.
         if ps = Size2M then (\<lambda>s. (Ok (p2, p2_index v), s))
         else and_then (next_table_mut_or_create alloc_frame (p2, p2_index v)) (\<lambda>p1.
           (\<lambda>s. (Ok (p1, p1_index v), s))))) s1 = (r, s')"
    then show "grows levels s1 s' \<and> entry_outcome levels s1 v ps s' r"
      by (intro entry_from_p3 [OF lv, of s1 "[p4_index v]"]) (simp_all add: l4)
  qed (simp_all add: l4)
qed

subsection \<open>The operations\<close>

lemma write_page_spec:
  assumes lv: "levels = 3 \<or> levels = 4" and inv: "inv levels s"
    and dp: "descend (phys s) (root_paddr s) p = Some t" and pp: "page_path levels ps v = p @ [i]"
    and lf: "leaf_ok ps e"
  shows "inv levels (write_entry (t, i) e s)"
    and "pt_query levels (write_entry (t, i) e s) w =
      (if page_no levels ps w \<noteq> page_no levels ps v then pt_query levels s w
       else if is_unused e then Err NotMapped
       else Ok (pte_paddr e + align_offset w (page_bytes ps), pte_flags e, ps))"
proof -
  note I = pt_invD [OF inv] and st = page_path_step [OF lv pp]
  have nt: "Suc (length p) < levels \<Longrightarrow> \<not> is_table e"
    and ui: "Suc (length p) < levels \<Longrightarrow> is_unused e \<or> is_present e"
    using lf st(2) by (auto simp: leaf_ok_def is_table_def dest: unused_kind)
  show "inv levels (write_entry (t, i) e s)"
    using tree_write_leaf(1) [OF I(1) dp st(1) nt]
      subset_trans [OF tree_write_leaf(2) [OF I(1) dp st(1) nt] I(3)]
      interior_write [OF I(1) dp st(1) I(2) ui nt] I(4-6)
    by (simp add: pt_inv_def write_entry_def)
  show "pt_query levels (write_entry (t, i) e s) w =
      (if page_no levels ps w \<noteq> page_no levels ps v then pt_query levels s w
       else if is_unused e then Err NotMapped
       else Ok (pte_paddr e + align_offset w (page_bytes ps), pte_flags e, ps))"
    by (simp add: pt_query_look [OF lv] write_entry_def look_write_page [OF lv I(1) dp pp lf])
qed

lemma query_at_leaf:
  assumes lv: "levels = 3 \<or> levels = 4" and dp: "descend (phys s) (root_paddr s) p = Some t"
    and pp: "page_path levels Size4K v = p @ [i]"
  shows "pt_query levels s v = (if is_unused (phys s t i) then Err NotMapped
    else Ok (pte_paddr (phys s t i) + align_offset v (page_bytes Size4K), pte_flags (phys s t i), Size4K))"
proof -
  have "map fst (walk_steps levels v) = p @ [i]"
    using pp lv by (auto simp: page_path_def walk_steps_def)
  then obtain st1 l where st: "walk_steps levels v = st1 @ [(i, l)]" "map fst st1 = p"
    by (elim path_split) simp
  moreover have "l = Some Size4K"
    using st(1) lv by (auto simp: walk_steps_def)
  ultimately show ?thesis
    using look_split [of "phys s" "root_paddr s" st1 t "[(i, l)]"] dp
    by (simp add: pt_query_look [OF lv] look_single)
qed

text \<open>
  The three operations that create the entry of a page share one shape: find the entry,
  refuse it, or write to it.
\<close>

lemma entry_op_spec:
  assumes lv: "levels = 3 \<or> levels = 4" and inv: "inv levels s" and lf: "leaf_ok ps e"
    and run: "and_then (get_entry_mut_or_create alloc_frame levels v ps) (\<lambda>entry s.
        if refuse (read_entry s entry) then (Err AlreadyMapped, s)
        else (Ok (), write_entry entry e s)) s = (r, s')"
  shows "inv levels s'"
    and "r = Ok () \<Longrightarrow> pt_query levels s' w =
      (if page_no levels ps w \<noteq> page_no levels ps v then pt_query levels s w
       else if is_unused e then Err NotMapped
       else Ok (pte_paddr e + align_offset w (page_bytes ps), pte_flags e, ps))"
    and "r \<noteq> Ok () \<Longrightarrow> pt_query levels s' w = pt_query levels s w"
    and "r = Ok () \<or> r = Err NoMemory \<or> r = Err AlreadyMapped \<or>
      r = Err MappedToHugePage \<and> pt_query levels s v \<noteq> Err NotMapped"
    and "r = Ok () \<or> r = Err AlreadyMapped \<Longrightarrow> ps = Size4K \<Longrightarrow>
      (\<And>x. refuse x \<longleftrightarrow> is_unused x = b) \<Longrightarrow>
      r = Err AlreadyMapped \<longleftrightarrow> (pt_query levels s v = Err NotMapped) = b"
proof -
  obtain r1 s1 where g: "get_entry_mut_or_create alloc_frame levels v ps s = (r1, s1)"
    by fastforce
  have sp: "grows levels s s1" "entry_outcome levels s v ps s1 r1"
    using get_entry_mut_or_create_spec [OF lv inv g] by auto
  have i1: "inv levels s1" and q1: "pt_query levels s1 w = pt_query levels s w" for w
    using sp(1) grown_query [OF sp(1) lv] by (auto simp: grown_def)
  have *: "inv levels s' \<and> (r = Ok () \<longrightarrow> pt_query levels s' w =
      (if page_no levels ps w \<noteq> page_no levels ps v then pt_query levels s w
       else if is_unused e then Err NotMapped
       else Ok (pte_paddr e + align_offset w (page_bytes ps), pte_flags e, ps))) \<and>
      (r \<noteq> Ok () \<longrightarrow> pt_query levels s' w = pt_query levels s w) \<and>
      (r = Ok () \<or> r = Err NoMemory \<or> r = Err AlreadyMapped \<or>
       r = Err MappedToHugePage \<and> pt_query levels s v \<noteq> Err NotMapped) \<and>
      (r = Ok () \<or> r = Err AlreadyMapped \<longrightarrow> ps = Size4K \<longrightarrow>
        (\<forall>x. refuse x \<longleftrightarrow> is_unused x = b) \<longrightarrow>
        (r = Err AlreadyMapped \<longleftrightarrow> (pt_query levels s v = Err NotMapped) = b))" for w b
  proof (cases r1)
    case (Ok a)
    obtain t i where a: "a = (t, i)" by (cases a)
    obtain p where p: "descend (phys s1) (root_paddr s1) p = Some t" "page_path levels ps v = p @ [i]"
      using sp(2) Ok a by (auto simp: entry_outcome_def)
    show ?thesis
      using run write_page_spec(1) [OF lv i1 p lf] write_page_spec(2) [OF lv i1 p lf, of w] i1 q1
        query_at_leaf [OF lv p(1), of v] p(2)
      by (auto simp: and_then_def g Ok a read_entry_def split: if_splits)
  qed (use sp(2) run i1 q1 in \<open>auto simp: and_then_def g entry_outcome_def\<close>)
  then show "inv levels s'" "r = Ok () \<Longrightarrow> pt_query levels s' w =
      (if page_no levels ps w \<noteq> page_no levels ps v then pt_query levels s w
       else if is_unused e then Err NotMapped
       else Ok (pte_paddr e + align_offset w (page_bytes ps), pte_flags e, ps))"
    "r \<noteq> Ok () \<Longrightarrow> pt_query levels s' w = pt_query levels s w"
    "r = Ok () \<or> r = Err NoMemory \<or> r = Err AlreadyMapped \<or>
      r = Err MappedToHugePage \<and> pt_query levels s v \<noteq> Err NotMapped"
    "r = Ok () \<or> r = Err AlreadyMapped \<Longrightarrow> ps = Size4K \<Longrightarrow>
      (\<And>x. refuse x \<longleftrightarrow> is_unused x = b) \<Longrightarrow>
      r = Err AlreadyMapped \<longleftrightarrow> (pt_query levels s v = Err NotMapped) = b"
    by simp_all
qed

lemma get_entry_mut_path:
  assumes lv: "levels = 3 \<or> levels = 4" and "get_entry_mut levels s v = Ok ((t, i), ps)"
  shows "\<exists>p. descend (phys s) (root_paddr s) p = Some t \<and> page_path levels ps v = p @ [i]"
proof -
  let ?d = "\<lambda>p. descend (phys s) (root_paddr s) p = Some t \<and> page_path levels ps v = p @ [i]"
  have "?d [] \<or> ?d [p3_index v] \<or> ?d [p3_index v, p2_index v] \<or> ?d [p4_index v] \<or>
      ?d [p4_index v, p3_index v] \<or> ?d [p4_index v, p3_index v, p2_index v]"
    using assms
    by (auto simp: get_entry_mut_def read_entry_def Let_def next_table_mut_def is_table_def
        page_path_def walk_steps_def split: if_splits)
  then show ?thesis by blast
qed

lemma get_entry_mut_not_panic:
  "levels = 3 \<or> levels = 4 \<Longrightarrow> get_entry_mut levels s v \<noteq> Panic \<and> get_entry_mut levels s v \<noteq> Diverge"
  by (auto simp: get_entry_mut_def Let_def next_table_mut_def)

lemma unmap_spec:
  assumes lv: "levels = 3 \<or> levels = 4" and inv: "inv levels s" and run: "unmap levels v s = (r, s')"
  shows "inv levels s'"
    and "r = Ok (pa, ps) \<Longrightarrow> (\<exists>fl. pt_query levels s v = Ok (pa + align_offset v (page_bytes ps), fl, ps)) \<and>
      pt_query levels s' w = (if page_no levels ps w = page_no levels ps v then Err NotMapped
        else pt_query levels s w)"
    and "(\<nexists>a. r = Ok a) \<Longrightarrow> s' = s \<and> (\<exists>e. r = Err e \<and> pt_query levels s v = Err e)"
    and "is_ok r \<longleftrightarrow> is_ok (pt_query levels s v)"
proof -
  have *: "inv levels s' \<and> (r = Ok (pa, ps) \<longrightarrow>
       (\<exists>fl. pt_query levels s v = Ok (pa + align_offset v (page_bytes ps), fl, ps)) \<and>
       pt_query levels s' w = (if page_no levels ps w = page_no levels ps v then Err NotMapped
         else pt_query levels s w)) \<and>
     ((\<nexists>a. r = Ok a) \<longrightarrow> s' = s \<and> (\<exists>e. r = Err e \<and> pt_query levels s v = Err e)) \<and>
     (is_ok r \<longleftrightarrow> is_ok (pt_query levels s v))" for pa ps w
  proof (cases "get_entry_mut levels s v")
    case (Ok a)
    obtain t i z where a: "a = ((t, i), z)" by (metis surj_pair)
    obtain p where p: "descend (phys s) (root_paddr s) p = Some t" "page_path levels z v = p @ [i]"
      using get_entry_mut_path [OF lv, of s v t i z] Ok a by auto
    have "leaf_ok z 0" by (simp add: leaf_ok_def)
    note wp = write_page_spec(1) [OF lv inv p this] write_page_spec(2) [OF lv inv p this, of w]
    show ?thesis
      using run wp inv Ok a
      by (auto simp: unmap_def and_then_def pt_query_def pte_clear_def Let_def split: if_splits)
  qed (use run inv get_entry_mut_not_panic [OF lv, of s v] in
      \<open>auto simp: unmap_def and_then_def pt_query_def\<close>)
  then show "inv levels s'"
    "r = Ok (pa, ps) \<Longrightarrow> (\<exists>fl. pt_query levels s v = Ok (pa + align_offset v (page_bytes ps), fl, ps)) \<and>
      pt_query levels s' w = (if page_no levels ps w = page_no levels ps v then Err NotMapped
        else pt_query levels s w)"
    "(\<nexists>a. r = Ok a) \<Longrightarrow> s' = s \<and> (\<exists>e. r = Err e \<and> pt_query levels s v = Err e)"
    "is_ok r \<longleftrightarrow> is_ok (pt_query levels s v)"
    by blast+
qed

lemma map_page_spec:
  assumes lv: "levels = 3 \<or> levels = 4" and inv: "inv levels s"
    and fl: "flags_ok ps fl" and pa: "valid_paddr (align_down pa (page_bytes ps))"
    and run: "map_page alloc_frame levels v pa ps fl s = (r, s')"
  shows "inv levels s'"
    and "r = Ok () \<Longrightarrow> pt_query levels s' w = (if page_no levels ps w = page_no levels ps v
      then Ok (align_down pa (page_bytes ps) + align_offset w (page_bytes ps), fl AND RWXU, ps)
      else pt_query levels s w)"
    and "r \<noteq> Ok () \<Longrightarrow> pt_query levels s' w = pt_query levels s w"
    and "r = Ok () \<or> r = Err NoMemory \<or> r = Err AlreadyMapped \<or>
      r = Err MappedToHugePage \<and> pt_query levels s v \<noteq> Err NotMapped"
    and "r = Ok () \<or> r = Err AlreadyMapped \<Longrightarrow> ps = Size4K \<Longrightarrow>
      r = Err AlreadyMapped \<longleftrightarrow> pt_query levels s v \<noteq> Err NotMapped"
proof -
  let ?e = "new_page (align_down pa (page_bytes ps)) fl (is_huge_size ps)"
  note sp = entry_op_spec [where refuse = "\<lambda>x. \<not> is_unused x", OF lv inv leaf_ok_new_page [OF fl]
      run [unfolded map_page_def]]
  show "inv levels s'" by (rule sp(1))
  show "r = Ok () \<Longrightarrow> pt_query levels s' w = (if page_no levels ps w = page_no levels ps v
      then Ok (align_down pa (page_bytes ps) + align_offset w (page_bytes ps), fl AND RWXU, ps)
      else pt_query levels s w)"
    using sp(2) [of w] by (simp add: pte_paddr_new_page [OF pa] pte_flags_new_page)
  show "r \<noteq> Ok () \<Longrightarrow> pt_query levels s' w = pt_query levels s w" by (rule sp(3))
  show "r = Ok () \<or> r = Err NoMemory \<or> r = Err AlreadyMapped \<or>
      r = Err MappedToHugePage \<and> pt_query levels s v \<noteq> Err NotMapped" by (rule sp(4))
  show "r = Ok () \<or> r = Err AlreadyMapped \<Longrightarrow> ps = Size4K \<Longrightarrow>
      r = Err AlreadyMapped \<longleftrightarrow> pt_query levels s v \<noteq> Err NotMapped"
    using sp(5) [of False] by simp
qed

lemma map_fault_spec:
  assumes lv: "levels = 3 \<or> levels = 4" and inv: "inv levels s"
    and run: "map_fault alloc_frame levels v Size4K fl s = (r, s')"
  shows "inv levels s'"
    and "r = Ok () \<Longrightarrow> pt_query levels s' w = (if page_no levels Size4K w = page_no levels Size4K v
      then Ok (align_offset w (page_bytes Size4K), 0, Size4K) else pt_query levels s w)"
    and "r \<noteq> Ok () \<Longrightarrow> pt_query levels s' w = pt_query levels s w"
    and "r = Ok () \<or> r = Err NoMemory \<or> r = Err AlreadyMapped \<or>
      r = Err MappedToHugePage \<and> pt_query levels s v \<noteq> Err NotMapped"
    and "r = Ok () \<or> r = Err AlreadyMapped \<Longrightarrow>
      r = Err AlreadyMapped \<longleftrightarrow> pt_query levels s v \<noteq> Err NotMapped"
proof -
  have lf: "leaf_ok Size4K e" for e by (simp add: leaf_ok_def)
  note sp = entry_op_spec [where refuse = "\<lambda>x. \<not> is_unused x", OF lv inv lf
      run [unfolded map_fault_def]]
  show "inv levels s'" by (rule sp(1))
  show "r = Ok () \<Longrightarrow> pt_query levels s' w = (if page_no levels Size4K w = page_no levels Size4K v
      then Ok (align_offset w (page_bytes Size4K), 0, Size4K) else pt_query levels s w)"
    using sp(2) [of w] by simp
  show "r \<noteq> Ok () \<Longrightarrow> pt_query levels s' w = pt_query levels s w" by (rule sp(3))
  show "r = Ok () \<or> r = Err NoMemory \<or> r = Err AlreadyMapped \<or>
      r = Err MappedToHugePage \<and> pt_query levels s v \<noteq> Err NotMapped" by (rule sp(4))
  show "r = Ok () \<or> r = Err AlreadyMapped \<Longrightarrow>
      r = Err AlreadyMapped \<longleftrightarrow> pt_query levels s v \<noteq> Err NotMapped"
    using sp(5) [of False] by simp
qed

lemma map_overwrite_spec:
  assumes lv: "levels = 3 \<or> levels = 4" and inv: "inv levels s"
    and pa: "valid_paddr (align_down pa (page_bytes Size4K))"
    and run: "map_overwrite alloc_frame levels v pa Size4K fl s = (r, s')"
  shows "inv levels s'"
    and "r = Ok () \<Longrightarrow> pt_query levels s' w = (if page_no levels Size4K w = page_no levels Size4K v
      then Ok (align_down pa (page_bytes Size4K) + align_offset w (page_bytes Size4K), fl AND RWXU, Size4K)
      else pt_query levels s w)"
    and "r \<noteq> Ok () \<Longrightarrow> pt_query levels s' w = pt_query levels s w"
    and "r = Ok () \<or> r = Err AlreadyMapped \<Longrightarrow>
      r = Err AlreadyMapped \<longleftrightarrow> pt_query levels s v = Err NotMapped"
proof -
  have lf: "leaf_ok Size4K e" for e by (simp add: leaf_ok_def)
  note sp = entry_op_spec [where refuse = is_unused, OF lv inv lf run [unfolded map_overwrite_def]]
  show "inv levels s'" by (rule sp(1))
  show "r = Ok () \<Longrightarrow> pt_query levels s' w = (if page_no levels Size4K w = page_no levels Size4K v
      then Ok (align_down pa (page_bytes Size4K) + align_offset w (page_bytes Size4K), fl AND RWXU, Size4K)
      else pt_query levels s w)"
    using sp(2) [of w] by (simp add: pte_paddr_new_page [OF pa, simplified] pte_flags_new_page)
  show "r \<noteq> Ok () \<Longrightarrow> pt_query levels s' w = pt_query levels s w" by (rule sp(3))
  show "r = Ok () \<or> r = Err AlreadyMapped \<Longrightarrow>
      r = Err AlreadyMapped \<longleftrightarrow> pt_query levels s v = Err NotMapped"
    using sp(5) [of True] by simp
qed

text \<open>
  An update of an existing mapping: the entry keeps the field that is not given. Entries
  whose frame is 0, in particular unused and fault entries, are left alone.
\<close>

lemma get_entry_mut_leaf:
  assumes lv: "levels = 3 \<or> levels = 4" and inv: "inv levels s"
    and "get_entry_mut levels s v = Ok ((t, i), ps)" and "ps \<noteq> Size4K"
  shows "is_huge (phys s t i) \<and> is_present (phys s t i)"
proof -
  obtain p where p: "descend (phys s) (root_paddr s) p = Some t" "page_path levels ps v = p @ [i]"
    using get_entry_mut_path [OF lv assms(3)] by blast
  have "is_huge (phys s t i)"
    using assms(3,4) by (auto simp: get_entry_mut_def Let_def read_entry_def split: if_splits)
  moreover have "is_unused (phys s t i) \<or> is_present (phys s t i)"
    using pt_invD(2) [OF inv] p page_path_step(2) [OF lv p(2)] assms(4) by (simp add: interior_def)
  ultimately show ?thesis using huge_not_unused by blast
qed

lemma pt_update_spec:
  assumes lv: "levels = 3 \<or> levels = 4" and inv: "inv levels s"
    and pa: "\<And>pa. npa = Some pa \<Longrightarrow> valid_paddr pa \<and> pa \<noteq> 0"
    and fl: "\<And>fl. nfl = Some fl \<Longrightarrow> flags_intersects fl (READ OR EXECUTE)"
    and ent: "get_entry_mut levels s v = Ok ((t, i), ps)" and mapped: "pte_paddr (phys s t i) \<noteq> 0"
    and run: "pt_update levels v npa nfl s = (r, s')"
  shows "r = Ok ps" and "inv levels s'"
    and "pt_query levels s' w = (if page_no levels ps w = page_no levels ps v
      then Ok (case_option (pte_paddr (phys s t i)) id npa + align_offset w (page_bytes ps),
               case_option (pte_flags (phys s t i)) (\<lambda>f. f AND RWXU) nfl, ps)
      else pt_query levels s w)"
proof -
  obtain p where p: "descend (phys s) (root_paddr s) p = Some t" "page_path levels ps v = p @ [i]"
    using get_entry_mut_path [OF lv ent] by blast
  define e1 where "e1 = (case npa of Some p \<Rightarrow> set_paddr (phys s t i) p | None \<Rightarrow> phys s t i)"
  define e2 where "e2 = (case nfl of Some f \<Rightarrow> set_flags e1 f (is_huge_size ps) | None \<Rightarrow> e1)"
  have r: "r = Ok ps" and s': "s' = write_entry (t, i) e2 s"
    using run mapped ent
    by (auto simp: pt_update_def and_then_def Let_def read_entry_def e1_def e2_def split: option.splits)
  have k1: "ps \<noteq> Size4K \<Longrightarrow> is_huge e1 \<and> is_present e1"
    using get_entry_mut_leaf [OF lv inv ent]
    by (auto simp: e1_def set_paddr_kind split: option.splits)
  then have lf: "leaf_ok ps e2"
    using fl by (auto simp: leaf_ok_def e2_def set_flags_kind flags_intersects_def split: option.splits)
  have rd: "pte_paddr e2 = case_option (pte_paddr (phys s t i)) id npa"
    "pte_flags e2 = case_option (pte_flags (phys s t i)) (\<lambda>f. f AND RWXU) nfl"
    using pa by (auto simp: e1_def e2_def pte_paddr_set_flags pte_paddr_set_paddr
        pte_flags_set_flags pte_flags_set_paddr split: option.splits)
  have "pte_paddr e2 \<noteq> 0" using rd(1) mapped pa by (cases npa) auto
  then have "\<not> is_unused e2" by (auto simp: is_unused_def)
  show "r = Ok ps" by (rule r)
  show "inv levels s'" unfolding s' by (rule write_page_spec(1) [OF lv inv p lf])
  show "pt_query levels s' w = (if page_no levels ps w = page_no levels ps v
      then Ok (case_option (pte_paddr (phys s t i)) id npa + align_offset w (page_bytes ps),
               case_option (pte_flags (phys s t i)) (\<lambda>f. f AND RWXU) nfl, ps)
      else pt_query levels s w)"
    unfolding s' write_page_spec(2) [OF lv inv p lf] rd using \<open>\<not> is_unused e2\<close> by simp
qed

end

end
