(* ===== verification/PageTableRegion.thy ===== *)
theory PageTableRegion
  imports PageTableOps
begin

text \<open>
  Mapping, unmapping and updating regions: the loops of \<open>map_region\<close>, \<open>map_fault_region\<close>,
  \<open>unmap_region\<close> and \<open>update_region\<close> treat each page of the region exactly once and nothing
  else. Distances are taken in the address space of the page table, so the statements hold
  for the low and the sign-extended high half alike.
\<close>

subsection \<open>Distances\<close>

definition region_off :: "nat \<Rightarrow> VirtAddr \<Rightarrow> VirtAddr \<Rightarrow> nat" where
  "region_off levels v w = unat (w - v) mod 2 ^ (12 + 9 * levels)"

lemma sub_mod_page:
  fixes a b n B :: int
  assumes "0 \<le> a" "a < n" "0 \<le> b" "b < n" "0 < B" "B dvd b" "B dvd n"
  shows "(a - b) mod n < B \<longleftrightarrow> a div B = b div B"
proof -
  obtain k m where k: "b = B * k" and m: "n = B * m" using assms(6,7) by (auto elim!: dvdE)
  have bd: "b div B = k" using assms(5) k by simp
  have km: "k + 1 \<le> m"
    using assms(4,5) k m by (simp add: mult_less_cancel_left)
  show ?thesis
  proof (cases "b \<le> a")
    case True
    then have "(a - b) mod n = a - b" using assms by (intro mod_pos_pos_trivial) auto
    moreover have "a div B = k + (a - b) div B"
      using assms(5) div_mult_self1 [of B "a - b" k] by (simp add: k algebra_simps)
    moreover have "(a - b) div B = 0 \<longleftrightarrow> a - b < B"
      using True assms(5) by (metis diff_ge_0_iff_ge div_pos_pos_trivial pos_imp_zdiv_pos_iff not_less less_irrefl)
    ultimately show ?thesis unfolding bd by auto
  next
    case False
    have "(a - b) mod n = (a - b + n) mod n" by simp
    also have "\<dots> = a - b + n" using False assms by (intro mod_pos_pos_trivial) auto
    finally have "(a - b) mod n = a - b + n" .
    moreover have "B * (k + 1) \<le> B * m" using km assms(5) by (intro mult_left_mono) auto
    then have "b + B \<le> n" by (simp add: k m algebra_simps)
    moreover have "a div B < k"
    proof (rule ccontr)
      assume "\<not> a div B < k"
      then have "B * k \<le> B * (a div B)" using assms(5) by (intro mult_left_mono) auto
      then show False
        using mult_div_mod_eq [of B a] pos_mod_sign [of B a] assms(5) False k by linarith
    qed
    ultimately show ?thesis using assms(1) unfolding bd by auto
  qed
qed


lemma region_off_int:
  assumes "levels = 3 \<or> levels = 4"
  shows "int (region_off levels v w) = (int (unat w) - int (unat v)) mod 2 ^ (12 + 9 * levels)"
proof -
  have d: "(2 :: int) ^ (12 + 9 * levels) dvd 2 ^ 64"
    using assms by (intro le_imp_power_dvd) auto
  have "int (unat (w - v)) = (int (unat w) - int (unat v)) mod 2 ^ 64"
    by (simp add: uint_word_ariths)
  then show ?thesis
    by (simp only: region_off_def of_nat_mod of_nat_power of_nat_numeral mod_mod_cancel [OF d])
qed

lemma page_no_int:
  "int (page_no levels ps v) = int (unat v) mod 2 ^ (12 + 9 * levels) div 2 ^ page_bits ps"
  by (simp add: page_no_def zmod_int zdiv_int)

lemma page_bits_le: "page_bits ps \<le> 12 + 9 * levels" if "levels = 3 \<or> levels = 4"
  using that by (cases ps) auto

lemma same_page_iff:
  assumes lv: "levels = 3 \<or> levels = 4" and al: "2 ^ page_bits ps dvd unat v"
  shows "page_no levels ps w = page_no levels ps v \<longleftrightarrow> region_off levels v w < 2 ^ page_bits ps"
proof -
  let ?N = "(2 :: int) ^ (12 + 9 * levels)" and ?B = "(2 :: int) ^ page_bits ps"
  have BN: "?B dvd ?N" using page_bits_le [OF lv] by (rule le_imp_power_dvd)
  have Bv: "?B dvd int (unat v)" using al by (metis of_nat_dvd_iff of_nat_numeral of_nat_power)
  have "(int (unat w) mod ?N - int (unat v) mod ?N) mod ?N < ?B \<longleftrightarrow>
      int (unat w) mod ?N div ?B = int (unat v) mod ?N div ?B"
    by (rule sub_mod_page) (use BN Bv in \<open>auto intro: dvd_mod\<close>)
  then have "int (region_off levels v w) < ?B \<longleftrightarrow> int (page_no levels ps w) = int (page_no levels ps v)"
    by (simp only: region_off_int [OF lv] page_no_int mod_diff_eq)
  then have "int (region_off levels v w) < int (2 ^ page_bits ps) \<longleftrightarrow>
      int (page_no levels ps w) = int (page_no levels ps v)"
    by (simp only: of_nat_power of_nat_numeral)
  then show ?thesis by (simp only: of_nat_eq_iff of_nat_less_iff)
qed

lemma region_off_align:
  assumes lv: "levels = 3 \<or> levels = 4" and al: "2 ^ page_bits ps dvd unat v"
    and "region_off levels v w < 2 ^ page_bits ps"
  shows "unat (align_offset w (page_bytes ps)) = region_off levels v w"
proof -
  let ?N = "(2 :: int) ^ (12 + 9 * levels)" and ?B = "(2 :: int) ^ page_bits ps"
  have BN: "?B dvd ?N" using page_bits_le [OF lv] by (rule le_imp_power_dvd)
  obtain k where k: "int (unat v) = ?B * k"
    using al by (metis dvdE of_nat_mult of_nat_numeral of_nat_power)
  have "int (region_off levels v w) mod ?B = (int (unat w) - int (unat v)) mod ?B"
    by (simp only: region_off_int [OF lv] mod_mod_cancel [OF BN])
  also have "\<dots> = int (unat w) mod ?B"
    unfolding k using mod_diff_right_eq [of "int (unat w)" "?B * k" ?B] by simp
  finally have "int (region_off levels v w mod 2 ^ page_bits ps) = int (unat w mod 2 ^ page_bits ps)"
    by (simp only: of_nat_mod of_nat_power of_nat_numeral)
  then have "region_off levels v w mod 2 ^ page_bits ps = unat w mod 2 ^ page_bits ps"
    by (simp only: of_nat_eq_iff)
  then show ?thesis
    using assms(3) by (simp add: page_bytes_pow2 unat_align_offset)
qed

lemma region_off_step:
  assumes lv: "levels = 3 \<or> levels = 4" and "b \<le> region_off levels v w" and "b < 2 ^ 64"
  shows "region_off levels (v + of_nat b) w = region_off levels v w - b"
proof -
  let ?N = "(2 :: int) ^ (12 + 9 * levels)"
  have d: "?N dvd 2 ^ 64" using lv by (intro le_imp_power_dvd) auto
  have u: "int (unat (v + of_nat b)) = (int (unat v) + int b) mod 2 ^ 64"
    using assms(3) by (simp add: uint_word_ariths unsigned_of_nat take_bit_eq_mod)
  have "int (region_off levels (v + of_nat b) w) = (int (unat w) - (int (unat v) + int b)) mod ?N"
    unfolding region_off_int [OF lv] u by (metis mod_diff_right_eq mod_mod_cancel [OF d])
  also have "\<dots> = (int (region_off levels v w) - int b) mod ?N"
    unfolding region_off_int [OF lv] by (simp add: mod_diff_left_eq diff_diff_eq)
  also have "\<dots> = int (region_off levels v w) - int b"
  proof (rule mod_pos_pos_trivial)
    have "region_off levels v w < 2 ^ (12 + 9 * levels)" by (simp add: region_off_def)
    then have "int (region_off levels v w) < ?N" by (metis of_nat_less_iff of_nat_numeral of_nat_power)
    then show "int (region_off levels v w) - int b < ?N" by linarith
  qed (use assms(2) in simp)
  finally show ?thesis using assms(2) by linarith
qed

lemma region_off_before:
  assumes lv: "levels = 3 \<or> levels = 4" and "region_off levels v w < b" and "b \<le> 2 ^ (12 + 9 * levels)"
  shows "region_off levels (v + of_nat b) w = region_off levels v w + 2 ^ (12 + 9 * levels) - b"
proof -
  let ?N = "(2 :: int) ^ (12 + 9 * levels)"
  have d: "?N dvd 2 ^ 64" using lv by (intro le_imp_power_dvd) auto
  have "(2 :: nat) ^ (12 + 9 * levels) < 2 ^ 64" using lv by (intro power_strict_increasing) auto
  then have u: "int (unat (v + of_nat b)) = (int (unat v) + int b) mod 2 ^ 64"
    using assms(3) by (simp add: uint_word_ariths unsigned_of_nat take_bit_eq_mod)
  have "int (region_off levels (v + of_nat b) w) = (int (unat w) - (int (unat v) + int b)) mod ?N"
    unfolding region_off_int [OF lv] u by (metis mod_diff_right_eq mod_mod_cancel [OF d])
  also have "\<dots> = (int (region_off levels v w) - int b + ?N) mod ?N"
    unfolding region_off_int [OF lv] by (simp add: mod_diff_left_eq diff_diff_eq)
  also have "\<dots> = int (region_off levels v w) - int b + ?N"
  proof (rule mod_pos_pos_trivial)
    have "int b \<le> ?N" using assms(3) by (metis of_nat_le_iff of_nat_numeral of_nat_power)
    then show "0 \<le> int (region_off levels v w) - int b + ?N" by linarith
  qed (use assms(2) in simp)
  finally have "int (region_off levels (v + of_nat b) w) = int (region_off levels v w + 2 ^ (12 + 9 * levels)) - int b"
    by simp
  then show ?thesis by linarith
qed


subsection \<open>The page size chosen for the next step\<close>

lemma aligned_page_iff: "is_aligned a (page_bytes ps) \<longleftrightarrow> 2 ^ page_bits ps dvd unat a"
  by (simp add: page_bytes_pow2 is_aligned_iff_dvd)

lemma aligned_page_4k: "is_aligned a (page_bytes ps) \<Longrightarrow> is_aligned a (page_bytes Size4K)"
proof -
  have "(2 :: nat) ^ page_bits Size4K dvd 2 ^ page_bits ps"
    by (intro le_imp_power_dvd) (cases ps; simp)
  then show "is_aligned a (page_bytes ps) \<Longrightarrow> is_aligned a (page_bytes Size4K)"
    unfolding aligned_page_iff by (rule dvd_trans)
qed

lemma aligned_ge_page:
  "is_aligned sz (page_bytes Size4K) \<Longrightarrow> 0 < sz \<Longrightarrow> page_bytes Size4K \<le> sz"
  unfolding aligned_page_iff word_le_nat_alt unat_page_bytes
  by (intro dvd_imp_le) (auto simp: word_less_nat_alt)

lemma region_page_size_cases:
  assumes "is_aligned vaddr (page_bytes Size4K)" and "is_aligned paddr (page_bytes Size4K)"
    and "is_aligned sz (page_bytes Size4K)" and "0 < sz"
  shows "is_aligned vaddr (page_bytes (region_page_size h vaddr paddr sz)) \<and>
    is_aligned paddr (page_bytes (region_page_size h vaddr paddr sz)) \<and>
    page_bytes (region_page_size h vaddr paddr sz) \<le> sz \<and>
    (\<not> h \<longrightarrow> region_page_size h vaddr paddr sz = Size4K)"
  using assms aligned_ge_page [OF assms(3,4)]
  unfolding region_page_size_def by (simp split: if_split del: page_bytes.simps)

lemma align_down_aligned: "is_aligned a (page_bytes ps) \<Longrightarrow> align_down a (page_bytes ps) = a"
  unfolding page_bytes_pow2 is_aligned_iff_dvd
  by (rule usize_eqI) (simp add: unat_align_down)

lemma aligned_add:
  assumes "is_aligned a (page_bytes Size4K)" and "is_aligned b (page_bytes Size4K)"
  shows "is_aligned (a + b) (page_bytes Size4K)"
proof -
  have "(4096 :: nat) dvd 2 ^ 64" using le_imp_power_dvd [of 12 64 "2 :: nat"] by simp
  then show ?thesis
    using assms unfolding aligned_page_iff unat_word_ariths by (simp add: dvd_mod)
qed

lemma aligned_sub:
  assumes "is_aligned a (page_bytes Size4K)" and "is_aligned b (page_bytes Size4K)" and "b \<le> a"
  shows "is_aligned (a - b) (page_bytes Size4K)"
  using assms unfolding aligned_page_iff by (simp add: unat_sub word_le_nat_alt)

lemma aligned_page_bytes: "is_aligned (page_bytes ps) (page_bytes Size4K)"
  unfolding aligned_page_iff by (cases ps) simp_all

lemma page_bytes_of_nat: "page_bytes ps = of_nat (2 ^ page_bits ps)"
  by (cases ps) simp_all


subsection \<open>Regions of the mapping\<close>

type_synonym translation = "(PhysAddr \<times> MappingFlags \<times> PageSize, PagingError) result"

definition region_all ::
  "nat \<Rightarrow> 'f PageTable64 \<Rightarrow> VirtAddr \<Rightarrow> usize \<Rightarrow> (nat \<Rightarrow> translation \<Rightarrow> bool) \<Rightarrow> bool" where
  "region_all levels s v sz Q \<longleftrightarrow> (\<forall>w. region_off levels v w < unat sz \<longrightarrow>
     Q (region_off levels v w) (pt_query levels s w))"

text \<open>The translation of the byte at distance \<open>d\<close> of a region mapped linearly from \<open>pa\<close>.\<close>

definition linear_to :: "PhysAddr \<Rightarrow> MappingFlags \<Rightarrow> nat \<Rightarrow> translation \<Rightarrow> bool" where
  "linear_to pa fl d q \<longleftrightarrow> (\<exists>ps. q = Ok (pa + of_nat d, fl AND RWXU, ps))"

definition same_outside ::
  "nat \<Rightarrow> VirtAddr \<Rightarrow> usize \<Rightarrow> 'f PageTable64 \<Rightarrow> 'f PageTable64 \<Rightarrow> bool" where
  "same_outside levels v sz s s' \<longleftrightarrow> (\<forall>w. unat sz \<le> region_off levels v w \<longrightarrow>
     pt_query levels s' w = pt_query levels s w)"

lemma off_after_page:
  assumes lv: "levels = 3 \<or> levels = 4" and "unat sz \<le> 2 ^ (12 + 9 * levels)" and "page_bytes ps \<le> sz"
  shows "region_off levels v w < unat (page_bytes ps) \<Longrightarrow>
      unat (sz - page_bytes ps) \<le> region_off levels (v + page_bytes ps) w"
    and "unat (page_bytes ps) \<le> region_off levels v w \<Longrightarrow>
      region_off levels (v + page_bytes ps) w = region_off levels v w - unat (page_bytes ps)"
    and "unat (sz - page_bytes ps) = unat sz - unat (page_bytes ps)"
proof -
  show sub: "unat (sz - page_bytes ps) = unat sz - unat (page_bytes ps)"
    using assms(3) by (simp add: unat_sub word_le_nat_alt)
  have le: "(2 :: nat) ^ page_bits ps \<le> 2 ^ (12 + 9 * levels)"
    using page_bits_le [OF lv] by (intro power_increasing) auto
  have lt: "(2 :: nat) ^ page_bits ps < 2 ^ 64"
    by (intro power_strict_increasing) (cases ps; simp)+
  show "region_off levels v w < unat (page_bytes ps) \<Longrightarrow>
      unat (sz - page_bytes ps) \<le> region_off levels (v + page_bytes ps) w"
    unfolding sub using region_off_before [OF lv _ le, of v w, folded page_bytes_of_nat] assms(2)
    by (simp add: unat_page_bytes)
  show "unat (page_bytes ps) \<le> region_off levels v w \<Longrightarrow>
      region_off levels (v + page_bytes ps) w = region_off levels v w - unat (page_bytes ps)"
    using region_off_step [OF lv _ lt, of v w, folded page_bytes_of_nat] by (simp add: unat_page_bytes)
qed

lemma page_off_word:
  assumes "levels = 3 \<or> levels = 4" and "is_aligned v (page_bytes ps)"
    and "region_off levels v w < unat (page_bytes ps)"
  shows "align_offset w (page_bytes ps) = of_nat (region_off levels v w)"
    and "page_no levels ps w = page_no levels ps v"
proof -
  have al: "2 ^ page_bits ps dvd unat v" using assms(2) by (simp add: aligned_page_iff)
  have u: "unat (align_offset w (page_bytes ps)) = region_off levels v w"
    using region_off_align [OF assms(1) al] assms(3) by (simp add: unat_page_bytes)
  show "align_offset w (page_bytes ps) = of_nat (region_off levels v w)"
    unfolding u [symmetric] by simp
  show "page_no levels ps w = page_no levels ps v"
    using same_page_iff [OF assms(1) al] assms(3) by (simp add: unat_page_bytes)
qed

lemma page_off_outside:
  assumes "levels = 3 \<or> levels = 4" and "is_aligned v (page_bytes ps)"
    and "unat (page_bytes ps) \<le> region_off levels v w"
  shows "page_no levels ps w \<noteq> page_no levels ps v"
  using same_page_iff [OF assms(1), of ps v w] assms(2,3) by (simp add: aligned_page_iff unat_page_bytes)

lemma same_outside_step:
  assumes lv: "levels = 3 \<or> levels = 4" and sz: "unat sz \<le> 2 ^ (12 + 9 * levels)"
    and ps: "is_aligned v (page_bytes ps)" "page_bytes ps \<le> sz"
    and page: "\<And>w. page_no levels ps w \<noteq> page_no levels ps v \<Longrightarrow> pt_query levels s1 w = pt_query levels s w"
    and rest: "same_outside levels (v + page_bytes ps) (sz - page_bytes ps) s1 s'"
  shows "same_outside levels v sz s s'"
  unfolding same_outside_def
proof (intro allI impI)
  fix w assume w: "unat sz \<le> region_off levels v w"
  note off = off_after_page [OF lv sz ps(2)]
  have B: "unat (page_bytes ps) \<le> region_off levels v w"
    using ps(2) w by (simp add: word_le_nat_alt)
  then have "pt_query levels s' w = pt_query levels s1 w"
    using rest w off(2) [OF B] off(3) by (simp add: same_outside_def diff_le_mono)
  then show "pt_query levels s' w = pt_query levels s w"
    using page page_off_outside [OF lv ps(1) B] by simp
qed

lemma region_all_step:
  assumes lv: "levels = 3 \<or> levels = 4" and sz: "unat sz \<le> 2 ^ (12 + 9 * levels)"
    and ps: "is_aligned v (page_bytes ps)" "page_bytes ps \<le> sz"
    and page: "\<And>w d. page_no levels ps w = page_no levels ps v \<Longrightarrow>
      align_offset w (page_bytes ps) = of_nat d \<Longrightarrow> Q d (pt_query levels s1 w)"
    and out: "same_outside levels (v + page_bytes ps) (sz - page_bytes ps) s1 s'"
    and rest: "region_all levels s' (v + page_bytes ps) (sz - page_bytes ps)
      (\<lambda>d. Q (unat (page_bytes ps) + d))"
  shows "region_all levels s' v sz Q"
  unfolding region_all_def
proof (intro allI impI)
  fix w assume w: "region_off levels v w < unat sz"
  note off = off_after_page [OF lv sz ps(2)]
  show "Q (region_off levels v w) (pt_query levels s' w)"
  proof (cases "region_off levels v w < unat (page_bytes ps)")
    case B: True
    then have "pt_query levels s' w = pt_query levels s1 w"
      using out off(1) [OF B] by (simp add: same_outside_def)
    then show ?thesis
      using page [of w "region_off levels v w"] page_off_word [OF lv ps(1) B] by simp
  next
    case False
    then have B: "unat (page_bytes ps) \<le> region_off levels v w" by simp
    then have "region_off levels (v + page_bytes ps) w < unat (sz - page_bytes ps)"
      using off(2,3) w by simp
    then have "Q (unat (page_bytes ps) + region_off levels (v + page_bytes ps) w) (pt_query levels s' w)"
      using rest by (simp add: region_all_def)
    then show ?thesis using B by (simp add: off(2) [OF B])
  qed
qed

lemma linear_to_shift:
  "linear_to (pa + page_bytes ps) fl = (\<lambda>d. linear_to pa fl (unat (page_bytes ps) + d))"
  by (simp add: linear_to_def add.assoc fun_eq_iff)

lemma linear_toI: "linear_to pa fl d (Ok (pa + of_nat d, fl AND RWXU, ps))"
  by (simp add: linear_to_def)

lemma fuel_step:
  assumes "page_bytes ps \<le> sz" and "unat sz div 4096 < Suc fuel"
  shows "unat (sz - page_bytes ps) div 4096 < fuel"
proof -
  have "4096 \<le> unat (page_bytes ps)" by (cases ps) simp_all
  moreover have "unat (sz - page_bytes ps) = unat sz - unat (page_bytes ps)"
    using assms(1) by (simp add: unat_sub word_le_nat_alt)
  ultimately show ?thesis
    using assms by (simp add: word_le_nat_alt)
qed

context paging_if
begin

lemma map_region_loop_spec:
  assumes lv: "levels = 3 \<or> levels = 4" and "inv levels s"
    and "is_aligned v (page_bytes Size4K)" and "is_aligned pa (page_bytes Size4K)"
    and "is_aligned sz (page_bytes Size4K)" and "unat sz \<le> 2 ^ (12 + 9 * levels)"
    and "unat pa + unat sz \<le> 2 ^ 56" and fl: "h \<Longrightarrow> flags_intersects fl (READ OR EXECUTE)"
    and "unat sz div 4096 < fuel"
    and "map_region_loop fuel alloc_frame levels v pa sz fl h s = (r, s')"
  shows "inv levels s' \<and> same_outside levels v sz s s' \<and>
    (r = Ok () \<longrightarrow> region_all levels s' v sz (linear_to pa fl)) \<and>
    (r = Ok () \<or> r = Err NoMemory \<or> r = Err AlreadyMapped \<or> r = Err MappedToHugePage)"
  using assms(2-7,9,10)
proof (induction fuel arbitrary: v pa sz s)
  case (Suc fuel)
  show ?case
  proof (cases "0 < sz")
    case False
    then show ?thesis using Suc.prems by (auto simp: same_outside_def region_all_def word_less_nat_alt)
  next
    case True
    define ps where "ps = region_page_size h v pa sz"
    have psz: "is_aligned v (page_bytes ps)" "is_aligned pa (page_bytes ps)" "page_bytes ps \<le> sz"
      "\<not> h \<longrightarrow> ps = Size4K"
      using region_page_size_cases [OF Suc.prems(2-4) True, of h] by (simp_all add: ps_def)
    obtain r1 s1 where m: "map_page alloc_frame levels v pa ps fl s = (r1, s1)" by fastforce
    have ad: "align_down pa (page_bytes ps) = pa" by (rule align_down_aligned [OF psz(2)])
    have "valid_paddr (align_down pa (page_bytes ps))"
      unfolding ad valid_paddr_def is_aligned_4k_iff
      using Suc.prems(3,6) True aligned_page_iff [of pa Size4K] by (auto simp: word_less_nat_alt)
    moreover have "flags_ok ps fl" using psz(4) fl by (auto simp: flags_ok_def)
    ultimately have sp: "inv levels s1"
      "r1 = Ok () \<Longrightarrow> pt_query levels s1 w = (if page_no levels ps w = page_no levels ps v
        then Ok (pa + align_offset w (page_bytes ps), fl AND RWXU, ps) else pt_query levels s w)"
      "r1 \<noteq> Ok () \<Longrightarrow> pt_query levels s1 w = pt_query levels s w"
      "r1 = Ok () \<or> r1 = Err NoMemory \<or> r1 = Err AlreadyMapped \<or> r1 = Err MappedToHugePage" for w
      using map_page_spec [OF lv Suc.prems(1) _ _ m] by (auto simp: ad)
    show ?thesis
    proof (cases "r1 = Ok ()")
      case False
      then have "r = r1" "s' = s1"
        using Suc.prems(8) True m sp(4) by (auto simp: and_then_def Let_def ps_def [symmetric])
      then show ?thesis using sp False by (auto simp: same_outside_def)
    next
      case r1: True
      have run: "map_region_loop fuel alloc_frame levels (v + page_bytes ps) (pa + page_bytes ps)
          (sz - page_bytes ps) fl h s1 = (r, s')"
        using Suc.prems(8) True m r1 by (simp add: and_then_def Let_def ps_def [symmetric])
      have "unat (pa + page_bytes ps) = unat pa + unat (page_bytes ps)"
        using psz(3) Suc.prems(6) by (intro unat_add_no_overflow) (simp add: word_le_nat_alt)
      then have IH: "inv levels s' \<and> same_outside levels (v + page_bytes ps) (sz - page_bytes ps) s1 s' \<and>
          (r = Ok () \<longrightarrow> region_all levels s' (v + page_bytes ps) (sz - page_bytes ps)
             (linear_to (pa + page_bytes ps) fl)) \<and>
          (r = Ok () \<or> r = Err NoMemory \<or> r = Err AlreadyMapped \<or> r = Err MappedToHugePage)"
        using Suc.prems psz(3) off_after_page(3) [OF lv Suc.prems(5) psz(3)]
        by (intro Suc.IH [OF sp(1) aligned_add [OF Suc.prems(2) aligned_page_bytes]
              aligned_add [OF Suc.prems(3) aligned_page_bytes]
              aligned_sub [OF Suc.prems(4) aligned_page_bytes psz(3)] _ _
              fuel_step [OF psz(3) Suc.prems(7)] run])
          (auto simp: word_le_nat_alt)
      show ?thesis
        using IH same_outside_step [OF lv Suc.prems(5) psz(1,3), of s1 s s'] sp(2) [OF r1]
          region_all_step [OF lv Suc.prems(5) psz(1,3), of "linear_to pa fl" s1 s']
        by (auto simp: linear_to_shift linear_toI)
    qed
  qed
qed simp

lemma map_region_spec:
  assumes lv: "levels = 3 \<or> levels = 4" and inv: "inv levels s"
    and "unat sz \<le> 2 ^ (12 + 9 * levels)" and "unat pa + unat sz \<le> 2 ^ 56"
    and "h \<Longrightarrow> flags_intersects fl (READ OR EXECUTE)"
    and run: "map_region alloc_frame levels v pa sz fl h s = (r, s')"
  shows "inv levels s' \<and> same_outside levels v sz s s' \<and>
    (r = Ok () \<longrightarrow> region_all levels s' v sz (linear_to pa fl)) \<and>
    (r = Ok () \<or> r = Err NotAligned \<or> r = Err NoMemory \<or> r = Err AlreadyMapped \<or> r = Err MappedToHugePage)"
proof (cases "is_aligned v (page_bytes Size4K) \<and> is_aligned pa (page_bytes Size4K) \<and>
    is_aligned sz (page_bytes Size4K)")
  case True
  then show ?thesis
    using map_region_loop_spec [OF lv inv _ _ _ assms(3-5),
        where fuel = "region_fuel sz" and v = v and r = r and s' = s'] run
    by (auto simp: map_region_def region_fuel_def simp del: page_bytes.simps)
next
  case False
  then show ?thesis
    using run inv by (auto simp: map_region_def same_outside_def)
qed

lemma map_fault_region_loop_spec:
  assumes lv: "levels = 3 \<or> levels = 4" and "inv levels s"
    and "is_aligned v (page_bytes Size4K)" and "is_aligned sz (page_bytes Size4K)"
    and "unat sz \<le> 2 ^ (12 + 9 * levels)" and "unat sz div 4096 < fuel"
    and "map_fault_region_loop fuel alloc_frame levels v sz fl s = (r, s')"
  shows "inv levels s' \<and> same_outside levels v sz s s' \<and>
    (r = Ok () \<longrightarrow> region_all levels s' v sz (\<lambda>_ q. is_ok q)) \<and>
    (r = Ok () \<or> r = Err NoMemory \<or> r = Err AlreadyMapped \<or> r = Err MappedToHugePage)"
  using assms(2-7)
proof (induction fuel arbitrary: v sz s)
  case (Suc fuel)
  show ?case
  proof (cases "0 < sz")
    case False
    then show ?thesis using Suc.prems by (auto simp: same_outside_def region_all_def word_less_nat_alt)
  next
    case True
    note le = aligned_ge_page [OF Suc.prems(3) True]
    obtain r1 s1 where m: "map_fault alloc_frame levels v Size4K fl s = (r1, s1)" by fastforce
    note sp = map_fault_spec [OF lv Suc.prems(1) m]
    show ?thesis
    proof (cases "r1 = Ok ()")
      case False
      then have "r = r1" "s' = s1"
        using Suc.prems(6) True m sp(4) by (auto simp: and_then_def)
      then show ?thesis using sp False by (auto simp: same_outside_def)
    next
      case r1: True
      have run: "map_fault_region_loop fuel alloc_frame levels (v + page_bytes Size4K)
          (sz - page_bytes Size4K) fl s1 = (r, s')"
        using Suc.prems(6) True m r1 by (simp add: and_then_def)
      have IH: "inv levels s' \<and> same_outside levels (v + page_bytes Size4K) (sz - page_bytes Size4K) s1 s' \<and>
          (r = Ok () \<longrightarrow> region_all levels s' (v + page_bytes Size4K) (sz - page_bytes Size4K) (\<lambda>_ q. is_ok q)) \<and>
          (r = Ok () \<or> r = Err NoMemory \<or> r = Err AlreadyMapped \<or> r = Err MappedToHugePage)"
        using Suc.prems(4) off_after_page(3) [OF lv Suc.prems(4) le]
        by (intro Suc.IH [OF sp(1) aligned_add [OF Suc.prems(2) aligned_page_bytes]
              aligned_sub [OF Suc.prems(3) aligned_page_bytes le] _ fuel_step [OF le Suc.prems(5)] run])
          auto
      show ?thesis
        using IH same_outside_step [OF lv Suc.prems(4,2) le, of s1 s s'] sp(2) [OF r1]
          region_all_step [OF lv Suc.prems(4,2) le, of "\<lambda>_ q. is_ok q" s1 s'] by auto
    qed
  qed
qed simp

lemma unmap_region_spec:
  assumes lv: "levels = 3 \<or> levels = 4" and "inv levels s"
    and "unat sz \<le> 2 ^ (12 + 9 * levels)" and "unmap_region levels v sz s = (r, s')"
  shows "inv levels s' \<and> (r = Ok () \<longrightarrow>
    same_outside levels v sz s s' \<and> region_all levels s' v sz (\<lambda>_ q. q = Err NotMapped))"
  using assms(2-)
proof (induction "unat sz" arbitrary: v sz s rule: less_induct)
  case less
  show ?case
  proof (cases "0 < sz")
    case False
    then show ?thesis
      using less.prems by (auto simp: unmap_region.simps [of levels v sz] same_outside_def region_all_def word_less_nat_alt)
  next
    case True
    obtain r1 s1 where u: "unmap levels v s = (r1, s1)" by fastforce
    note sp = unmap_spec [OF lv less.prems(1) u]
    note run = less.prems(3) [unfolded unmap_region.simps [of levels v sz] u]
    show ?thesis
    proof (cases "\<exists>pa ps. r1 = Ok (pa, ps) \<and> is_aligned v (page_bytes ps) \<and> page_bytes ps \<le> sz")
      case False
      then show ?thesis
        using run sp(1) True by (cases r1) (auto split: prod.splits if_splits)
    next
      case step: True
      then obtain pa ps where ps: "r1 = Ok (pa, ps)" "is_aligned v (page_bytes ps)" "page_bytes ps \<le> sz"
        by blast
      note q = conjunct2 [OF sp(2) [OF ps(1)]]
      have run': "unmap_region levels (v + page_bytes ps) (sz - page_bytes ps) s1 = (r, s')"
        using run True ps by simp
      have IH: "inv levels s' \<and> (r = Ok () \<longrightarrow>
          same_outside levels (v + page_bytes ps) (sz - page_bytes ps) s1 s' \<and>
          region_all levels s' (v + page_bytes ps) (sz - page_bytes ps) (\<lambda>_ q. q = Err NotMapped))"
        using less.prems(2) off_after_page(3) [OF lv less.prems(2) ps(3)]
        by (intro less.hyps [OF unat_diff_page_bytes [OF ps(3)] sp(1) _ run']) simp
      then show ?thesis
        using same_outside_step [OF lv less.prems(2) ps(2,3), of s1 s s'] q
          region_all_step [OF lv less.prems(2) ps(2,3), of "\<lambda>_ q. q = Err NotMapped" s1 s'] by auto
    qed
  qed
qed

lemma unmap_region_total:
  assumes lv: "levels = 3 \<or> levels = 4" and "inv levels s"
    and "unat sz \<le> 2 ^ (12 + 9 * levels)"
    and "is_aligned v (page_bytes Size4K)" and "is_aligned sz (page_bytes Size4K)"
    and "region_all levels s v sz (\<lambda>_ q. \<exists>pa fl. q = Ok (pa, fl, Size4K))"
  shows "\<exists>s'. unmap_region levels v sz s = (Ok (), s')"
  using assms(2-)
proof (induction "unat sz" arbitrary: v sz s rule: less_induct)
  case less
  show ?case
  proof (cases "0 < sz")
    case False
    then show ?thesis by (simp add: unmap_region.simps [of levels v sz])
  next
    case True
    note le = aligned_ge_page [OF less.prems(4) True] and off = off_after_page [OF lv less.prems(2)]
    obtain r1 s1 where u: "unmap levels v s = (r1, s1)" by fastforce
    note sp = unmap_spec [OF lv less.prems(1) u]
    have "region_off levels v v < unat sz" using True by (simp add: region_off_def word_less_nat_alt)
    then obtain pa fl where q: "pt_query levels s v = Ok (pa, fl, Size4K)"
      using less.prems(5) by (auto simp: region_all_def)
    then obtain pa' ps where r1: "r1 = Ok (pa', ps)" using sp(4) by (cases r1) auto
    then have [simp]: "ps = Size4K" using conjunct1 [OF sp(2) [OF r1]] q by auto
    have "region_all levels s1 (v + page_bytes Size4K) (sz - page_bytes Size4K)
        (\<lambda>_ q. \<exists>pa fl. q = Ok (pa, fl, Size4K))"
      unfolding region_all_def
    proof (intro allI impI)
      fix w assume w: "region_off levels (v + page_bytes Size4K) w < unat (sz - page_bytes Size4K)"
      then have B: "unat (page_bytes Size4K) \<le> region_off levels v w"
        using off(1) [OF le, of v w] by linarith
      then have "region_off levels v w < unat sz" using w off(2,3) [OF le] by simp
      then show "\<exists>pa fl. pt_query levels s1 w = Ok (pa, fl, Size4K)"
        using less.prems(5) page_off_outside [OF lv less.prems(3) B] conjunct2 [OF sp(2) [OF r1], of w]
        by (auto simp: region_all_def)
    qed
    then have "\<exists>s'. unmap_region levels (v + page_bytes Size4K) (sz - page_bytes Size4K) s1 = (Ok (), s')"
      using less.prems(2) off(3) [OF le]
      by (intro less.hyps [OF unat_diff_page_bytes [OF le] sp(1)])
        (auto intro: aligned_add aligned_sub aligned_page_bytes less.prems le simp del: page_bytes.simps)
    then show ?thesis
      using True u r1 less.prems(3) le by (simp add: unmap_region.simps [of levels v sz] del: page_bytes.simps)
  qed
qed

end

end
