(* ===== verification/PageTableCorrect.thy ===== *)
theory PageTableCorrect
  imports PageTableRegion
begin

text \<open>
  Life cycle of a page table, the properties of \<open>PageTable64\<close> as statements over an arbitrary
  frame allocator that keeps the contract \<open>paging_if\<close>, and a small allocator, a stack of free
  frames, on which they are evaluated.
\<close>

subsection \<open>Creation and destruction\<close>

lemma descend_empty:
  "(\<And>i. m r i = 0) \<Longrightarrow> descend m r p = (if p = [] then Some r else None)"
  by (cases p) (simp_all add: is_table_def)

lemma look_empty: "st \<noteq> [] \<Longrightarrow> (\<And>i. m r i = 0) \<Longrightarrow> look m r st = Err NotMapped"
  by (cases st) (auto intro!: look_unused)

context paging_if
begin

lemma try_new_spec:
  assumes lv: "levels = 3 \<or> levels = 4" and ok: "frames_ok f" and run: "try_new alloc_frame m f = (r, f')"
  shows "r = Err NoMemory \<and> allocated f' = allocated f \<or>
    (\<exists>s. r = Ok s \<and> frames s = f' \<and> inv levels s \<and> (\<forall>v. pt_query levels s v = Err NotMapped) \<and>
       allocated f' = insert (root_paddr s) (allocated f))"
proof (cases "alloc_frame f")
  case (Pair fo g)
  show ?thesis
  proof (cases fo)
    case None
    then show ?thesis
      using run Pair alloc_frame_None [OF ok] by (auto simp: try_new_def alloc_table_def)
  next
    case (Some p)
    note A = alloc_frame_Some [OF ok] Pair Some
    define s where "s = \<lparr>root_paddr = p, intrm_tables = [p], phys = m(p := (\<lambda>_. 0)), frames = g\<rparr>"
    have r: "r = Ok s" "f' = g"
      using run Pair Some by (auto simp: try_new_def alloc_table_def s_def)
    have z: "\<And>i. phys s (root_paddr s) i = 0" by (simp add: s_def)
    have d: "descend (phys s) (root_paddr s) q = (if q = [] then Some (root_paddr s) else None)" for q
      by (rule descend_empty) (rule z)
    have "inv levels s"
      using A z by (auto simp: pt_inv_def tree_def interior_def tables_def d split: if_splits)
        (simp_all add: s_def)
    moreover have "walk_steps levels v \<noteq> []" for v by (simp add: walk_steps_def)
    then have "pt_query levels s v = Err NotMapped" for v
      by (simp add: pt_query_look [OF lv] look_empty z)
    ultimately show ?thesis using r A by (auto simp: s_def)
  qed
qed

lemma dealloc_all:
  "frames_ok f \<Longrightarrow> distinct ps \<Longrightarrow> set ps \<subseteq> allocated f \<Longrightarrow>
     frames_ok (fold dealloc_frame ps f) \<and> allocated (fold dealloc_frame ps f) = allocated f - set ps"
proof (induction ps arbitrary: f)
  case (Cons p ps)
  have "frames_ok (dealloc_frame p f)" "allocated (dealloc_frame p f) = allocated f - {p}"
    using dealloc_frame [of f p] Cons.prems by auto
  moreover have "frames_ok (fold dealloc_frame ps (dealloc_frame p f)) \<and>
      allocated (fold dealloc_frame ps (dealloc_frame p f)) = allocated f - {p} - set ps"
    using Cons.IH [of "dealloc_frame p f"] Cons.prems calculation by auto
  ultimately show ?case by auto
qed simp

lemma drop_table_spec:
  assumes "inv levels s"
  shows "frames_ok (drop_table dealloc_frame s)"
    and "allocated (drop_table dealloc_frame s) = allocated (frames s) - set (intrm_tables s)"
  using dealloc_all [of "frames s" "intrm_tables s"] pt_invD [OF assms]
  by (simp_all add: drop_table_def)

end

subsection \<open>A stack of free frames\<close>

type_synonym frame_stack = "PhysAddr list \<times> PhysAddr list"

fun stack_alloc :: "frame_stack \<Rightarrow> PhysAddr option \<times> frame_stack" where
  "stack_alloc ([], used) = (None, [], used)"
| "stack_alloc (p # free, used) = (Some p, free, p # used)"

fun stack_dealloc :: "PhysAddr \<Rightarrow> frame_stack \<Rightarrow> frame_stack" where
  "stack_dealloc p (free, used) = (p # free, remove1 p used)"

definition stack_used :: "frame_stack \<Rightarrow> PhysAddr set" where
  "stack_used f = set (snd f)"

definition stack_ok :: "frame_stack \<Rightarrow> bool" where
  "stack_ok f \<longleftrightarrow> distinct (fst f @ snd f) \<and> (\<forall>p \<in> set (fst f @ snd f). valid_paddr p)"

lemma stack_paging_if: "paging_if stack_alloc stack_dealloc stack_used stack_ok"
proof
  fix f p f'
  show "stack_ok f \<Longrightarrow> stack_alloc f = (Some p, f') \<Longrightarrow>
      stack_ok f' \<and> valid_paddr p \<and> p \<notin> stack_used f \<and> stack_used f' = insert p (stack_used f)"
    by (cases f rule: stack_alloc.cases) (auto simp: stack_ok_def stack_used_def)
  show "stack_ok f \<Longrightarrow> stack_alloc f = (None, f') \<Longrightarrow> stack_ok f' \<and> stack_used f' = stack_used f"
    by (cases f rule: stack_alloc.cases) (auto simp: stack_ok_def stack_used_def)
  show "stack_ok f \<Longrightarrow> p \<in> stack_used f \<Longrightarrow>
      stack_ok (stack_dealloc p f) \<and> stack_used (stack_dealloc p f) = stack_used f - {p}"
    by (cases f) (auto simp: stack_ok_def stack_used_def distinct_remove1 dest: in_set_remove1)
qed

interpretation stack_frames: paging_if stack_alloc stack_dealloc stack_used stack_ok
  by (rule stack_paging_if)

definition demo_frames :: frame_stack where
  "demo_frames = ([0x80000000, 0x80001000, 0x80002000, 0x80003000], [])"

lemma demo_frames_ok: "stack_ok demo_frames"
  by (simp add: stack_ok_def demo_frames_def valid_paddr_def is_aligned_4k_iff)


definition demo_table :: "frame_stack PageTable64" where
  "demo_table = \<lparr>root_paddr = 0x80000000, intrm_tables = [0x80000000], phys = (\<lambda>_ _. 0),
     frames = ([0x80001000, 0x80002000, 0x80003000], [0x80000000])\<rparr>"

lemma demo_table_inv: "pt_inv stack_used stack_ok 3 demo_table"
proof -
  have d: "descend (phys demo_table) (root_paddr demo_table) q =
      (if q = [] then Some (root_paddr demo_table) else None)" for q
    by (rule descend_empty) (simp add: demo_table_def)
  have "stack_ok (frames demo_table)"
    by (simp add: stack_ok_def demo_table_def valid_paddr_def is_aligned_4k_iff)
  moreover have "set (intrm_tables demo_table) \<subseteq> stack_used (frames demo_table)"
    by (simp add: stack_used_def demo_table_def)
  moreover have "phys demo_table (root_paddr demo_table) i = 0" for i by (simp add: demo_table_def)
  moreover have "intrm_tables demo_table = [root_paddr demo_table]" by (simp add: demo_table_def)
  ultimately show ?thesis
    by (auto simp: pt_inv_def tree_def interior_def tables_def d split: if_splits)
qed

subsection \<open>Properties\<close>

text \<open>
  C1: \<open>map\<close> keeps the invariant of the page table and changes the translation of the one page
  it maps and of no other address, however many tables it had to create: every address of
  the page translates to its frame at the same offset with the requested permissions. When it
  reports an error no translation has changed, and for a 4K page that was not mapped the
  only error is \<open>NoMemory\<close>.
\<close>

theorem page_table_map:
  assumes "paging_if alloc_frame dealloc_frame allocated frames_ok"
    and "levels = 3 \<or> levels = 4" and "pt_inv allocated frames_ok levels s"
    and "flags_ok ps fl" and "valid_paddr (align_down pa (page_bytes ps))"
    and "map_page alloc_frame levels v pa ps fl s = (r, s')"
  shows "pt_inv allocated frames_ok levels s' \<and>
    (\<forall>w. pt_query levels s' w =
       (if r = Ok () \<and> page_no levels ps w = page_no levels ps v
        then Ok (align_down pa (page_bytes ps) + align_offset w (page_bytes ps), fl AND RWXU, ps)
        else pt_query levels s w)) \<and>
    (ps = Size4K \<and> pt_query levels s v = Err NotMapped \<longrightarrow> r = Ok () \<or> r = Err NoMemory)"
  using paging_if.map_page_spec [OF assms] by auto

theorem page_table_map_witness:
  "\<exists>s'. map_page stack_alloc 3 0x1000 0x80200fff Size4K (READ OR WRITE) demo_table = (Ok (), s') \<and>
     pt_inv stack_used stack_ok 3 s' \<and>
     pt_query 3 s' 0x1234 = Ok (0x80200000 + align_offset 0x1234 0x1000, (READ OR WRITE) AND RWXU, Size4K)"
proof -
  have ok: "fst (map_page stack_alloc 3 0x1000 0x80200fff Size4K (READ OR WRITE) demo_table) = Ok ()"
    by code_simp
  then obtain s' where run: "map_page stack_alloc 3 0x1000 0x80200fff Size4K (READ OR WRITE) demo_table = (Ok (), s')"
    by (metis prod.collapse)
  have "flags_ok Size4K (READ OR WRITE)" "valid_paddr (align_down 0x80200fff (page_bytes Size4K))"
    "align_down 0x80200fff (page_bytes Size4K) = 0x80200000" "page_no 3 Size4K 0x1234 = page_no 3 Size4K 0x1000"
    by (simp_all add: flags_ok_def valid_paddr_def is_aligned_4k_iff align_down_def page_no_def)
  then show ?thesis
    using page_table_map [OF stack_paging_if _ demo_table_inv _ _ run] run by auto
qed

text \<open>
  C2: \<open>unmap\<close> succeeds exactly when \<open>query\<close> does, returns the frame and the size of the
  page that was mapped, and afterwards no address of that page translates while every other
  translation is as before; on an error nothing has changed.
\<close>

theorem page_table_unmap:
  assumes "paging_if alloc_frame dealloc_frame allocated frames_ok"
    and "levels = 3 \<or> levels = 4" and "pt_inv allocated frames_ok levels s"
    and "unmap levels v s = (r, s')"
  shows "pt_inv allocated frames_ok levels s' \<and> (is_ok r \<longleftrightarrow> is_ok (pt_query levels s v)) \<and>
    (\<forall>e. r = Err e \<longrightarrow> s' = s \<and> pt_query levels s v = Err e) \<and>
    (\<forall>pa ps. r = Ok (pa, ps) \<longrightarrow>
       (\<exists>fl. pt_query levels s v = Ok (pa + align_offset v (page_bytes ps), fl, ps)) \<and>
       (\<forall>w. pt_query levels s' w = (if page_no levels ps w = page_no levels ps v then Err NotMapped
          else pt_query levels s w)))"
  using paging_if.unmap_spec [OF assms] by auto

definition demo_mapped :: "frame_stack PageTable64" where
  "demo_mapped = snd (map_page stack_alloc 3 0x1000 0x80200000 Size4K (READ OR WRITE) demo_table)"

lemma demo_mapped_run:
  "map_page stack_alloc 3 0x1000 0x80200000 Size4K (READ OR WRITE) demo_table = (Ok (), demo_mapped)"
proof -
  have "fst (map_page stack_alloc 3 0x1000 0x80200000 Size4K (READ OR WRITE) demo_table) = Ok ()"
    by code_simp
  then show ?thesis by (metis demo_mapped_def prod.collapse)
qed

lemma demo_mapped_facts:
  shows "pt_inv stack_used stack_ok 3 demo_mapped"
    and "pt_query 3 demo_mapped w = (if page_no 3 Size4K w = page_no 3 Size4K 0x1000
      then Ok (0x80200000 + align_offset w (page_bytes Size4K), (READ OR WRITE) AND RWXU, Size4K)
      else pt_query 3 demo_table w)"
proof -
  have *: "flags_ok Size4K (READ OR WRITE)" "valid_paddr (align_down 0x80200000 (page_bytes Size4K))"
    "align_down 0x80200000 (page_bytes Size4K) = 0x80200000"
    by (simp_all add: flags_ok_def valid_paddr_def is_aligned_4k_iff align_down_def)
  note sp = stack_frames.map_page_spec [OF _ demo_table_inv *(1,2) demo_mapped_run]
  show "pt_inv stack_used stack_ok 3 demo_mapped" by (rule sp(1)) simp
  show "pt_query 3 demo_mapped w = (if page_no 3 Size4K w = page_no 3 Size4K 0x1000
      then Ok (0x80200000 + align_offset w (page_bytes Size4K), (READ OR WRITE) AND RWXU, Size4K)
      else pt_query 3 demo_table w)"
    using sp(2) [of w] *(3) by simp
qed

theorem page_table_unmap_witness:
  "\<exists>s'. unmap 3 0x1000 demo_mapped = (Ok (0x80200000, Size4K), s') \<and> pt_query 3 s' 0x1008 = Err NotMapped"
proof -
  obtain r s' where run: "unmap 3 0x1000 demo_mapped = (r, s')" by fastforce
  note sp = page_table_unmap [OF stack_paging_if _ demo_mapped_facts(1) run]
  have q: "pt_query 3 demo_mapped 0x1000 = Ok (0x80200000, (READ OR WRITE) AND RWXU, Size4K)"
    by (simp add: demo_mapped_facts(2) align_offset_def)
  then obtain pa ps where r: "r = Ok (pa, ps)" using sp by (cases r) auto
  then have "pa = 0x80200000 \<and> ps = Size4K" using sp q by (auto simp: align_offset_def)
  moreover have "page_no 3 Size4K 0x1008 = page_no 3 Size4K 0x1000" by (simp add: page_no_def)
  ultimately show ?thesis using sp r run by auto
qed


text \<open>
  C3: \<open>map_region\<close> returns (its loop needs at most one iteration per 4K page), keeps the
  invariant, and on success every byte of the region translates linearly to the physical
  region with the requested permissions, whether 4K, 2M or 1G pages were chosen; addresses
  outside the region keep their translation even when it fails half-way.
\<close>

theorem page_table_map_region:
  assumes "paging_if alloc_frame dealloc_frame allocated frames_ok"
    and "levels = 3 \<or> levels = 4" and "pt_inv allocated frames_ok levels s"
    and "unat sz \<le> 2 ^ (12 + 9 * levels)" and "unat pa + unat sz \<le> 2 ^ 56"
    and "allow_huge \<Longrightarrow> flags_intersects fl (READ OR EXECUTE)"
    and "map_region alloc_frame levels v pa sz fl allow_huge s = (r, s')"
  shows "pt_inv allocated frames_ok levels s' \<and> same_outside levels v sz s s' \<and>
    (r = Ok () \<longrightarrow> region_all levels s' v sz (linear_to pa fl)) \<and> r \<noteq> Panic \<and> r \<noteq> Diverge"
  using paging_if.map_region_spec [OF assms] by auto

theorem page_table_map_region_witness:
  "\<exists>s'. map_region stack_alloc 3 0x1000 0x80200000 0x2000 READ False demo_table = (Ok (), s') \<and>
     (\<exists>ps. pt_query 3 s' 0x2010 = Ok (0x80200000 + 0x1010, READ AND RWXU, ps))"
proof -
  have "fst (map_region stack_alloc 3 0x1000 0x80200000 0x2000 READ False demo_table) = Ok ()"
    by code_simp
  then obtain s' where run: "map_region stack_alloc 3 0x1000 0x80200000 0x2000 READ False demo_table = (Ok (), s')"
    by (metis prod.collapse)
  have "region_off 3 0x1000 0x2010 = 0x1010" by (simp add: region_off_def)
  moreover have "region_all 3 s' 0x1000 0x2000 (linear_to 0x80200000 READ)"
    using page_table_map_region [OF stack_paging_if _ demo_table_inv _ _ _ run] by simp
  ultimately show ?thesis
    using run by (force simp: region_all_def linear_to_def dest!: spec [of _ "0x2010"])
qed

text \<open>
  \<open>unmap_region\<close> on a region whose pages are all mapped as 4K pages returns without an
  error or a failed assertion, removes every translation of the region and leaves the
  others alone.
\<close>

lemma page_table_unmap_region:
  assumes "paging_if alloc_frame dealloc_frame allocated frames_ok"
    and "levels = 3 \<or> levels = 4" and "pt_inv allocated frames_ok levels s"
    and "unat sz \<le> 2 ^ (12 + 9 * levels)"
    and "is_aligned v (page_bytes Size4K)" and "is_aligned sz (page_bytes Size4K)"
    and "region_all levels s v sz (\<lambda>_ q. \<exists>pa fl. q = Ok (pa, fl, Size4K))"
  shows "\<exists>s'. unmap_region levels v sz s = (Ok (), s') \<and> pt_inv allocated frames_ok levels s' \<and>
    same_outside levels v sz s s' \<and> region_all levels s' v sz (\<lambda>_ q. q = Err NotMapped)"
  using paging_if.unmap_region_total [OF assms] paging_if.unmap_region_spec [OF assms(1-4), of v]
  by blast

lemma demo_region: "region_off 3 0x1000 w < 0x1000 \<Longrightarrow> page_no 3 Size4K w = page_no 3 Size4K 0x1000"
  using same_page_iff [of 3 Size4K "0x1000" w] by simp

text \<open>
  \<open>update\<close> on a mapped entry sets the frame or the permissions that are given, keeps the
  other, and changes no other page.
\<close>

lemma page_table_update:
  assumes "paging_if alloc_frame dealloc_frame allocated frames_ok"
    and "levels = 3 \<or> levels = 4" and "pt_inv allocated frames_ok levels s"
    and "\<And>pa. npa = Some pa \<Longrightarrow> valid_paddr pa \<and> pa \<noteq> 0"
    and "\<And>fl. nfl = Some fl \<Longrightarrow> flags_intersects fl (READ OR EXECUTE)"
    and "get_entry_mut levels s v = Ok ((t, i), ps)" and "pte_paddr (phys s t i) \<noteq> 0"
    and "pt_update levels v npa nfl s = (r, s')"
  shows "r = Ok ps \<and> pt_inv allocated frames_ok levels s' \<and>
    (\<forall>w. pt_query levels s' w = (if page_no levels ps w = page_no levels ps v
      then Ok (case_option (pte_paddr (phys s t i)) id npa + align_offset w (page_bytes ps),
               case_option (pte_flags (phys s t i)) (\<lambda>f. f AND RWXU) nfl, ps)
      else pt_query levels s w))"
  using paging_if.pt_update_spec [OF assms] by blast

text \<open>
  \<open>try_new\<close> either reports \<open>NoMemory\<close> or yields an empty page table that satisfies the
  invariant and owns one frame more.
\<close>

lemma page_table_try_new:
  assumes "paging_if alloc_frame dealloc_frame allocated frames_ok"
    and "levels = 3 \<or> levels = 4" and "frames_ok f" and "try_new alloc_frame m f = (r, f')"
  shows "r = Err NoMemory \<and> allocated f' = allocated f \<or>
    (\<exists>s. r = Ok s \<and> frames s = f' \<and> pt_inv allocated frames_ok levels s \<and>
       (\<forall>v. pt_query levels s v = Err NotMapped) \<and> allocated f' = insert (root_paddr s) (allocated f))"
  by (rule paging_if.try_new_spec [OF assms])

text \<open>
  Dropping a page table returns exactly the frames of its tables to the allocator, each
  once, and nothing else.
\<close>

lemma page_table_drop:
  assumes "paging_if alloc_frame dealloc_frame allocated frames_ok"
    and "pt_inv allocated frames_ok levels s"
  shows "frames_ok (drop_table dealloc_frame s) \<and>
    allocated (drop_table dealloc_frame s) = allocated (frames s) - set (intrm_tables s) \<and>
    tables levels (phys s) (root_paddr s) \<inter> allocated (drop_table dealloc_frame s) = {}"
  using paging_if.drop_table_spec [OF assms] pt_invD(3) [OF assms(2)] by blast

text \<open>
  A page that \<open>map_fault\<close> marks for lazy allocation is reported by \<open>query\<close> as a mapping of
  frame 0 without permissions, not as \<open>NotMapped\<close>.
\<close>

lemma page_table_fault_page_query:
  assumes "paging_if alloc_frame dealloc_frame allocated frames_ok"
    and "levels = 3 \<or> levels = 4" and "pt_inv allocated frames_ok levels s"
    and "map_fault alloc_frame levels v Size4K fl s = (Ok (), s')"
    and "page_no levels Size4K w = page_no levels Size4K v"
  shows "pt_query levels s' w = Ok (align_offset w (page_bytes Size4K), 0, Size4K)"
  using paging_if.map_fault_spec(2) [OF assms(1-4) refl, of w] assms(5) by simp

end
