(* ===== verification/FrameAllocCorrect.thy ===== *)
theory FrameAllocCorrect
  imports FrameAlloc PageTableCorrect
begin

text \<open>
  The sublocale below shows that the bitmap page allocator behind \<open>PagingIfImpl\<close> keeps the
  contract that the page table relies on, so every property of \<open>PageTableCorrect\<close> holds for page
  tables over it.
\<close>

text \<open>The managed region, seen from the physical side, fits the addresses an entry can hold.\<close>

definition frames_wf :: "('b \<Rightarrow> nat set) \<Rightarrow> usize \<Rightarrow> ('b, 'h) GlobalAllocator \<Rightarrow> bool" where
  "frames_wf free off G \<longleftrightarrow> page_alloc_wf free 12 (palloc G) \<and> is_aligned_4k off \<and>
     unat off \<le> unat (base (palloc G)) \<and>
     unat (base (palloc G)) + unat (total_pages (palloc G)) * 4096 \<le> 2 ^ 56 + unat off"

definition frame_of :: "usize \<Rightarrow> ('b, 'h) GlobalAllocator \<Rightarrow> nat \<Rightarrow> PhysAddr" where
  "frame_of off G idx = virt_to_phys off (page_addr 12 (palloc G) idx)"

definition frames_taken :: "('b \<Rightarrow> nat set) \<Rightarrow> usize \<Rightarrow> ('b, 'h) GlobalAllocator \<Rightarrow> PhysAddr set" where
  "frames_taken free off G = frame_of off G ` ({..<unat (total_pages (palloc G))} - free (inner (palloc G)))"

lemma phys_virt_inverse [simp]: "phys_to_virt off (virt_to_phys off v) = v" "virt_to_phys off (phys_to_virt off p) = p"
  by (simp_all add: phys_to_virt_def virt_to_phys_def)

lemma valid_frame_of:
  assumes "frames_wf free off G" and "idx < unat (total_pages (palloc G))"
  shows "valid_paddr (frame_of off G idx)"
proof -
  have wf: "page_alloc_wf free 12 (palloc G)" using assms(1) by (simp add: frames_wf_def)
  note u = unat_page_addr [OF wf assms(2)]
  have v: "unat (frame_of off G idx) = unat (base (palloc G)) - unat off + idx * 4096"
    using u assms(1) unfolding frame_of_def virt_to_phys_def
    by (subst unat_sub_no_underflow) (auto simp: frames_wf_def)
  have "Suc idx * 4096 \<le> unat (total_pages (palloc G)) * 4096"
    using assms(2) by (intro mult_le_mono1) simp
  then have "unat (frame_of off G idx) < 2 ^ 56"
    unfolding v using assms(1) by (auto simp: frames_wf_def less_diff_conv2)
  moreover have "4096 dvd unat (frame_of off G idx)"
    unfolding v using assms(1) by (auto simp: frames_wf_def page_alloc_wf_def is_aligned_4k_iff)
  ultimately show ?thesis by (simp add: valid_paddr_def is_aligned_4k_iff)
qed

lemma frame_of_inj:
  assumes "frames_wf free off G" and "i < unat (total_pages (palloc G))" and "j < unat (total_pages (palloc G))"
    and "frame_of off G i = frame_of off G j"
  shows "i = j"
  using page_addr_inj [of free 12 "palloc G" i j] assms
  by (simp add: frames_wf_def frame_of_def virt_to_phys_def)

locale frame_source = bit_alloc B free for B :: "'b BitAlloc" and free :: "'b \<Rightarrow> nat set" +
  fixes off :: usize
begin

lemma alloc_frame_ok:
  assumes wf: "frames_wf free off G" and run: "alloc_frame B off G = (Some p, G')"
  shows "frames_wf free off G' \<and> valid_paddr p \<and> p \<notin> frames_taken free off G \<and>
    frames_taken free off G' = insert p (frames_taken free off G)"
proof -
  have pw: "page_alloc_wf free 12 (palloc G)" using wf by (simp add: frames_wf_def)
  obtain v A' where r: "alloc_pages B (2 ^ 12) 1 PAGE_SIZE_4K (palloc G) = (Ok v, A')"
    "p = virt_to_phys off v" "G' = G\<lparr>palloc := A'\<rparr>"
    using run by (auto simp: alloc_frame_def global_alloc_pages_def PAGE_SIZE_def
        split: prod.splits result.splits)
  obtain idx where i: "{idx..<idx + unat (1 :: usize)} \<subseteq> free (inner (palloc G))" "v = page_addr 12 (palloc G) idx"
    "A' = (palloc G)\<lparr>inner := inner A', used_pages := used_pages (palloc G) + 1\<rparr>"
    "free (inner A') = free (inner (palloc G)) - {idx..<idx + unat (1 :: usize)}" "page_alloc_wf free 12 A'"
    using alloc_pages_Ok [OF r(1) pw] by blast
  have t: "total_pages A' = total_pages (palloc G)" "base A' = base (palloc G)"
    by (subst i(3), simp)+
  have idx: "idx \<in> free (inner (palloc G))" "idx < unat (total_pages (palloc G))"
    using i(1) pw by (auto simp: page_alloc_wf_def)
  have fr: "frame_of off G' j = frame_of off G j" for j
    by (simp add: frame_of_def r(3) page_addr_def t(2))
  have p: "p = frame_of off G idx" by (simp add: r(2) i(2) frame_of_def)
  have "frames_wf free off G'" using wf i(5) by (simp add: frames_wf_def r(3) t)
  moreover have "p \<notin> frames_taken free off G"
    using frame_of_inj [OF wf _ idx(2)] idx(1) by (auto simp: p frames_taken_def)
  moreover have "{..<unat (total_pages (palloc G))} - (free (inner (palloc G)) - {idx}) =
      insert idx ({..<unat (total_pages (palloc G))} - free (inner (palloc G)))"
    using idx by auto
  then have "frames_taken free off G' = insert p (frames_taken free off G)"
    using i(4) by (simp add: frames_taken_def fr p) (simp add: r(3) t)
  ultimately show ?thesis using valid_frame_of [OF wf idx(2)] by (simp add: p)
qed

lemma alloc_frame_none:
  assumes wf: "frames_wf free off G" and run: "alloc_frame B off G = (None, G')"
  shows "frames_wf free off G' \<and> frames_taken free off G' = frames_taken free off G"
proof -
  obtain e A' where r: "alloc_pages B (2 ^ 12) 1 PAGE_SIZE_4K (palloc G) = (Err e, A')" "G' = G\<lparr>palloc := A'\<rparr>"
    using run by (auto simp: alloc_frame_def global_alloc_pages_def PAGE_SIZE_def alloc_pages_def Let_def
        split: prod.splits result.splits if_splits option.splits)
  note e = alloc_pages_Err [OF r(1)]
  have t: "total_pages A' = total_pages (palloc G)" "base A' = base (palloc G)"
    by (subst conjunct1 [OF conjunct2 [OF e]], simp)+
  show ?thesis
    using wf e by (simp add: frames_wf_def page_alloc_wf_def frames_taken_def frame_of_def page_addr_def r(2) t)
qed

lemma dealloc_frame_ok:
  assumes wf: "frames_wf free off G" and p: "p \<in> frames_taken free off G"
  shows "frames_wf free off (dealloc_frame B off p G) \<and>
    frames_taken free off (dealloc_frame B off p G) = frames_taken free off G - {p}"
proof -
  have pw: "page_alloc_wf free 12 (palloc G)" using wf by (simp add: frames_wf_def)
  obtain idx where idx: "idx < unat (total_pages (palloc G))" "idx \<notin> free (inner (palloc G))" "p = frame_of off G idx"
    using p by (auto simp: frames_taken_def)
  define A' where "A' = dealloc_pages B (2 ^ 12) (page_addr 12 (palloc G) idx) 1 (palloc G)"
  have G': "dealloc_frame B off p G = G\<lparr>palloc := A'\<rparr>"
    by (simp add: dealloc_frame_def idx(3) frame_of_def global_dealloc_pages_def PAGE_SIZE_def A'_def)
  have f: "free (inner A') = insert idx (free (inner (palloc G)))" "page_alloc_wf free 12 A'"
    using dealloc_pages_free [OF pw idx(1,2), of 1] by (simp_all add: A'_def)
  have t: "total_pages A' = total_pages (palloc G)" "base A' = base (palloc G)"
    by (simp_all add: A'_def dealloc_pages_def)
  have fr: "frame_of off (G\<lparr>palloc := A'\<rparr>) j = frame_of off G j" for j
    by (simp add: frame_of_def page_addr_def t(2))
  have "frames_taken free off (G\<lparr>palloc := A'\<rparr>) = frames_taken free off G - {p}"
    using frame_of_inj [OF wf] idx by (auto simp: frames_taken_def fr t f)
  then show ?thesis using wf f(2) by (simp add: G' frames_wf_def t)
qed

lemma frames_paging_if:
  "paging_if (alloc_frame B off) (dealloc_frame B off) (frames_taken free off) (frames_wf free off)"
  by unfold_locales (use alloc_frame_ok alloc_frame_none dealloc_frame_ok in blast)+

end

sublocale frame_source \<subseteq> paging_if "alloc_frame B off" "dealloc_frame B off" "frames_taken free off" "frames_wf free off"
  by (rule frames_paging_if)

interpretation list_frames: frame_source list_bits set "0xffffffc000000000"
  by (intro frame_source.intro list_bits_bit_alloc)


subsection \<open>Page tables over the global allocator\<close>

text \<open>
  C4: the pages that the global allocator hands to page tables are what the page table code
  relies on: mapping a page through \<open>PagingIfImpl\<close> keeps the invariant and changes the translation
  of that page only. The hypotheses are those of the bitmap and of the managed region alone.
\<close>

theorem kernel_page_table_map:
  assumes "bit_alloc B free" and "pt_inv (frames_taken free off) (frames_wf free off) 3 s"
    and "valid_paddr pa"
    and "map_page (alloc_frame B off) 3 v pa Size4K fl s = (r, s')"
  shows "pt_inv (frames_taken free off) (frames_wf free off) 3 s' \<and>
    (\<forall>w. pt_query 3 s' w = (if r = Ok () \<and> page_no 3 Size4K w = page_no 3 Size4K v
       then Ok (pa + align_offset w PAGE_SIZE_4K, fl AND RWXU, Size4K) else pt_query 3 s w))"
proof -
  have p: "paging_if (alloc_frame B off) (dealloc_frame B off) (frames_taken free off) (frames_wf free off)"
    by (rule frame_source.frames_paging_if [OF frame_source.intro [OF assms(1)]])
  have ad: "align_down pa (page_bytes Size4K) = pa"
    using assms(3) aligned_page_iff [of pa Size4K]
    by (intro align_down_aligned) (simp add: valid_paddr_def is_aligned_4k_iff)
  show ?thesis
    using paging_if.map_page_spec [OF p _ assms(2), of Size4K fl pa v r s'] assms(3,4) ad
    by (auto simp: flags_ok_def PAGE_SIZE_4K_def)
qed

definition demo_kernel :: "(nat list, unit) GlobalAllocator" where
  "demo_kernel = \<lparr>balloc = (), palloc = \<lparr>base = 0xffffffc080201000, total_pages = 8, used_pages = 0,
     inner = [0, 1, 2, 3, 4, 5, 6, 7]\<rparr>\<rparr>"

lemma demo_kernel_wf: "frames_wf set 0xffffffc000000000 demo_kernel"
  by (simp add: frames_wf_def demo_kernel_def page_alloc_wf_def is_aligned_4k_iff)

theorem kernel_page_table_map_witness:
  "\<exists>s f s'. try_new (alloc_frame list_bits 0xffffffc000000000) (\<lambda>_ _. 7) demo_kernel = (Ok s, f) \<and>
     map_page (alloc_frame list_bits 0xffffffc000000000) 3 0x1000 0x80300000 Size4K READ s = (Ok (), s') \<and>
     pt_query 3 s' 0x1000 = Ok (0x80300000, READ AND RWXU, Size4K)"
proof -
  let ?al = "alloc_frame list_bits 0xffffffc000000000 :: (nat list, unit) GlobalAllocator \<Rightarrow> _"
  obtain r f where run: "try_new ?al (\<lambda>_ _. 7) demo_kernel = (r, f)" by (metis surj_pair)
  have m: "case try_new ?al (\<lambda>_ _. 7) demo_kernel of (Ok s, _) \<Rightarrow>
      fst (map_page ?al 3 0x1000 0x80300000 Size4K READ s) = Ok () | _ \<Rightarrow> False"
    by code_simp
  then obtain s where r: "r = Ok s" and mp: "fst (map_page ?al 3 0x1000 0x80300000 Size4K READ s) = Ok ()"
    using run by (cases r) auto
  have inv: "pt_inv (frames_taken set 0xffffffc000000000) (frames_wf set 0xffffffc000000000) 3 s"
    using list_frames.try_new_spec [OF _ demo_kernel_wf run, of 3] r by auto
  have "valid_paddr 0x80300000" by (simp add: valid_paddr_def is_aligned_4k_iff)
  from kernel_page_table_map [OF list_bits_bit_alloc inv this fst_run [OF mp]]
  have "pt_query 3 (snd (map_page ?al 3 0x1000 0x80300000 Size4K READ s)) 0x1000 = Ok (0x80300000, READ AND RWXU, Size4K)"
    by (simp add: align_offset_def PAGE_SIZE_4K_def)
  then show ?thesis using run r fst_run [OF mp] by blast
qed

end
