(* ===== verification/MemorySetMap.thy ===== *)
theory MemorySetMap
  imports MemorySetCorrect FrameAllocCorrect
begin

text \<open>
  What \<open>munmap\<close>, \<open>mprotect\<close>, \<open>mmap\<close>, \<open>find_free_area\<close> and the page fault handler of \<open>MemorySet\<close> do to the
  address space of \<open>MemorySetCorrect\<close>.
\<close>

subsection \<open>Entering a new region\<close>

lemma is_aligned_page_4k: "is_aligned x 4096 \<longleftrightarrow> is_aligned_4k x"
  by (simp add: is_aligned_4k_def PAGE_SIZE_4K_def)

lemma slot_at_lazy:
  "slot_at \<lparr>pages = replicate n None, vaddr = va, area_flags = fl, backend = b\<rparr> w =
     (if unat va \<le> unat w \<and> unat w < unat va + 4096 * n then Some (None, fl) else None)"
proof -
  have "(unat w - unat va) div 4096 < n" if "unat va \<le> unat w" "unat w < unat va + 4096 * n"
    using that by (intro less_mult_imp_div_less) simp
  then show ?thesis by (auto simp: slot_at_def in_area_def)
qed

lemma new_region_Ok:
  assumes wf: "ms_wf S" and run: "new_region E va sz fl None b S = (Ok (), S')"
    and fit: "unat va + 4096 * unat (round_pages sz) < 2 ^ 64"
    and free: "\<And>w. unat va \<le> unat w \<Longrightarrow> unat w < unat va + 4096 * unat (round_pages sz) \<Longrightarrow> ms_slot S w = None"
  shows "ms_wf S' \<and> attached_mem S' = attached_mem S \<and>
    (\<forall>w. ms_slot S' w = (if unat va \<le> unat w \<and> unat w < unat va + 4096 * unat (round_pages sz)
       then Some (None, fl) else ms_slot S w))"
proof -
  let ?n = "unat (round_pages sz)"
  let ?a = "\<lparr>pages = replicate ?n None, vaddr = va, area_flags = fl, backend = b\<rparr>"
  obtain s where ins: "insert_area ?a (S\<lparr>ms_mm := s\<rparr>) = (Ok (), S')" and al: "is_aligned_4k va"
    using run by (auto simp: new_region_def Let_def new_lazy_def on_pt_def map_fault_region_def
        is_aligned_page_4k result_simps split: prod.splits if_splits)
  have awf: "area_wf ?a" using al fit by (simp add: area_wf_def is_aligned_4k_iff)
  have add: "adds [?a] S S'" using adds_one [OF ins] by simp
  have o: "set (owned_mem S') = set (owned_mem S) \<union> (\<lambda>b. (vaddr b, b)) ` set [?a]" "bt_ok (owned_mem S')"
    "attached_mem S' = attached_mem S"
    using add wf by (simp_all add: adds_def ms_wf_def)
  have free_a: "\<not> in_area (snd e) w" if "e \<in> set (owned_mem S)" "in_area ?a w" for e w
  proof
    assume "in_area (snd e) w"
    then obtain x where "slot_at (snd e) w = Some x" by (auto simp: in_area_slot)
    then have "ms_slot S w = Some x" using that(1) unfolding ms_slot_iff [OF wf] slots_def by blast
    then show False using free [of w] that(2) by (simp add: in_area_def)
  qed
  have pc: "pieces (\<lambda>_ y. y) ?a [?a]" using awf by (intro pieces_one) simp_all
  have "areas_wf (set (owned_mem S'))"
    unfolding o(1) using wf free_a
    by (intro areas_wf_pieces [OF _ pc]) (auto simp: ms_wf_def apart_def)
  then have wf': "ms_wf S'" using o(2) by (simp add: ms_wf_def)
  have "ms_slot S' w = (if in_area ?a w then Some (None, fl) else ms_slot S w)" for w
  proof (rule option_eqI)
    fix x
    have "ms_slot S' w = Some x \<longleftrightarrow> ms_slot S w = Some x \<or> slot_at ?a w = Some x"
      unfolding ms_slot_iff [OF wf'] o(1) slots_Un slots_pieces [OF pc] ms_slot_iff [OF wf] ..
    then show "ms_slot S' w = Some x \<longleftrightarrow> (if in_area ?a w then Some (None, fl) else ms_slot S w) = Some x"
      using free [of w] by (auto simp: slot_at_lazy in_area_def)
  qed
  then show ?thesis using wf' o(3) by (simp add: in_area_def)
qed

subsection \<open>The search for a free range\<close>

definition seg_before :: "usize \<times> usize \<Rightarrow> usize \<times> usize \<Rightarrow> bool" where
  "seg_before p q \<longleftrightarrow> snd p \<le> fst q"

lemma scan_segments_sound:
  assumes "scan_segments sz le segs = Some r" and "sorted_wrt seg_before segs"
    and "\<forall>seg \<in> set segs. fst seg \<le> snd seg"
  shows "(\<exists>seg \<in> set segs. r + sz \<le> fst seg) \<and> (r = le \<or> (\<exists>seg \<in> set segs. r = snd seg)) \<and>
    (\<forall>seg \<in> set segs. snd seg \<le> r \<or> r + sz \<le> fst seg)"
  using assms
proof (induction segs arbitrary: le)
  case (Cons seg segs)
  obtain s f where seg: "seg = (s, f)" by (cases seg)
  show ?case
  proof (cases "le + sz \<le> s")
    case True
    have "r + sz \<le> fst q" if "q \<in> set segs" for q
      using Cons.prems that True by (force simp: seg seg_before_def)
    then show ?thesis using True Cons.prems(1) by (auto simp: seg)
  next
    case False
    then have r: "scan_segments sz f segs = Some r" using Cons.prems(1) by (simp add: seg)
    have ih: "(\<exists>seg \<in> set segs. r + sz \<le> fst seg) \<and> (r = f \<or> (\<exists>seg \<in> set segs. r = snd seg)) \<and>
        (\<forall>seg \<in> set segs. snd seg \<le> r \<or> r + sz \<le> fst seg)"
      by (rule Cons.IH [OF r]) (use Cons.prems in auto)
    moreover have "f \<le> r"
      using ih Cons.prems(2,3) by (force simp: seg seg_before_def)
    ultimately show ?thesis by (auto simp: seg)
  qed
qed simp

lemma segments_of_owned: "e \<in> set (owned_mem S) \<Longrightarrow> fst e = vaddr (snd e) \<Longrightarrow> (vaddr (snd e), end_va (snd e)) \<in> set (segments_of S)"
  by (cases e) (force simp: segments_of_def end_va_def)

lemma segments_of_attached:
  "(start, fl, m) \<in> set (attached_mem S) \<Longrightarrow> (start, start + sm_bytes m) \<in> set (segments_of S)"
  by (force simp: segments_of_def)

text \<open>The segments of the set, owned and attached, do not overlap and none wraps around.\<close>

definition segs_ok :: "('b, 'h, 'k) MemorySet \<Rightarrow> bool" where
  "segs_ok S \<longleftrightarrow> sorted_wrt seg_before (sort (segments_of S)) \<and> (\<forall>seg \<in> set (segments_of S). fst seg \<le> snd seg)"

lemma find_free_area_Some:
  assumes "segs_ok S" and "find_free_area U hint sz S = Some r"
  shows "(\<exists>seg \<in> set (segments_of S). r + sz \<le> fst seg) \<and>
    (r = max hint U \<or> (\<exists>seg \<in> set (segments_of S). r = snd seg)) \<and>
    (\<forall>seg \<in> set (segments_of S). snd seg \<le> r \<or> r + sz \<le> fst seg)"
  using scan_segments_sound [of sz "max hint U" "sort (segments_of S)" r] assms
  by (simp add: segs_ok_def find_free_area_def)

lemma find_free_area_slots:
  assumes "ms_wf S" and "segs_ok S" and "find_free_area U hint sz S = Some r" and "r \<le> w" and "w < r + sz"
  shows "ms_slot S w = None"
proof (rule ccontr)
  assume "ms_slot S w \<noteq> None"
  then obtain x e where e: "e \<in> set (owned_mem S)" "slot_at (snd e) w = Some x"
    using ms_slot_iff [OF assms(1), of w] by (auto simp: slots_def)
  have wf: "fst e = vaddr (snd e)" "area_wf (snd e)" using assms(1) e(1) by (auto simp: ms_wf_def areas_wf_def)
  have "end_va (snd e) \<le> r \<or> r + sz \<le> vaddr (snd e)"
    using find_free_area_Some [OF assms(2,3)] segments_of_owned [OF e(1) wf(1)] by fastforce
  moreover have "vaddr (snd e) \<le> w" "w < end_va (snd e)"
    using slot_at_in [OF e(2)] in_area_iff [OF wf(2)] by auto
  ultimately show False using assms(4,5) by auto
qed

subsection \<open>Rounding to pages\<close>

lemma round_pages_nat:
  assumes "unat sz + 4095 < 2 ^ 64"
  shows "unat (round_pages sz) = (unat sz + 4095) div 4096"
    and "unat (round_pages sz * PAGE_SIZE_4K) = 4096 * unat (round_pages sz)"
    and "round_pages (round_pages sz * PAGE_SIZE_4K) = round_pages sz"
    and "0 < sz \<Longrightarrow> 0 < unat (round_pages sz)"
proof -
  have *: "unat (round_pages x) = (unat x + 4095) div 4096" if "unat x + 4095 < 2 ^ 64" for x
  proof -
    have "unat (x + 4095) = unat x + 4095" using that by (subst unat_add_no_overflow) simp_all
    moreover have "x + PAGE_SIZE_4K - 1 = x + 4095" by (simp add: PAGE_SIZE_4K_def)
    ultimately show ?thesis by (simp only: round_pages_def unat_div) (simp add: PAGE_SIZE_4K_def)
  qed
  show n: "unat (round_pages sz) = (unat sz + 4095) div 4096" by (rule * [OF assms])
  have lt: "4096 * unat (round_pages sz) + 4095 < 2 ^ 64" proof -
    have "(unat sz + 4095) div 4096 < 2 ^ 52" using assms by (intro less_mult_imp_div_less) simp
    then show ?thesis unfolding n by simp
  qed
  have "round_pages sz * PAGE_SIZE_4K = of_nat (4096 * unat (round_pages sz))"
    by (simp add: PAGE_SIZE_4K_def)
  then show m: "unat (round_pages sz * PAGE_SIZE_4K) = 4096 * unat (round_pages sz)"
    using unat_of_nat_64 [of "4096 * unat (round_pages sz)"] lt by simp
  show "round_pages (round_pages sz * PAGE_SIZE_4K) = round_pages sz"
    by (rule usize_eqI) (use lt m in \<open>subst *, simp_all\<close>)
  show "0 < unat (round_pages sz)" if "0 < sz"
    using that unfolding n by (simp add: word_less_nat_alt div_greater_zero_iff)
qed

lemma span_word:
  assumes "unat va + 4096 * unat (round_pages sz) < 2 ^ 64" and "unat sz + 4095 < 2 ^ 64"
  shows "unat va \<le> unat w \<and> unat w < unat va + 4096 * unat (round_pages sz) \<longleftrightarrow>
      va \<le> w \<and> w < va + round_pages sz * PAGE_SIZE_4K"
    and "0 < sz \<Longrightarrow> va < va + round_pages sz * PAGE_SIZE_4K"
proof -
  have "unat (va + round_pages sz * PAGE_SIZE_4K) = unat va + 4096 * unat (round_pages sz)"
    using assms round_pages_nat(2) [OF assms(2)] by (subst unat_add_no_overflow) simp_all
  then show "unat va \<le> unat w \<and> unat w < unat va + 4096 * unat (round_pages sz) \<longleftrightarrow>
      va \<le> w \<and> w < va + round_pages sz * PAGE_SIZE_4K"
    and "0 < sz \<Longrightarrow> va < va + round_pages sz * PAGE_SIZE_4K"
    using round_pages_nat(4) [OF assms(2)] by (auto simp: word_le_nat_alt word_less_nat_alt)
qed

lemma mmap_Ok:
  assumes wf: "ms_wf S" and segs: "\<not> fixed \<Longrightarrow> segs_ok S" and sz: "0 < sz" "unat sz + 4095 < 2 ^ 64"
    and run: "mmap E U start sz fl fixed b S = (Ok r, S')"
    and fit: "unat r + 4096 * unat (round_pages sz) < 2 ^ 64"
  shows "ms_wf S' \<and> attached_mem S' = attached_mem S \<and>
    (\<forall>w. ms_slot S' w = (if r \<le> w \<and> w < r + round_pages sz * PAGE_SIZE_4K then Some (None, fl) else ms_slot S w)) \<and>
    (fixed \<longrightarrow> r = start) \<and>
    (\<not> fixed \<longrightarrow> (\<forall>w. r \<le> w \<and> w < r + round_pages sz * PAGE_SIZE_4K \<longrightarrow> ms_slot S w = None))"
proof -
  let ?len = "round_pages sz * PAGE_SIZE_4K"
  note rp = round_pages_nat [OF sz(2)] and sw = span_word [OF fit sz(2)]
  have fit': "unat r + 4096 * unat (round_pages ?len) < 2 ^ 64" using fit rp(3) by simp
  have region: "ms_wf S' \<and> attached_mem S' = attached_mem T \<and>
      (\<forall>w. ms_slot S' w = (if r \<le> w \<and> w < r + ?len then Some (None, fl) else ms_slot T w))"
    if "ms_wf T" "new_region E r ?len fl None b T = (Ok (), S')"
      "\<And>w. r \<le> w \<Longrightarrow> w < r + ?len \<Longrightarrow> ms_slot T w = None" for T
  proof -
    have "ms_slot T w = None" if "unat r \<le> unat w" "unat w < unat r + 4096 * unat (round_pages sz)" for w
      using that \<open>\<And>w. r \<le> w \<Longrightarrow> w < r + ?len \<Longrightarrow> ms_slot T w = None\<close> sw(1) by blast
    then show ?thesis using new_region_Ok [OF that(1,2) fit'] by (simp add: rp(3) sw(1))
  qed
  show ?thesis
  proof (cases fixed)
    case True
    then obtain T where T: "split_for_area E start ?len S = (Ok (), T)" "new_region E start ?len fl None b T = (Ok (), S')" "r = start"
      using run by (auto simp: mmap_def Let_def result_simps)
    have sp: "ms_wf T \<and> attached_mem T = attached_mem S \<and> (\<forall>w. ms_slot T w = cut start (start + ?len) w (ms_slot S w))"
      by (rule split_for_area_Ok [OF wf _ T(1)]) (use sw(2) sz(1) T(3) in simp)
    then show ?thesis using region [of T] T True by (auto simp: cut_def)
  next
    case False
    have "unat (- 1 :: usize) = 2 ^ 64 - 1" by (simp add: unsigned_minus_1_eq_mask mask_eq_exp_minus_1)
    then have "r \<noteq> - 1" using fit rp(4) [OF sz(1)] by auto
    then have T: "find_free_area U start ?len S = Some r" "new_region E r ?len fl None b S = (Ok (), S')"
      using run False by (auto simp: mmap_def Let_def result_simps split: option.splits)
    note fr = find_free_area_slots [OF wf segs [OF False] T(1)]
    show ?thesis using region [OF wf T(2) fr] False fr by auto
  qed
qed

subsection \<open>Faulting in one page\<close>

lemma slot_at_update:
  assumes "area_wf a" and "in_area a addr" and "pages b = (pages a)[(unat addr - unat (vaddr a)) div 4096 := v]"
    and "vaddr b = vaddr a" and "area_flags b = area_flags a"
  shows "area_wf b" and "in_area b w \<longleftrightarrow> in_area a w"
    and "slot_at b w = (if unat w div 4096 = unat addr div 4096 then Some (v, area_flags a) else slot_at a w)"
proof -
  let ?i = "\<lambda>w. (unat w - unat (vaddr a)) div 4096"
  show "area_wf b" using assms by (simp add: area_wf_def)
  show inb: "in_area b w \<longleftrightarrow> in_area a w" for w using assms by (simp add: in_area_def)
  obtain k where k: "unat (vaddr a) = 4096 * k" using assms(1) by (auto simp: area_wf_def)
  have idx: "?i w = unat w div 4096 - k" if "unat (vaddr a) \<le> unat w" for w
    using that by (simp add: k div_diff)
  have lt: "?i w < length (pages a)" if "in_area a w" for w
    using that by (intro less_mult_imp_div_less) (auto simp: in_area_def)
  have same: "in_area a w" if "unat w div 4096 = unat addr div 4096" for w
  proof -
    have "k \<le> unat addr div 4096" "unat addr div 4096 < k + length (pages a)"
      using assms(2) by (auto simp: in_area_def k less_mult_imp_div_less div_le_mono)
    then show ?thesis using that by (auto simp: in_area_def k)
  qed
  show "slot_at b w = (if unat w div 4096 = unat addr div 4096 then Some (v, area_flags a) else slot_at a w)"
  proof (cases "unat w div 4096 = unat addr div 4096")
    case True
    have "in_area a w" by (rule same [OF True])
    moreover have "?i w = ?i addr" using idx [of w] idx [of addr] True \<open>in_area a w\<close> assms(2) by (simp add: in_area_def)
    ultimately show ?thesis using True lt [OF assms(2)] assms by (simp add: slot_at_def inb)
  next
    case False
    have "?i addr \<noteq> ?i w" if "in_area a w"
      using that assms(2) False idx [of w] idx [of addr] div_le_mono [of "4096 * k" "unat w" 4096]
        div_le_mono [of "4096 * k" "unat addr" 4096] eq_diff_iff [of k "unat w div 4096" "unat addr div 4096"]
      by (simp add: in_area_def k)
    then show ?thesis using False assms by (auto simp: slot_at_def inb)
  qed
qed

lemma page_index_nat:
  "area_wf a \<Longrightarrow> in_area a addr \<Longrightarrow>
     unat ((addr - vaddr a) div PAGE_SIZE_4K) = (unat addr - unat (vaddr a)) div 4096"
  by (simp add: unat_div unat_sub_no_underflow in_area_def PAGE_SIZE_4K_def)

lemma get_entry_found:
  assumes "levels = 3 \<or> levels = 4" and "get_entry_mut levels s v = Ok (entry, Size4K)"
  shows "get_entry_mut_or_create alloc levels v Size4K s = (Ok entry, s)"
proof -
  have nu: "\<not> is_unused e" if "next_table_mut e = Ok p" for e p
    using that unused_kind by (auto simp: next_table_mut_def split: if_splits)
  show ?thesis
    using assms by (auto simp: get_entry_mut_def get_entry_mut_or_create_def Let_def and_then_def
        next_table_mut_or_create_def nu split: if_splits)
qed

lemma map_overwrite_found:
  assumes "levels = 3 \<or> levels = 4" and "pt_query levels s v = Ok (x, y, Size4K)"
  shows "\<exists>s'. map_overwrite alloc levels v pa Size4K fl s = (Ok (), s')"
proof -
  obtain e where e: "get_entry_mut levels s v = Ok (e, Size4K)" "\<not> is_unused (read_entry s e)"
    using assms(2) by (auto simp: pt_query_def Let_def split: if_splits)
  show ?thesis
    by (simp add: map_overwrite_def and_then_def get_entry_found [OF assms(1) e(1)] e(2))
qed

lemma PhysPage_alloc_frame:
  "alloc_frame B off G = (Some p, G') \<Longrightarrow> PhysPage_alloc B G = (Ok \<lparr>start_vaddr = phys_to_virt off p\<rparr>, G')"
  by (auto simp: alloc_frame_def PhysPage_alloc_def PAGE_SIZE_4K_def PAGE_SIZE_def
      split: prod.splits result.splits)

lemma pt_inv_frames:
  "pt_inv al ok l s \<Longrightarrow> al (frames s) \<subseteq> al G' \<Longrightarrow> ok G' \<Longrightarrow> pt_inv al ok l (s\<lparr>frames := G'\<rparr>)"
  by (auto simp: pt_inv_def)

lemma read_entry_frames [simp]: "read_entry (s\<lparr>frames := G'\<rparr>) = read_entry s"
  by (simp add: fun_eq_iff read_entry_def)

lemma pt_query_frames [simp]: "pt_query l (s\<lparr>frames := G'\<rparr>) v = pt_query l s v"
  unfolding pt_query_def get_entry_mut_def read_entry_frames by simp

lemma page_no_4k: "page_no 3 Size4K v = unat v div 4096 mod 2 ^ 27"
  using mod_mult2_eq [of "unat v" 4096 "2 ^ 27"] by (simp add: page_no_def)

lemma page_no_align_down [simp]: "page_no 3 Size4K (align_down_4k v) = page_no 3 Size4K v"
  by (simp add: page_no_4k unat_align_down_4k)

lemma align_down_frame: "valid_paddr p \<Longrightarrow> align_down p (page_bytes Size4K) = p"
  using aligned_page_iff [of p Size4K] by (intro align_down_aligned) (simp add: valid_paddr_def is_aligned_4k_iff)

lemma area_fault_in:
  fixes a :: "'k MapArea" and s :: "('b, 'h) mm"
  assumes B: "bit_alloc (env_bits E) free"
    and inv: "pt_inv (frames_taken free (env_off E)) (frames_wf free (env_off E)) 3 (mm_pt s)"
    and a: "area_wf a" "in_area a addr" "slot_at a addr = Some (None, fl)" "flags_contains fl flags"
    and q: "pt_query 3 (mm_pt s) (align_down_4k addr) = Ok (x, y, Size4K)"
    and al: "alloc_frame (env_bits E) (env_off E) (frames (mm_pt s)) = (Some p, G')"
  shows "\<exists>a' s' bytes. area_handle_page_fault E addr flags (a, s) = (Ok True, (a', s')) \<and>
    pages a' = (pages a)[(unat addr - unat (vaddr a)) div 4096 := Some \<lparr>start_vaddr = phys_to_virt (env_off E) p\<rparr>] \<and>
    vaddr a' = vaddr a \<and> area_flags a' = fl \<and> area_flags a = fl \<and>
    mm_data s' = (mm_data s)(phys_to_virt (env_off E) p := bytes) \<and>
    (backend a = None \<longrightarrow> bytes = replicate 4096 0) \<and>
    p \<notin> frames_taken free (env_off E) (frames (mm_pt s)) \<and>
    pt_inv (frames_taken free (env_off E)) (frames_wf free (env_off E)) 3 (mm_pt s') \<and>
    (\<forall>w. pt_query 3 (mm_pt s') w = (if page_no 3 Size4K w = page_no 3 Size4K addr
       then Ok (p + align_offset w PAGE_SIZE_4K, fl AND RWXU, Size4K) else pt_query 3 (mm_pt s) w))"
proof -
  let ?al = "alloc_frame (env_bits E) (env_off E) :: ('b, 'h) GlobalAllocator \<Rightarrow> _"
  let ?i = "(unat addr - unat (vaddr a)) div 4096" and ?page = "\<lparr>start_vaddr = phys_to_virt (env_off E) p\<rparr>"
  have fs: "frame_source (env_bits E) free" by (rule frame_source.intro [OF B])
  note pif = frame_source.frames_paging_if [OF fs]
  have fr: "frames_wf free (env_off E) G'" "valid_paddr p" "p \<notin> frames_taken free (env_off E) (frames (mm_pt s))"
    "frames_taken free (env_off E) G' = insert p (frames_taken free (env_off E) (frames (mm_pt s)))"
    using frame_source.alloc_frame_ok [OF fs pt_invD(6) [OF inv] al] by auto
  let ?pt = "(mm_pt s)\<lparr>frames := G'\<rparr>"
  have inv1: "pt_inv (frames_taken free (env_off E)) (frames_wf free (env_off E)) 3 ?pt"
    by (rule pt_inv_frames [OF inv]) (use fr in auto)
  obtain pt' where ov: "map_overwrite ?al 3 (align_down_4k addr) p Size4K fl ?pt = (Ok (), pt')"
    using map_overwrite_found [of 3 ?pt "align_down_4k addr" x y ?al p fl] q by auto
  have pa: "valid_paddr (align_down p (page_bytes Size4K))" unfolding align_down_frame [OF fr(2)] by (rule fr(2))
  note sp = paging_if.map_overwrite_spec [OF pif _ inv1 pa ov, simplified]
  have i: "?i < length (pages a)" "pages a ! ?i = None" "area_flags a = fl"
    using a(2,3) by (auto simp: slot_at_def in_area_def intro!: less_mult_imp_div_less)
  define bb where "bb = (case backend a of
       None \<Rightarrow> (replicate 4096 0, None)
     | Some f \<Rightarrow> (case fo_read_from_seek (env_file E) (SeekCurrent (sint (of_nat ?i * PAGE_SIZE_4K))) 4096 f of
           (Ok rd, f') \<Rightarrow> (rd @ drop (length rd) (mm_data s (start_vaddr ?page)), Some f')
         | (_, f') \<Rightarrow> (replicate 4096 0, Some f')))"
  have run: "area_handle_page_fault E addr flags (a, s) = (Ok True,
      (a\<lparr>backend := snd bb, pages := (pages a)[?i := Some ?page]\<rparr>,
       s\<lparr>mm_pt := pt', mm_data := (mm_data s)(phys_to_virt (env_off E) p := fst bb)\<rparr>))"
    using a(2,4) i ov in_area_iff [OF a(1), of addr]
    by (simp add: area_handle_page_fault_def page_index_nat [OF a(1,2)] on_global_def on_pt_def
        PhysPage_alloc_frame [OF al] env_alloc_def LEVELS_def Let_def bb_def
        split: option.split prod.split result.split)
  show ?thesis
    unfolding run using i(3) fr(3) sp(1) sp(2) align_down_frame [OF fr(2)]
    by (auto simp: bb_def PAGE_SIZE_4K_def)
qed

lemma filter_single:
  "distinct xs \<Longrightarrow> x \<in> set xs \<Longrightarrow> P x \<Longrightarrow> \<forall>y \<in> set xs. P y \<longrightarrow> y = x \<Longrightarrow> filter P xs = [x]"
proof (induction xs)
  case (Cons y ys)
  show ?case
  proof (cases "y = x")
    case True
    then have "\<forall>z \<in> set ys. \<not> P z" using Cons.prems(1,4) by (metis distinct.simps(2) list.set_intros(2))
    then have "filter P ys = []" by (simp add: filter_empty_conv)
    then show ?thesis using True Cons.prems(3) by simp
  next
    case False
    then have "\<not> P y" "x \<in> set ys" using Cons.prems(2,4) by auto
    moreover have "filter P ys = [x]" using Cons.IH Cons.prems calculation(2) by (metis distinct.simps(2) list.set_intros(2))
    ultimately show ?thesis by simp
  qed
qed simp

lemma ms_slot_find:
  assumes "ms_wf S" and "ms_slot S addr = Some x"
  obtains a where "find_area addr (owned_mem S) = Some (vaddr a, a)" and "(vaddr a, a) \<in> set (owned_mem S)"
    and "area_wf a" and "in_area a addr" and "slot_at a addr = Some x"
proof -
  obtain k a where f: "find_area addr (owned_mem S) = Some (k, a)" "slot_at a addr = Some x"
    using assms(2) by (auto simp: ms_slot_def split: option.splits)
  show ?thesis using that [of a] find_area_Some [OF assms(1) f(1)] f by simp
qed

text \<open>Replacing an area by one that covers the same addresses.\<close>

lemma replace_area:
  assumes wf: "ms_wf S" and a: "(vaddr a, a) \<in> set (owned_mem S)"
    and b: "vaddr b = vaddr a" "area_wf b" "\<And>w. in_area b w \<longleftrightarrow> in_area a w"
    and S': "owned_mem S' = bt_insert (vaddr a) b (owned_mem S)"
  shows "ms_wf S' \<and> (\<forall>w. ms_slot S' w = (if in_area a w then slot_at b w else ms_slot S w))"
proof -
  have ok: "bt_ok (owned_mem S)" and A: "areas_wf (set (owned_mem S))" using wf by (simp_all add: ms_wf_def)
  have set: "set (owned_mem S') = insert (vaddr a, b) {e \<in> set (owned_mem S). fst e \<noteq> vaddr a}"
  proof -
    have "(k, v) \<in> set (owned_mem S') \<longleftrightarrow> k = vaddr a \<and> v = b \<or> k \<noteq> vaddr a \<and> (k, v) \<in> set (owned_mem S)" for k v
      unfolding S' bt_get_iff [OF bt_insert_ok [OF ok], symmetric] bt_get_iff [OF ok, symmetric] map_of_bt_insert [OF ok]
      by auto
    then show ?thesis by auto
  qed
  have other: "\<not> in_area (snd e) w" if "e \<in> set (owned_mem S)" "fst e \<noteq> vaddr a" "in_area a w" for e w
    using ms_wf_same [OF wf that(1) a] that by force
  have x: "apart e (vaddr a, b)" "apart (vaddr a, b) e" if "e \<in> set (owned_mem S)" "fst e \<noteq> vaddr a" for e
    using other [OF that] b(3) by (auto simp: apart_def)
  have "areas_wf (set (owned_mem S'))"
    unfolding areas_wf_def set using A b(1,2) x unfolding areas_wf_def
    by (metis (mono_tags, lifting) fst_conv insert_iff mem_Collect_eq snd_conv)
  then have wf': "ms_wf S'" using bt_insert_ok [OF ok] by (simp add: ms_wf_def S')
  have "ms_slot S' w = (if in_area a w then slot_at b w else ms_slot S w)" for w
  proof (rule option_eqI)
    fix x
    have 1: "slots (set (owned_mem S)) w x \<longleftrightarrow> slot_at a w = Some x \<or>
        slots {e \<in> set (owned_mem S). fst e \<noteq> vaddr a} w x"
      using a bt_get_iff [OF ok, of "vaddr a"] unfolding slots_def
      by (metis (mono_tags, lifting) mem_Collect_eq option.inject prod.collapse snd_conv)
    have 2: "\<not> slots {e \<in> set (owned_mem S). fst e \<noteq> vaddr a} w x" if "in_area a w"
      using other that unfolding slots_def by (metis (mono_tags, lifting) mem_Collect_eq slot_at_in)
    have 3: "slot_at a w = None \<and> slot_at b w = None" if "\<not> in_area a w"
      using that b(3) [of w] by (simp add: slot_at_def)
    show "ms_slot S' w = Some x \<longleftrightarrow> (if in_area a w then slot_at b w else ms_slot S w) = Some x"
      unfolding ms_slot_iff [OF wf'] set using 1 2 3
      by (auto simp: slots_def ms_slot_iff [OF wf])
  qed
  then show ?thesis using wf' by blast
qed

subsection \<open>Concrete sets\<close>

definition no_files :: "unit FileOps" where
  "no_files = \<lparr>fo_seek = (\<lambda>_ f. (Ok 0, f)), fo_read_from_seek = (\<lambda>_ _ f. (Ok [], f)),
     fo_write_to_seek = (\<lambda>_ _ f. (Ok 0, f)), fo_readable = (\<lambda>_. True), fo_writable = (\<lambda>_. True), fo_clone = Some\<rparr>"

definition demo_env :: "(nat list, unit) mm_env" where
  "demo_env = \<lparr>env_bits = list_bits, env_off = 0xffffffc000000000, env_file = no_files\<rparr>"

definition demo_pt :: "(nat list, unit) GlobalAllocator PageTable64" where
  "demo_pt = \<lparr>root_paddr = 0x80201000, intrm_tables = [0x80201000], phys = (\<lambda>_ _. 0),
     frames = \<lparr>balloc = (), palloc = \<lparr>base = 0xffffffc080201000, total_pages = 8, used_pages = 1,
       inner = [1, 2, 3, 4, 5, 6, 7]\<rparr>\<rparr>\<rparr>"

definition demo_empty :: "(nat list, unit, unit) MemorySet" where
  "demo_empty = \<lparr>ms_mm = \<lparr>mm_pt = demo_pt, mm_data = (\<lambda>_. [])\<rparr>, owned_mem = [], private_mem = [], attached_mem = []\<rparr>"

text \<open>Three lazy pages at \<open>0x10000\<close>.\<close>

definition demo_area :: "unit MapArea" where
  "demo_area = \<lparr>pages = [None, None, None], vaddr = 0x10000, area_flags = READ OR WRITE, backend = None\<rparr>"

definition demo_space :: "(nat list, unit, unit) MemorySet" where
  "demo_space = \<lparr>ms_mm = \<lparr>
     mm_pt = demo_pt\<lparr>intrm_tables := [0x80201000, 0x80202000, 0x80203000],
       phys := (\<lambda>t i. if t = 0x80201000 \<and> i = 0 then new_table 0x80202000
         else if t = 0x80202000 \<and> i = 0 then new_table 0x80203000
         else if t = 0x80203000 \<and> i \<in> {16, 17, 18} then new_fault_page (READ OR WRITE) False else 0),
       frames := \<lparr>balloc = (), palloc = \<lparr>base = 0xffffffc080201000, total_pages = 8, used_pages = 3,
         inner = [3, 4, 5, 6, 7]\<rparr>\<rparr>\<rparr>,
     mm_data = (\<lambda>_. [])\<rparr>, owned_mem = [(0x10000, demo_area)], private_mem = [], attached_mem = []\<rparr>"

lemma demo_space_owned: "owned_mem demo_space = [(0x10000, demo_area)]" "attached_mem demo_space = []"
  by (simp_all add: demo_space_def)

lemma demo_area_simps [simp]: "vaddr demo_area = 0x10000" "pages demo_area = [None, None, None]" "end_va demo_area = 0x13000"
    "area_flags demo_area = READ OR WRITE" "area_size demo_area = 0x3000"
  by (simp_all add: demo_area_def end_va_def area_size_def PAGE_SIZE_4K_def)

lemma round_demo: "round_pages 0x800 * PAGE_SIZE_4K = 0x1000" "unat (round_pages 0x800) = 1"
  by (simp_all add: round_pages_def PAGE_SIZE_4K_def unat_div)

lemma demo_space_wf: "ms_wf demo_space"
  by (simp add: ms_wf_def demo_space_owned bt_ok_def areas_wf_def area_wf_def)

lemma demo_space_slot: "0x10000 \<le> w \<Longrightarrow> w < 0x13000 \<Longrightarrow> ms_slot demo_space w = Some (None, READ OR WRITE)"
proof -
  assume w: "0x10000 \<le> w" "w < 0x13000"
  then have "(unat w - 0x10000) div 4096 < 3" by (intro less_mult_imp_div_less) (simp add: word_le_nat_alt word_less_nat_alt)
  then have "[None, None, None] ! ((unat w - 0x10000) div 4096) = None"
    by (auto simp: less_Suc_eq numeral_3_eq_3)
  then show ?thesis using w by (simp add: ms_slot_def demo_space_owned slot_at_def in_area_def word_le_nat_alt word_less_nat_alt)
qed

subsection \<open>Properties\<close>







text \<open>
  The range that \<open>find_free_area\<close> proposes meets no owned and no attached segment, provided
  its end does not wrap around. It always lies below an existing segment: free space above the
  last segment is never found, and an empty set has none. It need not respect the hint, since
  the end of an earlier segment takes the place of \<open>max(hint, USER_MEMORY_START)\<close>.
\<close>

lemma find_free_area_free:
  assumes "segs_ok S" and "find_free_area USER_MEMORY_START hint sz S = Some r"
  shows "(\<forall>(start, fin) \<in> set (segments_of S). fin \<le> r \<or> r + sz \<le> start) \<and>
    (\<exists>(start, fin) \<in> set (segments_of S). r + sz \<le> start) \<and>
    (r = max hint USER_MEMORY_START \<or> (\<exists>(start, fin) \<in> set (segments_of S). r = fin))"
  using find_free_area_Some [OF assms] by (simp add: case_prod_beta)

definition demo_shared :: "(nat list, unit, unit) MemorySet" where
  "demo_shared = demo_space\<lparr>attached_mem := [(0x30000, READ, \<lparr>sm_pages = \<lparr>gp_start_vaddr = 0, gp_num_pages = 1\<rparr>,
     sm_info = SharedMemInfo_new 0 0 0x1000 0 0 0 0\<rparr>)]\<rparr>"


definition demo_faulty :: "(nat list, unit, unit) MemorySet" where
  "demo_faulty = demo_empty\<lparr>owned_mem := [(0x10000, \<lparr>pages = [None], vaddr = 0x10000, area_flags = READ OR WRITE, backend = None\<rparr>)],
     ms_mm := (ms_mm demo_empty)\<lparr>mm_pt := snd (map_fault (env_alloc demo_env) 3 0x10000 Size4K (READ OR WRITE) demo_pt)\<rparr>\<rparr>"

lemma demo_pt_inv: "pt_inv (frames_taken set 0xffffffc000000000) (frames_wf set 0xffffffc000000000) 3 demo_pt"
proof -
  have d: "descend (phys demo_pt) (root_paddr demo_pt) q = (if q = [] then Some (root_paddr demo_pt) else None)" for q
    by (rule descend_empty) (simp add: demo_pt_def)
  have "frames_wf set 0xffffffc000000000 (frames demo_pt)"
    by (simp add: frames_wf_def demo_pt_def page_alloc_wf_def is_aligned_4k_iff)
  moreover have "frame_of 0xffffffc000000000 (frames demo_pt) 0 = 0x80201000"
    by (simp add: frame_of_def demo_pt_def page_addr_def virt_to_phys_def)
  then have "set (intrm_tables demo_pt) \<subseteq> frames_taken set 0xffffffc000000000 (frames demo_pt)"
    unfolding frames_taken_def by (force simp: demo_pt_def)
  moreover have "phys demo_pt (root_paddr demo_pt) i = 0" for i by (simp add: demo_pt_def)
  moreover have "intrm_tables demo_pt = [root_paddr demo_pt]" by (simp add: demo_pt_def)
  ultimately show ?thesis
    by (auto simp: pt_inv_def tree_def interior_def tables_def d split: if_splits)
qed


text \<open>
  Every other fault is refused with \<open>BadAddress\<close> and changes nothing: the address is not in an
  area, its page is already present, or the access is not among the area's permissions.
\<close>

lemma page_fault_refused:
  assumes "ms_wf S" and "\<And>fl. ms_slot S addr = Some (None, fl) \<Longrightarrow> \<not> flags_contains fl flags"
  shows "handle_page_fault E addr flags S = (Err BadAddress, S)"
proof (cases "find_area addr (owned_mem S)")
  case (Some e)
  obtain k a where e: "e = (k, a)" by (cases e)
  note f = find_area_Some [OF assms(1) Some [unfolded e]]
  have slot: "ms_slot S addr = Some (pages a ! ((unat addr - unat (vaddr a)) div 4096), area_flags a)"
    using Some f(4) by (simp add: ms_slot_def e slot_at_def)
  have "area_handle_page_fault E addr flags (a, ms_mm S) = (Ok False, (a, ms_mm S))"
    using assms(2) [of "area_flags a"] slot in_area_iff [OF f(3), of addr] f(4)
    by (auto simp: area_handle_page_fault_def page_index_nat [OF f(3,4)] Let_def)
  moreover have "bt_insert k a (owned_mem S) = owned_mem S"
    using f(1) assms(1) by (auto simp: ms_wf_def intro: bt_insert_same)
  ultimately show ?thesis
    using Some by (simp add: handle_page_fault_def e fault_in_def and_then_def del: find_area.simps)
qed (simp add: handle_page_fault_def)

text \<open>
  Unmapping a range of length zero that starts at an area removes the whole area, since the
  branch meant for a range that covers the end of the area is taken.
\<close>

lemma munmap_zero_removes_area:
  assumes "ms_wf S" and "(vaddr a, a) \<in> set (owned_mem S)" and "pages a \<noteq> []"
    and "munmap E (vaddr a) 0 S = (Ok (), S')"
  shows "in_area a w \<Longrightarrow> ms_slot S' w = None"
proof (rule ccontr)
  let ?ov = "\<lambda>e. overlap_with (vaddr a) (vaddr a) (snd e)"
  assume w: "in_area a w" and "ms_slot S' w \<noteq> None"
  then obtain e x where e: "e \<in> set (owned_mem S')" "slot_at (snd e) w = Some x"
    by (auto simp: ms_slot_def find_Some_iff split: option.splits dest: nth_mem)
  have awf: "area_wf a" and ina: "in_area a (vaddr a)"
    using assms(1-3) by (auto simp: ms_wf_def areas_wf_def in_area_def)
  have lt: "vaddr a < end_va a" using in_area_iff [OF awf] ina by simp
  have "e = (vaddr a, a)" if "e \<in> set (owned_mem S)" "?ov e" for e
  proof -
    have "area_wf (snd e)" using assms(1) that(1) by (simp add: ms_wf_def areas_wf_def)
    then have "in_area (snd e) (vaddr a)" using that(2) in_area_iff by (auto simp: overlap_with_def)
    then show ?thesis using ms_wf_same [OF assms(1) that(1) assms(2)] ina by simp
  qed
  moreover have "?ov (vaddr a, a)" using lt by (simp add: overlap_with_def)
  moreover have "distinct (owned_mem S)" using bt_ok_distinct assms(1) by (auto simp: ms_wf_def distinct_map)
  ultimately have "filter ?ov (owned_mem S) = [(vaddr a, a)]"
    by (intro filter_single [OF _ assms(2)]) auto
  then have fl: "filter (\<lambda>(_, a'). overlap_with (vaddr a) (vaddr a) a') (owned_mem S) = [(vaddr a, a)]"
    by (simp add: case_prod_unfold)
  have z: "round_pages 0 * PAGE_SIZE_4K = 0" by (simp add: round_pages_def PAGE_SIZE_4K_def)
  have cases: "\<not> contained_in (vaddr a) (vaddr a) a" "\<not> strict_contain (vaddr a) (vaddr a) a"
    using lt by (auto simp: contained_in_def strict_contain_def)
  obtain b s where r: "shrink_right E (vaddr a) a (ms_mm S) = (Ok b, s)"
    "insert_area b (S\<lparr>owned_mem := filter (\<lambda>(_, a'). \<not> overlap_with (vaddr a) (vaddr a) a') (owned_mem S), ms_mm := s\<rparr>) = (Ok (), S')"
    using assms(4) cases
    by (auto simp: munmap_def split_for_area_def Let_def z fl split_one_def result_simps split: if_splits)
  have "below (vaddr a) a b" by (rule shrink_right_Ok [OF awf _ _ r(1)]) (use lt in simp_all)
  then have "slot_at b w = None" using w by (simp add: below_def in_area_def word_less_nat_alt)
  moreover have "e = (vaddr b, b) \<or> e \<in> set (owned_mem S) \<and> \<not> ?ov e"
    using e(1) adds_one [OF r(2)] by (auto simp: adds_def)
  ultimately have "e \<in> set (owned_mem S)" "\<not> ?ov e" using e(2) by auto
  then show False
    using ms_wf_same [OF assms(1) _ assms(2)] slot_at_in [OF e(2)] w \<open>?ov (vaddr a, a)\<close> by fastforce
qed

end
