(* ===== verification/LinkedList.thy ===== *)
theory LinkedList
  imports Prelude
begin

text \<open>
  The intrusive circular doubly-linked list of \<open>crates/linked_list/src/unsafe_list.rs\<close> and its
  owning wrapper \<open>linked_list.rs\<close>. The links live in the elements, so the state has them as a map
  from elements to links, uninitialised for an element that is in no list; reading or writing
  uninitialised links, undefined behaviour in Rust, is the outcome \<open>Panic\<close>. The contract
  \<open>intrusive_list\<close> says that the operations are those of a plain list of distinct elements; it is
  interpreted on these definitions.
\<close>

subsection \<open>\<open>unsafe_list.rs\<close>\<close>

record 'e LinksInner =
  next_of :: 'e
  prev_of :: 'e

record 'e RawList =
  first :: "'e option"
  links :: "'e \<Rightarrow> 'e LinksInner option"

type_synonym ('e, 'a) list_action = "('e RawList, 'a, unit) action"

definition raw_is_empty :: "'e RawList \<Rightarrow> bool" where
  "raw_is_empty s \<longleftrightarrow> first s = None"

definition inner_ref :: "'e RawList \<Rightarrow> 'e \<Rightarrow> ('e LinksInner, unit) result" where
  "inner_ref s ptr = (case links s ptr of Some l \<Rightarrow> Ok l | None \<Rightarrow> Panic)"

text \<open>\<open>self.inner(ptr).field = v\<close>\<close>

definition upd_inner :: "'e \<Rightarrow> ('e LinksInner \<Rightarrow> 'e LinksInner) \<Rightarrow> ('e, unit) list_action" where
  "upd_inner ptr f s = (case links s ptr of
      Some l \<Rightarrow> (Ok (), s\<lparr>links := (links s)(ptr \<mapsto> f l)\<rparr>) | None \<Rightarrow> (Panic, s))"

definition insert_only_entry :: "'e \<Rightarrow> ('e, unit) list_action" where
  "insert_only_entry obj s =
     (Ok (), s\<lparr>links := (links s)(obj \<mapsto> \<lparr>next_of = obj, prev_of = obj\<rparr>), first := Some obj\<rparr>)"

definition insert_after :: "'e \<Rightarrow> 'e \<Rightarrow> ('e, unit) list_action" where
  "insert_after existing new s =
     (case inner_ref s existing of
        Ok existing_inner \<Rightarrow>
          let nxt = next_of existing_inner in
          and_then (\<lambda>s. (Ok (), s\<lparr>links := (links s)(new \<mapsto> \<lparr>next_of = nxt, prev_of = existing\<rparr>)\<rparr>)) (\<lambda>_.
            and_then (upd_inner existing (next_of_update (\<lambda>_. new))) (\<lambda>_.
              upd_inner nxt (prev_of_update (\<lambda>_. new)))) s
      | _ \<Rightarrow> (Panic, s))"

definition insert_before :: "'e \<Rightarrow> 'e \<Rightarrow> ('e, unit) list_action" where
  "insert_before existing new s =
     (case inner_ref s existing of
        Ok l \<Rightarrow> and_then (insert_after (prev_of l) new) (\<lambda>_ s.
          (case first s of
             None \<Rightarrow> (Panic, s)
           | Some f \<Rightarrow> (Ok (), if f = existing then s\<lparr>first := Some new\<rparr> else s))) s
      | _ \<Rightarrow> (Panic, s))"

definition raw_push_back :: "'e \<Rightarrow> ('e, unit) list_action" where
  "raw_push_back obj s = (case first s of
      Some f \<Rightarrow> (case inner_ref s f of Ok l \<Rightarrow> insert_after (prev_of l) obj s | _ \<Rightarrow> (Panic, s))
    | None \<Rightarrow> insert_only_entry obj s)"

definition raw_push_front :: "'e \<Rightarrow> ('e, unit) list_action" where
  "raw_push_front obj s = (case first s of
      Some f \<Rightarrow> insert_before f obj s
    | None \<Rightarrow> insert_only_entry obj s)"

definition raw_remove :: "'e \<Rightarrow> ('e, unit) list_action" where
  "raw_remove entry s =
     (case inner_ref s entry of
        Ok inner \<Rightarrow>
          let nxt = next_of inner; prv = prev_of inner;
              s1 = s\<lparr>links := (links s)(entry := None)\<rparr> in
          if nxt = entry then (Ok (), s1\<lparr>first := None\<rparr>)
          else and_then (upd_inner prv (next_of_update (\<lambda>_. nxt))) (\<lambda>_.
                 and_then (upd_inner nxt (prev_of_update (\<lambda>_. prv))) (\<lambda>_ s.
                   (case first s of
                      None \<Rightarrow> (Panic, s)
                    | Some f \<Rightarrow> (Ok (), if f = entry then s\<lparr>first := Some nxt\<rparr> else s)))) s1
      | _ \<Rightarrow> (Panic, s))"

definition raw_front :: "'e RawList \<Rightarrow> 'e option" where
  "raw_front s = first s"

definition raw_back :: "'e RawList \<Rightarrow> ('e option, unit) result" where
  "raw_back s = (case first s of None \<Rightarrow> Ok None
     | Some f \<Rightarrow> res_bind (inner_ref s f) (\<lambda>l. Ok (Some (prev_of l))))"

definition move_next :: "'e RawList \<Rightarrow> 'e option \<Rightarrow> ('e option, unit) result" where
  "move_next s cur = (case cur of
      None \<Rightarrow> Ok (first s)
    | Some c \<Rightarrow> (case first s of
        Some head \<Rightarrow> res_bind (inner_ref s c) (\<lambda>l. Ok (if next_of l \<noteq> head then Some (next_of l) else None))
      | None \<Rightarrow> Ok None))"

definition move_prev :: "'e RawList \<Rightarrow> 'e option \<Rightarrow> ('e option, unit) result" where
  "move_prev s cur = (case first s of
      None \<Rightarrow> Ok None
    | Some head \<Rightarrow>
        if cur = Some head then Ok None
        else res_bind (inner_ref s (case cur of None \<Rightarrow> head | Some c \<Rightarrow> c)) (\<lambda>l. Ok (Some (prev_of l))))"

text \<open>A loop over an iterator: \<open>Iterator::next\<close> gives the current element and moves on.\<close>

fun iter_from :: "nat \<Rightarrow> 'e RawList \<Rightarrow> 'e option \<Rightarrow> ('e list, unit) result" where
  "iter_from 0 s cur = Diverge"
| "iter_from (Suc fuel) s None = Ok []"
| "iter_from (Suc fuel) s (Some c) =
     res_bind (move_next s (Some c)) (\<lambda>cur. res_bind (iter_from fuel s cur) (\<lambda>xs. Ok (c # xs)))"

definition iter_all :: "nat \<Rightarrow> 'e RawList \<Rightarrow> ('e list, unit) result" where
  "iter_all fuel s = iter_from fuel s (raw_front s)"

subsection \<open>\<open>linked_list.rs\<close>\<close>

definition list_new :: "('e \<Rightarrow> 'e LinksInner option) \<Rightarrow> 'e RawList" where
  "list_new heap = \<lparr>first = None, links = heap\<rparr>"

definition list_push_back :: "'e \<Rightarrow> ('e, unit) list_action" where
  "list_push_back data = raw_push_back data"

definition list_remove :: "'e \<Rightarrow> ('e, 'e option) list_action" where
  "list_remove data = and_then (raw_remove data) (\<lambda>_ s. (Ok (Some data), s))"

definition list_pop_front :: "('e, 'e option) list_action" where
  "list_pop_front s = (case raw_front s of
      None \<Rightarrow> (Ok None, s)
    | Some entry \<Rightarrow> and_then (raw_remove entry) (\<lambda>_ s. (Ok (Some entry), s)) s)"

fun list_drop :: "nat \<Rightarrow> ('e, unit) list_action" where
  "list_drop 0 s = (Diverge, s)"
| "list_drop (Suc fuel) s = and_then list_pop_front
     (\<lambda>r. case r of None \<Rightarrow> (\<lambda>s. (Ok (), s)) | Some _ \<Rightarrow> list_drop fuel) s"

subsection \<open>Rings of elements\<close>

definition linked :: "('e \<Rightarrow> 'e LinksInner option) \<Rightarrow> 'e \<Rightarrow> 'e \<Rightarrow> bool" where
  "linked L a b \<longleftrightarrow> map_option next_of (L a) = Some b \<and> map_option prev_of (L b) = Some a"

text \<open>\<open>chain L a xs b\<close>: from \<open>a\<close> the links run through \<open>xs\<close> to \<open>b\<close>, and back.\<close>

fun chain :: "('e \<Rightarrow> 'e LinksInner option) \<Rightarrow> 'e \<Rightarrow> 'e list \<Rightarrow> 'e \<Rightarrow> bool" where
  "chain L a [] b = linked L a b"
| "chain L a (x # xs) b = (linked L a x \<and> chain L x xs b)"

fun ring :: "('e \<Rightarrow> 'e LinksInner option) \<Rightarrow> 'e list \<Rightarrow> bool" where
  "ring L [] = True"
| "ring L (x # xs) = (distinct (x # xs) \<and> chain L x xs x)"

text \<open>The list state \<open>s\<close> holds the elements \<open>xs\<close>; every other element has no links.\<close>

definition holds :: "'e RawList \<Rightarrow> 'e list \<Rightarrow> bool" where
  "holds s xs \<longleftrightarrow> ring (links s) xs \<and> first s = (case xs of [] \<Rightarrow> None | x # _ \<Rightarrow> Some x) \<and>
     (\<forall>e. e \<notin> set xs \<longrightarrow> links s e = None)"

lemma chain_append [simp]: "chain L a (xs @ y # ys) b \<longleftrightarrow> chain L a xs y \<and> chain L y ys b"
  by (induction xs arbitrary: a) auto

lemma ring_rotate: "ring L (as @ bs) \<Longrightarrow> ring L (bs @ as)"
  by (cases as; cases bs) auto

text \<open>A chain reads the forward links of its elements but the last and the backward links of all but the first.\<close>

lemma chain_cong:
  assumes "\<And>x. x \<in> set (a # xs) \<Longrightarrow> map_option next_of (L' x) = map_option next_of (L x)"
    and "\<And>x. x \<in> set (xs @ [b]) \<Longrightarrow> map_option prev_of (L' x) = map_option prev_of (L x)"
  shows "chain L' a xs b \<longleftrightarrow> chain L a xs b"
  using assms by (induction xs arbitrary: a) (auto simp: linked_def)

lemma ring_insert_after:
  assumes r: "ring (links s) (p # xs)" and e: "e \<notin> set (p # xs)"
  shows "\<exists>L. insert_after p e s = (Ok (), s\<lparr>links := L\<rparr>) \<and> ring L (p # e # xs) \<and>
    (\<forall>x. x \<notin> set (p # e # xs) \<longrightarrow> L x = links s x)"
proof (cases xs)
  case Nil
  obtain l where l: "links s p = Some l" "next_of l = p" "prev_of l = p"
    using r by (auto simp: Nil linked_def)
  let ?L = "(links s)(e \<mapsto> \<lparr>next_of = p, prev_of = p\<rparr>, p \<mapsto> l\<lparr>next_of := e, prev_of := e\<rparr>)"
  have "insert_after p e s = (Ok (), s\<lparr>links := ?L\<rparr>)"
    using l e by (auto simp: insert_after_def inner_ref_def upd_inner_def and_then_def)
  moreover have "ring ?L (p # e # xs)" using e l by (auto simp: Nil linked_def)
  ultimately show ?thesis using Nil by auto
next
  case (Cons y ys)
  obtain l m where l: "links s p = Some l" "next_of l = y" and m: "links s y = Some m" "prev_of m = p"
    using r by (auto simp: Cons linked_def)
  let ?L = "(links s)(e \<mapsto> \<lparr>next_of = y, prev_of = p\<rparr>, p \<mapsto> l\<lparr>next_of := e\<rparr>, y \<mapsto> m\<lparr>prev_of := e\<rparr>)"
  have d: "p \<noteq> y" "e \<noteq> y" "e \<noteq> p" using r e by (auto simp: Cons)
  have "insert_after p e s = (Ok (), s\<lparr>links := ?L\<rparr>)"
    using l m d by (simp add: insert_after_def inner_ref_def upd_inner_def and_then_def)
  moreover have "chain ?L y ys p \<longleftrightarrow> chain (links s) y ys p"
    by (rule chain_cong) (use r e l m in \<open>auto simp: Cons\<close>)
  then have "ring ?L (p # e # xs)" using r e d l m by (auto simp: Cons linked_def)
  ultimately show ?thesis using Cons by (intro exI [of _ ?L]) auto
qed

lemma ring_remove:
  assumes r: "ring L (e # x # xs)"
  shows "\<exists>le lp ln. L e = Some le \<and> next_of le = x \<and> prev_of le = last (x # xs) \<and>
    L (last (x # xs)) = Some lp \<and> x \<noteq> e \<and> last (x # xs) \<noteq> e \<and>
    (L(e := None, last (x # xs) \<mapsto> lp\<lparr>next_of := x\<rparr>)) x = Some ln \<and>
    ring (L(e := None, last (x # xs) \<mapsto> lp\<lparr>next_of := x\<rparr>, x \<mapsto> ln\<lparr>prev_of := last (x # xs)\<rparr>)) (x # xs)"
proof (cases xs rule: rev_cases)
  case Nil
  then show ?thesis using r by (auto simp: linked_def)
next
  case (snoc ys z)
  obtain le where le: "L e = Some le" "next_of le = x" "prev_of le = z"
    using r by (auto simp: snoc linked_def)
  obtain lz where lz: "L z = Some lz" using r by (auto simp: snoc linked_def)
  obtain lx where lx: "L x = Some lx" using r by (auto simp: snoc linked_def)
  have d: "x \<noteq> z" "x \<noteq> e" "z \<noteq> e" using r by (auto simp: snoc)
  let ?L = "L(e := None, z \<mapsto> lz\<lparr>next_of := x\<rparr>, x \<mapsto> lx\<lparr>prev_of := z\<rparr>)"
  have "chain ?L x ys z \<longleftrightarrow> chain L x ys z"
    by (rule chain_cong) (use r lz lx in \<open>auto simp: snoc\<close>)
  then have "ring ?L (x # xs)" using r d by (auto simp: snoc linked_def)
  then show ?thesis using le lz lx d by (simp add: snoc)
qed

subsection \<open>The operations are those of a list\<close>

lemma holds_simps:
  "holds s [] \<longleftrightarrow> first s = None \<and> (\<forall>e. links s e = None)"
  "holds s (x # xs) \<longleftrightarrow> first s = Some x \<and> ring (links s) (x # xs) \<and> (\<forall>e. e \<notin> set (x # xs) \<longrightarrow> links s e = None)"
  by (auto simp: holds_def)

lemma holds_distinct: "holds s xs \<Longrightarrow> distinct xs"
  by (cases xs) (auto simp: holds_def)

lemma holds_insert_after:
  assumes h: "holds s (as @ p # bs)" and e: "e \<notin> set (as @ p # bs)"
  shows "\<exists>s'. insert_after p e s = (Ok (), s') \<and> holds s' (as @ p # e # bs)"
proof -
  have "ring (links s) (p # bs @ as)"
    using h ring_rotate [of "links s" as "p # bs"] by (simp add: holds_def)
  from ring_insert_after [OF this, of e] e
  obtain L where L: "insert_after p e s = (Ok (), s\<lparr>links := L\<rparr>)" "ring L (p # e # bs @ as)"
    "\<forall>x. x \<notin> set (p # e # bs @ as) \<longrightarrow> L x = links s x" by auto
  have "ring L (as @ p # e # bs)" using ring_rotate [of L "p # e # bs" as] L(2) by simp
  then show ?thesis using L h by (cases as) (auto simp: holds_def)
qed

lemma ring_prev_first: "ring L (x # xs) \<Longrightarrow> \<exists>l. L x = Some l \<and> prev_of l = last (x # xs)"
  by (cases xs rule: rev_cases) (auto simp: linked_def)

lemma ring_next: "ring L (as @ x # bs) \<Longrightarrow> \<exists>l. L x = Some l \<and> next_of l = (case bs of b # _ \<Rightarrow> b | [] \<Rightarrow> hd (as @ [x]))"
  using ring_rotate [of L as "x # bs"] by (cases bs; cases as) (auto simp: linked_def)

lemma holds_push_back:
  assumes "holds s xs" and "e \<notin> set xs"
  shows "\<exists>s'. raw_push_back e s = (Ok (), s') \<and> holds s' (xs @ [e])"
proof (cases xs rule: rev_cases)
  case Nil
  then show ?thesis
    using assms by (simp add: raw_push_back_def insert_only_entry_def holds_simps linked_def)
next
  case (snoc as p)
  obtain x ys where x: "as @ [p] = x # ys" by (cases as) auto
  have "first s = Some x" "ring (links s) (x # ys)" using assms(1) by (simp_all add: snoc x holds_simps)
  moreover obtain l where "links s x = Some l" "prev_of l = last (x # ys)"
    using ring_prev_first calculation(2) by metis
  moreover have "last (x # ys) = p" using x by (metis last_snoc)
  ultimately have "raw_push_back e s = insert_after p e s"
    by (simp add: raw_push_back_def inner_ref_def)
  then show ?thesis using holds_insert_after [of s as p "[]" e] assms by (simp add: snoc)
qed

lemma holds_push_front:
  assumes "holds s xs" and "e \<notin> set xs"
  shows "\<exists>s'. raw_push_front e s = (Ok (), s') \<and> holds s' (e # xs)"
proof (cases xs)
  case Nil
  then show ?thesis
    using assms by (simp add: raw_push_front_def insert_only_entry_def holds_simps linked_def)
next
  case (Cons x ys)
  have "ring (links s) (x # ys)" using assms(1) by (simp add: Cons holds_def)
  then obtain l where l: "links s x = Some l" "prev_of l = last (x # ys)" using ring_prev_first by metis
  obtain as where as: "x # ys = as @ [last (x # ys)]" by (metis append_butlast_last_id list.distinct(1))
  obtain s1 where s1: "insert_after (last (x # ys)) e s = (Ok (), s1)" "holds s1 (x # ys @ [e])"
    using holds_insert_after [of s as "last (x # ys)" "[]" e] assms as by (metis Cons append.assoc append_Cons append_Nil)
  have "ring (links s1) (e # x # ys)"
    using s1(2) ring_rotate [of "links s1" "x # ys" "[e]"] by (simp add: holds_def)
  then have "holds (s1\<lparr>first := Some e\<rparr>) (e # x # ys)" using s1(2) by (auto simp: holds_simps)
  moreover have "raw_push_front e s = (Ok (), s1\<lparr>first := Some e\<rparr>)"
    using assms(1) s1 l
    by (simp add: raw_push_front_def insert_before_def inner_ref_def Cons holds_simps and_then_def)
  ultimately show ?thesis by (simp add: Cons)
qed

lemma holds_remove:
  assumes h: "holds s (as @ e # bs)"
  shows "\<exists>s'. raw_remove e s = (Ok (), s') \<and> holds s' (as @ bs)"
proof (cases "bs @ as")
  case Nil
  then show ?thesis
    using h by (auto simp: raw_remove_def inner_ref_def holds_simps linked_def)
next
  case (Cons x xs)
  have "ring (links s) (e # x # xs)"
    using h ring_rotate [of "links s" as "e # bs"] Cons by (simp add: holds_def)
  moreover define z where "z = last (x # xs)"
  ultimately obtain le lp ln where l: "links s e = Some le" "next_of le = x" "prev_of le = z" "links s z = Some lp"
    "x \<noteq> e" "z \<noteq> e" "((links s)(e := None, z \<mapsto> lp\<lparr>next_of := x\<rparr>)) x = Some ln"
    "ring ((links s)(e := None, z \<mapsto> lp\<lparr>next_of := x\<rparr>, x \<mapsto> ln\<lparr>prev_of := z\<rparr>)) (x # xs)"
    using ring_remove by metis
  let ?L = "(links s)(e := None, z \<mapsto> lp\<lparr>next_of := x\<rparr>, x \<mapsto> ln\<lparr>prev_of := z\<rparr>)"
  obtain f where f: "first s = Some f" using h by (cases as) (auto simp: holds_def)
  have u: "upd_inner z (next_of_update (\<lambda>_. x)) (s\<lparr>links := (links s)(e := None)\<rparr>) =
      (Ok (), s\<lparr>links := (links s)(e := None, z \<mapsto> lp\<lparr>next_of := x\<rparr>)\<rparr>)"
    "upd_inner x (prev_of_update (\<lambda>_. z)) (s\<lparr>links := (links s)(e := None, z \<mapsto> lp\<lparr>next_of := x\<rparr>)\<rparr>) = (Ok (), s\<lparr>links := ?L\<rparr>)"
    using l(4,6,7) by (simp_all add: upd_inner_def)
  have run: "raw_remove e s = (Ok (), s\<lparr>links := ?L, first := Some (if f = e then x else f)\<rparr>)"
    using l(5) f by (simp add: raw_remove_def inner_ref_def l(1-3) Let_def and_then_def u del: fun_upd_apply)
  have "ring ?L (as @ bs)" using ring_rotate [of ?L bs as] l(8) Cons by simp
  moreover have "?L y = None" if "y \<notin> set (as @ bs)" for y
  proof -
    have "y \<notin> set (x # xs)" using that Cons by (metis Un_commute set_append)
    then have "y \<noteq> x" "y \<noteq> z" using last_in_set [of "x # xs"] by (auto simp: z_def)
    then show ?thesis using h that by (cases "y = e") (auto simp: holds_def)
  qed
  moreover have "(if f = e then x else f) = hd (as @ bs)"
    using f h Cons holds_distinct [OF h] by (cases as) (auto simp: holds_def)
  moreover have "as @ bs \<noteq> []" using Cons by auto
  ultimately have "holds (s\<lparr>links := ?L, first := Some (if f = e then x else f)\<rparr>) (as @ bs)"
    by (cases "as @ bs") (auto simp: holds_def)
  then show ?thesis using run by blast
qed

lemma holds_pop_front:
  assumes "holds s xs"
  shows "\<exists>s'. list_pop_front s = (Ok (case xs of [] \<Rightarrow> None | x # _ \<Rightarrow> Some x), s') \<and> holds s' (tl xs)"
proof (cases xs)
  case Nil
  then show ?thesis using assms by (auto simp: list_pop_front_def raw_front_def holds_simps)
next
  case (Cons x ys)
  obtain s' where "raw_remove x s = (Ok (), s')" "holds s' ys"
    using holds_remove [of s "[]" x ys] assms by (auto simp: Cons)
  then show ?thesis
    using assms by (simp add: Cons list_pop_front_def raw_front_def holds_simps(2) and_then_def)
qed

lemma holds_back: "holds s xs \<Longrightarrow> raw_back s = Ok (if xs = [] then None else Some (last xs))"
  using ring_prev_first [of "links s" "hd xs" "tl xs"]
  by (cases xs) (auto simp: raw_back_def inner_ref_def holds_def)

lemma holds_iter:
  assumes "holds s (as @ bs)" and "length bs < fuel"
  shows "iter_from fuel s (case bs of [] \<Rightarrow> None | b # _ \<Rightarrow> Some b) = Ok bs"
  using assms
proof (induction bs arbitrary: as fuel)
  case Nil
  then show ?case by (cases fuel) auto
next
  case (Cons b bs)
  obtain n where n: "fuel = Suc n" "length bs < n" using Cons.prems(2) by (cases fuel) auto
  obtain l where l: "links s b = Some l" "next_of l = (case bs of c # _ \<Rightarrow> c | [] \<Rightarrow> hd (as @ [b]))"
    using ring_next [of "links s" as b bs] Cons.prems(1) by (auto simp: holds_def)
  have f: "first s = Some (hd (as @ [b]))" using Cons.prems(1) by (cases as) (auto simp: holds_def)
  have "c \<noteq> hd (as @ [b])" if "bs = c # cs" for c cs
    using holds_distinct [OF Cons.prems(1)] that by (cases as) auto
  then have "move_next s (Some b) = Ok (case bs of [] \<Rightarrow> None | c # _ \<Rightarrow> Some c)"
    using l f by (auto simp: move_next_def inner_ref_def split: list.splits)
  moreover have "iter_from n s (case bs of [] \<Rightarrow> None | c # _ \<Rightarrow> Some c) = Ok bs"
    using Cons.IH [of "as @ [b]" n] Cons.prems(1) n(2) by simp
  ultimately show ?case by (simp add: n(1))
qed

lemma holds_drop: "holds s xs \<Longrightarrow> length xs < fuel \<Longrightarrow> \<exists>s'. list_drop fuel s = (Ok (), s') \<and> holds s' []"
proof (induction xs arbitrary: s fuel)
  case Nil
  then show ?case using holds_pop_front [OF Nil(1)] by (cases fuel) (auto simp: and_then_def)
next
  case (Cons x xs)
  obtain n where n: "fuel = Suc n" "length xs < n" using Cons.prems(2) by (cases fuel) auto
  obtain s1 where s1: "list_pop_front s = (Ok (Some x), s1)" "holds s1 xs"
    using holds_pop_front [OF Cons.prems(1)] by auto
  then show ?case using Cons.IH [OF s1(2) n(2)] by (simp add: n(1) and_then_def)
qed

lemma holds_fun:
  assumes "holds s xs" and "holds s ys"
  shows "xs = ys"
proof -
  let ?n = "Suc (max (length xs) (length ys))"
  have "iter_from ?n s (first s) = Ok xs" "iter_from ?n s (first s) = Ok ys"
    using holds_iter [of s "[]" xs ?n] holds_iter [of s "[]" ys ?n] assms by (simp_all add: holds_def)
  then show ?thesis by simp
qed

subsection \<open>The contract\<close>

locale intrusive_list =
  fixes repr :: "'s \<Rightarrow> 'e list \<Rightarrow> bool"
    and push :: "'e \<Rightarrow> ('s, unit, unit) action"
    and del :: "'e \<Rightarrow> ('s, 'e option, unit) action"
    and pop :: "('s, 'e option, unit) action"
  assumes push: "repr s xs \<Longrightarrow> e \<notin> set xs \<Longrightarrow> \<exists>s'. push e s = (Ok (), s') \<and> repr s' (xs @ [e])"
    and del: "repr s (as @ e # bs) \<Longrightarrow> \<exists>s'. del e s = (Ok (Some e), s') \<and> repr s' (as @ bs)"
    and pop: "repr s xs \<Longrightarrow> \<exists>s'. pop s = (Ok (case xs of [] \<Rightarrow> None | x # _ \<Rightarrow> Some x), s') \<and> repr s' (tl xs)"
    and repr_distinct: "repr s xs \<Longrightarrow> distinct xs"
begin

lemma push_run: "repr s xs \<Longrightarrow> e \<notin> set xs \<Longrightarrow> push e s = (r, s') \<Longrightarrow> r = Ok () \<and> repr s' (xs @ [e])"
  using push [of s xs e] by auto

lemma pop_run:
  "repr s xs \<Longrightarrow> pop s = (r, s') \<Longrightarrow> r = Ok (case xs of [] \<Rightarrow> None | x # _ \<Rightarrow> Some x) \<and> repr s' (tl xs)"
  using pop [of s xs] by auto

lemma del_run: "repr s xs \<Longrightarrow> e \<in> set xs \<Longrightarrow> del e s = (r, s') \<Longrightarrow> r = Ok (Some e) \<and> repr s' (remove1 e xs)"
proof -
  assume h: "repr s xs" "e \<in> set xs" "del e s = (r, s')"
  obtain as bs where "xs = as @ e # bs" "e \<notin> set as" using split_list_first [OF h(2)] by blast
  then show ?thesis using del [of s as e bs] h by (auto simp: remove1_append)
qed

end

interpretation raw_list: intrusive_list holds list_push_back list_remove list_pop_front
proof
  show "holds s xs \<Longrightarrow> e \<notin> set xs \<Longrightarrow> \<exists>s'. list_push_back e s = (Ok (), s') \<and> holds s' (xs @ [e])"
    for s :: "'a RawList" and xs e
    unfolding list_push_back_def by (rule holds_push_back)
  show "holds s (as @ e # bs) \<Longrightarrow> \<exists>s'. list_remove e s = (Ok (Some e), s') \<and> holds s' (as @ bs)"
    for s :: "'a RawList" and as e bs
    using holds_remove [of s as e bs] by (auto simp: list_remove_def and_then_def)
  show "holds s xs \<Longrightarrow> \<exists>s'. list_pop_front s = (Ok (case xs of [] \<Rightarrow> None | x # _ \<Rightarrow> Some x), s') \<and> holds s' (tl xs)"
    for s :: "'a RawList" and xs
    by (rule holds_pop_front)
  show "holds s xs \<Longrightarrow> distinct xs" for s :: "'a RawList" and xs by (rule holds_distinct)
qed

text \<open>
  C33: the pointer operations implement a list of distinct elements: on a ring that holds \<open>xs\<close>,
  insertion at either end, removal of a member, removal of the front, the last element, iteration
  and dropping the whole list do what they do on \<open>xs\<close>, and none reads links that are not
  initialised. Iteration and dropping end after one round for each element.
\<close>

theorem linked_list_refines:
  assumes "holds s xs"
  shows "(\<forall>e. e \<notin> set xs \<longrightarrow> (\<exists>s'. list_push_back e s = (Ok (), s') \<and> holds s' (xs @ [e])) \<and>
       (\<exists>s'. raw_push_front e s = (Ok (), s') \<and> holds s' (e # xs))) \<and>
    (\<forall>e \<in> set xs. \<exists>s'. list_remove e s = (Ok (Some e), s') \<and> holds s' (remove1 e xs)) \<and>
    (\<exists>s'. list_pop_front s = (Ok (case xs of [] \<Rightarrow> None | x # _ \<Rightarrow> Some x), s') \<and> holds s' (tl xs)) \<and>
    raw_back s = Ok (if xs = [] then None else Some (last xs)) \<and>
    iter_all (Suc (length xs)) s = Ok xs \<and>
    (\<exists>s'. list_drop (Suc (length xs)) s = (Ok (), s') \<and> holds s' [])"
proof -
  have "\<exists>s'. list_remove e s = (Ok (Some e), s') \<and> holds s' (remove1 e xs)" if "e \<in> set xs" for e
    using raw_list.del_run [OF assms that] by (cases "list_remove e s") auto
  moreover have "iter_all (Suc (length xs)) s = Ok xs"
    using holds_iter [of s "[]" xs "Suc (length xs)"] assms by (simp add: iter_all_def raw_front_def holds_def)
  ultimately show ?thesis
    using raw_list.push [OF assms] holds_push_front [OF assms] holds_pop_front [OF assms] holds_back [OF assms]
      holds_drop [OF assms lessI]
    by (intro conjI) simp_all
qed

theorem linked_list_refines_witness:
  "holds (snd (insert_only_entry (7 :: nat) (list_new Map.empty))) [7] \<and>
   iter_all 2 (snd (insert_only_entry (7 :: nat) (list_new Map.empty))) = Ok [7]"
proof -
  have h: "holds (snd (insert_only_entry (7 :: nat) (list_new Map.empty))) [7]"
    by (simp add: insert_only_entry_def list_new_def holds_simps linked_def)
  then show ?thesis using linked_list_refines [OF h] by (simp add: numeral_2_eq_2)
qed

text \<open>
  Pushing the element at the front of the list once more is not refused: it makes a ring of
  that element alone, and all the others are lost to iteration and to dropping.
\<close>

lemma push_front_element_again:
  assumes "holds s (a # x # xs)"
  shows "\<exists>s'. list_push_back a s = (Ok (), s') \<and> iter_all 2 s' = Ok [a]"
proof -
  define z where "z = last (x # xs)"
  have r: "ring (links s) (a # x # xs)" and f: "first s = Some a" using assms by (simp_all add: holds_def)
  obtain la where la: "links s a = Some la" "prev_of la = z" using ring_prev_first [OF r] by (auto simp: z_def)
  have "z \<in> set (x # xs)" unfolding z_def by (rule last_in_set) simp
  then have za: "z \<noteq> a" using r by auto
  obtain ys where ys: "x # xs = ys @ [z]" unfolding z_def by (metis append_butlast_last_id list.distinct(1))
  have "ring (links s) ((a # ys) @ z # [])" using r by (simp add: ys)
  from ring_next [OF this] obtain lz where lz: "links s z = Some lz" "next_of lz = a" by auto
  let ?L = "(links s)(a \<mapsto> \<lparr>next_of = a, prev_of = a\<rparr>, z \<mapsto> lz\<lparr>next_of := a\<rparr>)"
  have "list_push_back a s = (Ok (), s\<lparr>links := ?L\<rparr>)"
    using f la lz za by (auto simp: list_push_back_def raw_push_back_def inner_ref_def insert_after_def
        upd_inner_def and_then_def Let_def fun_upd_twist)
  moreover have "iter_all 2 (s\<lparr>links := ?L\<rparr>) = Ok [a]"
    using f za by (simp add: iter_all_def raw_front_def numeral_2_eq_2 move_next_def inner_ref_def)
  ultimately show ?thesis by blast
qed

end
