(* ===== verification/Scheduler.thy ===== *)
theory Scheduler
  imports LinkedList BTree "HOL-Library.Signed_Division" "HOL-Library.Product_Lexorder"
begin

text \<open>
  The schedulers of \<open>crates/scheduler\<close>: FIFO over the intrusive list, round robin over a \<open>VecDeque\<close>,
  and the completely fair scheduler over a \<open>BTreeMap\<close>. A task is an \<open>Arc\<close>, compared by identity; the
  atomics inside it are part of the state, by task. The trait \<open>BaseScheduler\<close> is the locale
  \<open>base_scheduler\<close>; the two queues also satisfy \<open>ready_queue\<close>, from which it follows.
\<close>

subsection \<open>\<open>fifo.rs\<close>\<close>

record 't FifoScheduler =
  fifo_ready_queue :: "'t RawList"

definition on_fifo :: "('t, 'a) list_action \<Rightarrow> ('t FifoScheduler, 'a, unit) action" where
  "on_fifo m s = (case m (fifo_ready_queue s) of (r, q) \<Rightarrow> (r, s\<lparr>fifo_ready_queue := q\<rparr>))"

definition fifo_new :: "('t \<Rightarrow> 't LinksInner option) \<Rightarrow> 't FifoScheduler" where
  "fifo_new heap = \<lparr>fifo_ready_queue = list_new heap\<rparr>"

definition fifo_add_task :: "'t \<Rightarrow> ('t FifoScheduler, unit, unit) action" where
  "fifo_add_task task = on_fifo (list_push_back task)"

definition fifo_remove_task :: "'t \<Rightarrow> ('t FifoScheduler, 't option, unit) action" where
  "fifo_remove_task task = on_fifo (list_remove task)"

definition fifo_pick_next_task :: "('t FifoScheduler, 't option, unit) action" where
  "fifo_pick_next_task = on_fifo list_pop_front"

definition fifo_put_prev_task :: "'t \<Rightarrow> bool \<Rightarrow> ('t FifoScheduler, unit, unit) action" where
  "fifo_put_prev_task prev _ = on_fifo (list_push_back prev)"

definition fifo_task_tick :: "'t \<Rightarrow> ('t FifoScheduler, bool, unit) action" where
  "fifo_task_tick _ s = (Ok False, s)"

definition fifo_set_priority :: "'t \<Rightarrow> int \<Rightarrow> ('t FifoScheduler, bool, unit) action" where
  "fifo_set_priority _ _ s = (Ok False, s)"

subsection \<open>\<open>round_robin.rs\<close>\<close>

text \<open>\<open>S\<close> is the constant \<open>MAX_TIME_SLICE as isize\<close>.\<close>

record 't RRScheduler =
  rr_ready_queue :: "'t list"
  time_slice :: "'t \<Rightarrow> int"

definition rr_new :: "('t \<Rightarrow> int) \<Rightarrow> 't RRScheduler" where
  "rr_new slices = \<lparr>rr_ready_queue = [], time_slice = slices\<rparr>"

definition reset_time_slice :: "int \<Rightarrow> 't \<Rightarrow> 't RRScheduler \<Rightarrow> 't RRScheduler" where
  "reset_time_slice S t s = s\<lparr>time_slice := (time_slice s)(t := S)\<rparr>"

definition rr_add_task :: "'t \<Rightarrow> ('t RRScheduler, unit, unit) action" where
  "rr_add_task task s = (Ok (), s\<lparr>rr_ready_queue := rr_ready_queue s @ [task]\<rparr>)"

fun position :: "('a \<Rightarrow> bool) \<Rightarrow> 'a list \<Rightarrow> nat option" where
  "position P [] = None"
| "position P (x # xs) = (if P x then Some 0 else map_option Suc (position P xs))"

definition rr_remove_task :: "'t \<Rightarrow> ('t RRScheduler, 't option, unit) action" where
  "rr_remove_task task s = (case position (\<lambda>t. t = task) (rr_ready_queue s) of
      None \<Rightarrow> (Ok None, s)
    | Some idx \<Rightarrow> (Ok (Some (rr_ready_queue s ! idx)),
        s\<lparr>rr_ready_queue := take idx (rr_ready_queue s) @ drop (Suc idx) (rr_ready_queue s)\<rparr>))"

definition rr_pick_next_task :: "('t RRScheduler, 't option, unit) action" where
  "rr_pick_next_task s = (case rr_ready_queue s of
      [] \<Rightarrow> (Ok None, s)
    | t # ts \<Rightarrow> (Ok (Some t), s\<lparr>rr_ready_queue := ts\<rparr>))"

definition rr_put_prev_task :: "int \<Rightarrow> 't \<Rightarrow> bool \<Rightarrow> ('t RRScheduler, unit, unit) action" where
  "rr_put_prev_task S prev preempt s =
     (if time_slice s prev > 0 \<and> preempt
      then (Ok (), s\<lparr>rr_ready_queue := prev # rr_ready_queue s\<rparr>)
      else let s' = reset_time_slice S prev s in
        (Ok (), s'\<lparr>rr_ready_queue := rr_ready_queue s' @ [prev]\<rparr>))"

definition rr_task_tick :: "'t \<Rightarrow> ('t RRScheduler, bool, unit) action" where
  "rr_task_tick current s = (let old_slice = time_slice s current in
     (Ok (old_slice \<le> 1), s\<lparr>time_slice := (time_slice s)(current := isize_wrap (old_slice - 1))\<rparr>))"

definition rr_set_priority :: "'t \<Rightarrow> int \<Rightarrow> ('t RRScheduler, bool, unit) action" where
  "rr_set_priority _ _ s = (Ok False, s)"

subsection \<open>\<open>cfs.rs\<close>\<close>

definition NICE2WEIGHT_POS :: "int list" where
  "NICE2WEIGHT_POS = [1024, 820, 655, 526, 423, 335, 272, 215, 172, 137, 110, 87, 70, 56, 45, 36, 29, 23, 18, 15]"

definition NICE2WEIGHT_NEG :: "int list" where
  "NICE2WEIGHT_NEG = [1024, 1277, 1586, 1991, 2501, 3121, 3906, 4904, 6100, 7620, 9548, 11916, 14949, 18705, 23254,
     29154, 36291, 46273, 56483, 71755, 88761]"

record CFSTask =
  init_vruntime :: int
  delta :: int
  nice :: int
  task_id :: int

definition CFSTask_new :: CFSTask where
  "CFSTask_new = \<lparr>init_vruntime = 0, delta = 0, nice = 0, task_id = 0\<rparr>"

definition get_weight :: "CFSTask \<Rightarrow> (int, unit) result" where
  "get_weight t =
     (if nice t \<ge> 0
      then (if nat (nice t) < length NICE2WEIGHT_POS then Ok (NICE2WEIGHT_POS ! nat (nice t)) else Panic)
      else (if nat (- nice t) < length NICE2WEIGHT_NEG then Ok (NICE2WEIGHT_NEG ! nat (- nice t)) else Panic))"

definition get_vruntime :: "CFSTask \<Rightarrow> (int, unit) result" where
  "get_vruntime t =
     (if nice t = 0 then Ok (isize_wrap (init_vruntime t + delta t))
      else res_bind (get_weight t) (\<lambda>w.
        Ok (isize_wrap (init_vruntime t + isize_wrap (delta t * 1024) sdiv w))))"

definition cfs_task_set_priority :: "int \<Rightarrow> CFSTask \<Rightarrow> (CFSTask, unit) result" where
  "cfs_task_set_priority n t = res_bind (get_vruntime t) (\<lambda>v.
     Ok (t\<lparr>init_vruntime := v, delta := 0, nice := n\<rparr>))"

definition cfs_task_task_tick :: "CFSTask \<Rightarrow> CFSTask" where
  "cfs_task_task_tick t = t\<lparr>delta := isize_wrap (delta t + 1)\<rparr>"

record 't CFScheduler =
  cfs_ready_queue :: "(int \<times> int, 't) btree"
  min_vruntime :: "int option"
  id_pool :: int
  cfs_tasks :: "'t \<Rightarrow> CFSTask"

definition cfs_new :: "('t \<Rightarrow> CFSTask) \<Rightarrow> 't CFScheduler" where
  "cfs_new tasks = \<lparr>cfs_ready_queue = [], min_vruntime = None, id_pool = 0, cfs_tasks = tasks\<rparr>"

definition upd_task :: "'t \<Rightarrow> (CFSTask \<Rightarrow> CFSTask) \<Rightarrow> 't CFScheduler \<Rightarrow> 't CFScheduler" where
  "upd_task t f s = s\<lparr>cfs_tasks := (cfs_tasks s)(t := f (cfs_tasks s t))\<rparr>"

text \<open>\<open>first_key_value\<close>, mapped to its virtual run time.\<close>

definition first_vruntime :: "(int \<times> int, 't) btree \<Rightarrow> int option" where
  "first_vruntime q = (case q of [] \<Rightarrow> None | ((v, _), _) # _ \<Rightarrow> Some v)"

definition cfs_add_task :: "'t \<Rightarrow> ('t CFScheduler, unit, unit) action" where
  "cfs_add_task task s =
     (let vruntime = (case min_vruntime s of None \<Rightarrow> 0 | Some v \<Rightarrow> v);
          taskid = id_pool s;
          s1 = upd_task task (\<lambda>t. t\<lparr>init_vruntime := vruntime, task_id := taskid\<rparr>)
                 (s\<lparr>id_pool := isize_wrap (taskid + 1)\<rparr>);
          q = bt_insert (vruntime, taskid) task (cfs_ready_queue s1)
      in (Ok (), s1\<lparr>cfs_ready_queue := q, min_vruntime := first_vruntime q\<rparr>))"

definition cfs_remove_task :: "'t \<Rightarrow> ('t CFScheduler, 't option, unit) action" where
  "cfs_remove_task task s = (case get_vruntime (cfs_tasks s task) of
      Ok v \<Rightarrow>
        let key = (v, task_id (cfs_tasks s task)) in
        (case map_of (cfs_ready_queue s) key of
           Some tmp \<Rightarrow> let q = bt_remove key (cfs_ready_queue s) in
             (Ok (Some tmp), s\<lparr>cfs_ready_queue := q, min_vruntime := first_vruntime q\<rparr>)
         | None \<Rightarrow> (Ok None, s))
    | _ \<Rightarrow> (Panic, s))"

definition cfs_pick_next_task :: "('t CFScheduler, 't option, unit) action" where
  "cfs_pick_next_task s = (case bt_pop_first (cfs_ready_queue s) of
      Some (_, v, q) \<Rightarrow> (Ok (Some v), s\<lparr>cfs_ready_queue := q\<rparr>)
    | None \<Rightarrow> (Ok None, s))"

definition cfs_put_prev_task :: "'t \<Rightarrow> bool \<Rightarrow> ('t CFScheduler, unit, unit) action" where
  "cfs_put_prev_task prev _ s =
     (let taskid = id_pool s;
          s1 = upd_task prev (\<lambda>t. t\<lparr>task_id := taskid\<rparr>) (s\<lparr>id_pool := isize_wrap (taskid + 1)\<rparr>)
      in (case get_vruntime (cfs_tasks s1 prev) of
            Ok v \<Rightarrow> (Ok (), s1\<lparr>cfs_ready_queue := bt_insert (v, taskid) prev (cfs_ready_queue s1)\<rparr>)
          | _ \<Rightarrow> (Panic, s1)))"

definition cfs_task_tick :: "'t \<Rightarrow> ('t CFScheduler, bool, unit) action" where
  "cfs_task_tick current s =
     (let s1 = upd_task current cfs_task_task_tick s in
      (case min_vruntime s1 of
         None \<Rightarrow> (Ok True, s1)
       | Some m \<Rightarrow> (case get_vruntime (cfs_tasks s1 current) of
           Ok v \<Rightarrow> (Ok (v > m), s1) | _ \<Rightarrow> (Panic, s1))))"

definition cfs_set_priority :: "'t \<Rightarrow> int \<Rightarrow> ('t CFScheduler, bool, unit) action" where
  "cfs_set_priority task prio s =
     (if - 20 \<le> prio \<and> prio \<le> 19
      then (case cfs_task_set_priority prio (cfs_tasks s task) of
              Ok t \<Rightarrow> (Ok True, upd_task task (\<lambda>_. t) s) | _ \<Rightarrow> (Panic, s))
      else (Ok False, s))"

end
