(* ===== verification/SchedulerCorrect.thy ===== *)
theory SchedulerCorrect
  imports Scheduler
begin

text \<open>
  The trait \<open>BaseScheduler\<close> as contracts. \<open>base_scheduler\<close> speaks of the set of ready tasks and is
  what the run queue relies on; \<open>ready_queue\<close> speaks of their order and gives \<open>base_scheduler\<close>. All
  three schedulers are shown to satisfy the first, FIFO and round robin the second. The number in
  \<open>ready n s A\<close> counts the insertions for which the scheduler still has fresh identifiers.
\<close>

text \<open>
  One turn: the task that is picked runs and gives the processor back. \<open>turns k\<close> is the list of the
  tasks that run in \<open>k\<close> turns.
\<close>

definition turn ::
  "('s, 't option, unit) action \<Rightarrow> ('t \<Rightarrow> bool \<Rightarrow> ('s, unit, unit) action) \<Rightarrow> ('s, 't option, unit) action" where
  "turn pick put = and_then pick (\<lambda>r. case r of None \<Rightarrow> (\<lambda>s. (Ok None, s))
     | Some t \<Rightarrow> and_then (put t False) (\<lambda>_ s. (Ok (Some t), s)))"

fun turns ::
  "('s, 't option, unit) action \<Rightarrow> ('t \<Rightarrow> bool \<Rightarrow> ('s, unit, unit) action) \<Rightarrow> nat \<Rightarrow> ('s, 't list, unit) action" where
  "turns pick put 0 s = (Ok [], s)"
| "turns pick put (Suc k) s = and_then (turn pick put) (\<lambda>r. case r of None \<Rightarrow> (\<lambda>s. (Ok [], s))
     | Some t \<Rightarrow> and_then (turns pick put k) (\<lambda>ts s. (Ok (t # ts), s))) s"

text \<open>
  A sequence of calls of a scheduler, and what it gives on a plain list of tasks: the reference
  against which the two queue schedulers are compared. A call is admissible when the task it adds is
  not in the queue and the task it removes is.
\<close>

datatype 't sched_op = AddTask 't | PickNext | PutPrev 't | RemoveTask 't

fun sched_step ::
  "('t \<Rightarrow> ('s, unit, unit) action) \<Rightarrow> ('s, 't option, unit) action \<Rightarrow> ('t \<Rightarrow> bool \<Rightarrow> ('s, unit, unit) action) \<Rightarrow>
   ('t \<Rightarrow> ('s, 't option, unit) action) \<Rightarrow> 't sched_op \<Rightarrow> ('s, 't option, unit) action" where
  "sched_step add pick put del (AddTask t) = and_then (add t) (\<lambda>_ s. (Ok None, s))"
| "sched_step add pick put del PickNext = pick"
| "sched_step add pick put del (PutPrev t) = and_then (put t False) (\<lambda>_ s. (Ok None, s))"
| "sched_step add pick put del (RemoveTask t) = del t"

fun sched_run ::
  "('t \<Rightarrow> ('s, unit, unit) action) \<Rightarrow> ('s, 't option, unit) action \<Rightarrow> ('t \<Rightarrow> bool \<Rightarrow> ('s, unit, unit) action) \<Rightarrow>
   ('t \<Rightarrow> ('s, 't option, unit) action) \<Rightarrow> 't sched_op list \<Rightarrow> ('s, 't option list, unit) action" where
  "sched_run add pick put del [] s = (Ok [], s)"
| "sched_run add pick put del (opn # ops) s =
     and_then (sched_step add pick put del opn) (\<lambda>r. and_then (sched_run add pick put del ops) (\<lambda>rs s. (Ok (r # rs), s))) s"

fun queue_step :: "'t sched_op \<Rightarrow> 't list \<Rightarrow> 't option \<times> 't list" where
  "queue_step (AddTask t) xs = (None, xs @ [t])"
| "queue_step PickNext xs = (case xs of [] \<Rightarrow> None | x # _ \<Rightarrow> Some x, tl xs)"
| "queue_step (PutPrev t) xs = (None, xs @ [t])"
| "queue_step (RemoveTask t) xs = (Some t, remove1 t xs)"

fun queue_results :: "'t sched_op list \<Rightarrow> 't list \<Rightarrow> 't option list" where
  "queue_results [] xs = []"
| "queue_results (opn # ops) xs = fst (queue_step opn xs) # queue_results ops (snd (queue_step opn xs))"

fun queue_after :: "'t sched_op list \<Rightarrow> 't list \<Rightarrow> 't list" where
  "queue_after [] xs = xs"
| "queue_after (opn # ops) xs = queue_after ops (snd (queue_step opn xs))"

fun admissible :: "'t sched_op list \<Rightarrow> 't list \<Rightarrow> bool" where
  "admissible [] xs = True"
| "admissible (AddTask t # ops) xs = (t \<notin> set xs \<and> admissible ops (xs @ [t]))"
| "admissible (PickNext # ops) xs = admissible ops (tl xs)"
| "admissible (PutPrev t # ops) xs = (t \<notin> set xs \<and> admissible ops (xs @ [t]))"
| "admissible (RemoveTask t # ops) xs = (t \<in> set xs \<and> admissible ops (remove1 t xs))"

locale base_scheduler =
  fixes ready :: "nat \<Rightarrow> 's \<Rightarrow> 't set \<Rightarrow> bool"
    and add :: "'t \<Rightarrow> ('s, unit, unit) action"
    and pick :: "('s, 't option, unit) action"
    and put :: "'t \<Rightarrow> bool \<Rightarrow> ('s, unit, unit) action"
  assumes add_ready: "ready (Suc n) s A \<Longrightarrow> t \<notin> A \<Longrightarrow> \<exists>s'. add t s = (Ok (), s') \<and> ready n s' (insert t A)"
    and put_ready: "ready (Suc n) s A \<Longrightarrow> t \<notin> A \<Longrightarrow> \<exists>s'. put t b s = (Ok (), s') \<and> ready n s' (insert t A)"
    and pick_empty: "ready n s {} \<Longrightarrow> \<exists>s'. pick s = (Ok None, s') \<and> ready n s' {}"
    and pick_some: "ready n s A \<Longrightarrow> A \<noteq> {} \<Longrightarrow> \<exists>t s'. pick s = (Ok (Some t), s') \<and> t \<in> A \<and> ready n s' (A - {t})"
begin

text \<open>Putting the running task back and picking the next one: some ready task runs, none is lost.\<close>

lemma put_pick:
  assumes "ready (Suc n) s A" and "c \<notin> A"
  shows "\<exists>t s'. and_then (put c b) (\<lambda>_. pick) s = (Ok (Some t), s') \<and> t \<in> insert c A \<and>
    ready n s' (insert c A - {t})"
proof -
  obtain s1 where s1: "put c b s = (Ok (), s1)" "ready n s1 (insert c A)" using put_ready [OF assms] by blast
  obtain t s' where "pick s1 = (Ok (Some t), s')" "t \<in> insert c A" "ready n s' (insert c A - {t})"
    using pick_some [OF s1(2)] by blast
  then show ?thesis using s1(1) by (auto simp: and_then_def)
qed

end

locale ready_queue =
  fixes queue :: "'s \<Rightarrow> 't list \<Rightarrow> bool"
    and add :: "'t \<Rightarrow> ('s, unit, unit) action"
    and pick :: "('s, 't option, unit) action"
    and put :: "'t \<Rightarrow> bool \<Rightarrow> ('s, unit, unit) action"
    and del :: "'t \<Rightarrow> ('s, 't option, unit) action"
  assumes add_queue: "queue s xs \<Longrightarrow> t \<notin> set xs \<Longrightarrow> \<exists>s'. add t s = (Ok (), s') \<and> queue s' (xs @ [t])"
    and yield_queue: "queue s xs \<Longrightarrow> t \<notin> set xs \<Longrightarrow> \<exists>s'. put t False s = (Ok (), s') \<and> queue s' (xs @ [t])"
    and preempt_queue: "queue s xs \<Longrightarrow> t \<notin> set xs \<Longrightarrow>
      \<exists>s'. put t True s = (Ok (), s') \<and> (queue s' (t # xs) \<or> queue s' (xs @ [t]))"
    and pick_queue: "queue s xs \<Longrightarrow>
      \<exists>s'. pick s = (Ok (case xs of [] \<Rightarrow> None | x # _ \<Rightarrow> Some x), s') \<and> queue s' (tl xs)"
    and del_queue: "queue s xs \<Longrightarrow> t \<in> set xs \<Longrightarrow> \<exists>s'. del t s = (Ok (Some t), s') \<and> queue s' (remove1 t xs)"
    and queue_distinct: "queue s xs \<Longrightarrow> distinct xs"
    and queue_fun: "queue s xs \<Longrightarrow> queue s ys \<Longrightarrow> xs = ys"
begin

lemma turn_rotates:
  assumes "queue s (x # xs)"
  shows "\<exists>s'. turn pick put s = (Ok (Some x), s') \<and> queue s' (xs @ [x])"
proof -
  obtain s1 where s1: "pick s = (Ok (Some x), s1)" "queue s1 xs" using pick_queue [OF assms] by auto
  have "x \<notin> set xs" using queue_distinct [OF assms] by simp
  then obtain s2 where "put x False s1 = (Ok (), s2)" "queue s2 (xs @ [x])" using yield_queue [OF s1(2)] by blast
  then show ?thesis using s1(1) by (auto simp: turn_def and_then_def)
qed

lemma turns_rotate:
  "queue s xs \<Longrightarrow> k \<le> length xs \<Longrightarrow> \<exists>s'. turns pick put k s = (Ok (take k xs), s') \<and> queue s' (drop k xs @ take k xs)"
proof (induction k arbitrary: s xs)
  case (Suc k)
  obtain x ys where xs: "xs = x # ys" using Suc.prems(2) by (cases xs) auto
  obtain s1 where s1: "turn pick put s = (Ok (Some x), s1)" "queue s1 (ys @ [x])"
    using turn_rotates [OF Suc.prems(1) [unfolded xs]] by blast
  obtain s2 where "turns pick put k s1 = (Ok (take k (ys @ [x])), s2)" "queue s2 (drop k (ys @ [x]) @ take k (ys @ [x]))"
    using Suc.IH [OF s1(2)] Suc.prems(2) by (auto simp: xs)
  then show ?case using s1(1) Suc.prems(2) by (auto simp: xs and_then_def)
qed (auto simp: and_then_def)

lemma queue_ops_refine:
  "queue s xs \<Longrightarrow> admissible ops xs \<Longrightarrow>
    \<exists>s'. sched_run add pick put del ops s = (Ok (queue_results ops xs), s') \<and> queue s' (queue_after ops xs)"
proof (induction ops arbitrary: s xs)
  case (Cons opn ops)
  have "\<exists>s1. sched_step add pick put del opn s = (Ok (fst (queue_step opn xs)), s1) \<and> queue s1 (snd (queue_step opn xs))"
    using Cons.prems add_queue [OF Cons.prems(1)] yield_queue [OF Cons.prems(1)] pick_queue [OF Cons.prems(1)]
      del_queue [OF Cons.prems(1)]
    by (cases opn) (fastforce simp: and_then_def)+
  then obtain s1 where s1: "sched_step add pick put del opn s = (Ok (fst (queue_step opn xs)), s1)"
      "queue s1 (snd (queue_step opn xs))" by blast
  have "admissible ops (snd (queue_step opn xs))" using Cons.prems(2) by (cases opn) auto
  then show ?case using Cons.IH [OF s1(2)] s1(1) by (auto simp: and_then_def)
qed simp

lemma queue_pick_some:
  "queue s xs \<Longrightarrow> xs \<noteq> [] \<Longrightarrow> \<exists>t s'. pick s = (Ok (Some t), s') \<and> t \<in> set xs \<and> (\<exists>ys. queue s' ys \<and> set ys = set xs - {t})"
  using pick_queue [of s xs] queue_distinct [of s xs] by (cases xs) auto

end

sublocale ready_queue \<subseteq> base_scheduler "\<lambda>_ s A. \<exists>xs. queue s xs \<and> set xs = A" add pick put
proof
  fix n s A t b
  assume h: "\<exists>xs. queue s xs \<and> set xs = A"
  then obtain xs where xs: "queue s xs" "set xs = A" by blast
  show "\<exists>s'. add t s = (Ok (), s') \<and> (\<exists>xs. queue s' xs \<and> set xs = insert t A)" if "t \<notin> A"
    using add_queue [OF xs(1), of t] that xs(2) by fastforce
  show "\<exists>s'. put t b s = (Ok (), s') \<and> (\<exists>xs. queue s' xs \<and> set xs = insert t A)" if "t \<notin> A"
    using yield_queue [OF xs(1), of t] preempt_queue [OF xs(1), of t] that xs(2) by (cases b) fastforce+
  show "\<exists>t s'. pick s = (Ok (Some t), s') \<and> t \<in> A \<and> (\<exists>xs. queue s' xs \<and> set xs = A - {t})" if "A \<noteq> {}"
    using queue_pick_some [OF xs(1)] that xs(2) by blast
next
  fix n s
  assume "\<exists>xs. queue s xs \<and> set xs = {}"
  then show "\<exists>s'. pick s = (Ok None, s') \<and> (\<exists>xs. queue s' xs \<and> set xs = {})"
    using pick_queue [of s "[]"] by auto
qed

subsection \<open>FIFO and round robin\<close>

definition fifo_queue :: "'t FifoScheduler \<Rightarrow> 't list \<Rightarrow> bool" where
  "fifo_queue s xs \<longleftrightarrow> holds (fifo_ready_queue s) xs"

definition rr_queue :: "'t RRScheduler \<Rightarrow> 't list \<Rightarrow> bool" where
  "rr_queue s xs \<longleftrightarrow> rr_ready_queue s = xs \<and> distinct xs"

lemma position_nth: "t \<in> set xs \<Longrightarrow> \<exists>i. position (\<lambda>x. x = t) xs = Some i \<and> xs ! i = t \<and>
    take i xs @ drop (Suc i) xs = remove1 t xs"
  by (induction xs) auto

interpretation fifo: ready_queue fifo_queue fifo_add_task fifo_pick_next_task fifo_put_prev_task fifo_remove_task
proof
  fix s :: "'a FifoScheduler" and xs t
  assume q: "fifo_queue s xs"
  then have h: "holds (fifo_ready_queue s) xs" by (simp add: fifo_queue_def)
  show "distinct xs" by (rule holds_distinct [OF h])
  show "xs = ys" if "fifo_queue s ys" for ys using holds_fun [OF h] that by (simp add: fifo_queue_def)
  show "\<exists>s'. fifo_pick_next_task s = (Ok (case xs of [] \<Rightarrow> None | x # _ \<Rightarrow> Some x), s') \<and> fifo_queue s' (tl xs)"
    using raw_list.pop [OF h] by (auto simp: fifo_pick_next_task_def on_fifo_def fifo_queue_def)
  show "\<exists>s'. fifo_add_task t s = (Ok (), s') \<and> fifo_queue s' (xs @ [t])" if "t \<notin> set xs"
    using raw_list.push [OF h that] by (auto simp: fifo_add_task_def on_fifo_def fifo_queue_def)
  show "\<exists>s'. fifo_put_prev_task t False s = (Ok (), s') \<and> fifo_queue s' (xs @ [t])" if "t \<notin> set xs"
    using raw_list.push [OF h that] by (auto simp: fifo_put_prev_task_def on_fifo_def fifo_queue_def)
  show "\<exists>s'. fifo_put_prev_task t True s = (Ok (), s') \<and> (fifo_queue s' (t # xs) \<or> fifo_queue s' (xs @ [t]))" if "t \<notin> set xs"
    using raw_list.push [OF h that] by (auto simp: fifo_put_prev_task_def on_fifo_def fifo_queue_def)
  show "\<exists>s'. fifo_remove_task t s = (Ok (Some t), s') \<and> fifo_queue s' (remove1 t xs)" if "t \<in> set xs"
    using raw_list.del_run [OF h that]
    by (cases "list_remove t (fifo_ready_queue s)") (auto simp: fifo_remove_task_def on_fifo_def fifo_queue_def)
qed

interpretation rr: ready_queue rr_queue rr_add_task rr_pick_next_task "rr_put_prev_task S" rr_remove_task for S :: int
proof
  fix s :: "'a RRScheduler" and xs t
  assume q: "rr_queue s xs"
  show "distinct xs" using q by (simp add: rr_queue_def)
  show "xs = ys" if "rr_queue s ys" for ys using q that by (simp add: rr_queue_def)
  show "\<exists>s'. rr_pick_next_task s = (Ok (case xs of [] \<Rightarrow> None | x # _ \<Rightarrow> Some x), s') \<and> rr_queue s' (tl xs)"
    using q by (cases xs) (auto simp: rr_pick_next_task_def rr_queue_def)
  show "\<exists>s'. rr_add_task t s = (Ok (), s') \<and> rr_queue s' (xs @ [t])" if "t \<notin> set xs"
    using q that by (auto simp: rr_add_task_def rr_queue_def)
  show "\<exists>s'. rr_put_prev_task S t False s = (Ok (), s') \<and> rr_queue s' (xs @ [t])" if "t \<notin> set xs"
    using q that by (auto simp: rr_put_prev_task_def rr_queue_def reset_time_slice_def)
  show "\<exists>s'. rr_put_prev_task S t True s = (Ok (), s') \<and> (rr_queue s' (t # xs) \<or> rr_queue s' (xs @ [t]))" if "t \<notin> set xs"
    using q that by (auto simp: rr_put_prev_task_def rr_queue_def reset_time_slice_def Let_def)
  show "\<exists>s'. rr_remove_task t s = (Ok (Some t), s') \<and> rr_queue s' (remove1 t xs)" if "t \<in> set xs"
    using q position_nth [OF that] by (auto simp: rr_remove_task_def rr_queue_def)
qed

subsection \<open>The completely fair scheduler\<close>

text \<open>
  Every task in the queue has a key of its own because the identifiers of \<open>id_pool\<close> are used once;
  \<open>n\<close> is the number of insertions before the pool would wrap.
\<close>

definition nice_ok :: "CFSTask \<Rightarrow> bool" where
  "nice_ok t \<longleftrightarrow> - 20 \<le> nice t \<and> nice t \<le> 19"

definition cfs_ready :: "nat \<Rightarrow> 't CFScheduler \<Rightarrow> 't set \<Rightarrow> bool" where
  "cfs_ready n s A \<longleftrightarrow> bt_ok (cfs_ready_queue s) \<and> distinct (map snd (cfs_ready_queue s)) \<and>
     snd ` set (cfs_ready_queue s) = A \<and> (\<forall>e \<in> set (cfs_ready_queue s). snd (fst e) < id_pool s) \<and>
     0 \<le> id_pool s \<and> id_pool s + int n < 2 ^ 63 \<and> (\<forall>t. nice_ok (cfs_tasks s t))"

lemma get_weight_ok: "nice_ok t \<Longrightarrow> \<exists>w. get_weight t = Ok w \<and> 0 < w"
proof -
  assume "nice_ok t"
  moreover have "0 < NICE2WEIGHT_POS ! k" if "k < 20" for k
    using nth_mem [of k NICE2WEIGHT_POS] that by (auto simp: NICE2WEIGHT_POS_def)
  moreover have "0 < NICE2WEIGHT_NEG ! k" if "k < 21" for k
    using nth_mem [of k NICE2WEIGHT_NEG] that by (auto simp: NICE2WEIGHT_NEG_def)
  moreover have "length NICE2WEIGHT_POS = 20" "length NICE2WEIGHT_NEG = 21"
    by (simp_all add: NICE2WEIGHT_POS_def NICE2WEIGHT_NEG_def)
  ultimately show ?thesis by (auto simp: get_weight_def nice_ok_def)
qed

lemma get_vruntime_ok: "nice_ok t \<Longrightarrow> \<exists>v. get_vruntime t = Ok v"
  using get_weight_ok [of t] by (auto simp: get_vruntime_def)

lemma distinct_snd_bt_insert:
  "map_of m k = None \<Longrightarrow> distinct (map snd m) \<Longrightarrow> v \<notin> snd ` set m \<Longrightarrow> distinct (map snd (bt_insert k v m))"
proof (induction m)
  case (Cons e m)
  obtain k' v' where e: "e = (k', v')" by (cases e)
  have k: "map_of m k = None" "k \<noteq> k'" using Cons.prems(1) by (auto simp: e split: if_splits)
  show ?case using Cons k bt_insert_new [OF k(1), of v] by (auto simp: e)
qed simp

lemma cfs_insert_ready:
  assumes r: "cfs_ready (Suc n) s A" and t: "t \<notin> A"
    and q: "cfs_ready_queue s' = bt_insert (v, id_pool s) t (cfs_ready_queue s)"
    and p: "id_pool s' = isize_wrap (id_pool s + 1)" and k: "\<forall>t. nice_ok (cfs_tasks s' t)"
  shows "cfs_ready n s' (insert t A)"
proof -
  have fresh: "map_of (cfs_ready_queue s) (v, id_pool s) = None"
    using r by (fastforce simp: cfs_ready_def map_of_eq_None_iff)
  have p': "id_pool s' = id_pool s + 1" using r p by (simp add: cfs_ready_def)
  show ?thesis
    using r t k bt_insert_ok [of "cfs_ready_queue s"] bt_insert_new [OF fresh, of t]
      distinct_snd_bt_insert [OF fresh, of t] p'
    by (auto simp: cfs_ready_def q less_Suc_eq)
qed

interpretation cfs: base_scheduler cfs_ready cfs_add_task cfs_pick_next_task cfs_put_prev_task
proof
  fix n :: nat and s :: "'a CFScheduler" and A t b
  show "\<exists>s'. cfs_add_task t s = (Ok (), s') \<and> cfs_ready n s' (insert t A)" if "cfs_ready (Suc n) s A" "t \<notin> A"
  proof -
    have "\<forall>t. nice_ok (cfs_tasks s t)" using that(1) by (simp add: cfs_ready_def)
    then have "cfs_ready n (snd (cfs_add_task t s)) (insert t A)"
      by (intro cfs_insert_ready [OF that]) (auto simp: cfs_add_task_def Let_def upd_task_def nice_ok_def)
    then show ?thesis by (auto simp: cfs_add_task_def Let_def)
  qed
  show "\<exists>s'. cfs_put_prev_task t b s = (Ok (), s') \<and> cfs_ready n s' (insert t A)" if "cfs_ready (Suc n) s A" "t \<notin> A"
  proof -
    define s1 where "s1 = upd_task t (\<lambda>x. x\<lparr>task_id := id_pool s\<rparr>) (s\<lparr>id_pool := isize_wrap (id_pool s + 1)\<rparr>)"
    have k: "\<forall>t. nice_ok (cfs_tasks s1 t)"
      using that(1) by (auto simp: cfs_ready_def s1_def upd_task_def nice_ok_def)
    obtain v where v: "get_vruntime (cfs_tasks s1 t) = Ok v" using get_vruntime_ok k by blast
    have "cfs_ready n (s1\<lparr>cfs_ready_queue := bt_insert (v, id_pool s) t (cfs_ready_queue s1)\<rparr>) (insert t A)"
      using k by (intro cfs_insert_ready [OF that]) (auto simp: s1_def upd_task_def)
    then show ?thesis using v by (auto simp: cfs_put_prev_task_def Let_def s1_def)
  qed
  show "\<exists>s'. cfs_pick_next_task s = (Ok None, s') \<and> cfs_ready n s' {}" if "cfs_ready n s {}"
    using that by (auto simp: cfs_pick_next_task_def cfs_ready_def)
  show "\<exists>t s'. cfs_pick_next_task s = (Ok (Some t), s') \<and> t \<in> A \<and> cfs_ready n s' (A - {t})" if "cfs_ready n s A" "A \<noteq> {}"
  proof -
    have "cfs_ready_queue s \<noteq> []" using that by (auto simp: cfs_ready_def)
    then obtain k v q where q: "cfs_ready_queue s = (k, v) # q" by (metis list.exhaust surj_pair)
    then have "cfs_ready n (s\<lparr>cfs_ready_queue := q\<rparr>) (A - {v})"
      using that(1) by (cases k) (auto simp: cfs_ready_def bt_ok_Cons image_iff)
    then show ?thesis using that(1) q by (auto simp: cfs_pick_next_task_def cfs_ready_def)
  qed
qed

lemma cfs_pick_queue:
  "cfs_ready_queue s = (k, t) # q \<Longrightarrow> cfs_pick_next_task s = (Ok (Some t), s\<lparr>cfs_ready_queue := q\<rparr>)"
  by (simp add: cfs_pick_next_task_def)

lemma isize_wrap_shift: "isize_wrap (v + d) = v \<Longrightarrow> - (2 ^ 63) < d \<Longrightarrow> d < 2 ^ 63 \<Longrightarrow> d = 0"
proof -
  assume h: "isize_wrap (v + d) = v" and d: "- (2 ^ 63) < d" "d < 2 ^ 63"
  have m: "(v + d + 2 ^ 63) mod 2 ^ 64 = v + 2 ^ 63" using h unfolding isize_wrap_def by linarith
  have "(2 ^ 64 :: int) dvd (v + d + 2 ^ 63) - (v + d + 2 ^ 63) mod 2 ^ 64" by (rule dvd_minus_mod)
  then have "(2 ^ 64 :: int) dvd (v + d + 2 ^ 63) - (v + 2 ^ 63)" unfolding m .
  then have "(2 ^ 64 :: int) dvd d" by simp
  then show "d = 0" using d zdvd_imp_le [of "2 ^ 64" "\<bar>d\<bar>"] by (cases "d = 0") (auto simp: dvd_abs_iff)
qed

subsection \<open>Properties\<close>

text \<open>
  No starvation under FIFO scheduling: with \<open>length xs\<close> ready tasks, every one of them runs
  exactly once, in the order of the queue, within the next \<open>length xs\<close> turns, and the queue is as
  before.
\<close>

lemma fifo_no_starvation:
  assumes "fifo_queue s xs"
  shows "\<exists>s'. turns fifo_pick_next_task fifo_put_prev_task (length xs) s = (Ok xs, s') \<and> fifo_queue s' xs"
  using fifo.turns_rotate [OF assms order_refl] by simp

text \<open>
  C32: the FIFO scheduler over the intrusive list and the round-robin scheduler over a \<open>VecDeque\<close> are
  interchangeable where no task is preempted: on the same queue, every admissible sequence of calls
  gives the same results, those of a plain list, and leaves the same queue.
\<close>

theorem fifo_rr_equivalent:
  assumes "fifo_queue f xs" and "rr_queue r xs" and "admissible ops xs"
  shows "\<exists>f' r'. sched_run fifo_add_task fifo_pick_next_task fifo_put_prev_task fifo_remove_task ops f =
        (Ok (queue_results ops xs), f') \<and> fifo_queue f' (queue_after ops xs) \<and>
      sched_run rr_add_task rr_pick_next_task (rr_put_prev_task S) rr_remove_task ops r =
        (Ok (queue_results ops xs), r') \<and> rr_queue r' (queue_after ops xs)"
  using fifo.queue_ops_refine [OF assms(1,3)] rr.queue_ops_refine [OF assms(2,3)] by blast

theorem fifo_rr_equivalent_witness:
  "\<exists>r'. sched_run rr_add_task rr_pick_next_task (rr_put_prev_task 5) rr_remove_task
       [AddTask 1, AddTask 2, PickNext, PutPrev 1, RemoveTask (2 :: nat), PickNext, PickNext] (rr_new (\<lambda>_. 5)) =
     (Ok [None, None, Some 1, None, Some 2, Some 1, None], r')"
proof -
  have f: "fifo_queue (fifo_new Map.empty :: nat FifoScheduler) []" and r: "rr_queue (rr_new (\<lambda>_. 5) :: nat RRScheduler) []"
    by (simp_all add: fifo_queue_def fifo_new_def list_new_def holds_simps rr_queue_def rr_new_def)
  let ?ops = "[AddTask 1, AddTask 2, PickNext, PutPrev 1, RemoveTask (2 :: nat), PickNext, PickNext]"
  have "admissible ?ops []" "queue_results ?ops [] = [None, None, Some 1, None, Some 2, Some 1, None]" by simp_all
  then show ?thesis using fifo_rr_equivalent [OF f r, of ?ops 5] by force
qed

text \<open>
  Under round robin a task that is preempted within its time slice goes back to the front of the
  queue with the rest of its slice and is the next to run; once the slice is used up, at the tick for
  which \<open>task_tick\<close> asks for rescheduling, it goes to the end with a full slice.
\<close>

lemma rr_preempt:
  assumes "rr_queue s xs" and "t \<notin> set xs" and "0 < time_slice s t" and "time_slice s t < 2 ^ 63"
  shows "\<exists>s1. rr_task_tick t s = (Ok (time_slice s t = 1), s1) \<and> time_slice s1 t = time_slice s t - 1 \<and>
    (\<exists>s2. rr_put_prev_task S t True s1 = (Ok (), s2) \<and>
      (if time_slice s t = 1 then rr_queue s2 (xs @ [t]) \<and> time_slice s2 t = S
       else rr_queue s2 (t # xs) \<and> time_slice s2 t = time_slice s t - 1))"
  using assms by (auto simp: rr_task_tick_def rr_put_prev_task_def rr_queue_def reset_time_slice_def Let_def)

text \<open>
  \<open>pick_next_task\<close> of the completely fair scheduler takes the task with the least virtual run time,
  the earliest inserted among equals, and removes it and no other; it returns nothing only when no
  task is ready.
\<close>

lemma cfs_picks_least:
  assumes "cfs_ready n s A"
  shows "(A = {} \<longrightarrow> cfs_pick_next_task s = (Ok None, s)) \<and>
    (A \<noteq> {} \<longrightarrow> (\<exists>k t s'. cfs_pick_next_task s = (Ok (Some t), s') \<and> (k, t) \<in> set (cfs_ready_queue s) \<and>
       (\<forall>e \<in> set (cfs_ready_queue s). k \<le> fst e) \<and> cfs_ready n s' (A - {t})))"
proof (cases "cfs_ready_queue s")
  case Nil
  then show ?thesis using assms by (auto simp: cfs_ready_def cfs_pick_next_task_def)
next
  case (Cons e q)
  obtain k t where e: "e = (k, t)" by (cases e)
  have t: "t \<in> A" and ok: "bt_ok ((k, t) # q)" using assms by (auto simp: cfs_ready_def Cons e)
  then obtain t' s' where p: "cfs_pick_next_task s = (Ok (Some t'), s')" "cfs_ready n s' (A - {t'})"
    using cfs.pick_some [OF assms] by blast
  have "t' = t" using p(1) cfs_pick_queue [OF Cons [unfolded e]] by simp
  moreover have "\<forall>e' \<in> set (cfs_ready_queue s). k \<le> fst e'" using ok by (auto simp: Cons e bt_ok_Cons)
  ultimately show ?thesis using p t by (fastforce simp: Cons e)
qed

text \<open>
  A task of default priority that has run (\<open>delta\<close> is not 0) and is made ready again by
  \<open>add_task\<close> cannot be taken out of the completely fair scheduler: it is queued under \<open>min_vruntime\<close>,
  \<open>remove_task\<close> looks under \<open>min_vruntime + delta\<close> and returns \<open>None\<close>, and the task stays in the
  queue. After \<open>put_prev_task\<close> the same removal succeeds.
\<close>

lemma cfs_remove_misses_readded:
  assumes r: "cfs_ready (Suc n) s A" and t: "t \<notin> A" and n0: "nice (cfs_tasks s t) = 0"
    and d: "delta (cfs_tasks s t) \<noteq> 0" "- (2 ^ 63) < delta (cfs_tasks s t)" "delta (cfs_tasks s t) < 2 ^ 63"
  shows "(\<exists>s1 s2. cfs_add_task t s = (Ok (), s1) \<and> cfs_ready n s1 (insert t A) \<and>
      cfs_remove_task t s1 = (Ok None, s2) \<and> cfs_ready n s2 (insert t A)) \<and>
    (\<exists>s1 s2. cfs_put_prev_task t False s = (Ok (), s1) \<and> cfs_remove_task t s1 = (Ok (Some t), s2))"
proof
  obtain s1 where s1: "cfs_add_task t s = (Ok (), s1)" "cfs_ready n s1 (insert t A)"
    using cfs.add_ready [OF r t] by blast
  define v where "v = (case min_vruntime s of None \<Rightarrow> 0 | Some v \<Rightarrow> v)"
  have q: "cfs_ready_queue s1 = bt_insert (v, id_pool s) t (cfs_ready_queue s)"
    and ct: "cfs_tasks s1 t = (cfs_tasks s t)\<lparr>init_vruntime := v, task_id := id_pool s\<rparr>"
    using s1(1) by (auto simp: cfs_add_task_def Let_def v_def upd_task_def)
  have "isize_wrap (v + delta (cfs_tasks s t)) \<noteq> v" using isize_wrap_shift d by blast
  moreover have "snd (fst e) \<noteq> id_pool s" if "e \<in> set (cfs_ready_queue s)" for e
    using r that by (auto simp: cfs_ready_def)
  ultimately have "map_of (cfs_ready_queue s1) (isize_wrap (v + delta (cfs_tasks s t)), id_pool s) = None"
    using set_bt_insert [of "(v, id_pool s)" t "cfs_ready_queue s"] unfolding q map_of_eq_None_iff by fastforce
  then have "cfs_remove_task t s1 = (Ok None, s1)" using n0 by (simp add: cfs_remove_task_def get_vruntime_def ct Let_def)
  then show "\<exists>s1 s2. cfs_add_task t s = (Ok (), s1) \<and> cfs_ready n s1 (insert t A) \<and>
      cfs_remove_task t s1 = (Ok None, s2) \<and> cfs_ready n s2 (insert t A)"
    using s1 by blast
next
  have "bt_ok (cfs_ready_queue s)" using r by (simp add: cfs_ready_def)
  then show "\<exists>s1 s2. cfs_put_prev_task t False s = (Ok (), s1) \<and> cfs_remove_task t s1 = (Ok (Some t), s2)"
    using n0 by (simp add: cfs_put_prev_task_def cfs_remove_task_def upd_task_def get_vruntime_def Let_def map_of_bt_insert)
qed

end
