(* ===== verification/TaskCtx.thy ===== *)
theory TaskCtx
  imports Prelude
begin

text \<open>
  \<open>crates/taskctx\<close>: the scheduling unit \<open>TaskInner\<close> with its states and attributes
  (\<open>task.rs\<close>) and the accounting of user and kernel time with its interval timer (\<open>stat.rs\<close>), for
  the monolithic kernel without preemption. An atomic is its value; the atomic byte of the task state
  only ever holds discriminants, because every store goes through \<open>set_state\<close>, and is a \<open>TaskState\<close>.
\<close>

subsection \<open>Time statistics: \<open>stat.rs\<close>\<close>

datatype TimerType = NONE | REAL | VIRTUAL | PROF

text \<open>\<open>From<usize>\<close>: the number is cut to an \<open>i32\<close> first.\<close>

definition TimerType_from :: "usize \<Rightarrow> TimerType" where
  "TimerType_from num = (let n = (ucast num :: 32 word) in
     if n = 0 then REAL else if n = 1 then VIRTUAL else if n = 2 then PROF else NONE)"

record TimeStat =
  utime_ns :: usize
  stime_ns :: usize
  user_timestamp :: usize
  kernel_timestamp :: usize
  timer_type :: TimerType
  timer_interval_ns :: usize
  timer_remained_ns :: usize
  pending_timer_signal :: bool

definition TimeStat_new :: TimeStat where
  "TimeStat_new = \<lparr>utime_ns = 0, stime_ns = 0, user_timestamp = 0, kernel_timestamp = 0, timer_type = NONE,
     timer_interval_ns = 0, timer_remained_ns = 0, pending_timer_signal = False\<rparr>"

definition stat_output :: "TimeStat \<Rightarrow> usize \<times> usize" where
  "stat_output s = (utime_ns s, stime_ns s)"

definition stat_reset :: "usize \<Rightarrow> TimeStat \<Rightarrow> TimeStat" where
  "stat_reset current_timestamp s =
     s\<lparr>utime_ns := 0, stime_ns := 0, user_timestamp := 0, kernel_timestamp := current_timestamp\<rparr>"

definition update_timer :: "usize \<Rightarrow> TimeStat \<Rightarrow> TimeStat" where
  "update_timer d s =
     (if timer_remained_ns s = 0 then s
      else if timer_remained_ns s > d then s\<lparr>timer_remained_ns := timer_remained_ns s - d\<rparr>
      else s\<lparr>pending_timer_signal := True\<rparr>)"

definition switch_into_kernel_mode :: "usize \<Rightarrow> TimeStat \<Rightarrow> TimeStat" where
  "switch_into_kernel_mode now s =
     (let d = now - user_timestamp s;
          s1 = s\<lparr>utime_ns := utime_ns s + d, kernel_timestamp := now\<rparr>
      in if timer_type s1 \<noteq> NONE then update_timer d s1 else s1)"

definition switch_into_user_mode :: "usize \<Rightarrow> TimeStat \<Rightarrow> TimeStat" where
  "switch_into_user_mode now s =
     (let d = now - kernel_timestamp s;
          s1 = s\<lparr>stime_ns := stime_ns s + d, user_timestamp := now\<rparr>
      in if timer_type s1 = REAL \<or> timer_type s1 = PROF then update_timer d s1 else s1)"

definition swtich_from_old_task :: "usize \<Rightarrow> TimeStat \<Rightarrow> TimeStat" where
  "swtich_from_old_task now s =
     (let d = now - kernel_timestamp s;
          s1 = s\<lparr>stime_ns := stime_ns s + d, kernel_timestamp := now\<rparr>
      in if timer_type s1 = REAL \<or> timer_type s1 = PROF then update_timer d s1 else s1)"

definition switch_to_new_task :: "usize \<Rightarrow> TimeStat \<Rightarrow> TimeStat" where
  "switch_to_new_task now s =
     (let d = now - kernel_timestamp s; s1 = s\<lparr>kernel_timestamp := now\<rparr>
      in if timer_type s1 = REAL then update_timer d s1 else s1)"

definition output_timer_as_us :: "TimeStat \<Rightarrow> usize \<times> usize" where
  "output_timer_as_us s = (timer_interval_ns s div 1000, timer_remained_ns s div 1000)"

definition stat_set_timer :: "usize \<Rightarrow> usize \<Rightarrow> usize \<Rightarrow> TimeStat \<Rightarrow> bool \<times> TimeStat" where
  "stat_set_timer interval remained ty s =
     (let s1 = s\<lparr>timer_type := TimerType_from ty, timer_interval_ns := interval,
                timer_remained_ns := remained, pending_timer_signal := False\<rparr>
      in (timer_type s1 \<noteq> NONE, s1))"

definition check_pending_timer_signal :: "TimeStat \<Rightarrow> nat option \<times> TimeStat" where
  "check_pending_timer_signal s =
     (if pending_timer_signal s
      then (case timer_type s of REAL \<Rightarrow> Some 14 | VIRTUAL \<Rightarrow> Some 26 | PROF \<Rightarrow> Some 27 | NONE \<Rightarrow> None,
            s\<lparr>pending_timer_signal := False, timer_remained_ns := timer_interval_ns s\<rparr>)
      else (None, s))"

subsection \<open>Tasks: \<open>task.rs\<close>\<close>

datatype TaskState = Running | Ready | Blocked | Exited

fun TaskState_as_u8 :: "TaskState \<Rightarrow> u8" where
  "TaskState_as_u8 Running = 1"
| "TaskState_as_u8 Ready = 2"
| "TaskState_as_u8 Blocked = 3"
| "TaskState_as_u8 Exited = 4"

definition TaskState_from :: "u8 \<Rightarrow> (TaskState, unit) result" where
  "TaskState_from n = (if n = 1 then Ok Running else if n = 2 then Ok Ready else if n = 3 then Ok Blocked
     else if n = 4 then Ok Exited else Panic)"

datatype SchedPolicy = SCHED_OTHER | SCHED_FIFO | SCHED_RR | SCHED_BATCH | SCHED_IDLE | SCHED_UNKNOWN

definition SchedPolicy_from :: "usize \<Rightarrow> SchedPolicy" where
  "SchedPolicy_from n = (if n = 0 then SCHED_OTHER else if n = 1 then SCHED_FIFO else if n = 2 then SCHED_RR
     else if n = 3 then SCHED_BATCH else if n = 5 then SCHED_IDLE else SCHED_UNKNOWN)"

fun isize_from_policy :: "SchedPolicy \<Rightarrow> int" where
  "isize_from_policy SCHED_OTHER = 0"
| "isize_from_policy SCHED_FIFO = 1"
| "isize_from_policy SCHED_RR = 2"
| "isize_from_policy SCHED_BATCH = 3"
| "isize_from_policy SCHED_IDLE = 5"
| "isize_from_policy SCHED_UNKNOWN = - 1"

record SchedStatus =
  policy :: SchedPolicy
  priority :: usize

record TaskInner =
  inner_id :: u64
  inner_name :: string
  stack_idx :: nat
  is_started :: bool
  has_been_preempted :: bool
  is_idle :: bool
  is_init :: bool
  inner_entry :: "usize option"
  inner_state :: TaskState
  exit_code :: int
  inner_token :: usize
  child_tid :: u64
  clear_child_tid :: u64
  inner_time :: TimeStat
  cpu_set :: u64
  sched_status :: SchedStatus
  send_sigchld_when_exit :: bool
  is_vforked_child :: bool

text \<open>\<open>TaskId::new\<close> takes the number of the global counter.\<close>

definition TaskId_new :: "u64 \<Rightarrow> u64 \<times> u64" where
  "TaskId_new counter = (counter, counter + 1)"

definition new_common :: "u64 \<Rightarrow> string \<Rightarrow> TaskInner" where
  "new_common i name = \<lparr>inner_id = i, inner_name = name, stack_idx = 0, is_started = False,
     has_been_preempted = False, is_idle = False, is_init = False, inner_entry = None, inner_state = Ready,
     exit_code = 0, inner_token = 0, child_tid = 0, clear_child_tid = 0, inner_time = TimeStat_new,
     cpu_set = 0, sched_status = \<lparr>policy = SCHED_FIFO, priority = 1\<rparr>, send_sigchld_when_exit = False,
     is_vforked_child = False\<rparr>"

definition TaskInner_new :: "u64 \<Rightarrow> usize \<Rightarrow> string \<Rightarrow> usize \<Rightarrow> bool \<Rightarrow> TaskInner \<times> u64" where
  "TaskInner_new counter entry name token sig_child =
     (let (i, counter') = TaskId_new counter; t = new_common i name;
          t1 = t\<lparr>inner_entry := Some entry, send_sigchld_when_exit := sig_child, inner_token := token\<rparr>
      in (if inner_name t1 = ''idle'' then t1\<lparr>is_idle := True\<rparr> else t1, counter'))"

definition TaskInner_new_init :: "u64 \<Rightarrow> string \<Rightarrow> TaskInner \<times> u64" where
  "TaskInner_new_init counter name =
     (let (i, counter') = TaskId_new counter; t = (new_common i name)\<lparr>is_init := True\<rparr>
      in (if inner_name t = ''idle'' then t\<lparr>is_idle := True\<rparr> else t, counter'))"

definition set_state :: "TaskState \<Rightarrow> TaskInner \<Rightarrow> TaskInner" where
  "set_state st t = t\<lparr>inner_state := st\<rparr>"

definition is_running :: "TaskInner \<Rightarrow> bool" where
  "is_running t \<longleftrightarrow> inner_state t = Running"

definition is_ready :: "TaskInner \<Rightarrow> bool" where
  "is_ready t \<longleftrightarrow> inner_state t = Ready"

definition is_blocked :: "TaskInner \<Rightarrow> bool" where
  "is_blocked t \<longleftrightarrow> inner_state t = Blocked"

definition set_exit_code :: "int \<Rightarrow> TaskInner \<Rightarrow> TaskInner" where
  "set_exit_code c t = t\<lparr>exit_code := c\<rparr>"

definition set_sched_status :: "SchedStatus \<Rightarrow> TaskInner \<Rightarrow> TaskInner" where
  "set_sched_status st t = t\<lparr>sched_status := st\<rparr>"

definition set_clear_child_tid :: "usize \<Rightarrow> TaskInner \<Rightarrow> TaskInner" where
  "set_clear_child_tid n t = t\<lparr>clear_child_tid := n\<rparr>"

definition set_child_tid :: "usize \<Rightarrow> TaskInner \<Rightarrow> TaskInner" where
  "set_child_tid n t = t\<lparr>child_tid := n\<rparr>"

definition set_vfork_child :: "bool \<Rightarrow> TaskInner \<Rightarrow> TaskInner" where
  "set_vfork_child b t = t\<lparr>is_vforked_child := b\<rparr>"

definition set_page_table_token :: "usize \<Rightarrow> TaskInner \<Rightarrow> TaskInner" where
  "set_page_table_token n t = t\<lparr>inner_token := n\<rparr>"

text \<open>\<open>&\<close> binds weaker than \<open><<\<close>, so the mask keeps a single bit.\<close>

definition set_cpu_set :: "usize \<Rightarrow> usize \<Rightarrow> usize \<Rightarrow> TaskInner \<Rightarrow> TaskInner" where
  "set_cpu_set m set_size max_cpu_num t =
     (let len = (if set_size * 4 > max_cpu_num then max_cpu_num else set_size * 4);
          now_mask = m AND shl1 (len - 1)
      in t\<lparr>cpu_set := now_mask\<rparr>)"

definition on_time :: "(TimeStat \<Rightarrow> TimeStat) \<Rightarrow> TaskInner \<Rightarrow> TaskInner" where
  "on_time f t = t\<lparr>inner_time := f (inner_time t)\<rparr>"

definition time_stat_from_user_to_kernel :: "usize \<Rightarrow> TaskInner \<Rightarrow> TaskInner" where
  "time_stat_from_user_to_kernel tick = on_time (switch_into_kernel_mode tick)"

definition time_stat_from_kernel_to_user :: "usize \<Rightarrow> TaskInner \<Rightarrow> TaskInner" where
  "time_stat_from_kernel_to_user tick = on_time (switch_into_user_mode tick)"

definition time_stat_when_switch_from :: "usize \<Rightarrow> TaskInner \<Rightarrow> TaskInner" where
  "time_stat_when_switch_from tick = on_time (swtich_from_old_task tick)"

definition time_stat_when_switch_to :: "usize \<Rightarrow> TaskInner \<Rightarrow> TaskInner" where
  "time_stat_when_switch_to tick = on_time (switch_to_new_task tick)"

definition time_stat_reset :: "usize \<Rightarrow> TaskInner \<Rightarrow> TaskInner" where
  "time_stat_reset tick = on_time (stat_reset tick)"

definition task_set_timer :: "usize \<Rightarrow> usize \<Rightarrow> usize \<Rightarrow> TaskInner \<Rightarrow> bool \<times> TaskInner" where
  "task_set_timer interval remained ty t =
     (case stat_set_timer interval remained ty (inner_time t) of (b, st) \<Rightarrow> (b, t\<lparr>inner_time := st\<rparr>))"

definition check_pending_signal :: "TaskInner \<Rightarrow> nat option \<times> TaskInner" where
  "check_pending_signal t =
     (case check_pending_timer_signal (inner_time t) of (r, st) \<Rightarrow> (r, t\<lparr>inner_time := st\<rparr>))"

lemma TaskState_roundtrip [simp]: "TaskState_from (TaskState_as_u8 st) = Ok st"
  by (cases st) (simp_all add: TaskState_from_def)

lemma SchedPolicy_roundtrip:
  "p \<noteq> SCHED_UNKNOWN \<Longrightarrow> SchedPolicy_from (word_of_int (isize_from_policy p)) = p"
  by (cases p) (simp_all add: SchedPolicy_from_def)

subsection \<open>Where the time of a task goes\<close>

text \<open>
  The life of a task as the kernel drives it: it is off the processor, in the kernel or in user mode,
  and each change of mode calls one of the four hooks with the current time. \<open>accounted m t u k s\<close>
  holds of the statistics \<open>s\<close> of a task that is in mode \<open>m\<close> since time \<open>t\<close> and has spent \<open>u\<close>
  nanoseconds in user mode and \<open>k\<close> in the kernel.
\<close>

datatype mode = Off | InKernel | InUser

inductive accounted :: "mode \<Rightarrow> nat \<Rightarrow> nat \<Rightarrow> nat \<Rightarrow> TimeStat \<Rightarrow> bool" where
  created: "t < 2 ^ 64 \<Longrightarrow> accounted Off t 0 0 (stat_reset (of_nat t) s)"
| switched_to: "accounted Off t u k s \<Longrightarrow> t \<le> t' \<Longrightarrow> t' < 2 ^ 64 \<Longrightarrow>
    accounted InKernel t' u k (switch_to_new_task (of_nat t') s)"
| switched_from: "accounted InKernel t u k s \<Longrightarrow> t \<le> t' \<Longrightarrow> t' < 2 ^ 64 \<Longrightarrow>
    accounted Off t' u (k + (t' - t)) (swtich_from_old_task (of_nat t') s)"
| to_user: "accounted InKernel t u k s \<Longrightarrow> t \<le> t' \<Longrightarrow> t' < 2 ^ 64 \<Longrightarrow>
    accounted InUser t' u (k + (t' - t)) (switch_into_user_mode (of_nat t') s)"
| to_kernel: "accounted InUser t u k s \<Longrightarrow> t \<le> t' \<Longrightarrow> t' < 2 ^ 64 \<Longrightarrow>
    accounted InKernel t' (u + (t' - t)) k (switch_into_kernel_mode (of_nat t') s)"

lemma update_timer_stamps [simp]:
  "utime_ns (update_timer d s) = utime_ns s" "stime_ns (update_timer d s) = stime_ns s"
  "user_timestamp (update_timer d s) = user_timestamp s" "kernel_timestamp (update_timer d s) = kernel_timestamp s"
  by (simp_all add: update_timer_def)

lemmas stat_hooks = switch_into_kernel_mode_def switch_into_user_mode_def swtich_from_old_task_def
  switch_to_new_task_def Let_def

lemma accounted_inv:
  "accounted m t u k s \<Longrightarrow> utime_ns s = of_nat u \<and> stime_ns s = of_nat k \<and> u + k \<le> t \<and> t < 2 ^ 64 \<and>
     (m = InKernel \<longrightarrow> kernel_timestamp s = of_nat t) \<and> (m = InUser \<longrightarrow> user_timestamp s = of_nat t)"
proof (induction rule: accounted.induct)
  case (created t s)
  then show ?case by (simp add: stat_reset_def)
next
  case (switched_to t u k s t')
  then show ?case by (simp add: stat_hooks)
next
  case (switched_from t u k s t')
  then show ?case by (auto simp: stat_hooks of_nat_diff)
next
  case (to_user t u k s t')
  then show ?case by (auto simp: stat_hooks of_nat_diff)
next
  case (to_kernel t u k s t')
  then show ?case by (auto simp: stat_hooks of_nat_diff)
qed



text \<open>
  The mask that \<open>new_task_inner\<close> sets for \<open>n\<close> processors, \<open>(1 << n) - 1\<close>, lets the task run on
  processor \<open>n - 1\<close> alone: \<open>set_cpu_set\<close> keeps one bit of its argument.
\<close>

lemma new_task_runs_on_last_cpu:
  assumes "0 < n" and "n \<le> 4"
  shows "cpu_set (set_cpu_set (shl1 (of_nat n) - 1) 1 (of_nat n) t) = shl1 (of_nat (n - 1))"
proof -
  consider "n = 1" | "n = 2" | "n = 3" | "n = 4" using assms by linarith
  then show ?thesis by cases (simp_all add: set_cpu_set_def shl1_def push_bit_eq_mult Let_def)
qed

text \<open>
  An interval timer that has run out gives its signal once: it is armed again with its interval,
  and when that is 0 no later time makes it fire.
\<close>

lemma one_shot_timer:
  assumes "timer_type s \<noteq> NONE" and "timer_remained_ns s \<noteq> 0" and "timer_remained_ns s \<le> d"
  shows "\<exists>n s'. check_pending_timer_signal (update_timer d s) = (Some n, s') \<and> n \<in> {14, 26, 27} \<and>
    timer_remained_ns s' = timer_interval_ns s \<and> \<not> pending_timer_signal s' \<and>
    (timer_interval_ns s = 0 \<longrightarrow> (\<forall>d'. check_pending_timer_signal (update_timer d' s') = (None, s')))"
proof -
  have "update_timer d s = s\<lparr>pending_timer_signal := True\<rparr>" using assms(2,3) by (simp add: update_timer_def)
  then show ?thesis
    using assms(1) by (cases "timer_type s") (auto simp: check_pending_timer_signal_def update_timer_def)
qed

end
