(* ===== verification/TimerList.thy ===== *)
theory TimerList
  imports Prelude "HOL-Library.Multiset"
begin

text \<open>
  \<open>crates/timer_list\<close>: events ordered by deadline. The standard library's \<open>BinaryHeap\<close> is the list of
  its elements from the greatest to the least of the order that the crate defines for them; which of
  two equal elements \<open>pop\<close> returns first is not specified there, and no property below depends on it.
  A \<open>Duration\<close> is its number of nanoseconds.
\<close>

type_synonym TimeValue = nat

datatype Ordering = Less | Equal | Greater

definition nat_cmp :: "nat \<Rightarrow> nat \<Rightarrow> Ordering" where
  "nat_cmp a b = (if a < b then Less else if a = b then Equal else Greater)"

record 'e TimerEventWrapper =
  deadline :: TimeValue
  event :: 'e

text \<open>\<open>Ord::cmp\<close> is reversed, which makes the heap of the standard library a min-heap.\<close>

definition event_cmp :: "'e TimerEventWrapper \<Rightarrow> 'e TimerEventWrapper \<Rightarrow> Ordering" where
  "event_cmp self other = nat_cmp (deadline other) (deadline self)"

fun heap_push :: "'e TimerEventWrapper \<Rightarrow> 'e TimerEventWrapper list \<Rightarrow> 'e TimerEventWrapper list" where
  "heap_push e [] = [e]"
| "heap_push e (x # xs) = (if event_cmp e x = Greater then e # x # xs else x # heap_push e xs)"

record 'e TimerList =
  events :: "'e TimerEventWrapper list"

definition timers_new :: "'e TimerList" where
  "timers_new = \<lparr>events = []\<rparr>"

definition timers_is_empty :: "'e TimerList \<Rightarrow> bool" where
  "timers_is_empty l \<longleftrightarrow> events l = []"

definition timers_set :: "TimeValue \<Rightarrow> 'e \<Rightarrow> 'e TimerList \<Rightarrow> 'e TimerList" where
  "timers_set d e l = l\<lparr>events := heap_push \<lparr>deadline = d, event = e\<rparr> (events l)\<rparr>"

definition timers_cancel :: "('e \<Rightarrow> bool) \<Rightarrow> 'e TimerList \<Rightarrow> 'e TimerList" where
  "timers_cancel condition l = l\<lparr>events := filter (\<lambda>e. \<not> condition (event e)) (events l)\<rparr>"

definition next_deadline :: "'e TimerList \<Rightarrow> TimeValue option" where
  "next_deadline l = (case events l of [] \<Rightarrow> None | e # _ \<Rightarrow> Some (deadline e))"

definition expire_one :: "TimeValue \<Rightarrow> 'e TimerList \<Rightarrow> (TimeValue \<times> 'e) option \<times> 'e TimerList" where
  "expire_one now l = (case events l of
      [] \<Rightarrow> (None, l)
    | e # es \<Rightarrow> if deadline e \<le> now then (Some (deadline e, event e), l\<lparr>events := es\<rparr>) else (None, l))"

subsection \<open>The heap invariant and what each operation keeps of it\<close>

definition timers_ok :: "'e TimerList \<Rightarrow> bool" where
  "timers_ok l \<longleftrightarrow> sorted_wrt (\<lambda>a b. deadline a \<le> deadline b) (events l)"

definition pending :: "'e TimerList \<Rightarrow> 'e TimerEventWrapper multiset" where
  "pending l = mset (events l)"

lemma event_cmp_Greater: "event_cmp a b = Greater \<longleftrightarrow> deadline a < deadline b"
  by (simp add: event_cmp_def nat_cmp_def)

lemma mset_heap_push [simp]: "mset (heap_push e xs) = add_mset e (mset xs)"
  by (induction xs) auto

lemma set_heap_push [simp]: "set (heap_push e xs) = insert e (set xs)"
  by (induction xs) auto

lemma sorted_heap_push:
  "sorted_wrt (\<lambda>a b. deadline a \<le> deadline b) xs \<Longrightarrow> sorted_wrt (\<lambda>a b. deadline a \<le> deadline b) (heap_push e xs)"
  by (induction xs) (auto simp: event_cmp_Greater)

lemma timers_new_ok [simp]: "timers_ok timers_new" "pending timers_new = {#}"
  by (simp_all add: timers_ok_def timers_new_def pending_def)

lemma timers_set_ok: "timers_ok l \<Longrightarrow> timers_ok (timers_set d e l)"
  by (simp add: timers_ok_def timers_set_def sorted_heap_push)

lemma pending_set: "pending (timers_set d e l) = add_mset \<lparr>deadline = d, event = e\<rparr> (pending l)"
  by (simp add: pending_def timers_set_def)

lemma timers_cancel_ok: "timers_ok l \<Longrightarrow> timers_ok (timers_cancel c l)"
  by (simp add: timers_ok_def timers_cancel_def sorted_wrt_filter)

lemma pending_cancel: "pending (timers_cancel c l) = filter_mset (\<lambda>e. \<not> c (event e)) (pending l)"
  by (simp add: pending_def timers_cancel_def)

lemma expire_one_None:
  "timers_ok l \<Longrightarrow> fst (expire_one now l) = None \<longleftrightarrow> (\<forall>e \<in># pending l. now < deadline e)"
  by (cases "events l") (auto simp: expire_one_def timers_ok_def pending_def)

lemma expire_one_Some:
  assumes "timers_ok l" and "expire_one now l = (Some (d, e), l')"
  shows "d \<le> now \<and> timers_ok l' \<and> pending l = add_mset \<lparr>deadline = d, event = e\<rparr> (pending l') \<and>
    (\<forall>x \<in># pending l'. d \<le> deadline x) \<and> length (events l) = Suc (length (events l'))"
proof -
  obtain w es where es: "events l = w # es" using assms(2) by (cases "events l") (auto simp: expire_one_def)
  have "w = \<lparr>deadline = d, event = e\<rparr>" "l' = l\<lparr>events := es\<rparr>" "d \<le> now"
    using assms(2) by (auto simp: expire_one_def es split: if_splits)
  then show ?thesis using assms(1) by (auto simp: timers_ok_def pending_def es)
qed

lemma expire_one_None_same: "fst (expire_one now l) = None \<Longrightarrow> snd (expire_one now l) = l"
  by (auto simp: expire_one_def split: list.splits if_splits)

end
