(* ===== verification/RunQueue.thy ===== *)
theory RunQueue
  imports SchedulerCorrect TaskCtx TimerList
begin

text \<open>
  \<open>modules/axtask\<close>: the run queue (\<open>run_queue.rs\<close>), the bookkeeping of waiting tasks
  (\<open>schedule.rs\<close>), the alarm clock (\<open>timers.rs\<close>), wait queues (\<open>wait_queue.rs\<close>) and the sleeping
  mutex (\<open>sync/mutex.rs\<close>), for the features \<open>monolithic\<close> and \<open>irq\<close>. The statics of the module are one
  record. A task is an \<open>AxTaskRef\<close>; what its locks protect is stored by task. The scheduler is a
  parameter, because a feature selects it. Wait queues are shared objects and have numbers.

  Context switches save and restore registers and trap frames; the model keeps their effect on the
  scheduling state: which task is current, its kernel stack and its page table. A function that
  blocks is cut where it gives up the processor; what it does after it is resumed is a function of its
  own. Times read from the clock are arguments.
\<close>

subsection \<open>State\<close>

record ('s, 't) SchedOps =
  sched_add :: "'t \<Rightarrow> ('s, unit, unit) action"
  sched_remove :: "'t \<Rightarrow> ('s, 't option, unit) action"
  sched_pick :: "('s, 't option, unit) action"
  sched_put :: "'t \<Rightarrow> bool \<Rightarrow> ('s, unit, unit) action"
  sched_tick :: "'t \<Rightarrow> ('s, bool, unit) action"
  sched_set_priority :: "'t \<Rightarrow> int \<Rightarrow> ('s, bool, unit) action"

record ('s, 't) Kernel =
  scheduler :: 's
  kstack_state :: "bool list"
  task_nub :: usize
  cur_stack :: nat
  inner :: "'t \<Rightarrow> TaskInner"
  current :: 't
  idle_task :: 't
  cpu_id :: usize
  page_table_root :: usize
  exited_tasks :: "'t list"
  wait_queues :: "nat \<Rightarrow> 't list"
  wait_for_task_exits :: "u64 \<rightharpoonup> nat"
  task_in_wait_queue :: "u64 set"
  task_in_time_list :: "u64 set"
  timer_list :: "'t TimerList"

text \<open>\<open>axhal::misc::terminate\<close> switches the machine off.\<close>

datatype halt = Terminated

type_synonym ('s, 't, 'a) kernel_action = "(('s, 't) Kernel, 'a, halt) action"

definition KSTACK_NUM :: nat where "KSTACK_NUM = 10"

definition WAIT_FOR_EXIT :: nat where "WAIT_FOR_EXIT = 0"

definition on_inner :: "'t \<Rightarrow> (TaskInner \<Rightarrow> TaskInner) \<Rightarrow> ('s, 't) Kernel \<Rightarrow> ('s, 't) Kernel" where
  "on_inner t f k = k\<lparr>inner := (inner k)(t := f (inner k t))\<rparr>"

definition on_sched :: "('s, 'a, unit) action \<Rightarrow> ('s, 't, 'a) kernel_action" where
  "on_sched m k = (case m (scheduler k) of (r, s) \<Rightarrow> (unwrap r, k\<lparr>scheduler := s\<rparr>))"

definition tid_of :: "('s, 't) Kernel \<Rightarrow> 't \<Rightarrow> u64" where
  "tid_of k t = inner_id (inner k t)"

definition is_kernel_task :: "TaskInner \<Rightarrow> bool" where
  "is_kernel_task t \<longleftrightarrow> inner_name t = ''gc'' \<or> inner_name t = ''idle'' \<or> inner_name t = ''main''"

subsection \<open>Kernel stacks and counters: \<open>AxRunQueue\<close>\<close>

definition taskadd :: "('s, 't) Kernel \<Rightarrow> ('s, 't) Kernel" where
  "taskadd k = k\<lparr>task_nub := task_nub k + 1\<rparr>"

definition tasksub :: "('s, 't) Kernel \<Rightarrow> ('s, 't) Kernel" where
  "tasksub k = k\<lparr>task_nub := task_nub k - 1\<rparr>"

fun first_free :: "bool list \<Rightarrow> nat list \<Rightarrow> nat option" where
  "first_free st [] = None"
| "first_free st (i # is) = (if \<not> st ! i then Some i else first_free st is)"

definition alloc_stack :: "('s, 't, nat) kernel_action" where
  "alloc_stack k = (case first_free (kstack_state k) [1..<KSTACK_NUM] of
      Some i \<Rightarrow> (Ok i, k\<lparr>kstack_state := (kstack_state k)[i := True]\<rparr>)
    | None \<Rightarrow> (Panic, k))"

definition free_stack :: "nat \<Rightarrow> ('s, 't, unit) kernel_action" where
  "free_stack idx k = (if idx < length (kstack_state k)
     then (Ok (), k\<lparr>kstack_state := (kstack_state k)[idx := False]\<rparr>) else (Panic, k))"

definition rq_add_task :: "('s, 't) SchedOps \<Rightarrow> 't \<Rightarrow> ('s, 't, unit) kernel_action" where
  "rq_add_task S task k = assert_then (is_ready (inner k task)) (on_sched (sched_add S task)) k"

definition scheduler_timer_tick :: "('s, 't) SchedOps \<Rightarrow> ('s, 't, unit) kernel_action" where
  "scheduler_timer_tick S k =
     (if \<not> is_idle (inner k (current k))
      then and_then (on_sched (sched_tick S (current k))) (\<lambda>_ k. (Ok (), k)) k
      else (Ok (), k))"

definition set_current_priority :: "('s, 't) SchedOps \<Rightarrow> int \<Rightarrow> ('s, 't, bool) kernel_action" where
  "set_current_priority S prio k = on_sched (sched_set_priority S (current k) prio) k"

subsection \<open>Rescheduling\<close>

text \<open>
  The loop of \<open>resched\<close> that chooses the next task: \<open>tid\<close> is the identifier asked for, 0 for any.
  Each round uses one unit of fuel.
\<close>

definition cpu_allows :: "('s, 't) Kernel \<Rightarrow> 't \<Rightarrow> bool" where
  "cpu_allows k t \<longleftrightarrow> cpu_set (inner k t) AND shl1 (cpu_id k) \<noteq> 0"

fun resched_pick :: "('s, 't) SchedOps \<Rightarrow> u64 \<Rightarrow> nat \<Rightarrow> u64 set \<Rightarrow> ('s, 't, 't) kernel_action" where
  "resched_pick S tid 0 task_set = (\<lambda>k. (Diverge, k))"
| "resched_pick S tid (Suc f) task_set = and_then (on_sched (sched_pick S)) (\<lambda>r k. case r of
      None \<Rightarrow> (Ok (idle_task k), k)
    | Some task \<Rightarrow>
        if tid_of k task = 3 then resched_pick S tid f task_set k
        else if tid_of k task \<in> task_set then
          (if is_started (inner k task) then (Ok task, k) else (Ok (idle_task k), k))
        else if cpu_allows k task \<and> (tid = tid_of k task \<or> tid = 0) then (Ok task, k)
        else and_then (on_sched (sched_put S task False))
          (\<lambda>_. resched_pick S tid f (insert (tid_of k task) task_set)) k)"

definition put_back :: "('s, 't) SchedOps \<Rightarrow> bool \<Rightarrow> ('s, 't, unit) kernel_action" where
  "put_back S preempt k = (let prev = current k in
     if is_running (inner k prev) then
       let k1 = on_inner prev (set_state Ready) k in
       if \<not> is_idle (inner k1 prev) then on_sched (sched_put S prev preempt) k1 else (Ok (), k1)
     else (Ok (), k))"

text \<open>
  Switching to a kernel task reschedules at once, on behalf of that task; the two functions share one
  fuel. \<open>clock\<close> gives the time that is read at each switch.
\<close>

fun resched :: "('s, 't) SchedOps \<Rightarrow> (nat \<Rightarrow> usize) \<Rightarrow> nat \<Rightarrow> bool \<Rightarrow> u64 \<Rightarrow> ('s, 't, unit) kernel_action"
  and switch_to :: "('s, 't) SchedOps \<Rightarrow> (nat \<Rightarrow> usize) \<Rightarrow> nat \<Rightarrow> 't \<Rightarrow> 't \<Rightarrow> ('s, 't, unit) kernel_action" where
  "resched S clock 0 preempt tid = (\<lambda>k. (Diverge, k))"
| "resched S clock (Suc f) preempt tid = (\<lambda>k.
     and_then (put_back S preempt) (\<lambda>_. and_then (resched_pick S tid f {})
       (\<lambda>next. switch_to S clock f (current k) next)) k)"
| "switch_to S clock 0 prev next = (\<lambda>k. (Diverge, k))"
| "switch_to S clock (Suc f) prev next = (\<lambda>k.
     let k1 = on_inner next (set_state Running) k in
     if prev = next then (Ok (), k1)
     else
       let k2 = on_inner prev (time_stat_when_switch_from (clock f)) (on_inner next (time_stat_when_switch_to (clock f)) k1);
           token = inner_token (inner k2 next);
           k3 = (if token \<noteq> 0 then k2\<lparr>page_table_root := token\<rparr> else k2)
       in if is_kernel_task (inner k3 next) then resched S clock f False 0 (k3\<lparr>current := next\<rparr>)
          else if is_started (inner k3 next) then
            (Ok (), (on_inner next (\<lambda>t. t\<lparr>has_been_preempted := False\<rparr>) k3)
               \<lparr>cur_stack := stack_idx (inner k3 next), current := next\<rparr>)
          else and_then alloc_stack (\<lambda>idx k4.
            (Ok (), (on_inner next (\<lambda>t. t\<lparr>is_started := True, stack_idx := idx\<rparr>) k4)
               \<lparr>cur_stack := idx, current := next\<rparr>)) k3)"

definition yield_current :: "('s, 't) SchedOps \<Rightarrow> (nat \<Rightarrow> usize) \<Rightarrow> nat \<Rightarrow> ('s, 't, unit) kernel_action" where
  "yield_current S clock f k = assert_then (is_running (inner k (current k))) (resched S clock f False 0) k"

definition run_task :: "('s, 't) SchedOps \<Rightarrow> (nat \<Rightarrow> usize) \<Rightarrow> nat \<Rightarrow> u64 \<Rightarrow> ('s, 't, unit) kernel_action" where
  "run_task S clock f tid = resched S clock f False tid"

text \<open>\<open>max_pri_tid\<close> is the result of \<open>get_max_pri_task_id\<close>; the saved registers are not modelled.\<close>

definition preempt_yield :: "('s, 't) SchedOps \<Rightarrow> (nat \<Rightarrow> usize) \<Rightarrow> nat \<Rightarrow> u64 \<Rightarrow> ('s, 't, unit) kernel_action" where
  "preempt_yield S clock f max_pri_tid k =
     (if max_pri_tid \<noteq> 0 \<and> has_been_preempted (inner k (current k))
      then resched S clock f True max_pri_tid k else (Ok (), k))"

definition block_current ::
  "('s, 't) SchedOps \<Rightarrow> (nat \<Rightarrow> usize) \<Rightarrow> nat \<Rightarrow> ('t \<Rightarrow> ('s, 't) Kernel \<Rightarrow> ('s, 't) Kernel) \<Rightarrow> ('s, 't, unit) kernel_action" where
  "block_current S clock f wait_queue_push k = (let curr = current k in
     assert_then (is_running (inner k curr)) (assert_then (\<not> is_idle (inner k curr)) (\<lambda>k.
       resched S clock f False 0 (wait_queue_push curr (on_inner curr (set_state Blocked) k)))) k)"

definition unblock_task :: "('s, 't) SchedOps \<Rightarrow> 't \<Rightarrow> bool \<Rightarrow> ('s, 't, unit) kernel_action" where
  "unblock_task S task _ k =
     (if is_blocked (inner k task)
      then on_sched (sched_add S task) (on_inner task (set_state Ready) k)
      else (Ok (), k))"

definition rq_remove_task :: "('s, 't) SchedOps \<Rightarrow> 't \<Rightarrow> ('s, 't, unit) kernel_action" where
  "rq_remove_task S task k =
     assert_then (\<not> is_running (inner k task)) (assert_then (\<not> is_idle (inner k task)) (\<lambda>k.
       if is_ready (inner k task)
       then (let k1 = on_inner task (set_state Exited) k in
         and_then (on_sched (sched_remove S task)) (\<lambda>_ k. (Ok (), k))
           (k1\<lparr>exited_tasks := exited_tasks k1 @ [task]\<rparr>))
       else (Ok (), k))) k"

subsection \<open>Waiting tasks: \<open>schedule.rs\<close>\<close>

definition in_timer_list :: "'t \<Rightarrow> ('s, 't) Kernel \<Rightarrow> bool" where
  "in_timer_list t k \<longleftrightarrow> tid_of k t \<in> task_in_time_list k"

definition in_wait_queue :: "'t \<Rightarrow> ('s, 't) Kernel \<Rightarrow> bool" where
  "in_wait_queue t k \<longleftrightarrow> tid_of k t \<in> task_in_wait_queue k"

definition add_to_timer_list :: "'t \<Rightarrow> ('s, 't) Kernel \<Rightarrow> ('s, 't) Kernel" where
  "add_to_timer_list t k = k\<lparr>task_in_time_list := insert (tid_of k t) (task_in_time_list k)\<rparr>"

definition add_to_wait_queue :: "'t \<Rightarrow> ('s, 't) Kernel \<Rightarrow> ('s, 't) Kernel" where
  "add_to_wait_queue t k = k\<lparr>task_in_wait_queue := insert (tid_of k t) (task_in_wait_queue k)\<rparr>"

definition remove_from_timer_list :: "'t \<Rightarrow> ('s, 't) Kernel \<Rightarrow> ('s, 't) Kernel" where
  "remove_from_timer_list t k = k\<lparr>task_in_time_list := task_in_time_list k - {tid_of k t}\<rparr>"

definition remove_from_wait_queue :: "'t \<Rightarrow> ('s, 't) Kernel \<Rightarrow> ('s, 't) Kernel" where
  "remove_from_wait_queue t k = k\<lparr>task_in_wait_queue := task_in_wait_queue k - {tid_of k t}\<rparr>"

text \<open>\<open>q\<close> is the new, empty wait queue.\<close>

definition add_wait_for_exit_queue :: "nat \<Rightarrow> 't \<Rightarrow> ('s, 't) Kernel \<Rightarrow> ('s, 't) Kernel" where
  "add_wait_for_exit_queue q t k =
     k\<lparr>wait_queues := (wait_queues k)(q := []), wait_for_task_exits := (wait_for_task_exits k)(tid_of k t \<mapsto> q)\<rparr>"

definition get_wait_for_exit_queue :: "'t \<Rightarrow> ('s, 't) Kernel \<Rightarrow> nat option" where
  "get_wait_for_exit_queue t k = wait_for_task_exits k (tid_of k t)"

subsection \<open>Wait queues: \<open>wait_queue.rs\<close>\<close>

definition set_queue :: "nat \<Rightarrow> 't list \<Rightarrow> ('s, 't) Kernel \<Rightarrow> ('s, 't) Kernel" where
  "set_queue q ts k = k\<lparr>wait_queues := (wait_queues k)(q := ts)\<rparr>"

definition wait_push :: "nat \<Rightarrow> 't \<Rightarrow> ('s, 't) Kernel \<Rightarrow> ('s, 't) Kernel" where
  "wait_push q task k = (let k1 = add_to_wait_queue task k in set_queue q (wait_queues k1 q @ [task]) k1)"

definition notify_one_locked :: "('s, 't) SchedOps \<Rightarrow> nat \<Rightarrow> bool \<Rightarrow> ('s, 't, bool) kernel_action" where
  "notify_one_locked S q rsd k = (case wait_queues k q of
      [] \<Rightarrow> (Ok False, k)
    | task # ts \<Rightarrow> and_then (unblock_task S task rsd) (\<lambda>_ k. (Ok True, k))
        (remove_from_wait_queue task (set_queue q ts k)))"

definition notify_one :: "('s, 't) SchedOps \<Rightarrow> nat \<Rightarrow> bool \<Rightarrow> ('s, 't, bool) kernel_action" where
  "notify_one S q rsd k =
     (if wait_queues k q \<noteq> [] then notify_one_locked S q rsd k else (Ok False, k))"

text \<open>The loop of \<open>notify_all\<close> and of \<open>notify_all_locked\<close>, which differ in the locks they take.\<close>

fun notify_all_loop :: "('s, 't) SchedOps \<Rightarrow> nat \<Rightarrow> bool \<Rightarrow> nat \<Rightarrow> ('s, 't, unit) kernel_action" where
  "notify_all_loop S q rsd 0 = (\<lambda>k. (Diverge, k))"
| "notify_all_loop S q rsd (Suc f) = (\<lambda>k. case wait_queues k q of
      [] \<Rightarrow> (Ok (), k)
    | task # ts \<Rightarrow> and_then (unblock_task S task rsd) (\<lambda>_. notify_all_loop S q rsd f)
        (remove_from_wait_queue task (set_queue q ts k)))"

definition notify_all_locked :: "('s, 't) SchedOps \<Rightarrow> nat \<Rightarrow> bool \<Rightarrow> ('s, 't, unit) kernel_action" where
  "notify_all_locked S q rsd k = notify_all_loop S q rsd (Suc (length (wait_queues k q))) k"

definition notify_all :: "('s, 't) SchedOps \<Rightarrow> nat \<Rightarrow> bool \<Rightarrow> ('s, 't, unit) kernel_action" where
  "notify_all S q rsd k = notify_all_loop S q rsd (Suc (length (wait_queues k q))) k"

definition notify_task :: "('s, 't) SchedOps \<Rightarrow> nat \<Rightarrow> bool \<Rightarrow> 't \<Rightarrow> ('s, 't, bool) kernel_action" where
  "notify_task S q rsd task k = (case position (\<lambda>t. t = task) (wait_queues k q) of
      Some i \<Rightarrow> and_then (unblock_task S (wait_queues k q ! i) rsd) (\<lambda>_ k. (Ok True, k))
        (set_queue q (take i (wait_queues k q) @ drop (Suc i) (wait_queues k q)) (remove_from_wait_queue task k))
    | None \<Rightarrow> (Ok False, k))"

definition notify_wait_for_exit :: "('s, 't) SchedOps \<Rightarrow> 't \<Rightarrow> ('s, 't, unit) kernel_action" where
  "notify_wait_for_exit S task k = (case wait_for_task_exits k (tid_of k task) of
      Some q \<Rightarrow> notify_all_locked S q True (k\<lparr>wait_for_task_exits := (wait_for_task_exits k)(tid_of k task := None)\<rparr>)
    | None \<Rightarrow> (Ok (), k))"

subsection \<open>Alarms: \<open>timers.rs\<close>\<close>

definition set_alarm_wakeup :: "TimeValue \<Rightarrow> 't \<Rightarrow> ('s, 't) Kernel \<Rightarrow> ('s, 't) Kernel" where
  "set_alarm_wakeup d task k = (let k1 = add_to_timer_list task k in
     k1\<lparr>timer_list := timers_set d task (timer_list k1)\<rparr>)"

definition cancel_alarm :: "'t \<Rightarrow> ('s, 't) Kernel \<Rightarrow> ('s, 't) Kernel" where
  "cancel_alarm task k = (let k1 = remove_from_timer_list task k in
     k1\<lparr>timer_list := timers_cancel (\<lambda>t. t = task) (timer_list k1)\<rparr>)"

definition wakeup_callback :: "('s, 't) SchedOps \<Rightarrow> 't \<Rightarrow> ('s, 't, unit) kernel_action" where
  "wakeup_callback S task k = unblock_task S task True (remove_from_timer_list task k)"

text \<open>\<open>nows\<close> are the readings of the clock, one for each round.\<close>

fun check_events :: "('s, 't) SchedOps \<Rightarrow> TimeValue list \<Rightarrow> ('s, 't, unit) kernel_action" where
  "check_events S [] = (\<lambda>k. (Diverge, k))"
| "check_events S (now # nows) = (\<lambda>k. case expire_one now (timer_list k) of
      (Some (_, task), l) \<Rightarrow> and_then (wakeup_callback S task) (\<lambda>_. check_events S nows) (k\<lparr>timer_list := l\<rparr>)
    | (None, l) \<Rightarrow> (Ok (), k\<lparr>timer_list := l\<rparr>))"

definition on_timer_tick :: "('s, 't) SchedOps \<Rightarrow> TimeValue list \<Rightarrow> ('s, 't, unit) kernel_action" where
  "on_timer_tick S nows = and_then (check_events S nows) (\<lambda>_. scheduler_timer_tick S)"

definition sleep_until ::
  "('s, 't) SchedOps \<Rightarrow> (nat \<Rightarrow> usize) \<Rightarrow> nat \<Rightarrow> TimeValue \<Rightarrow> TimeValue \<Rightarrow> ('s, 't, unit) kernel_action" where
  "sleep_until S clock f now d k = (let curr = current k in
     assert_then (is_running (inner k curr)) (assert_then (\<not> is_idle (inner k curr)) (\<lambda>k.
       if now < d then resched S clock f False 0 (on_inner curr (set_state Blocked) (set_alarm_wakeup d curr k))
       else (Ok (), k))) k)"

subsection \<open>Blocking on a wait queue\<close>

definition cancel_events :: "nat \<Rightarrow> 't \<Rightarrow> ('s, 't) Kernel \<Rightarrow> ('s, 't) Kernel" where
  "cancel_events q task k =
     (let k1 = (if in_wait_queue task k
                then remove_from_wait_queue task (set_queue q (filter (\<lambda>t. t \<noteq> task) (wait_queues k q)) k)
                else k)
      in if in_timer_list task k1 then cancel_alarm task k1 else k1)"

definition wq_wait :: "('s, 't) SchedOps \<Rightarrow> (nat \<Rightarrow> usize) \<Rightarrow> nat \<Rightarrow> nat \<Rightarrow> ('s, 't, unit) kernel_action" where
  "wq_wait S clock f q = block_current S clock f (wait_push q)"

text \<open>
  One round of \<open>wait_until\<close>: \<open>True\<close> when the condition holds and the function returns, \<open>False\<close> when
  the task has blocked and will go on with the next round.
\<close>

definition wait_until ::
  "('s, 't) SchedOps \<Rightarrow> (nat \<Rightarrow> usize) \<Rightarrow> nat \<Rightarrow> nat \<Rightarrow> (('s, 't) Kernel \<Rightarrow> bool) \<Rightarrow> ('s, 't, bool) kernel_action" where
  "wait_until S clock f q condition k =
     (if condition k then (Ok True, cancel_events q (current k) k)
      else and_then (block_current S clock f (wait_push q)) (\<lambda>_ k. (Ok False, k)) k)"

definition wait_timeout ::
  "('s, 't) SchedOps \<Rightarrow> (nat \<Rightarrow> usize) \<Rightarrow> nat \<Rightarrow> nat \<Rightarrow> TimeValue \<Rightarrow> TimeValue \<Rightarrow> ('s, 't, unit) kernel_action" where
  "wait_timeout S clock f q now dur k =
     block_current S clock f (wait_push q) (set_alarm_wakeup (now + dur) (current k) k)"

text \<open>What \<open>wait_timeout\<close> does for \<open>task\<close> when it runs again.\<close>

definition wait_timeout_resumed :: "nat \<Rightarrow> 't \<Rightarrow> ('s, 't) Kernel \<Rightarrow> bool \<times> ('s, 't) Kernel" where
  "wait_timeout_resumed q task k = (in_wait_queue task k, cancel_events q task k)"

subsection \<open>Exit\<close>

definition exit_current :: "('s, 't) SchedOps \<Rightarrow> (nat \<Rightarrow> usize) \<Rightarrow> nat \<Rightarrow> int \<Rightarrow> ('s, 't, unit) kernel_action" where
  "exit_current S clock f code k = (let curr = current k in
     assert_then (is_running (inner k curr)) (assert_then (\<not> is_idle (inner k curr)) (\<lambda>k.
       if task_nub k = 0 then (Err Terminated, k\<lparr>exited_tasks := []\<rparr>)
       else and_then (notify_wait_for_exit S curr) (\<lambda>_ k.
           and_then (notify_one_locked S WAIT_FOR_EXIT False) (\<lambda>_. resched S clock f False 1)
             (k\<lparr>exited_tasks := exited_tasks k @ [curr]\<rparr>))
         (on_inner curr (\<lambda>t. set_exit_code code (set_state Exited t)) k))) k)"

subsection \<open>The sleeping mutex: \<open>sync/mutex.rs\<close>\<close>

text \<open>The owner is the identifier of a task, 0 when the mutex is free; \<open>wq\<close> is its wait queue.\<close>

record MutexState =
  wq :: nat
  owner_id :: u64

definition is_locked :: "MutexState \<Rightarrow> bool" where
  "is_locked m \<longleftrightarrow> owner_id m \<noteq> 0"

text \<open>
  One round of \<open>lock\<close>; \<open>True\<close> when the lock is taken. The wait is one round of \<open>wait_until\<close>, which
  evaluates the condition again with the run queue locked.
\<close>

definition mutex_lock ::
  "('s, 't) SchedOps \<Rightarrow> (nat \<Rightarrow> usize) \<Rightarrow> nat \<Rightarrow> (('s, 't) Kernel \<times> MutexState, bool, halt) action" where
  "mutex_lock S clock f km = (case km of (k, m) \<Rightarrow>
     let current_id = tid_of k (current k) in
     if owner_id m = 0 then (Ok True, (k, m\<lparr>owner_id := current_id\<rparr>))
     else if owner_id m = current_id then (Panic, (k, m))
     else (case wait_until S clock f (wq m) (\<lambda>_. \<not> is_locked m) k of
         (Ok _, k') \<Rightarrow> (Ok False, (k', m)) | (Err e, k') \<Rightarrow> (Err e, (k', m))
       | (Panic, k') \<Rightarrow> (Panic, (k', m)) | (Diverge, k') \<Rightarrow> (Diverge, (k', m))))"

definition mutex_try_lock :: "(('s, 't) Kernel \<times> MutexState, bool, halt) action" where
  "mutex_try_lock km = (case km of (k, m) \<Rightarrow>
     if owner_id m = 0 then (Ok True, (k, m\<lparr>owner_id := tid_of k (current k)\<rparr>)) else (Ok False, (k, m)))"

definition force_unlock :: "('s, 't) SchedOps \<Rightarrow> (('s, 't) Kernel \<times> MutexState, unit, halt) action" where
  "force_unlock S km = (case km of (k, m) \<Rightarrow>
     let owner = owner_id m; m1 = m\<lparr>owner_id := 0\<rparr> in
     if owner = tid_of k (current k)
     then (case notify_one S (wq m1) True k of (r, k') \<Rightarrow>
       (case r of Ok _ \<Rightarrow> Ok () | Err e \<Rightarrow> Err e | Panic \<Rightarrow> Panic | Diverge \<Rightarrow> Diverge, (k', m1)))
     else (Panic, (k, m1)))"

end
