(* ===== verification/RunQueueCorrect.thy ===== *)
theory RunQueueCorrect
  imports RunQueue
begin

text \<open>
  The run queue over any scheduler that keeps its tasks in a queue: the invariant of the kernel's
  scheduling state, that every operation keeps it, which task \<open>resched\<close> chooses, and who is woken.
\<close>

lemmas inner_simps = on_inner_def set_state_def is_running_def is_ready_def is_blocked_def

definition fifo_ops :: "('t FifoScheduler, 't) SchedOps" where
  "fifo_ops = \<lparr>sched_add = fifo_add_task, sched_remove = fifo_remove_task, sched_pick = fifo_pick_next_task,
     sched_put = fifo_put_prev_task, sched_tick = fifo_task_tick, sched_set_priority = fifo_set_priority\<rparr>"

definition rr_ops :: "int \<Rightarrow> ('t RRScheduler, 't) SchedOps" where
  "rr_ops S = \<lparr>sched_add = rr_add_task, sched_remove = rr_remove_task, sched_pick = rr_pick_next_task,
     sched_put = rr_put_prev_task S, sched_tick = rr_task_tick, sched_set_priority = rr_set_priority\<rparr>"

subsection \<open>The invariant\<close>

definition sched_ok :: "('s \<Rightarrow> 't list \<Rightarrow> bool) \<Rightarrow> ('s, 't) Kernel \<Rightarrow> bool" where
  "sched_ok queue k \<longleftrightarrow> (\<exists>xs. queue (scheduler k) xs \<and>
     (\<forall>t \<in> set xs. is_ready (inner k t) \<and> \<not> is_idle (inner k t)))"

definition idle_ok :: "('s, 't) Kernel \<Rightarrow> bool" where
  "idle_ok k \<longleftrightarrow> is_idle (inner k (idle_task k)) \<and> is_kernel_task (inner k (idle_task k)) \<and>
     \<not> is_started (inner k (idle_task k)) \<and> (\<forall>t. is_blocked (inner k t) \<longrightarrow> \<not> is_idle (inner k t))"

definition on_stack :: "TaskInner \<Rightarrow> bool" where
  "on_stack t \<longleftrightarrow> is_started t \<and> inner_state t \<noteq> Exited"

definition stacks_ok :: "('s, 't) Kernel \<Rightarrow> bool" where
  "stacks_ok k \<longleftrightarrow> length (kstack_state k) = KSTACK_NUM \<and>
     (\<forall>t. \<not> is_started (inner k t) \<longrightarrow> stack_idx (inner k t) = 0) \<and>
     (\<forall>t. on_stack (inner k t) \<longrightarrow> 1 \<le> stack_idx (inner k t) \<and> stack_idx (inner k t) < KSTACK_NUM \<and>
        kstack_state k ! stack_idx (inner k t)) \<and>
     (\<forall>t u. on_stack (inner k t) \<longrightarrow> on_stack (inner k u) \<longrightarrow> t \<noteq> u \<longrightarrow>
        stack_idx (inner k t) \<noteq> stack_idx (inner k u))"

text \<open>
  \<open>loose\<close> also holds while the current task gives up the processor; \<open>kernel_inv\<close> whenever the kernel
  has settled on the task to run.
\<close>

definition settled :: "('s \<Rightarrow> 't list \<Rightarrow> bool) \<Rightarrow> ('s, 't) Kernel \<Rightarrow> bool" where
  "settled queue k \<longleftrightarrow> sched_ok queue k \<and> idle_ok k \<and> stacks_ok k"

definition loose :: "('s \<Rightarrow> 't list \<Rightarrow> bool) \<Rightarrow> ('s, 't) Kernel \<Rightarrow> bool" where
  "loose queue k \<longleftrightarrow> settled queue k \<and> (\<forall>t. is_running (inner k t) \<longrightarrow> t = current k)"

definition kernel_inv :: "('s \<Rightarrow> 't list \<Rightarrow> bool) \<Rightarrow> ('s, 't) Kernel \<Rightarrow> bool" where
  "kernel_inv queue k \<longleftrightarrow> settled queue k \<and> (\<forall>t. is_running (inner k t) \<longleftrightarrow> t = current k)"

lemma kernel_inv_loose: "kernel_inv queue k \<longleftrightarrow> loose queue k \<and> is_running (inner k (current k))"
  by (auto simp: kernel_inv_def loose_def)

lemma on_inner_sel [simp]:
  "scheduler (on_inner t g k) = scheduler k" "kstack_state (on_inner t g k) = kstack_state k"
  "current (on_inner t g k) = current k" "idle_task (on_inner t g k) = idle_task k" "cpu_id (on_inner t g k) = cpu_id k"
  "wait_queues (on_inner t g k) = wait_queues k" "timer_list (on_inner t g k) = timer_list k"
  by (simp_all add: on_inner_def)

lemma loose_upd [simp]:
  "loose queue (k\<lparr>wait_queues := a\<rparr>) = loose queue k" "loose queue (k\<lparr>task_in_wait_queue := b\<rparr>) = loose queue k"
  "loose queue (k\<lparr>task_in_time_list := b\<rparr>) = loose queue k" "loose queue (k\<lparr>timer_list := c\<rparr>) = loose queue k"
  "loose queue (k\<lparr>wait_for_task_exits := d\<rparr>) = loose queue k" "loose queue (k\<lparr>exited_tasks := e\<rparr>) = loose queue k"
  "loose queue (k\<lparr>task_nub := g\<rparr>) = loose queue k"
  by (simp_all add: loose_def settled_def sched_ok_def idle_ok_def stacks_ok_def)

lemma settled_cong:
  assumes "scheduler k' = scheduler k" and "kstack_state k' = kstack_state k" and "idle_task k' = idle_task k"
    and "\<And>t. inner_state (inner k' t) = inner_state (inner k t)" and "\<And>t. is_started (inner k' t) = is_started (inner k t)"
    and "\<And>t. stack_idx (inner k' t) = stack_idx (inner k t)" and "\<And>t. is_idle (inner k' t) = is_idle (inner k t)"
    and "\<And>t. is_kernel_task (inner k' t) = is_kernel_task (inner k t)"
  shows "settled queue k' = settled queue k"
  unfolding settled_def sched_ok_def idle_ok_def stacks_ok_def on_stack_def is_ready_def is_blocked_def
  by (simp only: assms)

text \<open>Operations that wake tasks do not change who runs.\<close>

definition same_runner :: "('s, 't) Kernel \<Rightarrow> ('s, 't) Kernel \<Rightarrow> bool" where
  "same_runner k k' \<longleftrightarrow> current k' = current k \<and> (\<forall>t. is_running (inner k' t) = is_running (inner k t))"

lemma same_runner_trans: "same_runner k k1 \<Longrightarrow> same_runner k1 k2 \<Longrightarrow> same_runner k k2"
  by (simp add: same_runner_def)

lemma kernel_inv_keeps: "kernel_inv queue k \<Longrightarrow> loose queue k' \<Longrightarrow> same_runner k k' \<Longrightarrow> kernel_inv queue k'"
  by (simp add: kernel_inv_loose same_runner_def)

lemmas bookkeeping = remove_from_wait_queue_def remove_from_timer_list_def add_to_wait_queue_def add_to_timer_list_def
  set_queue_def

text \<open>The state in which \<open>switch_to\<close> is called: nobody runs, and the task to run is in no queue.\<close>

definition switching :: "('s \<Rightarrow> 't list \<Rightarrow> bool) \<Rightarrow> 't \<Rightarrow> ('s, 't) Kernel \<Rightarrow> bool" where
  "switching queue nxt k \<longleftrightarrow> idle_ok k \<and> stacks_ok k \<and> (\<forall>t. \<not> is_running (inner k t)) \<and>
     (nxt = idle_task k \<or> is_ready (inner k nxt)) \<and>
     (\<exists>xs. queue (scheduler k) xs \<and> nxt \<notin> set xs \<and> (\<forall>t \<in> set xs. is_ready (inner k t) \<and> \<not> is_idle (inner k t)))"

lemma and_then_unit_iff:
  fixes m :: "('s, unit, 'e) action"
  shows "and_then m f s = (Ok b, t) \<longleftrightarrow> (\<exists>s'. m s = (Ok (), s') \<and> f () s' = (Ok b, t))"
  by (simp add: and_then_Ok_iff)

lemma on_sched_Ok_iff [result_simps]:
  "on_sched m k = (Ok a, k') \<longleftrightarrow> (\<exists>s. m (scheduler k) = (Ok a, s) \<and> k' = k\<lparr>scheduler := s\<rparr>)"
  by (auto simp: on_sched_def split: prod.splits)

lemma on_sched_run: "m (scheduler k) = (Ok a, s) \<Longrightarrow> on_sched m k = (Ok a, k\<lparr>scheduler := s\<rparr>)"
  by (simp add: on_sched_def)

lemma first_free_Some: "first_free st is = Some i \<Longrightarrow> i \<in> set is \<and> \<not> st ! i"
  by (induction "is") (auto split: if_splits)

lemma first_free_None: "first_free st is = None \<longleftrightarrow> (\<forall>i \<in> set is. st ! i)"
  by (induction "is") auto

lemma time_hooks_fields [simp]:
  "inner_state (on_time g t) = inner_state t" "is_started (on_time g t) = is_started t"
  "stack_idx (on_time g t) = stack_idx t" "is_idle (on_time g t) = is_idle t" "inner_name (on_time g t) = inner_name t"
  "inner_id (on_time g t) = inner_id t" "inner_token (on_time g t) = inner_token t" "cpu_set (on_time g t) = cpu_set t"
  by (simp_all add: on_time_def)

lemma is_kernel_task_upd [simp]:
  "is_kernel_task (t\<lparr>inner_state := st\<rparr>) = is_kernel_task t" "is_kernel_task (on_time g t) = is_kernel_task t"
  "is_kernel_task (t\<lparr>exit_code := c\<rparr>) = is_kernel_task t" "is_kernel_task (t\<lparr>has_been_preempted := b\<rparr>) = is_kernel_task t"
  "is_kernel_task (t\<lparr>is_started := b, stack_idx := i\<rparr>) = is_kernel_task t"
  by (simp_all add: is_kernel_task_def)

lemmas time_hooks = time_stat_when_switch_to_def time_stat_when_switch_from_def

text \<open>Changes that put no task on a stack and move none keep the stacks apart.\<close>

lemma stacks_ok_weak:
  assumes "stacks_ok k" and "kstack_state k' = kstack_state k"
    and "\<And>t. is_started (inner k' t) = is_started (inner k t) \<and> stack_idx (inner k' t) = stack_idx (inner k t)"
    and "\<And>t. on_stack (inner k' t) \<Longrightarrow> on_stack (inner k t)"
  shows "stacks_ok k'"
  using assms unfolding stacks_ok_def by metis

lemma stacks_ok_alloc:
  assumes ok: "stacks_ok k" and a: "alloc_stack k = (Ok idx, k1)" and t: "\<not> on_stack (inner k t)"
  shows "stacks_ok (on_inner t (\<lambda>x. x\<lparr>is_started := True, stack_idx := idx\<rparr>) k1)"
proof -
  have i: "1 \<le> idx" "idx < KSTACK_NUM" "\<not> kstack_state k ! idx" and k1: "k1 = k\<lparr>kstack_state := (kstack_state k)[idx := True]\<rparr>"
    using a first_free_Some [of "kstack_state k" "[1..<KSTACK_NUM]" idx]
    by (auto simp: alloc_stack_def split: option.splits)
  have "stack_idx (inner k u) \<noteq> idx" if "on_stack (inner k u)" for u
    using that ok i(3) by (auto simp: stacks_ok_def)
  then show ?thesis using ok i by (auto simp: stacks_ok_def on_inner_def k1 nth_list_update)
qed

lemma stacks_ok_free:
  assumes "stacks_ok k" and "\<not> on_stack (inner k' t)" and "kstack_state k' = (kstack_state k)[stack_idx (inner k t) := False]"
    and "inner_state (inner k t) \<noteq> Exited"
    and "is_started (inner k' t) = is_started (inner k t)" "stack_idx (inner k' t) = stack_idx (inner k t)"
    and oth: "\<And>u. u \<noteq> t \<Longrightarrow> inner k' u = inner k u"
  shows "stacks_ok k'"
proof -
  have "stack_idx (inner k u) \<noteq> stack_idx (inner k t)" if "on_stack (inner k u)" "u \<noteq> t" for u
    using assms(1,4) that by (cases "is_started (inner k t)") (auto simp: stacks_ok_def on_stack_def)
  then have key: "inner k' u = inner k u \<and> on_stack (inner k u) \<and> stack_idx (inner k u) \<noteq> stack_idx (inner k t)"
    if "on_stack (inner k' u)" for u
    using that assms(2) oth by metis
  show ?thesis
    unfolding stacks_ok_def
  proof (intro conjI allI impI)
    show "length (kstack_state k') = KSTACK_NUM" using assms(1,3) by (simp add: stacks_ok_def)
  next
    fix u assume "\<not> is_started (inner k' u)"
    then show "stack_idx (inner k' u) = 0" using assms(1,5,6) oth [of u] by (cases "u = t") (auto simp: stacks_ok_def)
  next
    fix u assume "on_stack (inner k' u)"
    then show "1 \<le> stack_idx (inner k' u)" "stack_idx (inner k' u) < KSTACK_NUM" "kstack_state k' ! stack_idx (inner k' u)"
      using key [of u] assms(1,3) by (simp_all add: stacks_ok_def)
  next
    fix u v assume "on_stack (inner k' u)" "on_stack (inner k' v)" "u \<noteq> v"
    then show "stack_idx (inner k' u) \<noteq> stack_idx (inner k' v)"
      using key [of u] key [of v] assms(1) by (simp add: stacks_ok_def)
  qed
qed

lemma resched_pick_none:
  "on_sched (sched_pick S) k = (Ok None, k1) \<Longrightarrow> resched_pick S tid (Suc f) seen k = (Ok (idle_task k1), k1)"
  by (simp add: and_then_run)

lemma resched_pick_some:
  "on_sched (sched_pick S) k = (Ok (Some task), k1) \<Longrightarrow> resched_pick S tid (Suc f) seen k =
     (if tid_of k1 task = 3 then resched_pick S tid f seen k1
      else if tid_of k1 task \<in> seen then
        (if is_started (inner k1 task) then (Ok task, k1) else (Ok (idle_task k1), k1))
      else if cpu_allows k1 task \<and> (tid = tid_of k1 task \<or> tid = 0) then (Ok task, k1)
      else and_then (on_sched (sched_put S task False))
        (\<lambda>_. resched_pick S tid f (insert (tid_of k1 task) seen)) k1)"
  by (simp add: and_then_run)

locale run_queue = ready_queue queue "sched_add S" "sched_pick S" "sched_put S" "sched_remove S"
  for queue :: "'s \<Rightarrow> 't list \<Rightarrow> bool" and S :: "('s, 't) SchedOps" +
  assumes tick_queue: "queue s xs \<Longrightarrow> \<exists>b s'. sched_tick S t s = (Ok b, s') \<and> queue s' xs"
begin

lemma pick_cases:
  assumes "queue (scheduler k) xs"
  obtains s' where "xs = []" "on_sched (sched_pick S) k = (Ok None, k\<lparr>scheduler := s'\<rparr>)" "queue s' []"
  | x ys s' where "xs = x # ys" "on_sched (sched_pick S) k = (Ok (Some x), k\<lparr>scheduler := s'\<rparr>)" "queue s' ys" "x \<notin> set ys"
proof (cases xs)
  case Nil
  then show ?thesis using pick_queue [OF assms] that(1) by (auto simp: on_sched_def)
next
  case (Cons x ys)
  then show ?thesis using pick_queue [OF assms] queue_distinct [OF assms] that(2) by (auto simp: on_sched_def)
qed

lemma put_run:
  assumes "queue (scheduler k) xs" and "t \<notin> set xs"
  obtains s' where "on_sched (sched_put S t False) k = (Ok (), k\<lparr>scheduler := s'\<rparr>)" "queue s' (xs @ [t])"
  using yield_queue [OF assms] by (auto simp: on_sched_def)

lemma resched_pick_inv:
  "resched_pick S tid f seen k = (Ok nxt, k') \<Longrightarrow> queue (scheduler k) xs \<Longrightarrow>
   \<exists>s' ys. k' = k\<lparr>scheduler := s'\<rparr> \<and> queue s' ys \<and> set ys \<subseteq> set xs \<and> (nxt = idle_task k \<or> nxt \<in> set xs - set ys)"
proof (induction f arbitrary: seen k xs)
  case (Suc f)
  from Suc.prems(2) show ?case
  proof (cases rule: pick_cases)
    case (1 s')
    then show ?thesis using Suc.prems(1) unfolding resched_pick_none [OF 1(2)] by auto
  next
    case (2 x ys s')
    let ?k = "k\<lparr>scheduler := s'\<rparr>"
    obtain s2 where s2: "on_sched (sched_put S x False) ?k = (Ok (), ?k\<lparr>scheduler := s2\<rparr>)" "queue s2 (ys @ [x])"
      using put_run [of ?k ys x] 2 by auto
    consider "resched_pick S tid f seen ?k = (Ok nxt, k')" | "k' = ?k" "nxt = x \<or> nxt = idle_task k"
      | "resched_pick S tid f (insert (tid_of ?k x) seen) (?k\<lparr>scheduler := s2\<rparr>) = (Ok nxt, k')"
      using Suc.prems(1) unfolding resched_pick_some [OF 2(2)] and_then_run [of "on_sched (sched_put S x False)" ?k, OF s2(1)]
      by (auto split: if_splits)
    then show ?thesis
    proof cases
      case 1
      then show ?thesis using Suc.IH [OF 1, of ys] 2 by auto
    next
      case again: 2
      then show ?thesis using 2 by auto
    next
      case 3
      then show ?thesis using Suc.IH [OF 3, of "ys @ [x]"] s2(2) 2 by auto
    qed
  qed
qed simp

lemma put_back_inv:
  assumes st: "settled queue k" and w: "\<And>t. is_running (inner k t) \<Longrightarrow> t = current k"
    and r: "put_back S b k = (Ok (), k1)"
  shows "settled queue k1 \<and> (\<forall>t. \<not> is_running (inner k1 t)) \<and> current k1 = current k \<and> idle_task k1 = idle_task k"
proof (cases "is_running (inner k (current k))")
  case False
  then show ?thesis using r st w by (auto simp: put_back_def)
next
  case True
  let ?p = "current k" and ?k = "on_inner (current k) (set_state Ready) k"
  obtain xs where xs: "queue (scheduler k) xs" "\<forall>t \<in> set xs. is_ready (inner k t) \<and> \<not> is_idle (inner k t)"
    using st by (auto simp: settled_def sched_ok_def)
  have p: "?p \<notin> set xs" using xs(2) True by (auto simp: is_ready_def is_running_def)
  have "stacks_ok k" "idle_ok k" using st by (simp_all add: settled_def)
  moreover have "stacks_ok ?k"
    by (rule stacks_ok_weak [OF \<open>stacks_ok k\<close>]) (use True in \<open>auto simp: inner_simps on_stack_def split: if_splits\<close>)
  ultimately have base: "idle_ok ?k" "stacks_ok ?k" "\<forall>t. \<not> is_running (inner ?k t)"
    using w by (auto simp: idle_ok_def inner_simps)
  show ?thesis
  proof (cases "is_idle (inner k ?p)")
    case True
    then have "k1 = ?k" using r \<open>is_running (inner k ?p)\<close> by (simp add: put_back_def Let_def inner_simps)
    moreover have "sched_ok queue ?k" using xs p by (auto simp: sched_ok_def inner_simps)
    ultimately show ?thesis using base by (simp add: settled_def on_inner_def)
  next
    case False
    obtain s' ys where s': "sched_put S ?p b (scheduler k) = (Ok (), s')" "queue s' ys" "set ys = insert ?p (set xs)"
      using yield_queue [OF xs(1) p] preempt_queue [OF xs(1) p] by (cases b) fastforce+
    have "k1 = ?k\<lparr>scheduler := s'\<rparr>"
      using r False \<open>is_running (inner k ?p)\<close> s'(1) by (simp add: put_back_def Let_def inner_simps on_sched_def)
    moreover have "sched_ok queue (?k\<lparr>scheduler := s'\<rparr>)"
      using s' xs(2) False by (auto simp: sched_ok_def inner_simps intro!: exI [of _ ys])
    ultimately show ?thesis using base by (simp add: settled_def on_inner_def idle_ok_def stacks_ok_def)
  qed
qed

lemma pick_switching:
  assumes st: "settled queue k" and n: "\<And>t. \<not> is_running (inner k t)" and r: "resched_pick S tid f {} k = (Ok nxt, k1)"
  shows "switching queue nxt k1 \<and> current k1 = current k"
proof -
  obtain xs where xs: "queue (scheduler k) xs" "\<forall>t \<in> set xs. is_ready (inner k t) \<and> \<not> is_idle (inner k t)"
    using st by (auto simp: settled_def sched_ok_def)
  obtain s' ys where k1: "k1 = k\<lparr>scheduler := s'\<rparr>" and q: "queue s' ys" "set ys \<subseteq> set xs"
    and nx: "nxt = idle_task k \<or> nxt \<in> set xs - set ys"
    using resched_pick_inv [OF r xs(1)] by blast
  have i: "is_idle (inner k (idle_task k))" using st by (simp add: settled_def idle_ok_def)
  then have "nxt \<notin> set ys" using nx xs(2) q(2) by auto
  then show ?thesis
    using st n q xs(2) nx by (auto simp: switching_def k1 settled_def idle_ok_def stacks_ok_def intro!: exI [of _ ys])
qed

lemma switching_marked:
  assumes sw: "switching queue nxt k"
    and f: "kstack_state k' = kstack_state k" "scheduler k' = scheduler k" "idle_task k' = idle_task k" "current k' = nxt"
    and nx: "inner_state (inner k' nxt) = Running" "is_started (inner k' nxt) = is_started (inner k nxt)"
      "stack_idx (inner k' nxt) = stack_idx (inner k nxt)" "is_idle (inner k' nxt) = is_idle (inner k nxt)"
      "is_kernel_task (inner k' nxt) = is_kernel_task (inner k nxt)"
    and oth: "\<And>t. t \<noteq> nxt \<Longrightarrow> inner_state (inner k' t) = inner_state (inner k t) \<and> is_started (inner k' t) = is_started (inner k t) \<and>
      stack_idx (inner k' t) = stack_idx (inner k t) \<and> is_idle (inner k' t) = is_idle (inner k t) \<and>
      is_kernel_task (inner k' t) = is_kernel_task (inner k t)"
  shows "kernel_inv queue k'"
proof -
  have idle: "idle_ok k" and st: "stacks_ok k" and nr: "\<And>t. \<not> is_running (inner k t)" using sw by (auto simp: switching_def)
  have "stacks_ok k'"
  proof (rule stacks_ok_weak [OF st f(1)])
    fix t
    show "is_started (inner k' t) = is_started (inner k t) \<and> stack_idx (inner k' t) = stack_idx (inner k t)"
      using oth [of t] nx by (cases "t = nxt") auto
    assume "on_stack (inner k' t)"
    then show "on_stack (inner k t)"
      using oth [of t] nx sw idle by (cases "t = nxt") (auto simp: on_stack_def switching_def is_ready_def idle_ok_def)
  qed
  moreover have "is_blocked (inner k' t) \<longrightarrow> \<not> is_idle (inner k' t)" for t
    using idle nx oth [of t] by (cases "t = nxt") (auto simp: idle_ok_def is_blocked_def)
  then have "idle_ok k'" using idle f(3) nx oth [of "idle_task k"] by (cases "idle_task k = nxt") (auto simp: idle_ok_def)
  moreover have "sched_ok queue k'"
    using sw f(2) oth unfolding switching_def sched_ok_def is_ready_def by metis
  moreover have "is_running (inner k' t) \<longleftrightarrow> t = current k'" for t
    using nr [of t] nx(1) oth [of t] f(4) by (cases "t = nxt") (auto simp: is_running_def)
  ultimately show ?thesis by (simp add: kernel_inv_def settled_def)
qed

lemma kernel_inv_marks:
  assumes "k' = (on_inner t (\<lambda>x. x\<lparr>has_been_preempted := False\<rparr>) k)\<lparr>cur_stack := i, current := t\<rparr>"
    and "kernel_inv queue (k\<lparr>current := t\<rparr>)"
  shows "kernel_inv queue k'"
proof -
  have "stacks_ok k" using assms(2) by (simp add: kernel_inv_def settled_def stacks_ok_def)
  then have "stacks_ok k'" by (rule stacks_ok_weak) (auto simp: assms(1) on_inner_def on_stack_def split: if_splits)
  then show ?thesis
    using assms(2) by (auto simp: assms(1) kernel_inv_def settled_def sched_ok_def idle_ok_def inner_simps)
qed

lemma kernel_inv_started:
  assumes "kernel_inv queue (k\<lparr>current := t\<rparr>)" and "\<not> is_kernel_task (inner k t)" and "\<not> is_started (inner k t)"
    and a: "alloc_stack k = (Ok idx, k4)"
  shows "kernel_inv queue ((on_inner t (\<lambda>x. x\<lparr>is_started := True, stack_idx := idx\<rparr>) k4)\<lparr>cur_stack := idx, current := t\<rparr>)"
proof -
  have k4: "k4 = k\<lparr>kstack_state := (kstack_state k)[idx := True]\<rparr>"
    using a by (auto simp: alloc_stack_def split: option.splits)
  have "stacks_ok k" using assms(1) by (simp add: kernel_inv_def settled_def stacks_ok_def)
  from stacks_ok_alloc [OF this a] have "stacks_ok (on_inner t (\<lambda>x. x\<lparr>is_started := True, stack_idx := idx\<rparr>) k4)"
    using assms(3) by (simp add: on_stack_def)
  then show ?thesis
    using assms(1,2) by (auto simp: k4 kernel_inv_def settled_def sched_ok_def idle_ok_def stacks_ok_def inner_simps)
qed

lemma resched_switch_inv:
  "(resched S clock f b tid k = (Ok (), k') \<longrightarrow> settled queue k \<longrightarrow> (\<forall>t. is_running (inner k t) \<longrightarrow> t = current k) \<longrightarrow>
     kernel_inv queue k') \<and>
   (switch_to S clock f (current k) nxt k = (Ok (), k') \<longrightarrow> switching queue nxt k \<longrightarrow> kernel_inv queue k')"
proof (induction f arbitrary: b tid k nxt)
  case (Suc f)
  have sw: "kernel_inv queue k'" if "switch_to S clock f (current k) nxt k = (Ok (), k')" "switching queue nxt k" for k nxt
    using Suc.IH [of _ _ k nxt] that by blast
  have rs: "kernel_inv queue k'" if "resched S clock f b tid k = (Ok (), k')" "settled queue k"
    "\<forall>t. is_running (inner k t) \<longrightarrow> t = current k" for b tid k
    using Suc.IH [of b tid k undefined] that by blast
  have "kernel_inv queue k'" if r: "resched S clock (Suc f) b tid k = (Ok (), k')" and st: "settled queue k"
    and w: "\<forall>t. is_running (inner k t) \<longrightarrow> t = current k"
  proof -
    obtain k1 nxt k2 where k1: "put_back S b k = (Ok (), k1)" and k2: "resched_pick S tid f {} k1 = (Ok nxt, k2)"
      and s: "switch_to S clock f (current k) nxt k2 = (Ok (), k')"
      using r by (auto simp: result_simps)
    have p: "settled queue k1" "\<And>t. \<not> is_running (inner k1 t)" "current k1 = current k"
      using put_back_inv [OF st _ k1] w by blast+
    have "switching queue nxt k2" "current k2 = current k" using pick_switching [OF p(1,2) k2] p(3) by auto
    then show ?thesis using sw [of k2 nxt] s by simp
  qed
  moreover have "kernel_inv queue k'" if r: "switch_to S clock (Suc f) (current k) nxt k = (Ok (), k')" and s: "switching queue nxt k"
  proof (cases "current k = nxt")
    case True
    then show ?thesis
      using r by (intro switching_marked [OF s]) (auto simp: Let_def inner_simps)
  next
    case False
    let ?k2 = "on_inner (current k) (time_stat_when_switch_from (clock f))
      (on_inner nxt (time_stat_when_switch_to (clock f)) (on_inner nxt (set_state Running) k))"
    define k3 where "k3 = (if inner_token (inner ?k2 nxt) \<noteq> 0 then ?k2\<lparr>page_table_root := inner_token (inner ?k2 nxt)\<rparr> else ?k2)"
    have inv: "kernel_inv queue (k3\<lparr>current := nxt\<rparr>)"
      using False by (intro switching_marked [OF s]) (auto simp: k3_def inner_simps time_hooks)
    have run: "(if is_kernel_task (inner k3 nxt) then resched S clock f False 0 (k3\<lparr>current := nxt\<rparr>)
          else if is_started (inner k3 nxt) then
            (Ok (), (on_inner nxt (\<lambda>t. t\<lparr>has_been_preempted := False\<rparr>) k3)\<lparr>cur_stack := stack_idx (inner k3 nxt), current := nxt\<rparr>)
          else and_then alloc_stack (\<lambda>idx k4. (Ok (), (on_inner nxt (\<lambda>t. t\<lparr>is_started := True, stack_idx := idx\<rparr>) k4)
               \<lparr>cur_stack := idx, current := nxt\<rparr>)) k3) = (Ok (), k')"
      using r False by (simp only: switch_to.simps Let_def if_False k3_def)
    show ?thesis
    proof (cases "is_kernel_task (inner k3 nxt)")
      case True
      then have "resched S clock f False 0 (k3\<lparr>current := nxt\<rparr>) = (Ok (), k')" using run by (simp only: if_True)
      then show ?thesis using rs inv by (auto simp: kernel_inv_def)
    next
      case user: False
      show ?thesis
      proof (cases "is_started (inner k3 nxt)")
        case True
        then have "(on_inner nxt (\<lambda>t. t\<lparr>has_been_preempted := False\<rparr>) k3)\<lparr>cur_stack := stack_idx (inner k3 nxt), current := nxt\<rparr> = k'"
          using run user by (simp only: if_True if_False prod.inject simp_thms)
        then show ?thesis by (intro kernel_inv_marks [OF _ inv]) (rule sym)
      next
        case False
        then obtain idx k4 where "alloc_stack k3 = (Ok idx, k4)"
            "k' = (on_inner nxt (\<lambda>t. t\<lparr>is_started := True, stack_idx := idx\<rparr>) k4)\<lparr>cur_stack := idx, current := nxt\<rparr>"
          using run user unfolding if_False and_then_Ok_iff by (simp only: if_False and_then_Ok_iff prod.inject simp_thms) blast
        then show ?thesis using kernel_inv_started [OF inv user False] by blast
      qed
    qed
  qed
  ultimately show ?case by blast
qed simp

lemma resched_inv:
  "resched S clock f b tid k = (Ok (), k') \<Longrightarrow> loose queue k \<Longrightarrow> kernel_inv queue k'"
  using resched_switch_inv [of clock f b tid k k'] by (auto simp: loose_def)

lemma add_loose:
  assumes l: "loose queue k" and b: "inner_state (inner k t) = Blocked \<or> inner_state (inner k t) = Ready"
    and q: "queue (scheduler k) xs" "t \<notin> set xs" and i: "\<not> is_idle (inner k t)"
    and r: "on_sched (sched_add S t) (on_inner t (set_state Ready) k) = (Ok (), k')"
  shows "loose queue k' \<and> same_runner k k' \<and> queue (scheduler k') (xs @ [t])"
proof -
  obtain s' where s': "sched_add S t (scheduler k) = (Ok (), s')" "queue s' (xs @ [t])" using add_queue [OF q] by blast
  have k': "k' = (on_inner t (set_state Ready) k)\<lparr>scheduler := s'\<rparr>"
    using r s'(1) by (simp add: on_sched_def on_inner_def)
  obtain ys where ys: "queue (scheduler k) ys" "\<forall>t \<in> set ys. is_ready (inner k t) \<and> \<not> is_idle (inner k t)"
    using l by (auto simp: loose_def settled_def sched_ok_def)
  have "ys = xs" using queue_fun ys(1) q(1) by blast
  then have "sched_ok queue k'" using ys(2) i s'(2) by (auto simp: sched_ok_def k' inner_simps intro!: exI [of _ "xs @ [t]"])
  moreover have "stacks_ok k'"
    by (rule stacks_ok_weak [of k]) (use l b in \<open>auto simp: loose_def settled_def k' inner_simps on_stack_def split: if_splits\<close>)
  ultimately show ?thesis
    using l b s'(2) by (auto simp: loose_def settled_def idle_ok_def k' inner_simps same_runner_def)
qed

lemma unblock_keeps:
  assumes l: "loose queue k" and r: "unblock_task S t b k = (Ok (), k')"
  shows "loose queue k' \<and> same_runner k k'"
proof (cases "is_blocked (inner k t)")
  case True
  obtain xs where xs: "queue (scheduler k) xs" "\<forall>t \<in> set xs. is_ready (inner k t)"
    using l by (auto simp: loose_def settled_def sched_ok_def)
  have "t \<notin> set xs" "\<not> is_idle (inner k t)"
    using xs(2) True l by (auto simp: is_ready_def is_blocked_def loose_def settled_def idle_ok_def)
  moreover have "inner_state (inner k t) = Blocked" "on_sched (sched_add S t) (on_inner t (set_state Ready) k) = (Ok (), k')"
    using True r by (simp_all add: unblock_task_def is_blocked_def)
  ultimately show ?thesis using add_loose [OF l _ xs(1)] by blast
next
  case False
  then show ?thesis using assms by (simp add: unblock_task_def same_runner_def)
qed

lemma notify_one_keeps:
  assumes "loose queue k" and "notify_one_locked S q b k = (Ok r, k')"
  shows "loose queue k' \<and> same_runner k k'"
proof (cases "wait_queues k q")
  case Nil
  then show ?thesis using assms by (simp add: notify_one_locked_def same_runner_def)
next
  case (Cons t ts)
  let ?k = "remove_from_wait_queue t (set_queue q ts k)"
  have "unblock_task S t b ?k = (Ok (), k')"
    using assms(2) by (auto simp: notify_one_locked_def Cons result_simps)
  then show ?thesis using unblock_keeps [of ?k] assms(1) by (auto simp: bookkeeping same_runner_def)
qed

lemma notify_all_keeps:
  "loose queue k \<Longrightarrow> notify_all_loop S q b f k = (Ok (), k') \<Longrightarrow> loose queue k' \<and> same_runner k k'"
proof (induction f arbitrary: k)
  case (Suc f)
  show ?case
  proof (cases "wait_queues k q")
    case Nil
    then show ?thesis using Suc.prems by (simp add: same_runner_def)
  next
    case (Cons t ts)
    let ?k = "remove_from_wait_queue t (set_queue q ts k)"
    obtain k1 where k1: "unblock_task S t b ?k = (Ok (), k1)" "notify_all_loop S q b f k1 = (Ok (), k')"
      using Suc.prems(2) by (auto simp: Cons result_simps)
    have "loose queue k1 \<and> same_runner k k1"
      using unblock_keeps [OF _ k1(1)] Suc.prems(1) by (auto simp: bookkeeping same_runner_def)
    then show ?thesis using Suc.IH [OF _ k1(2)] same_runner_trans by blast
  qed
qed simp

lemma check_events_keeps:
  "loose queue k \<Longrightarrow> check_events S nows k = (Ok (), k') \<Longrightarrow> loose queue k' \<and> same_runner k k'"
proof (induction nows arbitrary: k)
  case (Cons now nows)
  show ?case
  proof (cases "expire_one now (timer_list k)")
    case (Pair r l)
    show ?thesis
    proof (cases r)
      case None
      then show ?thesis using Cons.prems by (auto simp: Pair same_runner_def)
    next
      case (Some p)
      obtain d t where p: "p = (d, t)" by (cases p)
      let ?k = "remove_from_timer_list t (k\<lparr>timer_list := l\<rparr>)"
      obtain k1 where k1: "unblock_task S t True ?k = (Ok (), k1)" "check_events S nows k1 = (Ok (), k')"
        using Cons.prems(2) by (auto simp: Pair Some p result_simps wakeup_callback_def)
      have "loose queue k1 \<and> same_runner k k1"
        using unblock_keeps [OF _ k1(1)] Cons.prems(1) by (auto simp: bookkeeping same_runner_def)
      then show ?thesis using Cons.IH [OF _ k1(2)] same_runner_trans by blast
    qed
  qed
qed simp

lemma scheduler_tick_keeps:
  assumes "loose queue k" and "scheduler_timer_tick S k = (Ok (), k')"
  shows "loose queue k' \<and> same_runner k k'"
proof (cases "is_idle (inner k (current k))")
  case False
  obtain xs where xs: "queue (scheduler k) xs" "\<forall>t \<in> set xs. is_ready (inner k t) \<and> \<not> is_idle (inner k t)"
    using assms(1) by (auto simp: loose_def settled_def sched_ok_def)
  obtain b s' where "sched_tick S (current k) (scheduler k) = (Ok b, s')" "queue s' xs" using tick_queue [OF xs(1)] by blast
  then show ?thesis using assms False xs(2)
    by (auto simp: scheduler_timer_tick_def on_sched_def and_then_def loose_def settled_def sched_ok_def idle_ok_def
        stacks_ok_def same_runner_def)
qed (use assms in \<open>simp add: scheduler_timer_tick_def same_runner_def\<close>)

lemma leave_loose:
  assumes "kernel_inv queue k" and "\<not> is_idle (inner k (current k))" and "st = Blocked \<or> st = Exited"
  shows "loose queue (on_inner (current k) (set_state st) k)"
proof -
  have run: "inner_state (inner k (current k)) = Running" using assms(1) by (simp add: kernel_inv_def is_running_def)
  have sk: "stacks_ok k" using assms(1) by (simp add: kernel_inv_def settled_def)
  have "stacks_ok (on_inner (current k) (set_state st) k)"
    by (rule stacks_ok_weak [OF sk]) (use run assms(3) in \<open>auto simp: inner_simps on_stack_def split: if_splits\<close>)
  moreover have "sched_ok queue (on_inner (current k) (set_state st) k)"
  proof -
    obtain xs where xs: "queue (scheduler k) xs" "\<forall>t \<in> set xs. is_ready (inner k t) \<and> \<not> is_idle (inner k t)"
      using assms(1) by (auto simp: kernel_inv_def settled_def sched_ok_def)
    have "current k \<notin> set xs" using xs(2) run by (auto simp: is_ready_def)
    then show ?thesis using xs by (auto simp: sched_ok_def inner_simps intro!: exI [of _ xs])
  qed
  ultimately show ?thesis
    using assms by (auto simp: loose_def kernel_inv_def settled_def idle_ok_def inner_simps)
qed

lemma block_inv:
  assumes i: "kernel_inv queue k" and r: "block_current S clock f push k = (Ok (), k')"
    and p: "\<And>t k. loose queue (push t k) = loose queue k"
  shows "kernel_inv queue k'"
proof -
  have n: "\<not> is_idle (inner k (current k))"
    and r': "resched S clock f False 0 (push (current k) (on_inner (current k) (set_state Blocked) k)) = (Ok (), k')"
    using r by (simp_all add: block_current_def Let_def result_simps)
  show ?thesis using resched_inv [OF r'] p leave_loose [OF i n] by simp
qed

lemma wait_push_loose [simp]: "loose queue (wait_push q t k) = loose queue k"
  by (simp add: wait_push_def bookkeeping Let_def)

lemma alarm_loose [simp]: "loose queue (set_alarm_wakeup d t k) = loose queue k" "loose queue (cancel_alarm t k) = loose queue k"
  by (simp_all add: set_alarm_wakeup_def cancel_alarm_def bookkeeping Let_def)

lemma cancel_events_keeps: "loose queue (cancel_events q t k) = loose queue k \<and> same_runner k (cancel_events q t k)"
  by (simp add: cancel_events_def cancel_alarm_def bookkeeping Let_def same_runner_def)

lemma alarm_kernel_inv: "kernel_inv queue (set_alarm_wakeup d t k) = kernel_inv queue k"
  by (simp add: kernel_inv_loose) (simp add: set_alarm_wakeup_def bookkeeping Let_def)

lemma exit_resched_inv:
  assumes l: "loose queue (on_inner (current k) (set_state Exited) k)" and r: "exit_current S clock f code k = (Ok (), k')"
  shows "kernel_inv queue k'"
proof -
  let ?c = "current k" and ?k = "on_inner (current k) (\<lambda>t. set_exit_code code (set_state Exited t)) k"
  have "settled queue ?k = settled queue (on_inner ?c (set_state Exited) k)"
    by (rule settled_cong) (simp_all add: inner_simps set_exit_code_def)
  moreover have "is_running (inner ?k t) = is_running (inner (on_inner ?c (set_state Exited) k) t)" for t
    by (simp add: inner_simps set_exit_code_def)
  ultimately have l': "loose queue ?k" using l by (simp add: loose_def)
  obtain k1 where n: "notify_wait_for_exit S ?c ?k = (Ok (), k1)"
    and n2: "and_then (notify_one_locked S WAIT_FOR_EXIT False) (\<lambda>_. resched S clock f False 1)
      (k1\<lparr>exited_tasks := exited_tasks k1 @ [?c]\<rparr>) = (Ok (), k')"
  proof (cases "task_nub k = 0")
    case True
    then show ?thesis using r by (simp add: exit_current_def Let_def assert_then_Ok_iff)
  next
    case False
    then have "\<exists>k1. notify_wait_for_exit S ?c ?k = (Ok (), k1) \<and>
      and_then (notify_one_locked S WAIT_FOR_EXIT False) (\<lambda>_. resched S clock f False 1)
        (k1\<lparr>exited_tasks := exited_tasks k1 @ [?c]\<rparr>) = (Ok (), k')"
      using r unfolding exit_current_def Let_def assert_then_Ok_iff if_not_P [OF False]
      by (subst (asm) and_then_unit_iff) blast
    then show ?thesis using that by blast
  qed
  have "loose queue k1"
  proof (cases "wait_for_task_exits ?k (tid_of ?k ?c)")
    case None
    then show ?thesis using n l' by (simp add: notify_wait_for_exit_def)
  next
    case (Some q)
    then have "notify_all_locked S q True (?k\<lparr>wait_for_task_exits := (wait_for_task_exits ?k)(tid_of ?k ?c := None)\<rparr>) = (Ok (), k1)"
      using n by (simp add: notify_wait_for_exit_def)
    then show ?thesis unfolding notify_all_locked_def using notify_all_keeps l' loose_upd(5) by blast
  qed
  then have l1: "loose queue (k1\<lparr>exited_tasks := exited_tasks k1 @ [?c]\<rparr>)" by simp
  obtain r2 k2 where "notify_one_locked S WAIT_FOR_EXIT False (k1\<lparr>exited_tasks := exited_tasks k1 @ [?c]\<rparr>) = (Ok r2, k2)"
      "resched S clock f False 1 k2 = (Ok (), k')"
    using n2 unfolding and_then_Ok_iff by blast
  then show ?thesis using resched_inv notify_one_keeps [OF l1] by blast
qed

lemma remove_keeps:
  assumes l: "loose queue k" and q: "queue (scheduler k) xs" "t \<in> set xs" and r: "rq_remove_task S t k = (Ok (), k')"
  shows "loose queue k' \<and> same_runner k k'"
proof -
  obtain ys where ys: "queue (scheduler k) ys" "\<forall>t \<in> set ys. is_ready (inner k t) \<and> \<not> is_idle (inner k t)"
    using l by (auto simp: loose_def settled_def sched_ok_def)
  have "ys = xs" using queue_fun ys(1) q(1) by blast
  then have t: "is_ready (inner k t)" and all: "\<forall>t \<in> set xs. is_ready (inner k t) \<and> \<not> is_idle (inner k t)" using ys(2) q(2) by auto
  obtain s' where s': "sched_remove S t (scheduler k) = (Ok (Some t), s')" "queue s' (remove1 t xs)" using del_queue [OF q] by blast
  let ?k = "on_inner t (set_state Exited) k"
  have k': "k' = ?k\<lparr>exited_tasks := exited_tasks k @ [t], scheduler := s'\<rparr>"
    using r t s'(1) by (auto simp: rq_remove_task_def assert_then_Ok_iff Let_def and_then_def on_sched_def on_inner_def)
  have d: "set (remove1 t xs) = set xs - {t}" using queue_distinct [OF q(1)] by simp
  have "sched_ok queue k'" using s'(2) all d by (auto simp: sched_ok_def k' inner_simps intro!: exI [of _ "remove1 t xs"])
  moreover have sk: "stacks_ok k" using l by (simp add: loose_def settled_def)
  have "stacks_ok k'" by (rule stacks_ok_weak [OF sk]) (auto simp: k' inner_simps on_stack_def split: if_splits)
  ultimately show ?thesis
    using l t by (auto simp: loose_def settled_def idle_ok_def k' inner_simps same_runner_def)
qed

end

interpretation fifo_rq: run_queue fifo_queue fifo_ops
proof -
  have "ready_queue fifo_queue (sched_add fifo_ops) (sched_pick fifo_ops) (sched_put fifo_ops) (sched_remove fifo_ops)"
    using fifo.ready_queue_axioms by (simp add: fifo_ops_def)
  then show "run_queue fifo_queue (fifo_ops :: ('a FifoScheduler, 'a) SchedOps)"
    by (rule run_queue.intro) (unfold_locales, auto simp: fifo_ops_def fifo_task_tick_def)
qed

interpretation rr_rq: run_queue rr_queue "rr_ops S" for S :: int
proof -
  have "ready_queue rr_queue (sched_add (rr_ops S)) (sched_pick (rr_ops S)) (sched_put (rr_ops S)) (sched_remove (rr_ops S))"
    using rr.ready_queue_axioms [of S] by (simp add: rr_ops_def)
  then show "run_queue rr_queue (rr_ops S :: ('a RRScheduler, 'a) SchedOps)"
    by (rule run_queue.intro) (unfold_locales, auto simp: rr_ops_def rr_task_tick_def Let_def rr_queue_def)
qed

end
