(* ===== verification/KernelSteps.thy ===== *)
theory KernelSteps
  imports RunQueueCorrect
begin

text \<open>
  The kernel's scheduling state as a state machine: one step for every entry point of the run queue,
  the wait queues and the alarm clock, and the invariant of the states that can be reached. Then what
  \<open>resched\<close> chooses, who is woken by a notification and by the clock, and how an exit hands over.
\<close>

subsection \<open>The step relation\<close>

text \<open>
  A step is a call that returns. A task is added to the run queue once, when it has been created; a
  task taken out by \<open>remove_task\<close> is in the queue. \<open>exit_task\<close> is the part of \<open>exit_current_task\<close>
  that works on the run queue: the stack is given back before the task leaves.
\<close>

inductive kernel_step ::
  "('s \<Rightarrow> 't list \<Rightarrow> bool) \<Rightarrow> ('s, 't) SchedOps \<Rightarrow> ('s, 't) Kernel \<Rightarrow> ('s, 't) Kernel \<Rightarrow> bool"
  for queue :: "'s \<Rightarrow> 't list \<Rightarrow> bool" and S :: "('s, 't) SchedOps" where
  add_task: "queue (scheduler k) xs \<Longrightarrow> t \<notin> set xs \<Longrightarrow> \<not> is_idle (inner k t) \<Longrightarrow>
    rq_add_task S t k = (Ok (), k') \<Longrightarrow> kernel_step queue S k k'"
| remove_task: "queue (scheduler k) xs \<Longrightarrow> t \<in> set xs \<Longrightarrow> rq_remove_task S t k = (Ok (), k') \<Longrightarrow> kernel_step queue S k k'"
| yielding: "yield_current S clock f k = (Ok (), k') \<Longrightarrow> kernel_step queue S k k'"
| running: "run_task S clock f tid k = (Ok (), k') \<Longrightarrow> kernel_step queue S k k'"
| preempting: "preempt_yield S clock f tid k = (Ok (), k') \<Longrightarrow> kernel_step queue S k k'"
| waiting: "wq_wait S clock f q k = (Ok (), k') \<Longrightarrow> kernel_step queue S k k'"
| waiting_until: "wait_until S clock f q condition k = (Ok b, k') \<Longrightarrow> kernel_step queue S k k'"
| waiting_timeout: "wait_timeout S clock f q now dur k = (Ok (), k') \<Longrightarrow> kernel_step queue S k k'"
| resumed: "wait_timeout_resumed q t k = (b, k') \<Longrightarrow> kernel_step queue S k k'"
| sleeping: "sleep_until S clock f now d k = (Ok (), k') \<Longrightarrow> kernel_step queue S k k'"
| notifying_one: "notify_one S q b k = (Ok r, k') \<Longrightarrow> kernel_step queue S k k'"
| notifying_all: "notify_all S q b k = (Ok (), k') \<Longrightarrow> kernel_step queue S k k'"
| notifying_task: "notify_task S q b t k = (Ok r, k') \<Longrightarrow> kernel_step queue S k k'"
| ticking: "on_timer_tick S nows k = (Ok (), k') \<Longrightarrow> kernel_step queue S k k'"
| exiting: "exit_current S clock f code k = (Ok (), k') \<Longrightarrow> kernel_step queue S k k'"
| exit_task: "free_stack (stack_idx (inner k (current k))) k = (Ok (), k1) \<Longrightarrow>
    exit_current S clock f code (tasksub k1) = (Ok (), k') \<Longrightarrow> kernel_step queue S k k'"

context run_queue
begin

lemma notify_task_keeps:
  assumes "loose queue k" and "notify_task S q b t k = (Ok r, k')"
  shows "loose queue k' \<and> same_runner k k'"
proof (cases "position (\<lambda>u. u = t) (wait_queues k q)")
  case None
  then show ?thesis using assms by (simp add: notify_task_def same_runner_def)
next
  case (Some i)
  let ?k = "set_queue q (take i (wait_queues k q) @ drop (Suc i) (wait_queues k q)) (remove_from_wait_queue t k)"
  have "unblock_task S (wait_queues k q ! i) b ?k = (Ok (), k')"
    using assms(2) by (auto simp: notify_task_def Some result_simps)
  then show ?thesis using unblock_keeps [of ?k] assms(1) by (auto simp: bookkeeping same_runner_def)
qed

lemma exit_task_loose:
  assumes i: "kernel_inv queue k" and n: "\<not> is_idle (inner k (current k))"
    and fr: "free_stack (stack_idx (inner k (current k))) k = (Ok (), k1)"
  shows "loose queue (on_inner (current (tasksub k1)) (set_state Exited) (tasksub k1))"
proof -
  let ?c = "current k" and ?k = "on_inner (current k) (set_state Exited) k"
  have run: "inner_state (inner k ?c) = Running" and st: "stacks_ok k" and l: "loose queue ?k"
    using i leave_loose [OF i n] by (simp_all add: kernel_inv_def settled_def is_running_def)
  have k1: "k1 = k\<lparr>kstack_state := (kstack_state k)[stack_idx (inner k ?c) := False]\<rparr>"
    using fr by (simp add: free_stack_def split: if_splits)
  let ?k' = "on_inner (current (tasksub k1)) (set_state Exited) (tasksub k1)"
  have "stacks_ok ?k'"
    by (rule stacks_ok_free [OF st, of _ ?c]) (simp_all add: k1 tasksub_def inner_simps on_stack_def run)
  moreover have "inner ?k' = inner ?k" "scheduler ?k' = scheduler ?k" "current ?k' = current ?k" "idle_task ?k' = idle_task ?k"
    by (simp_all add: k1 tasksub_def on_inner_def)
  ultimately show ?thesis using l by (simp add: loose_def settled_def sched_ok_def idle_ok_def)
qed

lemma wait_until_inv:
  assumes i: "kernel_inv queue k" and r: "wait_until S clock f q condition k = (Ok b, k')"
  shows "kernel_inv queue k'"
proof (cases "condition k")
  case True
  then show ?thesis
    using r i kernel_inv_keeps [OF i, of "cancel_events q (current k) k"] cancel_events_keeps [of q "current k" k]
    by (simp add: wait_until_def kernel_inv_loose)
next
  case False
  then have "block_current S clock f (wait_push q) k = (Ok (), k')" using r by (auto simp: wait_until_def result_simps)
  then show ?thesis using block_inv [OF i] by simp
qed

lemma sleep_inv:
  assumes i: "kernel_inv queue k" and r: "sleep_until S clock f now d k = (Ok (), k')"
  shows "kernel_inv queue k'"
proof (cases "now < d")
  case True
  let ?k = "set_alarm_wakeup d (current k) k"
  have sel: "current ?k = current k" "inner ?k = inner k" by (simp_all add: set_alarm_wakeup_def bookkeeping Let_def)
  have n: "\<not> is_idle (inner ?k (current ?k))"
    and r': "resched S clock f False 0 (on_inner (current ?k) (set_state Blocked) ?k) = (Ok (), k')"
    using r True by (simp_all add: sleep_until_def Let_def assert_then_Ok_iff sel)
  show ?thesis using resched_inv [OF r'] leave_loose [OF _ n] i by (simp add: alarm_kernel_inv)
next
  case False
  then show ?thesis using r i by (simp add: sleep_until_def Let_def assert_then_Ok_iff)
qed

lemma kernel_step_inv: "kernel_step queue S k k' \<Longrightarrow> kernel_inv queue k \<Longrightarrow> kernel_inv queue k'"
proof (induction rule: kernel_step.induct)
  case (add_task k xs t k')
  have l: "loose queue k" using add_task.prems by (simp add: kernel_inv_loose)
  have t: "inner_state (inner k t) = Ready" and r: "on_sched (sched_add S t) k = (Ok (), k')"
    using add_task.hyps(4) by (simp_all add: rq_add_task_def assert_then_Ok_iff is_ready_def)
  have "on_inner t (set_state Ready) k = k" using t by (simp add: on_inner_def set_state_def fun_upd_idem)
  then show ?case
    using add_loose [OF l _ add_task.hyps(1-3)] t r kernel_inv_keeps [OF add_task.prems] by auto
next
  case (remove_task k xs t k')
  then show ?case using remove_keeps kernel_inv_keeps by (meson kernel_inv_loose)
next
  case (yielding clock f k k')
  then show ?case using resched_inv by (auto simp: yield_current_def assert_then_Ok_iff kernel_inv_loose)
next
  case (running clock f tid k k')
  then show ?case using resched_inv by (auto simp: run_task_def kernel_inv_loose)
next
  case (preempting clock f tid k k')
  then show ?case using resched_inv by (auto simp: preempt_yield_def kernel_inv_loose split: if_splits)
next
  case (waiting clock f q k k')
  then show ?case using block_inv [of k clock f "wait_push q" k'] by (simp add: wq_wait_def)
next
  case (waiting_until clock f q condition k b k')
  then show ?case using wait_until_inv by blast
next
  case (waiting_timeout clock f q now dur k k')
  then show ?case
    using block_inv [of "set_alarm_wakeup (now + dur) (current k) k" clock f "wait_push q" k']
    by (simp add: wait_timeout_def alarm_kernel_inv)
next
  case (resumed q t k b k')
  then show ?case using kernel_inv_keeps [of queue k k'] cancel_events_keeps [of q t k]
    by (auto simp: wait_timeout_resumed_def kernel_inv_loose)
next
  case (sleeping clock f now d k k')
  then show ?case using sleep_inv by blast
next
  case (notifying_one q b k r k')
  then show ?case using notify_one_keeps kernel_inv_keeps [OF notifying_one.prems]
    by (auto simp: notify_one_def kernel_inv_loose same_runner_def split: if_splits)
next
  case (notifying_all q b k k')
  then show ?case unfolding notify_all_def using notify_all_keeps kernel_inv_keeps by (meson kernel_inv_loose)
next
  case (notifying_task q b t k r k')
  then show ?case using notify_task_keeps kernel_inv_keeps by (meson kernel_inv_loose)
next
  case (ticking nows k k')
  then obtain k1 where k1: "check_events S nows k = (Ok (), k1)" "scheduler_timer_tick S k1 = (Ok (), k')"
    by (auto simp: on_timer_tick_def result_simps)
  have "loose queue k" using ticking.prems by (simp add: kernel_inv_loose)
  note a = check_events_keeps [OF this k1(1)]
  then have "loose queue k'" "same_runner k1 k'" using scheduler_tick_keeps [OF _ k1(2)] by blast+
  then show ?case using kernel_inv_keeps [OF ticking.prems] a same_runner_trans by blast
next
  case (exiting clock f code k k')
  have "\<not> is_idle (inner k (current k))" using exiting.hyps by (simp add: exit_current_def Let_def assert_then_Ok_iff)
  then show ?case using exit_resched_inv [OF leave_loose exiting.hyps] exiting.prems by blast
next
  case (exit_task k k1 clock f code k')
  have "\<not> is_idle (inner k (current k))"
    using exit_task.hyps by (auto simp: exit_current_def Let_def assert_then_Ok_iff free_stack_def tasksub_def split: if_splits)
  then show ?case using exit_resched_inv [OF exit_task_loose exit_task.hyps(2)] exit_task by blast
qed

end

subsection \<open>Which task \<open>resched\<close> chooses\<close>

text \<open>
  A task is eligible when \<open>resched\<close> may stop at it: its identifier is not that of the idle task, this
  processor is in its mask, and it is the one asked for.
\<close>

definition eligible :: "u64 \<Rightarrow> ('s, 't) Kernel \<Rightarrow> 't \<Rightarrow> bool" where
  "eligible tid k t \<longleftrightarrow> cpu_allows k t \<and> (tid = tid_of k t \<or> tid = 0)"

lemma upd_scheduler_sel [simp]:
  "tid_of (k\<lparr>scheduler := s\<rparr>) = tid_of k" "cpu_allows (k\<lparr>scheduler := s\<rparr>) = cpu_allows k"
  "eligible tid (k\<lparr>scheduler := s\<rparr>) = eligible tid k"
  by (simp_all add: fun_eq_iff tid_of_def cpu_allows_def eligible_def)

lemma set_state_sel [simp]:
  "tid_of (on_inner t (set_state st) k) = tid_of k" "cpu_allows (on_inner t (set_state st) k) = cpu_allows k"
  "eligible tid (on_inner t (set_state st) k) = eligible tid k"
  by (simp_all add: fun_eq_iff tid_of_def cpu_allows_def eligible_def inner_simps)

context run_queue
begin

text \<open>Tasks that are passed over go to the end of the queue; the first eligible one is taken.\<close>

lemma pick_eligible:
  "queue (scheduler k) (pre @ t # post) \<Longrightarrow> length pre < f \<Longrightarrow>
   distinct (map (tid_of k) (pre @ [t])) \<Longrightarrow> \<forall>u \<in> set (pre @ [t]). tid_of k u \<noteq> 3 \<and> tid_of k u \<notin> seen \<Longrightarrow>
   \<forall>u \<in> set pre. \<not> eligible tid k u \<Longrightarrow> eligible tid k t \<Longrightarrow>
   \<exists>s'. resched_pick S tid f seen k = (Ok t, k\<lparr>scheduler := s'\<rparr>) \<and> queue s' (post @ pre)"
proof (induction pre arbitrary: f seen k post)
  case Nil
  obtain g where f: "f = Suc g" using Nil.prems(2) by (cases f) auto
  from Nil.prems(1) show ?case
  proof (cases rule: pick_cases)
    case (2 x ys s')
    then show ?thesis
      using Nil.prems(4,6) unfolding f resched_pick_some [OF 2(2)] by (auto simp: eligible_def)
  qed simp
next
  case (Cons u pre)
  obtain g where f: "f = Suc g" using Cons.prems(2) by (cases f) auto
  from Cons.prems(1) show ?case
  proof (cases rule: pick_cases)
    case (2 x ys s')
    let ?k = "k\<lparr>scheduler := s'\<rparr>"
    have x: "x = u" "ys = pre @ t # post" using 2(1) by auto
    obtain s2 where s2: "on_sched (sched_put S u False) ?k = (Ok (), ?k\<lparr>scheduler := s2\<rparr>)" "queue s2 (pre @ t # post @ [u])"
      using put_run [of ?k ys u] 2(3,4) x by auto
    have eq: "resched_pick S tid f seen k = resched_pick S tid g (insert (tid_of k u) seen) (?k\<lparr>scheduler := s2\<rparr>)"
      using Cons.prems(4,5) unfolding f resched_pick_some [OF 2(2)] x
      by (auto simp: eligible_def and_then_run [of "on_sched (sched_put S u False)" ?k, OF s2(1)])
    have "\<exists>s'. resched_pick S tid g (insert (tid_of k u) seen) (?k\<lparr>scheduler := s2\<rparr>) =
        (Ok t, ?k\<lparr>scheduler := s2\<rparr>\<lparr>scheduler := s'\<rparr>) \<and> queue s' ((post @ [u]) @ pre)"
      by (rule Cons.IH) (use s2(2) Cons.prems(2-6) f in \<open>auto simp: image_iff\<close>)
    then show ?thesis unfolding eq by simp
  qed simp
qed

text \<open>When nobody is eligible the loop ends at the task it saw first, which leaves the queue.\<close>

lemma pick_none:
  "queue (scheduler k) (xs @ ys) \<Longrightarrow> length xs + length ys < f + length ys \<Longrightarrow> distinct (map (tid_of k) (xs @ ys)) \<Longrightarrow>
   \<forall>u \<in> set (xs @ ys). tid_of k u \<noteq> 3 \<and> \<not> eligible tid k u \<Longrightarrow> seen = tid_of k ` set ys \<Longrightarrow> xs @ ys \<noteq> [] \<Longrightarrow>
   \<exists>s' z zs. ys @ xs = z # zs \<and> queue s' zs \<and>
     resched_pick S tid f seen k = (Ok (if is_started (inner k z) then z else idle_task k), k\<lparr>scheduler := s'\<rparr>)"
proof (induction xs arbitrary: ys f seen k)
  case Nil
  obtain g where f: "f = Suc g" using Nil.prems(2) by (cases f) auto
  from Nil.prems(1) show ?case
  proof (cases rule: pick_cases)
    case 1
    then show ?thesis using Nil.prems(6) by simp
  next
    case (2 x zs s')
    then show ?thesis
      using Nil.prems(4,5) unfolding f resched_pick_some [OF 2(2)] by auto
  qed
next
  case (Cons u xs)
  obtain g where f: "f = Suc g" using Cons.prems(2) by (cases f) auto
  from Cons.prems(1) show ?case
  proof (cases rule: pick_cases)
    case (2 x zs s')
    let ?k = "k\<lparr>scheduler := s'\<rparr>"
    have x: "x = u" "zs = xs @ ys" using 2(1) by auto
    obtain s2 where s2: "on_sched (sched_put S u False) ?k = (Ok (), ?k\<lparr>scheduler := s2\<rparr>)" "queue s2 (xs @ ys @ [u])"
      using put_run [of ?k zs u] 2(3,4) x by auto
    have "tid_of k u \<notin> seen" using Cons.prems(3,5) by auto
    then have eq: "resched_pick S tid f seen k = resched_pick S tid g (insert (tid_of k u) seen) (?k\<lparr>scheduler := s2\<rparr>)"
      using Cons.prems(4) unfolding f resched_pick_some [OF 2(2)] x
      by (auto simp: eligible_def and_then_run [of "on_sched (sched_put S u False)" ?k, OF s2(1)])
    have "\<exists>s' z zs. (ys @ [u]) @ xs = z # zs \<and> queue s' zs \<and>
        resched_pick S tid g (insert (tid_of k u) seen) (?k\<lparr>scheduler := s2\<rparr>) =
          (Ok (if is_started (inner (?k\<lparr>scheduler := s2\<rparr>) z) then z else idle_task (?k\<lparr>scheduler := s2\<rparr>)),
           ?k\<lparr>scheduler := s2\<rparr>\<lparr>scheduler := s'\<rparr>)"
      by (rule Cons.IH) (use s2(2) Cons.prems(2-5) f in \<open>auto simp: image_iff\<close>)
    then show ?thesis unfolding eq by (simp split del: if_split cong: if_cong)
  qed simp
qed

lemma put_back_run:
  assumes q: "queue (scheduler k) xs" and c: "is_running (inner k (current k))" "\<not> is_idle (inner k (current k))" "current k \<notin> set xs"
  shows "\<exists>s'. put_back S False k = (Ok (), (on_inner (current k) (set_state Ready) k)\<lparr>scheduler := s'\<rparr>) \<and> queue s' (xs @ [current k])"
  using yield_queue [OF q c(3)] c(1,2) by (auto simp: put_back_def Let_def inner_simps on_sched_def)

text \<open>Switching to a user task that has a kernel stack, or gets one.\<close>

lemma switch_to_user:
  assumes n: "prev \<noteq> t" "\<not> is_kernel_task (inner k t)"
    and st: "is_started (inner k t) \<or> (\<exists>i \<in> {1..<KSTACK_NUM}. \<not> kstack_state k ! i)"
  shows "\<exists>k'. switch_to S clock (Suc f) prev t k = (Ok (), k') \<and> current k' = t \<and> scheduler k' = scheduler k \<and>
    is_running (inner k' t) \<and> is_started (inner k' t) \<and> (\<forall>u. u \<noteq> t \<longrightarrow> inner_state (inner k' u) = inner_state (inner k u))"
proof -
  let ?k2 = "on_inner prev (time_stat_when_switch_from (clock f)) (on_inner t (time_stat_when_switch_to (clock f)) (on_inner t (set_state Running) k))"
  define k3 where "k3 = (if inner_token (inner ?k2 t) \<noteq> 0 then ?k2\<lparr>page_table_root := inner_token (inner ?k2 t)\<rparr> else ?k2)"
  have k3: "scheduler k3 = scheduler k" "kstack_state k3 = kstack_state k" "inner_state (inner k3 t) = Running"
    "is_started (inner k3 t) = is_started (inner k t)" "\<not> is_kernel_task (inner k3 t)"
    "\<And>u. u \<noteq> t \<Longrightarrow> inner_state (inner k3 u) = inner_state (inner k u)"
    using n by (auto simp: k3_def inner_simps time_hooks)
  have run: "switch_to S clock (Suc f) prev t k = (if is_started (inner k3 t) then
        (Ok (), (on_inner t (\<lambda>x. x\<lparr>has_been_preempted := False\<rparr>) k3)\<lparr>cur_stack := stack_idx (inner k3 t), current := t\<rparr>)
      else and_then alloc_stack (\<lambda>idx k4. (Ok (), (on_inner t (\<lambda>x. x\<lparr>is_started := True, stack_idx := idx\<rparr>) k4)
        \<lparr>cur_stack := idx, current := t\<rparr>)) k3)"
    using n(1) k3(5) unfolding k3_def by (simp only: switch_to.simps Let_def if_False)
  show ?thesis
  proof (cases "is_started (inner k t)")
    case True
    then show ?thesis unfolding run using k3 by (auto simp: inner_simps)
  next
    case False
    then obtain i where "first_free (kstack_state k3) [1..<KSTACK_NUM] = Some i"
      using st first_free_None [of "kstack_state k" "[1..<KSTACK_NUM]"] k3(2) by fastforce
    then have "alloc_stack k3 = (Ok i, k3\<lparr>kstack_state := (kstack_state k3)[i := True]\<rparr>)" by (simp add: alloc_stack_def)
    then show ?thesis unfolding run using k3 False by (auto simp: inner_simps and_then_def)
  qed
qed

lemma run_task_target:
  assumes q: "queue (scheduler k) (pre @ t # post)" and c: "is_running (inner k (current k))" "\<not> is_idle (inner k (current k))"
      "current k \<notin> set (pre @ t # post)"
    and ids: "distinct (map (tid_of k) (pre @ [t]))" "\<forall>u \<in> set (pre @ [t]). tid_of k u \<noteq> 3"
    and t: "cpu_allows k t" "tid_of k t \<noteq> 0" "\<not> is_kernel_task (inner k t)"
    and st: "is_started (inner k t) \<or> (\<exists>i \<in> {1..<KSTACK_NUM}. \<not> kstack_state k ! i)" and f: "length pre + 2 \<le> f"
  shows "\<exists>k'. run_task S clock (Suc f) (tid_of k t) k = (Ok (), k') \<and> current k' = t \<and> is_running (inner k' t) \<and>
    is_ready (inner k' (current k)) \<and> queue (scheduler k') (post @ [current k] @ pre)"
proof -
  let ?c = "current k" and ?k = "on_inner (current k) (set_state Ready) k"
  obtain s1 where s1: "put_back S False k = (Ok (), ?k\<lparr>scheduler := s1\<rparr>)" "queue s1 (pre @ t # post @ [?c])"
    using put_back_run [OF q c] by auto
  have el: "eligible (tid_of k t) k t" "\<forall>u \<in> set pre. \<not> eligible (tid_of k t) k u"
    using t ids(1) by (auto simp: eligible_def image_iff)
  have "\<exists>s'. resched_pick S (tid_of k t) f {} (?k\<lparr>scheduler := s1\<rparr>) = (Ok t, ?k\<lparr>scheduler := s1\<rparr>\<lparr>scheduler := s'\<rparr>) \<and>
      queue s' ((post @ [?c]) @ pre)"
    by (rule pick_eligible) (use s1(2) f ids el in auto)
  then obtain s2 where s2: "resched_pick S (tid_of k t) f {} (?k\<lparr>scheduler := s1\<rparr>) = (Ok t, ?k\<lparr>scheduler := s2\<rparr>)"
      "queue s2 (post @ [?c] @ pre)" by auto
  obtain g where g: "f = Suc g" using f by (cases f) auto
  have ct: "?c \<noteq> t" using c(3) by auto
  obtain k' where k': "switch_to S clock f ?c t (?k\<lparr>scheduler := s2\<rparr>) = (Ok (), k')" "current k' = t"
      "scheduler k' = s2" "is_running (inner k' t)" "\<forall>u. u \<noteq> t \<longrightarrow> inner_state (inner k' u) = inner_state (inner ?k u)"
    using switch_to_user [OF ct, of "?k\<lparr>scheduler := s2\<rparr>" clock g] t(3) st ct by (auto simp: g inner_simps)
  have "run_task S clock (Suc f) (tid_of k t) k = (Ok (), k')"
    unfolding run_task_def resched.simps and_then_Ok_iff using s1(1) s2(1) k'(1) by blast
  then show ?thesis using k' s2(2) ct by (auto simp: is_ready_def inner_simps)
qed

lemma run_task_loses:
  assumes q: "queue (scheduler k) (x # xs)" and c: "current k = idle_task k" "is_running (inner k (idle_task k))" "is_idle (inner k (idle_task k))"
      "idle_task k \<notin> set (x # xs)"
    and ids: "distinct (map (tid_of k) (x # xs))" "\<forall>u \<in> set (x # xs). tid_of k u \<noteq> 3 \<and> tid_of k u \<noteq> tid" "tid \<noteq> 0"
    and x: "is_ready (inner k x)" "\<not> is_started (inner k x)" and f: "length xs + 2 < f"
  shows "\<exists>k'. run_task S clock (Suc f) tid k = (Ok (), k') \<and> current k' = idle_task k \<and> is_ready (inner k' x) \<and>
    queue (scheduler k') xs"
proof -
  let ?c = "idle_task k" and ?k = "on_inner (idle_task k) (set_state Ready) k"
  have p: "put_back S False k = (Ok (), ?k)" using c by (simp add: put_back_def Let_def inner_simps)
  have "\<exists>s' z zs. [] @ x # xs = z # zs \<and> queue s' zs \<and>
      resched_pick S tid f {} ?k = (Ok (if is_started (inner ?k z) then z else idle_task ?k), ?k\<lparr>scheduler := s'\<rparr>)"
    by (rule pick_none) (use q ids f in \<open>auto simp: eligible_def\<close>)
  then obtain s2 where s2: "resched_pick S tid f {} ?k = (Ok ?c, ?k\<lparr>scheduler := s2\<rparr>)" "queue s2 xs"
    using x(2) c(4) by (auto simp: inner_simps split: if_splits)
  obtain g where g: "f = Suc g" using f by (cases f) auto
  have "switch_to S clock f ?c ?c (?k\<lparr>scheduler := s2\<rparr>) = (Ok (), on_inner ?c (set_state Running) (?k\<lparr>scheduler := s2\<rparr>))"
    by (simp add: g Let_def)
  then have "run_task S clock (Suc f) tid k = (Ok (), on_inner ?c (set_state Running) (?k\<lparr>scheduler := s2\<rparr>))"
    unfolding run_task_def resched.simps and_then_Ok_iff using p s2(1) c(1) by metis
  then show ?thesis using s2(2) x(1) c by (auto simp: inner_simps)
qed

subsection \<open>Who is woken\<close>

lemma unblock_run:
  assumes q: "queue (scheduler k) xs" "t \<notin> set xs" and b: "is_blocked (inner k t)"
  shows "\<exists>s'. unblock_task S t r k = (Ok (), (on_inner t (set_state Ready) k)\<lparr>scheduler := s'\<rparr>) \<and> queue s' (xs @ [t])"
  using add_queue [OF q] b by (auto simp: unblock_task_def on_sched_def)

lemma unblock_loose:
  assumes "loose queue k"
  shows "\<exists>k'. unblock_task S t r k = (Ok (), k') \<and> loose queue k' \<and> \<not> is_blocked (inner k' t) \<and>
    (\<forall>u. u \<noteq> t \<longrightarrow> inner k' u = inner k u) \<and> timer_list k' = timer_list k"
proof (cases "is_blocked (inner k t)")
  case True
  obtain xs where xs: "queue (scheduler k) xs" "\<forall>t \<in> set xs. is_ready (inner k t)"
    using assms by (auto simp: loose_def settled_def sched_ok_def)
  have "t \<notin> set xs" using xs(2) True by (auto simp: is_ready_def is_blocked_def)
  then obtain s' where "unblock_task S t r k = (Ok (), (on_inner t (set_state Ready) k)\<lparr>scheduler := s'\<rparr>)"
    using unblock_run [OF xs(1) _ True] by blast
  then show ?thesis using unblock_keeps [OF assms] by (auto simp: inner_simps)
next
  case False
  then show ?thesis using assms by (simp add: unblock_task_def)
qed

lemma notify_all_wakes:
  "queue (scheduler k) xs \<Longrightarrow> wait_queues k q = ts \<Longrightarrow> distinct (xs @ ts) \<Longrightarrow> \<forall>t \<in> set ts. is_blocked (inner k t) \<Longrightarrow>
   length ts < f \<Longrightarrow>
   \<exists>k'. notify_all_loop S q b f k = (Ok (), k') \<and> queue (scheduler k') (xs @ ts) \<and> wait_queues k' q = [] \<and>
     (\<forall>t \<in> set ts. is_ready (inner k' t)) \<and> (\<forall>t. t \<notin> set ts \<longrightarrow> inner k' t = inner k t)"
proof (induction ts arbitrary: k xs f)
  case Nil
  then show ?case by (cases f) auto
next
  case (Cons t ts)
  obtain g where f: "f = Suc g" using Cons.prems(5) by (cases f) auto
  let ?k = "remove_from_wait_queue t (set_queue q ts k)"
  have sel: "scheduler ?k = scheduler k" "inner ?k = inner k" "wait_queues ?k q = ts" by (simp_all add: bookkeeping)
  obtain s1 where s1: "unblock_task S t b ?k = (Ok (), (on_inner t (set_state Ready) ?k)\<lparr>scheduler := s1\<rparr>)" "queue s1 (xs @ [t])"
    using unblock_run [of ?k xs t b] Cons.prems(1,3,4) sel by auto
  let ?k1 = "(on_inner t (set_state Ready) ?k)\<lparr>scheduler := s1\<rparr>"
  have "\<exists>k'. notify_all_loop S q b g ?k1 = (Ok (), k') \<and> queue (scheduler k') ((xs @ [t]) @ ts) \<and> wait_queues k' q = [] \<and>
     (\<forall>t \<in> set ts. is_ready (inner k' t)) \<and> (\<forall>u. u \<notin> set ts \<longrightarrow> inner k' u = inner ?k1 u)"
    by (rule Cons.IH) (use s1(2) Cons.prems f sel in \<open>auto simp: inner_simps\<close>)
  then obtain k' where k': "notify_all_loop S q b g ?k1 = (Ok (), k')" "queue (scheduler k') (xs @ t # ts)" "wait_queues k' q = []"
     "\<forall>t \<in> set ts. is_ready (inner k' t)" "\<forall>u. u \<notin> set ts \<longrightarrow> inner k' u = inner ?k1 u" by auto
  have "notify_all_loop S q b f k = (Ok (), k')"
    by (simp add: f Cons.prems(2) and_then_run [of "unblock_task S t b" ?k, OF s1(1)] k'(1))
  moreover have "is_ready (inner k' t)" using k'(5) Cons.prems(3) by (auto simp: inner_simps)
  moreover have "\<forall>u. u \<notin> set (t # ts) \<longrightarrow> inner k' u = inner k u" using k'(5) sel by (auto simp: inner_simps)
  ultimately show ?case using k' by auto
qed

lemma check_events_wakes:
  "loose queue k \<Longrightarrow> timers_ok (timer_list k) \<Longrightarrow> length (events (timer_list k)) < length nows \<Longrightarrow>
   \<forall>n \<in> set nows. lo \<le> n \<and> n \<le> hi \<Longrightarrow>
   \<exists>k' W. check_events S nows k = (Ok (), k') \<and> timers_ok (timer_list k') \<and> pending (timer_list k) = pending (timer_list k') + W \<and>
     (\<forall>e \<in># pending (timer_list k'). lo < deadline e) \<and>
     (\<forall>e \<in># W. deadline e \<le> hi \<and> \<not> is_blocked (inner k' (event e))) \<and>
     (\<forall>t. t \<notin> event ` set_mset W \<longrightarrow> inner k' t = inner k t)"
proof (induction nows arbitrary: k)
  case (Cons now nows)
  obtain r l where e: "expire_one now (timer_list k) = (r, l)" by fastforce
  show ?case
  proof (cases r)
    case None
    then have "\<forall>x \<in># pending (timer_list k). now < deadline x" "l = timer_list k"
      using expire_one_None [OF Cons.prems(2), of now] expire_one_None_same [of now "timer_list k"] e by auto
    then show ?thesis using Cons.prems e None by (intro exI [of _ "k"] exI [of _ "{#}"]) force
  next
    case (Some p)
    obtain d t where p: "p = (d, t)" by (cases p)
    note x = expire_one_Some [OF Cons.prems(2) e [unfolded Some p]]
    let ?k = "remove_from_timer_list t (k\<lparr>timer_list := l\<rparr>)"
    have l: "loose queue ?k" using Cons.prems(1) by (simp add: bookkeeping)
    obtain k1 where k1: "unblock_task S t True ?k = (Ok (), k1)" "loose queue k1" "\<not> is_blocked (inner k1 t)"
        "\<forall>u. u \<noteq> t \<longrightarrow> inner k1 u = inner ?k u" "timer_list k1 = l"
      using unblock_loose [OF l, of t True] by (auto simp: bookkeeping)
    obtain k' W where k': "check_events S nows k1 = (Ok (), k')" "timers_ok (timer_list k')" "pending l = pending (timer_list k') + W"
        "\<forall>e \<in># pending (timer_list k'). lo < deadline e" "\<forall>e \<in># W. deadline e \<le> hi \<and> \<not> is_blocked (inner k' (event e))"
        "\<forall>t. t \<notin> event ` set_mset W \<longrightarrow> inner k' t = inner k1 t"
      using Cons.IH [OF k1(2)] k1(5) x Cons.prems(3,4) by auto
    have "check_events S (now # nows) k = (Ok (), k')"
      using k1(1) k'(1) by (simp add: e Some p wakeup_callback_def and_then_def)
    moreover have "\<not> is_blocked (inner k' t)" using k'(5,6) k1(3) by (metis imageE)
    moreover have "d \<le> hi" using x Cons.prems(4) by force
    ultimately show ?thesis using k' k1(4) x
      by (intro exI [of _ k'] exI [of _ "add_mset \<lparr>deadline = d, event = t\<rparr> W"]) (auto simp: bookkeeping)
  qed
qed simp

end

subsection \<open>Properties\<close>

text \<open>
  C17: in every state that the kernel reaches through its entry points, the current task is the only one
  that is running, the tasks in the ready queue are ready and none is the idle task, and two tasks that
  have started and not exited never share a kernel stack.
\<close>

theorem kernel_invariant:
  assumes "kernel_inv fifo_queue k" and "(kernel_step fifo_queue fifo_ops)\<^sup>*\<^sup>* k k'"
  shows "(\<forall>t. is_running (inner k' t) \<longleftrightarrow> t = current k') \<and>
    (\<exists>xs. fifo_queue (scheduler k') xs \<and> (\<forall>t \<in> set xs. is_ready (inner k' t) \<and> \<not> is_idle (inner k' t))) \<and>
    (\<forall>t u. on_stack (inner k' t) \<longrightarrow> on_stack (inner k' u) \<longrightarrow> t \<noteq> u \<longrightarrow> stack_idx (inner k' t) \<noteq> stack_idx (inner k' u))"
proof -
  have "kernel_inv fifo_queue k'"
    using assms(2,1) by (induction rule: rtranclp_induct) (auto intro: fifo_rq.kernel_step_inv)
  then show ?thesis by (simp add: kernel_inv_def settled_def sched_ok_def stacks_ok_def)
qed

text \<open>A kernel with the idle task 0, the running task 1 and any number of user tasks.\<close>

definition demo_inner :: "nat \<Rightarrow> TaskInner" where
  "demo_inner t = (if t = 0 then (new_common 3 ''idle'')\<lparr>is_idle := True, cpu_set := 1\<rparr>
     else if t = 1 then (new_common 1 ''main'')\<lparr>inner_state := Running, cpu_set := 1\<rparr>
     else (new_common (of_nat (t + 2)) ''user'')\<lparr>cpu_set := 1\<rparr>)"

definition demo_kernel :: "(nat FifoScheduler, nat) Kernel" where
  "demo_kernel = \<lparr>scheduler = fifo_new Map.empty, kstack_state = replicate KSTACK_NUM False, task_nub = 0, cur_stack = 0,
     inner = demo_inner, current = 1, idle_task = 0, cpu_id = 0, page_table_root = 0, exited_tasks = [],
     wait_queues = \<lambda>_. [], wait_for_task_exits = Map.empty, task_in_wait_queue = {}, task_in_time_list = {},
     timer_list = timers_new\<rparr>"

lemma demo_fifo: "fifo_queue (scheduler demo_kernel) []"
  by (simp add: demo_kernel_def fifo_queue_def fifo_new_def list_new_def holds_simps)

lemma demo_kernel_inv: "kernel_inv fifo_queue demo_kernel"
proof -
  have "is_kernel_task (demo_inner 0)" by (simp add: demo_inner_def is_kernel_task_def new_common_def)
  then show ?thesis using demo_fifo
    by (auto simp: kernel_inv_def settled_def sched_ok_def idle_ok_def stacks_ok_def on_stack_def demo_kernel_def
        demo_inner_def new_common_def is_running_def is_blocked_def intro!: exI [of _ "[]"])
qed

lemma demo_add:
  "\<exists>s'. rq_add_task fifo_ops 5 demo_kernel = (Ok (), demo_kernel\<lparr>scheduler := s'\<rparr>) \<and> fifo_queue s' [5]"
proof -
  obtain s' where "fifo_add_task 5 (scheduler demo_kernel) = (Ok (), s')" "fifo_queue s' ([] @ [5])"
    using fifo.add_queue [OF demo_fifo, of 5] by auto
  then show ?thesis
    by (auto simp: rq_add_task_def assert_then_def on_sched_def fifo_ops_def demo_kernel_def demo_inner_def new_common_def is_ready_def)
qed

theorem kernel_invariant_witness:
  "\<exists>k'. kernel_step fifo_queue fifo_ops demo_kernel k' \<and> (\<forall>t. is_running (inner k' t) \<longleftrightarrow> t = current k')"
proof -
  obtain s' where s': "rq_add_task fifo_ops 5 demo_kernel = (Ok (), demo_kernel\<lparr>scheduler := s'\<rparr>)" using demo_add by blast
  have "kernel_step fifo_queue fifo_ops demo_kernel (demo_kernel\<lparr>scheduler := s'\<rparr>)"
    using s' by (intro kernel_step.add_task [where k = demo_kernel and xs = "[]" and t = 5])
      (simp_all add: demo_fifo, simp_all add: demo_kernel_def demo_inner_def new_common_def)
  then show ?thesis using kernel_invariant [OF demo_kernel_inv r_into_rtranclp] by blast
qed

text \<open>
  C18: \<open>run_task\<close> reaches its target: a ready user task of the given identifier, wherever it stands in
  the queue, becomes the running task if it has a kernel stack or one is free; the task that ran goes
  back to the queue, and the queue keeps all the others, those that were passed over at its end.
\<close>

theorem run_task_reaches:
  assumes "fifo_queue (scheduler k) (pre @ t # post)" and "is_running (inner k (current k))" "\<not> is_idle (inner k (current k))"
      "current k \<notin> set (pre @ t # post)"
    and "distinct (map (tid_of k) (pre @ [t]))" "\<forall>u \<in> set (pre @ [t]). tid_of k u \<noteq> 3"
    and "cpu_allows k t" "tid_of k t \<noteq> 0" "\<not> is_kernel_task (inner k t)"
    and "is_started (inner k t) \<or> (\<exists>i \<in> {1..<KSTACK_NUM}. \<not> kstack_state k ! i)" and "length pre + 2 \<le> f"
  shows "\<exists>k'. run_task fifo_ops clock (Suc f) (tid_of k t) k = (Ok (), k') \<and> current k' = t \<and> is_running (inner k' t) \<and>
    is_ready (inner k' (current k)) \<and> fifo_queue (scheduler k') (post @ [current k] @ pre)"
  using fifo_rq.run_task_target [OF assms] .

theorem run_task_reaches_witness:
  "\<exists>s' k'. rq_add_task fifo_ops 5 demo_kernel = (Ok (), demo_kernel\<lparr>scheduler := s'\<rparr>) \<and>
     run_task fifo_ops (\<lambda>_. 0) (Suc 2) 7 (demo_kernel\<lparr>scheduler := s'\<rparr>) = (Ok (), k') \<and> current k' = 5 \<and>
     fifo_queue (scheduler k') [1]"
proof -
  obtain s' where s': "rq_add_task fifo_ops 5 demo_kernel = (Ok (), demo_kernel\<lparr>scheduler := s'\<rparr>)" "fifo_queue s' [5]"
    using demo_add by blast
  let ?k = "demo_kernel\<lparr>scheduler := s'\<rparr>"
  have i: "inner ?k = demo_inner" "current ?k = 1" by (simp_all add: demo_kernel_def)
  have t: "tid_of ?k 5 = 7" by (simp add: tid_of_def demo_kernel_def demo_inner_def new_common_def)
  have "\<exists>k'. run_task fifo_ops (\<lambda>_. 0) (Suc 2) (tid_of ?k 5) ?k = (Ok (), k') \<and> current k' = 5 \<and> is_running (inner k' 5) \<and>
    is_ready (inner k' (current ?k)) \<and> fifo_queue (scheduler k') ([] @ [current ?k] @ [])"
    by (rule run_task_reaches)
      (use s'(2) in \<open>auto simp: i t demo_inner_def new_common_def is_running_def cpu_allows_def shl1_def
         is_kernel_task_def tid_of_def demo_kernel_def KSTACK_NUM_def intro!: bexI [of _ 1]\<close>)
  then show ?thesis using s'(1) i(2) t by auto
qed



text \<open>
  \<open>notify_all\<close> returns and wakes every task of the wait queue: they are all ready and stand at the
  end of the ready queue in the order in which they began to wait, the wait queue is empty, and no other
  task is touched.
\<close>

lemma notify_all_wakes_all:
  assumes "fifo_queue (scheduler k) xs" and "distinct (xs @ wait_queues k q)" and "\<forall>t \<in> set (wait_queues k q). is_blocked (inner k t)"
  shows "\<exists>k'. notify_all fifo_ops q b k = (Ok (), k') \<and> fifo_queue (scheduler k') (xs @ wait_queues k q) \<and> wait_queues k' q = [] \<and>
     (\<forall>t \<in> set (wait_queues k q). is_ready (inner k' t)) \<and> (\<forall>t. t \<notin> set (wait_queues k q) \<longrightarrow> inner k' t = inner k t)"
  unfolding notify_all_def by (rule fifo_rq.notify_all_wakes [OF assms(1) refl assms(2,3) lessI])



end
