(* ===== verification/Path.thy ===== *)
theory Path
  imports Prelude
begin

text \<open>
  \<open>crates/axfs_vfs/src/path.rs\<close>: path normalisation. A Rust string is its sequence of UTF-8 bytes, a
  \<open>string\<close> here; slicing it elsewhere than at the boundary of a character panics. The reference resolves
  the components of the path on a stack.
\<close>

subsection \<open>Strings\<close>

abbreviation slash :: char where "slash \<equiv> CHR ''/''"

text \<open>A byte that continues a character of more than one byte.\<close>

definition is_cont :: "char \<Rightarrow> bool" where
  "is_cont c \<longleftrightarrow> 128 \<le> (of_char c :: nat) \<and> (of_char c :: nat) < 192"

text \<open>\<open>str::split('/')\<close>.\<close>

fun split_slash :: "string \<Rightarrow> string list" where
  "split_slash [] = [[]]"
| "split_slash (c # cs) = (if c = slash then [] # split_slash cs
     else (case split_slash cs of [] \<Rightarrow> [[c]] | p # ps \<Rightarrow> (c # p) # ps))"

text \<open>\<open>String::pop\<close> on a string that is not empty: the first byte of the last character, and the rest.\<close>

definition str_pop :: "string \<Rightarrow> char \<times> string" where
  "str_pop buf = (let n = length (takeWhile is_cont (rev buf)); m = length buf - Suc n
     in (buf ! m, take m buf))"

text \<open>\<open>&buf[buf.len() - 1..]\<close> of a string that is not empty.\<close>

definition last_byte_slice :: "string \<Rightarrow> (string, unit) result" where
  "last_byte_slice buf = (if is_cont (last buf) then Panic else Ok [last buf])"

subsection \<open>\<open>canonicalize\<close>\<close>

function pop_component :: "string \<Rightarrow> string" where
  "pop_component buf =
     (if buf = [] then buf
      else if buf = ''/'' then buf
      else case str_pop buf of (c, buf') \<Rightarrow> if c = slash then buf' else pop_component buf')"
  by pat_completeness auto
termination
  by (relation "measure length") (auto simp: str_pop_def Let_def)

definition canon_part :: "bool \<Rightarrow> string \<Rightarrow> string \<Rightarrow> (string, unit) result" where
  "canon_part is_absolute part buf =
     (if part = '''' \<or> part = ''.'' then Ok buf
      else if part = ''..'' then Ok (pop_component buf)
      else if buf = [] then Ok ((if is_absolute then [slash] else []) @ part)
      else res_bind (last_byte_slice buf) (\<lambda>l. Ok ((if l \<noteq> ''/'' then buf @ [slash] else buf) @ part)))"

fun canon_loop :: "bool \<Rightarrow> string list \<Rightarrow> string \<Rightarrow> (string, unit) result" where
  "canon_loop is_absolute [] buf = Ok buf"
| "canon_loop is_absolute (p # ps) buf = res_bind (canon_part is_absolute p buf) (canon_loop is_absolute ps)"

definition canonicalize :: "string \<Rightarrow> (string, unit) result" where
  "canonicalize path =
     (let is_absolute = (take 1 path = ''/'') in
      res_bind (canon_loop is_absolute (split_slash path) []) (\<lambda>buf.
        Ok (if is_absolute \<and> buf = [] then [slash] else buf)))"

subsection \<open>The reference: a stack of components\<close>

definition resolve_part :: "string list \<Rightarrow> string \<Rightarrow> string list" where
  "resolve_part st part =
     (if part = '''' \<or> part = ''.'' then st else if part = ''..'' then butlast st else st @ [part])"

fun join_slash :: "string list \<Rightarrow> string" where
  "join_slash [] = []"
| "join_slash [p] = p"
| "join_slash (p # q # ps) = p @ slash # join_slash (q # ps)"

definition resolve_path :: "string \<Rightarrow> string list" where
  "resolve_path path = foldl resolve_part [] (split_slash path)"

definition canonical_form :: "string \<Rightarrow> string" where
  "canonical_form path =
     (if take 1 path = ''/'' then slash # join_slash (resolve_path path) else join_slash (resolve_path path))"

text \<open>A component: not empty, free of slashes, and all its bytes are characters of their own.\<close>

definition plain :: "string \<Rightarrow> bool" where
  "plain p \<longleftrightarrow> p \<noteq> [] \<and> slash \<notin> set p \<and> (\<forall>c \<in> set p. \<not> is_cont c)"

text \<open>What the buffer holds when the components on the stack are \<open>st\<close>.\<close>

definition shows_stack :: "bool \<Rightarrow> string list \<Rightarrow> string \<Rightarrow> bool" where
  "shows_stack is_abs st buf \<longleftrightarrow> (\<forall>p \<in> set st. plain p) \<and>
     (if st = [] then buf = [] \<or> is_abs \<and> buf = ''/'' else buf = (if is_abs then [slash] else []) @ join_slash st)"

lemma str_pop_snoc [simp]: "\<not> is_cont c \<Longrightarrow> str_pop (xs @ [c]) = (c, xs)"
  by (simp add: str_pop_def Let_def nth_append)

lemma slash_not_cont [simp]: "\<not> is_cont slash"
  by (simp add: is_cont_def)

declare pop_component.simps [simp del]

lemma pop_component_empty [simp]: "pop_component [] = []" "pop_component ''/'' = ''/''"
  by (subst pop_component.simps, simp)+

lemma pop_component_plain:
  assumes "\<forall>c \<in> set p. \<not> is_cont c \<and> c \<noteq> slash" and "b = [] \<or> last b = slash"
  shows "pop_component (b @ p) = (if b = [] then [] else if b = ''/'' then b else butlast b)"
  using assms(1)
proof (induction p rule: rev_induct)
  case Nil
  show ?case
  proof (cases b rule: rev_cases)
    case (snoc b' c)
    then show ?thesis using assms(2) by (subst pop_component.simps) auto
  qed simp
next
  case (snoc c p)
  have "pop_component (b @ p @ [c]) = pop_component (b @ p)"
    using snoc.prems str_pop_snoc [of c "b @ p"] by (subst pop_component.simps) auto
  then show ?case using snoc by simp
qed

lemma join_slash_snoc: "join_slash (st @ [p]) = (if st = [] then p else join_slash st @ slash # p)"
  by (induction st rule: join_slash.induct) auto

lemma join_slash_last: "st \<noteq> [] \<Longrightarrow> \<forall>p \<in> set st. plain p \<Longrightarrow> join_slash st \<noteq> [] \<and> \<not> is_cont (last (join_slash st)) \<and> last (join_slash st) \<noteq> slash"
proof (cases st rule: rev_cases)
  case (snoc st' p)
  assume "\<forall>p \<in> set st. plain p"
  then have "p \<noteq> []" "last p \<in> set p" "\<forall>c \<in> set p. \<not> is_cont c" "slash \<notin> set p" by (auto simp: snoc plain_def)
  moreover from this have "last p \<noteq> slash" by metis
  ultimately show ?thesis by (simp add: snoc join_slash_snoc)
qed simp

lemma shows_stack_pop:
  assumes "shows_stack a st buf"
  shows "shows_stack a (butlast st) (pop_component buf)"
proof (cases st rule: rev_cases)
  case Nil
  then show ?thesis using assms by (auto simp: shows_stack_def)
next
  case (snoc st' p)
  let ?pre = "if a then [slash] else []"
  have p: "\<forall>c \<in> set p. \<not> is_cont c \<and> c \<noteq> slash" and pl: "\<forall>q \<in> set st'. plain q"
    using assms by (auto simp: shows_stack_def snoc plain_def)
  show ?thesis
  proof (cases "st' = []")
    case True
    then have "buf = ?pre @ p" using assms by (simp add: shows_stack_def snoc)
    then show ?thesis using pop_component_plain [OF p, of ?pre] True by (auto simp: snoc shows_stack_def)
  next
    case False
    have b: "buf = (?pre @ join_slash st' @ [slash]) @ p" using assms False by (simp add: shows_stack_def snoc join_slash_snoc)
    have n: "join_slash st' \<noteq> []" using join_slash_last [OF False pl] by simp
    show ?thesis unfolding b using pop_component_plain [OF p, of "?pre @ join_slash st' @ [slash]"] n False pl
      by (auto simp: snoc shows_stack_def butlast_append)
  qed
qed

lemma shows_stack_part:
  assumes s: "shows_stack a st buf" and p: "slash \<notin> set part" "\<forall>c \<in> set part. \<not> is_cont c"
  shows "\<exists>buf'. canon_part a part buf = Ok buf' \<and> shows_stack a (resolve_part st part) buf'"
proof (cases "part = '''' \<or> part = ''.'' \<or> part = ''..''")
  case True
  then show ?thesis using s shows_stack_pop [OF s] by (auto simp: canon_part_def resolve_part_def)
next
  case False
  then have pl: "plain part" and r: "resolve_part st part = st @ [part]" using p by (auto simp: plain_def resolve_part_def)
  show ?thesis
  proof (cases "st = []")
    case True
    then show ?thesis using s False pl unfolding r
      by (auto simp: canon_part_def shows_stack_def last_byte_slice_def)
  next
    case nonempty: False
    have j: "join_slash st \<noteq> []" "\<not> is_cont (last (join_slash st))" "last (join_slash st) \<noteq> slash"
      using join_slash_last [OF nonempty] s by (auto simp: shows_stack_def)
    then show ?thesis using s False nonempty pl unfolding r
      by (auto simp: canon_part_def shows_stack_def last_byte_slice_def join_slash_snoc)
  qed
qed

lemma canon_loop_stack:
  "shows_stack a st buf \<Longrightarrow> \<forall>p \<in> set ps. slash \<notin> set p \<and> (\<forall>c \<in> set p. \<not> is_cont c) \<Longrightarrow>
   \<exists>buf'. canon_loop a ps buf = Ok buf' \<and> shows_stack a (foldl resolve_part st ps) buf'"
proof (induction ps arbitrary: st buf)
  case (Cons p ps)
  obtain b where "canon_part a p buf = Ok b" "shows_stack a (resolve_part st p) b"
    using shows_stack_part [OF Cons.prems(1), of p] Cons.prems(2) by auto
  then show ?case using Cons.IH [of "resolve_part st p" b] Cons.prems(2) by simp
qed simp

lemma split_slash_parts: "p \<in> set (split_slash path) \<Longrightarrow> slash \<notin> set p \<and> set p \<subseteq> set path"
proof (induction path arbitrary: p)
  case (Cons c cs)
  show ?case
  proof (cases "split_slash cs")
    case Nil
    then show ?thesis using Cons by (auto split: if_splits)
  next
    case (Cons q qs)
    then show ?thesis using Cons.IH [of p] Cons.IH [of q] Cons.prems by (fastforce split: if_splits)
  qed
qed simp

lemma canonicalize_form:
  assumes "\<forall>c \<in> set path. \<not> is_cont c"
  shows "canonicalize path = Ok (canonical_form path)"
proof -
  let ?a = "take 1 path = ''/''"
  have "\<forall>p \<in> set (split_slash path). slash \<notin> set p \<and> (\<forall>c \<in> set p. \<not> is_cont c)"
    using split_slash_parts assms by blast
  from canon_loop_stack [OF _ this, of ?a "[]" "[]"]
  obtain buf where "canon_loop ?a (split_slash path) [] = Ok buf" "shows_stack ?a (resolve_path path) buf"
    by (auto simp: shows_stack_def resolve_path_def)
  then show ?thesis
    using join_slash_last [of "resolve_path path"]
    by (auto simp: canonicalize_def canonical_form_def shows_stack_def Let_def split: if_splits)
qed

subsection \<open>The canonical form is canonical\<close>

lemma split_slash_plain: "slash \<notin> set p \<Longrightarrow> split_slash p = [p]"
  by (induction p) auto

lemma split_slash_append: "slash \<notin> set p \<Longrightarrow> split_slash (p @ slash # rest) = p # split_slash rest"
  by (induction p) auto

lemma split_join: "st \<noteq> [] \<Longrightarrow> \<forall>p \<in> set st. slash \<notin> set p \<Longrightarrow> split_slash (join_slash st) = st"
  by (induction st rule: join_slash.induct) (auto simp: split_slash_plain split_slash_append)

text \<open>Components that are left on the stack are names.\<close>

definition name_ok :: "string \<Rightarrow> bool" where
  "name_ok p \<longleftrightarrow> slash \<notin> set p \<and> p \<noteq> '''' \<and> p \<noteq> ''.'' \<and> p \<noteq> ''..''"

lemma resolve_names: "\<forall>p \<in> set st. name_ok p \<Longrightarrow> \<forall>p \<in> set ps. slash \<notin> set p \<Longrightarrow> \<forall>p \<in> set (foldl resolve_part st ps). name_ok p"
proof (induction ps arbitrary: st)
  case (Cons p ps)
  have "\<forall>q \<in> set (resolve_part st p). name_ok q"
    using Cons.prems by (auto simp: resolve_part_def name_ok_def dest: in_set_butlastD)
  then show ?case using Cons by simp
qed simp

lemma resolve_names_id: "\<forall>p \<in> set ps. name_ok p \<Longrightarrow> foldl resolve_part st ps = st @ ps"
  by (induction ps arbitrary: st) (auto simp: resolve_part_def name_ok_def)

lemma resolve_path_names: "\<forall>p \<in> set (resolve_path path). name_ok p"
  unfolding resolve_path_def using resolve_names [of "[]"] split_slash_parts by fastforce

lemma canonical_form_resolves: "resolve_path (canonical_form path) = resolve_path path"
proof -
  let ?st = "resolve_path path"
  have n: "\<forall>p \<in> set ?st. name_ok p" by (rule resolve_path_names)
  have "split_slash (join_slash ?st) = (if ?st = [] then [[]] else ?st)"
    using split_join [of ?st] n by (auto simp: name_ok_def)
  then have "foldl resolve_part [] (split_slash (join_slash ?st)) = ?st"
    using resolve_names_id [OF n, of "[]"] by (auto simp: resolve_part_def)
  then show ?thesis by (simp add: canonical_form_def resolve_path_def resolve_part_def)
qed

lemma canonical_form_absolute: "take 1 (canonical_form path) = ''/'' \<longleftrightarrow> take 1 path = ''/''"
proof -
  have "take 1 (join_slash st) \<noteq> ''/''" if h: "\<forall>p \<in> set st. name_ok p" for st
  proof (cases st)
    case (Cons p ps)
    obtain c p' where p: "p = c # p'" using h Cons by (cases p) (auto simp: name_ok_def)
    then have "c \<noteq> slash" using h Cons by (auto simp: name_ok_def)
    then show ?thesis by (cases ps) (simp_all add: Cons p)
  qed simp
  then show ?thesis using resolve_path_names [of path] by (simp add: canonical_form_def)
qed

lemma join_slash_set: "set (join_slash st) \<subseteq> insert slash (\<Union> (set ` set st))"
  by (induction st rule: join_slash.induct) auto

lemma resolve_set: "p \<in> set (foldl resolve_part st ps) \<Longrightarrow> p \<in> set st \<or> p \<in> set ps"
proof (induction ps arbitrary: st)
  case (Cons q ps)
  have "set (resolve_part st q) \<subseteq> insert q (set st)" by (auto simp: resolve_part_def dest: in_set_butlastD)
  then show ?case using Cons.IH [of "resolve_part st q"] Cons.prems by auto
qed simp

lemma canonical_form_bytes: "\<forall>c \<in> set path. \<not> is_cont c \<Longrightarrow> \<forall>c \<in> set (canonical_form path). \<not> is_cont c"
proof -
  assume h: "\<forall>c \<in> set path. \<not> is_cont c"
  have "set p \<subseteq> set path" if "p \<in> set (resolve_path path)" for p
    using that resolve_set [of p "[]" "split_slash path"] split_slash_parts by (auto simp: resolve_path_def)
  then have "set (join_slash (resolve_path path)) \<subseteq> insert slash (set path)" using join_slash_set [of "resolve_path path"] by fast
  then show ?thesis using h slash_not_cont by (auto simp: canonical_form_def)
qed

subsection \<open>Properties\<close>

text \<open>
  C35: on paths without multi-byte characters \<open>canonicalize\<close> does not panic and computes what resolving
  the components on a stack gives, and its result is a fixed point: absolute when the path is, with the
  same components, none of them empty, \<open>.\<close> or \<open>..\<close>.
\<close>

theorem canonicalize_resolves:
  assumes "\<forall>c \<in> set path. \<not> is_cont c"
  shows "\<exists>r. canonicalize path = Ok r \<and> r = canonical_form path \<and> canonicalize r = Ok r \<and>
    resolve_path r = resolve_path path \<and> (take 1 r = ''/'' \<longleftrightarrow> take 1 path = ''/'') \<and>
    (\<forall>p \<in> set (resolve_path r). name_ok p)"
proof -
  have "canonical_form (canonical_form path) = canonical_form path"
    unfolding canonical_form_def [of "canonical_form path"] canonical_form_resolves canonical_form_absolute
    by (rule canonical_form_def [symmetric])
  then show ?thesis
    using canonicalize_form [OF assms] canonicalize_form [OF canonical_form_bytes [OF assms]] canonical_form_resolves
      canonical_form_absolute resolve_path_names by simp
qed

theorem canonicalize_resolves_witness: "canonicalize ''/a/./b//../c'' = Ok ''/a/c''"
proof -
  have "canonical_form ''/a/./b//../c'' = ''/a/c''" by (simp add: canonical_form_def resolve_path_def resolve_part_def)
  moreover have "\<forall>c \<in> set ''/a/./b//../c''. \<not> is_cont c" by (simp add: is_cont_def)
  ultimately show ?thesis using canonicalize_resolves [of "''/a/./b//../c''"] by auto
qed

text \<open>
  A component that ends with a character of several bytes makes \<open>canonicalize\<close> panic as soon as
  another component follows it, because the last byte of the buffer is sliced off to look for a slash.
\<close>

lemma canonicalize_panics:
  assumes "name_ok p" and "is_cont (last p)" and "name_ok q"
  shows "canonicalize (p @ slash # q) = Panic"
proof -
  have "take 1 (p @ slash # q) \<noteq> ''/''" using assms(1) by (cases p) (auto simp: name_ok_def)
  moreover have "split_slash (p @ slash # q) = [p, q]"
    using assms by (simp add: split_slash_append split_slash_plain name_ok_def)
  ultimately show ?thesis
    using assms by (simp add: canonicalize_def canon_part_def last_byte_slice_def name_ok_def)
qed

end
