(* ===== verification/Signal.thy ===== *)
theory Signal
  imports Prelude
begin

text \<open>
  \<open>modules/axsignal\<close>: signal numbers, actions and their defaults, the handlers of a process and the set
  of its pending signals.
\<close>

subsection \<open>Signal numbers: \<open>signal_no.rs\<close>\<close>

definition MAX_SIG_NUM :: nat where "MAX_SIG_NUM = 64"

datatype SignalNo =
  ERR | SIGHUP | SIGINT | SIGQUIT | SIGILL | SIGTRAP | SIGABRT | SIGBUS | SIGFPE | SIGKILL | SIGUSR1 | SIGSEGV
  | SIGUSR2 | SIGPIPE | SIGALRM | SIGTERM | SIGSTKFLT | SIGCHLD | SIGCONT | SIGSTOP | SIGTSTP | SIGTTIN |
  SIGTTOU | SIGURG | SIGXCPU | SIGXFSZ | SIGVTALRM | SIGPROF | SIGWINCH | SIGIO | SIGPWR | SIGSYS | SIGRTMIN |
  SIGRT1 | SIGRT2 | SIGRT3 | SIGRT4 | SIGRT5 | SIGRT6 | SIGRT7 | SIGRT8 | SIGRT9 | SIGRT10 | SIGRT11 | SIGRT12
  | SIGRT13 | SIGRT14 | SIGRT15 | SIGRT16 | SIGRT17 | SIGRT18 | SIGRT19 | SIGRT20 | SIGRT21 | SIGRT22 |
  SIGRT23 | SIGRT24 | SIGRT25 | SIGRT26 | SIGRT27 | SIGRT28 | SIGRT29 | SIGRT30 | SIGRT31

text \<open>The signals in the order of their numbers, from 0.\<close>

definition all_signals :: "SignalNo list" where
  "all_signals = [ERR, SIGHUP, SIGINT, SIGQUIT, SIGILL, SIGTRAP, SIGABRT, SIGBUS, SIGFPE, SIGKILL, SIGUSR1, SIGSEGV,
     SIGUSR2, SIGPIPE, SIGALRM, SIGTERM, SIGSTKFLT, SIGCHLD, SIGCONT, SIGSTOP, SIGTSTP, SIGTTIN, SIGTTOU,
     SIGURG, SIGXCPU, SIGXFSZ, SIGVTALRM, SIGPROF, SIGWINCH, SIGIO, SIGPWR, SIGSYS, SIGRTMIN, SIGRT1,
     SIGRT2, SIGRT3, SIGRT4, SIGRT5, SIGRT6, SIGRT7, SIGRT8, SIGRT9, SIGRT10, SIGRT11, SIGRT12, SIGRT13,
     SIGRT14, SIGRT15, SIGRT16, SIGRT17, SIGRT18, SIGRT19, SIGRT20, SIGRT21, SIGRT22, SIGRT23, SIGRT24,
     SIGRT25, SIGRT26, SIGRT27, SIGRT28, SIGRT29, SIGRT30, SIGRT31]"

definition SignalNo_from :: "usize \<Rightarrow> SignalNo" where
  "SignalNo_from num = (let n = unat (ucast num :: u8) in if n < length all_signals then all_signals ! n else ERR)"

subsection \<open>Actions: \<open>action.rs\<close>\<close>

definition SIG_DFL :: usize where "SIG_DFL = 0"
definition SIG_IGN :: usize where "SIG_IGN = 1"
definition SA_RESTORER :: u32 where "SA_RESTORER = 0x4000000"

datatype SignalDefault = Terminate | Ignore | Core | Stop | Cont

definition default_action :: "SignalNo \<Rightarrow> SignalDefault" where
  "default_action sig =
     (if sig \<in> {SIGABRT, SIGBUS, SIGFPE, SIGILL, SIGQUIT, SIGSEGV, SIGXCPU, SIGXFSZ, SIGSYS} then Core
      else if sig \<in> {SIGCHLD, SIGWINCH} then Ignore
      else if sig = SIGCONT then Cont
      else if sig \<in> {SIGSTOP, SIGTSTP, SIGTTIN, SIGTTOU} then Stop
      else Terminate)"

record SigAction =
  sa_handler :: usize
  sa_flags :: u32
  restorer :: usize
  sa_mask :: usize

definition get_storer :: "SigAction \<Rightarrow> usize option" where
  "get_storer a = (if sa_flags a AND SA_RESTORER = SA_RESTORER then Some (restorer a) else None)"

subsection \<open>Handlers: \<open>lib.rs\<close>\<close>

record SignalHandler =
  handlers :: "SigAction option list"

definition handler_new :: SignalHandler where
  "handler_new = \<lparr>handlers = replicate MAX_SIG_NUM None\<rparr>"

definition handler_clear :: "SignalHandler \<Rightarrow> SignalHandler" where
  "handler_clear h = h\<lparr>handlers := map (\<lambda>_. None) (handlers h)\<rparr>"

text \<open>The index \<open>sig_num - 1\<close> wraps for signal 0 and is then out of bounds.\<close>

definition handler_get_action :: "usize \<Rightarrow> SignalHandler \<Rightarrow> (SigAction option, unit) result" where
  "handler_get_action sig_num h =
     (let i = unat (sig_num - 1) in
      if i < length (handlers h)
      then Ok (case handlers h ! i of None \<Rightarrow> None | Some a \<Rightarrow> if sa_handler a \<noteq> SIG_DFL then Some a else None)
      else Panic)"

definition handler_set_action :: "usize \<Rightarrow> SigAction \<Rightarrow> (SignalHandler, unit, unit) action" where
  "handler_set_action sig_num a h =
     (let i = unat (sig_num - 1) in
      if i < length (handlers h) then (Ok (), h\<lparr>handlers := (handlers h)[i := Some a]\<rparr>) else (Panic, h))"

subsection \<open>Pending signals: \<open>lib.rs\<close>\<close>

record SignalSet =
  sig_mask :: usize
  sig_pending :: usize

definition sigset_new :: SignalSet where
  "sigset_new = \<lparr>sig_mask = 0, sig_pending = 0\<rparr>"

definition sigset_clear :: "SignalSet \<Rightarrow> SignalSet" where
  "sigset_clear s = s\<lparr>sig_mask := 0, sig_pending := 0\<rparr>"

definition unmasked :: "usize \<Rightarrow> nat \<Rightarrow> bool" where
  "unmasked m pos \<longleftrightarrow> m AND push_bit pos 1 = 0 \<or> pos = 9 - 1 \<or> pos = 19 - 1"

lemma clear_lowest_card:
  assumes "trailing_zeros x \<noteq> 64"
  shows "card {n. bit (x AND NOT (push_bit (trailing_zeros x) 1)) n} < card {n. bit x n}"
proof -
  have t: "trailing_zeros x < 64" using assms trailing_zeros_le [of x] by simp
  have fin: "finite {n. bit x n}" by (rule finite_subset [of _ "{..<64}"]) (auto dest: bit_usize_lt)
  have "{n. bit (x AND NOT (push_bit (trailing_zeros x) 1)) n} \<subseteq> {n. bit x n} - {trailing_zeros x}"
    using t by (auto simp: bit_simps)
  moreover have "trailing_zeros x \<in> {n. bit x n}" using trailing_zeros_bit [OF t] by simp
  ultimately show ?thesis using fin by (intro psubset_card_mono) auto
qed

function find_loop :: "usize \<Rightarrow> usize \<Rightarrow> nat option" where
  "find_loop m temp_pending = (let pos = trailing_zeros temp_pending in
     if pos = MAX_SIG_NUM then None
     else if unmasked m pos then Some (pos + 1)
     else find_loop m (temp_pending AND NOT (push_bit pos 1)))"
  by pat_completeness auto
termination
proof (relation "measure (\<lambda>(m, x). card {n. bit x n})")
  fix m x :: usize and pos
  assume "pos = trailing_zeros x" and "pos \<noteq> MAX_SIG_NUM"
  then show "((m, x AND NOT (push_bit pos 1)), m, x) \<in> measure (\<lambda>(m, x). card {n. bit x n})"
    using clear_lowest_card [of x] by (simp add: MAX_SIG_NUM_def)
qed simp

declare find_loop.simps [simp del]

definition find_signal :: "SignalSet \<Rightarrow> nat option" where
  "find_signal s = find_loop (sig_mask s) (sig_pending s)"

definition get_one_signal :: "SignalSet \<Rightarrow> nat option \<times> SignalSet" where
  "get_one_signal s = (case find_signal s of
      Some pos \<Rightarrow> (Some pos, s\<lparr>sig_pending := sig_pending s AND NOT (push_bit (pos - 1) 1)\<rparr>)
    | None \<Rightarrow> (None, s))"

definition try_add_signal :: "usize \<Rightarrow> SignalSet \<Rightarrow> SignalSet" where
  "try_add_signal sig_num s = s\<lparr>sig_pending := sig_pending s OR shl1 (sig_num - 1)\<rparr>"

subsection \<open>Delivery\<close>

text \<open>Signal \<open>n\<close> can be delivered: it is pending, and not masked unless it is \<open>SIGKILL\<close> or \<open>SIGSTOP\<close>.\<close>

definition deliverable :: "SignalSet \<Rightarrow> nat \<Rightarrow> bool" where
  "deliverable s n \<longleftrightarrow> 1 \<le> n \<and> bit (sig_pending s) (n - 1) \<and> (\<not> bit (sig_mask s) (n - 1) \<or> n = 9 \<or> n = 19)"

lemma unmasked_iff: "pos < 64 \<Longrightarrow> unmasked m pos \<longleftrightarrow> \<not> bit m pos \<or> pos = 8 \<or> pos = 18"
proof -
  assume p: "pos < 64"
  have "m AND push_bit pos 1 = 0 \<longleftrightarrow> \<not> bit m pos"
  proof
    assume z: "m AND push_bit pos 1 = 0"
    have "bit (m AND push_bit pos 1) pos \<longleftrightarrow> bit m pos" using p by (simp add: bit_simps)
    then show "\<not> bit m pos" using z by simp
  next
    assume "\<not> bit m pos"
    then show "m AND push_bit pos 1 = 0" by (intro usize_bit_eqI) (auto simp: bit_simps)
  qed
  then show ?thesis by (simp add: unmasked_def)
qed

lemma find_loop_spec:
  "(find_loop m x = None \<longrightarrow> (\<forall>p. bit x p \<longrightarrow> \<not> unmasked m p)) \<and>
   (\<forall>n. find_loop m x = Some n \<longrightarrow> 1 \<le> n \<and> n \<le> 64 \<and> bit x (n - 1) \<and> unmasked m (n - 1) \<and> (\<forall>p < n - 1. bit x p \<longrightarrow> \<not> unmasked m p))"
proof (induction m x rule: find_loop.induct)
  case (1 m x)
  let ?p = "trailing_zeros x" and ?y = "x AND NOT (push_bit (trailing_zeros x) 1)"
  show ?case
  proof (cases "?p = MAX_SIG_NUM")
    case True
    then have "\<not> bit x p" for p
      using trailing_zeros_below [of p x] bit_usize_lt [of x p] by (auto simp: MAX_SIG_NUM_def)
    then show ?thesis using True by (simp add: find_loop.simps [of m x])
  next
    case False
    then have t: "?p < 64" using trailing_zeros_le [of x] by (simp add: MAX_SIG_NUM_def)
    show ?thesis
    proof (cases "unmasked m ?p")
      case True
      then show ?thesis using False t trailing_zeros_bit [OF t] trailing_zeros_below [of _ x]
        by (simp add: find_loop.simps [of m x] Let_def)
    next
      case masked: False
      have y: "bit ?y p \<longleftrightarrow> bit x p \<and> p \<noteq> ?p" for p using t bit_usize_lt [of x p] by (auto simp: bit_simps)
      have "find_loop m x = find_loop m ?y" using False masked by (simp add: find_loop.simps [of m x] Let_def)
      then show ?thesis using "1" [OF refl False masked] y masked by metis
    qed
  qed
qed

text \<open>
  \<open>get_one_signal\<close> delivers the pending signal with the lowest number that is not masked, where
  \<open>SIGKILL\<close> and \<open>SIGSTOP\<close> cannot be masked, and takes exactly it out of the set; it returns nothing only
  when no signal can be delivered.
\<close>

lemma get_one_signal_lowest:
  "case get_one_signal s of
     (None, s') \<Rightarrow> s' = s \<and> (\<forall>n. \<not> deliverable s n)
   | (Some n, s') \<Rightarrow> deliverable s n \<and> (\<forall>m < n. \<not> deliverable s m) \<and> sig_mask s' = sig_mask s \<and>
       (\<forall>p. bit (sig_pending s') p \<longleftrightarrow> bit (sig_pending s) p \<and> p \<noteq> n - 1)"
proof -
  let ?m = "sig_mask s" and ?x = "sig_pending s"
  note spec = find_loop_spec [of ?m ?x]
  have d: "deliverable s n \<longleftrightarrow> 1 \<le> n \<and> bit ?x (n - 1) \<and> unmasked ?m (n - 1)" for n
    using bit_usize_lt [of ?x "n - 1"] unmasked_iff [of "n - 1" ?m] by (auto simp: deliverable_def)
  show ?thesis
  proof (cases "find_loop ?m ?x")
    case None
    then show ?thesis using spec by (auto simp: get_one_signal_def find_signal_def d)
  next
    case (Some n)
    have "bit (?x AND NOT (push_bit (n - 1) 1)) p \<longleftrightarrow> bit ?x p \<and> p \<noteq> n - 1" for p
      using spec Some bit_usize_lt [of ?x p] by (auto simp: bit_simps)
    moreover have "\<not> deliverable s m" if "m < n" for m
      using spec Some that unfolding d by (metis diff_less_mono)
    ultimately show ?thesis using spec Some by (auto simp: get_one_signal_def find_signal_def d)
  qed
qed

text \<open>A signal that is sent is pending, the others are as before; \<open>SIGKILL\<close> is then delivered whatever the mask.\<close>

lemma try_add_signal_pending:
  assumes "1 \<le> unat n" and "unat n \<le> 64"
  shows "bit (sig_pending (try_add_signal n s)) p \<longleftrightarrow> bit (sig_pending s) p \<or> p = unat n - 1"
proof -
  have "unat (n - 1) = unat n - 1" using assms(1) unat_sub_no_underflow [of 1 n] by simp
  then have "shl1 (n - 1) = push_bit (unat n - 1) 1" using assms by (simp add: shl1_def)
  then show ?thesis using assms bit_usize_lt [of "sig_pending s" p] by (auto simp: try_add_signal_def bit_simps)
qed

lemma sigkill_deliverable: "deliverable (try_add_signal 9 s) 9"
  using try_add_signal_pending [of 9 s 8] by (simp add: deliverable_def)

lemma handler_roundtrip:
  assumes "1 \<le> unat n" and "unat n \<le> length (handlers h)"
  shows "\<exists>h'. handler_set_action n a h = (Ok (), h') \<and>
    handler_get_action n h' = Ok (if sa_handler a = SIG_DFL then None else Some a)"
proof -
  have "unat (n - 1) = unat n - 1" using assms(1) unat_sub_no_underflow [of 1 n] by simp
  then show ?thesis using assms by (simp add: handler_set_action_def handler_get_action_def Let_def)
qed

end
