(* ===== verification/TaskApi.thy ===== *)
theory TaskApi
  imports RunQueueCorrect Signal AxErrno
begin

text \<open>
  \<open>modules/axtask\<close>, the layer of processes: \<open>Task\<close> with its children, files and signals
  (\<open>task.rs\<close>, \<open>fd_manager.rs\<close>, \<open>signal.rs\<close>) and the operations of \<open>api.rs\<close> that create, end, await and
  rank tasks. A file is an object behind the trait \<open>FileIO\<close>, of any type \<open>'f\<close>. Trap frames, address
  spaces and the loading of programs are not part of this state.
\<close>

subsection \<open>File descriptors: \<open>fd_manager.rs\<close>\<close>

record 'f FdManager =
  fd_table :: "'f option list"
  fd_limit :: u64
  umask :: int
  cwd :: string

definition fd_new :: "'f option list \<Rightarrow> usize \<Rightarrow> 'f FdManager" where
  "fd_new table limit = \<lparr>fd_table = table, fd_limit = limit, umask = 18, cwd = ''/''\<rparr>"

definition set_limit :: "u64 \<Rightarrow> 'f FdManager \<Rightarrow> 'f FdManager" where
  "set_limit new_limit m = m\<lparr>fd_limit := new_limit\<rparr>"

definition set_mask :: "int \<Rightarrow> 'f FdManager \<Rightarrow> int \<times> 'f FdManager" where
  "set_mask new_mask m = (umask m, m\<lparr>umask := new_mask\<rparr>)"

text \<open>\<open>cloexec\<close> reads the flag of a file; \<open>stdin\<close> and \<open>stdout\<close> are the new standard files.\<close>

definition close_on_exec :: "('f \<Rightarrow> bool) \<Rightarrow> 'f \<Rightarrow> 'f \<Rightarrow> ('f FdManager, unit, AxError) action" where
  "close_on_exec cloexec stdin stdout m =
     (let t = map (\<lambda>fd. case fd of Some f \<Rightarrow> if cloexec f then None else Some f | None \<Rightarrow> None) (fd_table m) in
      if length t = 0 then (Panic, m\<lparr>fd_table := t\<rparr>)
      else let t1 = (if t ! 0 = None then t[0 := Some stdin] else t) in
        if length t1 < 2 then (Panic, m\<lparr>fd_table := t1\<rparr>)
        else (Ok (), m\<lparr>fd_table := if t1 ! 1 = None then t1[1 := Some stdout] else t1\<rparr>))"

text \<open>\<open>Task::alloc_fd\<close>: the table is that of the task, which the caller has locked.\<close>

fun first_none :: "'f option list \<Rightarrow> nat option" where
  "first_none [] = None"
| "first_none (x # xs) = (if x = None then Some 0 else map_option Suc (first_none xs))"

definition alloc_fd :: "('f FdManager, nat, AxError) action" where
  "alloc_fd m = (case first_none (fd_table m) of
      Some i \<Rightarrow> (Ok i, m)
    | None \<Rightarrow> if length (fd_table m) \<ge> unat (fd_limit m) then (Err StorageFull, m)
        else (Ok (length (fd_table m)), m\<lparr>fd_table := fd_table m @ [None]\<rparr>))"

subsection \<open>Tasks: \<open>task.rs\<close>\<close>

text \<open>\<open>signal_handler\<close> is shared through an \<open>Arc\<close> and has a number.\<close>

record SignalModule =
  sig_info :: bool
  signal_handler :: nat
  signal_set :: SignalSet

definition init_signal :: "nat option \<Rightarrow> nat \<Rightarrow> SignalModule" where
  "init_signal handler fresh = \<lparr>sig_info = False, signal_handler = (case handler of Some h \<Rightarrow> h | None \<Rightarrow> fresh),
     signal_set = sigset_new\<rparr>"

record 'f Task =
  task_parent :: u64
  children :: "u64 list"
  fd_manager :: "'f FdManager"
  is_zombie :: bool
  heap_bottom :: u64
  heap_top :: u64
  signal_modules :: "u64 \<rightharpoonup> SignalModule"
  blocked_by_vfork :: bool
  file_path :: string
  pri :: u64

definition FD_LIMIT_ORIGIN :: usize where "FD_LIMIT_ORIGIN = 1025"

definition KERNEL_PROCESS_ID :: u64 where "KERNEL_PROCESS_ID = 1"

definition Task_new :: "u64 \<Rightarrow> u64 \<Rightarrow> 'f option list \<Rightarrow> TaskInner \<Rightarrow> 'f Task \<times> TaskInner" where
  "Task_new parent bottom table inn =
     (let inn1 = set_exit_code 0 inn in
      (\<lparr>task_parent = parent, children = [], fd_manager = fd_new table FD_LIMIT_ORIGIN, is_zombie = False,
        heap_bottom = bottom, heap_top = bottom, signal_modules = Map.empty, blocked_by_vfork = False,
        file_path = [], pri = 10 + inner_id inn1\<rparr>, inn1))"

definition new_task_inner :: "u64 \<Rightarrow> usize \<Rightarrow> string \<Rightarrow> usize \<Rightarrow> bool \<Rightarrow> usize \<Rightarrow> usize \<Rightarrow> TaskInner \<times> u64" where
  "new_task_inner counter entry name token sig_child SMP now =
     (case TaskInner_new counter entry name token sig_child of (t, counter') \<Rightarrow>
        (time_stat_reset now (set_cpu_set (shl1 SMP - 1) 1 SMP t), counter'))"

definition set_parent :: "u64 \<Rightarrow> 'f Task \<Rightarrow> 'f Task" where
  "set_parent p t = t\<lparr>task_parent := p\<rparr>"

definition set_zombie :: "bool \<Rightarrow> 'f Task \<Rightarrow> 'f Task" where
  "set_zombie b t = t\<lparr>is_zombie := b\<rparr>"

definition set_heap_top :: "u64 \<Rightarrow> 'f Task \<Rightarrow> 'f Task" where
  "set_heap_top a t = t\<lparr>heap_top := a\<rparr>"

definition set_heap_bottom :: "u64 \<Rightarrow> 'f Task \<Rightarrow> 'f Task" where
  "set_heap_bottom a t = t\<lparr>heap_bottom := a\<rparr>"

definition set_vfork_block :: "bool \<Rightarrow> 'f Task \<Rightarrow> 'f Task" where
  "set_vfork_block b t = t\<lparr>blocked_by_vfork := b\<rparr>"

definition set_file_path :: "string \<Rightarrow> 'f Task \<Rightarrow> 'f Task" where
  "set_file_path p t = t\<lparr>file_path := p\<rparr>"

definition get_code_if_exit :: "'f Task \<Rightarrow> TaskInner \<Rightarrow> int option" where
  "get_code_if_exit t inn = (if is_zombie t then Some (exit_code inn) else None)"

subsection \<open>The system: \<open>TID2TASK\<close> and the run queue\<close>

record ('s, 't, 'f) System =
  kern :: "('s, 't) Kernel"
  tasks :: "'t \<Rightarrow> 'f Task"
  tid2task :: "(u64, 't) btree"
  user_mem :: "usize \<Rightarrow> int"

type_synonym ('s, 't, 'f, 'a, 'e) sys_action = "(('s, 't, 'f) System, 'a, 'e) action"

definition on_task :: "'t \<Rightarrow> ('f Task \<Rightarrow> 'f Task) \<Rightarrow> ('s, 't, 'f) System \<Rightarrow> ('s, 't, 'f) System" where
  "on_task t f s = s\<lparr>tasks := (tasks s)(t := f (tasks s t))\<rparr>"

definition on_kern :: "('s, 't, 'a) kernel_action \<Rightarrow> ('s, 't, 'f, 'a, halt) sys_action" where
  "on_kern m s = (case m (kern s) of (r, k) \<Rightarrow> (r, s\<lparr>kern := k\<rparr>))"

text \<open>The loop that hands the children of the exiting task over to the kernel task.\<close>

fun adopt :: "'t \<Rightarrow> u64 list \<Rightarrow> ('s, 't, 'f, unit, halt) sys_action" where
  "adopt kernel_task [] s = (Ok (), s)"
| "adopt kernel_task (childid # ids) s = (case map_of (tid2task s) childid of
      None \<Rightarrow> (Panic, s)
    | Some child \<Rightarrow>
        if kernel_task = current (kern s) then (Panic, on_task child (set_parent KERNEL_PROCESS_ID) s)
        else adopt kernel_task ids
          (on_task kernel_task (\<lambda>t. t\<lparr>children := children t @ [tid_of (kern s) child]\<rparr>)
            (on_task child (set_parent KERNEL_PROCESS_ID) s)))"

text \<open>
  \<open>lazy_ok a\<close>: the lazy allocation of the page of \<open>a\<close> succeeds. When the exiting task is the kernel
  task itself, its list of children is locked twice, which the mutex refuses with a panic.
\<close>

definition mark_exit :: "(usize \<Rightarrow> bool) \<Rightarrow> int \<Rightarrow> ('s, 't, 'f) System \<Rightarrow> ('s, 't, 'f) System" where
  "mark_exit lazy_ok code s =
     (let me = current (kern s); ct = clear_child_tid (inner (kern s) me);
          s1 = (if ct \<noteq> 0 \<and> lazy_ok ct then s\<lparr>user_mem := (user_mem s)(ct := 0)\<rparr> else s);
          s2 = s1\<lparr>kern := on_inner me (set_exit_code code) (kern s1)\<rparr>
      in on_task me (set_zombie True) s2)"

definition leave_tables :: "('s, 't) SchedOps \<Rightarrow> (nat \<Rightarrow> usize) \<Rightarrow> nat \<Rightarrow> int \<Rightarrow> u64 \<Rightarrow> ('s, 't, 'f, unit, halt) sys_action" where
  "leave_tables S clock f code curr_id s = on_kern (exit_current S clock f code)
     (s\<lparr>tid2task := bt_remove curr_id (tid2task s), kern := tasksub (kern s)\<rparr>)"

definition exit_current_task ::
  "('s, 't) SchedOps \<Rightarrow> (nat \<Rightarrow> usize) \<Rightarrow> nat \<Rightarrow> (usize \<Rightarrow> bool) \<Rightarrow> int \<Rightarrow> ('s, 't, 'f, unit, halt) sys_action" where
  "exit_current_task S clock f lazy_ok code s =
     (let me = current (kern s); curr_id = tid_of (kern s) me; s3 = mark_exit lazy_ok code s
      in and_then (on_kern (free_stack (stack_idx (inner (kern s3) me)))) (\<lambda>_ s4.
           let s5 = on_task me (\<lambda>t. t\<lparr>fd_manager := (fd_manager t)\<lparr>fd_table := []\<rparr>\<rparr>) s4 in
           case map_of (tid2task s5) KERNEL_PROCESS_ID of
             None \<Rightarrow> (Panic, s5)
           | Some kernel_task \<Rightarrow>
               and_then (adopt kernel_task (children (tasks s5 me))) (\<lambda>_. leave_tables S clock f code curr_id) s5) s3)"

fun max_pri_loop :: "('s, 't, 'f) System \<Rightarrow> u64 \<Rightarrow> (u64, 't) btree \<Rightarrow> u64 \<Rightarrow> u64 \<Rightarrow> u64" where
  "max_pri_loop s cid [] max_pri max_pri_task = max_pri_task"
| "max_pri_loop s cid ((tid, task) # m) max_pri max_pri_task =
     (if pri (tasks s task) > max_pri \<and> tid_of (kern s) task \<noteq> cid
      then max_pri_loop s cid m (pri (tasks s task)) tid
      else max_pri_loop s cid m max_pri max_pri_task)"

definition get_max_pri_task_id :: "u64 \<Rightarrow> ('s, 't, 'f) System \<Rightarrow> u64" where
  "get_max_pri_task_id cid s = max_pri_loop s cid (tid2task s) 0 0"

datatype WaitStatus = WExited | WRunning | WNotExist

text \<open>
  The loop of \<open>wait_pid\<close> over the children, with their indices: the status, and for an exited child its
  index, its identifier and its exit code.
\<close>

definition i32_wrap :: "int \<Rightarrow> int" where
  "i32_wrap x = (x + 2 ^ 31) mod 2 ^ 32 - 2 ^ 31"

fun wait_loop ::
  "('s, 't, 'f) System \<Rightarrow> int \<Rightarrow> (nat \<times> u64) list \<Rightarrow> WaitStatus \<Rightarrow> (WaitStatus \<times> (nat \<times> u64 \<times> int) option, WaitStatus) result" where
  "wait_loop s tid [] st = Ok (st, None)"
| "wait_loop s tid ((index, childid) # cs) st = (case map_of (tid2task s) childid of
      None \<Rightarrow> Panic
    | Some child \<Rightarrow>
        let code = get_code_if_exit (tasks s child) (inner (kern s) child); cid = tid_of (kern s) child in
        if tid = - 1 then (case code of
            Some c \<Rightarrow> Ok (WExited, Some (index, cid, c))
          | None \<Rightarrow> wait_loop s tid cs WRunning)
        else if childid = word_of_int tid then (case code of
            Some c \<Rightarrow> Ok (WExited, Some (index, cid, c))
          | None \<Rightarrow> Ok (WRunning, None))
        else wait_loop s tid cs st)"

definition wait_pid :: "int \<Rightarrow> usize \<Rightarrow> ('s, 't, 'f, u64, WaitStatus) sys_action" where
  "wait_pid tid exit_code_ptr s =
     (let me = current (kern s); cs = children (tasks s me) in
      case wait_loop s tid (zip [0..<length cs] cs) WNotExist of
        Ok (_, Some (index, cid, code)) \<Rightarrow>
          let s1 = (if exit_code_ptr \<noteq> 0 then s\<lparr>user_mem := (user_mem s)(exit_code_ptr := i32_wrap (code * 2 ^ 8))\<rparr> else s)
          in (Ok cid, on_task me (\<lambda>t. t\<lparr>children := take index (children t) @ drop (Suc index) (children t)\<rparr>) s1)
      | Ok (st, None) \<Rightarrow> (Err st, s)
      | _ \<Rightarrow> (Panic, s))"

definition send_signal_to_thread :: "('s, 't) SchedOps \<Rightarrow> int \<Rightarrow> int \<Rightarrow> ('s, 't, 'f, unit, AxError) sys_action" where
  "send_signal_to_thread S tid signum s = (case map_of (tid2task s) (word_of_int tid) of
      None \<Rightarrow> (Err NotFound, s)
    | Some task \<Rightarrow> (case signal_modules (tasks s task) (word_of_int tid) of
        None \<Rightarrow> (Err NotFound, s)
      | Some m \<Rightarrow>
          let s1 = on_task task (\<lambda>t. t\<lparr>signal_modules := (signal_modules t)(word_of_int tid \<mapsto>
                     m\<lparr>signal_set := try_add_signal (word_of_int signum) (signal_set m)\<rparr>)\<rparr>) s
          in if is_blocked (inner (kern s1) task)
             then unwrap_act (on_kern (unblock_task S task False)) s1
             else (Ok (), s1)))"

subsection \<open>File descriptors are the lowest free ones\<close>

lemma first_none_Some: "first_none xs = Some i \<longleftrightarrow> i < length xs \<and> xs ! i = None \<and> (\<forall>j < i. xs ! j \<noteq> None)"
proof (induction xs arbitrary: i)
  case (Cons x xs)
  show ?case
  proof (cases i)
    case 0
    then show ?thesis by auto
  next
    case (Suc k)
    then show ?thesis using Cons.IH [of k] by (auto simp: less_Suc_eq_0_disj nth_Cons')
  qed
qed simp

lemma first_none_None: "first_none xs = None \<longleftrightarrow> (\<forall>j < length xs. xs ! j \<noteq> None)"
  by (induction xs) (auto simp: less_Suc_eq_0_disj)

lemma alloc_fd_lowest:
  assumes "alloc_fd m = (Ok i, m')"
  shows "i < length (fd_table m') \<and> fd_table m' ! i = None \<and> (\<forall>j < i. fd_table m' ! j \<noteq> None) \<and>
    (\<forall>j < length (fd_table m). fd_table m' ! j = fd_table m ! j) \<and>
    (length (fd_table m) \<le> unat (fd_limit m) \<longrightarrow> length (fd_table m') \<le> unat (fd_limit m))"
proof (cases "first_none (fd_table m)")
  case None
  then show ?thesis using assms first_none_None [of "fd_table m"]
    by (auto simp: alloc_fd_def nth_append split: if_splits)
next
  case (Some k)
  then show ?thesis using assms first_none_Some [of "fd_table m" k] by (auto simp: alloc_fd_def)
qed

subsection \<open>The task of the highest priority\<close>

lemma max_pri_loop_spec:
  "max_pri_loop s cid m b w = t \<Longrightarrow>
   (t = w \<and> (\<forall>(i, x) \<in> set m. tid_of (kern s) x \<noteq> cid \<longrightarrow> pri (tasks s x) \<le> b)) \<or>
   (\<exists>x. (t, x) \<in> set m \<and> tid_of (kern s) x \<noteq> cid \<and> b < pri (tasks s x) \<and>
      (\<forall>(i, y) \<in> set m. tid_of (kern s) y \<noteq> cid \<longrightarrow> pri (tasks s y) \<le> pri (tasks s x)))"
proof (induction m arbitrary: b w)
  case (Cons e m)
  obtain i x where e: "e = (i, x)" by (cases e)
  show ?case
  proof (cases "b < pri (tasks s x) \<and> tid_of (kern s) x \<noteq> cid")
    case True
    then have "max_pri_loop s cid m (pri (tasks s x)) i = t" using Cons.prems by (simp add: e)
    from Cons.IH [OF this] show ?thesis using True by (fastforce simp: e)
  next
    case False
    then have "max_pri_loop s cid m b w = t" using Cons.prems by (auto simp: e)
    from Cons.IH [OF this] show ?thesis using False by (fastforce simp: e)
  qed
qed simp

text \<open>The priority search returns a task of the greatest priority among the others, 0 when there is none above 0.\<close>

lemma get_max_pri_greatest:
  "(get_max_pri_task_id cid s = 0 \<and> (\<forall>(i, x) \<in> set (tid2task s). tid_of (kern s) x \<noteq> cid \<longrightarrow> pri (tasks s x) = 0)) \<or>
   (\<exists>x. (get_max_pri_task_id cid s, x) \<in> set (tid2task s) \<and> tid_of (kern s) x \<noteq> cid \<and>
      (\<forall>(i, y) \<in> set (tid2task s). tid_of (kern s) y \<noteq> cid \<longrightarrow> pri (tasks s y) \<le> pri (tasks s x)))"
  using max_pri_loop_spec [of s cid "tid2task s" 0 0] unfolding get_max_pri_task_id_def by fastforce

subsection \<open>Exit and wait\<close>

lemma on_kern_frame: "on_kern m s = (r, s') \<Longrightarrow> tasks s' = tasks s \<and> tid2task s' = tid2task s"
  by (auto simp: on_kern_def split: prod.splits)

lemma adopt_frame:
  "adopt kt ids s = (Ok (), s') \<Longrightarrow> tid2task s' = tid2task s \<and> (\<forall>p. \<exists>xs. children (tasks s' p) = children (tasks s p) @ xs)"
proof (induction ids arbitrary: s)
  case (Cons i ids)
  obtain child where c: "map_of (tid2task s) i = Some child" "kt \<noteq> current (kern s)"
    using Cons.prems by (auto split: option.splits if_splits)
  let ?s = "on_task kt (\<lambda>t. t\<lparr>children := children t @ [tid_of (kern s) child]\<rparr>) (on_task child (set_parent KERNEL_PROCESS_ID) s)"
  have r: "adopt kt ids ?s = (Ok (), s')" using Cons.prems c by simp
  have t: "tid2task ?s = tid2task s" by (simp add: on_task_def)
  have "\<exists>xs. children (tasks s' p) = children (tasks s p) @ xs" for p
  proof -
    obtain xs where "children (tasks s' p) = children (tasks ?s p) @ xs" using Cons.IH [OF r] by blast
    moreover have "\<exists>ys. children (tasks ?s p) = children (tasks s p) @ ys" by (auto simp: on_task_def set_parent_def)
    ultimately show ?thesis by (elim exE) simp
  qed
  then show ?case using Cons.IH [OF r] t by simp
qed simp

lemma exit_current_task_frame:
  assumes r: "exit_current_task S clock f lazy_ok code s = (Ok (), s')" and ok: "bt_ok (tid2task s)" and p: "p \<noteq> current (kern s)"
  shows "map_of (tid2task s') (tid_of (kern s) (current (kern s))) = None \<and>
    (\<exists>xs. children (tasks s' p) = children (tasks s p) @ xs)"
proof -
  let ?me = "current (kern s)" and ?id = "tid_of (kern s) (current (kern s))"
  define s3 where "s3 = mark_exit lazy_ok code s"
  have s3: "tasks s3 = (tasks s)(?me := set_zombie True (tasks s ?me))" "tid2task s3 = tid2task s"
    by (simp_all add: s3_def mark_exit_def Let_def on_task_def)
  obtain s4 where s4: "on_kern (free_stack (stack_idx (inner (kern s3) ?me))) s3 = (Ok (), s4)"
    and r4: "(let s5 = on_task ?me (\<lambda>t. t\<lparr>fd_manager := (fd_manager t)\<lparr>fd_table := []\<rparr>\<rparr>) s4 in
           case map_of (tid2task s5) KERNEL_PROCESS_ID of
             None \<Rightarrow> (Panic, s5)
           | Some kernel_task \<Rightarrow>
               and_then (adopt kernel_task (children (tasks s5 ?me))) (\<lambda>_. leave_tables S clock f code ?id) s5) = (Ok (), s')"
    using r [unfolded exit_current_task_def, folded s3_def]
    by (subst (asm) Let_def, subst (asm) Let_def, subst (asm) Let_def, subst (asm) and_then_unit_iff) blast
  define s5 where s5: "s5 = on_task ?me (\<lambda>t. t\<lparr>fd_manager := (fd_manager t)\<lparr>fd_table := []\<rparr>\<rparr>) s4"
  obtain kt s6 where s6: "adopt kt (children (tasks s5 ?me)) s5 = (Ok (), s6)" and l: "leave_tables S clock f code ?id s6 = (Ok (), s')"
    using r4 [folded s5, unfolded Let_def] by (auto simp: result_simps split: option.splits)
  have t: "tid2task s6 = tid2task s" using adopt_frame [OF s6] on_kern_frame [OF s4] s3(2) by (simp add: s5 on_task_def)
  obtain xs where xs: "children (tasks s6 p) = children (tasks s5 p) @ xs" using adopt_frame [OF s6] by blast
  have "children (tasks s5 p) = children (tasks s p)" using on_kern_frame [OF s4] s3(1) p by (simp add: s5 on_task_def)
  then show ?thesis using on_kern_frame [OF l [unfolded leave_tables_def]] xs map_of_bt_remove [OF ok, of ?id] by (simp add: t)
qed


definition demo_task :: "nat Task" where
  "demo_task = fst (Task_new 1 0 [] (new_common 7 ''user''))"

definition demo_system :: "(nat RRScheduler, nat, nat) System" where
  "demo_system = \<lparr>kern = \<lparr>scheduler = rr_new (\<lambda>_. 5), kstack_state = (replicate 10 False)[1 := True], task_nub = 2, cur_stack = 1,
       inner = (\<lambda>t. if t = 0 then (new_common 3 ''idle'')\<lparr>is_idle := True\<rparr>
         else (new_common 7 ''user'')\<lparr>inner_state := Running, is_started := True, stack_idx := 1\<rparr>),
       current = 5, idle_task = 0, cpu_id = 0, page_table_root = 0, exited_tasks = [], wait_queues = \<lambda>_. [],
       wait_for_task_exits = Map.empty, task_in_wait_queue = {}, task_in_time_list = {}, timer_list = timers_new\<rparr>,
     tasks = (\<lambda>t. if t = 0 then demo_task\<lparr>children := [7]\<rparr> else demo_task),
     tid2task = [(1, 0), (7, 5)], user_mem = \<lambda>_. 0\<rparr>"


end
