(* ===== verification/Vfs.thy ===== *)
theory Vfs
  imports Path BTree AxErrno "HOL-Library.List_Lexorder" "HOL-Library.Char_ord"
begin

text \<open>
  The virtual file system: attributes and directory entries (\<open>crates/axfs_vfs/src/structs.rs\<close>), the RAM
  file system (\<open>crates/axfs_ramfs\<close>) and the device file system (\<open>crates/axfs_devfs\<close>).

  A node is an object behind \<open>Arc<dyn VfsNodeOps>\<close>. Nodes live in a store indexed by addresses that are
  never used twice; a directory refers to its children by address, its parent is a \<open>Weak\<close> reference that
  can be upgraded as long as the parent is in the store. \<open>held\<close> counts the references to a node from
  outside the directories. The generator of random numbers behind \<open>RandomDev\<close> is third-party code, of
  any type \<open>'r\<close>.
\<close>

subsection \<open>Attributes and directory entries: \<open>structs.rs\<close>\<close>

type_synonym u16 = "16 word"

definition OWNER_READ :: u16 where "OWNER_READ = 256"
definition OWNER_WRITE :: u16 where "OWNER_WRITE = 128"
definition OWNER_EXEC :: u16 where "OWNER_EXEC = 64"
definition GROUP_READ :: u16 where "GROUP_READ = 32"
definition GROUP_WRITE :: u16 where "GROUP_WRITE = 16"
definition GROUP_EXEC :: u16 where "GROUP_EXEC = 8"
definition OTHER_READ :: u16 where "OTHER_READ = 4"
definition OTHER_WRITE :: u16 where "OTHER_WRITE = 2"
definition OTHER_EXEC :: u16 where "OTHER_EXEC = 1"

definition perm_contains :: "u16 \<Rightarrow> u16 \<Rightarrow> bool" where
  "perm_contains p f \<longleftrightarrow> p AND f = f"

definition perm_truncate :: "u16 \<Rightarrow> u16" where
  "perm_truncate bits = bits AND (OWNER_READ OR OWNER_WRITE OR OWNER_EXEC OR GROUP_READ OR GROUP_WRITE OR
     GROUP_EXEC OR OTHER_READ OR OTHER_WRITE OR OTHER_EXEC)"

definition default_file :: u16 where "default_file = perm_truncate 438"
definition default_dir :: u16 where "default_dir = perm_truncate 493"

definition rwx_buf :: "u16 \<Rightarrow> string" where
  "rwx_buf p = map (\<lambda>(f, c). if perm_contains p f then c else CHR ''-'')
     [(OWNER_READ, CHR ''r''), (OWNER_WRITE, CHR ''w''), (OWNER_EXEC, CHR ''x''),
      (GROUP_READ, CHR ''r''), (GROUP_WRITE, CHR ''w''), (GROUP_EXEC, CHR ''x''),
      (OTHER_READ, CHR ''r''), (OTHER_WRITE, CHR ''w''), (OTHER_EXEC, CHR ''x'')]"

definition owner_readable :: "u16 \<Rightarrow> bool" where "owner_readable p = perm_contains p OWNER_READ"
definition owner_writable :: "u16 \<Rightarrow> bool" where "owner_writable p = perm_contains p OWNER_WRITE"
definition owner_executable :: "u16 \<Rightarrow> bool" where "owner_executable p = perm_contains p OWNER_EXEC"

datatype VfsNodeType = TyFifo | TyCharDevice | TyDir | TyBlockDevice | TyFile | TySymLink | TySocket

fun as_char :: "VfsNodeType \<Rightarrow> char" where
  "as_char TyFifo = CHR ''p''"
| "as_char TyCharDevice = CHR ''c''"
| "as_char TyDir = CHR ''d''"
| "as_char TyBlockDevice = CHR ''b''"
| "as_char TyFile = CHR ''-''"
| "as_char TySymLink = CHR ''l''"
| "as_char TySocket = CHR ''s''"

record VfsNodeAttr =
  attr_mode :: u16
  attr_ty :: VfsNodeType
  attr_size :: u64
  attr_blocks :: u64

definition attr_new_file :: "u64 \<Rightarrow> u64 \<Rightarrow> VfsNodeAttr" where
  "attr_new_file sz blocks = \<lparr>attr_mode = default_file, attr_ty = TyFile, attr_size = sz, attr_blocks = blocks\<rparr>"

definition attr_new_dir :: "u64 \<Rightarrow> u64 \<Rightarrow> VfsNodeAttr" where
  "attr_new_dir sz blocks = \<lparr>attr_mode = default_dir, attr_ty = TyDir, attr_size = sz, attr_blocks = blocks\<rparr>"

definition attr_is_dir :: "VfsNodeAttr \<Rightarrow> bool" where "attr_is_dir a \<longleftrightarrow> attr_ty a = TyDir"

record VfsDirEntry =
  d_type :: VfsNodeType
  d_name :: string

definition D_NAME_LEN :: nat where "D_NAME_LEN = 63"

definition dirent_default :: VfsDirEntry where
  "dirent_default = \<lparr>d_type = TyFile, d_name = replicate D_NAME_LEN (CHR 0x00)\<rparr>"

text \<open>A name that does not fit is only logged; the slice \<open>d_name[..name.len()]\<close> then panics.\<close>

definition dirent_new :: "string \<Rightarrow> VfsNodeType \<Rightarrow> (VfsDirEntry, AxError) result" where
  "dirent_new name ty =
     (if length name > D_NAME_LEN then Panic
      else Ok \<lparr>d_type = ty, d_name = name @ replicate (D_NAME_LEN - length name) (CHR 0x00)\<rparr>)"

definition name_as_bytes :: "VfsDirEntry \<Rightarrow> string" where
  "name_as_bytes e = takeWhile (\<lambda>c. c \<noteq> CHR 0x00) (d_name e)"

subsection \<open>Nodes\<close>

type_synonym addr = nat

record DirNode =
  dir_parent :: "addr option"
  dir_children :: "(string, addr) btree"

datatype 'r Node =
    RamDir DirNode
  | RamFile "u8 list"
  | Interrupts
  | DevDir DirNode
  | NullDev
  | ZeroDev
  | RandomDev 'r

record 'r Vfs =
  nodes :: "addr \<rightharpoonup> 'r Node"
  next_addr :: addr
  held :: "addr \<Rightarrow> nat"
  irq_count :: "(usize, usize) btree"

type_synonym ('r, 'a) vfs_action = "('r Vfs, 'a, AxError) action"

definition set_node :: "addr \<Rightarrow> 'r Node \<Rightarrow> 'r Vfs \<Rightarrow> 'r Vfs" where
  "set_node a n s = s\<lparr>nodes := (nodes s)(a \<mapsto> n)\<rparr>"

definition alloc_node :: "'r Node \<Rightarrow> 'r Vfs \<Rightarrow> addr \<times> 'r Vfs" where
  "alloc_node n s = (next_addr s, s\<lparr>nodes := (nodes s)(next_addr s \<mapsto> n), next_addr := Suc (next_addr s)\<rparr>)"

definition upgrade :: "addr option \<Rightarrow> 'r Vfs \<Rightarrow> addr option" where
  "upgrade w s = (case w of None \<Rightarrow> None | Some a \<Rightarrow> if nodes s a = None then None else Some a)"

fun node_children :: "'r Node \<Rightarrow> (string, addr) btree" where
  "node_children (RamDir d) = dir_children d"
| "node_children (DevDir d) = dir_children d"
| "node_children _ = []"

text \<open>A reference to \<open>a\<close> from a directory.\<close>

definition linked :: "addr \<Rightarrow> 'r Vfs \<Rightarrow> bool" where
  "linked a s \<longleftrightarrow> (\<exists>d < next_addr s. case nodes s d of Some n \<Rightarrow> a \<in> snd ` set (node_children n) | None \<Rightarrow> False)"

text \<open>
  References to the nodes \<open>as\<close> have gone: a node that no directory and no handle refers to any more is
  dropped, and with it its references to its children.
\<close>

function reap :: "addr list \<Rightarrow> 'r Vfs \<Rightarrow> 'r Vfs" where
  "reap [] s = s"
| "reap (a # as) s =
     (case nodes s a of
        None \<Rightarrow> reap as s
      | Some n \<Rightarrow>
          if held s a = 0 \<and> \<not> linked a s \<and> a < next_addr s
          then reap (map snd (node_children n) @ as) (s\<lparr>nodes := (nodes s)(a := None)\<rparr>)
          else reap as s)"
  by pat_completeness auto
termination
proof (relation "measures [\<lambda>(as, s). card {x. x < next_addr s \<and> nodes s x \<noteq> None}, \<lambda>(as, s). length as]")
  fix a as s n assume a: "nodes (s :: 'r Vfs) a = Some n" "held s a = 0 \<and> \<not> linked a s \<and> a < next_addr s"
  have "{x. x < next_addr s \<and> ((nodes s)(a := None)) x \<noteq> None} \<subset> {x. x < next_addr s \<and> nodes s x \<noteq> None}"
    using a by auto
  then have "card {x. x < next_addr s \<and> ((nodes s)(a := None)) x \<noteq> None} < card {x. x < next_addr s \<and> nodes s x \<noteq> None}"
    by (intro psubset_card_mono) auto
  then show "((map snd (node_children n) @ as, s\<lparr>nodes := (nodes s)(a := None)\<rparr>), a # as, s) \<in>
      measures [\<lambda>(as, s). card {x. x < next_addr s \<and> nodes s x \<noteq> None}, \<lambda>(as, s). length as]"
    by simp
qed simp_all

declare reap.simps(2) [simp del]

definition hold :: "addr \<Rightarrow> 'r Vfs \<Rightarrow> 'r Vfs" where
  "hold a s = s\<lparr>held := (held s)(a := Suc (held s a))\<rparr>"

definition release :: "addr \<Rightarrow> 'r Vfs \<Rightarrow> 'r Vfs" where
  "release a s = reap [a] (s\<lparr>held := (held s)(a := held s a - 1)\<rparr>)"

subsection \<open>Files of the RAM file system: \<open>file.rs\<close>\<close>

text \<open>\<open>Vec::resize\<close> panics when the capacity would exceed \<open>isize::MAX\<close> bytes.\<close>

definition vec_resize :: "usize \<Rightarrow> u8 list \<Rightarrow> (u8 list, AxError) result" where
  "vec_resize n c = (if n \<ge> 0x8000000000000000 then Panic else Ok (take (unat n) c @ replicate (unat n - length c) 0))"

definition file_truncate :: "u64 \<Rightarrow> u8 list \<Rightarrow> (u8 list, AxError) result" where
  "file_truncate sz c = (if unat sz < length c then Ok (take (unat sz) c) else vec_resize sz c)"

text \<open>The number of bytes read, and the buffer afterwards.\<close>

definition file_read_at :: "u64 \<Rightarrow> u8 list \<Rightarrow> u8 list \<Rightarrow> (nat \<times> u8 list, AxError) result" where
  "file_read_at offset buf c =
     (let start = min (length c) (unat offset); fin = min (length c) (unat (offset + of_nat (length buf))) in
      if start > fin then Panic
      else let src = take (fin - start) (drop start c) in Ok (length src, src @ drop (length src) buf))"

definition file_write_at :: "u64 \<Rightarrow> u8 list \<Rightarrow> u8 list \<Rightarrow> (nat \<times> u8 list, AxError) result" where
  "file_write_at offset buf c =
     (let fin = offset + of_nat (length buf) in
      res_bind (if unat fin > length c then vec_resize fin c else Ok c) (\<lambda>c1.
        if offset > fin then Panic
        else Ok (length buf, take (unat offset) c1 @ buf @ drop (unat fin) c1)))"

subsection \<open>The interrupt counter: \<open>interrupts.rs\<close>\<close>

definition irq_record :: "usize \<Rightarrow> (usize, usize) btree \<Rightarrow> (usize, usize) btree" where
  "irq_record key m = bt_insert key (case map_of m key of Some cnt \<Rightarrow> cnt + 1 | None \<Rightarrow> 1) m"

fun decimal :: "nat \<Rightarrow> string" where
  "decimal n = (if n < 10 then [char_of (48 + n)] else decimal (n div 10) @ [char_of (48 + n mod 10)])"

declare decimal.simps [simp del]

definition irq_content :: "(usize, usize) btree \<Rightarrow> string" where
  "irq_content m = concat (map (\<lambda>(key, cnt). decimal (unat key) @ '': '' @ decimal (unat cnt) @ [CHR 0x0A]) m)"

definition irq_read_at :: "u64 \<Rightarrow> u8 list \<Rightarrow> (usize, usize) btree \<Rightarrow> (nat \<times> u8 list, AxError) result" where
  "irq_read_at offset buf m =
     (let bytes = map of_char (irq_content m) in
      if unat offset > length bytes then Err InvalidInput
      else let len = (if length buf < length bytes - unat offset then length buf else length bytes - unat offset)
        in Ok (len, take len (drop (unat offset) bytes) @ drop len buf))"

subsection \<open>Directories: \<open>dir.rs\<close> of both file systems\<close>

definition split_path :: "string \<Rightarrow> string \<times> string option" where
  "split_path path =
     (let t = dropWhile (\<lambda>c. c = slash) path in
      if slash \<in> set t then (takeWhile (\<lambda>c. c \<noteq> slash) t, Some (tl (dropWhile (\<lambda>c. c \<noteq> slash) t)))
      else (t, None))"

lemma split_path_rest: "split_path path = (name, Some rest) \<Longrightarrow> length rest < length path"
proof -
  assume a: "split_path path = (name, Some rest)"
  let ?t = "dropWhile (\<lambda>c. c = slash) path"
  have "slash \<in> set ?t" and r: "rest = tl (dropWhile (\<lambda>c. c \<noteq> slash) ?t)"
    using a by (auto simp: split_path_def Let_def split: if_splits)
  define u where "u = dropWhile (\<lambda>c. c \<noteq> slash) ?t"
  have "u \<noteq> []" using \<open>slash \<in> set ?t\<close> by (simp add: u_def)
  moreover have "length u \<le> length path"
    unfolding u_def by (rule order_trans [OF length_dropWhile_le length_dropWhile_le])
  ultimately show ?thesis using r unfolding u_def [symmetric] by (cases u) simp_all
qed

text \<open>The node that the first component of a path leads to.\<close>

definition dir_next :: "DirNode \<Rightarrow> addr \<Rightarrow> string \<Rightarrow> 'r Vfs \<Rightarrow> addr option" where
  "dir_next d this name s =
     (if name = '''' \<or> name = ''.'' then Some this
      else if name = ''..'' then upgrade (dir_parent d) s
      else map_of (dir_children d) name)"

fun as_dir :: "'r Node \<Rightarrow> DirNode option" where
  "as_dir (RamDir d) = Some d"
| "as_dir (DevDir d) = Some d"
| "as_dir _ = None"

function vfs_lookup :: "'r Vfs \<Rightarrow> addr \<Rightarrow> string \<Rightarrow> (addr, AxError) result" where
  "vfs_lookup s a path = (case nodes s a of
      None \<Rightarrow> Panic
    | Some n \<Rightarrow> (case as_dir n of
        None \<Rightarrow> Err NotADirectory
      | Some d \<Rightarrow> (case split_path path of
          (name, rest) \<Rightarrow> (case dir_next d a name s of
            None \<Rightarrow> Err NotFound
          | Some c \<Rightarrow> (case rest of Some r \<Rightarrow> vfs_lookup s c r | None \<Rightarrow> Ok c)))))"
  by pat_completeness auto
termination
  by (relation "measure (\<lambda>(s, a, path). length path)") (auto dest: split_path_rest [OF sym])

declare vfs_lookup.simps [simp del]

definition ram_new_node :: "addr \<Rightarrow> string \<Rightarrow> VfsNodeType \<Rightarrow> 'r Node" where
  "ram_new_node this name ty =
     (if ty = TyDir then RamDir \<lparr>dir_parent = Some this, dir_children = []\<rparr>
      else if name = ''interrupts'' then Interrupts else RamFile [])"

definition ram_create_node :: "addr \<Rightarrow> DirNode \<Rightarrow> string \<Rightarrow> VfsNodeType \<Rightarrow> ('r, unit) vfs_action" where
  "ram_create_node this d name ty s =
     (if map_of (dir_children d) name \<noteq> None then (Err AlreadyExists, s)
      else if ty = TyFile \<or> ty = TyDir then
        (case alloc_node (ram_new_node this name ty) s of
          (c, s1) \<Rightarrow> (Ok (), set_node this (RamDir (d\<lparr>dir_children := bt_insert name c (dir_children d)\<rparr>)) s1))
      else (Err Unsupported, s))"

definition ram_remove_node :: "addr \<Rightarrow> DirNode \<Rightarrow> string \<Rightarrow> ('r, unit) vfs_action" where
  "ram_remove_node this d name s = (case map_of (dir_children d) name of
      None \<Rightarrow> (Err NotFound, s)
    | Some c \<Rightarrow>
        if (case nodes s c of Some (RamDir d') \<Rightarrow> dir_children d' \<noteq> [] | _ \<Rightarrow> False) then (Err DirectoryNotEmpty, s)
        else (Ok (), reap [c] (set_node this (RamDir (d\<lparr>dir_children := bt_remove name (dir_children d)\<rparr>)) s)))"

text \<open>The last component of a path names the directory itself or its parent.\<close>

definition dot_name :: "string \<Rightarrow> bool" where
  "dot_name name \<longleftrightarrow> name = '''' \<or> name = ''.'' \<or> name = ''..''"

function vfs_create :: "addr \<Rightarrow> string \<Rightarrow> VfsNodeType \<Rightarrow> ('r, unit) vfs_action" where
  "vfs_create a path ty s = (case nodes s a of
      None \<Rightarrow> (Panic, s)
    | Some n \<Rightarrow> (case as_dir n of
        None \<Rightarrow> (Err NotADirectory, s)
      | Some d \<Rightarrow> (case split_path path of
          (name, Some rest) \<Rightarrow> (case dir_next d a name s of
              None \<Rightarrow> (Err NotFound, s)
            | Some c \<Rightarrow> vfs_create c rest ty s)
        | (name, None) \<Rightarrow>
            if dot_name name then (Ok (), s)
            else (case n of RamDir _ \<Rightarrow> ram_create_node a d name ty s | _ \<Rightarrow> (Err PermissionDenied, s)))))"
  by pat_completeness auto
termination
  by (relation "measure (\<lambda>(a, path, ty, s). length path)") (auto dest: split_path_rest [OF sym])

declare vfs_create.simps [simp del]

function vfs_remove :: "addr \<Rightarrow> string \<Rightarrow> ('r, unit) vfs_action" where
  "vfs_remove a path s = (case nodes s a of
      None \<Rightarrow> (Panic, s)
    | Some n \<Rightarrow> (case as_dir n of
        None \<Rightarrow> (Err NotADirectory, s)
      | Some d \<Rightarrow> (case split_path path of
          (name, Some rest) \<Rightarrow> (case dir_next d a name s of
              None \<Rightarrow> (Err NotFound, s)
            | Some c \<Rightarrow> vfs_remove c rest s)
        | (name, None) \<Rightarrow> (case n of
              RamDir _ \<Rightarrow> if dot_name name then (Err InvalidInput, s) else ram_remove_node a d name s
            | _ \<Rightarrow> (Err PermissionDenied, s)))))"
  by pat_completeness auto
termination
  by (relation "measure (\<lambda>(a, path, s). length path)") (auto dest: split_path_rest [OF sym])

declare vfs_remove.simps [simp del]

text \<open>\<open>DirNode::mkdir\<close> and \<open>add\<close> of the device file system.\<close>

definition dev_add :: "addr \<Rightarrow> string \<Rightarrow> addr \<Rightarrow> ('r, unit) vfs_action" where
  "dev_add this name c s = (case nodes s this of
      Some (DevDir d) \<Rightarrow> (Ok (), set_node this (DevDir (d\<lparr>dir_children := bt_insert name c (dir_children d)\<rparr>)) s)
    | _ \<Rightarrow> (Panic, s))"

definition dev_mkdir :: "addr \<Rightarrow> string \<Rightarrow> ('r, addr) vfs_action" where
  "dev_mkdir this name s = (case alloc_node (DevDir \<lparr>dir_parent = Some this, dir_children = []\<rparr>) s of
      (c, s1) \<Rightarrow> and_then (dev_add this name c) (\<lambda>_ s2. (Ok c, s2)) s1)"

subsection \<open>Operations on nodes\<close>

fun node_attr :: "'r Node \<Rightarrow> VfsNodeAttr" where
  "node_attr (RamDir d) = attr_new_dir 4096 0"
| "node_attr (DevDir d) = attr_new_dir 4096 0"
| "node_attr (RamFile c) = attr_new_file (of_nat (length c)) 0"
| "node_attr _ = \<lparr>attr_mode = default_file, attr_ty = TyCharDevice, attr_size = 0, attr_blocks = 0\<rparr>"

definition vfs_get_attr :: "'r Vfs \<Rightarrow> addr \<Rightarrow> (VfsNodeAttr, AxError) result" where
  "vfs_get_attr s a = (case nodes s a of Some n \<Rightarrow> Ok (node_attr n) | None \<Rightarrow> Panic)"

definition vfs_parent :: "'r Vfs \<Rightarrow> addr \<Rightarrow> addr option" where
  "vfs_parent s a = (case nodes s a of
      Some n \<Rightarrow> (case as_dir n of Some d \<Rightarrow> upgrade (dir_parent d) s | None \<Rightarrow> None)
    | None \<Rightarrow> None)"

text \<open>\<open>rand r n\<close>: \<open>n\<close> random bytes, and the generator afterwards.\<close>

definition vfs_read_at ::
  "('r \<Rightarrow> nat \<Rightarrow> u8 list \<times> 'r) \<Rightarrow> addr \<Rightarrow> u64 \<Rightarrow> u8 list \<Rightarrow> ('r, nat \<times> u8 list) vfs_action" where
  "vfs_read_at rand a offset buf s = (case nodes s a of
      Some (RamFile c) \<Rightarrow> (file_read_at offset buf c, s)
    | Some Interrupts \<Rightarrow> (irq_read_at offset buf (irq_count s), s)
    | Some NullDev \<Rightarrow> (Ok (0, buf), s)
    | Some ZeroDev \<Rightarrow> (Ok (length buf, replicate (length buf) 0), s)
    | Some (RandomDev r) \<Rightarrow> (case rand r (length buf) of (bs, r') \<Rightarrow> (Ok (length buf, bs), set_node a (RandomDev r') s))
    | Some _ \<Rightarrow> (Err IsADirectory, s)
    | None \<Rightarrow> (Panic, s))"

definition vfs_write_at :: "addr \<Rightarrow> u64 \<Rightarrow> u8 list \<Rightarrow> ('r, nat) vfs_action" where
  "vfs_write_at a offset buf s = (case nodes s a of
      Some (RamFile c) \<Rightarrow> (case file_write_at offset buf c of
          Ok (n, c') \<Rightarrow> (Ok n, set_node a (RamFile c') s)
        | Err e \<Rightarrow> (Err e, s)
        | Panic \<Rightarrow> (Panic, s)
        | Diverge \<Rightarrow> (Diverge, s))
    | Some Interrupts \<Rightarrow> (Err Io, s)
    | Some NullDev \<Rightarrow> (Ok (length buf), s)
    | Some ZeroDev \<Rightarrow> (Ok (length buf), s)
    | Some (RandomDev r) \<Rightarrow> (Ok (length buf), s)
    | Some _ \<Rightarrow> (Err IsADirectory, s)
    | None \<Rightarrow> (Panic, s))"

definition vfs_truncate :: "addr \<Rightarrow> u64 \<Rightarrow> ('r, unit) vfs_action" where
  "vfs_truncate a sz s = (case nodes s a of
      Some (RamFile c) \<Rightarrow> (case file_truncate sz c of
          Ok c' \<Rightarrow> (Ok (), set_node a (RamFile c') s)
        | Err e \<Rightarrow> (Err e, s)
        | Panic \<Rightarrow> (Panic, s)
        | Diverge \<Rightarrow> (Diverge, s))
    | Some Interrupts \<Rightarrow> (Err Io, s)
    | Some NullDev \<Rightarrow> (Ok (), s)
    | Some ZeroDev \<Rightarrow> (Ok (), s)
    | Some (RandomDev r) \<Rightarrow> (Ok (), s)
    | Some _ \<Rightarrow> (Err IsADirectory, s)
    | None \<Rightarrow> (Panic, s))"

text \<open>
  The loop of \<open>read_dir\<close>: \<open>i\<close> entries have been written, \<open>cs\<close> are the children still to be listed. The
  number of entries, and the entries of the buffer from \<open>i\<close> on.
\<close>

fun read_dir_loop ::
  "'r Vfs \<Rightarrow> usize \<Rightarrow> nat \<Rightarrow> (string \<times> addr) list \<Rightarrow> VfsDirEntry list \<Rightarrow> (nat \<times> VfsDirEntry list, AxError) result" where
  "read_dir_loop s start_idx i cs [] = Ok (i, [])"
| "read_dir_loop s start_idx i cs (e # es) =
     (if of_nat i + start_idx = 0 then
        res_bind (dirent_new ''.'' TyDir) (\<lambda>ent. res_bind (read_dir_loop s start_idx (Suc i) cs es) (\<lambda>(n, rest). Ok (n, ent # rest)))
      else if of_nat i + start_idx = 1 then
        res_bind (dirent_new ''..'' TyDir) (\<lambda>ent. res_bind (read_dir_loop s start_idx (Suc i) cs es) (\<lambda>(n, rest). Ok (n, ent # rest)))
      else case cs of
          [] \<Rightarrow> Ok (i, e # es)
        | (name, c) # cs' \<Rightarrow> res_bind (unwrap (vfs_get_attr s c)) (\<lambda>attr. res_bind (dirent_new name (attr_ty attr)) (\<lambda>ent.
            res_bind (read_dir_loop s start_idx (Suc i) cs' es) (\<lambda>(n, rest). Ok (n, ent # rest)))))"

definition vfs_read_dir :: "'r Vfs \<Rightarrow> addr \<Rightarrow> usize \<Rightarrow> VfsDirEntry list \<Rightarrow> (nat \<times> VfsDirEntry list, AxError) result" where
  "vfs_read_dir s a start_idx dirents = (case nodes s a of
      None \<Rightarrow> Panic
    | Some n \<Rightarrow> (case as_dir n of
        None \<Rightarrow> Err NotADirectory
      | Some d \<Rightarrow> read_dir_loop s start_idx 0 (drop (unat (max start_idx 2 - 2)) (dir_children d)) dirents))"

subsection \<open>File systems: \<open>lib.rs\<close> of both\<close>

text \<open>\<open>fs_parent\<close> is the cell that \<open>call_once\<close> fills; it keeps its first value.\<close>

record FileSystem =
  fs_parent :: "addr option"
  fs_root :: addr

definition ramfs_new :: "'r Vfs \<Rightarrow> FileSystem \<times> 'r Vfs" where
  "ramfs_new s = (case alloc_node (RamDir \<lparr>dir_parent = None, dir_children = []\<rparr>) s of
     (a, s1) \<Rightarrow> (\<lparr>fs_parent = None, fs_root = a\<rparr>, hold a s1))"

definition devfs_new :: "'r Vfs \<Rightarrow> FileSystem \<times> 'r Vfs" where
  "devfs_new s = (case alloc_node (DevDir \<lparr>dir_parent = None, dir_children = []\<rparr>) s of
     (a, s1) \<Rightarrow> (\<lparr>fs_parent = None, fs_root = a\<rparr>, hold a s1))"

definition dir_set_parent :: "addr \<Rightarrow> addr option \<Rightarrow> 'r Vfs \<Rightarrow> 'r Vfs" where
  "dir_set_parent a p s = (case nodes s a of
      Some (RamDir d) \<Rightarrow> set_node a (RamDir (d\<lparr>dir_parent := p\<rparr>)) s
    | Some (DevDir d) \<Rightarrow> set_node a (DevDir (d\<lparr>dir_parent := p\<rparr>)) s
    | _ \<Rightarrow> s)"

definition fs_mount :: "addr \<Rightarrow> FileSystem \<Rightarrow> 'r Vfs \<Rightarrow> FileSystem \<times> 'r Vfs" where
  "fs_mount mount_point fs s = (case vfs_parent s mount_point of
      Some p \<Rightarrow> (case fs_parent fs of
          Some q \<Rightarrow> (fs, dir_set_parent (fs_root fs) (Some q) s)
        | None \<Rightarrow> (fs\<lparr>fs_parent := Some p\<rparr>, dir_set_parent (fs_root fs) (Some p) (hold p s)))
    | None \<Rightarrow> (fs, dir_set_parent (fs_root fs) None s))"

end
