(* ===== verification/VfsCorrect.thy ===== *)
theory VfsCorrect
  imports Vfs
begin

text \<open>
  The file systems over their node store. A path is resolved component by component (\<open>walk\<close>); the
  invariant \<open>vfs_ok\<close> says that the links between directories and their children form a forest in which
  every child knows its parent. The effect of each operation is stated on the set of links.
\<close>

subsection \<open>Path resolution, one component at a time\<close>

fun walk :: "'r Vfs \<Rightarrow> addr \<Rightarrow> string list \<Rightarrow> (addr, AxError) result" where
  "walk s a [] = Ok a"
| "walk s a (p # ps) = (case nodes s a of
      None \<Rightarrow> Panic
    | Some n \<Rightarrow> (case as_dir n of
        None \<Rightarrow> Err NotADirectory
      | Some d \<Rightarrow> (case dir_next d a p s of None \<Rightarrow> Err NotFound | Some c \<Rightarrow> walk s c ps)))"

lemma walk_append: "walk s a (ps @ qs) = res_bind (walk s a ps) (\<lambda>b. walk s b qs)"
  by (induction s a ps rule: walk.induct) (auto split: option.splits)

lemma walk_Cons_Ok_iff:
  "walk s a (p # ps) = Ok e \<longleftrightarrow>
     (\<exists>n d c. nodes s a = Some n \<and> as_dir n = Some d \<and> dir_next d a p s = Some c \<and> walk s c ps = Ok e)"
  by (auto split: option.splits)

lemma walk_empty: "ps \<noteq> [] \<Longrightarrow> walk s a ([] # ps) = walk s a ps"
  by (cases ps) (auto simp: dir_next_def split: option.splits)

lemma split_slash_nonempty [simp]: "split_slash path \<noteq> []"
  by (induction path) (auto split: list.splits)

lemma walk_trim: "walk s a (split_slash (dropWhile (\<lambda>c. c = slash) path)) = walk s a (split_slash path)"
proof (induction path)
  case (Cons c cs)
  then show ?case by (cases "c = slash") (simp_all add: walk_empty del: walk.simps)
qed simp

lemma split_path_parts:
  assumes "split_path path = (name, rest)"
  shows "slash \<notin> set name \<and> dropWhile (\<lambda>c. c = slash) path = name @ (case rest of None \<Rightarrow> [] | Some r \<Rightarrow> slash # r)"
proof -
  define t where "t = dropWhile (\<lambda>c. c = slash) path"
  show ?thesis
  proof (cases "slash \<in> set t")
    case True
    define u where "u = dropWhile (\<lambda>c. c \<noteq> slash) t"
    have "u \<noteq> []" "hd u = slash" using True hd_dropWhile [of "\<lambda>c. c \<noteq> slash" t] by (auto simp: u_def)
    then have "u = slash # tl u" by (cases u) auto
    moreover have "t = takeWhile (\<lambda>c. c \<noteq> slash) t @ u" by (simp add: u_def)
    ultimately show ?thesis
      using assms True by (auto simp: split_path_def Let_def t_def [symmetric] u_def [symmetric] dest: set_takeWhileD)
  qed (use assms in \<open>auto simp: split_path_def Let_def t_def\<close>)
qed

lemma split_slash_path:
  assumes "split_path path = (name, rest)"
  shows "split_slash (dropWhile (\<lambda>c. c = slash) path) = name # (case rest of None \<Rightarrow> [] | Some r \<Rightarrow> split_slash r)"
  using split_path_parts [OF assms] by (auto simp: split_slash_plain split_slash_append split: option.splits)

lemma vfs_lookup_walk: "vfs_lookup s a path = walk s a (split_slash path)"
proof (induction s a path rule: vfs_lookup.induct)
  case (1 s a path)
  obtain name rest where sp: "split_path path = (name, rest)" by (cases "split_path path")
  have "vfs_lookup s a path = walk s a (name # (case rest of None \<Rightarrow> [] | Some r \<Rightarrow> split_slash r))"
    unfolding vfs_lookup.simps [of s a path] using 1 sp by (auto split: option.splits)
  then show ?case by (simp add: walk_trim [of s a path, symmetric] split_slash_path [OF sp] del: walk.simps)
qed

lemma vfs_lookup_split:
  "vfs_lookup s a path = res_bind (walk s a (butlast (split_slash path))) (\<lambda>b. walk s b [last (split_slash path)])"
  using walk_append [of s a "butlast (split_slash path)" "[last (split_slash path)]"] by (simp add: vfs_lookup_walk del: walk.simps)

subsection \<open>The invariant\<close>

definition child :: "'r Vfs \<Rightarrow> addr \<Rightarrow> string \<Rightarrow> addr \<Rightarrow> bool" where
  "child s a p c \<longleftrightarrow> (\<exists>n. nodes s a = Some n \<and> (p, c) \<in> set (node_children n))"

definition vfs_ok :: "'r Vfs \<Rightarrow> bool" where
  "vfs_ok s \<longleftrightarrow>
     (\<forall>a n. nodes s a = Some n \<longrightarrow> a < next_addr s \<and> bt_ok (node_children n)) \<and>
     (\<forall>a n d p. nodes s a = Some n \<longrightarrow> as_dir n = Some d \<longrightarrow> dir_parent d = Some p \<longrightarrow> p < next_addr s \<and> (\<forall>m. nodes s p = Some m \<longrightarrow> as_dir m \<noteq> None)) \<and>
     (\<forall>a p c. child s a p c \<longrightarrow> name_ok p \<and> nodes s c \<noteq> None) \<and>
     (\<forall>a p c m d. child s a p c \<longrightarrow> nodes s c = Some m \<longrightarrow> as_dir m = Some d \<longrightarrow> dir_parent d = Some a) \<and>
     (\<forall>a p b q c. child s a p c \<longrightarrow> child s b q c \<longrightarrow> a = b \<and> p = q) \<and>
     (\<forall>a d p c d'. nodes s a = Some (RamDir d) \<longrightarrow> child s a p c \<longrightarrow> nodes s c \<noteq> Some (DevDir d')) \<and>
     (\<forall>a. held s a > 0 \<longrightarrow> nodes s a \<noteq> None)"

lemma vfs_okD:
  assumes "vfs_ok s"
  shows "nodes s a = Some n \<Longrightarrow> a < next_addr s" "nodes s a = Some n \<Longrightarrow> bt_ok (node_children n)"
    "nodes s a = Some n \<Longrightarrow> as_dir n = Some d \<Longrightarrow> dir_parent d = Some b \<Longrightarrow> b < next_addr s"
    "child s a p c \<Longrightarrow> name_ok p" "child s a p c \<Longrightarrow> nodes s c \<noteq> None"
    "child s a p c \<Longrightarrow> nodes s c = Some m \<Longrightarrow> as_dir m = Some d \<Longrightarrow> dir_parent d = Some a"
    "child s a p c \<Longrightarrow> child s b q c \<Longrightarrow> a = b \<and> p = q"
    "nodes s a = Some (RamDir d) \<Longrightarrow> child s a p c \<Longrightarrow> nodes s c \<noteq> Some (DevDir d')"
    "held s a > 0 \<Longrightarrow> nodes s a \<noteq> None"
    "nodes s a = Some n \<Longrightarrow> as_dir n = Some d \<Longrightarrow> dir_parent d = Some b \<Longrightarrow> nodes s b = Some m \<Longrightarrow> as_dir m \<noteq> None"
proof -
  note ok = assms [unfolded vfs_ok_def]
  show "nodes s a = Some n \<Longrightarrow> a < next_addr s" using ok by simp
  show "nodes s a = Some n \<Longrightarrow> bt_ok (node_children n)" using ok by simp
  show "nodes s a = Some n \<Longrightarrow> as_dir n = Some d \<Longrightarrow> dir_parent d = Some b \<Longrightarrow> b < next_addr s" using ok by metis
  show "child s a p c \<Longrightarrow> name_ok p" using ok by metis
  show "child s a p c \<Longrightarrow> nodes s c \<noteq> None" using ok by metis
  show "child s a p c \<Longrightarrow> nodes s c = Some m \<Longrightarrow> as_dir m = Some d \<Longrightarrow> dir_parent d = Some a" using ok by metis
  show "child s a p c \<Longrightarrow> child s b q c \<Longrightarrow> a = b \<and> p = q" using ok by metis
  show "nodes s a = Some (RamDir d) \<Longrightarrow> child s a p c \<Longrightarrow> nodes s c \<noteq> Some (DevDir d')" using ok by metis
  show "held s a > 0 \<Longrightarrow> nodes s a \<noteq> None" using ok by metis
  show "nodes s a = Some n \<Longrightarrow> as_dir n = Some d \<Longrightarrow> dir_parent d = Some b \<Longrightarrow> nodes s b = Some m \<Longrightarrow> as_dir m \<noteq> None"
    using ok by metis
qed

lemma as_dir_children: "as_dir n = Some d \<Longrightarrow> node_children n = dir_children d"
  by (cases n) auto

lemma dir_next_name: "name_ok p \<Longrightarrow> dir_next d a p s = map_of (dir_children d) p"
  by (auto simp: dir_next_def name_ok_def)

text \<open>A component that is a name follows a link.\<close>

lemma dir_next_child:
  assumes "vfs_ok s" and "nodes s a = Some n" and "as_dir n = Some d" and "name_ok p"
  shows "dir_next d a p s = Some c \<longleftrightarrow> child s a p c"
  using vfs_okD(2) [OF assms(1,2)] assms(2-4)
  by (simp add: dir_next_name bt_get_iff as_dir_children child_def)

lemma child_is_dir: "child s a p c \<Longrightarrow> \<exists>n d. nodes s a = Some n \<and> as_dir n = Some d"
proof -
  assume "child s a p c"
  then obtain n where "nodes s a = Some n" "(p, c) \<in> set (node_children n)" by (auto simp: child_def)
  then show ?thesis by (cases n) auto
qed

lemma walk_snoc_name:
  assumes "vfs_ok s" and "name_ok p"
  shows "walk s a (ps @ [p]) = Ok c \<longleftrightarrow> (\<exists>b. walk s a ps = Ok b \<and> child s b p c)"
proof -
  have "walk s b [p] = Ok c \<longleftrightarrow> child s b p c" for b
    unfolding walk_Cons_Ok_iff using dir_next_child [OF assms(1) _ _ assms(2), of b] child_is_dir [of s b p c]
    by (metis walk.simps(1) result.inject(1))
  then show ?thesis by (simp add: walk_append del: walk.simps)
qed

subsection \<open>Normalised paths lead to the same node\<close>

lemma walk_resolve:
  assumes ok: "vfs_ok s" and root: "vfs_parent s r = None"
  shows "\<forall>p \<in> set ps. slash \<notin> set p \<Longrightarrow> walk s r ps = Ok e \<Longrightarrow> walk s r (foldl resolve_part [] ps) = Ok e"
proof (induction ps arbitrary: e rule: rev_induct)
  case (snoc p ps)
  let ?st = "foldl resolve_part [] ps"
  obtain b where b: "walk s r ps = Ok b" and step: "walk s b [p] = Ok e"
    using snoc.prems by (auto simp: walk_append simp del: walk.simps)
  obtain n d where n: "nodes s b = Some n" "as_dir n = Some d" "dir_next d b p s = Some e"
    using step unfolding walk_Cons_Ok_iff by auto
  have IH: "walk s r ?st = Ok b" using snoc b by simp
  have names: "\<forall>q \<in> set ?st. name_ok q" using snoc.prems by (intro resolve_names) auto
  consider "p = '''' \<or> p = ''.''" | "p = ''..''" | "name_ok p" using snoc.prems by (auto simp: name_ok_def)
  then show ?case
  proof cases
    case 1
    then show ?thesis using IH n by (auto simp: resolve_part_def [of ?st] dir_next_def)
  next
    case 2
    then have up: "upgrade (dir_parent d) s = Some e" using n(3) by (simp add: dir_next_def)
    show ?thesis
    proof (cases ?st rule: rev_cases)
      case Nil
      then have "b = r" using IH by simp
      then show ?thesis using root up n by (simp add: vfs_parent_def)
    next
      case (snoc st x)
      then obtain b' where b': "walk s r st = Ok b'" "child s b' x b"
        using IH names walk_snoc_name [OF ok, of x] by (auto simp del: walk.simps)
      then have "dir_parent d = Some b'" using vfs_okD(6) [OF ok b'(2) n(1,2)] by simp
      then have "e = b'" using up by (auto simp: upgrade_def split: if_splits)
      then show ?thesis using b' 2 snoc by (simp add: resolve_part_def [of "st @ [x]"])
    qed
  next
    case 3
    then have "child s b p e" using dir_next_child [OF ok n(1,2)] n(3) by simp
    then show ?thesis using IH 3 walk_snoc_name [OF ok 3, of r ?st e] by (auto simp: resolve_part_def [of ?st] name_ok_def)
  qed
qed simp

lemma walk_canonical_form:
  assumes "nodes s r = Some n" and "as_dir n = Some d"
  shows "walk s r (split_slash (canonical_form path)) = walk s r (resolve_path path)"
proof -
  let ?st = "resolve_path path"
  have self: "walk s r [[]] = Ok r" using assms by (simp add: dir_next_def)
  have j: "split_slash (join_slash ?st) = (if ?st = [] then [[]] else ?st)"
    using split_join [of ?st] resolve_path_names [of path] by (auto simp: name_ok_def)
  have "walk s r (split_slash (join_slash ?st)) = walk s r ?st"
    unfolding j using self by (cases "?st = []") (simp_all del: walk.simps, simp)
  moreover have "walk s r (split_slash (slash # join_slash ?st)) = walk s r (split_slash (join_slash ?st))"
    by (simp add: walk_empty del: walk.simps)
  ultimately show ?thesis by (simp add: canonical_form_def del: walk.simps split_slash.simps)
qed

subsection \<open>Operations on the last directory of a path\<close>

fun at_dir ::
  "(addr \<Rightarrow> 'r Node \<Rightarrow> DirNode \<Rightarrow> string \<Rightarrow> ('r, unit) vfs_action) \<Rightarrow> addr \<Rightarrow> string list \<Rightarrow> ('r, unit) vfs_action" where
  "at_dir f a [] s = (Panic, s)"
| "at_dir f a (p # ps) s = (case nodes s a of
      None \<Rightarrow> (Panic, s)
    | Some n \<Rightarrow> (case as_dir n of
        None \<Rightarrow> (Err NotADirectory, s)
      | Some d \<Rightarrow>
          if ps = [] then f a n d p s
          else (case dir_next d a p s of None \<Rightarrow> (Err NotFound, s) | Some c \<Rightarrow> at_dir f c ps s)))"

lemma at_dir_empty: "ps \<noteq> [] \<Longrightarrow> at_dir f a ([] # ps) s = at_dir f a ps s"
  by (cases ps) (auto simp: dir_next_def split: option.splits)

lemma at_dir_trim: "at_dir f a (split_slash (dropWhile (\<lambda>c. c = slash) path)) s = at_dir f a (split_slash path) s"
proof (induction path)
  case (Cons c cs)
  then show ?case by (cases "c = slash") (simp_all add: at_dir_empty del: at_dir.simps)
qed simp

lemma at_dir_path:
  assumes "split_path path = (name, rest)"
  shows "at_dir f a (split_slash path) s = at_dir f a (name # (case rest of None \<Rightarrow> [] | Some r \<Rightarrow> split_slash r)) s"
  by (simp add: at_dir_trim [of f a path s, symmetric] split_slash_path [OF assms] del: at_dir.simps)

lemma at_dir_outcome:
  assumes "at_dir f a ps s = (r, s')"
  shows "r \<noteq> Ok () \<and> s' = s \<or>
    (\<exists>b n d. walk s a (butlast ps) = Ok b \<and> nodes s b = Some n \<and> as_dir n = Some d \<and> ps \<noteq> [] \<and> f b n d (last ps) s = (r, s'))"
  using assms
proof (induction ps arbitrary: a)
  case (Cons p ps)
  show ?case
  proof (cases "\<exists>n d. nodes s a = Some n \<and> as_dir n = Some d")
    case True
    then obtain n d where n: "nodes s a = Some n" "as_dir n = Some d" by blast
    show ?thesis
    proof (cases "ps = []")
      case False
      show ?thesis
      proof (cases "dir_next d a p s")
        case (Some c)
        then have "at_dir f c ps s = (r, s')" and w: "walk s a (butlast (p # ps)) = walk s c (butlast ps)"
          using Cons.prems n False by simp_all
        then show ?thesis unfolding w using Cons.IH [of c] False by simp
      qed (use Cons.prems n False in auto)
    qed (use Cons.prems n in auto)
  qed (use Cons.prems in \<open>auto split: option.splits\<close>)
qed simp

definition create_last :: "VfsNodeType \<Rightarrow> addr \<Rightarrow> 'r Node \<Rightarrow> DirNode \<Rightarrow> string \<Rightarrow> ('r, unit) vfs_action" where
  "create_last ty a n d name s =
     (if dot_name name then (Ok (), s)
      else (case n of RamDir _ \<Rightarrow> ram_create_node a d name ty s | _ \<Rightarrow> (Err PermissionDenied, s)))"

definition remove_last :: "addr \<Rightarrow> 'r Node \<Rightarrow> DirNode \<Rightarrow> string \<Rightarrow> ('r, unit) vfs_action" where
  "remove_last a n d name s = (case n of
      RamDir _ \<Rightarrow> if dot_name name then (Err InvalidInput, s) else ram_remove_node a d name s
    | _ \<Rightarrow> (Err PermissionDenied, s))"

lemma vfs_create_at: "vfs_create a path ty s = at_dir (create_last ty) a (split_slash path) s"
proof (induction a path ty s rule: vfs_create.induct)
  case (1 a path ty s)
  obtain name rest where sp: "split_path path = (name, rest)" by (cases "split_path path")
  show ?case unfolding vfs_create.simps [of a path ty s] at_dir_path [OF sp]
    using 1 sp by (auto simp: create_last_def [of ty a] split: option.splits)
qed

lemma vfs_remove_at: "vfs_remove a path s = at_dir remove_last a (split_slash path) s"
proof (induction a path s rule: vfs_remove.induct)
  case (1 a path s)
  obtain name rest where sp: "split_path path = (name, rest)" by (cases "split_path path")
  show ?case unfolding vfs_remove.simps [of a path s] at_dir_path [OF sp]
    using 1 sp by (auto simp: remove_last_def [of a] split: option.splits)
qed

subsection \<open>Creating a node\<close>

text \<open>Nothing is lost: directories keep their parent and their entries, other nodes stay as they are.\<close>

definition extends :: "'r Vfs \<Rightarrow> 'r Vfs \<Rightarrow> bool" where
  "extends s s' \<longleftrightarrow> (\<forall>b n. nodes s b = Some n \<longrightarrow> (\<exists>n'. nodes s' b = Some n' \<and>
     (case as_dir n of None \<Rightarrow> n' = n
      | Some d \<Rightarrow> \<exists>d'. as_dir n' = Some d' \<and> dir_parent d' = dir_parent d \<and> map_of (dir_children d) \<subseteq>\<^sub>m map_of (dir_children d'))))"

lemma extends_refl: "extends s s"
  by (auto simp: extends_def split: option.splits)

lemma extendsD:
  assumes "extends s s'"
  shows "nodes s b \<noteq> None \<Longrightarrow> nodes s' b \<noteq> None"
    and "nodes s b = Some n \<Longrightarrow> as_dir n = Some d \<Longrightarrow> \<exists>n' d'. nodes s' b = Some n' \<and> as_dir n' = Some d' \<and>
      dir_parent d' = dir_parent d \<and> map_of (dir_children d) \<subseteq>\<^sub>m map_of (dir_children d')"
proof -
  note e = assms [unfolded extends_def, rule_format]
  show "nodes s b \<noteq> None \<Longrightarrow> nodes s' b \<noteq> None" using e [of b] by auto
  assume "nodes s b = Some n" "as_dir n = Some d"
  then show "\<exists>n' d'. nodes s' b = Some n' \<and> as_dir n' = Some d' \<and>
      dir_parent d' = dir_parent d \<and> map_of (dir_children d) \<subseteq>\<^sub>m map_of (dir_children d')"
    using e [of b n] by auto
qed

lemma extends_walk: "extends s s' \<Longrightarrow> walk s b ps = Ok e \<Longrightarrow> walk s' b ps = Ok e"
proof (induction ps arbitrary: b)
  case (Cons p ps)
  obtain n d c where n: "nodes s b = Some n" "as_dir n = Some d" "dir_next d b p s = Some c" "walk s c ps = Ok e"
    using Cons.prems(2) unfolding walk_Cons_Ok_iff by blast
  obtain n' d' where n': "nodes s' b = Some n'" "as_dir n' = Some d'" "dir_parent d' = dir_parent d"
    "map_of (dir_children d) \<subseteq>\<^sub>m map_of (dir_children d')"
    using extendsD(2) [OF Cons.prems(1) n(1,2)] by blast
  have "upgrade w s' = Some c" if h: "upgrade w s = Some c" for w
    using h extendsD(1) [OF Cons.prems(1), of c] by (auto simp: upgrade_def split: option.splits if_splits)
  moreover have "map_of (dir_children d') q = Some c" if h: "map_of (dir_children d) q = Some c" for q
    using h n'(4) by (metis domI map_le_def)
  ultimately have "dir_next d' b p s' = Some c" using n(3) n'(3) by (auto simp: dir_next_def)
  then show ?case unfolding walk_Cons_Ok_iff using n' Cons.IH [OF Cons.prems(1) n(4)] by blast
qed simp

lemma ram_create_node_links:
  fixes s :: "'r Vfs"
  assumes ok: "vfs_ok s" and a: "nodes s a = Some (RamDir d)"
    and run: "ram_create_node a d name ty s = (Ok (), s')"
  shows "extends s s'" and "map_of (dir_children d) name = None"
    and "nodes s (next_addr s) = None" and "nodes s' (next_addr s) = Some (ram_new_node a name ty)"
    and "child s' x q y \<longleftrightarrow> child s x q y \<or> x = a \<and> q = name \<and> y = next_addr s"
    and "s' = s\<lparr>nodes := (nodes s)(next_addr s \<mapsto> ram_new_node a name ty,
      a \<mapsto> RamDir (d\<lparr>dir_children := bt_insert name (next_addr s) (dir_children d)\<rparr>)), next_addr := Suc (next_addr s)\<rparr>"
proof -
  define N where "N = next_addr s"
  define d' where "d' = d\<lparr>dir_children := bt_insert name N (dir_children d)\<rparr>"
  show fresh: "map_of (dir_children d) name = None" using run by (auto simp: ram_create_node_def split: if_splits)
  have s': "s' = s\<lparr>nodes := (nodes s)(N \<mapsto> ram_new_node a name ty, a \<mapsto> RamDir d'), next_addr := Suc N\<rparr>"
    using run by (auto simp: ram_create_node_def alloc_node_def set_node_def N_def d'_def split: if_splits)
  show N: "nodes s (next_addr s) = None" using vfs_okD(1) [OF ok] by (cases "nodes s (next_addr s)") auto
  have aN: "a \<noteq> N" "a < N" using vfs_okD(1) [OF ok a] by (auto simp: N_def)
  then show "nodes s' (next_addr s) = Some (ram_new_node a name ty)" by (simp add: s' N_def)
  have btd: "bt_ok (dir_children d)" using vfs_okD(2) [OF ok a] by simp
  have new_ch: "node_children (ram_new_node a name ty :: 'r Node) = []" by (simp add: ram_new_node_def)
  have set_d': "set (dir_children d') = insert (name, N) (set (dir_children d))"
    using bt_insert_new [OF fresh, of N] by (simp add: d'_def)
  have ch: "child s' x q y \<longleftrightarrow> child s x q y \<or> x = a \<and> q = name \<and> y = N" for x q y
    using aN N a set_d' new_ch by (auto simp: child_def s' N_def)
  then show "child s' x q y \<longleftrightarrow> child s x q y \<or> x = a \<and> q = name \<and> y = next_addr s" by (simp add: N_def)
  show "extends s s'"
    using a aN N map_of_bt_insert [OF btd, of name N] fresh
    by (auto simp: extends_def s' N_def d'_def map_le_def split: option.splits)
qed (use assms in \<open>auto simp: ram_create_node_def alloc_node_def set_node_def split: if_splits\<close>)

lemma ram_create_node_ok:
  fixes s :: "'r Vfs"
  assumes ok: "vfs_ok s" and a: "nodes s a = Some (RamDir d)" and nm: "name_ok name"
    and run: "ram_create_node a d name ty s = (Ok (), s')"
  shows "vfs_ok s'"
proof -
  define N where "N = next_addr s"
  define d' where "d' = d\<lparr>dir_children := bt_insert name N (dir_children d)\<rparr>"
  note links = ram_create_node_links [OF ok a run, folded N_def, folded d'_def]
  note N = links(3) and ch = links(5) and s' = links(6)
  have n': "nodes s' z = (if z = a then Some (RamDir d') else if z = N then Some (ram_new_node a name ty) else nodes s z)" for z
    by (simp add: s')
  have aN: "a \<noteq> N" "a < N" using vfs_okD(1) [OF ok a] by (auto simp: N_def)
  have btd: "bt_ok (dir_children d)" using vfs_okD(2) [OF ok a] by simp
  have new_ch: "node_children (ram_new_node a name ty :: 'r Node) = []" by (simp add: ram_new_node_def)
  have oldN: "y \<noteq> N" "nodes s y \<noteq> None" if "child s x q y" for x q y
    using vfs_okD(5) [OF ok that] N by (auto simp: N_def)
  show "vfs_ok s'"
    unfolding vfs_ok_def
  proof (intro conjI allI impI)
    fix x n assume "nodes s' x = Some n"
    then have "x = a \<and> RamDir d' = n \<or> x = N \<and> ram_new_node a name ty = n \<or> nodes s x = Some n"
      unfolding s' by (simp split: if_split_asm)
    then consider (upd) "x = a" "n = RamDir d'" | (new) "x = N" "n = ram_new_node a name ty" | (old) "nodes s x = Some n"
      by blast
    note cs = this
    show "x < next_addr s'" using cs aN vfs_okD(1) [OF ok, of x n] by cases (simp_all add: s' N_def)
    show "bt_ok (node_children n)"
      using cs vfs_okD(2) [OF ok, of x n] bt_insert_ok [OF btd, of name N] by cases (simp_all add: d'_def new_ch bt_ok_def)
    fix dd p assume dd: "as_dir n = Some dd" "dir_parent dd = Some p"
    from cs have p: "p = a \<or> p < N \<and> (\<forall>m. nodes s p = Some m \<longrightarrow> as_dir m \<noteq> None)"
    proof cases
      case upd
      then show ?thesis using dd vfs_okD(3,10) [OF ok a] by (auto simp: d'_def N_def)
    next
      case new
      then show ?thesis using dd by (auto simp: ram_new_node_def split: if_splits)
    qed (use dd vfs_okD(3,10) [OF ok] in \<open>simp add: N_def\<close>)
    then show "p < next_addr s'" using aN by (auto simp: s')
    fix m assume "nodes s' p = Some m"
    then show "as_dir m \<noteq> None" using p by (auto simp: n' split: if_splits)
  next
    fix x q y assume "child s' x q y"
    then consider (old) "child s x q y" | (new) "x = a" "q = name" "y = N" unfolding ch by blast
    note cs = this
    show "name_ok q" using cs nm vfs_okD(4) [OF ok] by cases auto
    show "nodes s' y \<noteq> None" using cs oldN [of x q y] by cases (simp_all add: n')
    fix m dd assume m: "nodes s' y = Some m" "as_dir m = Some dd"
    from cs show "dir_parent dd = Some x"
    proof cases
      case old
      then show ?thesis
        using m oldN [OF old] vfs_okD(6) [OF ok old] a by (auto simp: n' d'_def split: if_splits)
    qed (use m aN in \<open>auto simp: n' ram_new_node_def split: if_splits\<close>)
  next
    fix x q z p y assume "child s' x q y" "child s' z p y"
    then show "x = z" "q = p" using oldN vfs_okD(7) [OF ok] unfolding ch by metis+
  next
    fix x dd q y de assume x: "nodes s' x = Some (RamDir dd)" and "child s' x q y"
    then consider (old) "child s x q y" | (new) "y = N" unfolding ch by blast
    then show "nodes s' y \<noteq> Some (DevDir de)"
    proof cases
      case old
      have "x \<noteq> N" using old N by (auto simp: child_def N_def)
      then have "\<exists>e. nodes s x = Some (RamDir e)" using x a by (auto simp: n' split: if_splits)
      then show ?thesis using vfs_okD(8) [OF ok _ old] oldN [OF old] by (auto simp: n')
    qed (use aN in \<open>simp add: n' ram_new_node_def\<close>)
  next
    fix x assume "0 < held s' x"
    then show "nodes s' x \<noteq> None" using vfs_okD(9) [OF ok, of x] by (auto simp: n' s')
  qed
qed

subsection \<open>Removing a node\<close>

lemma linked_iff:
  assumes "\<And>a n. nodes s a = Some n \<Longrightarrow> a < next_addr s"
  shows "linked c s \<longleftrightarrow> (\<exists>d p. child s d p c)"
proof
  assume "linked c s"
  then show "\<exists>d p. child s d p c" by (force simp: linked_def child_def split: option.splits)
next
  assume "\<exists>d p. child s d p c"
  then obtain d p n where n: "nodes s d = Some n" "(p, c) \<in> set (node_children n)" by (auto simp: child_def)
  have "c \<in> snd ` set (node_children n)" by (rule image_eqI [OF _ n(2)]) simp
  then show "linked c s" unfolding linked_def using assms [OF n(1)] n(1) by (intro exI [of _ d]) simp
qed

lemma ram_remove_node_links:
  assumes ok: "vfs_ok s" and a: "nodes s a = Some (RamDir d)"
    and c: "map_of (dir_children d) name = Some c" and run: "ram_remove_node a d name s = (Ok (), s')"
  shows "c \<noteq> a" and "child s' x q y \<longleftrightarrow> child s x q y \<and> y \<noteq> c" and "next_addr s' = next_addr s" and "held s' = held s"
    and "nodes s' z = (if z = a then Some (RamDir (d\<lparr>dir_children := bt_remove name (dir_children d)\<rparr>))
      else if z = c \<and> held s c = 0 then None else nodes s z)"
proof -
  define d' where "d' = d\<lparr>dir_children := bt_remove name (dir_children d)\<rparr>"
  define s1 where "s1 = set_node a (RamDir d') s"
  have btd: "bt_ok (dir_children d)" using vfs_okD(2) [OF ok a] by simp
  have ac: "child s a name c" using c btd a by (simp add: child_def bt_get_iff)
  have s': "s' = reap [c] s1" and empty: "\<And>e. nodes s c = Some (RamDir e) \<Longrightarrow> dir_children e = []"
    using run c by (auto simp: ram_remove_node_def s1_def d'_def split: if_splits)
  show ca: "c \<noteq> a" using empty [of d] a c by auto
  have leaf: "\<not> child s c q y" for q y
  proof
    assume "child s c q y"
    then obtain n where n: "nodes s c = Some n" "(q, y) \<in> set (node_children n)" by (auto simp: child_def)
    then show False using empty vfs_okD(8) [OF ok a ac] by (cases n) auto
  qed
  have btd': "bt_ok (dir_children d')" using bt_remove_ok [OF btd] by (simp add: d'_def)
  have "map_of (dir_children d') = (map_of (dir_children d))(name := None)"
    using map_of_bt_remove [OF btd] by (simp add: d'_def)
  then have "(q, y) \<in> set (dir_children d') \<longleftrightarrow> (q, y) \<in> set (dir_children d) \<and> q \<noteq> name" for q y
    using bt_get_iff [OF btd', of q y] bt_get_iff [OF btd, of q y] by (auto split: if_splits)
  moreover have "q = name \<longleftrightarrow> y = c" if h: "(q, y) \<in> set (dir_children d)" for q y
  proof -
    have "child s a q y" using h a by (simp add: child_def)
    then show ?thesis using vfs_okD(7) [OF ok _ ac, of a q] bt_get_iff [OF btd, of q y] h c by auto
  qed
  ultimately have d'_set: "(q, y) \<in> set (dir_children d') \<longleftrightarrow> (q, y) \<in> set (dir_children d) \<and> y \<noteq> c" for q y by blast
  have ch1: "child s1 x q y \<longleftrightarrow> child s x q y \<and> y \<noteq> c" for x q y
  proof (cases "x = a")
    case False
    then have "child s x q y \<Longrightarrow> y \<noteq> c" using vfs_okD(7) [OF ok _ ac, of x q] by blast
    then show ?thesis using False by (auto simp: child_def s1_def set_node_def)
  qed (use a d'_set in \<open>simp add: child_def s1_def set_node_def\<close>)
  have dom1: "\<And>x n. nodes s1 x = Some n \<Longrightarrow> x < next_addr s1"
    using vfs_okD(1) [OF ok] a by (auto simp: s1_def set_node_def split: if_splits)
  have no_ch: "nodes s c = Some n \<Longrightarrow> node_children n = []" for n
    using leaf by (cases "node_children n") (auto simp: child_def)
  have "\<not> linked c s1" using linked_iff [of s1 c] dom1 ch1 by blast
  then have s'1: "s' = (if held s c = 0 then s1\<lparr>nodes := (nodes s1)(c := None)\<rparr> else s1)"
    unfolding s' using no_ch vfs_okD(1) [OF ok] vfs_okD(5) [OF ok ac] ca by (auto simp: reap.simps(2) s1_def set_node_def split: option.splits)
  have n': "nodes s' z = (if z = a then Some (RamDir d') else if z = c \<and> held s c = 0 then None else nodes s z)" for z
    using ca by (simp add: s'1 s1_def set_node_def)
  then show "nodes s' z = (if z = a then Some (RamDir (d\<lparr>dir_children := bt_remove name (dir_children d)\<rparr>))
      else if z = c \<and> held s c = 0 then None else nodes s z)" by (simp add: d'_def)
  have ch: "child s' x q y \<longleftrightarrow> child s x q y \<and> y \<noteq> c" for x q y
  proof -
    have "child s' x q y \<longleftrightarrow> child s1 x q y" if "x \<noteq> c"
      using that by (simp add: s'1 child_def)
    moreover have "\<not> child s' c q y"
      using leaf [of q y] ca by (auto simp: child_def n')
    ultimately show ?thesis using ch1 leaf by (cases "x = c") auto
  qed
  then show "child s' x q y \<longleftrightarrow> child s x q y \<and> y \<noteq> c" .
  show "next_addr s' = next_addr s" "held s' = held s" by (simp_all add: s'1 s1_def set_node_def)
qed

lemma ram_remove_node_ok:
  assumes ok: "vfs_ok s" and a: "nodes s a = Some (RamDir d)"
    and c: "map_of (dir_children d) name = Some c" and run: "ram_remove_node a d name s = (Ok (), s')"
  shows "vfs_ok s'"
proof -
  define d' where "d' = d\<lparr>dir_children := bt_remove name (dir_children d)\<rparr>"
  note links = ram_remove_node_links [OF ok a c run]
  note ch = links(2) and rest = links(3,4)
  have n': "nodes s' z = (if z = a then Some (RamDir d') else if z = c \<and> held s c = 0 then None else nodes s z)" for z
    by (simp add: links(5) d'_def)
  have btd: "bt_ok (dir_children d)" using vfs_okD(2) [OF ok a] by simp
  have old: "\<exists>m. nodes s x = Some m \<and> map_option dir_parent (as_dir m) = map_option dir_parent (as_dir n) \<and>
      (m = n \<or> x = a \<and> m = RamDir d \<and> n = RamDir d')" if "nodes s' x = Some n" for x n
    using that a by (auto simp: n' d'_def split: if_splits)
  show "vfs_ok s'"
    unfolding vfs_ok_def rest
  proof (intro conjI allI impI)
    fix x n assume n: "nodes s' x = Some n"
    obtain m where m: "nodes s x = Some m" "map_option dir_parent (as_dir m) = map_option dir_parent (as_dir n)"
      "m = n \<or> x = a \<and> m = RamDir d \<and> n = RamDir d'" using old [OF n] by blast
    show "x < next_addr s" by (rule vfs_okD(1) [OF ok m(1)])
    show "bt_ok (node_children n)"
      using m(3) vfs_okD(2) [OF ok m(1)] bt_remove_ok [OF btd] by (auto simp: d'_def)
    fix dd p assume "as_dir n = Some dd" "dir_parent dd = Some p"
    then obtain e where "as_dir m = Some e" "dir_parent e = Some p" using m(2) by (cases "as_dir m") simp_all
    note e = this
    then show "p < next_addr s" by (intro vfs_okD(3) [OF ok m(1)])
    fix k assume "nodes s' p = Some k"
    then show "as_dir k \<noteq> None" using old [of p k] vfs_okD(10) [OF ok m(1) e] by fastforce
  next
    fix x q y assume "child s' x q y"
    then have c1: "child s x q y" "y \<noteq> c" by (simp_all add: ch)
    show "name_ok q" by (rule vfs_okD(4) [OF ok c1(1)])
    show "nodes s' y \<noteq> None" using vfs_okD(5) [OF ok c1(1)] c1(2) by (simp add: n')
    fix n dd assume n: "nodes s' y = Some n" "as_dir n = Some dd"
    obtain m where m: "nodes s y = Some m" "map_option dir_parent (as_dir m) = map_option dir_parent (as_dir n)"
      using old [OF n(1)] by blast
    then obtain e where "as_dir m = Some e" "dir_parent e = dir_parent dd" using n(2) by (cases "as_dir m") simp_all
    then show "dir_parent dd = Some x" using vfs_okD(6) [OF ok c1(1) m(1)] by simp
  next
    fix x q z p y assume "child s' x q y" "child s' z p y"
    then show "x = z" "q = p" using vfs_okD(7) [OF ok] unfolding ch by metis+
  next
    fix x dd q y de assume x: "nodes s' x = Some (RamDir dd)" and "child s' x q y"
    then have "child s x q y" by (simp add: ch)
    moreover have "\<exists>e. nodes s x = Some (RamDir e)" using old [OF x] by auto
    ultimately have "nodes s y \<noteq> Some (DevDir de)" using vfs_okD(8) [OF ok] by blast
    then show "nodes s' y \<noteq> Some (DevDir de)" by (simp add: n')
  next
    fix x assume "0 < held s x"
    then show "nodes s' x \<noteq> None" using vfs_okD(9) [OF ok, of x] by (auto simp: n')
  qed
qed

text \<open>The node that is removed has no children, and a path resolves as before or no longer.\<close>

lemma removal_leaf:
  assumes ok: "vfs_ok s" and a: "nodes s a = Some (RamDir d)"
    and c: "map_of (dir_children d) name = Some c" and run: "ram_remove_node a d name s = (Ok (), s')"
  shows "\<not> child s c q y"
proof
  assume ch: "child s c q y"
  have "child s a name c" using c vfs_okD(2) [OF ok a] a by (simp add: child_def bt_get_iff)
  then have nd: "\<And>e. nodes s c \<noteq> Some (DevDir e)" by (rule vfs_okD(8) [OF ok a])
  have "\<And>e. nodes s c = Some (RamDir e) \<Longrightarrow> dir_children e = []"
    using run c by (auto simp: ram_remove_node_def split: if_splits)
  then show False using ch nd unfolding child_def by (metis empty_iff empty_set node_children.simps Node.exhaust)
qed

lemma removal_walk:
  assumes ok: "vfs_ok s" and a: "nodes s a = Some (RamDir d)"
    and c: "map_of (dir_children d) name = Some c" and run: "ram_remove_node a d name s = (Ok (), s')"
  shows "nodes s' b \<noteq> None \<Longrightarrow> walk s b ps = Ok e \<Longrightarrow> walk s' b ps = Ok e \<or> walk s' b ps = Err NotFound"
proof (induction ps arbitrary: b)
  case (Cons p ps)
  note links = ram_remove_node_links [OF ok a c run]
  obtain n f y where n: "nodes s b = Some n" "as_dir n = Some f" "dir_next f b p s = Some y" "walk s y ps = Ok e"
    using Cons.prems(2) unfolding walk_Cons_Ok_iff by blast
  obtain n' f' where n': "nodes s' b = Some n'" "as_dir n' = Some f'" "dir_parent f' = dir_parent f"
    "\<And>q z. map_of (dir_children f') q = Some z \<Longrightarrow> map_of (dir_children f) q = Some z"
  proof (cases "b = a")
    case True
    then have "f = d" using n a by auto
    then show ?thesis
      using map_of_bt_remove [OF vfs_okD(2) [OF ok a], of name] True links(5) [of b]
      by (intro that [of "RamDir (d\<lparr>dir_children := bt_remove name (dir_children d)\<rparr>)" "d\<lparr>dir_children := bt_remove name (dir_children d)\<rparr>"])
        (simp_all split: if_splits)
  next
    case False
    then show ?thesis using Cons.prems(1) n(1,2) links(5) [of b] by (intro that [of n f]) (simp_all split: if_splits)
  qed
  show ?case
  proof (cases "dir_next f' b p s'")
    case None
    then show ?thesis using n' by simp
  next
    case (Some z)
    have up: "upgrade w s = Some z \<and> nodes s' z \<noteq> None" if "upgrade w s' = Some z" for w
      using that a links(5) [of z] by (auto simp: upgrade_def split: option.splits if_splits)
    have chz: "map_of (dir_children f) q = Some z \<and> nodes s' z \<noteq> None" if h: "map_of (dir_children f') q = Some z" for q
    proof -
      have "child s' b q z" using h n'(1,2) by (auto simp: child_def as_dir_children dest: map_of_SomeD)
      then show ?thesis using h n'(4) vfs_okD(5) [OF ram_remove_node_ok [OF ok a c run]] by blast
    qed
    have z: "z = y" "nodes s' z \<noteq> None"
      using Some n(3) n'(3) up chz Cons.prems(1) by (auto simp: dir_next_def split: if_splits)
    then show ?thesis using Cons.IH [OF z(2)] n(4) n' Some by simp
  qed
qed simp

subsection \<open>Files\<close>

lemma unat_end:
  assumes "unat (offset :: u64) + n < 2 ^ 64"
  shows "unat (offset + of_nat n) = unat offset + n"
proof -
  have "unat (of_nat n :: u64) = n" using assms by (intro unat_of_nat_64) linarith
  then show ?thesis using assms by (simp add: unat_add_no_overflow)
qed

text \<open>A read that does not pass the end of the address space returns the bytes of the file from its offset on.\<close>

lemma file_read_at_bytes:
  assumes "unat offset + length buf < 2 ^ 64"
  shows "file_read_at offset buf c =
    Ok (length (take (length buf) (drop (unat offset) c)),
        take (length buf) (drop (unat offset) c) @ drop (length (take (length buf) (drop (unat offset) c))) buf)"
proof -
  let ?st = "min (length c) (unat offset)" and ?fin = "min (length c) (unat offset + length buf)"
  have "take (?fin - ?st) (drop ?st c) = take (length buf) (drop (unat offset) c)"
    by (rule nth_equalityI) (auto simp: min_def)
  then show ?thesis by (simp add: file_read_at_def Let_def unat_end [OF assms])
qed

lemma file_write_at_bytes:
  assumes "unat offset + length buf < 2 ^ 63"
  shows "file_write_at offset buf c =
    Ok (length buf, take (unat offset) (c @ replicate (unat offset - length c) 0) @ buf @ drop (unat offset + length buf) c)"
proof -
  have fin: "unat (offset + of_nat (length buf)) = unat offset + length buf"
    using assms by (intro unat_end) simp
  show ?thesis
    using assms by (cases "unat offset + length buf > length c") (auto simp: file_write_at_def fin vec_resize_def min_def Let_def word_le_nat_alt word_less_nat_alt)
qed

lemma file_read_write:
  assumes "unat offset + length buf < 2 ^ 63" and "length buf' = length buf"
    and "file_write_at offset buf c = Ok (n, c')"
  shows "file_read_at offset buf' c' = Ok (length buf, buf)"
proof -
  have c': "c' = take (unat offset) (c @ replicate (unat offset - length c) 0) @ buf @ drop (unat offset + length buf) c"
    using assms(3) by (auto simp: file_write_at_bytes [OF assms(1)])
  have "length (take (unat offset) (c @ replicate (unat offset - length c) 0)) = unat offset" by simp
  then have "take (length buf) (drop (unat offset) c') = buf" by (simp add: c')
  then show ?thesis using file_read_at_bytes [of offset buf' c'] assms(1,2) by simp
qed

subsection \<open>Directory entries\<close>

lemma dirent_roundtrip:
  assumes "length name \<le> 63" and "CHR 0x00 \<notin> set name"
  shows "\<exists>e. dirent_new name ty = Ok e \<and> d_type e = ty \<and> name_as_bytes e = name"
proof -
  have "takeWhile (\<lambda>c. c \<noteq> CHR 0x00) (name @ replicate k (CHR 0x00)) = name" for k
    using assms(2) by (induction name) (auto simp: takeWhile_replicate)
  then show ?thesis using assms(1) by (simp add: dirent_new_def D_NAME_LEN_def name_as_bytes_def)
qed

text \<open>What a directory lists: itself, its parent and its children in the order of their names.\<close>

definition listing :: "'r Vfs \<Rightarrow> DirNode \<Rightarrow> (string \<times> VfsNodeType) list" where
  "listing s d = [(''.'', TyDir), (''..'', TyDir)] @
     map (\<lambda>(name, c). (name, attr_ty (node_attr (the (nodes s c))))) (dir_children d)"

definition entry_of :: "string \<times> VfsNodeType \<Rightarrow> VfsDirEntry" where
  "entry_of p = \<lparr>d_type = snd p, d_name = fst p @ replicate (63 - length (fst p)) (CHR 0x00)\<rparr>"

lemma dirent_new_entry: "length name \<le> 63 \<Longrightarrow> dirent_new name ty = Ok (entry_of (name, ty))"
  by (simp add: dirent_new_def entry_of_def D_NAME_LEN_def)

lemma read_dir_loop_lists:
  assumes "k = unat start_idx" and "k + i + length es < 2 ^ 64"
    and "\<forall>(name, c) \<in> set (dir_children d). length name \<le> 63 \<and> nodes s c \<noteq> None"
    and "cs = drop (k + i - 2) (dir_children d)"
  shows "read_dir_loop s start_idx i cs es =
    (let ls = take (length es) (drop (k + i) (map entry_of (listing s d)))
     in Ok (i + length ls, ls @ drop (length ls) es))"
  using assms(2,4)
proof (induction es arbitrary: i cs)
  case (Cons e es)
  have idx: "unat (of_nat i + start_idx) = k + i"
    using unat_end [of start_idx i] Cons.prems(1) assms(1) by (simp add: add.commute)
  have eqs: "of_nat i + start_idx = 0 \<longleftrightarrow> k + i = 0" "of_nat i + start_idx = 1 \<longleftrightarrow> k + i = 1"
    using idx by (auto simp: word_unat_eq_iff)
  consider "k + i = 0" | "k + i = 1" | (more) j where "k + i = j + 2"
    by (metis One_nat_def add_2_eq_Suc' not0_implies_Suc)
  then show ?case
  proof cases
    case 1
    then have "read_dir_loop s start_idx (Suc i) cs es = (let ls = take (length es) (drop 1 (map entry_of (listing s d)))
        in Ok (1 + length ls, ls @ drop (length ls) es))" using Cons.IH [of "Suc i" cs] Cons.prems by simp
    then show ?thesis using 1 eqs by (simp add: dirent_new_entry listing_def Let_def)
  next
    case 2
    then have "read_dir_loop s start_idx (Suc i) cs es = (let ls = take (length es) (drop 2 (map entry_of (listing s d)))
        in Ok (Suc i + length ls, ls @ drop (length ls) es))" using Cons.IH [of "Suc i" cs] Cons.prems by (simp add: numeral_2_eq_2)
    then show ?thesis using 2 eqs by (simp add: dirent_new_entry listing_def Let_def)
  next
    case more
    have cs: "cs = drop j (dir_children d)" using Cons.prems(2) more by simp
    have d: "drop (k + i) (map entry_of (listing s d)) =
        map (entry_of \<circ> (\<lambda>(name, c). (name, attr_ty (node_attr (the (nodes s c)))))) cs"
      by (simp add: more listing_def cs drop_map)
    show ?thesis
    proof (cases cs)
      case Nil
      then show ?thesis using d eqs more by (simp add: Let_def)
    next
      case (Cons nc cs')
      obtain name c where nc: "nc = (name, c)" by (cases nc)
      have "nc \<in> set (dir_children d)" using Cons cs by (metis in_set_dropD list.set_intros(1))
      then have len: "length name \<le> 63" "nodes s c \<noteq> None" using assms(3) nc by auto
      have cs': "cs' = drop (k + Suc i - 2) (dir_children d)" using Cons cs more tl_drop [of j "dir_children d"] by (simp add: drop_Suc)
      have IH: "read_dir_loop s start_idx (Suc i) cs' es = (let ls = take (length es) (drop (k + Suc i) (map entry_of (listing s d)))
          in Ok (Suc i + length ls, ls @ drop (length ls) es))"
        using Cons.IH [of "Suc i" cs'] cs' Cons.prems(1) by simp
      have d': "drop (k + Suc i) (map entry_of (listing s d)) =
          map (entry_of \<circ> (\<lambda>(name, c). (name, attr_ty (node_attr (the (nodes s c)))))) cs'"
        using d Cons tl_drop [of "k + i" "map entry_of (listing s d)"] by (simp add: drop_Suc)
      show ?thesis
        using IH eqs more len unfolding d d' by (auto simp: Cons nc vfs_get_attr_def dirent_new_entry Let_def)
    qed
  qed
qed simp

end
