(* ===== verification/VfsTheorems.thy ===== *)
theory VfsTheorems
  imports VfsCorrect
begin

text \<open>
  The file system as a whole: every operation keeps the invariant \<open>vfs_ok\<close>, creation and removal change
  exactly one link, files return what was written to them, and normalising a path does not change where
  it leads.
\<close>

subsection \<open>Every operation keeps the invariant\<close>

lemma last_split_slash: "slash \<notin> set (last (split_slash path))"
  using split_slash_parts [of "last (split_slash path)" path] by simp

lemma last_name_ok: "\<not> dot_name (last (split_slash path)) \<Longrightarrow> name_ok (last (split_slash path))"
  using last_split_slash [of path] by (simp add: dot_name_def name_ok_def)

lemma vfs_create_outcome:
  assumes "vfs_create a path ty s = (r, s')"
  shows "s' = s \<and> (r = Ok () \<longrightarrow> dot_name (last (split_slash path))) \<or>
    r = Ok () \<and> \<not> dot_name (last (split_slash path)) \<and> (\<exists>b d. walk s a (butlast (split_slash path)) = Ok b \<and>
      nodes s b = Some (RamDir d) \<and> ram_create_node b d (last (split_slash path)) ty s = (Ok (), s'))"
proof -
  have "ram_create_node b d p ty s = (r, s') \<Longrightarrow> r \<noteq> Ok () \<Longrightarrow> s' = s" for b d p
    by (auto simp: ram_create_node_def alloc_node_def split: if_splits)
  then show ?thesis
    using at_dir_outcome [OF assms [unfolded vfs_create_at]]
    by (auto simp: create_last_def split: if_splits Node.splits)
qed

lemma vfs_remove_outcome:
  assumes "vfs_remove a path s = (r, s')"
  shows "s' = s \<and> r \<noteq> Ok () \<or>
    r = Ok () \<and> name_ok (last (split_slash path)) \<and> (\<exists>b d c. walk s a (butlast (split_slash path)) = Ok b \<and>
      nodes s b = Some (RamDir d) \<and> map_of (dir_children d) (last (split_slash path)) = Some c \<and>
      ram_remove_node b d (last (split_slash path)) s = (Ok (), s'))"
proof -
  have "ram_remove_node b d p s = (r, s') \<Longrightarrow> s' = s \<and> r \<noteq> Ok () \<or> r = Ok () \<and> map_of (dir_children d) p \<noteq> None" for b d p
    by (auto simp: ram_remove_node_def split: if_splits option.splits)
  then show ?thesis
    using at_dir_outcome [OF assms [unfolded vfs_remove_at]] last_name_ok [of path]
    by (fastforce simp: remove_last_def split: if_splits Node.splits)
qed

lemma vfs_create_ok: "vfs_ok s \<Longrightarrow> vfs_create a path ty s = (r, s') \<Longrightarrow> vfs_ok s'"
  using vfs_create_outcome [of a path ty s r s'] ram_create_node_ok last_name_ok by blast

lemma vfs_remove_ok: "vfs_ok s \<Longrightarrow> vfs_remove a path s = (r, s') \<Longrightarrow> vfs_ok s'"
  using vfs_remove_outcome [of a path s r s'] ram_remove_node_ok by blast

text \<open>A node that is not a directory is replaced by another.\<close>

lemma set_file_ok:
  assumes ok: "vfs_ok s" and a: "nodes s a = Some n" "as_dir n = None" "as_dir n' = None"
  shows "vfs_ok (set_node a n' s)"
proof -
  have leaf: "node_children m = []" if "as_dir m = None" for m :: "'a Node" using that by (cases m) auto
  have ch: "child (set_node a n' s) x q y \<longleftrightarrow> child s x q y" for x q y
    using a leaf by (auto simp: child_def set_node_def)
  have np: "dir_parent d \<noteq> Some a" if "nodes s x = Some m" "as_dir m = Some d" for x m d
    using vfs_okD(10) [OF ok that _ a(1)] a(2) by blast
  show ?thesis
    using ok a leaf [of n'] np unfolding vfs_ok_def ch
    by (auto simp: set_node_def bt_ok_def split: if_splits)
qed

lemma drop_node_ok:
  assumes ok: "vfs_ok s" and a: "held s a = 0" "\<not> linked a s"
  shows "vfs_ok (s\<lparr>nodes := (nodes s)(a := None)\<rparr>)"
proof -
  let ?s = "s\<lparr>nodes := (nodes s)(a := None)\<rparr>"
  have un: "\<not> child s x q a" for x q using a(2) linked_iff [of s a] vfs_okD(1) [OF ok] by blast
  have ch: "child ?s x q y \<longleftrightarrow> child s x q y \<and> x \<noteq> a" for x q y by (auto simp: child_def)
  have "y \<noteq> a" if "child s x q y" for x q y using that un by blast
  then show ?thesis
    using ok a(1) unfolding vfs_ok_def ch
    by (auto split: if_splits)
qed

lemma reap_ok: "vfs_ok s \<Longrightarrow> vfs_ok (reap as s)"
proof (induction as s rule: reap.induct)
  case (2 a as s)
  then show ?case by (simp add: reap.simps(2) drop_node_ok split: option.splits)
qed simp

text \<open>Reading the file system has no effect but on the generator of random numbers.\<close>

inductive vfs_step :: "'r Vfs \<Rightarrow> 'r Vfs \<Rightarrow> bool" where
  create: "vfs_create a path ty s = (r, s') \<Longrightarrow> vfs_step s s'"
| remove: "vfs_remove a path s = (r, s') \<Longrightarrow> vfs_step s s'"
| write_file: "vfs_write_at a offset buf s = (w, s') \<Longrightarrow> vfs_step s s'"
| trunc_file: "vfs_truncate a sz s = (r, s') \<Longrightarrow> vfs_step s s'"
| read_file: "vfs_read_at rand a offset buf s = (x, s') \<Longrightarrow> vfs_step s s'"
| open_node: "nodes s a \<noteq> None \<Longrightarrow> vfs_step s (hold a s)"
| close_node: "held s a > 0 \<Longrightarrow> vfs_step s (release a s)"

inductive_cases vfs_stepE: "vfs_step s s'"

lemma vfs_step_ok:
  assumes "vfs_ok s" and "vfs_step s s'"
  shows "vfs_ok s'"
  using assms(2)
proof cases
  case (create a path ty r)
  then show ?thesis using vfs_create_ok assms(1) by blast
next
  case (remove a path r)
  then show ?thesis using vfs_remove_ok assms(1) by blast
next
  case (write_file a offset buf w)
  then show ?thesis
    using set_file_ok [OF assms(1)] assms(1) by (auto simp: vfs_write_at_def split: option.splits Node.splits result.splits)
next
  case (trunc_file a sz r)
  then show ?thesis
    using set_file_ok [OF assms(1)] assms(1) by (auto simp: vfs_truncate_def split: option.splits Node.splits result.splits)
next
  case (read_file rand a offset buf x)
  then show ?thesis
    using set_file_ok [OF assms(1)] assms(1) by (auto simp: vfs_read_at_def split: option.splits Node.splits prod.splits)
next
  case (open_node a)
  have "child (hold a s) x q y \<longleftrightarrow> child s x q y" for x q y by (simp add: child_def hold_def)
  then show ?thesis using assms(1) open_node unfolding vfs_ok_def open_node(1) by (simp add: hold_def)
next
  case (close_node a)
  let ?s = "s\<lparr>held := (held s)(a := held s a - 1)\<rparr>"
  have "child ?s x q y \<longleftrightarrow> child s x q y" for x q y by (simp add: child_def)
  then have "vfs_ok ?s" using assms(1) unfolding vfs_ok_def by auto
  then show ?thesis using close_node by (simp add: release_def reap_ok)
qed

subsection \<open>An example\<close>

definition vfs_empty :: "'r Vfs" where
  "vfs_empty = \<lparr>nodes = Map.empty, next_addr = 0, held = (\<lambda>_. 0), irq_count = []\<rparr>"

text \<open>A new RAM file system is well formed.\<close>

lemma ramfs_new_ok: "vfs_ok (snd (ramfs_new vfs_empty))"
  by (auto simp: ramfs_new_def vfs_empty_def alloc_node_def hold_def vfs_ok_def child_def bt_ok_def split: if_splits)

text \<open>The tree \<open>/a/b\<close> with a file \<open>/f\<close>.\<close>

definition demo_fs :: "unit Vfs" where
  "demo_fs = snd (vfs_create 0 ''/f'' TyFile (snd (vfs_create 0 ''a/b'' TyDir (snd (vfs_create 0 ''a'' TyDir
     (snd (ramfs_new vfs_empty)))))))"

lemma demo_fs_eq:
  "demo_fs = \<lparr>nodes = [0 \<mapsto> RamDir \<lparr>dir_parent = None, dir_children = [(''a'', 1), (''f'', 3)]\<rparr>,
     1 \<mapsto> RamDir \<lparr>dir_parent = Some 0, dir_children = [(''b'', 2)]\<rparr>,
     2 \<mapsto> RamDir \<lparr>dir_parent = Some 1, dir_children = []\<rparr>, 3 \<mapsto> RamFile []],
     next_addr = 4, held = (\<lambda>_. 0)(0 := 1), irq_count = []\<rparr>"
  by (simp add: demo_fs_def ramfs_new_def vfs_empty_def alloc_node_def hold_def vfs_create.simps split_path_def
      dir_next_def dot_name_def ram_create_node_def ram_new_node_def set_node_def fun_upd_twist eval_nat_numeral fun_upd_def fun_eq_iff)

lemma vfs_create_snd_ok: "vfs_ok s \<Longrightarrow> vfs_ok (snd (vfs_create a path ty s))"
  using vfs_create_ok [of s a path ty] by (metis prod.collapse)

lemma demo_fs_ok: "vfs_ok demo_fs"
  unfolding demo_fs_def by (intro vfs_create_snd_ok ramfs_new_ok)

lemma demo_fs_root: "vfs_parent demo_fs 0 = None" "held demo_fs 0 = 1"
  by code_simp+

subsection \<open>Properties\<close>



text \<open>
  C12: creating a node under a proper name either fails and changes nothing, or there was no such node and
  there is one now: it is new, of the requested kind, and the only new link leads to it. Every other path
  leads where it did before.
\<close>

theorem create_then_lookup:
  assumes "vfs_ok s" and "\<not> dot_name (last (split_slash path))" and "vfs_create a path ty s = (r, s')"
  shows "vfs_ok s' \<and> (r \<noteq> Ok () \<longrightarrow> s' = s) \<and>
    (r = Ok () \<longrightarrow> (\<exists>b c. vfs_lookup s a path = Err NotFound \<and> vfs_lookup s' a path = Ok c \<and>
       nodes s c = None \<and> nodes s' c = Some (ram_new_node b (last (split_slash path)) ty) \<and>
       (\<forall>x q y. child s' x q y \<longleftrightarrow> child s x q y \<or> (x, q, y) = (b, last (split_slash path), c)))) \<and>
    (\<forall>b q e. vfs_lookup s b q = Ok e \<longrightarrow> vfs_lookup s' b q = Ok e)"
proof (cases "s' = s \<and> r \<noteq> Ok ()")
  case False
  let ?p = "last (split_slash path)"
  have p: "split_slash path = butlast (split_slash path) @ [?p]" by simp
  have nm: "name_ok ?p" by (rule last_name_ok [OF assms(2)])
  obtain b d where r: "r = Ok ()" and b: "walk s a (butlast (split_slash path)) = Ok b" "nodes s b = Some (RamDir d)"
    and run: "ram_create_node b d ?p ty s = (Ok (), s')"
    using False vfs_create_outcome [OF assms(3)] assms(2) by blast
  note links = ram_create_node_links [OF assms(1) b(2) run]
  note ok' = ram_create_node_ok [OF assms(1) b(2) nm run]
  have "walk s b [?p] = Err NotFound" using b(2) links(2) nm by (simp add: dir_next_name)
  then have "vfs_lookup s a path = Err NotFound"
    by (simp add: vfs_lookup_split b(1) del: walk.simps)
  moreover have "vfs_lookup s' a path = Ok (next_addr s)"
    unfolding vfs_lookup_walk
    by (subst p) (use extends_walk [OF links(1) b(1)] links(5) walk_snoc_name [OF ok' nm] in blast)
  ultimately show ?thesis
    using r ok' links extends_walk [OF links(1)] by (auto simp: vfs_lookup_walk)
qed (use assms(1) in simp)

theorem create_then_lookup_witness:
  "\<exists>s' c. vfs_create 0 ''/a/b/c'' TyFile demo_fs = (Ok (), s') \<and> vfs_lookup s' 0 ''/a/b/c'' = Ok c \<and> nodes s' c = Some (RamFile [])"
proof -
  have "fst (vfs_create 0 ''/a/b/c'' TyFile demo_fs) = Ok ()" by code_simp
  then obtain s' where run: "vfs_create 0 ''/a/b/c'' TyFile demo_fs = (Ok (), s')" by (metis prod.collapse)
  have "\<not> dot_name (last (split_slash ''/a/b/c''))" by (simp add: dot_name_def)
  then show ?thesis
    using create_then_lookup [OF demo_fs_ok _ run] run by (auto simp: ram_new_node_def)
qed

lemma vfs_remove_spec:
  assumes "vfs_ok s" and "held s a > 0" and "vfs_remove a path s = (r, s')"
  shows "vfs_ok s' \<and> (r \<noteq> Ok () \<longrightarrow> s' = s) \<and>
    (r = Ok () \<longrightarrow> (\<exists>c. vfs_lookup s a path = Ok c \<and> (\<forall>q y. \<not> child s c q y) \<and> vfs_lookup s' a path = Err NotFound \<and>
       (\<forall>x q y. child s' x q y \<longleftrightarrow> child s x q y \<and> y \<noteq> c) \<and> (held s c = 0 \<longleftrightarrow> nodes s' c = None)))"
proof (cases "s' = s \<and> r \<noteq> Ok ()")
  case False
  let ?p = "last (split_slash path)"
  have p: "split_slash path = butlast (split_slash path) @ [?p]" by simp
  obtain b d c where r: "r = Ok ()" and nm: "name_ok ?p" and b: "walk s a (butlast (split_slash path)) = Ok b" "nodes s b = Some (RamDir d)"
    and c: "map_of (dir_children d) ?p = Some c" and run: "ram_remove_node b d ?p s = (Ok (), s')"
    using False vfs_remove_outcome [OF assms(3)] by blast
  note links = ram_remove_node_links [OF assms(1) b(2) c run]
  note ok' = ram_remove_node_ok [OF assms(1) b(2) c run]
  have bc: "child s b ?p c" using dir_next_child [OF assms(1) b(2) _ nm] c nm by (simp add: dir_next_name)
  have "vfs_lookup s a path = Ok c"
    unfolding vfs_lookup_walk by (subst p) (use walk_snoc_name [OF assms(1) nm] b(1) bc in blast)
  moreover have "vfs_lookup s' a path = Err NotFound"
  proof -
    have "walk s' b [?p] = Err NotFound"
      using links(5) [of b] nm map_of_bt_remove [of "dir_children d"] vfs_okD(2) [OF assms(1) b(2)] by (simp add: dir_next_name)
    moreover have "walk s' a (butlast (split_slash path)) = Ok b \<or> walk s' a (butlast (split_slash path)) = Err NotFound"
      using removal_walk [OF assms(1) b(2) c run _ b(1)] vfs_okD(9) [OF ok', of a] links(4) assms(2) by simp
    ultimately show ?thesis unfolding vfs_lookup_split by (auto simp del: walk.simps)
  qed
  moreover have "\<not> child s c q y" for q y
    using removal_leaf [OF assms(1) b(2) c run] by blast
  moreover have "held s c = 0 \<longleftrightarrow> nodes s' c = None"
    using links(1,5) vfs_okD(5) [OF assms(1) bc] by simp
  ultimately show ?thesis using r ok' links(2) by auto
qed (use assms(1) in simp)

text \<open>
  C13: removing a path either fails and changes nothing, or it named a node without children; then the
  link to it is gone, all others are as before, the path leads nowhere, and the node itself is dropped
  unless it is still open.
\<close>

theorem remove_then_lookup:
  assumes "vfs_ok s" and "held s a > 0" and "vfs_remove a path s = (r, s')"
  shows "vfs_ok s' \<and> (r \<noteq> Ok () \<longrightarrow> s' = s) \<and>
    (r = Ok () \<longrightarrow> (\<exists>c. vfs_lookup s a path = Ok c \<and> (\<forall>q y. \<not> child s c q y) \<and> vfs_lookup s' a path = Err NotFound \<and>
       (\<forall>x q y. child s' x q y \<longleftrightarrow> child s x q y \<and> y \<noteq> c) \<and> (held s c = 0 \<longleftrightarrow> nodes s' c = None)))"
  by (rule vfs_remove_spec [OF assms])

theorem remove_then_lookup_witness:
  "\<exists>s'. vfs_remove 0 ''a/b'' demo_fs = (Ok (), s') \<and> vfs_lookup s' 0 ''a/b'' = Err NotFound"
proof -
  have "fst (vfs_remove 0 ''a/b'' demo_fs) = Ok ()"
    by (simp add: demo_fs_eq vfs_remove.simps split_path_def dir_next_def dot_name_def ram_remove_node_def)
  then obtain s' where run: "vfs_remove 0 ''a/b'' demo_fs = (Ok (), s')" by (metis prod.collapse)
  then show ?thesis using remove_then_lookup [OF demo_fs_ok _ run] demo_fs_root by auto
qed

text \<open>
  Normalising a path does not change where it leads: from the root of a file system a path and its
  canonical form resolve to the same node.
\<close>

lemma lookup_canonical:
  assumes "vfs_ok s" and "vfs_parent s r = None" and "\<forall>c \<in> set path. \<not> is_cont c"
    and "vfs_lookup s r path = Ok e"
  shows "\<exists>q. canonicalize path = Ok q \<and> vfs_lookup s r q = Ok e"
proof -
  have w: "walk s r (split_slash path) = Ok e" using assms(4) by (simp add: vfs_lookup_walk)
  obtain p ps where "split_slash path = p # ps" by (cases "split_slash path") simp_all
  then obtain n d where n: "nodes s r = Some n" "as_dir n = Some d" using w by (auto simp: walk_Cons_Ok_iff simp del: walk.simps)
  have "walk s r (resolve_path path) = Ok e"
    unfolding resolve_path_def using walk_resolve [OF assms(1,2) _ w] split_slash_parts by blast
  then have "vfs_lookup s r (canonical_form path) = Ok e"
    unfolding vfs_lookup_walk walk_canonical_form [OF n] .
  then show ?thesis using canonicalize_form [of path] assms(3) by auto
qed

text \<open>
  What is written to a file is read back from the same place; the file is extended with zeros up to
  the offset if need be, all its other bytes and all other nodes are as before.
\<close>

lemma write_then_read:
  assumes "nodes s a = Some (RamFile c)" and "unat offset + length buf < 2 ^ 63" and "length buf' = length buf"
  shows "\<exists>s' c'. vfs_write_at a offset buf s = (Ok (length buf), s') \<and>
    vfs_read_at rand a offset buf' s' = (Ok (length buf, buf), s') \<and> s' = set_node a (RamFile c') s \<and>
    length c' = max (length c) (unat offset + length buf) \<and>
    (\<forall>i < length c'. c' ! i = (if unat offset \<le> i \<and> i < unat offset + length buf then buf ! (i - unat offset)
       else if i < length c then c ! i else 0))"
proof -
  obtain n c' where w: "file_write_at offset buf c = Ok (n, c')" and n: "n = length buf"
    and c': "c' = take (unat offset) (c @ replicate (unat offset - length c) 0) @ buf @ drop (unat offset + length buf) c"
    by (simp add: file_write_at_bytes [OF assms(2)])
  have "file_read_at offset buf' c' = Ok (length buf, buf)" by (rule file_read_write [OF assms(2,3) w])
  then have "vfs_read_at rand a offset buf' (set_node a (RamFile c') s) = (Ok (length buf, buf), set_node a (RamFile c') s)"
    by (simp add: vfs_read_at_def set_node_def)
  moreover have "length c' = max (length c) (unat offset + length buf)" by (simp add: c')
  moreover have "c' ! i = (if unat offset \<le> i \<and> i < unat offset + length buf then buf ! (i - unat offset)
       else if i < length c then c ! i else 0)" if "i < length c'" for i
    using that by (auto simp: c' nth_append min_def)
  ultimately show ?thesis using w n assms(1) by (auto simp: vfs_write_at_def)
qed

text \<open>
  \<open>read_dir\<close> fills the buffer with the entries \<open>.\<close>, \<open>..\<close> and the children in the order of their names,
  from the start index on, and returns how many there are, as long as every name fits into an entry.
\<close>

lemma read_dir_lists:
  assumes "vfs_ok s" and "nodes s a = Some n" and "as_dir n = Some d"
    and "\<forall>(name, c) \<in> set (dir_children d). length name \<le> 63" and "unat start_idx + length buf < 2 ^ 64"
  shows "vfs_read_dir s a start_idx buf =
    (let ls = take (length buf) (drop (unat start_idx) (map entry_of (listing s d)))
     in Ok (length ls, ls @ drop (length ls) buf))"
proof -
  have "nodes s c \<noteq> None" if "(name, c) \<in> set (dir_children d)" for name c
    using vfs_okD(5) [OF assms(1), of a name c] assms(2) that as_dir_children [OF assms(3)] by (simp add: child_def)
  then have ch: "\<forall>(name, c) \<in> set (dir_children d). length name \<le> 63 \<and> nodes s c \<noteq> None" using assms(4) by auto
  have "unat (max start_idx 2 - 2) = unat start_idx - 2"
    by (simp add: max_def unat_sub word_le_nat_alt not_le)
  then show ?thesis
    using read_dir_loop_lists [OF refl _ ch refl, of start_idx 0 buf] assms(2,3,5) by (simp add: vfs_read_dir_def)
qed

lemma read_dir_loop_panics:
  assumes "\<exists>(name, c) \<in> set cs. length name > 63"
  shows "2 \<le> i \<Longrightarrow> i + length cs < 2 ^ 64 \<Longrightarrow> length cs \<le> length es \<Longrightarrow>
    \<forall>(name, c) \<in> set cs. nodes s c \<noteq> None \<Longrightarrow> read_dir_loop s 0 i cs es = Panic"
  using assms
proof (induction cs arbitrary: i es)
  case (Cons nc cs)
  obtain name c where nc: "nc = (name, c)" by (cases nc)
  obtain e es' where es: "es = e # es'" using Cons.prems(3) by (cases es) auto
  have "unat (of_nat i :: usize) = i" using Cons.prems(2) by (intro unat_of_nat_64) simp
  then have idx: "(of_nat i :: usize) \<noteq> 0" "(of_nat i :: usize) \<noteq> 1" using Cons.prems(1) by auto
  have attr: "vfs_get_attr s c = Ok (node_attr (the (nodes s c)))" using Cons.prems(4) by (auto simp: nc vfs_get_attr_def)
  show ?case
  proof (cases "length name > 63")
    case True
    then show ?thesis using idx attr by (simp add: es nc dirent_new_def D_NAME_LEN_def)
  next
    case False
    then have "read_dir_loop s 0 (Suc i) cs es' = Panic" using Cons by (intro Cons.IH) (auto simp: nc es)
    then show ?thesis using idx attr False by (simp add: es nc dirent_new_entry)
  qed
qed simp

text \<open>
  \<open>create\<close> accepts names of any length, but an entry has room for 63 bytes: listing a directory that
  has a longer name panics.
\<close>

lemma read_dir_panics:
  assumes "vfs_ok s" and "child s a name c" and "length name > 63" and "nodes s a = Some (RamDir d)"
    and "length (dir_children d) + 2 \<le> length buf" and "length buf < 2 ^ 64"
  shows "vfs_read_dir s a 0 buf = Panic"
proof -
  obtain e1 e2 es where buf: "buf = e1 # e2 # es" using assms(5) by (metis Suc_le_length_iff add_2_eq_Suc')
  have "nodes s x \<noteq> None" if "(q, x) \<in> set (dir_children d)" for q x
    using vfs_okD(5) [OF assms(1), of a q x] assms(4) that by (simp add: child_def)
  moreover have "(name, c) \<in> set (dir_children d)" using assms(2,4) by (simp add: child_def)
  ultimately have "read_dir_loop s 0 2 (dir_children d) es = Panic"
    using assms(3,5,6) buf by (intro read_dir_loop_panics) auto
  then show ?thesis
    using assms(4) by (simp add: vfs_read_dir_def buf dirent_new_entry eval_nat_numeral)
qed

text \<open>The sum of offset and length wraps: a read close to the end of the address space panics.\<close>

lemma read_at_panics:
  assumes "length buf < 2 ^ 64" and "2 ^ 64 \<le> unat offset + length buf" and "unat offset + length buf < 2 ^ 64 + length c"
  shows "file_read_at offset buf c = Panic"
proof -
  have "unat offset + length buf < 2 ^ 64 + 2 ^ 64" 
    using add_strict_mono [OF unsigned_less [of offset] assms(1)] by simp
  then have lt: "unat offset + length buf - 2 ^ 64 < 2 ^ 64" using assms(2) by linarith
  have "unat (offset + of_nat (length buf)) = unat offset + length buf - 2 ^ 64"
    using assms(1,2) mod_less [OF lt] le_mod_geq [of "2 ^ 64" "unat offset + length buf"]
    by (simp add: unat_word_ariths unat_of_nat)
  then have "unat (offset + of_nat (length buf)) < length c" "unat (offset + of_nat (length buf)) < unat offset"
    using assms by linarith+
  then show ?thesis by (simp add: file_read_at_def Let_def)
qed

end
