(* ===== verification/RootFs.thy ===== *)
theory RootFs
  imports VfsTheorems
begin

text \<open>
  \<open>modules/axfs/src/root.rs\<close> and \<open>mounts.rs\<close>: the root directory with its mount points, the current
  directory and the operations on paths. The file systems are those of \<open>Vfs\<close>; the main file system is
  one of them too, as with the feature \<open>myfs\<close> (FAT and ext4 are third-party code). A reference to a
  directory is the root directory itself or a node of a file system.
\<close>

subsection \<open>State\<close>

record MountPoint =
  mp_path :: string
  mp_fs :: FileSystem

datatype DirRef = RootRef | NodeRef addr

record 'r Fs =
  vfs :: "'r Vfs"
  main_fs :: FileSystem
  mounts :: "MountPoint list"
  current_dir_ref :: DirRef
  current_dir_path :: string

type_synonym ('r, 'a) fs_action = "('r Fs, 'a, AxError) action"

definition on_vfs :: "('r, 'a) vfs_action \<Rightarrow> ('r, 'a) fs_action" where
  "on_vfs m S = (case m (vfs S) of (r, s) \<Rightarrow> (r, S\<lparr>vfs := s\<rparr>))"

definition pure_res :: "('a, AxError) result \<Rightarrow> ('r, 'a) fs_action" where
  "pure_res r S = (r, S)"

definition starts_slash :: "string \<Rightarrow> bool" where "starts_slash p \<longleftrightarrow> take 1 p = ''/''"

definition ends_slash :: "string \<Rightarrow> bool" where "ends_slash p \<longleftrightarrow> p \<noteq> [] \<and> last p = slash"

definition trim_slashes :: "string \<Rightarrow> string" where
  "trim_slashes p = rev (dropWhile (\<lambda>c. c = slash) (rev (dropWhile (\<lambda>c. c = slash) p)))"

subsection \<open>Mount points\<close>

text \<open>The last owner of a file system is gone: its fields are dropped in order.\<close>

definition drop_fs :: "FileSystem \<Rightarrow> 'r Vfs \<Rightarrow> 'r Vfs" where
  "drop_fs fs s = release (fs_root fs) (case fs_parent fs of Some p \<Rightarrow> release p s | None \<Rightarrow> s)"

definition root_contains :: "string \<Rightarrow> 'r Fs \<Rightarrow> bool" where
  "root_contains path S \<longleftrightarrow> (\<exists>mp \<in> set (mounts S). mp_path mp = path)"

definition root_mount :: "string \<Rightarrow> FileSystem \<Rightarrow> ('r, unit) fs_action" where
  "root_mount path fs S =
     (let fail = (\<lambda>e S. (Err e, S\<lparr>vfs := drop_fs fs (vfs S)\<rparr>)) in
      if path = ''/'' then fail InvalidInput S
      else if \<not> starts_slash path then fail InvalidInput S
      else if root_contains path S then fail InvalidInput S
      else case on_vfs (vfs_create (fs_root (main_fs S)) path TyDir) S of
          (Ok _, S1) \<Rightarrow> (case vfs_lookup (vfs S1) (fs_root (main_fs S1)) path of
              Ok mount_point \<Rightarrow> (case fs_mount mount_point fs (vfs S1) of
                  (fs', s) \<Rightarrow> (Ok (), S1\<lparr>vfs := s, mounts := mounts S1 @ [\<lparr>mp_path = path, mp_fs = fs'\<rparr>]\<rparr>))
            | Err e \<Rightarrow> fail e S1
            | Panic \<Rightarrow> (Panic, S1)
            | Diverge \<Rightarrow> (Diverge, S1))
        | (Err e, S1) \<Rightarrow> fail e S1
        | (Panic, S1) \<Rightarrow> (Panic, S1)
        | (Diverge, S1) \<Rightarrow> (Diverge, S1))"

definition root_umount :: "string \<Rightarrow> 'r Fs \<Rightarrow> 'r Fs" where
  "root_umount path S =
     S\<lparr>mounts := filter (\<lambda>mp. mp_path mp \<noteq> path) (mounts S),
       vfs := fold (drop_fs \<circ> mp_fs) (filter (\<lambda>mp. mp_path mp = path) (mounts S)) (vfs S)\<rparr>"

text \<open>The loop of \<open>lookup_mounted_fs\<close>: \<open>i\<close> is the index of the first of \<open>mps\<close>.\<close>

definition mount_matches :: "string \<Rightarrow> MountPoint \<Rightarrow> bool" where
  "mount_matches path mp \<longleftrightarrow>
     (let prev = tl (mp_path mp) @ ''/'' in
      take (length (tl (mp_path mp))) path = tl (mp_path mp) \<and>
      (length path = length prev - 1 \<or> take (length prev) path = prev))"

fun scan_mounts :: "string \<Rightarrow> nat \<Rightarrow> MountPoint list \<Rightarrow> nat \<times> nat \<Rightarrow> nat \<times> nat" where
  "scan_mounts path i [] best = best"
| "scan_mounts path i (mp # mps) (idx, max_len) =
     (if mount_matches path mp \<and> length (tl (mp_path mp) @ ''/'') > max_len
      then scan_mounts path (Suc i) mps (i, length (mp_path mp) - 1)
      else scan_mounts path (Suc i) mps (idx, max_len))"

lemma length_trim_slashes: "length (trim_slashes p) \<le> length p"
  unfolding trim_slashes_def by (metis length_dropWhile_le length_rev order_trans)

function lookup_mounted_fs :: "FileSystem \<Rightarrow> MountPoint list \<Rightarrow> string \<Rightarrow> FileSystem \<times> string" where
  "lookup_mounted_fs main mps path =
     (let p = trim_slashes path in
      if take 2 p = ''./'' then lookup_mounted_fs main mps (drop 2 p)
      else case scan_mounts p 0 mps (0, 0) of
          (idx, max_len) \<Rightarrow> if max_len = 0 then (main, p) else (mp_fs (mps ! idx), drop max_len p))"
  by pat_completeness auto
termination
proof (relation "measure (\<lambda>(main, mps, path). length path)")
  fix main :: FileSystem and mps :: "MountPoint list" and path p
  assume p: "p = trim_slashes path" "take 2 p = ''./''"
  then have "length p \<ge> 2" by (metis length_Cons length_take list.size(3) min.absorb_iff2 nat_le_linear numeral_2_eq_2 take_all)
  then show "((main, mps, drop 2 p), main, mps, path) \<in> measure (\<lambda>(main, mps, path). length path)"
    using length_trim_slashes [of path] p(1) by simp
qed simp

declare lookup_mounted_fs.simps [simp del]

subsection \<open>The root directory as a node\<close>

definition at_root :: "string \<Rightarrow> 'r Fs \<Rightarrow> FileSystem \<times> string" where
  "at_root path S = lookup_mounted_fs (main_fs S) (mounts S) path"

definition root_lookup :: "string \<Rightarrow> 'r Fs \<Rightarrow> (addr, AxError) result" where
  "root_lookup path S = (case at_root path S of (fs, rest) \<Rightarrow> vfs_lookup (vfs S) (fs_root fs) rest)"

definition root_create :: "string \<Rightarrow> VfsNodeType \<Rightarrow> ('r, unit) fs_action" where
  "root_create path ty S = (case at_root path S of (fs, rest) \<Rightarrow>
     if rest = [] then (Ok (), S) else on_vfs (vfs_create (fs_root fs) rest ty) S)"

definition root_remove :: "string \<Rightarrow> ('r, unit) fs_action" where
  "root_remove path S = (case at_root path S of (fs, rest) \<Rightarrow>
     if rest = [] then (Err PermissionDenied, S) else on_vfs (vfs_remove (fs_root fs) rest) S)"

text \<open>Neither file system implements \<open>rename\<close>: the default of the trait refuses it.\<close>

definition root_rename :: "string \<Rightarrow> string \<Rightarrow> ('r, unit) fs_action" where
  "root_rename src dst S = (case at_root src S of (fs, rest) \<Rightarrow>
     if rest = [] then (Err PermissionDenied, S) else (Err Unsupported, S))"

fun ref_lookup :: "DirRef \<Rightarrow> string \<Rightarrow> 'r Fs \<Rightarrow> (addr, AxError) result" where
  "ref_lookup RootRef path S = root_lookup path S"
| "ref_lookup (NodeRef a) path S = vfs_lookup (vfs S) a path"

fun ref_create :: "DirRef \<Rightarrow> string \<Rightarrow> VfsNodeType \<Rightarrow> ('r, unit) fs_action" where
  "ref_create RootRef path ty = root_create path ty"
| "ref_create (NodeRef a) path ty = on_vfs (vfs_create a path ty)"

fun ref_remove :: "DirRef \<Rightarrow> string \<Rightarrow> ('r, unit) fs_action" where
  "ref_remove RootRef path = root_remove path"
| "ref_remove (NodeRef a) path = on_vfs (vfs_remove a path)"

fun ref_rename :: "DirRef \<Rightarrow> string \<Rightarrow> string \<Rightarrow> ('r, unit) fs_action" where
  "ref_rename RootRef src dst = root_rename src dst"
| "ref_rename (NodeRef a) src dst = (\<lambda>S. (Err Unsupported, S))"

subsection \<open>Operations on paths\<close>

definition parent_node_of :: "DirRef option \<Rightarrow> string \<Rightarrow> 'r Fs \<Rightarrow> DirRef" where
  "parent_node_of dir path S =
     (if starts_slash path then RootRef else case dir of Some d \<Rightarrow> d | None \<Rightarrow> current_dir_ref S)"

definition absolute_path :: "string \<Rightarrow> 'r Fs \<Rightarrow> (string, AxError) result" where
  "absolute_path path S =
     unwrap (if starts_slash path then canonicalize path else canonicalize (current_dir_path S @ path))"

definition fs_lookup :: "DirRef option \<Rightarrow> string \<Rightarrow> 'r Fs \<Rightarrow> (addr, AxError) result" where
  "fs_lookup dir path S =
     (if path = [] then Err NotFound
      else res_bind (ref_lookup (parent_node_of dir path S) path S) (\<lambda>node.
        if \<not> ends_slash path then Ok node
        else res_bind (vfs_get_attr (vfs S) node) (\<lambda>attr. if \<not> attr_is_dir attr then Err NotADirectory else Ok node)))"

definition create_file :: "DirRef option \<Rightarrow> string \<Rightarrow> ('r, addr) fs_action" where
  "create_file dir path S =
     (if path = [] then (Err NotFound, S)
      else if ends_slash path then (Err NotADirectory, S)
      else let parent = parent_node_of dir path S in
        and_then (ref_create parent path TyFile) (\<lambda>_ S1. (ref_lookup parent path S1, S1)) S)"

definition create_dir :: "DirRef option \<Rightarrow> string \<Rightarrow> ('r, unit) fs_action" where
  "create_dir dir path S = (case fs_lookup dir path S of
      Ok _ \<Rightarrow> (Err AlreadyExists, S)
    | Err NotFound \<Rightarrow> ref_create (parent_node_of dir path S) path TyDir S
    | Err e \<Rightarrow> (Err e, S)
    | Panic \<Rightarrow> (Panic, S)
    | Diverge \<Rightarrow> (Diverge, S))"

definition remove_file :: "DirRef option \<Rightarrow> string \<Rightarrow> ('r, unit) fs_action" where
  "remove_file dir path S =
     and_then (\<lambda>S. pure_res (res_bind (fs_lookup dir path S) (vfs_get_attr (vfs S))) S) (\<lambda>attr S.
       if attr_is_dir attr then (Err IsADirectory, S)
       else if \<not> owner_writable (attr_mode attr) then (Err PermissionDenied, S)
       else ref_remove (parent_node_of dir path S) path S) S"

definition ends_with :: "string \<Rightarrow> string \<Rightarrow> bool" where
  "ends_with p suf \<longleftrightarrow> take (length suf) (rev p) = rev suf"

definition remove_dir :: "DirRef option \<Rightarrow> string \<Rightarrow> ('r, unit) fs_action" where
  "remove_dir dir path S =
     (if path = [] then (Err NotFound, S)
      else let path_check = trim_slashes path in
        if path_check = [] then (Err DirectoryNotEmpty, S)
        else if path_check = ''.'' \<or> path_check = ''..'' \<or> ends_with path_check ''/.'' \<or> ends_with path_check ''/..''
        then (Err InvalidInput, S)
        else and_then (\<lambda>S. pure_res (absolute_path path S) S) (\<lambda>abs S.
          if root_contains abs S then (Err PermissionDenied, S)
          else and_then (\<lambda>S. pure_res (res_bind (fs_lookup dir path S) (vfs_get_attr (vfs S))) S) (\<lambda>attr S.
            if \<not> attr_is_dir attr then (Err NotADirectory, S)
            else if \<not> owner_writable (attr_mode attr) then (Err PermissionDenied, S)
            else ref_remove (parent_node_of dir path S) path S) S) S)"

text \<open>The reference to the old current directory is dropped when another one takes its place.\<close>

fun hold_ref :: "DirRef \<Rightarrow> 'r Vfs \<Rightarrow> 'r Vfs" where
  "hold_ref RootRef s = s"
| "hold_ref (NodeRef a) s = hold a s"

fun release_ref :: "DirRef \<Rightarrow> 'r Vfs \<Rightarrow> 'r Vfs" where
  "release_ref RootRef s = s"
| "release_ref (NodeRef a) s = release a s"

definition change_dir :: "DirRef \<Rightarrow> string \<Rightarrow> 'r Fs \<Rightarrow> 'r Fs" where
  "change_dir d path S =
     S\<lparr>vfs := release_ref (current_dir_ref S) (hold_ref d (vfs S)), current_dir_ref := d, current_dir_path := path\<rparr>"

definition set_current_dir :: "string \<Rightarrow> ('r, unit) fs_action" where
  "set_current_dir path S =
     and_then (\<lambda>S. pure_res (absolute_path path S) S) (\<lambda>abs S.
       let abs_path = (if \<not> ends_slash abs then abs @ ''/'' else abs) in
       if abs_path = ''/'' then (Ok (), change_dir RootRef ''/'' S)
       else and_then (\<lambda>S. pure_res (fs_lookup None abs_path S) S) (\<lambda>node S.
         and_then (\<lambda>S. pure_res (vfs_get_attr (vfs S) node) S) (\<lambda>attr S.
           if \<not> attr_is_dir attr then (Err NotADirectory, S)
           else if \<not> owner_executable (attr_mode attr) then (Err PermissionDenied, S)
           else (Ok (), change_dir (NodeRef node) abs_path S)) S) S) S"

definition fs_rename :: "string \<Rightarrow> string \<Rightarrow> ('r, unit) fs_action" where
  "fs_rename old new S =
     and_then (if is_ok (ref_lookup (parent_node_of None new S) new S) then remove_file None new else (\<lambda>S. (Ok (), S)))
       (\<lambda>_ S. ref_rename (parent_node_of None old S) old new S) S"

subsection \<open>The file systems mounted at boot: \<open>mounts.rs\<close>\<close>

fun create_all :: "addr \<Rightarrow> (string \<times> VfsNodeType) list \<Rightarrow> ('r, unit) vfs_action" where
  "create_all a [] s = (Ok (), s)"
| "create_all a ((path, ty) # ps) s = and_then (vfs_create a path ty) (\<lambda>_. create_all a ps) s"

definition write_path :: "addr \<Rightarrow> string \<Rightarrow> string \<Rightarrow> ('r, unit) vfs_action" where
  "write_path a path content =
     and_then (\<lambda>s. (vfs_lookup s a path, s)) (\<lambda>f. and_then (vfs_write_at f 0 (map of_char content)) (\<lambda>_ s. (Ok (), s)))"

definition dev_add_new :: "addr \<Rightarrow> string \<Rightarrow> 'r Node \<Rightarrow> ('r, unit) vfs_action" where
  "dev_add_new a name n s = (case alloc_node n s of (c, s1) \<Rightarrow> dev_add a name c s1)"

text \<open>\<open>rng0\<close> is the generator seeded with zeros.\<close>

definition devfs :: "'r \<Rightarrow> ('r, FileSystem) vfs_action" where
  "devfs rng0 s = (case devfs_new s of (fs, s0) \<Rightarrow>
     and_then (dev_mkdir (fs_root fs) ''foo'') (\<lambda>foo_dir.
     and_then (dev_add_new (fs_root fs) ''null'' NullDev) (\<lambda>_.
     and_then (dev_add_new (fs_root fs) ''zero'' ZeroDev) (\<lambda>_.
     and_then (dev_add_new foo_dir ''bar'' ZeroDev) (\<lambda>_.
     and_then (dev_add_new (fs_root fs) ''random'' (RandomDev rng0)) (\<lambda>_.
     and_then (dev_add_new (fs_root fs) ''urandom'' (RandomDev rng0)) (\<lambda>_.
     and_then (dev_mkdir (fs_root fs) ''shm'') (\<lambda>shm_dir.
     and_then (dev_add_new shm_dir ''testshm'' (RamFile [])) (\<lambda>_.
     and_then (dev_mkdir (fs_root fs) ''misc'') (\<lambda>rtc_dir.
     and_then (dev_add_new rtc_dir ''rtc'' (RamFile [])) (\<lambda>_ s.
       (Ok fs, s))))))))))) s0)"

definition procfs :: "('r, FileSystem) vfs_action" where
  "procfs s = (case ramfs_new s of (fs, s0) \<Rightarrow>
     and_then (create_all (fs_root fs) [(''sys'', TyDir), (''sys/net'', TyDir), (''sys/net/core'', TyDir),
        (''sys/net/core/somaxconn'', TyFile)]) (\<lambda>_.
     and_then (write_path (fs_root fs) ''./sys/net/core/somaxconn'' (''4096'' @ [CHR 0x0A])) (\<lambda>_.
     and_then (create_all (fs_root fs) [(''sys/vm'', TyDir), (''sys/vm/overcommit_memory'', TyFile)]) (\<lambda>_.
     and_then (write_path (fs_root fs) ''./sys/vm/overcommit_memory'' (''0'' @ [CHR 0x0A])) (\<lambda>_.
     and_then (create_all (fs_root fs) [(''self'', TyDir), (''self/stat'', TyFile), (''self/exe'', TyFile),
        (''meminfo'', TyFile), (''mounts'', TyFile), (''interrupts'', TyFile)]) (\<lambda>_ s.
       (Ok fs, s)))))) s0)"

fun sysfs_cpus :: "addr \<Rightarrow> nat list \<Rightarrow> ('r, unit) vfs_action" where
  "sysfs_cpus a [] s = (Ok (), s)"
| "sysfs_cpus a (cpu_id # ids) s =
     (let path = ''devices/system/cpu/cpu'' @ decimal cpu_id in
      and_then (create_all a [(path, TyDir), (path @ ''/online'', TyFile)]) (\<lambda>_.
      and_then (write_path a (path @ ''/online'') ''1'') (\<lambda>_. sysfs_cpus a ids)) s)"

definition sysfs :: "nat \<Rightarrow> ('r, FileSystem) vfs_action" where
  "sysfs smp s = (case ramfs_new s of (fs, s0) \<Rightarrow>
     and_then (create_all (fs_root fs) [(''kernel'', TyDir), (''kernel/mm'', TyDir), (''kernel/mm/transparent_hugepage'', TyDir),
        (''kernel/mm/transparent_hugepage/enabled'', TyFile)]) (\<lambda>_.
     and_then (write_path (fs_root fs) ''./kernel/mm/transparent_hugepage/enabled'' (''always [madvise] never'' @ [CHR 0x0A])) (\<lambda>_.
     and_then (create_all (fs_root fs) [(''devices'', TyDir), (''devices/system'', TyDir), (''devices/system/clocksource'', TyDir),
        (''devices/system/clocksource/clocksource0'', TyDir),
        (''devices/system/clocksource/clocksource0/current_clocksource'', TyFile)]) (\<lambda>_.
     and_then (write_path (fs_root fs) ''devices/system/clocksource/clocksource0/current_clocksource'' (''tsc'' @ [CHR 0x0A])) (\<lambda>_.
     and_then (create_all (fs_root fs) [(''devices/system/cpu'', TyDir), (''devices/system/cpu/online'', TyFile)]) (\<lambda>_.
     and_then (write_path (fs_root fs) ''devices/system/cpu/online'' (''0-'' @ decimal (smp - 1))) (\<lambda>_.
     and_then (sysfs_cpus (fs_root fs) [0..<smp]) (\<lambda>_ s.
       (Ok fs, s)))))))) s0)"

definition mount_new :: "string \<Rightarrow> ('r, FileSystem) vfs_action \<Rightarrow> ('r, unit) fs_action" where
  "mount_new path mk = and_then (unwrap_act (on_vfs mk)) (\<lambda>fs. unwrap_act (root_mount path fs))"

definition init_rootfs :: "'r \<Rightarrow> nat \<Rightarrow> FileSystem \<Rightarrow> 'r Vfs \<Rightarrow> (unit, AxError) result \<times> 'r Fs" where
  "init_rootfs rng0 smp main s =
     and_then (mount_new ''/dev'' (devfs rng0)) (\<lambda>_.
     and_then (mount_new ''/tmp'' (\<lambda>s. case ramfs_new s of (fs, s1) \<Rightarrow> (Ok fs, s1))) (\<lambda>_.
     and_then (mount_new ''/var'' (\<lambda>s. case ramfs_new s of (fs, s1) \<Rightarrow> (Ok fs, s1))) (\<lambda>_.
     and_then (mount_new ''/proc'' procfs) (\<lambda>_.
       mount_new ''/sys'' (sysfs smp)))))
     \<lparr>vfs = s, main_fs = main, mounts = [], current_dir_ref = RootRef, current_dir_path = ''/''\<rparr>"

end
