(* ===== verification/RootFsCorrect.thy ===== *)
theory RootFsCorrect
  imports RootFs
begin

text \<open>
  The root directory: which file system serves a path, that the references kept by mount points and by
  the current directory keep every node alive that a path can lead to, and two behaviours of paths
  across file systems.
\<close>

subsection \<open>The longest mount point\<close>

text \<open>A mount point covers a path when its components begin the path.\<close>

definition covers :: "MountPoint \<Rightarrow> string \<Rightarrow> bool" where
  "covers mp p \<longleftrightarrow> (\<exists>rest. p = tl (mp_path mp) @ rest \<and> (rest = [] \<or> hd rest = slash))"

lemma mount_matches_covers: "mount_matches p mp \<longleftrightarrow> covers mp p"
proof
  let ?m = "tl (mp_path mp)"
  assume a: "mount_matches p mp"
  have p: "p = ?m @ drop (length ?m) p" using a append_take_drop_id [of "length ?m" p] by (simp add: mount_matches_def Let_def)
  have "drop (length ?m) p = [] \<or> hd (drop (length ?m) p) = slash"
  proof (cases "length p = length ?m")
    case False
    then have "take (length (?m @ ''/'')) p = ?m @ ''/''" using a by (simp add: mount_matches_def Let_def)
    then have "take 1 (drop (length ?m) p) = ''/''" by (subst (asm) p) (simp add: take_add)
    then show ?thesis by (cases "drop (length ?m) p") auto
  qed simp
  then show "covers mp p" unfolding covers_def using p by blast
next
  assume "covers mp p"
  then obtain rest where "p = tl (mp_path mp) @ rest" "rest = [] \<or> hd rest = slash" by (auto simp: covers_def)
  then show "mount_matches p mp" by (cases rest) (auto simp: mount_matches_def Let_def)
qed

lemma scan_mounts_best:
  assumes "\<forall>mp \<in> set all. 2 \<le> length (mp_path mp)" and "all = done @ mps" and "length done = i"
    and "(\<forall>mp \<in> set done. \<not> covers mp p) \<and> max_len = 0 \<or>
      idx < i \<and> covers (all ! idx) p \<and> max_len = length (mp_path (all ! idx)) - 1 \<and>
      (\<forall>mp \<in> set done. covers mp p \<longrightarrow> length (mp_path mp) \<le> length (mp_path (all ! idx)))"
    and "scan_mounts p i mps (idx, max_len) = (idx', max_len')"
  shows "(\<forall>mp \<in> set all. \<not> covers mp p) \<and> max_len' = 0 \<or>
      idx' < length all \<and> covers (all ! idx') p \<and> max_len' = length (mp_path (all ! idx')) - 1 \<and> max_len' > 0 \<and>
      (\<forall>mp \<in> set all. covers mp p \<longrightarrow> length (mp_path mp) \<le> length (mp_path (all ! idx')))"
  using assms(2-5)
proof (induction mps arbitrary: "done" i idx max_len)
  case Nil
  have "idx < length all \<longrightarrow> 2 \<le> length (mp_path (all ! idx))" using assms(1) by simp
  then show ?case using Nil by auto
next
  case (Cons mp mps)
  have mem: "mp \<in> set all" "all ! i = mp" using Cons.prems(1,2) by (auto simp: nth_append)
  have long: "2 \<le> length (mp_path mp)" "2 \<le> length (mp_path (all ! idx)) \<or> \<not> idx < i"
    using assms(1) mem Cons.prems(1,2) nth_mem [of idx all] by auto
  let ?new = "mount_matches p mp \<and> length (tl (mp_path mp) @ ''/'') > max_len"
  show ?case
  proof (cases ?new)
    case True
    then have "scan_mounts p (Suc i) mps (i, length (mp_path mp) - 1) = (idx', max_len')" using Cons.prems(4) by simp
    moreover have "\<forall>m \<in> set (done @ [mp]). covers m p \<longrightarrow> length (mp_path m) \<le> length (mp_path mp)"
      using Cons.prems(3) True long by (auto simp: mount_matches_covers)
    ultimately show ?thesis
      using Cons.IH [of "done @ [mp]" "Suc i" "length (mp_path mp) - 1" i] Cons.prems(1,2) True mem long(1)
      by (simp add: mount_matches_covers)
  next
    case False
    then have "scan_mounts p (Suc i) mps (idx, max_len) = (idx', max_len')" using Cons.prems(4) by auto
    moreover have "(\<forall>m \<in> set (done @ [mp]). \<not> covers m p) \<and> max_len = 0 \<or>
      idx < Suc i \<and> covers (all ! idx) p \<and> max_len = length (mp_path (all ! idx)) - 1 \<and>
      (\<forall>m \<in> set (done @ [mp]). covers m p \<longrightarrow> length (mp_path m) \<le> length (mp_path (all ! idx)))"
      using Cons.prems(3) False long by (auto simp: mount_matches_covers)
    ultimately show ?thesis using Cons.IH [of "done @ [mp]" "Suc i" max_len idx] Cons.prems(1,2) by simp
  qed
qed

lemma lookup_mounted_best:
  assumes "\<forall>mp \<in> set mps. 2 \<le> length (mp_path mp)" and "trim_slashes path = path" and "take 2 path \<noteq> ''./''"
    and "lookup_mounted_fs main mps path = (fs, rest)"
  shows "(\<forall>mp \<in> set mps. \<not> covers mp path) \<and> fs = main \<and> rest = path \<or>
    (\<exists>mp \<in> set mps. covers mp path \<and> fs = mp_fs mp \<and> path = tl (mp_path mp) @ rest \<and>
       (\<forall>mp' \<in> set mps. covers mp' path \<longrightarrow> length (mp_path mp') \<le> length (mp_path mp)))"
proof -
  obtain idx max_len where sc: "scan_mounts path 0 mps (0, 0) = (idx, max_len)" by (cases "scan_mounts path 0 mps (0, 0)")
  have res: "(fs, rest) = (if max_len = 0 then (main, path) else (mp_fs (mps ! idx), drop max_len path))"
    using assms(2-4) sc by (simp add: lookup_mounted_fs.simps [of main mps path])
  have best: "(\<forall>mp \<in> set mps. \<not> covers mp path) \<and> max_len = 0 \<or>
      idx < length mps \<and> covers (mps ! idx) path \<and> max_len = length (mp_path (mps ! idx)) - 1 \<and> max_len > 0 \<and>
      (\<forall>mp \<in> set mps. covers mp path \<longrightarrow> length (mp_path mp) \<le> length (mp_path (mps ! idx)))"
    using scan_mounts_best [OF assms(1), of "[]" mps 0 path 0 0 idx max_len] sc by simp
  then show ?thesis
  proof
    assume b: "idx < length mps \<and> covers (mps ! idx) path \<and> max_len = length (mp_path (mps ! idx)) - 1 \<and> max_len > 0 \<and>
      (\<forall>mp \<in> set mps. covers mp path \<longrightarrow> length (mp_path mp) \<le> length (mp_path (mps ! idx)))"
    then have "path = tl (mp_path (mps ! idx)) @ drop max_len path" by (auto simp: covers_def)
    then show ?thesis using b res nth_mem [of idx mps] by auto
  qed (use res in auto)
qed

subsection \<open>References keep nodes alive\<close>

definition fs_owned :: "FileSystem \<Rightarrow> addr list" where
  "fs_owned fs = fs_root fs # (case fs_parent fs of Some p \<Rightarrow> [p] | None \<Rightarrow> [])"

definition fs_refs :: "'r Fs \<Rightarrow> addr list" where
  "fs_refs S = fs_owned (main_fs S) @ concat (map (fs_owned \<circ> mp_fs) (mounts S)) @
     (case current_dir_ref S of NodeRef a \<Rightarrow> [a] | RootRef \<Rightarrow> [])"

definition fs_ok :: "'r Fs \<Rightarrow> bool" where
  "fs_ok S \<longleftrightarrow> vfs_ok (vfs S) \<and> (\<forall>a. count_list (fs_refs S) a \<le> held (vfs S) a)"

lemma fs_ok_held: "fs_ok S \<Longrightarrow> a \<in> set (fs_refs S) \<Longrightarrow> held (vfs S) a > 0"
  by (metis count_list_0_iff fs_ok_def gr0I le_zero_eq)

lemma vfs_create_held: "vfs_create a path ty s = (r, s') \<Longrightarrow> held s' = held s"
  using vfs_create_outcome [of a path ty s r s']
  by (auto simp: ram_create_node_def alloc_node_def set_node_def split: if_splits)

lemma vfs_remove_held: "vfs_ok s \<Longrightarrow> vfs_remove a path s = (r, s') \<Longrightarrow> held s' = held s"
  using vfs_remove_outcome [of a path s r s'] ram_remove_node_links(4) by blast

lemma on_vfs_ok:
  assumes "fs_ok S" and "on_vfs m S = (r, S')" and "\<And>r s'. m (vfs S) = (r, s') \<Longrightarrow> vfs_ok s' \<and> held s' = held (vfs S)"
  shows "fs_ok S'"
  using assms(1,2) assms(3) [of _ "vfs S'"]
  by (auto simp: on_vfs_def fs_ok_def fs_refs_def split: prod.splits)

lemma ref_create_ok: "fs_ok S \<Longrightarrow> ref_create d path ty S = (r, S') \<Longrightarrow> fs_ok S'"
  using on_vfs_ok [of S] vfs_create_ok vfs_create_held
  by (cases d) (fastforce simp: root_create_def fs_ok_def split: prod.splits if_splits)+

lemma ref_remove_ok: "fs_ok S \<Longrightarrow> ref_remove d path S = (r, S') \<Longrightarrow> fs_ok S'"
  using on_vfs_ok [of S] vfs_remove_ok vfs_remove_held
  by (cases d) (fastforce simp: root_remove_def fs_ok_def split: prod.splits if_splits)+

text \<open>An action keeps a property of the state, whatever its outcome.\<close>

definition keeps :: "('s \<Rightarrow> bool) \<Rightarrow> ('s, 'a, 'e) action \<Rightarrow> bool" where
  "keeps P m \<longleftrightarrow> (\<forall>s. P s \<longrightarrow> P (snd (m s)))"

lemma keepsI: "(\<And>s r t. P s \<Longrightarrow> m s = (r, t) \<Longrightarrow> P t) \<Longrightarrow> keeps P m"
  by (metis keeps_def prod.collapse)

lemma keepsD: "keeps P m \<Longrightarrow> P s \<Longrightarrow> m s = (r, t) \<Longrightarrow> P t"
  by (metis keeps_def snd_conv)

lemma keeps_snd: "keeps P m \<Longrightarrow> P s \<Longrightarrow> P (snd (m s))"
  by (simp add: keeps_def)

lemma keeps_and_then [intro]: "keeps P m \<Longrightarrow> (\<And>a. keeps P (f a)) \<Longrightarrow> keeps P (and_then m f)"
  by (fastforce simp: keeps_def and_then_def split: prod.splits result.splits)

lemma keeps_pure [simp]: "keeps P (\<lambda>s. (r s, s))" "keeps P (\<lambda>S. pure_res (q S) S)"
  by (simp_all add: keeps_def pure_res_def)

lemma keeps_if [intro]: "keeps P m \<Longrightarrow> keeps P n \<Longrightarrow> keeps P (\<lambda>s. if b s then m s else n s)"
  by (simp add: keeps_def)

lemma keeps_ref_create: "keeps fs_ok (\<lambda>S. ref_create (d S) path ty S)"
  by (rule keepsI) (rule ref_create_ok)

lemma keeps_ref_remove: "keeps fs_ok (\<lambda>S. ref_remove (d S) path S)"
  by (rule keepsI) (rule ref_remove_ok)

lemma keeps_ref_rename: "keeps fs_ok (\<lambda>S. ref_rename (d S) old new S)"
proof (rule keepsI)
  fix S r S' assume "fs_ok S" "ref_rename (d S) old new S = (r, S')"
  then show "fs_ok S'" by (cases "d S") (auto simp: root_rename_def split: prod.splits if_splits)
qed

lemma keeps_remove_file: "keeps fs_ok (remove_file dir path)"
  unfolding remove_file_def
  by (intro keeps_and_then keeps_if keeps_pure keeps_ref_remove)

lemma walk_exists:
  assumes "vfs_ok s"
  shows "nodes s a \<noteq> None \<Longrightarrow> walk s a ps \<noteq> Panic \<and> walk s a ps \<noteq> Diverge \<and> (\<forall>e. walk s a ps = Ok e \<longrightarrow> nodes s e \<noteq> None)"
proof (induction ps arbitrary: a)
  case (Cons p ps)
  obtain n where n: "nodes s a = Some n" using Cons.prems by blast
  show ?case
  proof (cases "as_dir n")
    case (Some d)
    show ?thesis
    proof (cases "dir_next d a p s")
      case (Some c)
      have "nodes s c \<noteq> None"
      proof -
        have "nodes s c \<noteq> None" if "map_of (dir_children d) p = Some c"
          using that vfs_okD(5) [OF assms, of a p c] n as_dir_children [OF \<open>as_dir n = Some d\<close>]
          by (auto simp: child_def dest: map_of_SomeD)
        then show ?thesis using Some n by (auto simp: dir_next_def upgrade_def split: if_splits option.splits)
      qed
      then show ?thesis using Cons.IH [of c] n \<open>as_dir n = Some d\<close> Some by simp
    qed (use n Some in simp)
  qed (use n in simp)
qed simp

lemma fs_root_refs: "fs_ok S \<Longrightarrow> at_root path S = (fs, rest) \<Longrightarrow> held (vfs S) (fs_root fs) > 0"
proof -
  assume ok: "fs_ok S" and r: "at_root path S = (fs, rest)"
  have idx: "scan_mounts p i mps (idx, ml) = (idx', ml') \<Longrightarrow> ml' = 0 \<or> (idx' = idx \<and> ml' = ml) \<or> i \<le> idx' \<and> idx' < i + length mps" for p i mps idx ml idx' ml'
    by (induction mps arbitrary: i idx ml) (force split: if_splits)+
  have "lookup_mounted_fs main mps path = (fs, rest) \<Longrightarrow> fs = main \<or> fs \<in> mp_fs ` set mps" for main mps
  proof (induction main mps path rule: lookup_mounted_fs.induct)
    case (1 main mps path)
    show ?case
    proof (cases "take 2 (trim_slashes path) = ''./''")
      case False
      obtain i m where sc: "scan_mounts (trim_slashes path) 0 mps (0, 0) = (i, m)" by (cases "scan_mounts (trim_slashes path) 0 mps (0, 0)")
      show ?thesis using 1(2) False sc idx [OF sc] by (auto simp: lookup_mounted_fs.simps [of main mps path] Let_def split: if_splits)
    qed (use 1 in \<open>simp add: lookup_mounted_fs.simps [of main mps path] Let_def\<close>)
  qed
  then have "fs = main_fs S \<or> fs \<in> mp_fs ` set (mounts S)" using r by (simp add: at_root_def)
  then have "fs_root fs \<in> set (fs_refs S)" by (auto simp: fs_refs_def fs_owned_def)
  then show ?thesis by (rule fs_ok_held [OF ok])
qed

text \<open>A path never leads to a node that has been dropped.\<close>

lemma ref_lookup_exists:
  assumes ok: "fs_ok S" and d: "\<forall>a. d = NodeRef a \<longrightarrow> held (vfs S) a > 0"
  shows "ref_lookup d path S \<noteq> Panic \<and> ref_lookup d path S \<noteq> Diverge \<and> (\<forall>e. ref_lookup d path S = Ok e \<longrightarrow> nodes (vfs S) e \<noteq> None)"
proof -
  have vok: "vfs_ok (vfs S)" using ok by (simp add: fs_ok_def)
  obtain a p where a: "held (vfs S) a > 0" and l: "ref_lookup d path S = vfs_lookup (vfs S) a p"
  proof (cases d)
    case RootRef
    obtain fs rest where "at_root path S = (fs, rest)" by (cases "at_root path S")
    then show ?thesis using that [of "fs_root fs" rest] fs_root_refs [OF ok] RootRef by (simp add: root_lookup_def)
  qed (use that d in auto)
  show ?thesis using walk_exists [OF vok vfs_okD(9) [OF vok a]] by (simp add: l vfs_lookup_walk)
qed

lemma fs_lookup_exists:
  assumes "fs_ok S" and "\<forall>a. dir = Some (NodeRef a) \<longrightarrow> held (vfs S) a > 0"
  shows "fs_lookup dir path S \<noteq> Panic \<and> fs_lookup dir path S \<noteq> Diverge \<and> (\<forall>e. fs_lookup dir path S = Ok e \<longrightarrow> nodes (vfs S) e \<noteq> None)"
proof -
  have "\<forall>a. parent_node_of dir path S = NodeRef a \<longrightarrow> held (vfs S) a > 0"
    using assms fs_ok_held [OF assms(1)] by (auto simp: parent_node_of_def fs_refs_def split: option.splits if_splits)
  then show ?thesis
    using ref_lookup_exists [OF assms(1), of "parent_node_of dir path S" path]
    by (cases "ref_lookup (parent_node_of dir path S) path S") (auto simp: fs_lookup_def vfs_get_attr_def split: option.splits)
qed

lemma reap_held [simp]: "held (reap as s) = held s"
  by (induction as s rule: reap.induct) (simp_all add: reap.simps(2) split: option.splits)

lemma change_dir_ok:
  assumes ok: "fs_ok S" and d: "\<forall>a. d = NodeRef a \<longrightarrow> nodes (vfs S) a \<noteq> None"
  shows "fs_ok (change_dir d p S)"
proof -
  define base where "base = fs_owned (main_fs S) @ concat (map (fs_owned \<circ> mp_fs) (mounts S))"
  define ref where "ref = (\<lambda>d. case d of NodeRef a \<Rightarrow> [a] | RootRef \<Rightarrow> ([] :: addr list))"
  have vok: "vfs_ok (vfs S)" and cnt: "\<And>a. count_list (base @ ref (current_dir_ref S)) a \<le> held (vfs S) a"
    using ok by (simp_all add: fs_ok_def fs_refs_def base_def ref_def)
  define s1 where "s1 = hold_ref d (vfs S)"
  have h1: "held s1 a = held (vfs S) a + count_list (ref d) a" for a
    by (cases d) (simp_all add: s1_def hold_def ref_def)
  have ok1: "vfs_ok s1"
    using vok d vfs_step_ok [OF vok vfs_step.open_node] by (cases d) (simp_all add: s1_def)
  define s2 where "s2 = release_ref (current_dir_ref S) s1"
  have h2: "held s2 a = held s1 a - count_list (ref (current_dir_ref S)) a" for a
    by (cases "current_dir_ref S") (simp_all add: s2_def release_def ref_def)
  have "vfs_ok s2"
  proof (cases "current_dir_ref S")
    case (NodeRef b)
    then have "held s1 b > 0" using cnt [of b] h1 [of b] by (simp add: ref_def)
    then show ?thesis using vfs_step_ok [OF ok1 vfs_step.close_node] NodeRef by (simp add: s2_def)
  qed (use ok1 in \<open>simp add: s2_def\<close>)
  moreover have "count_list (base @ ref d) a \<le> held s2 a" for a
    using cnt [of a] h1 [of a] h2 [of a] by simp
  ultimately show ?thesis
    unfolding fs_ok_def fs_refs_def change_dir_def base_def [symmetric] s1_def [symmetric] s2_def [symmetric]
    by (simp add: base_def ref_def)
qed

lemma keeps_set_current_dir: "keeps fs_ok (set_current_dir path)"
proof (rule keepsI)
  fix S r S' assume ok: "fs_ok S" and run: "set_current_dir path S = (r, S')"
  have "nodes (vfs S) node \<noteq> None" if "fs_lookup None p S = Ok node" for p node
    using fs_lookup_exists [OF ok, of None p] that by simp
  then show "fs_ok S'"
    using ok run change_dir_ok [OF ok]
    by (auto simp: set_current_dir_def and_then_def pure_res_def Let_def split: result.splits if_splits)
qed

lemma keeps_create_file: "keeps fs_ok (create_file dir path)"
proof (rule keepsI)
  fix S r S' assume ok: "fs_ok S" and run: "create_file dir path S = (r, S')"
  then show "fs_ok S'"
    using ref_create_ok [OF ok]
    by (auto simp: create_file_def and_then_def Let_def split: prod.splits result.splits if_splits)
qed

lemma keeps_create_dir: "keeps fs_ok (create_dir dir path)"
proof (rule keepsI)
  fix S r S' assume ok: "fs_ok S" and run: "create_dir dir path S = (r, S')"
  then show "fs_ok S'" using ref_create_ok [OF ok] by (auto simp: create_dir_def split: result.splits AxError.splits)
qed

lemma keeps_remove_dir: "keeps fs_ok (remove_dir dir path)"
  unfolding remove_dir_def Let_def
  by (intro keeps_if keeps_and_then keeps_pure keeps_ref_remove)

lemma keeps_rename: "keeps fs_ok (fs_rename old new)"
proof (rule keepsI)
  fix S r S' assume ok: "fs_ok S" and run: "fs_rename old new S = (r, S')"
  let ?m = "if is_ok (ref_lookup (parent_node_of None new S) new S) then remove_file None new else (\<lambda>S. (Ok (), S))"
  have "keeps fs_ok ?m" by (simp add: keeps_remove_file)
  then have "keeps fs_ok (and_then ?m (\<lambda>_ S. ref_rename (parent_node_of None old S) old new S))"
    by (rule keeps_and_then) (rule keeps_ref_rename)
  then show "fs_ok S'" using ok run unfolding fs_rename_def by (rule keepsD)
qed

inductive fs_step :: "'r Fs \<Rightarrow> 'r Fs \<Rightarrow> bool" where
  create_file: "create_file None path S = (c, S') \<Longrightarrow> fs_step S S'"
| create_dir: "create_dir None path S = (r, S') \<Longrightarrow> fs_step S S'"
| remove_file: "remove_file None path S = (r, S') \<Longrightarrow> fs_step S S'"
| remove_dir: "remove_dir None path S = (r, S') \<Longrightarrow> fs_step S S'"
| set_current_dir: "set_current_dir path S = (r, S') \<Longrightarrow> fs_step S S'"
| rename: "fs_rename old new S = (r, S') \<Longrightarrow> fs_step S S'"

lemma fs_step_ok: "fs_step S S' \<Longrightarrow> fs_ok S \<Longrightarrow> fs_ok S'"
  by (induction rule: fs_step.induct)
    (auto dest: keepsD [OF keeps_create_file] keepsD [OF keeps_create_dir] keepsD [OF keeps_remove_file]
       keepsD [OF keeps_remove_dir] keepsD [OF keeps_set_current_dir] keepsD [OF keeps_rename])

lemma vfs_remove_error: "vfs_remove a path s = (r, s') \<Longrightarrow> r \<noteq> Err Unsupported"
proof -
  have last: "remove_last b n d p s = (r, s') \<Longrightarrow> r \<noteq> Err Unsupported" for b n d p
    by (auto simp: remove_last_def ram_remove_node_def split: Node.splits if_splits option.splits)
  have "at_dir remove_last a ps s = (r, s') \<Longrightarrow> r \<noteq> Err Unsupported" for ps
  proof (induction ps arbitrary: a)
    case (Cons p ps)
    then show ?case using last by (auto split: option.splits if_splits)
  qed simp
  then show "vfs_remove a path s = (r, s') \<Longrightarrow> r \<noteq> Err Unsupported" by (simp add: vfs_remove_at)
qed

subsection \<open>Examples\<close>

definition demo_root :: "unit Fs" where
  "demo_root = \<lparr>vfs = snd (ramfs_new vfs_empty), main_fs = fst (ramfs_new (vfs_empty :: unit Vfs)), mounts = [],
     current_dir_ref = RootRef, current_dir_path = ''/''\<rparr>"

lemma demo_root_ok: "fs_ok demo_root"
  using ramfs_new_ok
  by (auto simp: fs_ok_def demo_root_def fs_refs_def fs_owned_def ramfs_new_def vfs_empty_def alloc_node_def hold_def)

text \<open>The tree of \<open>demo_fs\<close> as main file system.\<close>

definition demo_files :: "unit Fs" where
  "demo_files = \<lparr>vfs = demo_fs, main_fs = \<lparr>fs_parent = None, fs_root = 0\<rparr>, mounts = [], current_dir_ref = RootRef,
     current_dir_path = ''/''\<rparr>"

lemma demo_files_ok: "fs_ok demo_files"
  using demo_fs_ok demo_fs_root by (auto simp: fs_ok_def demo_files_def fs_refs_def fs_owned_def)

lemma at_root_demo: "mounts S = [] \<Longrightarrow> at_root ''/f'' S = (main_fs S, ''f'')" "mounts S = [] \<Longrightarrow> at_root ''/a'' S = (main_fs S, ''a'')"
  by (simp_all add: at_root_def lookup_mounted_fs.simps trim_slashes_def)

text \<open>A second RAM file system mounted at \<open>/tmp\<close>.\<close>

definition demo_mounted :: "unit Fs" where
  "demo_mounted = snd (mount_new ''/tmp'' (\<lambda>s. case ramfs_new s of (fs, s1) \<Rightarrow> (Ok fs, s1)) demo_files)"

subsection \<open>Properties\<close>

text \<open>
  A path is served by the mounted file system whose mount point is the longest one that begins the
  path, with the rest of the path, and by the main file system when there is none.
\<close>

lemma mounted_fs_longest:
  assumes "\<forall>mp \<in> set (mounts S). 2 \<le> length (mp_path mp)" and "trim_slashes path = path" and "take 2 path \<noteq> ''./''"
    and "at_root path S = (fs, rest)"
  shows "(\<forall>mp \<in> set (mounts S). \<not> covers mp path) \<and> fs = main_fs S \<and> rest = path \<or>
    (\<exists>mp \<in> set (mounts S). covers mp path \<and> fs = mp_fs mp \<and> path = tl (mp_path mp) @ rest \<and>
       (\<forall>mp' \<in> set (mounts S). covers mp' path \<longrightarrow> length (mp_path mp') \<le> length (mp_path mp)))"
  using lookup_mounted_best [OF assms(1-3)] assms(4) by (simp add: at_root_def)

text \<open>
  C11: creating, removing and renaming files and directories and changing the current directory keep the
  file systems well formed and every node alive that a mount point or the current directory refers to;
  in particular resolving a path never meets a node that has been dropped.
\<close>

theorem fs_invariant:
  assumes "fs_ok S0" and "fs_step\<^sup>*\<^sup>* S0 S"
  shows "fs_ok S \<and> (\<forall>path. fs_lookup None path S \<noteq> Panic \<and> (\<forall>e. fs_lookup None path S = Ok e \<longrightarrow> nodes (vfs S) e \<noteq> None))"
proof -
  have "fs_ok S" using assms(2,1) by (induction rule: rtranclp_induct) (auto intro: fs_step_ok)
  then show ?thesis using fs_lookup_exists [of S None] by simp
qed

theorem fs_invariant_witness: "fs_ok (snd (set_current_dir ''/d'' (snd (create_dir None ''/d'' demo_root))))"
proof -
  have "fs_step demo_root (snd (create_dir None ''/d'' demo_root))"
    by (rule fs_step.create_dir [OF prod.collapse [symmetric]])
  moreover have "fs_step (snd (create_dir None ''/d'' demo_root)) (snd (set_current_dir ''/d'' (snd (create_dir None ''/d'' demo_root))))"
    by (rule fs_step.set_current_dir [OF prod.collapse [symmetric]])
  ultimately have "fs_step\<^sup>*\<^sup>* demo_root (snd (set_current_dir ''/d'' (snd (create_dir None ''/d'' demo_root))))" by simp
  then show ?thesis using fs_invariant [OF demo_root_ok] by blast
qed

text \<open>
  \<open>rename\<close> removes an existing target before it asks the file system to rename, which the RAM and the
  device file systems refuse: the call fails with \<open>Unsupported\<close> and the target is lost.
\<close>

lemma rename_loses_target:
  assumes "fs_ok S" and "starts_slash new" and "\<not> ends_slash new" and "root_lookup new S = Ok c"
    and "nodes (vfs S) c = Some (RamFile bytes)" and "fs_rename old new S = (r, S')"
  shows "r \<noteq> Ok () \<and> (r = Err Unsupported \<longrightarrow> root_lookup new S' = Err NotFound)"
proof -
  obtain fs rest where fs: "at_root new S = (fs, rest)" by (cases "at_root new S")
  obtain q S1 where rem: "remove_file None new S = (q, S1)" by (cases "remove_file None new S")
  have parent: "parent_node_of None new S = RootRef" using assms(2) by (simp add: parent_node_of_def)
  have "new \<noteq> []" using assms(2) by (auto simp: starts_slash_def)
  then have "fs_lookup None new S = Ok c" using assms(3,4) parent by (simp add: fs_lookup_def)
  then have rr: "root_remove new S = (q, S1)"
    using rem assms(5) parent
    by (simp add: remove_file_def and_then_def pure_res_def vfs_get_attr_def attr_new_file_def attr_is_dir_def
        owner_writable_def perm_contains_def default_file_def perm_truncate_def OWNER_READ_def OWNER_WRITE_def
        OWNER_EXEC_def GROUP_READ_def GROUP_WRITE_def GROUP_EXEC_def OTHER_READ_def OTHER_WRITE_def OTHER_EXEC_def)
  have run: "and_then (remove_file None new) (\<lambda>_ S. ref_rename (parent_node_of None old S) old new S) S = (r, S')"
    using assms(4,6) parent by (simp add: fs_rename_def)
  have ren: "ref_rename d old new S1 = (r, S') \<Longrightarrow> r \<noteq> Ok () \<and> S' = S1" for d
    by (cases d) (auto simp: root_rename_def split: prod.splits if_splits)
  have gone: "root_lookup new S1 = Err NotFound" if "q = Ok ()"
  proof -
    obtain r1 s1 where v1: "vfs_remove (fs_root fs) rest (vfs S) = (r1, s1)" by (cases "vfs_remove (fs_root fs) rest (vfs S)")
    have "rest \<noteq> []" using rr fs \<open>q = Ok ()\<close> by (auto simp: root_remove_def)
    then have S1: "S1 = S\<lparr>vfs := s1\<rparr>" and "r1 = Ok ()" using rr fs v1 \<open>q = Ok ()\<close> by (simp_all add: root_remove_def on_vfs_def)
    then have v: "vfs_remove (fs_root fs) rest (vfs S) = (Ok (), s1)" using v1 by simp
    have "vfs_lookup s1 (fs_root fs) rest = Err NotFound"
      using vfs_remove_spec [OF _ fs_root_refs [OF assms(1) fs] v] assms(1) by (auto simp: fs_ok_def)
    then show ?thesis using fs by (simp add: root_lookup_def at_root_def S1)
  qed
  have "q \<noteq> Err Unsupported"
    using rr fs vfs_remove_error [of "fs_root fs" rest "vfs S"] by (auto simp: root_remove_def on_vfs_def split: if_splits prod.splits)
  then show ?thesis
    using run rem ren gone by (cases q) (auto simp: and_then_def)
qed

text \<open>
  A path that leaves a mounted file system through \<open>..\<close> goes on in the main file system, where the
  other mount points are ordinary directories: it does not see what is mounted there.
\<close>

lemma dotdot_misses_mounts:
  assumes "at_root path S = (fs, ''/../'' @ q)" and "nodes (vfs S) (fs_root fs) = Some (RamDir d)"
    and "upgrade (dir_parent d) (vfs S) = Some (fs_root (main_fs S))"
  shows "root_lookup path S = vfs_lookup (vfs S) (fs_root (main_fs S)) q"
proof -
  have "split_slash (''/../'' @ q) = '''' # ''..'' # split_slash q" by simp
  then show ?thesis
    using assms by (simp add: root_lookup_def vfs_lookup_walk dir_next_def)
qed

end
