(* ===== verification/Fops.thy ===== *)
theory Fops
  imports RootFsCorrect Io
begin

text \<open>
  \<open>modules/axfs/src/fops.rs\<close> and \<open>crates/capability\<close>: open files and directories with their access rights
  and cursors, over the file systems of \<open>RootFs\<close>. An open file holds a reference to its node.
\<close>

subsection \<open>Capabilities: \<open>capability/src/lib.rs\<close>\<close>

type_synonym Cap = u32

definition CAP_READ :: Cap where "CAP_READ = 1"
definition CAP_WRITE :: Cap where "CAP_WRITE = 2"
definition CAP_EXECUTE :: Cap where "CAP_EXECUTE = 4"

definition cap_contains :: "Cap \<Rightarrow> Cap \<Rightarrow> bool" where
  "cap_contains c d \<longleftrightarrow> c AND d = d"

record 'a WithCap =
  wc_inner :: 'a
  wc_cap :: Cap

definition can_access :: "'a WithCap \<Rightarrow> Cap \<Rightarrow> bool" where
  "can_access w cap \<longleftrightarrow> cap_contains (wc_cap w) cap"

text \<open>\<open>CapError\<close> becomes \<open>PermissionDenied\<close> where it is returned.\<close>

definition access :: "'a WithCap \<Rightarrow> Cap \<Rightarrow> ('a, AxError) result" where
  "access w cap = (if can_access w cap then Ok (wc_inner w) else Err PermissionDenied)"

subsection \<open>Options\<close>

record OpenOptions =
  opt_read :: bool
  opt_write :: bool
  opt_append :: bool
  opt_truncate :: bool
  opt_create :: bool
  opt_create_new :: bool

definition OpenOptions_new :: OpenOptions where
  "OpenOptions_new = \<lparr>opt_read = False, opt_write = False, opt_append = False, opt_truncate = False,
     opt_create = False, opt_create_new = False\<rparr>"

definition is_valid :: "OpenOptions \<Rightarrow> bool" where
  "is_valid opts =
     (if \<not> opt_read opts \<and> \<not> opt_write opts \<and> \<not> opt_append opts then False
      else if opt_append opts then \<not> (opt_truncate opts \<and> \<not> opt_create_new opts)
      else if \<not> opt_write opts then \<not> (opt_truncate opts \<or> opt_create opts \<or> opt_create_new opts)
      else True)"

definition opts_cap :: "OpenOptions \<Rightarrow> Cap" where
  "opts_cap opts = (if opt_read opts then CAP_READ else 0) OR (if opt_write opts \<or> opt_append opts then CAP_WRITE else 0)"

definition perm_to_cap :: "u16 \<Rightarrow> Cap" where
  "perm_to_cap perm = (if owner_readable perm then CAP_READ else 0) OR (if owner_writable perm then CAP_WRITE else 0) OR
     (if owner_executable perm then CAP_EXECUTE else 0)"

subsection \<open>Files\<close>

record File =
  file_node :: "addr WithCap"
  is_append :: bool
  file_offset :: u64

text \<open>The node that the options ask for, created if need be.\<close>

definition open_node :: "DirRef option \<Rightarrow> string \<Rightarrow> OpenOptions \<Rightarrow> ('r, addr) fs_action" where
  "open_node dir path opts S =
     (if opt_create opts \<or> opt_create_new opts
      then (case fs_lookup dir path S of
          Ok node \<Rightarrow> if opt_create_new opts then (Err AlreadyExists, S) else (Ok node, S)
        | Err NotFound \<Rightarrow> create_file dir path S
        | Err e \<Rightarrow> (Err e, S)
        | Panic \<Rightarrow> (Panic, S)
        | Diverge \<Rightarrow> (Diverge, S))
      else (fs_lookup dir path S, S))"

definition file_open_at :: "DirRef option \<Rightarrow> string \<Rightarrow> OpenOptions \<Rightarrow> ('r, File) fs_action" where
  "file_open_at dir path opts S =
     (if \<not> is_valid opts then (Err InvalidInput, S)
      else and_then (open_node dir path opts) (\<lambda>node.
        and_then (\<lambda>S. pure_res (vfs_get_attr (vfs S) node) S) (\<lambda>attr S.
          if attr_is_dir attr \<and> (opt_create opts \<or> opt_create_new opts \<or> opt_write opts \<or> opt_append opts \<or> opt_truncate opts)
          then (Err IsADirectory, S)
          else if \<not> cap_contains (perm_to_cap (attr_mode attr)) (opts_cap opts) then (Err PermissionDenied, S)
          else and_then (if opt_truncate opts then on_vfs (vfs_truncate node 0) else (\<lambda>S. (Ok (), S)))
            (\<lambda>_ S. (Ok \<lparr>file_node = \<lparr>wc_inner = node, wc_cap = opts_cap opts\<rparr>, is_append = opt_append opts, file_offset = 0\<rparr>,
               S\<lparr>vfs := hold node (vfs S)\<rparr>)) S)) S)"

definition file_open :: "string \<Rightarrow> OpenOptions \<Rightarrow> ('r, File) fs_action" where
  "file_open path opts = file_open_at None path opts"

definition fops_get_attr :: "File \<Rightarrow> 'r Fs \<Rightarrow> (VfsNodeAttr, AxError) result" where
  "fops_get_attr f S = res_bind (access (file_node f) 0) (vfs_get_attr (vfs S))"

definition fops_truncate :: "File \<Rightarrow> u64 \<Rightarrow> ('r, unit) fs_action" where
  "fops_truncate f sz = and_then (pure_res (access (file_node f) CAP_WRITE)) (\<lambda>node. on_vfs (vfs_truncate node sz))"

text \<open>Methods with \<open>&mut self\<close> have the open file in their state.\<close>

type_synonym ('r, 'a) file_action = "(File \<times> 'r Fs, 'a, AxError) action"

definition in_fs :: "('r, 'a) fs_action \<Rightarrow> ('r, 'a) file_action" where
  "in_fs m fS = (case m (snd fS) of (r, S) \<Rightarrow> (r, (fst fS, S)))"

definition fops_read_at :: "('r \<Rightarrow> nat \<Rightarrow> u8 list \<times> 'r) \<Rightarrow> File \<Rightarrow> u64 \<Rightarrow> u8 list \<Rightarrow> ('r, nat \<times> u8 list) fs_action" where
  "fops_read_at rand f offset buf =
     and_then (pure_res (access (file_node f) CAP_READ)) (\<lambda>node. on_vfs (vfs_read_at rand node offset buf))"

definition fops_read :: "('r \<Rightarrow> nat \<Rightarrow> u8 list \<times> 'r) \<Rightarrow> u8 list \<Rightarrow> ('r, nat \<times> u8 list) file_action" where
  "fops_read rand buf fS =
     and_then (in_fs (fops_read_at rand (fst fS) (file_offset (fst fS)) buf)) (\<lambda>(n, buf') (f, S).
       (Ok (n, buf'), (f\<lparr>file_offset := file_offset f + of_nat n\<rparr>, S))) fS"

definition fops_write_at :: "File \<Rightarrow> u64 \<Rightarrow> u8 list \<Rightarrow> ('r, nat) fs_action" where
  "fops_write_at f offset buf =
     and_then (pure_res (access (file_node f) CAP_WRITE)) (\<lambda>node. on_vfs (vfs_write_at node offset buf))"

definition fops_write :: "u8 list \<Rightarrow> ('r, nat) file_action" where
  "fops_write buf fS =
     and_then (in_fs (pure_res (access (file_node (fst fS)) CAP_WRITE))) (\<lambda>node.
     and_then (\<lambda>(f, S). if is_append f
         then (case fops_get_attr f S of
             Ok attr \<Rightarrow> (Ok (), (f\<lparr>file_offset := attr_size attr\<rparr>, S))
           | Err e \<Rightarrow> (Err e, (f, S)) | Panic \<Rightarrow> (Panic, (f, S)) | Diverge \<Rightarrow> (Diverge, (f, S)))
         else (Ok (), (f, S))) (\<lambda>_ fS.
     and_then (in_fs (on_vfs (vfs_write_at node (file_offset (fst fS)) buf))) (\<lambda>n (f, S).
       (Ok n, (f\<lparr>file_offset := file_offset f + of_nat n\<rparr>, S))) fS)) fS"

text \<open>\<open>fsync\<close> is the default of the trait, or that of a directory.\<close>

definition vfs_fsync :: "'r Vfs \<Rightarrow> addr \<Rightarrow> (unit, AxError) result" where
  "vfs_fsync s a = (case nodes s a of
      Some n \<Rightarrow> if as_dir n = None then Err InvalidInput else Err IsADirectory
    | None \<Rightarrow> Panic)"

definition fops_flush :: "File \<Rightarrow> 'r Fs \<Rightarrow> (unit, AxError) result" where
  "fops_flush f S = res_bind (access (file_node f) CAP_WRITE) (vfs_fsync (vfs S))"

definition fops_seek :: "SeekFrom \<Rightarrow> ('r, u64) file_action" where
  "fops_seek pos fS =
     and_then (\<lambda>fS. (fops_get_attr (fst fS) (snd fS), fS)) (\<lambda>attr (f, S).
       case (case pos of
           SeekStart p \<Rightarrow> Some p
         | SeekCurrent off \<Rightarrow> checked_add_signed (file_offset f) off
         | SeekEnd off \<Rightarrow> checked_add_signed (attr_size attr) off) of
         None \<Rightarrow> (Err InvalidInput, (f, S))
       | Some new_offset \<Rightarrow> (Ok new_offset, (f\<lparr>file_offset := new_offset\<rparr>, S))) fS"

definition file_clone :: "File \<Rightarrow> 'r Fs \<Rightarrow> File \<times> 'r Fs" where
  "file_clone f S = (f, S\<lparr>vfs := hold (wc_inner (file_node f)) (vfs S)\<rparr>)"

definition file_drop :: "File \<Rightarrow> 'r Fs \<Rightarrow> 'r Fs" where
  "file_drop f S = S\<lparr>vfs := release (wc_inner (file_node f)) (vfs S)\<rparr>"

subsection \<open>Directories\<close>

record Directory =
  dir_node :: "addr WithCap"
  entry_idx :: usize

definition dir_open_at :: "DirRef option \<Rightarrow> string \<Rightarrow> OpenOptions \<Rightarrow> ('r, Directory) fs_action" where
  "dir_open_at dir path opts S =
     (if \<not> opt_read opts then (Err InvalidInput, S)
      else if opt_create opts \<or> opt_create_new opts \<or> opt_write opts \<or> opt_append opts \<or> opt_truncate opts
      then (Err InvalidInput, S)
      else and_then (\<lambda>S. pure_res (fs_lookup dir path S) S) (\<lambda>node.
        and_then (\<lambda>S. pure_res (vfs_get_attr (vfs S) node) S) (\<lambda>attr S.
          if \<not> attr_is_dir attr then (Err NotADirectory, S)
          else if \<not> cap_contains (perm_to_cap (attr_mode attr)) (opts_cap opts) then (Err PermissionDenied, S)
          else (Ok \<lparr>dir_node = \<lparr>wc_inner = node, wc_cap = opts_cap opts\<rparr>, entry_idx = 0\<rparr>,
                S\<lparr>vfs := hold node (vfs S)\<rparr>))) S)"

definition access_at :: "Directory \<Rightarrow> string \<Rightarrow> (DirRef option, AxError) result" where
  "access_at d path =
     (if starts_slash path then Ok None
      else res_bind (access (dir_node d) CAP_EXECUTE) (\<lambda>a. Ok (Some (NodeRef a))))"

definition dir_open_dir_at :: "Directory \<Rightarrow> string \<Rightarrow> OpenOptions \<Rightarrow> ('r, Directory) fs_action" where
  "dir_open_dir_at d path opts = and_then (pure_res (access_at d path)) (\<lambda>dir. dir_open_at dir path opts)"

definition dir_open_file_at :: "Directory \<Rightarrow> string \<Rightarrow> OpenOptions \<Rightarrow> ('r, File) fs_action" where
  "dir_open_file_at d path opts = and_then (pure_res (access_at d path)) (\<lambda>dir. file_open_at dir path opts)"

definition dir_create_file :: "Directory \<Rightarrow> string \<Rightarrow> ('r, addr) fs_action" where
  "dir_create_file d path = and_then (pure_res (access_at d path)) (\<lambda>dir. create_file dir path)"

definition dir_create_dir :: "Directory \<Rightarrow> string \<Rightarrow> ('r, unit) fs_action" where
  "dir_create_dir d path = and_then (pure_res (access_at d path)) (\<lambda>dir. create_dir dir path)"

definition dir_remove_file :: "Directory \<Rightarrow> string \<Rightarrow> ('r, unit) fs_action" where
  "dir_remove_file d path = and_then (pure_res (access_at d path)) (\<lambda>dir. remove_file dir path)"

definition dir_remove_dir :: "Directory \<Rightarrow> string \<Rightarrow> ('r, unit) fs_action" where
  "dir_remove_dir d path = and_then (pure_res (access_at d path)) (\<lambda>dir. remove_dir dir path)"

definition dir_read_dir :: "VfsDirEntry list \<Rightarrow> (Directory \<times> 'r Fs, nat \<times> VfsDirEntry list, AxError) action" where
  "dir_read_dir dirents dS = (case dS of (d, S) \<Rightarrow>
     (case res_bind (access (dir_node d) CAP_READ) (\<lambda>a. vfs_read_dir (vfs S) a (entry_idx d) dirents) of
        Ok (n, es) \<Rightarrow> (Ok (n, es), (d\<lparr>entry_idx := entry_idx d + of_nat n\<rparr>, S))
      | Err e \<Rightarrow> (Err e, dS)
      | Panic \<Rightarrow> (Panic, dS)
      | Diverge \<Rightarrow> (Diverge, dS)))"

definition dir_rename :: "Directory \<Rightarrow> string \<Rightarrow> string \<Rightarrow> ('r, unit) fs_action" where
  "dir_rename d old new = fs_rename old new"

definition dir_drop :: "Directory \<Rightarrow> 'r Fs \<Rightarrow> 'r Fs" where
  "dir_drop d S = S\<lparr>vfs := release (wc_inner (dir_node d)) (vfs S)\<rparr>"

end
