(* ===== verification/IoCorrect.thy ===== *)
theory IoCorrect
  imports Io
begin

text \<open>
  The contract of a reader that delivers a fixed sequence of bytes, what the default methods of \<open>Read\<close> do
  for such a reader, and that \<open>BufReader\<close> turns one such reader into another that delivers the same bytes.
\<close>

subsection \<open>Streams of bytes\<close>

text \<open>\<open>rest s\<close> are the bytes still to come. The contract holds for buffers of up to \<open>lim\<close> bytes.\<close>

locale byte_stream =
  fixes rd :: "'s reader" and rest :: "'s \<Rightarrow> u8 list" and ok :: "'s \<Rightarrow> bool" and lim :: nat
  assumes lim: "DEFAULT_BUF_SIZE \<le> lim"
    and reads: "ok s \<Longrightarrow> n \<le> lim \<Longrightarrow> \<exists>bs s'. rd n s = (Ok bs, s') \<and> ok s' \<and> rest s = bs @ rest s' \<and> length bs \<le> n \<and>
      (0 < n \<longrightarrow> rest s \<noteq> [] \<longrightarrow> bs \<noteq> [])"
begin

lemma readsE:
  assumes "ok s" and "n \<le> lim"
  obtains bs s' where "rd n s = (Ok bs, s')" "ok s'" "rest s = bs @ rest s'" "length bs \<le> n"
    "0 < n \<Longrightarrow> rest s \<noteq> [] \<Longrightarrow> bs \<noteq> []"
  using reads [OF assms] by blast

lemma reads_someE:
  assumes "ok s" and "n \<le> lim" and "0 < n"
  obtains bs s' where "rd n s = (Ok bs, s')" "ok s'" "rest s = bs @ rest s'" "length bs \<le> n" "rest s \<noteq> [] \<Longrightarrow> bs \<noteq> []"
  using reads [OF assms(1,2)] assms(3) by blast

lemma read_to_end_loop_all:
  assumes "ok s" and "length (rest s) < fuel"
  shows "\<exists>s'. read_to_end_loop fuel rd (buf, s) = (Ok (), (buf @ rest s, s')) \<and> ok s' \<and> rest s' = []"
  using assms
proof (induction fuel arbitrary: buf s)
  case (Suc fuel)
  have "32 \<le> lim" using lim by (simp add: DEFAULT_BUF_SIZE_def)
  then obtain bs s' where r: "rd 32 s = (Ok bs, s')" "ok s'" "rest s = bs @ rest s'" "rest s \<noteq> [] \<Longrightarrow> bs \<noteq> []"
    using reads_someE [OF Suc.prems(1), of 32] zero_less_numeral by metis
  show ?case
  proof (cases "bs = []")
    case True
    then have "rest s = []" using r(4) by metis
    moreover then have "rest s' = []" using r(3) by simp
    ultimately show ?thesis using r(1,2) True by simp
  next
    case False
    then have "length (rest s') < fuel" using r(3) Suc.prems(2) by (cases bs) auto
    from Suc.IH [OF r(2) this, of "buf @ bs"] show ?thesis using r(1) False unfolding r(3) by simp
  qed
qed simp

lemma read_to_end_all:
  assumes "ok s" and "length (rest s) < fuel"
  shows "\<exists>s'. read_to_end fuel rd (buf, s) = (Ok (length (rest s)), (buf @ rest s, s')) \<and> ok s' \<and> rest s' = []"
  using read_to_end_loop_all [OF assms, of buf] by (auto simp: read_to_end_def and_then_def)

lemma fill_loop_takes:
  assumes "ok s" and "n \<le> lim"
  shows "\<exists>s'. fill_loop n rd (got, s) = (Ok (n - length (rest s)), (got @ take n (rest s), s')) \<and> ok s' \<and> rest s' = drop n (rest s)"
  using assms
proof (induction n arbitrary: got s rule: less_induct)
  case (less n)
  show ?case
  proof (cases "n = 0")
    case False
    obtain bs s' where r: "rd n s = (Ok bs, s')" "ok s'" "rest s = bs @ rest s'" "length bs \<le> n" "rest s \<noteq> [] \<Longrightarrow> bs \<noteq> []"
      using reads_someE [OF less.prems] False neq0_conv by metis
    note step = fill_loop.simps [of n rd got s] r(1)
    show ?thesis
    proof (cases "bs = []")
      case True
      then have "rest s = []" using r(5) by metis
      moreover then have "rest s' = []" using r(3) by simp
      ultimately show ?thesis using step r(2) True False by simp
    next
      case ne: False
      have "\<exists>s''. fill_loop (n - length bs) rd (got @ bs, s') = (Ok (n - length bs - length (rest s')),
          ((got @ bs) @ take (n - length bs) (rest s'), s'')) \<and> ok s'' \<and> rest s'' = drop (n - length bs) (rest s')"
        using ne False less.prems(2) by (intro less.IH r(2)) auto
      then obtain s'' where s'': "fill_loop (n - length bs) rd (got @ bs, s') = (Ok (n - length bs - length (rest s')),
          ((got @ bs) @ take (n - length bs) (rest s'), s''))" "ok s''" "rest s'' = drop (n - length bs) (rest s')" by blast
      then show ?thesis using step r(4) ne False unfolding r(3) by simp
    qed
  qed (use less.prems in \<open>simp add: fill_loop.simps\<close>)
qed

lemma read_exact_takes:
  assumes "ok s" and "n \<le> lim" and "n \<le> length (rest s)"
  shows "\<exists>s'. read_exact n rd s = (Ok (take n (rest s)), s') \<and> ok s' \<and> rest s' = drop n (rest s)"
  using fill_loop_takes [OF assms(1,2), of "[]"] assms(3) by (auto simp: read_exact_def)

lemma read_exact_eof:
  assumes "ok s" and "n \<le> lim" and "length (rest s) < n"
  shows "\<exists>s'. read_exact n rd s = (Err UnexpectedEof, s') \<and> ok s' \<and> rest s' = []"
  using fill_loop_takes [OF assms(1,2), of "[]"] assms(3) by (auto simp: read_exact_def)

lemma read_full_takes:
  assumes "ok s" and "n \<le> lim"
  shows "\<exists>s'. read_full n rd s = (Ok (take n (rest s)), s') \<and> ok s' \<and> rest s' = drop n (rest s)"
  using fill_loop_takes [OF assms, of "[]"] by (auto simp: read_full_def)

end

subsection \<open>\<open>BufReader\<close> delivers the same bytes\<close>

definition br_rest :: "('s \<Rightarrow> u8 list) \<Rightarrow> 's BufReader \<Rightarrow> u8 list" where
  "br_rest rest b = br_buffer b @ rest (br_inner b)"

definition br_ok :: "('s \<Rightarrow> bool) \<Rightarrow> 's BufReader \<Rightarrow> bool" where
  "br_ok ok b \<longleftrightarrow> ok (br_inner b) \<and> br_pos b \<le> br_filled b \<and> br_filled b \<le> DEFAULT_BUF_SIZE \<and> length (br_buf b) = DEFAULT_BUF_SIZE"

lemma br_new_stream: "ok s \<Longrightarrow> br_ok ok (br_new s)" "br_rest rest (br_new s) = rest s"
  by (simp_all add: br_ok_def br_new_def br_rest_def br_buffer_def)

lemma br_consume_buffer:
  "br_ok ok b \<Longrightarrow> n \<le> length (br_buffer b) \<Longrightarrow> br_buffer (br_consume n b) = drop n (br_buffer b) \<and> br_ok ok (br_consume n b) \<and> br_inner (br_consume n b) = br_inner b"
  by (auto simp: br_buffer_def br_consume_def br_ok_def drop_take add.commute min_absorb1)

locale buffered_stream = byte_stream
begin

lemma br_fill_buf_stream:
  assumes "br_ok ok b"
  shows "\<exists>b'. br_fill_buf rd b = (Ok (br_buffer b'), b') \<and> br_ok ok b' \<and> br_rest rest b' = br_rest rest b \<and>
    (br_rest rest b \<noteq> [] \<longrightarrow> br_buffer b' \<noteq> [])"
proof (cases "br_is_empty b")
  case True
  have len: "length (br_buf b) = DEFAULT_BUF_SIZE" using assms by (simp add: br_ok_def)
  obtain bs s' where r: "rd DEFAULT_BUF_SIZE (br_inner b) = (Ok bs, s')" "ok s'" "rest (br_inner b) = bs @ rest s'"
    "length bs \<le> DEFAULT_BUF_SIZE" "rest (br_inner b) \<noteq> [] \<Longrightarrow> bs \<noteq> []"
    using reads_someE [of "br_inner b" DEFAULT_BUF_SIZE] assms lim unfolding br_ok_def DEFAULT_BUF_SIZE_def
    by (metis zero_less_numeral)
  let ?b = "b\<lparr>br_inner := s', br_buf := bs @ drop (length bs) (br_buf b), br_pos := 0, br_filled := length bs\<rparr>"
  have "br_buffer ?b = bs" "br_buffer b = []" using True by (simp_all add: br_buffer_def br_is_empty_def)
  moreover have "br_ok ok ?b" using r len by (simp add: br_ok_def)
  ultimately show ?thesis using True r len by (auto simp: br_fill_buf_def br_rest_def Let_def)
next
  case False
  then have "br_buffer b \<noteq> []" using assms by (auto simp: br_buffer_def br_is_empty_def br_ok_def)
  then show ?thesis using False assms by (auto simp: br_fill_buf_def)
qed

lemma br_read_stream:
  assumes ok: "br_ok ok b" and n: "n \<le> lim"
  shows "\<exists>bs b'. br_read rd n b = (Ok bs, b') \<and> br_ok ok b' \<and> br_rest rest b = bs @ br_rest rest b' \<and> length bs \<le> n \<and>
    (0 < n \<longrightarrow> br_rest rest b \<noteq> [] \<longrightarrow> bs \<noteq> [])"
proof (cases "br_is_empty b \<and> n \<ge> DEFAULT_BUF_SIZE")
  case True
  obtain bs s' where r: "rd n (br_inner b) = (Ok bs, s')" "ok s'" "rest (br_inner b) = bs @ rest s'" "length bs \<le> n"
    "0 < n \<Longrightarrow> rest (br_inner b) \<noteq> [] \<Longrightarrow> bs \<noteq> []"
    using readsE [of "br_inner b" n] ok n unfolding br_ok_def by metis
  have "br_buffer b = []" using True by (simp add: br_buffer_def br_is_empty_def)
  then show ?thesis using True r ok
    by (auto simp: br_read_def on_inner_reader_def br_discard_def br_ok_def br_rest_def br_buffer_def)
next
  case False
  obtain b1 where f: "br_fill_buf rd b = (Ok (br_buffer b1), b1)" "br_ok ok b1" "br_rest rest b1 = br_rest rest b"
    "br_rest rest b \<noteq> [] \<longrightarrow> br_buffer b1 \<noteq> []" using br_fill_buf_stream [OF ok] by blast
  let ?k = "min n (length (br_buffer b1))"
  have c: "br_buffer (br_consume ?k b1) = drop ?k (br_buffer b1)" "br_ok ok (br_consume ?k b1)" "br_inner (br_consume ?k b1) = br_inner b1"
    using br_consume_buffer [OF f(2), of ?k] by simp_all
  have "br_read rd n b = (Ok (take ?k (br_buffer b1)), br_consume ?k b1)"
    using f(1) False by (auto simp: br_read_def and_then_def slice_read_def Let_def)
  moreover have "br_rest rest b = take ?k (br_buffer b1) @ br_rest rest (br_consume ?k b1)"
    using f(3) c by (metis append.assoc append_take_drop_id br_rest_def)
  moreover have "length (take ?k (br_buffer b1)) \<le> n" by simp
  moreover have "0 < n \<longrightarrow> br_rest rest b \<noteq> [] \<longrightarrow> take ?k (br_buffer b1) \<noteq> []" using f(4) by auto
  ultimately show ?thesis using c(2) by blast
qed

text \<open>\<open>read_exact\<close> hands a request that the buffer cannot serve to the inner reader and leaves the buffer as it is.\<close>

lemma br_read_exact_inner:
  assumes "br_ok ok b" and "length (br_buffer b) < n" and "n \<le> lim" and "n \<le> length (rest (br_inner b))"
  shows "\<exists>b'. br_read_exact rd n b = (Ok (take n (rest (br_inner b))), b') \<and> br_buffer b' = br_buffer b \<and> br_ok ok b' \<and>
    rest (br_inner b') = drop n (rest (br_inner b))"
proof -
  have ok: "ok (br_inner b)" using assms(1) by (simp add: br_ok_def)
  obtain s' where s': "read_exact n rd (br_inner b) = (Ok (take n (rest (br_inner b))), s')" "ok s'"
    "rest s' = drop n (rest (br_inner b))" using read_exact_takes [OF ok assms(3,4)] by blast
  then have "br_read_exact rd n b = (Ok (take n (rest (br_inner b))), b\<lparr>br_inner := s'\<rparr>)"
    using assms(2) by (simp add: br_read_exact_def on_inner_reader_def)
  moreover have "br_buffer (b\<lparr>br_inner := s'\<rparr>) = br_buffer b" by (simp add: br_buffer_def)
  moreover have "br_ok ok (b\<lparr>br_inner := s'\<rparr>)" using s'(2) assms(1) by (simp add: br_ok_def)
  ultimately show ?thesis using s'(3) by simp
qed

lemma br_read_to_end_stream:
  assumes "br_ok ok b" and "length (rest (br_inner b)) < fuel"
  shows "\<exists>b'. br_read_to_end fuel rd (buf, b) = (Ok (length (br_rest rest b)), (buf @ br_rest rest b, b')) \<and> br_ok ok b' \<and> br_rest rest b' = []"
proof -
  have ok: "ok (br_inner b)" using assms(1) by (simp add: br_ok_def)
  obtain s' where s': "read_to_end fuel rd (buf @ br_buffer b, br_inner b) =
      (Ok (length (rest (br_inner b))), ((buf @ br_buffer b) @ rest (br_inner b), s'))" "ok s'" "rest s' = []"
    using read_to_end_all [OF ok assms(2), of "buf @ br_buffer b"] by blast
  then show ?thesis using assms(1)
    by (intro exI [of _ "(br_discard b)\<lparr>br_inner := s'\<rparr>"])
      (simp add: br_read_to_end_def Let_def br_discard_def br_rest_def br_ok_def br_buffer_def)
qed

end

sublocale buffered_stream \<subseteq> buffered: byte_stream "br_read rd" "br_rest rest" "br_ok ok" lim
  by unfold_locales (use lim br_read_stream in auto)

text \<open>The reader of a slice.\<close>

interpretation slice: buffered_stream slice_read "\<lambda>bs. bs" "\<lambda>_. True" "2 ^ 32"
  by unfold_locales (auto simp: slice_read_def Let_def DEFAULT_BUF_SIZE_def min_def)

text \<open>The methods that a slice overrides agree with the default ones.\<close>

lemma slice_overrides:
  assumes "n \<le> 2 ^ 32"
  shows "fst (slice_read_exact n bs) = fst (read_exact n slice_read bs)"
    and "length bs < fuel \<Longrightarrow> slice_read_to_end (buf, bs) = read_to_end fuel slice_read (buf, bs)"
proof -
  show "fst (slice_read_exact n bs) = fst (read_exact n slice_read bs)"
    using slice.read_exact_takes [of n bs] slice.read_exact_eof [of n bs] assms by (cases "n \<le> length bs") (auto simp: slice_read_exact_def)
  show "length bs < fuel \<Longrightarrow> slice_read_to_end (buf, bs) = read_to_end fuel slice_read (buf, bs)"
    using slice.read_to_end_all [of bs fuel buf] by (auto simp: slice_read_to_end_def)
qed

end
