(* ===== verification/FsApi.thy ===== *)
theory FsApi
  imports MemArea Fops IoCorrect
begin

text \<open>
  \<open>modules/axfs/src/api\<close>: the interface of the file system for the other modules. Files implement the
  traits of \<open>axio\<close> (\<open>file.rs\<close>), whole files are read and written by path (\<open>mod.rs\<close>), directories are
  iterated over (\<open>dir.rs\<close>), and \<open>FileExt\<close> (\<open>port.rs\<close>) reads and writes at a position for the memory mappings
  of \<open>axmem\<close>. A value that goes out of scope is dropped: the reference to its node goes with it.
\<close>

subsection \<open>Files: \<open>file.rs\<close>\<close>

definition api_open :: "string \<Rightarrow> ('r, File) fs_action" where
  "api_open path = file_open path (OpenOptions_new\<lparr>opt_read := True\<rparr>)"

definition api_create :: "string \<Rightarrow> ('r, File) fs_action" where
  "api_create path = file_open path (OpenOptions_new\<lparr>opt_write := True, opt_create := True, opt_truncate := True\<rparr>)"

definition api_create_new :: "string \<Rightarrow> ('r, File) fs_action" where
  "api_create_new path = file_open path (OpenOptions_new\<lparr>opt_read := True, opt_write := True, opt_create_new := True\<rparr>)"

text \<open>\<open>impl Read for File\<close>: the callers pass a buffer of zeros and use the bytes that were read.\<close>

definition file_reader :: "('r \<Rightarrow> nat \<Rightarrow> u8 list \<times> 'r) \<Rightarrow> (File \<times> 'r Fs) reader" where
  "file_reader rand n = and_then (fops_read rand (replicate n 0)) (\<lambda>(k, buf) fS. (Ok (take k buf), fS))"

definition file_writer :: "(File \<times> 'r Fs) writer" where
  "file_writer buf = fops_write buf"

definition file_readable :: "File \<Rightarrow> bool" where "file_readable f = can_access (file_node f) CAP_READ"
definition file_writable :: "File \<Rightarrow> bool" where "file_writable f = can_access (file_node f) CAP_WRITE"
definition file_executable :: "File \<Rightarrow> bool" where "file_executable f = can_access (file_node f) CAP_EXECUTE"

subsection \<open>Whole files: \<open>mod.rs\<close>\<close>

text \<open>The end of a function that owns the file: the file is dropped on every way out.\<close>

definition closing :: "('a, AxError) result \<times> File \<times> 'r Fs \<Rightarrow> ('a, AxError) result \<times> 'r Fs" where
  "closing p = (case p of (r, (f, S)) \<Rightarrow> (r, file_drop f S))"

definition api_read :: "nat \<Rightarrow> ('r \<Rightarrow> nat \<Rightarrow> u8 list \<times> 'r) \<Rightarrow> string \<Rightarrow> ('r, u8 list) fs_action" where
  "api_read fuel rand path = and_then (api_open path) (\<lambda>f S.
     let len = (case fops_get_attr f S of Ok attr \<Rightarrow> Ok (attr_size attr) | Err _ \<Rightarrow> Ok 0 | Panic \<Rightarrow> Panic | Diverge \<Rightarrow> Diverge)
     in case res_bind len (\<lambda>n. if n \<ge> 0x8000000000000000 then Panic else Ok n) of
          Ok _ \<Rightarrow> (case read_to_end fuel (file_reader rand) ([], (f, S)) of
              (r, (bytes, fS)) \<Rightarrow> closing (res_bind r (\<lambda>_. Ok bytes), fS))
        | Err e \<Rightarrow> closing (Err e, (f, S))
        | Panic \<Rightarrow> (Panic, S)
        | Diverge \<Rightarrow> (Diverge, S))"

definition api_write :: "string \<Rightarrow> u8 list \<Rightarrow> ('r, unit) fs_action" where
  "api_write path contents = and_then (api_create path) (\<lambda>f S. closing (write_all file_writer contents (f, S)))"

definition api_metadata :: "string \<Rightarrow> ('r, VfsNodeAttr) fs_action" where
  "api_metadata path = and_then (api_open path) (\<lambda>f S. closing (fops_get_attr f S, (f, S)))"

definition path_exists :: "string \<Rightarrow> 'r Fs \<Rightarrow> (bool, AxError) result" where
  "path_exists path S = (case fs_lookup None path S of Ok _ \<Rightarrow> Ok True | Err _ \<Rightarrow> Ok False | Panic \<Rightarrow> Panic | Diverge \<Rightarrow> Diverge)"

text \<open>\<open>DirBuilder::create\<close> with its field \<open>recursive\<close>.\<close>

definition DirBuilder_create :: "bool \<Rightarrow> string \<Rightarrow> ('r, unit) fs_action" where
  "DirBuilder_create recursive path = (if recursive then (\<lambda>S. (Err Unsupported, S)) else create_dir None path)"

subsection \<open>Iterating over a directory: \<open>dir.rs\<close>\<close>

record ReadDir =
  rd_path :: string
  rd_inner :: Directory
  rd_buf_pos :: nat
  rd_buf_end :: nat
  rd_end :: bool
  rd_buf :: "VfsDirEntry list"

record DirEntry =
  de_dir_path :: string
  de_name :: string
  de_type :: VfsNodeType

definition ReadDir_new :: "string \<Rightarrow> ('r, ReadDir) fs_action" where
  "ReadDir_new path = and_then (dir_open_at None path (OpenOptions_new\<lparr>opt_read := True\<rparr>)) (\<lambda>d S.
     (Ok \<lparr>rd_path = path, rd_inner = d, rd_buf_pos = 0, rd_buf_end = 0, rd_end = False, rd_buf = replicate 31 dirent_default\<rparr>, S))"

text \<open>
  \<open>next\<close>: \<open>None\<close> is the end of the iteration, an error of \<open>read_dir\<close> is an item. The loop goes round again
  for the entries \<open>.\<close> and \<open>..\<close>, so it has fuel.
\<close>

fun ReadDir_next :: "nat \<Rightarrow> ReadDir \<times> 'r Fs \<Rightarrow> ((DirEntry, AxError) result option, AxError) result \<times> ReadDir \<times> 'r Fs" where
  "ReadDir_next 0 (it, S) = (if rd_end it then (Ok None, (it, S)) else (Diverge, (it, S)))"
| "ReadDir_next (Suc fuel) (it, S) =
     (if rd_end it then (Ok None, (it, S))
      else
        let emit = (\<lambda>(it, S).
              if rd_buf_pos it \<ge> length (rd_buf it) then (Panic, (it, S))
              else let entry = rd_buf it ! rd_buf_pos it; name = name_as_bytes entry;
                       it = it\<lparr>rd_buf_pos := Suc (rd_buf_pos it)\<rparr> in
                if name = ''.'' \<or> name = ''..'' then ReadDir_next fuel (it, S)
                else (Ok (Some (Ok \<lparr>de_dir_path = rd_path it, de_name = name, de_type = d_type entry\<rparr>)), (it, S)))
        in if rd_buf_pos it \<ge> rd_buf_end it
           then (case dir_read_dir (rd_buf it) (rd_inner it, S) of
               (Ok (n, es), (d, S1)) \<Rightarrow>
                 if n = 0 then (Ok None, (it\<lparr>rd_inner := d, rd_buf := es, rd_end := True\<rparr>, S1))
                 else emit (it\<lparr>rd_inner := d, rd_buf := es, rd_buf_pos := 0, rd_buf_end := n\<rparr>, S1)
             | (Err e, (d, S1)) \<Rightarrow> (Ok (Some (Err e)), (it\<lparr>rd_inner := d, rd_end := True\<rparr>, S1))
             | (Panic, (d, S1)) \<Rightarrow> (Panic, (it, S1))
             | (Diverge, (d, S1)) \<Rightarrow> (Diverge, (it, S1)))
           else emit (it, S))"

declare ReadDir_next.simps(2) [simp del]

text \<open>The loop \<open>for entry in read_dir(path)\<close> of a client that stops at the first error.\<close>

fun ReadDir_all :: "nat \<Rightarrow> ReadDir \<times> 'r Fs \<Rightarrow> (DirEntry list, AxError) result" where
  "ReadDir_all 0 st = Diverge"
| "ReadDir_all (Suc fuel) st = (case ReadDir_next 3 st of
      (Ok None, st') \<Rightarrow> Ok []
    | (Ok (Some (Ok e)), st') \<Rightarrow> res_bind (ReadDir_all fuel st') (\<lambda>es. Ok (e # es))
    | (Ok (Some (Err e)), st') \<Rightarrow> Err e
    | (Ok (Some Panic), st') \<Rightarrow> Panic
    | (Ok (Some Diverge), st') \<Rightarrow> Diverge
    | (Err e, st') \<Rightarrow> Err e
    | (Panic, st') \<Rightarrow> Panic
    | (Diverge, st') \<Rightarrow> Diverge)"

definition DirEntry_path :: "DirEntry \<Rightarrow> string" where
  "DirEntry_path e = rev (dropWhile (\<lambda>c. c = slash) (rev (de_dir_path e))) @ ''/'' @ de_name e"

subsection \<open>Positions: \<open>port.rs\<close>\<close>

definition read_from_seek :: "('r \<Rightarrow> nat \<Rightarrow> u8 list \<times> 'r) \<Rightarrow> SeekFrom \<Rightarrow> nat \<Rightarrow> ('r, u8 list) file_action" where
  "read_from_seek rand pos n =
     and_then (unwrap_act (fops_seek (SeekCurrent 0))) (\<lambda>old_pos.
     and_then (unwrap_act (fops_seek pos)) (\<lambda>_ fS.
       case read_full n (file_reader rand) fS of
         (Panic, fS') \<Rightarrow> (Panic, fS')
       | (Diverge, fS') \<Rightarrow> (Diverge, fS')
       | (read_len, fS') \<Rightarrow> and_then (unwrap_act (fops_seek (SeekStart old_pos))) (\<lambda>new_pos fS.
           if old_pos \<noteq> new_pos then (Panic, fS) else (read_len, fS)) fS'))"

definition write_to_seek :: "SeekFrom \<Rightarrow> u8 list \<Rightarrow> ('r, nat) file_action" where
  "write_to_seek pos buf =
     and_then (unwrap_act (fops_seek (SeekCurrent 0))) (\<lambda>old_pos.
     and_then (unwrap_act (fops_seek pos)) (\<lambda>_ fS.
       case fops_write buf fS of
         (Panic, fS') \<Rightarrow> (Panic, fS')
       | (Diverge, fS') \<Rightarrow> (Diverge, fS')
       | (write_len, fS') \<Rightarrow> and_then (unwrap_act (fops_seek (SeekStart old_pos))) (\<lambda>_ fS. (write_len, fS)) fS'))"

text \<open>
  The file behind a mapping of \<open>axmem\<close>, as \<open>MemBackend\<close> calls it. The state of the backend carries the file
  system, so this instance serves one mapping.
\<close>

definition file_ops :: "('r \<Rightarrow> nat \<Rightarrow> u8 list \<times> 'r) \<Rightarrow> (File \<times> 'r Fs) FileOps" where
  "file_ops rand = \<lparr>fo_seek = fops_seek, fo_read_from_seek = read_from_seek rand, fo_write_to_seek = write_to_seek,
     fo_readable = file_readable \<circ> fst, fo_writable = file_writable \<circ> fst,
     fo_clone = (\<lambda>(f, S). Some (file_clone f S))\<rparr>"

subsection \<open>\<open>OpenFlags\<close>\<close>

definition O_WRONLY :: u32 where "O_WRONLY = 1"
definition O_RDWR :: u32 where "O_RDWR = 2"
definition O_CREATE :: u32 where "O_CREATE = 64"
definition O_EXCLUSIVE :: u32 where "O_EXCLUSIVE = 128"
definition O_CLOEXEC :: u32 where "O_CLOEXEC = 0x80000"
definition O_DIR :: u32 where "O_DIR = 0x200000"

definition OpenFlags_all :: u32 where "OpenFlags_all = 0x2BCBC3"

definition flag_set :: "u32 \<Rightarrow> u32 \<Rightarrow> bool" where "flag_set fl x \<longleftrightarrow> fl AND x = x"

definition OpenFlags_from :: "usize \<Rightarrow> u32" where
  "OpenFlags_from val = ucast val AND OpenFlags_all"

definition read_write :: "u32 \<Rightarrow> bool \<times> bool" where
  "read_write fl = (if fl = 0 then (True, False) else if flag_set fl O_WRONLY then (False, True) else (True, True))"

definition flags_readable :: "u32 \<Rightarrow> bool" where "flags_readable fl \<longleftrightarrow> \<not> flag_set fl O_WRONLY"
definition flags_writable :: "u32 \<Rightarrow> bool" where "flags_writable fl \<longleftrightarrow> flag_set fl O_WRONLY \<or> flag_set fl O_RDWR"
definition flags_creatable :: "u32 \<Rightarrow> bool" where "flags_creatable fl = flag_set fl O_CREATE"
definition flags_new_creatable :: "u32 \<Rightarrow> bool" where "flags_new_creatable fl = flag_set fl O_EXCLUSIVE"
definition flags_is_dir :: "u32 \<Rightarrow> bool" where "flags_is_dir fl = flag_set fl O_DIR"
definition is_close_on_exec :: "u32 \<Rightarrow> bool" where "is_close_on_exec fl = flag_set fl O_CLOEXEC"

end
