(* ===== verification/FsApiCorrect.thy ===== *)
theory FsApiCorrect
  imports FsApi
begin

text \<open>
  Open files: what their capabilities allow, that an open file of the RAM file system is a byte stream
  in the sense of \<open>IoCorrect\<close>, that a whole file reads back as it was written, that the iterator over a directory
  yields its entries, and how a mapping of \<open>axmem\<close> reads and writes the file behind it.
\<close>

subsection \<open>Capabilities\<close>

lemma cap_defs: "CAP_READ = 1" "CAP_WRITE = 2" "CAP_EXECUTE = 4"
  by (simp_all add: CAP_READ_def CAP_WRITE_def CAP_EXECUTE_def)

lemma opts_cap_contains [simp]:
  "cap_contains (opts_cap opts) CAP_READ \<longleftrightarrow> opt_read opts"
  "cap_contains (opts_cap opts) CAP_WRITE \<longleftrightarrow> opt_write opts \<or> opt_append opts"
  "\<not> cap_contains (opts_cap opts) CAP_EXECUTE"
  "cap_contains c 0"
  by (auto simp: cap_contains_def opts_cap_def cap_defs)

lemma perm_default_file [simp]: "cap_contains (perm_to_cap default_file) (opts_cap opts)"
  by (cases "opt_read opts"; cases "opt_write opts \<or> opt_append opts")
    (auto simp: cap_contains_def opts_cap_def perm_to_cap_def cap_defs
      owner_readable_def owner_writable_def owner_executable_def perm_contains_def default_file_def perm_truncate_def OWNER_READ_def
      OWNER_WRITE_def OWNER_EXEC_def GROUP_READ_def GROUP_WRITE_def GROUP_EXEC_def OTHER_READ_def OTHER_WRITE_def OTHER_EXEC_def)

lemma access_empty [simp]: "access w 0 = Ok (wc_inner w)"
  by (simp add: access_def can_access_def)

subsection \<open>Open files of the RAM file system\<close>

abbreviation node_of :: "File \<Rightarrow> addr" where "node_of f \<equiv> wc_inner (file_node f)"

definition file_bytes :: "File \<times> 'r Fs \<Rightarrow> u8 list option" where
  "file_bytes fS = (case nodes (vfs (snd fS)) (node_of (fst fS)) of Some (RamFile c) \<Rightarrow> Some c | _ \<Rightarrow> None)"

lemma file_bytes_Some: "file_bytes (f, S) = Some c \<longleftrightarrow> nodes (vfs S) (node_of f) = Some (RamFile c)"
  by (auto simp: file_bytes_def split: option.splits Node.splits)

lemma take_min_length: "take (min (length xs) n) xs = take n xs"
  by (simp add: min_def)

lemma file_reader_run:
  assumes "file_bytes (f, S) = Some c" and "file_readable f" and "unat (file_offset f) + n < 2 ^ 64"
  shows "file_reader rand n (f, S) = (Ok (take n (drop (unat (file_offset f)) c)),
    (f\<lparr>file_offset := file_offset f + of_nat (length (take n (drop (unat (file_offset f)) c)))\<rparr>, S))"
proof -
  let ?bs = "take n (drop (unat (file_offset f)) c)"
  have "file_read_at (file_offset f) (replicate n 0) c = Ok (length ?bs, ?bs @ drop (length ?bs) (replicate n 0))"
    using file_read_at_bytes [of "file_offset f" "replicate n 0" c] assms(3) by simp
  then show ?thesis
    using assms(1,2) unfolding file_bytes_Some
    by (simp add: file_reader_def fops_read_def fops_read_at_def in_fs_def on_vfs_def pure_res_def access_def
        file_readable_def vfs_read_at_def and_then_def take_min_length [of "drop (unat (file_offset f)) c" n, simplified])
qed

definition file_rest :: "File \<times> 'r Fs \<Rightarrow> u8 list" where
  "file_rest fS = (case file_bytes fS of Some c \<Rightarrow> drop (unat (file_offset (fst fS))) c | None \<Rightarrow> [])"

text \<open>Only the cursor of the file \<open>f0\<close> moves while the file system stays \<open>S0\<close>.\<close>

definition file_ok :: "File \<Rightarrow> 'r Fs \<Rightarrow> File \<times> 'r Fs \<Rightarrow> bool" where
  "file_ok f0 S0 fS \<longleftrightarrow> snd fS = S0 \<and> fst fS = f0\<lparr>file_offset := file_offset (fst fS)\<rparr> \<and> file_readable f0 \<and>
    (case file_bytes fS of
      Some c \<Rightarrow> max (unat (file_offset (fst fS))) (length c) + 2 ^ 32 < 2 ^ 64
    | None \<Rightarrow> False)"

lemma file_reader_stream:
  assumes "file_ok f0 S0 fS" and "n \<le> 2 ^ 32"
  shows "\<exists>bs fS'. file_reader rand n fS = (Ok bs, fS') \<and> file_ok f0 S0 fS' \<and> file_rest fS = bs @ file_rest fS' \<and> length bs \<le> n \<and>
      (0 < n \<longrightarrow> file_rest fS \<noteq> [] \<longrightarrow> bs \<noteq> [])"
proof -
  obtain f S where fS: "fS = (f, S)" by (cases fS)
  obtain c where c: "file_bytes (f, S) = Some c" and same: "S = S0" "f = f0\<lparr>file_offset := file_offset f\<rparr>" "file_readable f0"
    and len: "max (unat (file_offset f)) (length c) + 2 ^ 32 < 2 ^ 64"
    using assms(1) by (auto simp: fS file_ok_def split: option.splits)
  have rd: "file_readable f" using same(3) by (subst same(2)) (simp add: file_readable_def)
  let ?o = "unat (file_offset f)"
  let ?bs = "take n (drop ?o c)" and ?f = "f\<lparr>file_offset := file_offset f + of_nat (length (take n (drop ?o c)))\<rparr>"
  have run: "file_reader rand n fS = (Ok ?bs, (?f, S))"
    unfolding fS using c rd len assms(2) by (intro file_reader_run) simp_all
  have "length ?bs \<le> n" by simp
  then have "?o + length ?bs < 2 ^ 64" using len assms(2) by linarith
  then have off: "unat (file_offset ?f) = ?o + length ?bs" using unat_end [of "file_offset f" "length ?bs"] by simp
  have c': "file_bytes (?f, S) = Some c" using c unfolding file_bytes_Some by simp
  have "?f = f0\<lparr>file_offset := file_offset ?f\<rparr>" by (subst (1) same(2)) simp
  then have "file_ok f0 S0 (?f, S)" using same(1,3) len c' off by (auto simp: file_ok_def)
  moreover have "file_rest fS = ?bs @ file_rest (?f, S)"
  proof -
    have "file_rest (?f, S) = drop (unat (file_offset ?f)) c" by (simp only: file_rest_def c' option.case fst_conv)
    also have "\<dots> = drop n (drop ?o c)" unfolding off by (simp add: min_def add.commute)
    finally have new: "file_rest (?f, S) = drop n (drop ?o c)" .
    have "file_rest fS = drop ?o c" by (simp add: fS file_rest_def c)
    then show ?thesis unfolding new by (simp only: append_take_drop_id)
  qed
  moreover have "length ?bs \<le> n" by simp
  moreover have "0 < n \<longrightarrow> file_rest fS \<noteq> [] \<longrightarrow> ?bs \<noteq> []" by (simp add: fS file_rest_def c)
  ultimately show ?thesis using run by blast
qed

text \<open>The reader of an open file meets the contract of a byte stream, and so does a \<open>BufReader\<close> around it.\<close>

interpretation file_stream: buffered_stream "file_reader rand" file_rest "file_ok f0 S0" "2 ^ 32" for rand f0 S0
  by unfold_locales (simp add: DEFAULT_BUF_SIZE_def, rule file_reader_stream)

subsection \<open>What a path leads to after the content of a file has changed\<close>

definition same_tree :: "'r Vfs \<Rightarrow> 'r Vfs \<Rightarrow> bool" where
  "same_tree s s' \<longleftrightarrow> (\<forall>a. map_option as_dir (nodes s a) = map_option as_dir (nodes s' a))"

lemma same_tree_simps [simp]:
  "same_tree s (hold a s') \<longleftrightarrow> same_tree s s'" "same_tree (hold a s) s' \<longleftrightarrow> same_tree s s'" "same_tree s s"
  by (simp_all add: same_tree_def hold_def)

lemma same_tree_set_file: "nodes s a = Some n \<Longrightarrow> as_dir n = None \<Longrightarrow> same_tree s (set_node a (RamFile c) s)"
  by (simp add: same_tree_def set_node_def)

lemma same_tree_node: "same_tree s s' \<Longrightarrow> nodes s a = None \<longleftrightarrow> nodes s' a = None"
  by (metis same_tree_def option.map_disc_iff)

lemma dir_next_same: "same_tree s s' \<Longrightarrow> dir_next d a p s = dir_next d a p s'"
  using same_tree_node [of s s'] by (simp add: dir_next_def upgrade_def split: option.splits)

lemma walk_same: "same_tree s s' \<Longrightarrow> walk s a ps = walk s' a ps"
proof (induction ps arbitrary: a)
  case (Cons p ps)
  have "map_option as_dir (nodes s a) = map_option as_dir (nodes s' a)" using Cons.prems by (simp add: same_tree_def)
  then show ?case
    using Cons dir_next_same [OF Cons.prems]
    by (cases "nodes s a"; cases "nodes s' a") (auto split: option.splits)
qed simp

lemma attr_is_dir_node [simp]: "attr_is_dir (node_attr n) \<longleftrightarrow> as_dir n \<noteq> None"
  by (cases n) (simp_all add: attr_is_dir_def attr_new_dir_def attr_new_file_def)

lemma fs_lookup_same:
  assumes "same_tree (vfs S) s'"
  shows "fs_lookup dir path (S\<lparr>vfs := s'\<rparr>) = fs_lookup dir path S"
proof -
  have attr: "res_bind (vfs_get_attr s' x) (\<lambda>attr. if \<not> attr_is_dir attr then Err NotADirectory else Ok x) =
      res_bind (vfs_get_attr (vfs S) x) (\<lambda>attr. if \<not> attr_is_dir attr then Err NotADirectory else Ok x)" for x
  proof -
    have "map_option as_dir (nodes (vfs S) x) = map_option as_dir (nodes s' x)" using assms by (simp add: same_tree_def)
    then show ?thesis by (cases "nodes (vfs S) x"; cases "nodes s' x") (auto simp: vfs_get_attr_def)
  qed
  have par: "parent_node_of dir path (S\<lparr>vfs := s'\<rparr>) = parent_node_of dir path S" by (cases dir) (simp_all add: parent_node_of_def)
  have "ref_lookup d path (S\<lparr>vfs := s'\<rparr>) = ref_lookup d path S" for d
    by (cases d) (simp_all add: root_lookup_def at_root_def vfs_lookup_walk walk_same [OF assms])
  moreover have "vfs (S\<lparr>vfs := s'\<rparr>) = s'" by simp
  ultimately show ?thesis by (simp only: fs_lookup_def par attr)
qed

lemma walk_linked:
  assumes ok: "vfs_ok s" and "ps \<noteq> []" and "walk s b ps = Ok a" and a: "nodes s a = Some n" "as_dir n = None"
  shows "linked a s"
proof -
  have "res_bind (walk s b (butlast ps)) (\<lambda>b. walk s b [last ps]) = Ok a"
    using assms(2,3) walk_append [of s b "butlast ps" "[last ps]"] by simp
  then obtain x where "walk s x [last ps] = Ok a" by (auto simp del: walk.simps)
  then obtain m d where x: "nodes s x = Some m" "as_dir m = Some d" "dir_next d x (last ps) s = Some a"
    by (auto split: option.splits)
  have "a \<noteq> x" using x a by auto
  moreover have "upgrade (dir_parent d) s \<noteq> Some a"
    using vfs_okD(10) [OF ok x(1,2) _ a(1)] a(2) by (auto simp: upgrade_def split: option.splits if_splits)
  ultimately have "map_of (dir_children d) (last ps) = Some a"
    using x(3) by (auto simp: dir_next_def split: if_splits)
  then have "child s x (last ps) a" using x(1) as_dir_children [OF x(2)] by (auto simp: child_def dest: map_of_SomeD)
  then show ?thesis using linked_iff [of s a] vfs_okD(1) [OF ok] by blast
qed

lemma fs_lookup_linked:
  assumes ok: "fs_ok S" and "fs_lookup dir path S = Ok a" and "nodes (vfs S) a = Some n" and "as_dir n = None"
  shows "linked a (vfs S)"
proof -
  have vok: "vfs_ok (vfs S)" using ok by (simp add: fs_ok_def)
  have "ref_lookup (parent_node_of dir path S) path S = Ok a"
    using assms(2) by (auto simp: fs_lookup_def split: if_splits)
  then obtain b p where "vfs_lookup (vfs S) b p = Ok a"
    by (cases "parent_node_of dir path S") (auto simp: root_lookup_def split: prod.splits)
  then show ?thesis using walk_linked [OF vok _ _ assms(3,4)] by (simp add: vfs_lookup_walk) (metis split_slash_nonempty)
qed

lemma linked_set_file: "nodes s a = Some n \<Longrightarrow> as_dir n = None \<Longrightarrow> linked b (set_node a (RamFile c) s) = linked b s"
proof -
  assume a: "nodes s a = Some n" "as_dir n = None"
  then have "node_children n = []" by (cases n) simp_all
  then have "(case nodes (set_node a (RamFile c) s) d of Some n \<Rightarrow> b \<in> snd ` set (node_children n) | None \<Rightarrow> False) =
      (case nodes s d of Some n \<Rightarrow> b \<in> snd ` set (node_children n) | None \<Rightarrow> False)" for d
    using a(1) by (simp add: set_node_def)
  then show ?thesis by (simp add: linked_def) (simp add: set_node_def)
qed

lemma release_hold:
  assumes "linked a s"
  shows "release a (hold a s) = s"
proof -
  have "linked a (s\<lparr>held := h\<rparr>) = linked a s" for h by (simp add: linked_def)
  then show ?thesis using assms by (auto simp: release_def hold_def reap.simps(2) split: option.splits)
qed

lemma set_node_hold [simp]: "set_node a n (hold b s) = hold b (set_node a n s)" "set_node a n (set_node a m s) = set_node a n s"
  by (simp_all add: set_node_def hold_def)

subsection \<open>Opening, writing and reading a whole file\<close>

lemma open_node_lookup:
  assumes "open_node dir path opts S = (Ok a, S1)"
  shows "fs_lookup dir path S1 = Ok a"
proof -
  have "fs_lookup dir path S1 = Ok a" if run: "create_file dir path S = (Ok a, S1)"
  proof -
    obtain S2 where c: "ref_create (parent_node_of dir path S) path TyFile S = (Ok (), S2)"
      and l: "ref_lookup (parent_node_of dir path S) path S1 = Ok a" "S2 = S1"
      and ne: "path \<noteq> []" "\<not> ends_slash path"
      using run by (auto simp: create_file_def Let_def result_simps split: if_splits)
    have "current_dir_ref S2 = current_dir_ref S"
      using c by (cases "parent_node_of dir path S") (auto simp: root_create_def on_vfs_def split: prod.splits if_splits)
    then have "parent_node_of dir path S1 = parent_node_of dir path S"
      using l(2) by (cases dir) (simp_all add: parent_node_of_def)
    then show ?thesis using l(1) ne by (simp add: fs_lookup_def)
  qed
  then show ?thesis using assms by (auto simp: open_node_def split: if_splits result.splits AxError.splits)
qed

lemma open_node_ok: "fs_ok S \<Longrightarrow> open_node dir path opts S = (r, S1) \<Longrightarrow> fs_ok S1"
  using keepsD [OF keeps_create_file, of S dir path]
  by (auto simp: open_node_def split: if_splits result.splits AxError.splits)

definition read_handle :: "addr \<Rightarrow> File" where
  "read_handle a = \<lparr>file_node = \<lparr>wc_inner = a, wc_cap = opts_cap (OpenOptions_new\<lparr>opt_read := True\<rparr>)\<rparr>, is_append = False, file_offset = 0\<rparr>"

lemma api_open_file:
  assumes "fs_lookup None path S = Ok a" and "nodes (vfs S) a = Some (RamFile c)"
  shows "api_open path S = (Ok (read_handle a), S\<lparr>vfs := hold a (vfs S)\<rparr>)"
  using assms by (simp add: api_open_def file_open_def file_open_at_def open_node_def is_valid_def OpenOptions_new_def
      and_then_def pure_res_def vfs_get_attr_def attr_new_file_def attr_is_dir_def read_handle_def)

lemma read_handle_ok:
  assumes "nodes (vfs S) a = Some (RamFile c)" and "length c < 2 ^ 63"
  shows "file_ok (read_handle a) S (read_handle a, S)" "file_rest (read_handle a, S) = c"
proof -
  have "can_access (file_node (read_handle a)) CAP_READ"
    by (simp add: can_access_def read_handle_def)
  moreover have "file_bytes (read_handle a, S) = Some c" using assms(1) by (simp add: file_bytes_Some read_handle_def)
  ultimately show "file_ok (read_handle a) S (read_handle a, S)" "file_rest (read_handle a, S) = c"
    using assms(2) by (simp_all add: file_ok_def file_rest_def file_readable_def) (simp_all add: read_handle_def)
qed

lemma api_read_file:
  assumes ok: "fs_ok S" and a: "fs_lookup None path S = Ok a" "nodes (vfs S) a = Some (RamFile c)"
    and len: "length c < 2 ^ 63" and fuel: "length c < fuel"
  shows "api_read fuel rand path S = (Ok c, S)"
proof -
  let ?S = "S\<lparr>vfs := hold a (vfs S)\<rparr>"
  have n: "nodes (vfs ?S) a = Some (RamFile c)" using a(2) by (simp add: hold_def)
  obtain fS where r: "read_to_end fuel (file_reader rand) ([], (read_handle a, ?S)) = (Ok (length c), ([] @ c, fS))"
    and k: "file_ok (read_handle a) ?S fS"
    using file_stream.read_to_end_all [OF read_handle_ok(1) [OF n len], where fuel = fuel and buf = "[]" and rand = rand] fuel
    unfolding read_handle_ok(2) [OF n len] by blast
  have fS: "snd fS = ?S" "node_of (fst fS) = a"
    using k by (simp_all add: file_ok_def) (metis File.select_convs(1) File.update_convs(3) File.surjective WithCap.select_convs(1) read_handle_def)
  have "linked a (vfs S)" using fs_lookup_linked [OF ok a] by simp
  then have drop: "closing (Ok c, fS) = (Ok c, S)"
    using fS by (cases fS) (simp add: closing_def file_drop_def release_hold)
  have attr: "fops_get_attr (read_handle a) ?S = Ok (attr_new_file (of_nat (length c)) 0)"
    using n by (simp add: fops_get_attr_def vfs_get_attr_def) (simp add: read_handle_def)
  have "\<not> (0x8000000000000000 :: u64) \<le> of_nat (length c)"
    using len unat_of_nat_64 [of "length c"] by (simp add: word_le_nat_alt)
  then show ?thesis
    using attr r drop by (simp add: api_read_def and_then_def api_open_file [OF a] attr_new_file_def)
qed

definition write_handle :: "addr \<Rightarrow> File" where
  "write_handle a = \<lparr>file_node = \<lparr>wc_inner = a, wc_cap = opts_cap (OpenOptions_new\<lparr>opt_write := True, opt_create := True, opt_truncate := True\<rparr>)\<rparr>,
     is_append = False, file_offset = 0\<rparr>"

lemma api_createE:
  assumes "api_create path S = (Ok f, S2)"
  obtains a n S1 s where "fs_lookup None path S1 = Ok a" "fs_ok S \<Longrightarrow> fs_ok S1" "nodes (vfs S1) a = Some n" "as_dir n = None"
    "vfs_truncate a 0 (vfs S1) = (Ok (), s)" "f = write_handle a" "S2 = S1\<lparr>vfs := hold a s\<rparr>"
proof -
  let ?opts = "OpenOptions_new\<lparr>opt_write := True, opt_create := True, opt_truncate := True\<rparr>"
  have v: "is_valid ?opts" "opt_create ?opts" "opt_truncate ?opts" "\<not> opt_append ?opts" by (simp_all add: is_valid_def OpenOptions_new_def)
  obtain a S1 where o: "open_node None path ?opts S = (Ok a, S1)"
    and rest: "and_then (\<lambda>S. pure_res (vfs_get_attr (vfs S) a) S) (\<lambda>attr S.
          if attr_is_dir attr \<and> (opt_create ?opts \<or> opt_create_new ?opts \<or> opt_write ?opts \<or> opt_append ?opts \<or> opt_truncate ?opts)
          then (Err IsADirectory, S)
          else if \<not> cap_contains (perm_to_cap (attr_mode attr)) (opts_cap ?opts) then (Err PermissionDenied, S)
          else and_then (if opt_truncate ?opts then on_vfs (vfs_truncate a 0) else (\<lambda>S. (Ok (), S)))
            (\<lambda>_ S. (Ok \<lparr>file_node = \<lparr>wc_inner = a, wc_cap = opts_cap ?opts\<rparr>, is_append = opt_append ?opts, file_offset = 0\<rparr>,
               S\<lparr>vfs := hold a (vfs S)\<rparr>)) S) S1 = (Ok f, S2)"
    using assms v(1) unfolding api_create_def file_open_def file_open_at_def by (auto simp: result_simps)
  obtain n where n: "nodes (vfs S1) a = Some n" "as_dir n = None"
    and tr: "and_then (on_vfs (vfs_truncate a 0)) (\<lambda>_ S. (Ok (write_handle a), S\<lparr>vfs := hold a (vfs S)\<rparr>)) S1 = (Ok f, S2)"
    using rest v by (auto simp: result_simps pure_res_def vfs_get_attr_def write_handle_def split: option.splits if_splits)
  obtain s where "vfs_truncate a 0 (vfs S1) = (Ok (), s)" "f = write_handle a" "S2 = S1\<lparr>vfs := hold a s\<rparr>"
    using tr by (auto simp: result_simps on_vfs_def split: prod.splits)
  then show ?thesis using that open_node_lookup [OF o] open_node_ok [OF _ o] n by blast
qed

lemma write_handle_access: "access (file_node (write_handle a)) CAP_WRITE = Ok a"
  by (simp add: access_def can_access_def write_handle_def)

lemma vfs_truncate_write_device:
  assumes "nodes s a = Some n" and "as_dir n = None" and "\<nexists>c. n = RamFile c" and "vfs_truncate a 0 s = (Ok (), t)"
  shows "t = s \<and> vfs_write_at a off buf s = (Ok (length buf), s)"
  using assms by (cases n) (auto simp: vfs_truncate_def vfs_write_at_def)

lemma file_write_fresh:
  assumes "length buf < 2 ^ 63"
  shows "file_write_at 0 buf [] = Ok (length buf, buf)"
  using file_write_at_bytes [of 0 buf "[]"] assms by simp

lemma fops_write_handle:
  assumes "vfs_write_at a 0 buf (vfs S) = (Ok (length buf), s)"
  shows "fops_write buf (write_handle a, S) =
    (Ok (length buf), ((write_handle a)\<lparr>file_offset := of_nat (length buf)\<rparr>, S\<lparr>vfs := s\<rparr>))"
  using assms write_handle_access [of a]
  by (simp add: fops_write_def in_fs_def pure_res_def and_then_def on_vfs_def) (simp add: write_handle_def)

lemma write_all_handle:
  assumes "vfs_write_at a 0 buf (vfs S) = (Ok (length buf), s)" and "buf = [] \<Longrightarrow> s = vfs S"
  shows "\<exists>f. write_all file_writer buf (write_handle a, S) = (Ok (), (f, S\<lparr>vfs := s\<rparr>)) \<and> node_of f = a"
proof (cases "buf = []")
  case True
  then show ?thesis using assms(2) by (simp add: write_all.simps write_handle_def)
next
  case False
  then show ?thesis using fops_write_handle [OF assms(1)]
    by (simp add: write_all.simps [of file_writer buf] file_writer_def write_all.simps [of file_writer "[]"]) (simp add: write_handle_def)
qed

lemma api_write_outcome:
  assumes ok: "fs_ok S" and len: "length contents < 2 ^ 63" and run: "api_write path contents S = (Ok (), S')"
  obtains S1 a n where "fs_ok S1" "fs_lookup None path S1 = Ok a" "nodes (vfs S1) a = Some n" "as_dir n = None"
    "S' = (if (\<exists>c. n = RamFile c) then S1\<lparr>vfs := set_node a (RamFile contents) (vfs S1)\<rparr> else S1)"
proof -
  obtain f S2 where cr: "api_create path S = (Ok f, S2)" and w: "closing (write_all file_writer contents (f, S2)) = (Ok (), S')"
    using run by (auto simp: api_write_def result_simps)
  obtain a n S1 s where l: "fs_lookup None path S1 = Ok a" "fs_ok S1" "nodes (vfs S1) a = Some n" "as_dir n = None"
    "vfs_truncate a 0 (vfs S1) = (Ok (), s)" "f = write_handle a" "S2 = S1\<lparr>vfs := hold a s\<rparr>"
    using api_createE [OF cr] ok by metis
  have link: "linked a (vfs S1)" by (rule fs_lookup_linked [OF l(2,1,3,4)])
  have hn: "nodes (hold a t) = nodes t" for t :: "'a Vfs" by (simp add: hold_def)
  show ?thesis
  proof (cases "\<exists>c. n = RamFile c")
    case True
    then obtain c where n: "n = RamFile c" by blast
    let ?s = "set_node a (RamFile contents) (vfs S1)"
    have "file_truncate 0 c = Ok []" by (cases c) (simp_all add: file_truncate_def vec_resize_def)
    then have s: "s = set_node a (RamFile []) (vfs S1)" using l(3,5) n by (simp add: vfs_truncate_def)
    have "nodes (vfs S2) a = Some (RamFile [])" using l(7) s by (simp add: hold_def set_node_def)
    then have "vfs_write_at a 0 contents (vfs S2) = (Ok (length contents), set_node a (RamFile contents) (vfs S2))"
      by (simp add: vfs_write_at_def file_write_fresh [OF len])
    moreover have "contents = [] \<Longrightarrow> set_node a (RamFile contents) (vfs S2) = vfs S2" using l(7) s by simp
    ultimately obtain f' where "write_all file_writer contents (write_handle a, S2) =
        (Ok (), (f', S2\<lparr>vfs := set_node a (RamFile contents) (vfs S2)\<rparr>))" "node_of f' = a"
      using write_all_handle [of a contents S2] by blast
    then have "S' = S1\<lparr>vfs := release a (hold a ?s)\<rparr>" using w l(6,7) s by (simp add: closing_def file_drop_def)
    moreover have "linked a ?s" using linked_set_file [OF l(3,4)] link by simp
    ultimately have "S' = S1\<lparr>vfs := ?s\<rparr>" by (simp add: release_hold)
    then show ?thesis using that [OF l(2,1,3,4)] True by simp
  next
    case False
    note dev = vfs_truncate_write_device [OF l(3,4) False l(5)]
    have "nodes (vfs S2) a = Some n" using dev l(3,7) by (simp add: hold_def)
    then have "vfs_write_at a 0 contents (vfs S2) = (Ok (length contents), vfs S2)"
      using False l(4,5) by (cases n) (auto simp: vfs_write_at_def vfs_truncate_def l(3))
    then obtain f' where "write_all file_writer contents (write_handle a, S2) = (Ok (), (f', S2\<lparr>vfs := vfs S2\<rparr>))" "node_of f' = a"
      using write_all_handle [of a contents S2 "vfs S2"] by blast
    then have "S' = S1\<lparr>vfs := release a (hold a (vfs S1))\<rparr>" using w l(6,7) dev by (simp add: closing_def file_drop_def)
    then have "S' = S1" by (simp add: release_hold [OF link])
    then show ?thesis using that [OF l(2,1,3,4)] False by simp
  qed
qed

subsection \<open>Properties\<close>

text \<open>
  A file that has been written as a whole is read back as a whole with the same bytes, whether the path
  named a file before or not and however long the file was, and reading leaves the file system as it was.
\<close>

lemma api_write_then_read:
  assumes "fs_ok S" and "length contents < 2 ^ 63" and "api_write path contents S = (Ok (), S')"
    and "fs_lookup None path S' = Ok a" and "nodes (vfs S') a = Some (RamFile c)" and "length contents < fuel"
  shows "fs_ok S' \<and> c = contents \<and> api_read fuel rand path S' = (Ok contents, S')"
proof -
  obtain S1 b n where o: "fs_ok S1" "fs_lookup None path S1 = Ok b" "nodes (vfs S1) b = Some n" "as_dir n = None"
    "S' = (if (\<exists>c. n = RamFile c) then S1\<lparr>vfs := set_node b (RamFile contents) (vfs S1)\<rparr> else S1)"
    using api_write_outcome [OF assms(1-3)] by metis
  have "\<exists>c. n = RamFile c" using o assms(4,5) by (auto split: if_splits)
  then have S': "S' = S1\<lparr>vfs := set_node b (RamFile contents) (vfs S1)\<rparr>" using o(5) by simp
  have same: "fs_lookup None path S' = Ok b"
    unfolding S' by (simp only: fs_lookup_same [OF same_tree_set_file [OF o(3,4)]] o(2))
  then have ab: "a = b" using assms(4) by simp
  have c: "c = contents" using assms(5) by (simp add: S' ab set_node_def)
  have ok: "fs_ok S'" using o(1) set_file_ok [of "vfs S1" b n "RamFile contents"] o(3,4)
    by (auto simp: S' fs_ok_def fs_refs_def) (simp add: set_node_def)
  then show ?thesis using api_read_file [OF ok assms(4,5)] c assms(2,6) by simp
qed

text \<open>
  An open directory never has the capability to execute, so that every operation that names a file
  relative to it is refused with \<open>PermissionDenied\<close> and has no effect.
\<close>

lemma directory_relative_denied:
  assumes "dir_open_at dir0 path0 opts0 S0 = (Ok d, S1)" and "\<not> starts_slash path"
  shows "dir_open_file_at d path opts S = (Err PermissionDenied, S) \<and> dir_open_dir_at d path opts S = (Err PermissionDenied, S) \<and>
    dir_create_file d path S = (Err PermissionDenied, S) \<and> dir_create_dir d path S = (Err PermissionDenied, S) \<and>
    dir_remove_file d path S = (Err PermissionDenied, S) \<and> dir_remove_dir d path S = (Err PermissionDenied, S)"
proof -
  have "wc_cap (dir_node d) = opts_cap opts0"
    using assms(1) by (auto simp: dir_open_at_def result_simps pure_res_def split: if_splits)
  then have "access_at d path = Err PermissionDenied"
    using assms(2) by (simp add: access_at_def access_def can_access_def)
  then show ?thesis
    by (simp add: dir_open_file_at_def dir_open_dir_at_def dir_create_file_def dir_create_dir_def dir_remove_file_def
        dir_remove_dir_def and_then_def pure_res_def)
qed

text \<open>
  C16: a \<open>BufReader\<close> around an open file delivers the bytes of the file from the cursor on, whether they are
  read through its own \<open>read_to_end\<close> or through the default one on top of its \<open>read\<close>; both loops end.
\<close>

theorem bufreader_delivers_file:
  assumes "file_ok f S (f, S)" and "length (file_rest (f, S)) < fuel"
  shows "(\<exists>b. br_read_to_end fuel (file_reader rand) ([], br_new (f, S)) = (Ok (length (file_rest (f, S))), (file_rest (f, S), b))) \<and>
    (\<exists>b. read_to_end fuel (br_read (file_reader rand)) ([], br_new (f, S)) = (Ok (length (file_rest (f, S))), (file_rest (f, S), b)))"
proof -
  have ok: "br_ok (file_ok f S) (br_new (f, S))" and rest: "br_rest file_rest (br_new (f, S)) = file_rest (f, S)"
    using br_new_stream(1) [of "file_ok f S" "(f, S)"] br_new_stream(2) [of file_rest "(f, S)"] assms(1) by simp_all
  have inner: "br_inner (br_new (f, S)) = (f, S)" by (simp add: br_new_def)
  show ?thesis
    using file_stream.br_read_to_end_stream [OF ok, where buf = "[]" and fuel = fuel and rand = rand]
      file_stream.buffered.read_to_end_all [OF ok, where buf = "[]" and fuel = fuel and rand = rand] assms(2)
    unfolding rest inner by auto
qed

theorem bufreader_delivers_file_witness:
  "\<exists>b. br_read_to_end 3 (file_reader (\<lambda>r n. ([], r))) ([], br_new (read_handle 3, demo_files)) = (Ok 0, ([], b))"
proof -
  have n: "nodes (vfs demo_files) 3 = Some (RamFile [])" by (simp add: demo_files_def demo_fs_eq)
  note h = read_handle_ok [OF n]
  have "file_ok (read_handle 3) demo_files (read_handle 3, demo_files)" "file_rest (read_handle 3, demo_files) = []" using h by simp_all
  then show ?thesis using bufreader_delivers_file [of "read_handle 3" demo_files 3 "\<lambda>r n. ([], r)"] by simp
qed

text \<open>
  \<open>read_exact\<close> of a \<open>BufReader\<close> that holds fewer bytes than it is asked for reads all of them from the file
  and keeps the buffered bytes: it skips them, and delivers them after bytes that follow them in the file.
\<close>

lemma bufreader_read_exact_skips:
  assumes "br_ok (file_ok f S) b" and "br_buffer b \<noteq> []" and "length (br_buffer b) < n" and "n \<le> 2 ^ 32"
    and "n \<le> length (file_rest (br_inner b))"
  shows "\<exists>b'. br_read_exact (file_reader rand) n b = (Ok (take n (file_rest (br_inner b))), b') \<and>
    br_rest file_rest b = br_buffer b @ file_rest (br_inner b) \<and>
    br_rest file_rest b' = br_buffer b @ drop n (file_rest (br_inner b))"
  using file_stream.br_read_exact_inner [OF assms(1,3,4,5), of rand] by (auto simp: br_rest_def)

text \<open>A reader over a file with the bytes 1 to 5 that has buffered the first two.\<close>

definition demo_reader :: "(File \<times> unit Fs) BufReader" where
  "demo_reader = \<lparr>br_inner = ((read_handle 3)\<lparr>file_offset := 2\<rparr>, demo_files\<lparr>vfs := set_node 3 (RamFile [1, 2, 3, 4, 5]) demo_fs\<rparr>),
     br_pos = 0, br_filled = 2, br_buf = [1, 2] @ replicate 1022 0\<rparr>"

lemma demo_reader_facts:
  "br_buffer demo_reader = [1, 2]" "file_rest (br_inner demo_reader) = [3, 4, 5]"
  "br_ok (file_ok (read_handle 3) (demo_files\<lparr>vfs := set_node 3 (RamFile [1, 2, 3, 4, 5]) demo_fs\<rparr>)) demo_reader"
proof -
  have b: "file_bytes (br_inner demo_reader) = Some [1, 2, 3, 4, 5]"
    by (simp add: demo_reader_def file_bytes_Some set_node_def) (simp add: read_handle_def)
  have r: "file_readable (read_handle 3)" by (simp add: file_readable_def can_access_def read_handle_def)
  show "br_buffer demo_reader = [1, 2]" by (simp add: br_buffer_def demo_reader_def)
  show "file_rest (br_inner demo_reader) = [3, 4, 5]" using b by (simp add: file_rest_def) (simp add: demo_reader_def)
  show "br_ok (file_ok (read_handle 3) (demo_files\<lparr>vfs := set_node 3 (RamFile [1, 2, 3, 4, 5]) demo_fs\<rparr>)) demo_reader"
    using b r by (simp add: br_ok_def file_ok_def) (simp add: demo_reader_def DEFAULT_BUF_SIZE_def)
qed

text \<open>
  A file opened with \<open>append\<close> writes at the end of the file wherever its cursor is and leaves the cursor at
  the new end; a file that was not opened for writing refuses, and nothing changes.
\<close>

lemma append_writes_at_end:
  assumes "file_bytes (f, S) = Some c" and "length c + length buf < 2 ^ 63"
  shows "(file_writable f \<and> is_append f \<longrightarrow> (\<exists>f' S'. fops_write buf (f, S) = (Ok (length buf), (f', S')) \<and>
      file_bytes (f', S') = Some (c @ buf) \<and> unat (file_offset f') = length c + length buf)) \<and>
    (\<not> file_writable f \<longrightarrow> fops_write buf (f, S) = (Err PermissionDenied, (f, S)))"
proof (intro conjI impI)
  have n: "nodes (vfs S) (node_of f) = Some (RamFile c)" using assms(1) by (simp add: file_bytes_Some)
  assume w: "file_writable f \<and> is_append f"
  then have acc: "access (file_node f) CAP_WRITE = Ok (node_of f)" by (simp add: file_writable_def access_def)
  have u: "unat (of_nat (length c) :: u64) = length c" using assms(2) by (intro unat_of_nat_64) simp
  have "file_write_at (of_nat (length c)) buf c = Ok (length buf, c @ buf)"
    using file_write_at_bytes [of "of_nat (length c)" buf c] assms(2) u by simp
  then have run: "fops_write buf (f, S) = (Ok (length buf), (f\<lparr>file_offset := of_nat (length c) + of_nat (length buf)\<rparr>,
      S\<lparr>vfs := set_node (node_of f) (RamFile (c @ buf)) (vfs S)\<rparr>))"
    using acc n w by (simp add: fops_write_def in_fs_def pure_res_def and_then_def on_vfs_def vfs_write_at_def
        fops_get_attr_def vfs_get_attr_def attr_new_file_def)
  have "unat (of_nat (length c) + of_nat (length buf) :: u64) = length c + length buf"
    using assms(2) u unat_end [of "of_nat (length c)" "length buf"] by simp
  then show "\<exists>f' S'. fops_write buf (f, S) = (Ok (length buf), (f', S')) \<and>
      file_bytes (f', S') = Some (c @ buf) \<and> unat (file_offset f') = length c + length buf"
    using run by (simp add: file_bytes_Some set_node_def)
next
  assume "\<not> file_writable f"
  then show "fops_write buf (f, S) = (Err PermissionDenied, (f, S))"
    by (simp add: file_writable_def fops_write_def in_fs_def pure_res_def and_then_def access_def)
qed

end
