(* ===== verification/FsClients.thy ===== *)
theory FsClients
  imports FsApiCorrect
begin

text \<open>
  Two clients of the file system interface: the iterator over a directory, which fetches entries in
  batches of 31, and a memory mapping, which reads and writes pages of a file at a position.
\<close>

subsection \<open>The iterator over a directory\<close>

definition is_dots :: "VfsDirEntry \<Rightarrow> bool" where
  "is_dots e \<longleftrightarrow> name_as_bytes e = ''.'' \<or> name_as_bytes e = ''..''"

definition item_of :: "string \<Rightarrow> VfsDirEntry \<Rightarrow> DirEntry" where
  "item_of path e = \<lparr>de_dir_path = path, de_name = name_as_bytes e, de_type = d_type e\<rparr>"

text \<open>The entries still to come, out of the entries \<open>L\<close> of the directory: those in the buffer and those not fetched yet.\<close>

definition rd_rest :: "VfsDirEntry list \<Rightarrow> ReadDir \<Rightarrow> VfsDirEntry list" where
  "rd_rest L it = take (rd_buf_end it - rd_buf_pos it) (drop (rd_buf_pos it) (rd_buf it)) @ drop (unat (entry_idx (rd_inner it))) L"

definition rd_ok :: "VfsDirEntry list \<Rightarrow> addr \<Rightarrow> ReadDir \<Rightarrow> bool" where
  "rd_ok L a it \<longleftrightarrow> length (rd_buf it) = 31 \<and> rd_buf_end it \<le> 31 \<and> rd_buf_pos it \<le> rd_buf_end it \<and> \<not> rd_end it \<and>
     unat (entry_idx (rd_inner it)) \<le> length L \<and> access (dir_node (rd_inner it)) CAP_READ = Ok a"

definition lists :: "'r Fs \<Rightarrow> addr \<Rightarrow> VfsDirEntry list \<Rightarrow> bool" where
  "lists S a L \<longleftrightarrow> length L < 2 ^ 63 \<and> (\<forall>idx buf. unat idx + length buf < 2 ^ 64 \<longrightarrow> vfs_read_dir (vfs S) a idx buf =
     (let ls = take (length buf) (drop (unat idx) L) in Ok (length ls, ls @ drop (length ls) buf)))"

lemma next_buffered:
  assumes "rd_ok L a it" and "rd_buf_pos it < rd_buf_end it"
  shows "rd_rest L it = rd_buf it ! rd_buf_pos it # rd_rest L (it\<lparr>rd_buf_pos := Suc (rd_buf_pos it)\<rparr>)"
    "rd_ok L a (it\<lparr>rd_buf_pos := Suc (rd_buf_pos it)\<rparr>)"
    "ReadDir_next (Suc fuel) (it, S) = (let e = rd_buf it ! rd_buf_pos it; it' = it\<lparr>rd_buf_pos := Suc (rd_buf_pos it)\<rparr> in
       if is_dots e then ReadDir_next fuel (it', S) else (Ok (Some (Ok (item_of (rd_path it) e))), (it', S)))"
proof -
  have pos: "rd_buf_pos it < length (rd_buf it)" "\<not> rd_end it" using assms by (auto simp: rd_ok_def)
  have "take (rd_buf_end it - rd_buf_pos it) (drop (rd_buf_pos it) (rd_buf it)) =
      rd_buf it ! rd_buf_pos it # take (rd_buf_end it - Suc (rd_buf_pos it)) (drop (Suc (rd_buf_pos it)) (rd_buf it))"
    using Cons_nth_drop_Suc [OF pos(1)] assms(2) by (metis Suc_diff_Suc take_Suc_Cons)
  then show "rd_rest L it = rd_buf it ! rd_buf_pos it # rd_rest L (it\<lparr>rd_buf_pos := Suc (rd_buf_pos it)\<rparr>)"
    by (simp add: rd_rest_def)
  show "rd_ok L a (it\<lparr>rd_buf_pos := Suc (rd_buf_pos it)\<rparr>)" using assms by (simp add: rd_ok_def)
  show "ReadDir_next (Suc fuel) (it, S) = (let e = rd_buf it ! rd_buf_pos it; it' = it\<lparr>rd_buf_pos := Suc (rd_buf_pos it)\<rparr> in
       if is_dots e then ReadDir_next fuel (it', S) else (Ok (Some (Ok (item_of (rd_path it) e))), (it', S)))"
    using assms(2) pos by (simp add: ReadDir_next.simps(2) Let_def is_dots_def item_of_def)
qed

lemma next_refill:
  assumes ok: "rd_ok L a it" and empty: "\<not> rd_buf_pos it < rd_buf_end it" and L: "lists S a L"
  defines "ls \<equiv> take 31 (drop (unat (entry_idx (rd_inner it))) L)"
  defines "it' \<equiv> it\<lparr>rd_inner := (rd_inner it)\<lparr>entry_idx := entry_idx (rd_inner it) + of_nat (length ls)\<rparr>,
    rd_buf := ls @ drop (length ls) (rd_buf it), rd_buf_pos := 0, rd_buf_end := length ls\<rparr>"
  shows "rd_rest L it = drop (unat (entry_idx (rd_inner it))) L"
    "ls = [] \<Longrightarrow> \<exists>it''. ReadDir_next (Suc fuel) (it, S) = (Ok None, (it'', S))"
    "ls \<noteq> [] \<Longrightarrow> ReadDir_next (Suc fuel) (it, S) = ReadDir_next (Suc fuel) (it', S)"
    "rd_ok L a it'" "rd_rest L it' = rd_rest L it"
proof -
  let ?idx = "entry_idx (rd_inner it)"
  have idx: "unat ?idx \<le> length L" "length L < 2 ^ 63" "length (rd_buf it) = 31" using ok L by (auto simp: rd_ok_def lists_def)
  have run: "dir_read_dir (rd_buf it) (rd_inner it, S) = (Ok (length ls, ls @ drop (length ls) (rd_buf it)),
      ((rd_inner it)\<lparr>entry_idx := ?idx + of_nat (length ls)\<rparr>, S))"
  proof -
    have "vfs_read_dir (vfs S) a ?idx (rd_buf it) = Ok (length ls, ls @ drop (length ls) (rd_buf it))"
      using L idx unfolding lists_def ls_def by (simp add: Let_def)
    then show ?thesis using ok by (simp add: dir_read_dir_def rd_ok_def)
  qed
  have pos: "rd_buf_pos it = rd_buf_end it" "\<not> rd_end it" using ok empty by (auto simp: rd_ok_def)
  show rest: "rd_rest L it = drop (unat ?idx) L" by (simp add: rd_rest_def pos)
  show "\<exists>it''. ReadDir_next (Suc fuel) (it, S) = (Ok None, (it'', S))" if "ls = []"
    using run pos that by (simp add: ReadDir_next.simps(2))
  show "ReadDir_next (Suc fuel) (it, S) = ReadDir_next (Suc fuel) (it', S)" if "ls \<noteq> []"
    using run pos that by (simp add: ReadDir_next.simps(2) it'_def)
  have le: "length ls \<le> length L - unat ?idx" "length ls \<le> 31" by (simp_all add: ls_def)
  then have new: "unat (?idx + of_nat (length ls)) = unat ?idx + length ls"
    using idx by (intro unat_end) simp
  show "rd_ok L a it'" using ok le new idx by (simp add: rd_ok_def it'_def)
  have "drop (unat ?idx + length ls) L = drop 31 (drop (unat ?idx) L)" by (simp add: ls_def min_def add.commute)
  moreover have "rd_rest L it' = ls @ drop (unat (?idx + of_nat (length ls))) L" by (simp add: rd_rest_def it'_def)
  ultimately have "rd_rest L it' = ls @ drop 31 (drop (unat ?idx) L)" unfolding new by (simp only:)
  then show "rd_rest L it' = rd_rest L it" unfolding rest ls_def by (simp only: append_take_drop_id)
qed

lemma next_step:
  assumes ok: "rd_ok L a it" and L: "lists S a L" and rest: "rd_rest L it = e # es"
  shows "\<exists>it'. rd_ok L a it' \<and> rd_rest L it' = es \<and> rd_path it' = rd_path it \<and> ReadDir_next (Suc fuel) (it, S) =
    (if is_dots e then ReadDir_next fuel (it', S) else (Ok (Some (Ok (item_of (rd_path it) e))), (it', S)))"
proof -
  have buffered: "\<exists>it'. rd_ok L a it' \<and> rd_rest L it' = es \<and> rd_path it' = rd_path it \<and> ReadDir_next (Suc fuel) (it, S) =
      (if is_dots e then ReadDir_next fuel (it', S) else (Ok (Some (Ok (item_of (rd_path it) e))), (it', S)))"
    if "rd_ok L a it" "rd_buf_pos it < rd_buf_end it" "rd_rest L it = e # es" for it
  proof -
    note nb = next_buffered [OF that(1,2)]
    have "e = rd_buf it ! rd_buf_pos it" "es = rd_rest L (it\<lparr>rd_buf_pos := Suc (rd_buf_pos it)\<rparr>)" using nb(1) that(3) by simp_all
    then show ?thesis using nb(2) nb(3) [of fuel S] unfolding Let_def
      by (intro exI [of _ "it\<lparr>rd_buf_pos := Suc (rd_buf_pos it)\<rparr>"]) simp
  qed
  show ?thesis
  proof (cases "rd_buf_pos it < rd_buf_end it")
    case False
    let ?ls = "take 31 (drop (unat (entry_idx (rd_inner it))) L)"
    let ?it = "it\<lparr>rd_inner := (rd_inner it)\<lparr>entry_idx := entry_idx (rd_inner it) + of_nat (length ?ls)\<rparr>,
      rd_buf := ?ls @ drop (length ?ls) (rd_buf it), rd_buf_pos := 0, rd_buf_end := length ?ls\<rparr>"
    note refill = next_refill [OF ok False L]
    have ne: "?ls \<noteq> []" using refill(1) rest by auto
    then have "0 < length ?ls" by (rule length_pos_if_in_set [OF hd_in_set])
    then have "rd_buf_pos ?it < rd_buf_end ?it" by simp
    moreover have "rd_rest L ?it = e # es" using refill(5) rest by (simp only:)
    moreover have "rd_path ?it = rd_path it" by simp
    ultimately show ?thesis using buffered [of ?it, OF refill(4)] unfolding refill(3) [OF ne] by metis
  qed (use buffered ok rest in blast)
qed

lemma next_end: "rd_ok L a it \<Longrightarrow> lists S a L \<Longrightarrow> rd_rest L it = [] \<Longrightarrow> \<exists>it'. ReadDir_next (Suc fuel) (it, S) = (Ok None, (it', S))"
  using next_buffered(1) [of L a it] next_refill(1) [of L a it S] next_refill(2) [of L a it S fuel]
  by (cases "rd_buf_pos it < rd_buf_end it") auto

lemma next_skips:
  assumes "lists S a L" and "\<forall>e \<in> set dots. is_dots e" and "\<forall>e \<in> set cs. \<not> is_dots e" and "length dots < fuel"
    and "rd_ok L a it" and "rd_rest L it = dots @ cs"
  shows "\<exists>it'. ReadDir_next fuel (it, S) = (case cs of [] \<Rightarrow> (Ok None, (it', S))
      | c # cs' \<Rightarrow> (Ok (Some (Ok (item_of (rd_path it) c))), (it', S))) \<and>
    (cs \<noteq> [] \<longrightarrow> rd_ok L a it' \<and> rd_rest L it' = tl cs \<and> rd_path it' = rd_path it)"
  using assms(2,4,5,6)
proof (induction dots arbitrary: fuel it)
  case Nil
  obtain fuel' where f: "fuel = Suc fuel'" using Nil(2) by (cases fuel) auto
  show ?case
  proof (cases cs)
    case (Cons c cs')
    then show ?thesis using next_step [OF Nil(3) assms(1), of c cs' fuel'] Nil(4) assms(3) f by auto
  qed (use next_end [OF Nil(3) assms(1), of fuel'] Nil(4) f in auto)
next
  case (Cons e dots)
  obtain fuel' where f: "fuel = Suc fuel'" "length dots < fuel'" using Cons.prems(2) by (cases fuel) auto
  obtain it1 where i1: "rd_ok L a it1" "rd_rest L it1 = dots @ cs" "rd_path it1 = rd_path it"
    "ReadDir_next fuel (it, S) = ReadDir_next fuel' (it1, S)"
    using next_step [OF Cons.prems(3) assms(1), of e "dots @ cs" fuel'] Cons.prems(1,4) f(1) by auto
  have "\<forall>e \<in> set dots. is_dots e" using Cons.prems(1) by simp
  then show ?case using Cons.IH [of fuel' it1] i1(1,2) f(2) unfolding i1(3,4) by blast
qed

lemma ReadDir_all_yields:
  assumes "lists S a L" and "\<forall>e \<in> set dots. is_dots e" and "\<forall>e \<in> set cs. \<not> is_dots e" and "length dots < 3"
    and "rd_ok L a it" and "rd_rest L it = dots @ cs" and "length cs < fuel"
  shows "ReadDir_all fuel (it, S) = Ok (map (item_of (rd_path it)) cs)"
  using assms(2-7)
proof (induction cs arbitrary: fuel it dots)
  case Nil
  then show ?case using next_skips [OF assms(1), of dots "[]" 3 it] by (cases fuel) auto
next
  case (Cons c cs)
  obtain fuel' where f: "fuel = Suc fuel'" "length cs < fuel'" using Cons.prems(6) by (cases fuel) auto
  obtain it1 where i1: "ReadDir_next 3 (it, S) = (Ok (Some (Ok (item_of (rd_path it) c))), (it1, S))" "rd_ok L a it1"
    "rd_rest L it1 = cs" "rd_path it1 = rd_path it"
    using next_skips [OF assms(1), of dots "c # cs" 3 it] Cons.prems(1-5) by auto
  have "ReadDir_all fuel' (it1, S) = Ok (map (item_of (rd_path it)) cs)"
    using Cons.IH [of "[]" it1 fuel'] Cons.prems(2) i1 f(2) by simp
  then show ?case by (simp add: f(1) i1(1))
qed

lemma entry_of_name:
  assumes "length name \<le> 63" and "CHR 0x00 \<notin> set name"
  shows "name_as_bytes (entry_of (name, ty)) = name" "d_type (entry_of (name, ty)) = ty"
  using dirent_roundtrip [OF assms, of ty] by (auto simp: dirent_new_entry [OF assms(1)])

lemma ReadDir_new_run:
  assumes "ReadDir_new path S = (Ok it, S1)" and "fs_lookup None path S = Ok a"
  shows "S1 = S\<lparr>vfs := hold a (vfs S)\<rparr>" "rd_path it = path" "rd_rest L it = L"
    "rd_ok L a it"
proof -
  let ?opts = "OpenOptions_new\<lparr>opt_read := True\<rparr>"
  have "S1 = S\<lparr>vfs := hold a (vfs S)\<rparr>" "it = \<lparr>rd_path = path, rd_inner = \<lparr>dir_node = \<lparr>wc_inner = a, wc_cap = opts_cap ?opts\<rparr>,
      entry_idx = 0\<rparr>, rd_buf_pos = 0, rd_buf_end = 0, rd_end = False, rd_buf = replicate 31 dirent_default\<rparr>"
    using assms by (auto simp: ReadDir_new_def dir_open_at_def result_simps pure_res_def split: if_splits)
  then show "S1 = S\<lparr>vfs := hold a (vfs S)\<rparr>" "rd_path it = path" "rd_rest L it = L" "rd_ok L a it"
    by (simp_all add: rd_rest_def rd_ok_def access_def can_access_def)
qed

lemma lists_listing:
  assumes "vfs_ok (vfs S)" and "nodes (vfs S) a = Some n" and "as_dir n = Some d"
    and "\<forall>(name, c) \<in> set (dir_children d). length name \<le> 63" and "length (dir_children d) < 2 ^ 62"
  shows "lists S a (map entry_of (listing (vfs S) d))"
  using read_dir_lists [OF assms(1-4)] assms(5) by (simp add: lists_def listing_def)

subsection \<open>Properties of the iterator\<close>

text \<open>
  C14: iterating over a directory yields one item for each child, in the order of the names and with the
  type of its node, without \<open>.\<close> and \<open>..\<close>, however many batches that takes, and then ends.
\<close>

theorem read_dir_yields_children:
  assumes "fs_ok S" and "ReadDir_new path S = (Ok it, S1)" and "fs_lookup None path S = Ok a"
    and "nodes (vfs S) a = Some n" and "as_dir n = Some d" and "length (dir_children d) < 2 ^ 62" and "length (dir_children d) < fuel"
    and "\<forall>(name, c) \<in> set (dir_children d). length name \<le> 63 \<and> CHR 0x00 \<notin> set name"
  shows "ReadDir_all fuel (it, S1) = Ok (map (\<lambda>(name, c). \<lparr>de_dir_path = path, de_name = name,
    de_type = attr_ty (node_attr (the (nodes (vfs S) c)))\<rparr>) (dir_children d))"
proof -
  define L where "L = map entry_of (listing (vfs S) d)"
  let ?cs = "map (\<lambda>(name, c). (name, attr_ty (node_attr (the (nodes (vfs S) c))))) (dir_children d)"
  have vok: "vfs_ok (vfs S)" using assms(1) by (simp add: fs_ok_def)
  note new = ReadDir_new_run [OF assms(2,3)]
  have "lists S a L" unfolding L_def using lists_listing [OF vok assms(4,5)] assms(6,8) by auto
  moreover have "vfs_read_dir (hold a (vfs S)) a idx buf = vfs_read_dir (vfs S) a idx buf" for idx buf
  proof -
    have "nodes (hold a (vfs S)) = nodes (vfs S)" by (simp add: hold_def)
    moreover have "read_dir_loop (hold a (vfs S)) i j cs es = read_dir_loop (vfs S) i j cs es" for i j cs es
      by (induction "vfs S" i j cs es rule: read_dir_loop.induct) (simp_all add: vfs_get_attr_def hold_def split: list.splits)
    ultimately show ?thesis by (simp only: vfs_read_dir_def)
  qed
  ultimately have lst: "lists S1 a L" using new(1) by (simp add: lists_def)
  have nm: "name_ok name \<and> length name \<le> 63 \<and> CHR 0x00 \<notin> set name" if "(name, c) \<in> set (dir_children d)" for name c
    using vfs_okD(4) [OF vok, of a name c] assms(4,8) that as_dir_children [OF assms(5)] by (auto simp: child_def)
  have L: "L = [entry_of (''.'', TyDir), entry_of (''..'', TyDir)] @ map entry_of ?cs" by (simp add: L_def listing_def)
  have dots: "\<forall>e \<in> set [entry_of (''.'', TyDir), entry_of (''..'', TyDir)]. is_dots e"
    by (simp add: is_dots_def entry_of_name)
  have cs: "\<forall>e \<in> set (map entry_of ?cs). \<not> is_dots e"
    using nm by (auto simp: is_dots_def entry_of_name name_ok_def)
  have "ReadDir_all fuel (it, S1) = Ok (map (item_of (rd_path it)) (map entry_of ?cs))"
    using ReadDir_all_yields [OF lst dots cs _ new(4)] new(3) [of L] L assms(7) by simp
  moreover have "map (item_of path) (map entry_of ?cs) = map (\<lambda>(name, c). \<lparr>de_dir_path = path, de_name = name,
    de_type = attr_ty (node_attr (the (nodes (vfs S) c)))\<rparr>) (dir_children d)"
    using nm by (auto simp: item_of_def entry_of_name)
  ultimately show ?thesis by (simp only: new(2))
qed

theorem read_dir_yields_children_witness:
  "\<exists>it S1. ReadDir_new ''/'' demo_files = (Ok it, S1) \<and>
     res_bind (ReadDir_all 3 (it, S1)) (\<lambda>es. Ok (map DirEntry_path es)) = Ok [''/a'', ''/f'']"
proof -
  define p where "p = ReadDir_new ''/'' demo_files"
  have "is_ok (fst p)" unfolding p_def by code_simp
  then obtain it where it: "ReadDir_new ''/'' demo_files = (Ok it, snd p)"
    unfolding is_ok_iff p_def by (metis prod.collapse)
  have l: "fs_lookup None ''/'' demo_files = Ok 0" by code_simp
  have n: "nodes (vfs demo_files) 0 = Some (RamDir \<lparr>dir_parent = None, dir_children = [(''a'', 1), (''f'', 3)]\<rparr>)"
    by (simp add: demo_files_def demo_fs_eq)
  show ?thesis using read_dir_yields_children [OF demo_files_ok it l n, of _ 3] it by (auto simp: DirEntry_path_def)
qed

subsection \<open>A mapping and the file behind it\<close>

lemma checked_add_signed_nat:
  assumes "unat x + n < 2 ^ 64"
  shows "checked_add_signed x (int n) = Some (x + of_nat n)"
proof -
  have "int (unat x + n) < int (2 ^ 64)" using assms by (simp only: of_nat_less_iff)
  then have "uint x + int n < 2 ^ 64" by simp
  moreover have "word_of_int (uint x + int n) = x + of_nat n" by simp
  ultimately show ?thesis by (simp add: checked_add_signed_def Let_def)
qed

lemma fops_seek_run:
  assumes "file_bytes (f, S) = Some c"
  shows "fops_seek (SeekStart p) (f, S) = (Ok p, (f\<lparr>file_offset := p\<rparr>, S))"
    "unat (file_offset f) + n < 2 ^ 64 \<Longrightarrow>
      fops_seek (SeekCurrent (int n)) (f, S) = (Ok (file_offset f + of_nat n), (f\<lparr>file_offset := file_offset f + of_nat n\<rparr>, S))"
  using assms by (simp_all add: file_bytes_Some fops_seek_def and_then_def fops_get_attr_def vfs_get_attr_def checked_add_signed_nat)

lemma read_from_seek_bytes:
  assumes c: "file_bytes (f, S) = Some c" and rd: "file_readable f" and n: "n \<le> 2 ^ 32"
    and b: "max (unat (file_offset f) + k) (length c) + 2 ^ 32 < 2 ^ 64"
  shows "read_from_seek rand (SeekCurrent (int k)) n (f, S) = (Ok (take n (drop (unat (file_offset f) + k) c)), (f, S))"
proof -
  let ?f = "f\<lparr>file_offset := file_offset f + of_nat k\<rparr>"
  have bound: "unat (file_offset f) + k < 2 ^ 64" using b by simp
  then have off: "unat (file_offset ?f) = unat (file_offset f) + k" by (simp add: unat_end)
  have c': "file_bytes (f\<lparr>file_offset := p\<rparr>, S) = Some c" for p using c by (simp add: file_bytes_Some)
  have ok: "file_ok f S (?f, S)" using c' b off rd by (simp add: file_ok_def)
  have rest: "file_rest (?f, S) = drop (unat (file_offset f) + k) c" by (simp only: file_rest_def c' option.case fst_conv off)
  obtain fS where r: "read_full n (file_reader rand) (?f, S) = (Ok (take n (drop (unat (file_offset f) + k) c)), fS)" "file_ok f S fS"
    using file_stream.read_full_takes [OF ok n, of rand] unfolding rest by blast
  obtain f' where fS: "fS = (f', S)" "f' = f\<lparr>file_offset := file_offset f'\<rparr>" using r(2) by (cases fS) (auto simp: file_ok_def)
  have "file_bytes (f', S) = Some c" by (subst fS(2)) (rule c')
  then have rewind: "fops_seek (SeekStart (file_offset f)) (f', S) = (Ok (file_offset f), (f'\<lparr>file_offset := file_offset f\<rparr>, S))"
    by (rule fops_seek_run)
  have same: "f'\<lparr>file_offset := file_offset f\<rparr> = f" by (subst fS(2)) simp
  have cur: "fops_seek (SeekCurrent 0) (f, S) = (Ok (file_offset f), (f, S))"
    using fops_seek_run(2) [OF c, of 0] by simp
  show ?thesis
    using cur fops_seek_run(2) [OF c bound] r(1) rewind
    by (simp add: read_from_seek_def and_then_def unwrap_act_def fS(1) same)
qed

text \<open>The content of a file after \<open>buf\<close> has been written at \<open>p\<close>, with zeros up to there if it was shorter.\<close>

definition written :: "nat \<Rightarrow> u8 list \<Rightarrow> u8 list \<Rightarrow> u8 list" where
  "written p buf c = take p (c @ replicate (p - length c) 0) @ buf @ drop (p + length buf) c"

lemma write_to_seek_bytes:
  assumes c: "file_bytes (f, S) = Some c" and wr: "file_writable f" and na: "\<not> is_append f" and b: "unat p + length buf < 2 ^ 63"
  shows "write_to_seek (SeekStart p) buf (f, S) =
    (Ok (length buf), (f, S\<lparr>vfs := set_node (node_of f) (RamFile (written (unat p) buf c)) (vfs S)\<rparr>))"
proof -
  let ?S = "S\<lparr>vfs := set_node (node_of f) (RamFile (written (unat p) buf c)) (vfs S)\<rparr>"
  let ?f = "f\<lparr>file_offset := p\<rparr>"
  have acc: "access (file_node f) CAP_WRITE = Ok (node_of f)" using wr by (simp add: file_writable_def access_def)
  have n: "nodes (vfs S) (node_of f) = Some (RamFile c)" using c by (simp add: file_bytes_Some)
  have w: "fops_write buf (?f, S) = (Ok (length buf), (?f\<lparr>file_offset := p + of_nat (length buf)\<rparr>, ?S))"
    using acc n na file_write_at_bytes [OF b, of c]
    by (simp add: fops_write_def in_fs_def pure_res_def and_then_def on_vfs_def vfs_write_at_def written_def)
  have cur: "fops_seek (SeekCurrent 0) (f, S) = (Ok (file_offset f), (f, S))"
    using fops_seek_run(2) [OF c, of 0] by simp
  have "file_bytes (?f\<lparr>file_offset := p + of_nat (length buf)\<rparr>, ?S) = Some (written (unat p) buf c)"
    by (simp add: file_bytes_Some set_node_def)
  then have rewind: "fops_seek (SeekStart (file_offset f)) (?f\<lparr>file_offset := p + of_nat (length buf)\<rparr>, ?S) = (Ok (file_offset f), (f, ?S))"
    using fops_seek_run(1) by fastforce
  show ?thesis
    using cur fops_seek_run(1) [OF c, of p] w rewind by (simp add: write_to_seek_def and_then_def unwrap_act_def)
qed

lemma page_position:
  assumes "k * 4096 < 2 ^ 62"
  shows "unat (of_nat k * PAGE_SIZE_4K :: u64) = k * 4096" "sint (of_nat k * PAGE_SIZE_4K :: u64) = int (k * 4096)"
proof -
  have w: "(of_nat k * PAGE_SIZE_4K :: u64) = of_nat (k * 4096)" by (simp add: PAGE_SIZE_4K_def)
  show u: "unat (of_nat k * PAGE_SIZE_4K :: u64) = k * 4096" unfolding w using assms by (intro unat_of_nat_64) simp
  have "sint (of_nat m :: u64) = signed_take_bit 63 (int m)" for m by (simp add: signed_of_nat)
  then have "sint (of_nat (k * 4096) :: u64) = signed_take_bit 63 (int (k * 4096))" .
  also have "\<dots> = int (k * 4096)" using assms by (intro signed_take_bit_int_eq_self) simp_all
  finally show "sint (of_nat k * PAGE_SIZE_4K :: u64) = int (k * 4096)" unfolding w .
qed

lemma written_take: "take (length buf) (drop p (written p buf c)) = buf"
  by (simp add: written_def)

lemma written_drop: "p + length buf \<le> q \<Longrightarrow> drop q (written p buf c) = drop q c"
  by (simp add: written_def min_def)

lemma written_length: "length (written p buf c) = max (length c) (p + length buf)"
  by (auto simp: written_def min_def max_def)


text \<open>The file \<open>f\<close> of the demonstration tree, opened for reading and writing at \<open>off\<close>.\<close>

definition demo_handle :: "u64 \<Rightarrow> File" where
  "demo_handle off = \<lparr>file_node = \<lparr>wc_inner = 3, wc_cap = opts_cap (OpenOptions_new\<lparr>opt_read := True, opt_write := True\<rparr>)\<rparr>,
     is_append = False, file_offset = off\<rparr>"

definition demo_mapping :: "(File \<times> unit Fs) MapArea" where
  "demo_mapping = \<lparr>pages = [Some \<lparr>start_vaddr = 0x1000\<rparr>], vaddr = 0x4000, area_flags = 0, backend = Some (demo_handle 0, demo_files)\<rparr>"


end
