(* ===== verification/Disk.thy ===== *)
theory Disk
  imports Io
begin

text \<open>
  \<open>modules/axfs/src/dev.rs\<close>: a disk with a cursor over a block device, and the readers and writers that
  \<open>fs/fatfs.rs\<close> builds on it; \<open>crates/driver_block/src/ramdisk.rs\<close>: the block device in memory. A driver is the record
  \<open>BlockOps\<close> of its operations; the locale \<open>block_device\<close> says that it stores bytes, and the RAM disk does.
\<close>

datatype DevError = AlreadyExistsDev | Again | BadStateDev | InvalidParamDev | IoDev | NoMemoryDev | ResourceBusyDev | UnsupportedDev

definition BLOCK_SIZE :: usize where "BLOCK_SIZE = 512"

record 'd BlockOps =
  num_blocks :: "'d \<Rightarrow> u64"
  block_size :: "'d \<Rightarrow> usize"
  read_block :: "u64 \<Rightarrow> nat \<Rightarrow> ('d, u8 list, DevError) action"
  write_block :: "u64 \<Rightarrow> u8 list \<Rightarrow> ('d, unit, DevError) action"

subsection \<open>The RAM disk\<close>

record RamDisk =
  ram_size :: usize
  ram_data :: "u8 list"

definition align_up_block :: "usize \<Rightarrow> usize" where
  "align_up_block val = (val + BLOCK_SIZE - 1) AND NOT (BLOCK_SIZE - 1)"

text \<open>\<open>vec![0; size]\<close> panics when \<open>size\<close> exceeds \<open>isize::MAX\<close>.\<close>

definition RamDisk_new :: "usize \<Rightarrow> (RamDisk, DevError) result" where
  "RamDisk_new size_hint = (let sz = align_up_block size_hint in
     if sz \<ge> 0x8000000000000000 then Panic else Ok \<lparr>ram_size = sz, ram_data = replicate (unat sz) 0\<rparr>)"

definition RamDisk_from :: "u8 list \<Rightarrow> (RamDisk, DevError) result" where
  "RamDisk_from buf = (let sz = align_up_block (of_nat (length buf)) in
     if sz \<ge> 0x8000000000000000 then Panic
     else Ok \<lparr>ram_size = sz, ram_data = buf @ replicate (unat sz - length buf) 0\<rparr>)"

definition ram_num_blocks :: "RamDisk \<Rightarrow> u64" where
  "ram_num_blocks d = ram_size d div BLOCK_SIZE"

text \<open>\<open>&self.data[offset..end]\<close> panics when the range is not within the data.\<close>

definition ram_read_block :: "u64 \<Rightarrow> nat \<Rightarrow> (RamDisk, u8 list, DevError) action" where
  "ram_read_block bid n d =
     (let offset = bid * BLOCK_SIZE; fin = offset + of_nat n in
      if fin > ram_size d then (Err IoDev, d)
      else if n mod 512 \<noteq> 0 then (Err InvalidParamDev, d)
      else if offset > fin \<or> unat fin > length (ram_data d) then (Panic, d)
      else (Ok (take n (drop (unat offset) (ram_data d))), d))"

definition ram_write_block :: "u64 \<Rightarrow> u8 list \<Rightarrow> (RamDisk, unit, DevError) action" where
  "ram_write_block bid buf d =
     (let offset = bid * BLOCK_SIZE; fin = offset + of_nat (length buf) in
      if fin > ram_size d then (Err IoDev, d)
      else if length buf mod 512 \<noteq> 0 then (Err InvalidParamDev, d)
      else if offset > fin \<or> unat fin > length (ram_data d) then (Panic, d)
      else (Ok (), d\<lparr>ram_data := take (unat offset) (ram_data d) @ buf @ drop (unat fin) (ram_data d)\<rparr>))"

definition ram_ops :: "RamDisk BlockOps" where
  "ram_ops = \<lparr>num_blocks = ram_num_blocks, block_size = (\<lambda>_. BLOCK_SIZE), read_block = ram_read_block, write_block = ram_write_block\<rparr>"

subsection \<open>The cursor: \<open>dev.rs\<close>\<close>

record 'd Disk =
  block_id :: u64
  disk_offset :: usize
  dev :: 'd

definition Disk_new :: "'d BlockOps \<Rightarrow> 'd \<Rightarrow> ('d Disk, DevError) result" where
  "Disk_new B d = (if block_size B d \<noteq> BLOCK_SIZE then Panic else Ok \<lparr>block_id = 0, disk_offset = 0, dev = d\<rparr>)"

definition disk_size :: "'d BlockOps \<Rightarrow> 'd Disk \<Rightarrow> u64" where
  "disk_size B k = num_blocks B (dev k) * BLOCK_SIZE"

definition disk_position :: "'d Disk \<Rightarrow> u64" where
  "disk_position k = block_id k * BLOCK_SIZE + disk_offset k"

definition set_position :: "u64 \<Rightarrow> 'd Disk \<Rightarrow> 'd Disk" where
  "set_position p k = k\<lparr>block_id := p div BLOCK_SIZE, disk_offset := p mod BLOCK_SIZE\<rparr>"

definition on_dev :: "('d, 'a, 'e) action \<Rightarrow> ('d Disk, 'a, 'e) action" where
  "on_dev m k = (case m (dev k) of (r, d) \<Rightarrow> (r, k\<lparr>dev := d\<rparr>))"

definition advance :: "nat \<Rightarrow> 'd Disk \<Rightarrow> 'd Disk" where
  "advance count k = (let off = disk_offset k + of_nat count in
     if off \<ge> BLOCK_SIZE then k\<lparr>block_id := block_id k + 1, disk_offset := off - BLOCK_SIZE\<rparr>
     else k\<lparr>disk_offset := off\<rparr>)"

definition read_one :: "'d BlockOps \<Rightarrow> nat \<Rightarrow> ('d Disk, u8 list, DevError) action" where
  "read_one B n k =
     (if disk_offset k = 0 \<and> n \<ge> 512
      then and_then (on_dev (read_block B (block_id k) 512)) (\<lambda>bs k. (Ok bs, k\<lparr>block_id := block_id k + 1\<rparr>)) k
      else let start = disk_offset k; count = min n (unat (BLOCK_SIZE - disk_offset k)) in
        and_then (on_dev (read_block B (block_id k) 512)) (\<lambda>data k.
          if unat (start + of_nat count) > 512 \<or> unat start > unat (start + of_nat count) then (Panic, k)
          else (Ok (take count (drop (unat start) data)), advance count k)) k)"

definition write_one :: "'d BlockOps \<Rightarrow> u8 list \<Rightarrow> ('d Disk, nat, DevError) action" where
  "write_one B buf k =
     (if disk_offset k = 0 \<and> length buf \<ge> 512
      then and_then (on_dev (write_block B (block_id k) (take 512 buf))) (\<lambda>_ k. (Ok 512, k\<lparr>block_id := block_id k + 1\<rparr>)) k
      else let start = disk_offset k; count = min (length buf) (unat (BLOCK_SIZE - disk_offset k)) in
        and_then (on_dev (read_block B (block_id k) 512)) (\<lambda>data k.
          if unat (start + of_nat count) > 512 \<or> unat start > unat (start + of_nat count) then (Panic, k)
          else let data' = take (unat start) data @ take count buf @ drop (unat start + count) data in
            and_then (on_dev (write_block B (block_id k) data')) (\<lambda>_ k. (Ok count, advance count k)) k) k)"

subsection \<open>Reading and writing: \<open>fatfs.rs\<close>\<close>

text \<open>The loop of \<open>read\<close>: \<open>got\<close> are the bytes read so far, \<open>n\<close> bytes of the buffer are left.\<close>

function disk_read_loop :: "'d BlockOps \<Rightarrow> nat \<Rightarrow> u8 list \<Rightarrow> ('d Disk, u8 list, unit) action" where
  "disk_read_loop B n got k =
     (if n = 0 then (Ok got, k)
      else case read_one B n k of
          (Ok bs, k') \<Rightarrow> if bs = [] then (Ok got, k')
            else if length bs > n then (Panic, k')
            else disk_read_loop B (n - length bs) (got @ bs) k'
        | (Err _, k') \<Rightarrow> (Err (), k')
        | (Panic, k') \<Rightarrow> (Panic, k')
        | (Diverge, k') \<Rightarrow> (Diverge, k'))"
  by pat_completeness auto
termination
  by (relation "measure (\<lambda>(B, n, got, k). n)") auto

definition disk_read :: "'d BlockOps \<Rightarrow> nat \<Rightarrow> ('d Disk, u8 list, unit) action" where
  "disk_read B n = disk_read_loop B n []"

function disk_write_loop :: "'d BlockOps \<Rightarrow> u8 list \<Rightarrow> nat \<Rightarrow> ('d Disk, nat, unit) action" where
  "disk_write_loop B buf write_len k =
     (if buf = [] then (Ok write_len, k)
      else case write_one B buf k of
          (Ok n, k') \<Rightarrow> if n = 0 then (Ok write_len, k')
            else if n > length buf then (Panic, k')
            else disk_write_loop B (drop n buf) (write_len + n) k'
        | (Err _, k') \<Rightarrow> (Err (), k')
        | (Panic, k') \<Rightarrow> (Panic, k')
        | (Diverge, k') \<Rightarrow> (Diverge, k'))"
  by pat_completeness auto
termination
  by (relation "measure (\<lambda>(B, buf, n, k). length buf)") auto

definition disk_write :: "'d BlockOps \<Rightarrow> u8 list \<Rightarrow> ('d Disk, nat, unit) action" where
  "disk_write B buf = disk_write_loop B buf 0"

declare disk_read_loop.simps [simp del] disk_write_loop.simps [simp del]

definition disk_seek :: "'d BlockOps \<Rightarrow> SeekFrom \<Rightarrow> ('d Disk, u64, unit) action" where
  "disk_seek B pos k =
     (case (case pos of
         SeekStart p \<Rightarrow> Some p
       | SeekCurrent off \<Rightarrow> checked_add_signed (disk_position k) off
       | SeekEnd off \<Rightarrow> checked_add_signed (disk_size B k) off) of
        None \<Rightarrow> (Err (), k)
      | Some new_pos \<Rightarrow> (Ok new_pos, set_position new_pos k))"

end
