(* ===== verification/DiskCorrect.thy ===== *)
theory DiskCorrect
  imports Disk
begin

text \<open>
  A block device stores bytes (locale \<open>block_device\<close>); the disk over it reads and writes any range of these
  bytes at its cursor, within blocks and across them. The RAM disk is such a device.
\<close>

subsection \<open>Positions\<close>

definition pos :: "'d Disk \<Rightarrow> nat" where
  "pos k = unat (block_id k) * 512 + unat (disk_offset k)"

definition disk_ok :: "('d \<Rightarrow> u8 list) \<Rightarrow> ('d \<Rightarrow> bool) \<Rightarrow> 'd Disk \<Rightarrow> bool" where
  "disk_ok content good k \<longleftrightarrow> good (dev k) \<and> unat (disk_offset k) < 512 \<and> pos k \<le> length (content (dev k))"

text \<open>The number of bytes that one step handles.\<close>

definition chunk :: "nat \<Rightarrow> 'd Disk \<Rightarrow> nat" where
  "chunk n k = min n (512 - unat (disk_offset k))"

definition overwrite :: "nat \<Rightarrow> u8 list \<Rightarrow> u8 list \<Rightarrow> u8 list" where
  "overwrite p bs c = take p c @ bs @ drop (p + length bs) c"

lemma overwrite_twice:
  assumes "p + length (xs @ ys) \<le> length c"
  shows "overwrite (p + length xs) ys (overwrite p xs c) = overwrite p (xs @ ys) c"
  using assms by (simp add: overwrite_def ac_simps)

subsection \<open>The contract of a block device\<close>

text \<open>\<open>content\<close> are the bytes on the device.\<close>

locale block_device =
  fixes B :: "'d BlockOps" and content :: "'d \<Rightarrow> u8 list" and good :: "'d \<Rightarrow> bool"
  assumes content_length: "good d \<Longrightarrow> length (content d) = unat (num_blocks B d) * 512 \<and> length (content d) < 2 ^ 63"
    and read_block: "good d \<Longrightarrow> b < num_blocks B d \<Longrightarrow>
      read_block B b 512 d = (Ok (take 512 (drop (unat b * 512) (content d))), d)"
    and write_block: "good d \<Longrightarrow> b < num_blocks B d \<Longrightarrow> length bs = 512 \<Longrightarrow>
      \<exists>d'. write_block B b bs d = (Ok (), d') \<and> good d' \<and> num_blocks B d' = num_blocks B d \<and>
        content d' = take (unat b * 512) (content d) @ bs @ drop (unat b * 512 + 512) (content d)"
begin

lemma inside_block:
  assumes "disk_ok content good k" and "pos k < length (content (dev k))"
  shows "block_id k < num_blocks B (dev k)" "unat (block_id k) * 512 + 512 \<le> length (content (dev k))"
proof -
  have len: "length (content (dev k)) = unat (num_blocks B (dev k)) * 512"
    using content_length assms(1) by (simp add: disk_ok_def)
  have "unat (block_id k) * 512 < unat (num_blocks B (dev k)) * 512"
    using assms(2) unfolding len pos_def by linarith
  then have lt: "unat (block_id k) < unat (num_blocks B (dev k))" by simp
  then show "block_id k < num_blocks B (dev k)" by (simp add: word_less_nat_alt)
  show "unat (block_id k) * 512 + 512 \<le> length (content (dev k))" using lt unfolding len by simp
qed

lemma block_id_bound: "disk_ok content good k \<Longrightarrow> unat (block_id k) * 512 < 2 ^ 63"
  using content_length [of "dev k"] by (auto simp: disk_ok_def pos_def)

lemma advance_pos:
  assumes "disk_ok content good k" and "unat (disk_offset k) + n \<le> 512"
  shows "pos (advance n k) = pos k + n" "unat (disk_offset (advance n k)) < 512" "dev (advance n k) = dev k"
proof -
  have off: "unat (disk_offset k + of_nat n) = unat (disk_offset k) + n"
    using assms(2) by (simp add: unat_word_ariths unat_of_nat)
  have bid: "unat (block_id k + 1) = unat (block_id k) + 1"
    using block_id_bound [OF assms(1)] by (simp add: unat_word_ariths)
  have full: "disk_offset k + of_nat n \<ge> BLOCK_SIZE \<longleftrightarrow> unat (disk_offset k) + n = 512"
    using assms(2) off by (simp add: BLOCK_SIZE_def word_le_nat_alt)
  show "pos (advance n k) = pos k + n"
  proof (cases "unat (disk_offset k) + n = 512")
    case True
    then have "disk_offset k + of_nat n = BLOCK_SIZE" using off by (intro usize_eqI) (simp add: BLOCK_SIZE_def)
    then show ?thesis using full True bid by (simp add: advance_def pos_def Let_def)
  qed (use full off in \<open>simp add: advance_def pos_def Let_def\<close>)
  show "unat (disk_offset (advance n k)) < 512"
  proof (cases "unat (disk_offset k) + n = 512")
    case True
    then have "disk_offset k + of_nat n = BLOCK_SIZE" using off by (intro usize_eqI) (simp add: BLOCK_SIZE_def)
    then show ?thesis using full True by (simp add: advance_def Let_def)
  qed (use full off assms(2) in \<open>simp add: advance_def Let_def\<close>)
  show "dev (advance n k) = dev k" by (simp add: advance_def Let_def)
qed

lemma chunk_step:
  assumes "disk_ok content good k"
  shows "unat (BLOCK_SIZE - disk_offset k) = 512 - unat (disk_offset k)"
    "unat (disk_offset k + of_nat (chunk n k)) = unat (disk_offset k) + chunk n k" "unat (disk_offset k) + chunk n k \<le> 512"
proof -
  have lt: "unat (disk_offset k) < 512" using assms by (simp add: disk_ok_def)
  then show le: "unat (disk_offset k) + chunk n k \<le> 512" by (simp add: chunk_def)
  show "unat (BLOCK_SIZE - disk_offset k) = 512 - unat (disk_offset k)"
    using lt by (subst unat_sub_no_underflow) (simp_all add: BLOCK_SIZE_def)
  show "unat (disk_offset k + of_nat (chunk n k)) = unat (disk_offset k) + chunk n k"
    using le by (simp add: unat_word_ariths unat_of_nat)
qed

lemma read_one_bytes:
  assumes ok: "disk_ok content good k" and inside: "pos k < length (content (dev k))"
  shows "\<exists>k'. read_one B n k = (Ok (take (chunk n k) (drop (pos k) (content (dev k)))), k') \<and> disk_ok content good k' \<and>
    dev k' = dev k \<and> pos k' = pos k + chunk n k"
proof -
  note blk = inside_block [OF assms]
  have good: "good (dev k)" using ok by (simp add: disk_ok_def)
  have rd: "on_dev (read_block B (block_id k) 512) k = (Ok (take 512 (drop (unat (block_id k) * 512) (content (dev k)))), k)"
    by (simp add: on_dev_def read_block [OF good blk(1)])
  note c = chunk_step(1) [OF ok] chunk_step(2,3) [OF ok, of n]
  show ?thesis
  proof (cases "disk_offset k = 0 \<and> n \<ge> 512")
    case True
    have bid: "unat (block_id k + 1) = unat (block_id k) + 1"
      using block_id_bound [OF ok] by (simp add: unat_word_ariths)
    then have "pos (k\<lparr>block_id := block_id k + 1\<rparr>) = pos k + chunk n k" using True by (simp add: pos_def chunk_def)
    moreover have "disk_ok content good (k\<lparr>block_id := block_id k + 1\<rparr>)"
      using True ok blk(2) bid by (simp add: disk_ok_def pos_def)
    ultimately show ?thesis using True rd by (auto simp: read_one_def and_then_def pos_def chunk_def)
  next
    case False
    have adv: "pos (advance (chunk n k) k) = pos k + chunk n k" "unat (disk_offset (advance (chunk n k) k)) < 512"
      "dev (advance (chunk n k) k) = dev k"
      using advance_pos [OF ok c(3)] by simp_all
    have "disk_ok content good (advance (chunk n k) k)"
      using adv good c(3) blk(2) by (simp add: disk_ok_def pos_def)
    moreover have "take (chunk n k) (drop (unat (disk_offset k)) (take 512 (drop (unat (block_id k) * 512) (content (dev k))))) =
        take (chunk n k) (drop (pos k) (content (dev k)))"
      using c(3) by (simp add: drop_take pos_def min_def add.commute)
    moreover have "read_one B n k = (Ok (take (chunk n k) (drop (unat (disk_offset k)) (take 512 (drop (unat (block_id k) * 512) (content (dev k)))))),
        advance (chunk n k) k)"
      using False rd c by (auto simp: read_one_def and_then_def Let_def chunk_def)
    ultimately show ?thesis using adv by auto
  qed
qed

lemma disk_read_loop_bytes:
  assumes "disk_ok content good k" and "pos k + n \<le> length (content (dev k))"
  shows "\<exists>k'. disk_read_loop B n got k = (Ok (got @ take n (drop (pos k) (content (dev k)))), k') \<and> disk_ok content good k' \<and>
    dev k' = dev k \<and> pos k' = pos k + n"
  using assms
proof (induction n arbitrary: got k rule: less_induct)
  case (less n)
  show ?case
  proof (cases "n = 0")
    case False
    let ?c = "chunk n k" and ?bytes = "content (dev k)"
    have inside: "pos k < length ?bytes" using less.prems(2) False by simp
    obtain k1 where k1: "read_one B n k = (Ok (take ?c (drop (pos k) ?bytes)), k1)" "disk_ok content good k1" "dev k1 = dev k" "pos k1 = pos k + ?c"
      using read_one_bytes [OF less.prems(1) inside] by blast
    have c: "0 < ?c" "?c \<le> n" using False less.prems(1) by (auto simp: chunk_def disk_ok_def)
    then have len: "length (take ?c (drop (pos k) ?bytes)) = ?c" using less.prems(2) by simp
    obtain k' where k': "disk_read_loop B (n - ?c) (got @ take ?c (drop (pos k) ?bytes)) k1 =
        (Ok ((got @ take ?c (drop (pos k) ?bytes)) @ take (n - ?c) (drop (pos k1) ?bytes)), k')" "disk_ok content good k'" "dev k' = dev k"
        "pos k' = pos k1 + (n - ?c)"
      using less.IH [of "n - ?c" k1 "got @ take ?c (drop (pos k) ?bytes)"] c k1 less.prems(2) False by auto
    have "take ?c (drop (pos k) ?bytes) @ take (n - ?c) (drop (pos k + ?c) ?bytes) = take n (drop (pos k) ?bytes)"
      using c(2) take_add [of ?c "n - ?c" "drop (pos k) ?bytes"] by (simp add: add.commute)
    then show ?thesis using k1 k' len c False by (subst disk_read_loop.simps) auto
  qed (use less.prems in \<open>simp add: disk_read_loop.simps\<close>)
qed

lemma write_one_bytes:
  assumes ok: "disk_ok content good k" and inside: "pos k < length (content (dev k))"
  shows "\<exists>k'. write_one B buf k = (Ok (chunk (length buf) k), k') \<and> disk_ok content good k' \<and> pos k' = pos k + chunk (length buf) k \<and>
    content (dev k') = overwrite (pos k) (take (chunk (length buf) k) buf) (content (dev k))"
proof -
  let ?n = "chunk (length buf) k" and ?c = "content (dev k)" and ?b = "unat (block_id k) * 512" and ?o = "unat (disk_offset k)"
  note blk = inside_block [OF assms]
  have good: "good (dev k)" using ok by (simp add: disk_ok_def)
  have rd: "on_dev (read_block B (block_id k) 512) k = (Ok (take 512 (drop ?b ?c)), k)"
    by (simp add: on_dev_def read_block [OF good blk(1)])
  have wr: "\<exists>d'. on_dev (write_block B (block_id k) bs) k = (Ok (), k\<lparr>dev := d'\<rparr>) \<and> good d' \<and> content d' = overwrite ?b bs ?c"
    if "length bs = 512" for bs
    using write_block [OF good blk(1) that] that by (auto simp: on_dev_def overwrite_def)
  note c = chunk_step(1) [OF ok] chunk_step(2,3) [OF ok, of "length buf"]
  have keep: "length (overwrite p bs ?c) = length ?c" if "p + length bs \<le> length ?c" for p bs
    using that by (simp add: overwrite_def)
  show ?thesis
  proof (cases "disk_offset k = 0 \<and> length buf \<ge> 512")
    case True
    then obtain d' where d': "on_dev (write_block B (block_id k) (take 512 buf)) k = (Ok (), k\<lparr>dev := d'\<rparr>)" "good d'"
      "content d' = overwrite ?b (take 512 buf) ?c" using wr [of "take 512 buf"] by auto
    have bid: "unat (block_id k + 1) = unat (block_id k) + 1"
      using block_id_bound [OF ok] by (simp add: unat_word_ariths)
    have n: "?n = 512" "pos k = ?b" using True by (simp_all add: chunk_def pos_def)
    show ?thesis
      using True d' bid n blk(2) keep [of ?b "take 512 buf"]
      by (auto simp: write_one_def and_then_def pos_def disk_ok_def)
  next
    case False
    let ?data = "take ?o (take 512 (drop ?b ?c)) @ take ?n buf @ drop (?o + ?n) (take 512 (drop ?b ?c))"
    have nl: "?n \<le> length buf" by (simp add: chunk_def)
    then have len: "length ?data = 512" using blk(2) c(3) by simp
    obtain d' where d': "on_dev (write_block B (block_id k) ?data) k = (Ok (), k\<lparr>dev := d'\<rparr>)" "good d'"
      "content d' = overwrite ?b ?data ?c" using wr [OF len] by blast
    have same: "overwrite ?b ?data ?c = overwrite (pos k) (take ?n buf) ?c"
    proof -
      have "overwrite ?b ?data ?c = take ?b ?c @ take ?o (drop ?b ?c) @ take ?n buf @ (drop (?o + ?n) (take 512 (drop ?b ?c)) @ drop 512 (drop ?b ?c))"
        using len c(3) nl blk(2) by (simp add: overwrite_def min_def add.commute)
      also have "drop (?o + ?n) (take 512 (drop ?b ?c)) @ drop 512 (drop ?b ?c) = drop (?o + ?n) (drop ?b ?c)"
        using c(3) drop_append [of "?o + ?n" "take 512 (drop ?b ?c)" "drop 512 (drop ?b ?c)"] blk(2)
        by (simp only: append_take_drop_id) (simp add: min_def)
      also have "take ?b ?c @ take ?o (drop ?b ?c) @ take ?n buf @ drop (?o + ?n) (drop ?b ?c) =
          (take ?b ?c @ take ?o (drop ?b ?c)) @ take ?n buf @ drop (?b + ?o + ?n) ?c"
        by (simp add: ac_simps)
      also have "take ?b ?c @ take ?o (drop ?b ?c) = take (?b + ?o) ?c" by (simp add: take_add)
      finally show ?thesis using nl by (simp add: overwrite_def pos_def)
    qed
    let ?k = "k\<lparr>dev := d'\<rparr>"
    have clen: "length (content d') = length ?c" using d'(3) same keep [of "pos k" "take ?n buf"] nl c(3) blk(2) by (simp add: pos_def)
    have okd: "disk_ok content good ?k" using ok d'(2) clen by (simp add: disk_ok_def pos_def)
    have adv: "pos (advance ?n ?k) = pos k + ?n" "unat (disk_offset (advance ?n ?k)) < 512" "dev (advance ?n ?k) = d'"
      using advance_pos [OF okd, of ?n] c(3) by (simp_all add: pos_def)
    have "disk_ok content good (advance ?n ?k)" using adv d'(2) clen c(3) blk(2) by (simp add: disk_ok_def pos_def)
    moreover have "write_one B buf k = (Ok ?n, advance ?n ?k)"
      using False rd c d'(1) by (auto simp: write_one_def and_then_def Let_def chunk_def)
    ultimately show ?thesis using adv d'(3) same by auto
  qed
qed

lemma disk_write_loop_bytes:
  assumes "disk_ok content good k" and "pos k + length buf \<le> length (content (dev k))"
  shows "\<exists>k'. disk_write_loop B buf m k = (Ok (m + length buf), k') \<and> disk_ok content good k' \<and> pos k' = pos k + length buf \<and>
    content (dev k') = overwrite (pos k) buf (content (dev k))"
  using assms
proof (induction "length buf" arbitrary: buf m k rule: less_induct)
  case less
  show ?case
  proof (cases "buf = []")
    case False
    let ?n = "chunk (length buf) k" and ?c = "content (dev k)"
    have inside: "pos k < length ?c" using less.prems(2) False by (cases buf) auto
    obtain k1 where k1: "write_one B buf k = (Ok ?n, k1)" "disk_ok content good k1" "pos k1 = pos k + ?n"
      "content (dev k1) = overwrite (pos k) (take ?n buf) ?c" using write_one_bytes [OF less.prems(1) inside] by blast
    have n: "0 < ?n" "?n \<le> length buf" using False less.prems(1) by (auto simp: chunk_def disk_ok_def)
    have len: "length (content (dev k1)) = length ?c" using k1(4) n less.prems(2) by (simp add: overwrite_def)
    obtain k' where k': "disk_write_loop B (drop ?n buf) (m + ?n) k1 = (Ok (m + ?n + length (drop ?n buf)), k')" "disk_ok content good k'"
      "pos k' = pos k1 + length (drop ?n buf)" "content (dev k') = overwrite (pos k1) (drop ?n buf) (content (dev k1))"
    proof -
      have "length (drop ?n buf) < length buf" "pos k1 + length (drop ?n buf) \<le> length (content (dev k1))"
        using n k1(3) len less.prems(2) by simp_all
      then show ?thesis using less.hyps [of "drop ?n buf" k1 "m + ?n"] k1(2) that by blast
    qed
    have "content (dev k') = overwrite (pos k) buf ?c"
      using overwrite_twice [of "pos k" "take ?n buf" "drop ?n buf" ?c] k'(4) k1(3,4) n less.prems(2) by simp
    then show ?thesis using k1 k' n False by (subst disk_write_loop.simps) auto
  qed (use less.prems in \<open>simp add: disk_write_loop.simps overwrite_def\<close>)
qed

lemma set_position_pos:
  assumes "disk_ok content good k" and "unat p \<le> length (content (dev k))"
  shows "disk_ok content good (set_position p k)" "pos (set_position p k) = unat p" "dev (set_position p k) = dev k"
  using assms by (auto simp: set_position_def disk_ok_def pos_def BLOCK_SIZE_def unat_div_distrib unat_mod_distrib)

lemma disk_write_read:
  assumes "disk_ok content good k" and "unat p + length buf \<le> length (content (dev k))"
  shows "\<exists>k1 k2. disk_write B buf (set_position p k) = (Ok (length buf), k1) \<and>
    disk_read B (length buf) (set_position p k1) = (Ok buf, k2) \<and> disk_ok content good k2 \<and>
    content (dev k2) = take (unat p) (content (dev k)) @ buf @ drop (unat p + length buf) (content (dev k))"
proof -
  have p: "unat p \<le> length (content (dev k))" using assms(2) by simp
  note sp = set_position_pos [OF assms(1) p]
  obtain k1 where k1: "disk_write B buf (set_position p k) = (Ok (length buf), k1)" "disk_ok content good k1"
    "content (dev k1) = overwrite (unat p) buf (content (dev k))"
    using disk_write_loop_bytes [OF sp(1), of buf 0] assms(2) sp by (auto simp: disk_write_def)
  have len: "length (content (dev k1)) = length (content (dev k))" using k1(3) assms(2) by (simp add: overwrite_def)
  note sp1 = set_position_pos [OF k1(2), of p]
  have inside: "pos (set_position p k1) + length buf \<le> length (content (dev (set_position p k1)))" using sp1 len assms(2) by simp
  obtain k2 where k2: "disk_read B (length buf) (set_position p k1) =
      (Ok (take (length buf) (drop (pos (set_position p k1)) (content (dev (set_position p k1))))), k2)" "disk_ok content good k2" "dev k2 = dev k1"
    using disk_read_loop_bytes [OF sp1(1) inside, of "[]"] sp1 len assms(2) by (auto simp: disk_read_def)
  have "take (length buf) (drop (unat p) (content (dev k1))) = buf" using k1(3) assms(2) by (simp add: overwrite_def)
  then show ?thesis using k1 k2 sp1 len assms(2) by (auto simp: overwrite_def)
qed

end

subsection \<open>The RAM disk\<close>

definition ram_ok :: "RamDisk \<Rightarrow> bool" where
  "ram_ok d \<longleftrightarrow> length (ram_data d) = unat (ram_size d) \<and> unat (ram_size d) mod 512 = 0 \<and> unat (ram_size d) < 2 ^ 63"

lemma ram_block:
  assumes "ram_ok d" and "b < ram_num_blocks d"
  shows "unat (b * BLOCK_SIZE) = unat b * 512" "unat (b * BLOCK_SIZE + 512) = unat b * 512 + 512" "unat b * 512 + 512 \<le> unat (ram_size d)"
proof -
  have "unat b < unat (ram_size d) div 512"
    using assms(2) by (simp add: word_less_nat_alt ram_num_blocks_def BLOCK_SIZE_def unat_div_distrib)
  then have "Suc (unat b) * 512 \<le> unat (ram_size d) div 512 * 512" by (intro mult_le_mono1) simp
  also have "unat (ram_size d) div 512 * 512 = unat (ram_size d)" using assms(1) by (auto simp: ram_ok_def)
  finally show le: "unat b * 512 + 512 \<le> unat (ram_size d)" by simp
  then have "unat b * 512 + 512 < 2 ^ 63" using assms(1) by (simp add: ram_ok_def)
  then show "unat (b * BLOCK_SIZE) = unat b * 512" "unat (b * BLOCK_SIZE + 512) = unat b * 512 + 512"
    by (simp_all add: BLOCK_SIZE_def unat_word_ariths)
qed

lemma ram_read:
  assumes "ram_ok d" and "b < ram_num_blocks d"
  shows "ram_read_block b 512 d = (Ok (take 512 (drop (unat b * 512) (ram_data d))), d)"
proof -
  note blk = ram_block [OF assms]
  have "\<not> b * BLOCK_SIZE + 512 > ram_size d" "\<not> b * BLOCK_SIZE > b * BLOCK_SIZE + 512"
    using blk by (simp_all only: word_less_nat_alt not_less)
  moreover have "\<not> unat (b * BLOCK_SIZE + 512) > length (ram_data d)" using blk assms(1) by (simp only: ram_ok_def not_less)
  ultimately show ?thesis using blk(1) by (simp add: ram_read_block_def Let_def)
qed

lemma ram_write:
  assumes "ram_ok d" and "b < ram_num_blocks d" and "length bs = 512"
  shows "ram_write_block b bs d =
    (Ok (), d\<lparr>ram_data := take (unat b * 512) (ram_data d) @ bs @ drop (unat b * 512 + 512) (ram_data d)\<rparr>)"
proof -
  note blk = ram_block [OF assms(1,2)]
  have "\<not> b * BLOCK_SIZE + 512 > ram_size d" "\<not> b * BLOCK_SIZE > b * BLOCK_SIZE + 512"
    using blk by (simp_all only: word_less_nat_alt not_less)
  moreover have "\<not> unat (b * BLOCK_SIZE + 512) > length (ram_data d)" using blk assms(1) by (simp only: ram_ok_def not_less)
  ultimately show ?thesis using blk(1,2) assms(3) by (simp add: ram_write_block_def Let_def)
qed

interpretation ram: block_device ram_ops ram_data ram_ok
proof
  fix d assume ok: "ram_ok d"
  have "unat (ram_size d) div 512 * 512 = unat (ram_size d)" using ok by (auto simp: ram_ok_def)
  then show "length (ram_data d) = unat (num_blocks ram_ops d) * 512 \<and> length (ram_data d) < 2 ^ 63"
    using ok by (simp add: ram_ok_def ram_ops_def ram_num_blocks_def BLOCK_SIZE_def unat_div_distrib)
  fix b assume "b < num_blocks ram_ops d"
  then have b: "b < ram_num_blocks d" by (simp add: ram_ops_def)
  show "read_block ram_ops b 512 d = (Ok (take 512 (drop (unat b * 512) (ram_data d))), d)"
    using ram_read [OF ok b] by (simp add: ram_ops_def)
  fix bs :: "u8 list" assume bs: "length bs = 512"
  have "ram_ok (d\<lparr>ram_data := take (unat b * 512) (ram_data d) @ bs @ drop (unat b * 512 + 512) (ram_data d)\<rparr>)"
    using ok ram_block(3) [OF ok b] bs by (simp add: ram_ok_def)
  then show "\<exists>d'. write_block ram_ops b bs d = (Ok (), d') \<and> ram_ok d' \<and> num_blocks ram_ops d' = num_blocks ram_ops d \<and>
      ram_data d' = take (unat b * 512) (ram_data d) @ bs @ drop (unat b * 512 + 512) (ram_data d)"
    using ram_write [OF ok b bs] by (simp add: ram_ops_def ram_num_blocks_def)
qed

subsection \<open>Properties\<close>

text \<open>
  C15: what is written to a disk over a RAM disk at a position is what is read back from it, whether the range
  lies within a block, spans several or is empty, and no other byte of the disk changes.
\<close>

theorem disk_roundtrip:
  assumes "disk_ok ram_data ram_ok k" and "unat p + length buf \<le> unat (ram_size (dev k))"
  shows "\<exists>k1 k2. disk_write ram_ops buf (set_position p k) = (Ok (length buf), k1) \<and>
    disk_read ram_ops (length buf) (set_position p k1) = (Ok buf, k2) \<and> disk_ok ram_data ram_ok k2 \<and>
    ram_data (dev k2) = take (unat p) (ram_data (dev k)) @ buf @ drop (unat p + length buf) (ram_data (dev k))"
  using ram.disk_write_read [OF assms(1), of p buf] assms by (simp add: disk_ok_def ram_ok_def)

definition demo_disk :: "RamDisk Disk" where
  "demo_disk = \<lparr>block_id = 0, disk_offset = 0, dev = \<lparr>ram_size = 1024, ram_data = replicate 1024 0\<rparr>\<rparr>"

lemma demo_disk_ok: "disk_ok ram_data ram_ok demo_disk"
  by (simp add: demo_disk_def disk_ok_def ram_ok_def pos_def)

theorem disk_roundtrip_witness:
  "\<exists>k1 k2. disk_write ram_ops [1, 2, 3, 4] (set_position 510 demo_disk) = (Ok 4, k1) \<and>
    disk_read ram_ops 4 (set_position 510 k1) = (Ok [1, 2, 3, 4], k2)"
proof -
  have l: "length [1 :: u8, 2, 3, 4] = 4" by simp
  have "unat (510 :: u64) + length [1 :: u8, 2, 3, 4] \<le> unat (ram_size (dev demo_disk))" by (simp add: demo_disk_def)
  from disk_roundtrip [OF demo_disk_ok this] show ?thesis unfolding l by blast
qed

end
