(* ===== verification/Ratio.thy ===== *)
theory Ratio
  imports Prelude
begin

text \<open>
  \<open>crates/ratio\<close>: a ratio of two 32-bit numbers as \<open>mult / 2 ^ shift\<close>, which the timers use to convert between
  ticks and nanoseconds. The intermediate values are 64-bit words in \<open>new\<close> and 128-bit words in the products.
\<close>

record Ratio =
  numerator :: u32
  denominator :: u32
  mult :: u32
  shift :: nat

definition Ratio_zero :: Ratio where
  "Ratio_zero = \<lparr>numerator = 0, denominator = 0, mult = 0, shift = 0\<rparr>"

text \<open>The first loop lowers the shift from 32 until the multiplier fits into 32 bits.\<close>

definition ratio_mult :: "u32 \<Rightarrow> u32 \<Rightarrow> nat \<Rightarrow> u64" where
  "ratio_mult n d s = (push_bit s (ucast n) + ucast d div 2) div ucast d"

fun fit_shift :: "u32 \<Rightarrow> u32 \<Rightarrow> nat \<Rightarrow> u64 \<times> nat" where
  "fit_shift n d s = (if ratio_mult n d s \<le> 0xFFFFFFFF \<or> s = 0 then (ratio_mult n d s, s) else fit_shift n d (s - 1))"

declare fit_shift.simps [simp del]

text \<open>The second loop removes common factors of two.\<close>

fun reduce :: "u64 \<Rightarrow> nat \<Rightarrow> u64 \<times> nat" where
  "reduce m s = (if m mod 2 = 0 \<and> s > 0 then reduce (m div 2) (s - 1) else (m, s))"

declare reduce.simps [simp del]

definition Ratio_new :: "u32 \<Rightarrow> u32 \<Rightarrow> (Ratio, 'e) result" where
  "Ratio_new n d =
     (if d = 0 \<and> n \<noteq> 0 then Panic
      else if n = 0 then Ok \<lparr>numerator = n, denominator = d, mult = 0, shift = 0\<rparr>
      else case fit_shift n d 32 of (m0, s0) \<Rightarrow> (case reduce m0 s0 of (m, s) \<Rightarrow>
        Ok \<lparr>numerator = n, denominator = d, mult = ucast m, shift = s\<rparr>))"

definition inverse_ratio :: "Ratio \<Rightarrow> (Ratio, 'e) result" where
  "inverse_ratio r = Ratio_new (denominator r) (numerator r)"

definition mul_trunc :: "Ratio \<Rightarrow> u64 \<Rightarrow> u64" where
  "mul_trunc r value = ucast (drop_bit (shift r) (ucast value * ucast (mult r) :: 128 word))"

definition mul_round :: "Ratio \<Rightarrow> u64 \<Rightarrow> u64" where
  "mul_round r value =
     ucast (drop_bit (shift r) (ucast value * ucast (mult r) + drop_bit 1 (push_bit (shift r) 1) :: 128 word))"

subsection \<open>Words as numbers\<close>

lemma unat_u32: "unat (x :: u32) < 4294967296"
  using unsigned_less [of x] by simp

lemma unat_ucast_up: "unat (ucast (x :: u32) :: u64) = unat x"
proof -
  have "unat x < 2 ^ 64" using unat_u32 [of x] by (rule less_trans) simp
  then show ?thesis by (simp add: unsigned_ucast_eq take_bit_nat_eq_self_iff)
qed

lemma ratio_mult_nat:
  assumes "s \<le> 32" and "d \<noteq> 0"
  shows "unat (ratio_mult n d s) = (unat n * 2 ^ s + unat d div 2) div unat d"
proof -
  have n: "unat n * 2 ^ s \<le> 4294967295 * 4294967296"
  proof (rule mult_le_mono)
    show "unat n \<le> 4294967295" using unat_u32 [of n] by linarith
    show "2 ^ s \<le> (4294967296 :: nat)" using power_increasing [OF assms(1), of "2 :: nat"] by simp
  qed
  then have p: "unat (push_bit s (ucast n) :: u64) = unat n * 2 ^ s"
    using assms(1) by (simp add: push_bit_eq_mult unat_word_ariths unat_ucast_up unat_pow2_64)
  have h: "unat (ucast d div 2 :: u64) = unat d div 2" by (simp add: unat_div_distrib unat_ucast_up)
  have "unat n * 2 ^ s + unat d div 2 < 2 ^ 64" using n unat_u32 [of d] by simp
  then have "unat (push_bit s (ucast n) + ucast d div 2 :: u64) = unat n * 2 ^ s + unat d div 2"
    using unat_add_no_overflow [of "push_bit s (ucast n)" "ucast d div 2"] by (simp add: p h)
  then show ?thesis by (simp add: ratio_mult_def unat_div_distrib unat_ucast_up)
qed

text \<open>\<open>rounds m s n d\<close>: \<open>m / 2 ^ s\<close> is \<open>n / d\<close> rounded to the nearest multiple of \<open>1 / 2 ^ s\<close>.\<close>

definition rounds :: "nat \<Rightarrow> nat \<Rightarrow> nat \<Rightarrow> nat \<Rightarrow> bool" where
  "rounds m s n d \<longleftrightarrow> 2 * (m * d) \<le> 2 * (n * 2 ^ s) + d \<and> 2 * (n * 2 ^ s) < 2 * (m * d) + d + 1"

lemma div_rounds:
  assumes "0 < d"
  shows "rounds ((n * 2 ^ s + d div 2) div d) s n d"
proof -
  define a where "a = n * 2 ^ s"
  define x where "x = (a + d div 2) div d * d"
  have "x + (a + d div 2) mod d = a + d div 2" by (simp add: x_def)
  moreover have "(a + d div 2) mod d < d" using assms by simp
  ultimately have "2 * x \<le> 2 * a + d \<and> 2 * a < 2 * x + d + 1" by linarith
  then show ?thesis by (simp add: rounds_def a_def x_def)
qed

lemma div_half_le:
  fixes n d :: nat
  assumes "d \<noteq> 0"
  shows "(n + d div 2) div d \<le> n"
proof (cases "n = 0")
  case False
  then have "1 * (d - 1) \<le> n * (d - 1)" by (intro mult_le_mono1) simp
  moreover have "n * d = n + n * (d - 1)" using assms by (cases d) simp_all
  moreover have "d div 2 \<le> d - 1" using assms by linarith
  ultimately have "n + d div 2 \<le> n * d" by linarith
  then have "(n + d div 2) div d \<le> n * d div d" by (rule div_le_mono)
  then show ?thesis using assms by simp
qed (use assms in auto)

lemma fit_shift_spec:
  assumes "s \<le> 32" and "d \<noteq> 0" and "fit_shift n d s = (m, s')"
  shows "s' \<le> s \<and> unat m = (unat n * 2 ^ s' + unat d div 2) div unat d \<and> unat m < 2 ^ 32 \<and>
    (s' < s \<longrightarrow> 2 ^ 32 \<le> (unat n * 2 ^ Suc s' + unat d div 2) div unat d)"
  using assms
proof (induction n d s rule: fit_shift.induct)
  case (1 n d s)
  show ?case
  proof (cases "ratio_mult n d s \<le> 0xFFFFFFFF \<or> s = 0")
    case True
    then have m: "m = ratio_mult n d s" "s' = s" using 1(4) by (auto simp: fit_shift.simps [of n d s])
    have "unat m < 2 ^ 32"
    proof (cases "s = 0")
      case True
      have "(unat n + unat d div 2) div unat d \<le> unat n" using 1(3) by (intro div_half_le) (simp add: unat_eq_zero)
      then show ?thesis using m True ratio_mult_nat [OF 1(2,3), of n] unat_u32 [of n] by simp
    qed (use True m in \<open>simp add: word_le_nat_alt\<close>)
    then show ?thesis using m ratio_mult_nat [OF 1(2,3), of n] by simp
  next
    case False
    then have "fit_shift n d (s - 1) = (m, s')" using 1(4) by (simp add: fit_shift.simps [of n d s])
    then have ih: "s' \<le> s - 1 \<and> unat m = (unat n * 2 ^ s' + unat d div 2) div unat d \<and> unat m < 2 ^ 32 \<and>
        (s' < s - 1 \<longrightarrow> 2 ^ 32 \<le> (unat n * 2 ^ Suc s' + unat d div 2) div unat d)"
      using 1(1) [OF False _ 1(3)] 1(2) by fastforce
    have "2 ^ 32 \<le> (unat n * 2 ^ s + unat d div 2) div unat d"
      using False ratio_mult_nat [OF 1(2,3), of n] by (simp add: word_le_nat_alt)
    then show ?thesis using ih False by (cases "s' = s - 1") auto
  qed
qed

lemma reduce_spec:
  assumes "reduce m s = (m', s')"
  shows "s' \<le> s \<and> unat m = unat m' * 2 ^ (s - s') \<and> (odd (unat m') \<or> s' = 0)"
  using assms
proof (induction m s rule: reduce.induct)
  case (1 m s)
  have par: "m mod 2 = 0 \<longleftrightarrow> even (unat m)" "unat (m div 2) = unat m div 2"
    by (simp_all add: word_eq_iff_unsigned unat_mod_distrib unat_div_distrib even_iff_mod_2_eq_zero word_unat_eq_iff)
  show ?case
  proof (cases "m mod 2 = 0 \<and> s > 0")
    case True
    then have "reduce (m div 2) (s - 1) = (m', s')" using 1(2) by (simp add: reduce.simps [of m s])
    then have ih: "s' \<le> s - 1" "unat m div 2 = unat m' * 2 ^ (s - 1 - s')" "odd (unat m') \<or> s' = 0" using 1(1) [OF True] par by simp_all
    have "unat m = 2 * (unat m' * 2 ^ (s - 1 - s'))" using ih(2) True par(1) by auto
    moreover have "s - s' = Suc (s - 1 - s')" using ih(1) True by linarith
    ultimately show ?thesis using ih by simp
  next
    case False
    then have "m' = m" "s' = s" using 1(2) by (simp_all only: reduce.simps [of m s]) (simp_all split: if_splits)
    then show ?thesis using False par by auto
  qed
qed

lemma products:
  shows "unat (mul_trunc r v) = unat v * unat (mult r) div 2 ^ shift r mod 2 ^ 64"
    "shift r \<le> 32 \<Longrightarrow> unat (mul_round r v) = (unat v * unat (mult r) + 2 ^ shift r div 2) div 2 ^ shift r mod 2 ^ 64"
proof -
  have m: "unat v * unat (mult r) \<le> 18446744073709551615 * 4294967295"
    using unat_lt64 [of v] unat_u32 [of "mult r"] by (intro mult_le_mono) linarith+
  have "unat v < 2 ^ 128" "unat (mult r) < 2 ^ 128"
    by (rule less_trans [OF unat_lt64], simp, rule less_trans [OF unat_u32], simp)
  then have u: "unat (ucast v :: 128 word) = unat v" "unat (ucast (mult r) :: 128 word) = unat (mult r)"
    by (simp_all add: unsigned_ucast_eq take_bit_nat_eq_self_iff)
  have p: "unat (ucast v * ucast (mult r) :: 128 word) = unat v * unat (mult r)"
    using m by (simp add: unat_word_ariths u)
  have db: "unat (drop_bit k w) = unat w div 2 ^ k" for k and w :: "128 word"
    by (simp only: unat_drop_bit_eq) (simp only: drop_bit_eq_div)
  have down: "unat (ucast (w :: 128 word) :: u64) = unat w mod 2 ^ 64" for w
    by (simp add: unsigned_ucast_eq take_bit_eq_mod)
  show "unat (mul_trunc r v) = unat v * unat (mult r) div 2 ^ shift r mod 2 ^ 64"
    by (simp only: mul_trunc_def down db p)
  assume s: "shift r \<le> 32"
  have pw: "(2 :: nat) ^ shift r \<le> 4294967296" using power_increasing [OF s, of "2 :: nat"] by simp
  have h: "unat (drop_bit 1 (push_bit (shift r) 1) :: 128 word) = 2 ^ shift r div 2"
  proof -
    have "(2 :: nat) ^ shift r < 2 ^ 128" using pw by (rule le_less_trans) simp
    then have "unat (of_nat (2 ^ shift r) :: 128 word) = 2 ^ shift r" by (simp only: unat_of_nat) simp
    then have "unat (2 ^ shift r :: 128 word) = 2 ^ shift r" by simp
    then show ?thesis by (simp add: push_bit_eq_mult drop_bit_eq_div unat_div_distrib)
  qed
  have "unat (ucast v * ucast (mult r) + drop_bit 1 (push_bit (shift r) 1) :: 128 word) = unat v * unat (mult r) + 2 ^ shift r div 2"
    unfolding unat_word_ariths(1) p h using m pw by simp
  then show "unat (mul_round r v) = (unat v * unat (mult r) + 2 ^ shift r div 2) div 2 ^ shift r mod 2 ^ 64"
    by (simp only: mul_round_def down db)
qed

subsection \<open>Properties\<close>

text \<open>
  C40: a ratio of 32-bit numbers is represented by the multiplier nearest to it for the largest shift, up to
  32, at which the multiplier fits into 32 bits, with common factors of two removed; the two products
  are that multiple of the value, shifted down and rounded as their names say.
\<close>

theorem ratio_precision:
  assumes "n \<noteq> 0" and "d \<noteq> 0"
  shows "\<exists>r s0. Ratio_new n d = Ok r \<and> shift r \<le> s0 \<and> s0 \<le> 32 \<and>
    rounds (unat (mult r) * 2 ^ (s0 - shift r)) s0 (unat n) (unat d) \<and>
    (s0 < 32 \<longrightarrow> 2 ^ 32 \<le> (unat n * 2 ^ Suc s0 + unat d div 2) div unat d) \<and> (odd (unat (mult r)) \<or> shift r = 0) \<and>
    (\<forall>v. unat (mul_trunc r v) = unat v * unat (mult r) div 2 ^ shift r mod 2 ^ 64 \<and>
         unat (mul_round r v) = (unat v * unat (mult r) + 2 ^ shift r div 2) div 2 ^ shift r mod 2 ^ 64)"
proof -
  obtain m0 s0 where f: "fit_shift n d 32 = (m0, s0)" by (cases "fit_shift n d 32")
  obtain m s where red: "reduce m0 s0 = (m, s)" by (cases "reduce m0 s0")
  let ?r = "\<lparr>numerator = n, denominator = d, mult = ucast m, shift = s\<rparr> :: Ratio"
  note fit = fit_shift_spec [OF _ assms(2) f, simplified] and rd = reduce_spec [OF red]
  have "unat m * 1 \<le> unat m * 2 ^ (s0 - s)" by (intro mult_le_mono2) simp
  also have "\<dots> = unat m0" using rd by simp
  finally have "unat m \<le> unat m0" by simp
  moreover have "unat m0 < 2 ^ 32" using fit by simp
  ultimately have "unat m < 2 ^ 32" by (rule le_less_trans)
  then have m: "unat (mult ?r) = unat m" by (simp add: unsigned_ucast_eq take_bit_nat_eq_self_iff)
  have "rounds (unat (mult ?r) * 2 ^ (s0 - shift ?r)) s0 (unat n) (unat d)"
  proof -
    have "0 < unat d" using assms(2) by (metis neq0_conv unat_eq_zero)
    then show ?thesis using div_rounds [of "unat d" "unat n" s0] fit rd m by simp
  qed
  moreover have "Ratio_new n d = Ok ?r" using assms f red by (simp add: Ratio_new_def)
  moreover have "shift ?r \<le> 32" using fit rd by simp
  ultimately show ?thesis using fit rd m products [of ?r] by (intro exI [of _ ?r] exI [of _ s0]) simp
qed

theorem ratio_precision_witness:
  "\<exists>r s0. Ratio_new 1 3 = Ok r \<and> rounds (unat (mult r) * 2 ^ (s0 - shift r)) s0 1 3"
  using ratio_precision [of 1 3] by auto

end
