(* ===== verification/UserStack.thy ===== *)
theory UserStack
  imports BTree MemoryAddr
begin

text \<open>
  \<open>crates/elf_parser/src/user_stack.rs\<close> and \<open>get_app_stack_region\<close> of \<open>auxv.rs\<close>: the initial stack of a user
  program. The stack is built downwards in a vector of 0x4000 bytes. \<open>push\<close> writes through a raw pointer
  without a check: a write outside the vector is undefined behaviour, the outcome \<open>Panic\<close> here. \<open>push\<close> is
  used for bytes and for machine words only. The last part reads the stack the way the start code of a C
  program does.
\<close>

subsection \<open>Words in memory\<close>

definition word_bytes :: "usize \<Rightarrow> u8 list" where
  "word_bytes w = map (\<lambda>i. ucast (drop_bit (8 * i) w)) [0..<8]"

definition bytes_word :: "u8 list \<Rightarrow> usize" where
  "bytes_word bs = foldr (\<lambda>b w. ucast b OR push_bit 8 w) bs 0"

lemma length_word_bytes [simp]: "length (word_bytes w) = 8"
  by (simp add: word_bytes_def)

lemma word_bytes_not_Nil [simp]: "word_bytes w \<noteq> []"
  by (simp add: word_bytes_def)

lemma bytes_word_bytes [simp]: "bytes_word (word_bytes w) = w"
proof (rule bit_eqI)
  fix n assume "possible_bit TYPE(usize) n"
  then have n: "n < 64" by simp
  have e: "[0..<8] = [0, 1, 2, 3, 4, 5, 6, 7 :: nat]" by (simp add: upt_rec)
  have "n < 8 \<or> 8 \<le> n \<and> n < 16 \<or> 16 \<le> n \<and> n < 24 \<or> 24 \<le> n \<and> n < 32 \<or> 32 \<le> n \<and> n < 40 \<or> 40 \<le> n \<and> n < 48 \<or> 48 \<le> n \<and> n < 56 \<or> 56 \<le> n"
    by linarith
  then show "bit (bytes_word (word_bytes w)) n = bit w n"
    using n unfolding word_bytes_def bytes_word_def e
    by (elim disjE) (auto simp: bit_simps)
qed

definition words_bytes :: "usize list \<Rightarrow> u8 list" where
  "words_bytes ws = concat (map word_bytes ws)"

lemma length_words_bytes [simp]: "length (words_bytes ws) = 8 * length ws"
  by (induction ws) (simp_all add: words_bytes_def)

lemma words_bytes_append [simp]: "words_bytes (vs @ ws) = words_bytes vs @ words_bytes ws"
  by (simp add: words_bytes_def)

subsection \<open>The stack\<close>

definition USER_INIT_STACK_SIZE :: nat where "USER_INIT_STACK_SIZE = 0x4000"

record UserStack =
  us_sp :: usize
  us_bottom :: usize
  us_data :: "u8 list"

definition UserStack_new :: "usize \<Rightarrow> UserStack" where
  "UserStack_new sp = \<lparr>us_sp = sp, us_bottom = sp, us_data = replicate USER_INIT_STACK_SIZE 0\<rparr>"

definition us_offset :: "UserStack \<Rightarrow> usize" where
  "us_offset s = of_nat (length (us_data s)) - (us_bottom s - us_sp s)"

definition get_data_front_ref :: "UserStack \<Rightarrow> (u8 list, unit) result" where
  "get_data_front_ref s = (if unat (us_offset s) \<le> length (us_data s) then Ok (drop (unat (us_offset s)) (us_data s)) else Panic)"

definition us_push :: "usize \<Rightarrow> u8 list \<Rightarrow> (UserStack, unit, unit) action" where
  "us_push align bytes s =
     (let sp = us_sp s - of_nat (length bytes); sp = sp - sp mod align; s = s\<lparr>us_sp := sp\<rparr>; n = unat (us_offset s) in
      if n + length bytes \<le> length (us_data s)
      then (Ok (), s\<lparr>us_data := take n (us_data s) @ bytes @ drop (n + length bytes) (us_data s)\<rparr>)
      else (Panic, s))"

definition push_words :: "usize list \<Rightarrow> (UserStack, unit, unit) action" where
  "push_words ws = us_push 8 (words_bytes ws)"

definition push_str :: "u8 list \<Rightarrow> (UserStack, usize, unit) action" where
  "push_str str = and_then (us_push 1 [0]) (\<lambda>_. and_then (us_push 1 str) (\<lambda>_ s. (Ok (us_sp s), s)))"

definition us_get_len :: "UserStack \<Rightarrow> usize" where "us_get_len s = us_bottom s - us_sp s"

fun push_strs :: "u8 list list \<Rightarrow> (UserStack, usize list, unit) action" where
  "push_strs [] = (\<lambda>s. (Ok [], s))"
| "push_strs (str # strs) = and_then (push_str str) (\<lambda>p. and_then (push_strs strs) (\<lambda>ps s. (Ok (p # ps), s)))"

fun push_auxv :: "usize \<Rightarrow> (u8, usize) btree \<Rightarrow> (UserStack, unit, unit) action" where
  "push_auxv random_str_pos [] = (\<lambda>s. (Ok (), s))"
| "push_auxv random_str_pos ((key, value) # auxv) =
     and_then (push_words (if key = 25 then [ucast key, random_str_pos] else [ucast key, value])) (\<lambda>_. push_auxv random_str_pos auxv)"

definition init_stack :: "u8 list list \<Rightarrow> u8 list list \<Rightarrow> (u8, usize) btree \<Rightarrow> usize \<Rightarrow> (unit, unit) result \<times> UserStack" where
  "init_stack args envs auxv sp =
     and_then (push_words [3703830112808742751, 7081108068768079778]) (\<lambda>_.
     and_then (\<lambda>s. (Ok (us_sp s), s)) (\<lambda>random_str_pos.
     and_then (push_strs envs) (\<lambda>envs_slice.
     and_then (push_strs args) (\<lambda>argv_slice.
     and_then (push_words [0, 0]) (\<lambda>_.
     and_then (\<lambda>s. let final_sp = us_sp s - of_nat (length auxv * 2 + length envs_slice + length argv_slice) * 8 - 8 - 8 - 8 in
                if final_sp mod 16 \<noteq> 0 then push_words [0] s else (Ok (), s)) (\<lambda>_.
     and_then (push_auxv random_str_pos auxv) (\<lambda>_.
     and_then (push_words [0]) (\<lambda>_.
     and_then (push_words envs_slice) (\<lambda>_.
     and_then (push_words [0]) (\<lambda>_.
     and_then (push_words argv_slice) (\<lambda>_.
     push_words [of_nat (length args)]))))))))))) (UserStack_new sp)"

definition get_app_stack_region ::
  "u8 list list \<Rightarrow> u8 list list \<Rightarrow> (u8, usize) btree \<Rightarrow> usize \<Rightarrow> usize \<Rightarrow> (u8 list \<times> usize, unit) result" where
  "get_app_stack_region args envs auxv stack_top stack_size =
     (case init_stack args envs auxv (stack_top + stack_size) of (r, stack) \<Rightarrow>
      res_bind r (\<lambda>_. res_bind (get_data_front_ref stack) (\<lambda>front.
        Ok (replicate (unat (stack_size - us_get_len stack)) 0 @ front, us_sp stack))))"

subsection \<open>What a push does to the content of the stack\<close>

text \<open>The bytes from the stack pointer up are \<open>c\<close>, the others are zero; \<open>b\<close> is the address of the bottom.\<close>

definition stack_holds :: "nat \<Rightarrow> UserStack \<Rightarrow> u8 list \<Rightarrow> bool" where
  "stack_holds b s c \<longleftrightarrow> unat (us_bottom s) = b \<and> 0x4000 \<le> b \<and> length c \<le> 0x4000 \<and> unat (us_sp s) = b - length c \<and>
     us_data s = replicate (0x4000 - length c) 0 @ c"

lemma stack_holds_new: "0x4000 \<le> unat sp \<Longrightarrow> stack_holds (unat sp) (UserStack_new sp) []"
  by (simp add: stack_holds_def UserStack_new_def USER_INIT_STACK_SIZE_def)

lemma us_sp_holds: "stack_holds b s c \<Longrightarrow> us_sp s = of_nat (b - length c)"
proof -
  assume "stack_holds b s c"
  then have "b - length c = unat (us_sp s)" by (simp add: stack_holds_def)
  then show ?thesis by simp
qed

lemma us_offset_holds: "stack_holds b s c \<Longrightarrow> unat (us_offset s) = 0x4000 - length c"
proof -
  assume h: "stack_holds b s c"
  have "unat (us_bottom s - us_sp s) = length c" using h by (subst unat_sub_no_underflow) (auto simp: stack_holds_def)
  moreover have "unat (of_nat (length (us_data s)) :: usize) = 0x4000" using h by (simp add: stack_holds_def)
  ultimately show ?thesis using h unfolding us_offset_def by (subst unat_sub_no_underflow) (auto simp: stack_holds_def)
qed

lemma us_push_holds:
  assumes h: "stack_holds b s c" and p: "p = (b - length c - length bs) mod unat align"
    and fit: "length bs + p + length c \<le> 0x4000"
  shows "\<exists>s'. us_push align bs s = (Ok (), s') \<and> stack_holds b s' (bs @ replicate p 0 @ c)"
proof -
  let ?n = "length bs" and ?sp = "us_sp s - of_nat (length bs)"
  let ?sp' = "?sp - ?sp mod align" and ?m = "0x4000 - length c - p - length bs"
  have sp: "unat (us_sp s) = b - length c" "0x4000 \<le> b" "length c \<le> 0x4000" using h by (auto simp: stack_holds_def)
  have "unat (of_nat ?n :: usize) = ?n" using fit by (intro unat_of_nat_64) simp
  then have 1: "unat ?sp = b - length c - ?n" using fit sp by (subst unat_sub_no_underflow) auto
  then have "unat (?sp mod align) = p" using p by (simp add: unat_mod)
  then have 2: "unat ?sp' = b - length c - ?n - p" using 1 p by (subst unat_sub_no_underflow) auto
  have "unat (us_bottom s - ?sp') = length c + ?n + p"
    using 2 fit sp h by (subst unat_sub_no_underflow) (auto simp: stack_holds_def)
  moreover have "unat (of_nat (length (us_data s)) :: usize) = 0x4000" using h by (simp add: stack_holds_def)
  ultimately have o: "unat (us_offset (s\<lparr>us_sp := ?sp'\<rparr>)) = ?m"
    using fit unfolding us_offset_def by (subst unat_sub_no_underflow) auto
  have d: "us_data s = replicate ?m 0 @ replicate ?n 0 @ replicate p 0 @ c"
    using h fit by (auto simp: stack_holds_def simp flip: replicate_add append_assoc intro!: arg_cong [where f = "\<lambda>k. replicate k 0 @ c"])
  show ?thesis using 2 o d fit sp h
    by (auto simp: us_push_def Let_def stack_holds_def)
qed

text \<open>A push that does not fit is not refused: it writes outside the vector.\<close>

lemma us_push_outside:
  assumes h: "stack_holds b s c" and p: "p = (b - length c - length bs) mod unat align"
    and "0x4000 < length bs + p + length c" "length bs + p + length c \<le> b"
  shows "fst (us_push align bs s) = Panic"
proof -
  let ?n = "length bs" and ?sp = "us_sp s - of_nat (length bs)" and ?L = "length bs + p + length c"
  let ?s = "s\<lparr>us_sp := ?sp - ?sp mod align\<rparr>"
  have b: "b < 2 ^ 64" using h unat_lt64 [of "us_bottom s"] by (auto simp: stack_holds_def simp del: unat_lt64)
  have sp: "unat (us_sp s) = b - length c" using h by (auto simp: stack_holds_def)
  have "unat (of_nat ?n :: usize) = ?n" using assms(4) b by (intro unat_of_nat_64) simp
  then have 1: "unat ?sp = b - length c - ?n" using assms(4) sp by (subst unat_sub_no_underflow) auto
  then have 2: "unat (?sp - ?sp mod align) = b - ?L" using p assms(4) by (subst unat_sub_no_underflow) (auto simp: unat_mod)
  then have 3: "unat (us_bottom s - us_sp ?s) = ?L" using h assms(4) by (subst unat_sub_no_underflow) (auto simp: stack_holds_def)
  have "unat (of_nat (length (us_data s)) :: usize) = 0x4000" using h by (simp add: stack_holds_def)
  then have "unat (us_offset ?s) = 0x4000 + 2 ^ 64 - ?L"
    using 3 assms(3) by (simp add: us_offset_def unat_sub_if')
  then show ?thesis using assms(3,4) b h by (simp add: us_push_def Let_def stack_holds_def)
qed

lemma push_str_holds:
  assumes h: "stack_holds b s c" and fit: "length str + 1 + length c \<le> 0x4000"
  shows "\<exists>s' q. push_str str s = (Ok q, s') \<and> stack_holds b s' (str @ 0 # c) \<and> unat q = b - length (str @ 0 # c)"
proof -
  obtain s1 where s1: "us_push 1 [0] s = (Ok (), s1)" "stack_holds b s1 (0 # c)"
    using us_push_holds [OF h refl, of "[0]" 1] fit by auto
  obtain s2 where s2: "us_push 1 str s1 = (Ok (), s2)" "stack_holds b s2 (str @ 0 # c)"
    using us_push_holds [OF s1(2) refl, of str 1] fit by auto
  then show ?thesis using s1 by (auto simp: push_str_def and_then_def stack_holds_def)
qed

text \<open>The strings on the stack from the last one pushed, and the addresses that \<open>push_strs\<close> returns.\<close>

fun strs_bytes :: "u8 list list \<Rightarrow> u8 list \<Rightarrow> u8 list" where
  "strs_bytes [] c = c"
| "strs_bytes (str # strs) c = strs_bytes strs (str @ 0 # c)"

fun str_ends :: "u8 list list \<Rightarrow> u8 list \<Rightarrow> u8 list list" where
  "str_ends [] c = []"
| "str_ends (str # strs) c = (str @ 0 # c) # str_ends strs (str @ 0 # c)"

definition addr_of :: "nat \<Rightarrow> u8 list \<Rightarrow> usize" where "addr_of b c = of_nat (b - length c)"

lemma length_strs_bytes: "length (strs_bytes strs c) = length c + sum_list (map (\<lambda>s. length s + 1) strs)"
  by (induction strs arbitrary: c) auto

lemma push_strs_holds:
  assumes "stack_holds b s c" "length (strs_bytes strs c) \<le> 0x4000"
  shows "\<exists>s'. push_strs strs s = (Ok (map (addr_of b) (str_ends strs c)), s') \<and> stack_holds b s' (strs_bytes strs c)"
  using assms
proof (induction strs arbitrary: s c)
  case (Cons str strs)
  obtain s1 q where s1: "push_str str s = (Ok q, s1)" "stack_holds b s1 (str @ 0 # c)" "unat q = b - length (str @ 0 # c)"
    using push_str_holds [OF Cons.prems(1), of str] Cons.prems(2) by (auto simp: length_strs_bytes)
  obtain s2 where s2: "push_strs strs s1 = (Ok (map (addr_of b) (str_ends strs (str @ 0 # c))), s2)" "stack_holds b s2 (strs_bytes strs (str @ 0 # c))"
    using Cons.IH [OF s1(2)] Cons.prems(2) by auto
  have "q = addr_of b (str @ 0 # c)" unfolding addr_of_def s1(3) [symmetric] by simp
  then show ?case using s1 s2 by (simp add: and_then_def)
qed simp

lemma push_words_aligned:
  assumes "stack_holds b s c" "8 dvd b - length c" "8 * length ws + length c \<le> 0x4000"
  shows "\<exists>s'. push_words ws s = (Ok (), s') \<and> stack_holds b s' (words_bytes ws @ c)"
proof -
  have "8 dvd b - length c - 8 * length ws" using assms(2) by (metis dvd_diff_nat dvd_triv_left)
  then have "(b - length c - length (words_bytes ws)) mod unat (8 :: usize) = 0" by simp
  then show ?thesis using us_push_holds [OF assms(1) refl, of "words_bytes ws" 8] assms(3) by (simp add: push_words_def)
qed

lemma push_words_padded:
  assumes "stack_holds b s c" "8 * length ws + length c + 7 \<le> 0x4000" "p = (b - length c) mod 8"
  shows "\<exists>s'. push_words ws s = (Ok (), s') \<and> stack_holds b s' (words_bytes ws @ replicate p 0 @ c)"
proof -
  have l: "8 * length ws \<le> b - length c" using assms(1,2) by (auto simp: stack_holds_def)
  then obtain k where "b - length c = 8 * length ws + k" by (metis le_Suc_ex)
  then have "(b - length c - length (words_bytes ws)) mod unat (8 :: usize) = p" using assms(3) by simp
  moreover have "p < 8" using assms(3) by simp
  ultimately show ?thesis using us_push_holds [OF assms(1) refl, of "words_bytes ws" 8] assms(2) by (simp add: push_words_def)
qed

lemma ucast_key_zero [simp]: "(ucast (k :: u8) :: usize) = 0 \<longleftrightarrow> k = 0"
  by transfer simp

definition aux_entry :: "usize \<Rightarrow> u8 \<times> usize \<Rightarrow> usize \<times> usize" where
  "aux_entry pos e = (case e of (key, value) \<Rightarrow> (ucast key, if key = 25 then pos else value))"

definition aux_words :: "(usize \<times> usize) list \<Rightarrow> usize list" where
  "aux_words es = concat (map (\<lambda>(k, v). [k, v]) es)"

lemma aux_words_simps [simp]: "aux_words [] = []" "aux_words (e # es) = fst e # snd e # aux_words es"
    "aux_words (es @ fs) = aux_words es @ aux_words fs" "length (aux_words es) = 2 * length es"
  by (simp_all add: aux_words_def case_prod_beta) (induction es, auto)

lemma push_auxv_holds:
  assumes "stack_holds b s c" "8 dvd b - length c" "16 * length auxv + length c \<le> 0x4000"
  shows "\<exists>s'. push_auxv pos auxv s = (Ok (), s') \<and> stack_holds b s' (words_bytes (aux_words (rev (map (aux_entry pos) auxv))) @ c)"
  using assms
proof (induction auxv arbitrary: s c)
  case Nil
  then show ?case by (simp add: words_bytes_def)
next
  case (Cons e auxv)
  obtain key v where e: "e = (key, v)" by (cases e)
  let ?ws = "[fst (aux_entry pos e), snd (aux_entry pos e)]"
  obtain s1 where s1: "push_words ?ws s = (Ok (), s1)" "stack_holds b s1 (words_bytes ?ws @ c)"
    using push_words_aligned [OF Cons.prems(1,2), of ?ws] Cons.prems(3) by auto
  have d: "8 dvd b - length (words_bytes ?ws @ c)" using Cons.prems(2) dvd_diff_nat [of 8 "b - length c" 16] by (simp add: add.commute)
  have "push_words (if key = 25 then [ucast key, pos] else [ucast key, v]) s = (Ok (), s1)"
    using s1(1) by (simp add: e aux_entry_def split: if_splits)
  then show ?case using Cons.IH [OF s1(2) d] Cons.prems(3) s1(1) by (auto simp: e and_then_def)
qed

text \<open>The content of the finished stack: the words that the program reads first, padding and the strings.\<close>

definition random_bytes :: "u8 list" where "random_bytes = words_bytes [3703830112808742751, 7081108068768079778]"

definition env_end :: "nat \<Rightarrow> u8 list" where "env_end b = random_bytes @ replicate (b mod 8) 0"

definition arg_end :: "u8 list list \<Rightarrow> nat \<Rightarrow> u8 list" where "arg_end envs b = strs_bytes envs (env_end b)"

definition start_words :: "u8 list list \<Rightarrow> u8 list list \<Rightarrow> (u8, usize) btree \<Rightarrow> nat \<Rightarrow> usize list" where
  "start_words args envs auxv b =
     of_nat (length args) # map (addr_of b) (str_ends args (arg_end envs b)) @ 0 # map (addr_of b) (str_ends envs (env_end b)) @
       0 # aux_words (rev (map (aux_entry (addr_of b (env_end b))) auxv))"

definition stack_need :: "u8 list list \<Rightarrow> u8 list list \<Rightarrow> (u8, usize) btree \<Rightarrow> nat" where
  "stack_need args envs auxv = 78 + sum_list (map (\<lambda>s. length s + 1) (envs @ args)) + 8 * (length args + length envs + 2 * length auxv)"

lemma length_str_ends [simp]: "length (str_ends strs c) = length strs"
  by (induction strs arbitrary: c) auto

lemma length_start_words [simp]: "length (start_words args envs auxv b) = 3 + length args + length envs + 2 * length auxv"
  by (simp add: start_words_def)

text \<open>The second half of \<open>init_stack\<close>, from a stack that is aligned to words.\<close>

lemma finish_stack_holds:
  assumes h: "stack_holds b s c" "8 dvd b - length c"
    and fit: "length c + 8 * (4 + length aa + length ea + 2 * length auxv) \<le> 0x4000"
  shows "\<exists>s' k. and_then (\<lambda>s. let final_sp = us_sp s - of_nat (length auxv * 2 + length ea + length aa) * 8 - 8 - 8 - 8 in
                if final_sp mod 16 \<noteq> 0 then push_words [0] s else (Ok (), s)) (\<lambda>_.
     and_then (push_auxv pos auxv) (\<lambda>_.
     and_then (push_words [0]) (\<lambda>_.
     and_then (push_words ea) (\<lambda>_.
     and_then (push_words [0]) (\<lambda>_.
     and_then (push_words aa) (\<lambda>_.
     push_words [n])))))) s = (Ok (), s') \<and> 16 dvd unat (us_sp s') \<and>
    stack_holds b s' (words_bytes (n # aa @ 0 # ea @ 0 # aux_words (rev (map (aux_entry pos) auxv)) @ replicate k 0) @ c)"
proof -
  let ?m = "length auxv * 2 + length ea + length aa" and ?aux = "aux_words (rev (map (aux_entry pos) auxv))"
  have b: "0x4000 \<le> b" "b < 2 ^ 64" using h(1) unat_lt64 [of "us_bottom s"] by (auto simp: stack_holds_def simp del: unat_lt64)
  define f where "f = us_sp s - of_nat ?m * 8 - 8 - 8 - 8"
  have f: "f = of_nat (b - length c - 8 * (?m + 3))"
    unfolding f_def us_sp_holds [OF h(1)] using fit b(1) by (simp add: of_nat_diff algebra_simps)
  then have uf: "unat f = b - length c - 8 * (?m + 3)" using b(2) by (simp add: unat_of_nat_64)
  obtain k s1 where k: "(if f mod 16 \<noteq> 0 then push_words [0] s else (Ok (), s)) = (Ok (), s1)"
      "stack_holds b s1 (words_bytes (replicate k 0) @ c)" "16 dvd b - length c - 8 * (?m + 3 + k)" "k \<le> 1"
  proof (cases "f mod 16 = 0")
    case True
    then have "16 dvd unat f" by (simp add: unat_mod word_unat_eq_iff dvd_eq_mod_eq_0)
    then show ?thesis using True h(1) uf that [of s 0] by (simp add: words_bytes_def)
  next
    case False
    then have "\<not> 16 dvd unat f" by (simp add: unat_mod word_unat_eq_iff dvd_eq_mod_eq_0)
    moreover have "8 dvd unat f" unfolding uf using h(2) by (metis dvd_diff_nat dvd_triv_left)
    ultimately have "16 dvd unat f - 8" by presburger
    then show ?thesis using False push_words_aligned [OF h, of "[0]"] fit uf that [of _ 1] by (auto simp: algebra_simps)
  qed
  let ?ac = "words_bytes (replicate k 0) @ c"
  have dv: "8 dvd b - length (words_bytes ws @ ?ac)" for ws
    using h(2) dvd_diff_nat [of 8 "b - length c" "8 * (k + length ws)"] by (simp add: algebra_simps)
  have step: "\<exists>s'. push_words vs t = (Ok (), s') \<and> stack_holds b s' (words_bytes (vs @ ws) @ ?ac)"
    if "stack_holds b t (words_bytes ws @ ?ac)" "length vs + length ws \<le> ?m + 3" for vs ws t
    using push_words_aligned [OF that(1) dv, of vs] that(2) fit k(4) by simp
  have d0: "8 dvd b - length ?ac" using dv [of "[]"] by (simp add: words_bytes_def)
  obtain s2 where s2: "push_auxv pos auxv s1 = (Ok (), s2)" "stack_holds b s2 (words_bytes ?aux @ ?ac)"
    using push_auxv_holds [OF k(2) d0, of auxv pos] fit k(4) by auto
  obtain s3 where s3: "push_words [0] s2 = (Ok (), s3)" "stack_holds b s3 (words_bytes ([0] @ ?aux) @ ?ac)"
    using step [OF s2(2), of "[0]"] by auto
  obtain s4 where s4: "push_words ea s3 = (Ok (), s4)" "stack_holds b s4 (words_bytes (ea @ [0] @ ?aux) @ ?ac)"
    using step [OF s3(2), of ea] by auto
  obtain s5 where s5: "push_words [0] s4 = (Ok (), s5)" "stack_holds b s5 (words_bytes ([0] @ ea @ [0] @ ?aux) @ ?ac)"
    using step [OF s4(2), of "[0]"] by auto
  obtain s6 where s6: "push_words aa s5 = (Ok (), s6)" "stack_holds b s6 (words_bytes (aa @ [0] @ ea @ [0] @ ?aux) @ ?ac)"
    using step [OF s5(2), of aa] by auto
  obtain s7 where s7: "push_words [n] s6 = (Ok (), s7)" "stack_holds b s7 (words_bytes ([n] @ aa @ [0] @ ea @ [0] @ ?aux) @ ?ac)"
    using step [OF s6(2), of "[n]"] by auto
  have "unat (us_sp s7) = b - length c - 8 * (?m + 3 + k)" using s7(2) by (simp add: stack_holds_def algebra_simps)
  then have "16 dvd unat (us_sp s7)" using k(3) by simp
  moreover have "(let final_sp = us_sp s - of_nat ?m * 8 - 8 - 8 - 8 in
      if final_sp mod 16 \<noteq> 0 then push_words [0] s else (Ok (), s)) = (Ok (), s1)"
    using k(1) unfolding f_def Let_def .
  note run = and_then_run [where m = "\<lambda>s. let final_sp = us_sp s - of_nat ?m * 8 - 8 - 8 - 8 in
      if final_sp mod 16 \<noteq> 0 then push_words [0] s else (Ok (), s)", OF this]
  moreover have "stack_holds b s7 (words_bytes (n # aa @ 0 # ea @ 0 # ?aux @ replicate k 0) @ c)"
    using s7(2) by (simp add: words_bytes_def)
  ultimately show ?thesis using s7(1) unfolding run
    by (intro exI [of _ s7] exI [of _ k])
      (simp add: and_then_def s2(1) s3(1) s4(1) s5(1) s6(1))
qed

lemma init_stack_holds:
  assumes b: "b = unat sp" "0x4000 \<le> b" and fit: "stack_need args envs auxv \<le> 0x4000"
  shows "\<exists>s k pad. init_stack args envs auxv sp = (Ok (), s) \<and> 2 \<le> k \<and> 16 dvd unat (us_sp s) \<and>
    stack_holds b s (words_bytes (start_words args envs auxv b @ replicate k 0) @ replicate pad 0 @ strs_bytes args (arg_end envs b))"
proof -
  let ?pos = "addr_of b (env_end b)" and ?c2 = "strs_bytes args (arg_end envs b)"
  let ?ea = "map (addr_of b) (str_ends envs (env_end b))" and ?aa = "map (addr_of b) (str_ends args (arg_end envs b))"
  let ?aux = "aux_words (rev (map (aux_entry ?pos) auxv))"
  let ?W = "length (start_words args envs auxv b)"
  have le: "length (env_end b) \<le> 23" using mod_less_divisor [of 8 b] by (simp add: env_end_def random_bytes_def)
  have la: "length (arg_end envs b) \<le> 23 + sum_list (map (\<lambda>s. length s + 1) envs)"
    using le by (simp add: arg_end_def length_strs_bytes)
  have lc: "length ?c2 \<le> 23 + sum_list (map (\<lambda>s. length s + 1) (envs @ args))"
    using la by (simp add: length_strs_bytes)
  have room: "length ?c2 + 31 + 8 * ?W \<le> 0x4000"
    using lc fit by (simp add: stack_need_def)
  obtain s0 where s0: "push_words [3703830112808742751, 7081108068768079778] (UserStack_new sp) = (Ok (), s0)" "stack_holds b s0 (env_end b)"
    using push_words_padded [OF stack_holds_new [of sp], of "[3703830112808742751, 7081108068768079778]" "b mod 8"] b
    by (auto simp: env_end_def random_bytes_def)
  have pos: "us_sp s0 = ?pos" using us_sp_holds [OF s0(2)] by (simp add: addr_of_def)
  obtain s1 where s1: "push_strs envs s0 = (Ok ?ea, s1)" "stack_holds b s1 (arg_end envs b)"
    using push_strs_holds [OF s0(2), of envs] la fit by (auto simp: arg_end_def stack_need_def)
  obtain s2 where s2: "push_strs args s1 = (Ok ?aa, s2)" "stack_holds b s2 ?c2"
    using push_strs_holds [OF s1(2), of args] room by auto
  let ?pad = "(b - length ?c2) mod 8"
  let ?c3 = "words_bytes [0, 0] @ replicate ?pad 0 @ ?c2"
  obtain s3 where s3: "push_words [0, 0] s2 = (Ok (), s3)" "stack_holds b s3 ?c3"
    using push_words_padded [OF s2(2) _ refl, of "[0, 0]"] room by auto
  have d3: "8 dvd b - length ?c3"
  proof -
    have "8 dvd b - length ?c2 - ?pad" by (rule dvd_minus_mod)
    then show ?thesis using dvd_diff_nat [of 8 "b - length ?c2 - ?pad" 16] by (simp add: algebra_simps)
  qed
  have fit3: "length ?c3 + 8 * (4 + length ?aa + length ?ea + 2 * length auxv) \<le> 0x4000"
    using room mod_less_divisor [of 8 "b - length ?c2"] by simp
  obtain s4 k where s4: "and_then (\<lambda>s. let final_sp = us_sp s - of_nat (length auxv * 2 + length ?ea + length ?aa) * 8 - 8 - 8 - 8 in
                if final_sp mod 16 \<noteq> 0 then push_words [0] s else (Ok (), s)) (\<lambda>_.
     and_then (push_auxv ?pos auxv) (\<lambda>_. and_then (push_words [0]) (\<lambda>_. and_then (push_words ?ea) (\<lambda>_.
     and_then (push_words [0]) (\<lambda>_. and_then (push_words ?aa) (\<lambda>_. push_words [of_nat (length args)])))))) s3 = (Ok (), s4)"
     "16 dvd unat (us_sp s4)" "stack_holds b s4 (words_bytes (start_words args envs auxv b @ replicate k 0) @ ?c3)"
    using finish_stack_holds [OF s3(2) d3 fit3, of ?pos "of_nat (length args)"] unfolding start_words_def by auto
  have "replicate k (0 :: usize) @ [0, 0] = replicate (k + 2) 0" by (induction k) simp_all
  then have "words_bytes (replicate k 0) @ words_bytes [0, 0] = words_bytes (replicate (k + 2) 0)" by (metis words_bytes_append)
  then have "stack_holds b s4 (words_bytes (start_words args envs auxv b @ replicate (k + 2) 0) @ replicate ?pad 0 @ ?c2)"
    using s4(3) by (metis append_assoc words_bytes_append)
  moreover have "init_stack args envs auxv sp = (Ok (), s4)"
    using s4(1) by (simp add: init_stack_def and_then_def [of "push_words _" _ "UserStack_new sp"] s0(1) and_then_return pos
      and_then_def [of _ _ s0] s1(1) and_then_def [of _ _ s1] s2(1) and_then_def [of _ _ s2] s3(1))
  ultimately show ?thesis using s4(2) by (intro exI [of _ s4] exI [of _ "k + 2"] exI [of _ ?pad]) simp
qed

subsection \<open>The start of a C program\<close>

text \<open>
  \<open>m\<close> is the memory from the address \<open>lo\<close> on. The start code reads \<open>argc\<close> at the stack pointer, then the pointers to the
  arguments and to the environment, each array ended by a null pointer, then the auxiliary vector, ended by
  the key zero. The fuel, the length of the memory, bounds the length of each array.
\<close>

definition mem_from :: "u8 list \<Rightarrow> usize \<Rightarrow> usize \<Rightarrow> u8 list" where
  "mem_from m lo a = drop (unat (a - lo)) m"

abbreviation load_word :: "u8 list \<Rightarrow> usize" where "load_word bs \<equiv> bytes_word (take 8 bs)"

definition load_str :: "u8 list \<Rightarrow> u8 list" where "load_str bs = takeWhile (\<lambda>b. b \<noteq> 0) bs"

fun null_array :: "nat \<Rightarrow> u8 list \<Rightarrow> usize list \<times> u8 list" where
  "null_array 0 bs = ([], bs)"
| "null_array (Suc fuel) bs =
     (if load_word bs = 0 then ([], drop 8 bs)
      else case null_array fuel (drop 8 bs) of (ws, rest) \<Rightarrow> (load_word bs # ws, rest))"

fun aux_array :: "nat \<Rightarrow> u8 list \<Rightarrow> (usize \<times> usize) list" where
  "aux_array 0 bs = []"
| "aux_array (Suc fuel) bs =
     (if load_word bs = 0 then [] else (load_word bs, load_word (drop 8 bs)) # aux_array fuel (drop 16 bs))"

definition c_start :: "u8 list \<Rightarrow> usize \<Rightarrow> usize \<Rightarrow> usize \<times> u8 list list \<times> u8 list list \<times> (usize \<times> usize) list" where
  "c_start m lo sp =
     (let bs = mem_from m lo sp in
      case null_array (length m) (drop 8 bs) of (argv, bs1) \<Rightarrow>
      case null_array (length m) bs1 of (envp, bs2) \<Rightarrow>
        (load_word bs, map (\<lambda>p. load_str (mem_from m lo p)) argv, map (\<lambda>p. load_str (mem_from m lo p)) envp, aux_array (length m) bs2))"

lemma words_bytes_Cons [simp]: "words_bytes (w # ws) = word_bytes w @ words_bytes ws" "words_bytes [] = []"
  by (simp_all add: words_bytes_def)

lemma null_array_words:
  "0 \<notin> set ws \<Longrightarrow> length ws < fuel \<Longrightarrow> null_array fuel (words_bytes ws @ word_bytes 0 @ bs) = (ws, bs)"
proof (induction ws arbitrary: fuel)
  case Nil
  then show ?case by (cases fuel) simp_all
next
  case (Cons w ws)
  then show ?case by (cases fuel) simp_all
qed

lemma aux_array_words:
  "0 \<notin> fst ` set es \<Longrightarrow> length es < fuel \<Longrightarrow> aux_array fuel (words_bytes (aux_words es) @ word_bytes 0 @ bs) = es"
proof (induction es arbitrary: fuel)
  case Nil
  then show ?case by (cases fuel) simp_all
next
  case (Cons e es)
  then show ?case by (cases fuel) (auto simp: image_iff)
qed

lemma mem_from_suffix:
  assumes m: "m = z @ x" and b: "b = unat lo + length m" "b < 2 ^ 64"
  shows "mem_from m lo (addr_of b x) = x"
proof -
  have e: "b - length x = unat lo + length z" using m b by simp
  have "unat (addr_of b x) = unat lo + length z" unfolding addr_of_def e by (rule unat_of_nat_64) (use m b in simp)
  then have "unat (addr_of b x - lo) = length z" by (subst unat_sub_no_underflow) auto
  then show ?thesis by (simp add: mem_from_def m)
qed

lemma strs_bytes_suffix: "\<exists>y. strs_bytes strs c = y @ c"
  by (induction strs arbitrary: c) (simp, metis append_assoc append_Cons append_Nil strs_bytes.simps(2))

lemma str_ends_suffix: "x \<in> set (str_ends strs c) \<Longrightarrow> \<exists>y. strs_bytes strs c = y @ x"
  by (induction strs arbitrary: c) (use strs_bytes_suffix in auto)

lemma str_ends_strs: "\<forall>s \<in> set strs. 0 \<notin> set s \<Longrightarrow> map load_str (str_ends strs c) = strs"
proof (induction strs arbitrary: c)
  case (Cons s strs)
  have "takeWhile (\<lambda>b. b \<noteq> 0) (s @ 0 # c) = s" using Cons.prems by (subst takeWhile_append2) auto
  then show ?case using Cons by (simp add: load_str_def)
qed simp

lemma str_ends_length: "x \<in> set (str_ends strs c) \<Longrightarrow> length x \<le> length (strs_bytes strs c)"
  using str_ends_suffix [of x strs c] by auto

lemma string_suffixes:
  assumes "x = env_end b \<or> x \<in> set (str_ends args (arg_end envs b)) \<or> x \<in> set (str_ends envs (env_end b))"
  shows "\<exists>v. strs_bytes args (arg_end envs b) = v @ x"
proof -
  obtain u where u: "strs_bytes args (arg_end envs b) = u @ arg_end envs b" using strs_bytes_suffix by blast
  have "(\<exists>v. arg_end envs b = v @ x) \<or> x \<in> set (str_ends args (arg_end envs b))"
    using assms strs_bytes_suffix [of envs "env_end b"] str_ends_suffix [of x envs "env_end b"] unfolding arg_end_def by blast
  then show ?thesis using u str_ends_suffix by (metis append_assoc)
qed

lemma addr_of_nonzero: "length c < b \<Longrightarrow> b < 2 ^ 64 \<Longrightarrow> addr_of b c \<noteq> 0"
proof -
  assume "length c < b" "b < 2 ^ 64"
  then have "unat (addr_of b c) \<noteq> 0" unfolding addr_of_def by (subst unat_of_nat_64) auto
  then show ?thesis by auto
qed

lemma app_stack_region_content:
  assumes fit: "stack_need args envs auxv \<le> 0x4000" and size: "0x4000 \<le> unat stack_size" "unat lo + unat stack_size < 2 ^ 64"
  shows "\<exists>m sp k z y. let b = unat lo + unat stack_size in get_app_stack_region args envs auxv lo stack_size = Ok (m, sp) \<and> 16 dvd unat sp \<and>
    2 \<le> k \<and> length m = unat stack_size \<and> m = z @ y \<and> sp = addr_of b y \<and> length y \<le> 0x4000 \<and>
    y = words_bytes (start_words args envs auxv b @ replicate k 0) @ drop (8 * (length (start_words args envs auxv b) + k)) y \<and>
    (\<exists>w. w \<noteq> [] \<and> y = w @ strs_bytes args (arg_end envs b))"
proof -
  let ?b = "unat lo + unat stack_size"
  have b: "?b = unat (lo + stack_size)" using size(2) by (simp add: unat_add_no_overflow)
  obtain s k pad where s: "init_stack args envs auxv (lo + stack_size) = (Ok (), s)" "2 \<le> k" "16 dvd unat (us_sp s)"
      and h: "stack_holds ?b s (words_bytes (start_words args envs auxv ?b @ replicate k 0) @ replicate pad 0 @ strs_bytes args (arg_end envs ?b))"
    using init_stack_holds [OF b _ fit] size(1) by auto
  let ?y = "words_bytes (start_words args envs auxv ?b @ replicate k 0) @ replicate pad 0 @ strs_bytes args (arg_end envs ?b)"
  let ?m = "replicate (unat stack_size - length ?y) 0 @ ?y"
  have l: "length ?y \<le> 0x4000" using h unfolding stack_holds_def by blast
  have front: "get_data_front_ref s = Ok ?y"
    using us_offset_holds [OF h] h unfolding get_data_front_ref_def stack_holds_def by auto
  have "unat (us_get_len s) = length ?y"
    unfolding us_get_len_def using h l size by (subst unat_sub_no_underflow) (auto simp: stack_holds_def)
  then have "unat (stack_size - us_get_len s) = unat stack_size - length ?y"
    using l size(1) by (subst unat_sub_no_underflow) auto
  then have "get_app_stack_region args envs auxv lo stack_size = Ok (?m, us_sp s)"
    using front by (simp add: get_app_stack_region_def s(1))
  moreover have "us_sp s = addr_of ?b ?y" using us_sp_holds [OF h] unfolding addr_of_def .
  moreover have "length ?m = unat stack_size" using l size(1) by simp
  moreover have "?y = words_bytes (start_words args envs auxv ?b @ replicate k 0) @
      drop (8 * (length (start_words args envs auxv ?b) + k)) ?y" by simp
  moreover have "\<exists>w. w \<noteq> [] \<and> ?y = w @ strs_bytes args (arg_end envs ?b)"
    by (rule exI [of _ "words_bytes (start_words args envs auxv ?b @ replicate k 0) @ replicate pad 0"]) (simp add: start_words_def)
  ultimately show ?thesis using s(2,3) l unfolding Let_def by blast
qed

text \<open>
  C29: The stack that the kernel builds for a program is the one its start code expects, whenever it fits into
  0x4000 bytes: the stack pointer is aligned to 16 bytes, and reading \<open>argc\<close>, \<open>argv\<close>, \<open>envp\<close> and the auxiliary
  vector from there gives the number of arguments, the arguments, the environment and the entries in reverse
  order, where the entry for \<open>AT_RANDOM\<close> points to the sixteen random bytes.
\<close>

theorem app_stack_roundtrip:
  assumes fit: "stack_need args envs auxv \<le> 0x4000" and size: "0x4000 \<le> unat stack_size" "unat lo + unat stack_size < 2 ^ 64"
    and strs: "\<forall>s \<in> set (args @ envs). 0 \<notin> set s" and keys: "0 \<notin> fst ` set auxv"
  shows "\<exists>m sp pos. get_app_stack_region args envs auxv lo stack_size = Ok (m, sp) \<and> length m = unat stack_size \<and> 16 dvd unat sp \<and>
    c_start m lo sp = (of_nat (length args), args, envs, rev (map (aux_entry pos) auxv)) \<and>
    take 16 (mem_from m lo pos) = random_bytes"
proof -
  define b where "b = unat lo + unat stack_size"
  let ?ae = "str_ends args (arg_end envs b)" and ?ee = "str_ends envs (env_end b)" and ?pos = "addr_of b (env_end b)"
  let ?aux = "rev (map (aux_entry ?pos) auxv)"
  obtain m sp k z y r w where r: "get_app_stack_region args envs auxv lo stack_size = Ok (m, sp)" "16 dvd unat sp" "2 \<le> k"
      "length m = unat stack_size" "m = z @ y" "sp = addr_of b y" "length y \<le> 0x4000"
      and y: "y = words_bytes (start_words args envs auxv b @ replicate k 0) @ r" and w: "w \<noteq> []" "y = w @ strs_bytes args (arg_end envs b)"
    using app_stack_region_content [OF fit size] unfolding Let_def b_def [symmetric] by blast
  have b: "b = unat lo + length m" "b < 2 ^ 64" using r(4) size(2) by (simp_all add: b_def)
  have suf: "\<exists>v. v \<noteq> [] \<and> y = v @ x" if "x = env_end b \<or> x \<in> set ?ae \<or> x \<in> set ?ee" for x
    using string_suffixes [OF that] w by (metis append_assoc append_is_Nil_conv)
  have at: "mem_from m lo (addr_of b x) = x" if "x = env_end b \<or> x \<in> set ?ae \<or> x \<in> set ?ee" for x
    using suf [OF that] r(5) mem_from_suffix [OF _ b, of _ x] by (metis append_assoc)
  have nz: "addr_of b x \<noteq> 0" if xm: "x \<in> set ?ae \<or> x \<in> set ?ee" for x
  proof (rule addr_of_nonzero [OF _ b(2)])
    obtain v where "v \<noteq> []" "y = v @ x" using suf [of x] xm by blast
    then have "length x < 0x4000" using r(7) by (cases v) auto
    then show "length x < b" using size(1) by (simp add: b_def)
  qed
  have m: "mem_from m lo sp = y" using mem_from_suffix [OF r(5) b] r(6) by simp
  have lens: "8 * (3 + length args + length envs + 2 * length auxv + k) \<le> length m" using y r(5) by simp
  have k: "words_bytes (replicate k 0) = word_bytes 0 @ words_bytes (replicate (k - 1) 0)" using r(3) by (cases k) simp_all
  have argv: "null_array (length m) (drop 8 y) = (map (addr_of b) ?ae, words_bytes (map (addr_of b) ?ee) @ word_bytes 0 @ words_bytes (aux_words ?aux) @ words_bytes (replicate k 0) @ r)"
    using null_array_words [of "map (addr_of b) ?ae" "length m"] nz lens by (subst y) (force simp: start_words_def)
  have envp: "null_array (length m) (words_bytes (map (addr_of b) ?ee) @ word_bytes 0 @ words_bytes (aux_words ?aux) @ words_bytes (replicate k 0) @ r) =
      (map (addr_of b) ?ee, words_bytes (aux_words ?aux) @ words_bytes (replicate k 0) @ r)"
    using nz lens by (intro null_array_words) auto
  have "0 \<notin> fst ` set ?aux" using keys by (force simp: aux_entry_def image_iff split: prod.splits)
  then have aux: "aux_array (length m) (words_bytes (aux_words ?aux) @ words_bytes (replicate k 0) @ r) = ?aux"
    unfolding k append_assoc using lens r(3) by (intro aux_array_words) auto
  have "map (\<lambda>x. load_str (mem_from m lo (addr_of b x))) ?ae = map load_str ?ae"
      "map (\<lambda>x. load_str (mem_from m lo (addr_of b x))) ?ee = map load_str ?ee" using at by auto
  then have "c_start m lo sp = (load_word y, args, envs, ?aux)"
    using str_ends_strs [of args "arg_end envs b"] str_ends_strs [of envs "env_end b"] strs
    by (simp add: c_start_def m argv envp aux comp_def)
  moreover have "load_word y = of_nat (length args)" by (subst y) (simp add: start_words_def)
  moreover have "take 16 (mem_from m lo ?pos) = random_bytes" using at [of "env_end b"] by (simp add: env_end_def random_bytes_def)
  ultimately show ?thesis using r(1,2,4) by metis
qed

definition demo_args :: "u8 list list" where "demo_args = [[108, 115], [45, 108]]"

theorem app_stack_roundtrip_witness:
  "\<exists>m sp pos. get_app_stack_region demo_args [[65, 61, 98]] [(6, 4096), (25, 0)] 0x3fffe000 0x20000 = Ok (m, sp) \<and> 16 dvd unat sp \<and>
     c_start m 0x3fffe000 sp = (2, demo_args, [[65, 61, 98]], [(25, pos), (6, 4096)])"
proof -
  have "stack_need demo_args [[65, 61, 98]] [(6, 4096), (25, 0)] \<le> 0x4000" "\<forall>s \<in> set (demo_args @ [[65, 61, 98]]). 0 \<notin> set s"
    by (simp_all add: stack_need_def demo_args_def)
  from app_stack_roundtrip [OF this(1) _ _ this(2), of "0x20000" "0x3fffe000"]
  show ?thesis by (auto simp: aux_entry_def demo_args_def)
qed


end
