(* ===== verification/Elf.thy ===== *)
theory Elf
  imports UserStack PageTableEntry
begin

text \<open>
  \<open>crates/elf_parser\<close>: the segments, the entry point, the auxiliary vector and the relocations of a program
  (\<open>lib.rs\<close>, \<open>auxv.rs\<close>, \<open>arch/riscv.rs\<close>). The file format is decoded by the crate \<open>xmas_elf\<close>, which is not
  part of the repository: an \<open>ElfFile\<close> holds what its accessors return.
\<close>

record ProgramHeader =
  ph_load :: bool
  ph_virtual_addr :: u64
  ph_mem_size :: u64
  ph_offset :: u64
  ph_file_size :: u64
  ph_read :: bool
  ph_write :: bool
  ph_execute :: bool

record Rela64 =
  ra_symbol :: nat
  ra_type :: u32
  ra_offset :: u64
  ra_addend :: u64

record DynSym =
  sym_shndx :: nat
  sym_value :: u64

text \<open>A section is absent, of another kind than expected (\<open>Some None\<close>), or its data.\<close>

record ElfFile =
  elf_input :: "u8 list"
  elf_magic :: "u8 list"
  elf_programs :: "ProgramHeader list"
  elf_ph_offset :: u64
  elf_ph_entry_size :: u64
  elf_ph_count :: u64
  elf_entry_point :: u64
  elf_rela_dyn :: "Rela64 list option option"
  elf_rela_plt :: "Rela64 list option option"
  elf_dynsym :: "DynSym list option option"

record ELFSegment =
  seg_vaddr :: usize
  seg_size :: usize
  seg_flags :: MappingFlags
  seg_data :: "u8 list"

record RelocatePair =
  rp_src :: usize
  rp_dst :: usize
  rp_count :: usize

subsection \<open>Segments, entry point and auxiliary vector\<close>

definition ELF_MAGIC :: "u8 list" where "ELF_MAGIC = [0x7f, 0x45, 0x4c, 0x46]"

text \<open>The base that is added to all addresses, the same code in three functions.\<close>

definition elf_base :: "ElfFile \<Rightarrow> usize option \<Rightarrow> (usize, unit) result" where
  "elf_base elf elf_base_addr =
     (if elf_magic elf \<noteq> ELF_MAGIC then Panic
      else case find ph_load (elf_programs elf) of
        Some header \<Rightarrow> if ph_virtual_addr header = 0 then (case elf_base_addr of Some addr \<Rightarrow> Ok addr | None \<Rightarrow> Panic) else Ok 0
      | None \<Rightarrow> Ok 0)"

definition ph_flags :: "ProgramHeader \<Rightarrow> MappingFlags" where
  "ph_flags ph = USER OR (if ph_read ph then READ else 0) OR (if ph_write ph then WRITE else 0) OR (if ph_execute ph then EXECUTE else 0)"

text \<open>The slice \<open>[from..to]\<close>.\<close>

definition slice_range :: "usize \<Rightarrow> usize \<Rightarrow> 'a list \<Rightarrow> ('a list, unit) result" where
  "slice_range i j xs = (if unat i \<le> unat j \<and> unat j \<le> length xs then Ok (take (unat j - unat i) (drop (unat i) xs)) else Panic)"

definition elf_segment :: "ElfFile \<Rightarrow> usize \<Rightarrow> ProgramHeader \<Rightarrow> (ELFSegment, unit) result" where
  "elf_segment elf base_addr ph =
     (let start_va = ph_virtual_addr ph + base_addr; end_va = (ph_virtual_addr ph + ph_mem_size ph) + base_addr;
          start_offset = ph_offset ph; end_offset = ph_offset ph + ph_file_size ph in
      if start_va mod PAGE_SIZE_4K \<noteq> start_offset mod PAGE_SIZE_4K then Panic
      else let front_pad = start_va mod PAGE_SIZE_4K; start_va = start_va - front_pad; start_offset = start_offset - front_pad in
        res_bind (slice_range start_offset end_offset (elf_input elf)) (\<lambda>data.
          Ok \<lparr>seg_vaddr = start_va, seg_size = end_va - start_va, seg_flags = ph_flags ph, seg_data = data\<rparr>))"

fun map_results :: "('a \<Rightarrow> ('b, 'e) result) \<Rightarrow> 'a list \<Rightarrow> ('b list, 'e) result" where
  "map_results f [] = Ok []"
| "map_results f (x # xs) = res_bind (f x) (\<lambda>y. res_bind (map_results f xs) (\<lambda>ys. Ok (y # ys)))"

definition get_elf_segments :: "ElfFile \<Rightarrow> usize option \<Rightarrow> (ELFSegment list, unit) result" where
  "get_elf_segments elf elf_base_addr = res_bind (elf_base elf elf_base_addr)
     (\<lambda>base_addr. map_results (elf_segment elf base_addr) (filter ph_load (elf_programs elf)))"

definition get_elf_entry :: "ElfFile \<Rightarrow> usize option \<Rightarrow> (usize, unit) result" where
  "get_elf_entry elf elf_base_addr = res_bind (elf_base elf elf_base_addr) (\<lambda>base_addr. Ok (elf_entry_point elf + base_addr))"

definition AT_PHDR :: u8 where "AT_PHDR = 3"
definition AT_PHENT :: u8 where "AT_PHENT = 4"
definition AT_PHNUM :: u8 where "AT_PHNUM = 5"
definition AT_PAGESZ :: u8 where "AT_PAGESZ = 6"
definition AT_RANDOM :: u8 where "AT_RANDOM = 25"

definition get_auxv_vector :: "ElfFile \<Rightarrow> usize option \<Rightarrow> ((u8, usize) btree, unit) result" where
  "get_auxv_vector elf elf_base_addr =
     res_bind (case find ph_load (elf_programs elf) of
        Some header \<Rightarrow> if ph_virtual_addr header = 0 then (case elf_base_addr of Some addr \<Rightarrow> Ok addr | None \<Rightarrow> Panic)
                       else Ok (ph_virtual_addr header)
      | None \<Rightarrow> Ok 0)
     (\<lambda>elf_header_vaddr.
       Ok (bt_insert AT_PAGESZ PAGE_SIZE_4K (bt_insert AT_RANDOM 0 (bt_insert AT_PHNUM (elf_ph_count elf)
         (bt_insert AT_PHENT (elf_ph_entry_size elf) (bt_insert AT_PHDR (elf_header_vaddr + elf_ph_offset elf) []))))))"

subsection \<open>Relocations\<close>

definition R_RISCV_32 :: u32 where "R_RISCV_32 = 1"
definition R_RISCV_64 :: u32 where "R_RISCV_64 = 2"
definition R_RISCV_RELATIVE :: u32 where "R_RISCV_RELATIVE = 3"
definition R_JUMP_SLOT :: u32 where "R_JUMP_SLOT = 5"
definition TLS_DTPREL32 :: u32 where "TLS_DTPREL32 = 8"
definition TLS_DTV_OFFSET :: usize where "TLS_DTV_OFFSET = 0x800"

definition rela_dyn_pair :: "usize \<Rightarrow> DynSym list \<Rightarrow> Rela64 \<Rightarrow> (RelocatePair, unit) result" where
  "rela_dyn_pair base_addr dyn_sym_table entry =
     (if length dyn_sym_table \<le> ra_symbol entry then Panic
      else let dyn_sym = dyn_sym_table ! ra_symbol entry; destination = base_addr + ra_offset entry;
               symbol_value = sym_value dyn_sym; addend = ra_addend entry in
        if ra_type entry = R_RISCV_32 then
          (if sym_shndx dyn_sym = 0 then Panic else Ok \<lparr>rp_src = symbol_value + addend, rp_dst = destination, rp_count = 4\<rparr>)
        else if ra_type entry = R_RISCV_64 then
          (if sym_shndx dyn_sym = 0 then Panic else Ok \<lparr>rp_src = symbol_value + addend, rp_dst = destination, rp_count = 8\<rparr>)
        else if ra_type entry = R_RISCV_RELATIVE then Ok \<lparr>rp_src = base_addr + addend, rp_dst = destination, rp_count = 8\<rparr>
        else if ra_type entry = R_JUMP_SLOT then
          (if sym_shndx dyn_sym = 0 then Panic else Ok \<lparr>rp_src = symbol_value, rp_dst = destination, rp_count = 8\<rparr>)
        else if ra_type entry = TLS_DTPREL32 then Ok \<lparr>rp_src = symbol_value + addend - TLS_DTV_OFFSET, rp_dst = destination, rp_count = 4\<rparr>
        else Panic)"

definition rela_plt_pair :: "usize \<Rightarrow> DynSym list \<Rightarrow> Rela64 \<Rightarrow> (RelocatePair, unit) result" where
  "rela_plt_pair base_addr dyn_sym_table entry =
     (if length dyn_sym_table \<le> ra_symbol entry then Panic
      else let dyn_sym = dyn_sym_table ! ra_symbol entry; destination = base_addr + ra_offset entry in
        if ra_type entry = R_JUMP_SLOT then
          (if sym_shndx dyn_sym \<noteq> 0 then Ok \<lparr>rp_src = sym_value dyn_sym + base_addr, rp_dst = destination, rp_count = 8\<rparr> else Panic)
        else Panic)"

definition rela_section ::
  "(DynSym list \<Rightarrow> Rela64 \<Rightarrow> (RelocatePair, unit) result) \<Rightarrow> Rela64 list option option \<Rightarrow> DynSym list option option \<Rightarrow> (RelocatePair list, unit) result" where
  "rela_section pair_of rela dynsym = (case rela of None \<Rightarrow> Ok [] | Some None \<Rightarrow> Panic | Some (Some data) \<Rightarrow>
     (case dynsym of None \<Rightarrow> Ok [] | Some None \<Rightarrow> Panic | Some (Some dyn_sym_table) \<Rightarrow> map_results (pair_of dyn_sym_table) data))"

definition get_relocate_pairs :: "ElfFile \<Rightarrow> usize option \<Rightarrow> (RelocatePair list, unit) result" where
  "get_relocate_pairs elf elf_base_addr = res_bind (elf_base elf elf_base_addr) (\<lambda>base_addr.
     res_bind (rela_section (rela_dyn_pair base_addr) (elf_rela_dyn elf) (elf_dynsym elf)) (\<lambda>dyn.
     res_bind (rela_section (rela_plt_pair base_addr) (elf_rela_plt elf) (elf_dynsym elf)) (\<lambda>plt. Ok (dyn @ plt))))"

subsection \<open>What the segments hold\<close>

lemma map_results_Ok: "map_results f xs = Ok ys \<longleftrightarrow> list_all2 (\<lambda>x y. f x = Ok y) xs ys"
proof (induction xs arbitrary: ys)
  case (Cons x xs)
  then show ?case by (cases ys) auto
qed auto

text \<open>The sums of addresses and offsets of a header do not overflow.\<close>

definition ph_fits :: "usize \<Rightarrow> ProgramHeader \<Rightarrow> bool" where
  "ph_fits base_addr ph \<longleftrightarrow> unat (ph_virtual_addr ph) + unat (ph_mem_size ph) + unat base_addr < 2 ^ 64 \<and>
     unat (ph_offset ph) + unat (ph_file_size ph) < 2 ^ 64"

definition file_at :: "ElfFile \<Rightarrow> ProgramHeader \<Rightarrow> u8 list" where
  "file_at elf ph = take (unat (ph_file_size ph)) (drop (unat (ph_offset ph)) (elf_input elf))"

lemma elf_segment_Ok:
  assumes s: "elf_segment elf base_addr ph = Ok sg" and fits: "ph_fits base_addr ph"
  defines "pad \<equiv> unat (ph_virtual_addr ph + base_addr) mod 4096"
  shows "unat (seg_vaddr sg) + pad = unat (ph_virtual_addr ph) + unat base_addr \<and> 4096 dvd unat (seg_vaddr sg) \<and>
    unat (seg_size sg) = pad + unat (ph_mem_size ph) \<and> seg_flags sg = ph_flags ph \<and> drop pad (seg_data sg) = file_at elf ph \<and>
    length (file_at elf ph) = unat (ph_file_size ph) \<and> pad < 4096"
proof -
  let ?va = "ph_virtual_addr ph + base_addr" and ?o = "ph_offset ph" and ?e = "ph_offset ph + ph_file_size ph"
  have va: "unat ?va = unat (ph_virtual_addr ph) + unat base_addr"
    using fits by (intro unat_add_no_overflow) (simp add: ph_fits_def)
  have end_va: "unat ((ph_virtual_addr ph + ph_mem_size ph) + base_addr) = unat ?va + unat (ph_mem_size ph)"
    using fits unfolding ph_fits_def by (simp add: unat_word_ariths)
  have e: "unat ?e = unat ?o + unat (ph_file_size ph)" using fits by (intro unat_add_no_overflow) (simp add: ph_fits_def)
  have p: "unat (?va mod PAGE_SIZE_4K) = pad" by (simp add: unat_mod PAGE_SIZE_4K_def pad_def)
  have c: "?va mod PAGE_SIZE_4K = ?o mod PAGE_SIZE_4K" using s by (auto simp: elf_segment_def Let_def split: if_splits)
  have "unat (?o mod PAGE_SIZE_4K) = unat ?o mod 4096" by (simp add: unat_mod PAGE_SIZE_4K_def)
  then have po: "pad \<le> unat ?o" using p unfolding c by simp
  have pv: "pad \<le> unat ?va" by (simp add: pad_def)
  have sv: "unat (?va - ?va mod PAGE_SIZE_4K) = unat ?va - pad" using p pv by (subst unat_sub_no_underflow) auto
  have so: "unat (?o - ?va mod PAGE_SIZE_4K) = unat ?o - pad" using p po by (subst unat_sub_no_underflow) auto
  let ?i = "unat ?o - pad" and ?d = "take (unat ?e - (unat ?o - pad)) (drop (unat ?o - pad) (elf_input elf))"
  have sg: "sg = \<lparr>seg_vaddr = ?va - ?va mod PAGE_SIZE_4K, seg_size = (ph_virtual_addr ph + ph_mem_size ph) + base_addr - (?va - ?va mod PAGE_SIZE_4K),
      seg_flags = ph_flags ph, seg_data = ?d\<rparr>" and le: "unat ?e \<le> length (elf_input elf)"
    using s so c by (auto simp: elf_segment_def Let_def slice_range_def split: if_splits)
  have "unat (seg_size sg) = pad + unat (ph_mem_size ph)"
  proof -
    have "seg_size sg = (ph_virtual_addr ph + ph_mem_size ph) + base_addr - (?va - ?va mod PAGE_SIZE_4K)" by (simp only: sg ELFSegment.simps)
    moreover have "unat ((ph_virtual_addr ph + ph_mem_size ph) + base_addr - (?va - ?va mod PAGE_SIZE_4K)) =
        unat ((ph_virtual_addr ph + ph_mem_size ph) + base_addr) - unat (?va - ?va mod PAGE_SIZE_4K)"
      by (rule unat_sub_no_underflow) (use sv end_va pv in linarith)
    ultimately show ?thesis using sv end_va pv by simp
  qed
  moreover have "drop pad (seg_data sg) = file_at elf ph"
    using po e by (simp add: sg file_at_def drop_take)
  moreover have "length (file_at elf ph) = unat (ph_file_size ph)" using le e by (simp add: file_at_def)
  moreover have "4096 dvd unat ?va - pad" unfolding pad_def by (rule dvd_minus_mod)
  moreover have "pad < 4096" by (simp add: pad_def)
  ultimately show ?thesis using sv va pv by (simp add: sg)
qed

text \<open>
  C30: When loading succeeds, each loadable header gives one segment, in order: a page-aligned range of memory
  that ends at the end of the header's memory, readable, writable and executable exactly as the header says
  and always accessible to the user, and at the header's address it holds the header's part of the file.
\<close>

theorem elf_segments_place_file:
  assumes "get_elf_segments elf elf_base_addr = Ok segs" "elf_base elf elf_base_addr = Ok base_addr"
    and "\<forall>ph \<in> set (elf_programs elf). ph_fits base_addr ph"
  shows "list_all2 (\<lambda>ph sg. \<exists>pad < 4096. unat (seg_vaddr sg) + pad = unat (ph_virtual_addr ph) + unat base_addr \<and>
      4096 dvd unat (seg_vaddr sg) \<and> unat (seg_size sg) = pad + unat (ph_mem_size ph) \<and>
      seg_flags sg = ph_flags ph \<and> drop pad (seg_data sg) = file_at elf ph \<and> length (file_at elf ph) = unat (ph_file_size ph))
    (filter ph_load (elf_programs elf)) segs"
proof -
  have "list_all2 (\<lambda>ph sg. elf_segment elf base_addr ph = Ok sg) (filter ph_load (elf_programs elf)) segs"
    using assms(1,2) by (auto simp: get_elf_segments_def map_results_Ok)
  then show ?thesis
  proof (rule list.rel_mono_strong)
    fix ph sg
    assume "ph \<in> set (filter ph_load (elf_programs elf))" "elf_segment elf base_addr ph = Ok sg"
    with elf_segment_Ok [of elf base_addr ph sg] assms(3)
    show "\<exists>pad < 4096. unat (seg_vaddr sg) + pad = unat (ph_virtual_addr ph) + unat base_addr \<and>
      4096 dvd unat (seg_vaddr sg) \<and> unat (seg_size sg) = pad + unat (ph_mem_size ph) \<and>
      seg_flags sg = ph_flags ph \<and> drop pad (seg_data sg) = file_at elf ph \<and> length (file_at elf ph) = unat (ph_file_size ph)"
      by auto
  qed
qed

definition demo_header :: "u64 \<Rightarrow> ProgramHeader" where
  "demo_header va = \<lparr>ph_load = True, ph_virtual_addr = va, ph_mem_size = 8, ph_offset = 2, ph_file_size = 3, ph_read = True, ph_write = True, ph_execute = False\<rparr>"

definition demo_elf :: ElfFile where
  "demo_elf = \<lparr>elf_input = [0x7f, 0x45, 0x4c, 0x46, 5, 6], elf_magic = ELF_MAGIC, elf_programs = [demo_header 0x1002], elf_ph_offset = 64,
     elf_ph_entry_size = 56, elf_ph_count = 1, elf_entry_point = 0x1004, elf_rela_dyn = None, elf_rela_plt = None, elf_dynsym = None\<rparr>"

theorem elf_segments_place_file_witness:
  "\<exists>sg pad. get_elf_segments demo_elf None = Ok [sg] \<and> unat (seg_vaddr sg) + pad = 0x1002 \<and> unat (seg_size sg) = pad + 8 \<and>
     seg_flags sg = USER OR READ OR WRITE \<and> drop pad (seg_data sg) = [0x4c, 0x46, 5]"
proof -
  have b: "elf_base demo_elf None = Ok 0" by code_simp
  have "is_ok (get_elf_segments demo_elf None)" by code_simp
  then obtain segs where s: "get_elf_segments demo_elf None = Ok segs" by (auto simp: is_ok_iff)
  have "\<forall>ph \<in> set (elf_programs demo_elf). ph_fits 0 ph" by (simp add: demo_elf_def ph_fits_def demo_header_def)
  from elf_segments_place_file [OF s b this] s show ?thesis
    by (auto simp: demo_elf_def demo_header_def list_all2_Cons1 ph_flags_def file_at_def or.assoc or.commute)
qed

lemma aux_keys: "get_auxv_vector elf elf_base_addr = Ok auxv \<Longrightarrow> map fst auxv = [3, 4, 5, 6, 25] \<and> map_of auxv AT_PAGESZ = Some 4096"
  by (auto simp: get_auxv_vector_def AT_PHDR_def AT_PHENT_def AT_PHNUM_def AT_PAGESZ_def AT_RANDOM_def PAGE_SIZE_4K_def
      split: option.splits if_splits)

text \<open>Every relocation entry gives one pair, in order, that writes 4 or 8 bytes at its offset from the base.\<close>

lemma relocation_targets:
  assumes "get_relocate_pairs elf elf_base_addr = Ok pairs" "elf_base elf elf_base_addr = Ok base_addr"
    and "elf_rela_dyn elf = Some (Some dyn)" "elf_rela_plt elf = Some (Some plt)" "elf_dynsym elf = Some (Some syms)"
  shows "map rp_dst pairs = map (\<lambda>e. base_addr + ra_offset e) (dyn @ plt) \<and> (\<forall>p \<in> set pairs. rp_count p \<in> {4, 8})"
proof -
  obtain dp pp where p: "pairs = dp @ pp" "list_all2 (\<lambda>e q. rela_dyn_pair base_addr syms e = Ok q) dyn dp"
      "list_all2 (\<lambda>e q. rela_plt_pair base_addr syms e = Ok q) plt pp"
    using assms by (auto simp: get_relocate_pairs_def rela_section_def map_results_Ok)
  have "rp_dst q = base_addr + ra_offset e \<and> rp_count q \<in> {4, 8}" if "rela_dyn_pair base_addr syms e = Ok q \<or> rela_plt_pair base_addr syms e = Ok q" for e q
    using that by (auto simp: rela_dyn_pair_def rela_plt_pair_def Let_def split: if_splits)
  then have "list_all2 (\<lambda>e q. rp_dst q = base_addr + ra_offset e \<and> rp_count q \<in> {4, 8}) (dyn @ plt) pairs"
    unfolding p(1) using p(2,3) by (intro list_all2_appendI) (auto elim!: list_all2_mono)
  then show ?thesis by (induction rule: list_all2_induct) auto
qed

end
