(* ===== verification/Link.thy ===== *)
theory Link
  imports FsApiCorrect TaskApi
begin

text \<open>
  \<open>modules/axtask/src/link.rs\<close>: links between files, kept in two maps of the kernel above a file system without
  hard links. \<open>link_path_map\<close> takes the path a user sees to the file behind it, \<open>link_count_map\<close> the file to
  the number of paths that lead to it. Paths are UTF-8 byte strings.
\<close>

record 'r LinkFs =
  lk_fs :: "'r Fs"
  link_path_map :: "(string, string) btree"
  link_count_map :: "(string, nat) btree"

type_synonym ('r, 'a) link_action = "('r LinkFs, 'a, AxError) action"

definition starts_with :: "string \<Rightarrow> string \<Rightarrow> bool" where
  "starts_with p pre \<longleftrightarrow> take (length pre) p = pre"

subsection \<open>\<open>str::trim\<close>\<close>

text \<open>The UTF-8 sequences of the characters with the property White_Space.\<close>

definition white_spaces :: "string list" where
  "white_spaces = map (map char_of)
     ([[9], [10], [11], [12], [13], [32], [0xC2, 0x85], [0xC2, 0xA0], [0xE1, 0x9A, 0x80], [0xE2, 0x80, 0xA8], [0xE2, 0x80, 0xA9],
       [0xE2, 0x80, 0xAF], [0xE2, 0x81, 0x9F], [0xE3, 0x80, 0x80]] @ map (\<lambda>i. [0xE2, 0x80, i]) [0x80..<0x8B] :: nat list list)"

fun trim_prefix :: "string list \<Rightarrow> nat \<Rightarrow> string \<Rightarrow> string" where
  "trim_prefix ws 0 s = s"
| "trim_prefix ws (Suc fuel) s = (case find (\<lambda>w. starts_with s w) ws of None \<Rightarrow> s | Some w \<Rightarrow> trim_prefix ws fuel (drop (length w) s))"

definition str_trim :: "string \<Rightarrow> string" where
  "str_trim s = (let s = trim_prefix white_spaces (length s) s
     in rev (trim_prefix (map rev white_spaces) (length s) (rev s)))"

subsection \<open>Paths\<close>

definition GCC_DIR_SRC :: string where "GCC_DIR_SRC = ''/riscv64-linux-musl-native/lib/gcc/riscv64-linux-musl/11.2.1/include''"
definition GCC_DIR_DST :: string where "GCC_DIR_DST = ''/riscv64-linux-musl-native/include''"
definition MUSL_DIR_SRC :: string where "MUSL_DIR_SRC = ''/riscv64-linux-musl-native/riscv64-linux-musl/include''"
definition MUSL_DIR_DST :: string where "MUSL_DIR_DST = ''/riscv64-linux-musl-native/include''"

definition real_path :: "string \<Rightarrow> 'r LinkFs \<Rightarrow> string" where
  "real_path src_path L = (case map_of (link_path_map L) src_path of
       Some dest_path \<Rightarrow> dest_path
     | None \<Rightarrow>
         if starts_with src_path GCC_DIR_SRC then GCC_DIR_DST @ drop (length GCC_DIR_SRC) src_path
         else if starts_with src_path MUSL_DIR_SRC then MUSL_DIR_DST @ drop (length MUSL_DIR_SRC) src_path
         else src_path)"

definition FilePath_new :: "string \<Rightarrow> 'r LinkFs \<Rightarrow> (string, AxError) result" where
  "FilePath_new path L = (case absolute_path path (lk_fs L) of
       Ok p \<Rightarrow> (let new_path = str_trim p;
                   new_path = (if ends_slash path \<and> \<not> ends_slash new_path then new_path @ ''/'' else new_path)
               in Ok (real_path new_path L))
     | Err _ \<Rightarrow> Err NotFound | Panic \<Rightarrow> Panic | Diverge \<Rightarrow> Diverge)"

definition rfind_slash :: "string \<Rightarrow> nat option" where
  "rfind_slash s = (if slash \<in> set s then Some (length s - Suc (length (takeWhile (\<lambda>c. c \<noteq> slash) (rev s)))) else None)"

definition fp_is_root :: "string \<Rightarrow> bool" where "fp_is_root p \<longleftrightarrow> p = ''/''"
definition fp_is_dir :: "string \<Rightarrow> bool" where "fp_is_dir p \<longleftrightarrow> ends_slash p"
definition fp_is_file :: "string \<Rightarrow> bool" where "fp_is_file p \<longleftrightarrow> \<not> ends_slash p"

text \<open>The last slash that is not at the end of the path.\<close>

definition fp_split :: "string \<Rightarrow> nat option" where
  "fp_split p = (case rfind_slash p of None \<Rightarrow> None
     | Some pos \<Rightarrow> if pos = length p - 1 then rfind_slash (take pos p) else Some pos)"

definition fp_dir :: "string \<Rightarrow> (string, AxError) result" where
  "fp_dir p = (if fp_is_root p then Ok ''/'' else case fp_split p of None \<Rightarrow> Err NotADirectory | Some pos \<Rightarrow> Ok (take (Suc pos) p))"

definition fp_file :: "string \<Rightarrow> (string, AxError) result" where
  "fp_file p = (if fp_is_root p then Ok ''/'' else case fp_split p of None \<Rightarrow> Err NotFound | Some pos \<Rightarrow> Ok (drop (Suc pos) p))"

subsection \<open>Links\<close>

definition count_of :: "string \<Rightarrow> 'r LinkFs \<Rightarrow> nat" where
  "count_of p L = (case map_of (link_count_map L) p of Some n \<Rightarrow> n | None \<Rightarrow> 0)"

definition remove_link :: "string \<Rightarrow> ('r, string option) link_action" where
  "remove_link src_path L = (case map_of (link_path_map L) src_path of
       None \<Rightarrow> (Ok None, L)
     | Some dest_path \<Rightarrow>
         let count = count_of dest_path L; L = L\<lparr>link_path_map := bt_remove src_path (link_path_map L)\<rparr> in
         if \<not> count > 0 then (Panic, L\<lparr>link_count_map := bt_insert dest_path 0 (link_count_map L)\<rparr>)
         else let L = L\<lparr>link_count_map := bt_insert dest_path (count - 1) (link_count_map L)\<rparr> in
           if count - 1 = 0 then (case remove_file None dest_path (lk_fs L) of
               (Panic, S) \<Rightarrow> (Panic, L\<lparr>lk_fs := S\<rparr>)
             | (Diverge, S) \<Rightarrow> (Diverge, L\<lparr>lk_fs := S\<rparr>)
             | (_, S) \<Rightarrow> (Ok (Some dest_path), L\<lparr>lk_fs := S\<rparr>))
           else (Ok (Some dest_path), L))"

definition get_link_count :: "string \<Rightarrow> 'r LinkFs \<Rightarrow> (nat, AxError) result" where
  "get_link_count src_path L = (case map_of (link_path_map L) src_path of
       Some dest_path \<Rightarrow> (case map_of (link_count_map L) dest_path of Some n \<Rightarrow> Ok n | None \<Rightarrow> Panic)
     | None \<Rightarrow> Ok 0)"

definition insert_link :: "string \<Rightarrow> string \<Rightarrow> ('r, bool) link_action" where
  "insert_link src_path dest_path L =
     (Ok True, L\<lparr>link_path_map := bt_insert src_path dest_path (link_path_map L),
                link_count_map := bt_insert dest_path (count_of dest_path L + 1) (link_count_map L)\<rparr>)"

definition create_link :: "string \<Rightarrow> string \<Rightarrow> ('r, bool) link_action" where
  "create_link src_path dest_path L =
     (if \<not> fp_is_file src_path \<or> \<not> fp_is_file dest_path then (Ok False, L)
      else case path_exists dest_path (lk_fs L) of
        Ok False \<Rightarrow> (Ok False, L)
      | Ok True \<Rightarrow>
         (case map_of (link_path_map L) src_path of
            Some old_dest_path \<Rightarrow>
              if old_dest_path \<noteq> dest_path then and_then (remove_link src_path) (\<lambda>_. insert_link src_path dest_path) L
              else (Ok True, L)
          | None \<Rightarrow> insert_link src_path dest_path L)
      | Err e \<Rightarrow> (Err e, L) | Panic \<Rightarrow> (Panic, L) | Diverge \<Rightarrow> (Diverge, L))"

subsection \<open>The path argument of a system call\<close>

text \<open>
  What the user passes for the path: nothing, a null pointer, a pointer that cannot be read, or the string at
  it (empty when it is not UTF-8). \<open>get_path\<close> and \<open>is_dir_desc\<close> are operations of the open file.
\<close>

datatype UserPath = NoPath | NullPtr | BadPtr | UserStr string

definition AT_FDCWD :: usize where "AT_FDCWD = - 100"

definition deal_with_path ::
  "('f \<Rightarrow> string) \<Rightarrow> ('f \<Rightarrow> bool) \<Rightarrow> 'f option list \<Rightarrow> usize \<Rightarrow> UserPath \<Rightarrow> bool \<Rightarrow> 'r LinkFs \<Rightarrow> (string option, AxError) result" where
  "deal_with_path get_path is_dir_desc table dir_fd path_addr force_dir L =
     (case path_addr of NullPtr \<Rightarrow> Ok None | BadPtr \<Rightarrow> Ok None | _ \<Rightarrow>
      let path = (case path_addr of UserStr s \<Rightarrow> s | _ \<Rightarrow> []);
          at_fd = (if length table \<le> unat dir_fd then None else table ! unat dir_fd);
          cwd32 = ((ucast dir_fd :: u32) = ucast AT_FDCWD);
          resolved = (if path = [] then (if dir_fd = AT_FDCWD \<and> cwd32 then Some ''.'' else map_option get_path at_fd)
                      else if \<not> starts_slash path \<and> dir_fd \<noteq> AT_FDCWD \<and> \<not> cwd32
                      then (case at_fd of None \<Rightarrow> None | Some d \<Rightarrow> if \<not> is_dir_desc d then None else Some (get_path d @ path))
                      else Some path)
      in case resolved of None \<Rightarrow> Ok None
       | Some path \<Rightarrow>
           let path = (if force_dir \<and> \<not> ends_slash path then path @ ''/'' else path);
               path = (if path \<noteq> [] \<and> last path = CHR ''.'' then path @ ''/'' else path)
           in (case FilePath_new path L of Ok p \<Rightarrow> Ok (Some p) | Err _ \<Rightarrow> Ok None | Panic \<Rightarrow> Panic | Diverge \<Rightarrow> Diverge))"

subsection \<open>Link counts are exact\<close>

definition links_to :: "'r LinkFs \<Rightarrow> string \<Rightarrow> string set" where
  "links_to L d = {s. map_of (link_path_map L) s = Some d}"

definition links_ok :: "'r LinkFs \<Rightarrow> bool" where
  "links_ok L \<longleftrightarrow> bt_ok (link_path_map L) \<and> bt_ok (link_count_map L) \<and> (\<forall>d. count_of d L = card (links_to L d)) \<and>
     (\<forall>d. links_to L d \<noteq> {} \<longrightarrow> map_of (link_count_map L) d \<noteq> None)"

lemma finite_links_to [simp]: "finite (links_to L d)"
  by (rule finite_subset [OF _ finite_dom_map_of [of "link_path_map L"]]) (auto simp: links_to_def)

lemma links_to_simps [simp]: "links_to (L\<lparr>lk_fs := S\<rparr>) = links_to L" "links_to (L\<lparr>link_count_map := c\<rparr>) = links_to L"
    "count_of d (L\<lparr>lk_fs := S\<rparr>) = count_of d L" "count_of d (L\<lparr>link_path_map := m\<rparr>) = count_of d L"
  by (auto simp: links_to_def count_of_def)

lemma links_ok_fs [simp]: "links_ok (L\<lparr>lk_fs := S\<rparr>) \<longleftrightarrow> links_ok L"
  by (simp add: links_ok_def)

lemma links_to_remove: "bt_ok (link_path_map L) \<Longrightarrow> links_to (L\<lparr>link_path_map := bt_remove s (link_path_map L)\<rparr>) d = links_to L d - {s}"
  by (auto simp: links_to_def map_of_bt_remove)

lemma links_to_insert: "bt_ok (link_path_map L) \<Longrightarrow> map_of (link_path_map L) s = None \<Longrightarrow>
    links_to (L\<lparr>link_path_map := bt_insert s d (link_path_map L)\<rparr>) d' = (if d' = d then insert s (links_to L d) else links_to L d')"
  by (auto simp: links_to_def map_of_bt_insert)

lemma count_of_insert: "bt_ok (link_count_map L) \<Longrightarrow> count_of d' (L\<lparr>link_count_map := bt_insert d n (link_count_map L)\<rparr>) = (if d' = d then n else count_of d' L)"
  by (simp add: count_of_def map_of_bt_insert)

lemma insert_link_ok:
  assumes ok: "links_ok L" and new: "map_of (link_path_map L) s = None"
  shows "links_ok (snd (insert_link s d L))"
proof -
  have s: "s \<notin> links_to L d'" for d' using new by (simp add: links_to_def)
  then show ?thesis using ok new
    by (auto simp: links_ok_def insert_link_def links_to_insert count_of_insert [of "L\<lparr>link_path_map := _\<rparr>", simplified] bt_insert_ok map_of_bt_insert)
qed

lemma remove_link_run:
  assumes ok: "links_ok L" and s: "map_of (link_path_map L) s = Some d"
  shows "\<exists>L1. links_ok L1 \<and> lk_fs L1 = lk_fs L \<and> map_of (link_path_map L1) s = None \<and>
    (if links_to L d = {s} then snd (remove_link s L) = L1\<lparr>lk_fs := snd (remove_file None d (lk_fs L))\<rparr> \<and>
        (fst (remove_link s L) = Panic \<longleftrightarrow> fst (remove_file None d (lk_fs L)) = Panic)
     else remove_link s L = (Ok (Some d), L1))"
proof -
  let ?L1 = "L\<lparr>link_path_map := bt_remove s (link_path_map L), link_count_map := bt_insert d (card (links_to L d) - 1) (link_count_map L)\<rparr>"
  have sd: "s \<in> links_to L d" and so: "d' \<noteq> d \<Longrightarrow> s \<notin> links_to L d'" for d' using s by (auto simp: links_to_def)
  have c: "count_of d L = card (links_to L d)" "0 < card (links_to L d)"
    using ok sd by (auto simp: links_ok_def card_gt_0_iff)
  have "links_ok ?L1"
    using ok sd so
    by (auto simp: links_ok_def links_to_remove count_of_insert [of "L\<lparr>link_path_map := _\<rparr>", simplified] bt_remove_ok bt_insert_ok map_of_bt_insert)
  moreover have "map_of (bt_remove s (link_path_map L)) s = None" using ok by (simp add: links_ok_def map_of_bt_remove)
  moreover have "if links_to L d = {s} then snd (remove_link s L) = ?L1\<lparr>lk_fs := snd (remove_file None d (lk_fs L))\<rparr> \<and>
      (fst (remove_link s L) = Panic \<longleftrightarrow> fst (remove_file None d (lk_fs L)) = Panic)
    else remove_link s L = (Ok (Some d), ?L1)"
  proof (cases "card (links_to L d) = 1")
    case True
    then obtain x where "links_to L d = {x}" by (rule card_1_singletonE)
    then have l: "links_to L d = {s}" using sd by simp
    obtain r S where f: "remove_file None d (lk_fs L) = (r, S)" by (cases "remove_file None d (lk_fs L)")
    have "count_of d L = 1" using c(1) True by simp
    then have "remove_link s L = (case r of Panic \<Rightarrow> Panic | Diverge \<Rightarrow> Diverge | _ \<Rightarrow> Ok (Some d), ?L1\<lparr>lk_fs := S\<rparr>)"
      unfolding remove_link_def Let_def s option.case using f True by (cases r) simp_all
    then show ?thesis unfolding f if_P [OF l] by (cases r) simp_all
  next
    case False
    then have "links_to L d \<noteq> {s}" by (metis card_1_singleton_iff One_nat_def)
    moreover have "card (links_to L d) - 1 \<noteq> 0" using False c(2) by simp
    moreover have "links_to L d \<noteq> {}" using sd by blast
    ultimately show ?thesis using s c by (simp add: remove_link_def Let_def)
  qed
  ultimately show ?thesis by (intro exI [of _ ?L1]) simp
qed

lemma remove_linkE:
  assumes "links_ok L" and "map_of (link_path_map L) s = Some d"
  obtains (last_link) L1 where "links_ok L1" "map_of (link_path_map L1) s = None" "links_to L d = {s}"
      "snd (remove_link s L) = L1\<lparr>lk_fs := snd (remove_file None d (lk_fs L))\<rparr>"
      "fst (remove_link s L) = Panic \<longleftrightarrow> fst (remove_file None d (lk_fs L)) = Panic"
    | (shared) L1 where "links_ok L1" "map_of (link_path_map L1) s = None" "links_to L d \<noteq> {s}" "lk_fs L1 = lk_fs L"
      "remove_link s L = (Ok (Some d), L1)"
proof -
  obtain L1 where L1: "links_ok L1" "map_of (link_path_map L1) s = None" "lk_fs L1 = lk_fs L"
      "if links_to L d = {s} then snd (remove_link s L) = L1\<lparr>lk_fs := snd (remove_file None d (lk_fs L))\<rparr> \<and>
        (fst (remove_link s L) = Panic \<longleftrightarrow> fst (remove_file None d (lk_fs L)) = Panic)
       else remove_link s L = (Ok (Some d), L1)"
    using remove_link_run [OF assms] by blast
  show thesis
  proof (cases "links_to L d = {s}")
    case True
    then show thesis using L1(4) last_link [OF L1(1,2)] by presburger
  next
    case False
    then show thesis using L1(4) shared [OF L1(1,2) False L1(3)] by presburger
  qed
qed

lemma remove_link_ok: "links_ok L \<Longrightarrow> links_ok (snd (remove_link s L)) \<and> map_of (link_path_map (snd (remove_link s L))) s = None"
proof (cases "map_of (link_path_map L) s")
  case (Some d)
  assume "links_ok L"
  from this Some show ?thesis by (cases rule: remove_linkE) simp_all
qed (simp add: remove_link_def)

lemma create_link_ok: "links_ok L \<Longrightarrow> links_ok (snd (create_link s d L))"
proof -
  assume ok: "links_ok L"
  have "links_ok (snd (and_then (remove_link s) (\<lambda>_. insert_link s d) L))"
    using remove_link_ok [OF ok, of s] insert_link_ok [of "snd (remove_link s L)" s d]
    by (auto simp: and_then_def split: prod.splits result.splits)
  then show ?thesis using ok insert_link_ok [OF ok, of s d] by (auto simp: create_link_def split: option.splits result.splits bool.splits)
qed

text \<open>The kernel creates and removes links, and changes the file system in between.\<close>

inductive link_step :: "'r LinkFs \<Rightarrow> 'r LinkFs \<Rightarrow> bool" where
  create: "create_link s d L = (r, L') \<Longrightarrow> link_step L L'"
| remove: "remove_link s L = (r, L') \<Longrightarrow> link_step L L'"
| other: "link_step L (L\<lparr>lk_fs := S\<rparr>)"

lemma link_step_ok: "link_step L L' \<Longrightarrow> links_ok L \<Longrightarrow> links_ok L'"
  by (induction rule: link_step.induct) (metis create_link_ok snd_conv, metis remove_link_ok snd_conv, simp)

definition no_links :: "'r Fs \<Rightarrow> 'r LinkFs" where
  "no_links S = \<lparr>lk_fs = S, link_path_map = [], link_count_map = []\<rparr>"

lemma no_links_ok: "links_ok (no_links S)"
  by (simp add: links_ok_def no_links_def links_to_def count_of_def bt_ok_def)


definition demo_links :: "unit LinkFs" where
  "demo_links = \<lparr>lk_fs = demo_files, link_path_map = [(''/g'', ''/f''), (''/h'', ''/f'')], link_count_map = [(''/f'', 2)]\<rparr>"

lemma demo_links_reached: "link_step\<^sup>*\<^sup>* (no_links demo_files) demo_links"
proof -
  let ?L1 = "\<lparr>lk_fs = demo_files, link_path_map = [(''/g'', ''/f'')], link_count_map = [(''/f'', 1)]\<rparr>"
  have e: "path_exists ''/f'' demo_files = Ok True" by code_simp
  have c: "create_link ''/g'' ''/f'' (no_links demo_files) = (Ok True, ?L1)" "create_link ''/h'' ''/f'' ?L1 = (Ok True, demo_links)"
    by (simp_all add: create_link_def e fp_is_file_def ends_slash_def no_links_def insert_link_def count_of_def demo_links_def)
  show ?thesis using link_step.create [OF c(1)] link_step.create [OF c(2)]
    by (meson converse_rtranclp_into_rtranclp rtranclp.rtrancl_refl)
qed


text \<open>
  A \<open>FilePath\<close> is resolved when it is made, so a path that is a link stands for the file behind it: removing it
  removes the entry of that file and leaves the link.
\<close>

lemma unlink_keeps_link:
  assumes "links_ok L" and "absolute_path u (lk_fs L) = Ok p" "str_trim p = p" "\<not> ends_slash u"
    and "map_of (link_path_map L) p = Some d" "d \<noteq> p"
  shows "FilePath_new u L = Ok d \<and> map_of (link_path_map (snd (remove_link d L))) p = Some d"
proof -
  have f: "FilePath_new u L = Ok d" using assms by (simp add: FilePath_new_def real_path_def)
  have "bt_ok (link_path_map L)" using assms(1) unfolding links_ok_def by blast
  then have "map_of (bt_remove d (link_path_map L)) p = Some d" using assms(5,6) by (simp add: map_of_bt_remove)
  then show ?thesis using f assms(5)
    by (cases "fst (remove_file None d (lk_fs L))"; cases "map_of (link_path_map L) d")
      (auto simp: remove_link_def Let_def split: prod.splits result.splits)
qed

text \<open>A name that ends with a dot is taken for a directory.\<close>

lemma trailing_dot_is_directory:
  assumes "deal_with_path get_path is_dir_desc table AT_FDCWD (UserStr (s @ ''.'')) False L = Ok (Some p)"
    and "link_path_map L = []" and "\<not> starts_with p GCC_DIR_DST"
  shows "ends_slash p"
  using assms
  by (auto simp: deal_with_path_def Let_def FilePath_new_def real_path_def ends_slash_def GCC_DIR_DST_def MUSL_DIR_DST_def starts_with_def
      split: result.splits if_splits)

end
