(* ===== verification/FdTable.thy ===== *)
theory FdTable
  imports AxErrno
begin

text \<open>
  The file descriptors of the POSIX layer: the container \<open>FlattenObjects\<close> (\<open>crates/flatten_objects/src/lib.rs\<close>)
  and the descriptor table over it (\<open>api/arceos_posix_api/src/imp/fd_ops.rs\<close>). The bitmap of the identifiers
  in use is the crate \<open>bitmaps\<close>, which is not part of the repository: its operations are the fields of
  \<open>Bitmap\<close>, with the documented behaviour in the locale \<open>id_bitmap\<close>. Objects are values of any type \<open>'f\<close>;
  an \<open>Arc\<close> that is cloned is the same value again.
\<close>

text \<open>\<open>LinuxError\<close> is generated from \<open>errno.h\<close>: the variants that the code below uses, with their numbers.\<close>

datatype LinuxError = EPERM | ENOENT | EBADF | EAGAIN | EFAULT | EEXIST | EISDIR | EINVAL | EMFILE | EPIPE | ENOSYS

fun LinuxError_code :: "LinuxError \<Rightarrow> int" where
  "LinuxError_code EPERM = 1"
| "LinuxError_code ENOENT = 2"
| "LinuxError_code EBADF = 9"
| "LinuxError_code EAGAIN = 11"
| "LinuxError_code EFAULT = 14"
| "LinuxError_code EEXIST = 17"
| "LinuxError_code EISDIR = 21"
| "LinuxError_code EINVAL = 22"
| "LinuxError_code EMFILE = 24"
| "LinuxError_code EPIPE = 32"
| "LinuxError_code ENOSYS = 38"

text \<open>The macro \<open>syscall_body!\<close>: the value of the body or the negated error number.\<close>

definition syscall_body :: "(int, LinuxError) result \<times> 's \<Rightarrow> (int, LinuxError) result \<times> 's" where
  "syscall_body rs = (case rs of (Err e, s) \<Rightarrow> (Ok (- LinuxError_code e), s) | (r, s) \<Rightarrow> (r, s))"

subsection \<open>\<open>FlattenObjects\<close>\<close>

record 'b Bitmap =
  bm_zero :: 'b
  bm_get :: "nat \<Rightarrow> 'b \<Rightarrow> bool"
  bm_set :: "nat \<Rightarrow> bool \<Rightarrow> 'b \<Rightarrow> 'b"
  bm_first_false :: "'b \<Rightarrow> nat option"

text \<open>An element of \<open>objects\<close> is \<open>None\<close> while it is not initialised.\<close>

record ('b, 'f) FlattenObjects =
  fo_objects :: "'f option list"
  fo_id_bitmap :: 'b
  fo_count :: nat

definition flatten_new :: "'b Bitmap \<Rightarrow> nat \<Rightarrow> (('b, 'f) FlattenObjects, unit) result" where
  "flatten_new B CAP = (if CAP \<le> 1024
     then Ok \<lparr>fo_objects = replicate CAP None, fo_id_bitmap = bm_zero B, fo_count = 0\<rparr> else Panic)"

definition is_assigned :: "'b Bitmap \<Rightarrow> nat \<Rightarrow> ('b, 'f) FlattenObjects \<Rightarrow> bool" where
  "is_assigned B i t \<longleftrightarrow> i < length (fo_objects t) \<and> bm_get B i (fo_id_bitmap t)"

text \<open>Reading an element that is not initialised is undefined behaviour, the outcome \<open>Panic\<close> here.\<close>

definition flatten_get :: "'b Bitmap \<Rightarrow> nat \<Rightarrow> ('b, 'f) FlattenObjects \<Rightarrow> ('f option, 'e) result" where
  "flatten_get B i t = (if is_assigned B i t
     then (case fo_objects t ! i of Some v \<Rightarrow> Ok (Some v) | None \<Rightarrow> Panic) else Ok None)"

definition flatten_add :: "'b Bitmap \<Rightarrow> 'f \<Rightarrow> ('b, 'f) FlattenObjects \<Rightarrow> nat option \<times> ('b, 'f) FlattenObjects" where
  "flatten_add B value t = (case bm_first_false B (fo_id_bitmap t) of
       None \<Rightarrow> (None, t)
     | Some i \<Rightarrow> if i < length (fo_objects t)
         then (Some i, t\<lparr>fo_count := fo_count t + 1, fo_id_bitmap := bm_set B i True (fo_id_bitmap t),
                         fo_objects := (fo_objects t)[i := Some value]\<rparr>)
         else (None, t))"

definition flatten_add_at :: "'b Bitmap \<Rightarrow> nat \<Rightarrow> 'f \<Rightarrow> (('b, 'f) FlattenObjects, nat option, 'e) action" where
  "flatten_add_at B i value t =
     (if is_assigned B i t then (Ok None, t)
      else let t = t\<lparr>fo_count := fo_count t + 1, fo_id_bitmap := bm_set B i True (fo_id_bitmap t)\<rparr> in
        if i < length (fo_objects t) then (Ok (Some i), t\<lparr>fo_objects := (fo_objects t)[i := Some value]\<rparr>)
        else (Panic, t))"

definition flatten_remove :: "'b Bitmap \<Rightarrow> nat \<Rightarrow> (('b, 'f) FlattenObjects, 'f option, 'e) action" where
  "flatten_remove B i t =
     (if is_assigned B i t
      then let t = t\<lparr>fo_id_bitmap := bm_set B i False (fo_id_bitmap t), fo_count := fo_count t - 1\<rparr> in
        (case fo_objects t ! i of Some v \<Rightarrow> (Ok (Some v), t) | None \<Rightarrow> (Panic, t))
      else (Ok None, t))"

subsection \<open>The descriptor table\<close>

text \<open>\<open>fd as usize\<close> of a \<open>c_int\<close> extends the sign, so a negative descriptor is far out of range.\<close>

definition as_usize :: "int \<Rightarrow> nat" where "as_usize fd = nat (fd mod 2 ^ 64)"

definition AX_FILE_LIMIT :: nat where "AX_FILE_LIMIT = 1024"

type_synonym ('b, 'f) FdTable = "('b, 'f) FlattenObjects"

definition fd_table_init :: "'b Bitmap \<Rightarrow> 'f \<Rightarrow> 'f \<Rightarrow> 'f \<Rightarrow> (('b, 'f) FdTable, unit) result" where
  "fd_table_init B stdin stdout stderr =
     res_bind (flatten_new B AX_FILE_LIMIT) (\<lambda>t.
       case and_then (flatten_add_at B 0 stdin) (\<lambda>r. assert_then (r \<noteq> None)
             (and_then (flatten_add_at B 1 stdout) (\<lambda>r. assert_then (r \<noteq> None)
               (and_then (flatten_add_at B 2 stderr) (\<lambda>r. assert_then (r \<noteq> None) (\<lambda>t. (Ok (), t))))))) t of
         (r, t) \<Rightarrow> res_bind r (\<lambda>_. Ok t))"

definition get_file_like :: "'b Bitmap \<Rightarrow> int \<Rightarrow> ('b, 'f) FdTable \<Rightarrow> ('f, LinuxError) result" where
  "get_file_like B fd t = res_bind (flatten_get B (as_usize fd) t)
     (\<lambda>r. case r of Some f \<Rightarrow> Ok f | None \<Rightarrow> Err EBADF)"

definition add_file_like :: "'b Bitmap \<Rightarrow> 'f \<Rightarrow> (('b, 'f) FdTable, int, LinuxError) action" where
  "add_file_like B f t = (case flatten_add B f t of
       (Some i, t) \<Rightarrow> (Ok (int i), t) | (None, t) \<Rightarrow> (Err EMFILE, t))"

definition close_file_like :: "'b Bitmap \<Rightarrow> int \<Rightarrow> (('b, 'f) FdTable, unit, LinuxError) action" where
  "close_file_like B fd = and_then (flatten_remove B (as_usize fd))
     (\<lambda>r t. case r of Some f \<Rightarrow> (Ok (), t) | None \<Rightarrow> (Err EBADF, t))"

definition sys_close :: "'b Bitmap \<Rightarrow> int \<Rightarrow> (('b, 'f) FdTable, int, LinuxError) action" where
  "sys_close B fd t = (if 0 \<le> fd \<and> fd \<le> 2 then (Ok 0, t)
     else syscall_body (and_then (close_file_like B fd) (\<lambda>_ t. (Ok 0, t)) t))"

definition dup_fd :: "'b Bitmap \<Rightarrow> int \<Rightarrow> (('b, 'f) FdTable, int, LinuxError) action" where
  "dup_fd B old_fd = and_then (\<lambda>t. (get_file_like B old_fd t, t)) (add_file_like B)"

definition sys_dup :: "'b Bitmap \<Rightarrow> int \<Rightarrow> (('b, 'f) FdTable, int, LinuxError) action" where
  "sys_dup B old_fd t = syscall_body (dup_fd B old_fd t)"

definition F_DUPFD :: u32 where "F_DUPFD = 0"
definition F_GETFD :: u32 where "F_GETFD = 1"
definition F_SETFL :: u32 where "F_SETFL = 4"
definition O_NONBLOCK :: usize where "O_NONBLOCK = 0x800"
definition F_DUPFD_CLOEXEC :: u32 where "F_DUPFD_CLOEXEC = 1030"

text \<open>\<open>set_nonblocking\<close> is the operation of the object, chosen by its type.\<close>

definition sys_fcntl ::
  "'b Bitmap \<Rightarrow> ('f \<Rightarrow> bool \<Rightarrow> (unit, LinuxError) result) \<Rightarrow> int \<Rightarrow> int \<Rightarrow> usize \<Rightarrow> (('b, 'f) FdTable, int, LinuxError) action" where
  "sys_fcntl B set_nonblocking fd cmd arg t = syscall_body
     (let c = word_of_int cmd :: u32 in
      if c = F_DUPFD then dup_fd B fd t
      else if c = F_DUPFD_CLOEXEC then dup_fd B fd t
      else if c = F_SETFL then
        (if fd = 0 \<or> fd = 1 \<or> fd = 2 then (Ok 0, t)
         else (res_bind (get_file_like B fd t) (\<lambda>f. res_bind (set_nonblocking f (arg AND O_NONBLOCK > 0)) (\<lambda>_. Ok 0)), t))
      else (Ok 0, t))"

definition sys_dup2 ::
  "'b Bitmap \<Rightarrow> ('f \<Rightarrow> bool \<Rightarrow> (unit, LinuxError) result) \<Rightarrow> int \<Rightarrow> int \<Rightarrow> (('b, 'f) FdTable, int, LinuxError) action" where
  "sys_dup2 B set_nonblocking old_fd new_fd t = syscall_body
     (if old_fd = new_fd then
        and_then (sys_fcntl B set_nonblocking old_fd (uint F_GETFD) 0) (\<lambda>r t. if 0 \<le> r then (Ok old_fd, t) else (Ok r, t)) t
      else if AX_FILE_LIMIT \<le> as_usize new_fd then (Err EBADF, t)
      else and_then (\<lambda>t. (get_file_like B old_fd t, t)) (\<lambda>f.
             and_then (flatten_add_at B (as_usize new_fd) f) (\<lambda>r t. case r of
               Some _ \<Rightarrow> (Ok new_fd, t) | None \<Rightarrow> (Err EMFILE, t))) t)"

subsection \<open>The table is a partial map\<close>

text \<open>The documented behaviour of \<open>bitmaps::Bitmap<1024>\<close>; \<open>bits b\<close> are the positions that are set.\<close>

locale id_bitmap =
  fixes B :: "'b Bitmap" and bits :: "'b \<Rightarrow> nat set"
  assumes zero: "bits (bm_zero B) = {}"
    and get: "i < 1024 \<Longrightarrow> bm_get B i b \<longleftrightarrow> i \<in> bits b"
    and set: "i < 1024 \<Longrightarrow> bits (bm_set B i v b) = (if v then insert i (bits b) else bits b - {i})"
    and first_false: "bm_first_false B b = Some i \<Longrightarrow> i < 1024 \<and> i \<notin> bits b \<and> {..<i} \<subseteq> bits b"
    and none_false: "bm_first_false B b = None \<Longrightarrow> {..<1024} \<subseteq> bits b"

abbreviation capacity :: "('b, 'f) FlattenObjects \<Rightarrow> nat" where "capacity t \<equiv> length (fo_objects t)"

definition objects_of :: "('b \<Rightarrow> nat set) \<Rightarrow> ('b, 'f) FlattenObjects \<Rightarrow> nat \<rightharpoonup> 'f" where
  "objects_of bits t i = (if i \<in> bits (fo_id_bitmap t) then fo_objects t ! i else None)"

definition flatten_ok :: "('b \<Rightarrow> nat set) \<Rightarrow> ('b, 'f) FlattenObjects \<Rightarrow> bool" where
  "flatten_ok bits t \<longleftrightarrow> capacity t \<le> 1024 \<and> bits (fo_id_bitmap t) \<subseteq> {..<capacity t} \<and>
     (\<forall>i \<in> bits (fo_id_bitmap t). fo_objects t ! i \<noteq> None) \<and> fo_count t = card (bits (fo_id_bitmap t))"

lemma flatten_okD:
  assumes "flatten_ok bits t"
  shows "capacity t \<le> 1024" "i \<in> bits (fo_id_bitmap t) \<Longrightarrow> i < capacity t" "i \<in> bits (fo_id_bitmap t) \<Longrightarrow> \<exists>v. fo_objects t ! i = Some v"
    "finite (bits (fo_id_bitmap t))" "fo_count t = card (bits (fo_id_bitmap t))" "dom (objects_of bits t) = bits (fo_id_bitmap t)"
  using assms finite_subset [of "bits (fo_id_bitmap t)" "{..<capacity t}"]
  by (auto simp: flatten_ok_def objects_of_def dom_def split: if_splits)

text \<open>Putting an object at a free identifier.\<close>

definition stored :: "'b Bitmap \<Rightarrow> nat \<Rightarrow> 'f \<Rightarrow> ('b, 'f) FlattenObjects \<Rightarrow> ('b, 'f) FlattenObjects" where
  "stored B i v t = t\<lparr>fo_count := fo_count t + 1, fo_id_bitmap := bm_set B i True (fo_id_bitmap t), fo_objects := (fo_objects t)[i := Some v]\<rparr>"

context id_bitmap
begin

lemma new_ok: "CAP \<le> 1024 \<Longrightarrow> \<exists>t. flatten_new B CAP = Ok t \<and> flatten_ok bits t \<and> capacity t = CAP \<and> objects_of bits t = Map.empty"
  by (auto simp: flatten_new_def flatten_ok_def zero objects_of_def)

lemma assigned_iff: "flatten_ok bits t \<Longrightarrow> is_assigned B i t \<longleftrightarrow> i \<in> bits (fo_id_bitmap t)"
  using flatten_okD(1) [of bits t] flatten_okD(2) [of bits t i] get [of i "fo_id_bitmap t"] by (auto simp: is_assigned_def)

lemma get_map: "flatten_ok bits t \<Longrightarrow> flatten_get B i t = Ok (objects_of bits t i)"
  using flatten_okD(3) [of bits t i] by (auto simp: flatten_get_def assigned_iff objects_of_def)

lemma stored_map:
  assumes ok: "flatten_ok bits t" and "i < capacity t" "i \<notin> bits (fo_id_bitmap t)"
  shows "flatten_ok bits (stored B i v t) \<and> objects_of bits (stored B i v t) = (objects_of bits t)(i \<mapsto> v) \<and> capacity (stored B i v t) = capacity t"
proof -
  have i: "i < 1024" using assms(2) flatten_okD(1) [OF ok] by simp
  show ?thesis using assms flatten_okD [OF ok] set [OF i, of True "fo_id_bitmap t"]
    by (auto simp: stored_def flatten_ok_def objects_of_def nth_list_update fun_eq_iff)
qed

lemma add_map:
  assumes ok: "flatten_ok bits t"
  shows "case find (\<lambda>i. objects_of bits t i = None) [0..<capacity t] of
      None \<Rightarrow> flatten_add B v t = (None, t)
    | Some i \<Rightarrow> \<exists>t'. flatten_add B v t = (Some i, t') \<and> flatten_ok bits t' \<and> capacity t' = capacity t \<and>
        objects_of bits t' = (objects_of bits t)(i \<mapsto> v)"
proof -
  note d = flatten_okD [OF ok]
  have n: "objects_of bits t j = None \<longleftrightarrow> j \<notin> bits (fo_id_bitmap t)" for j using d(6) by auto
  show ?thesis
  proof (cases "bm_first_false B (fo_id_bitmap t)")
    case None
    then have "find (\<lambda>i. objects_of bits t i = None) [0..<capacity t] = None"
      using none_false [OF None] d(1) n by (force simp: find_None_iff)
    then show ?thesis using None by (simp add: flatten_add_def)
  next
    case (Some i)
    have i: "i \<notin> bits (fo_id_bitmap t)" "\<And>j. j < i \<Longrightarrow> j \<in> bits (fo_id_bitmap t)" using first_false [OF Some] by auto
    show ?thesis
    proof (cases "i < capacity t")
      case True
      then have "flatten_add B v t = (Some i, stored B i v t)" by (simp add: flatten_add_def Some stored_def)
      moreover have "find (\<lambda>i. objects_of bits t i = None) [0..<capacity t] = Some i"
        using True i n by (auto simp: find_Some_iff intro!: exI [of _ i])
      ultimately show ?thesis using stored_map [OF ok True i(1)] by simp
    next
      case False
      then have "find (\<lambda>i. objects_of bits t i = None) [0..<capacity t] = None" using i n by (auto simp: find_None_iff)
      then show ?thesis using False by (simp add: flatten_add_def Some)
    qed
  qed
qed

lemma add_at_map:
  assumes ok: "flatten_ok bits t" and "i < capacity t"
  shows "\<exists>t'. flatten_add_at B i v t = (Ok (if objects_of bits t i = None then Some i else None), t') \<and> flatten_ok bits t' \<and>
    capacity t' = capacity t \<and> objects_of bits t' = (if objects_of bits t i = None then (objects_of bits t)(i \<mapsto> v) else objects_of bits t)"
proof -
  have n: "objects_of bits t i = None \<longleftrightarrow> i \<notin> bits (fo_id_bitmap t)" using flatten_okD(6) [OF ok] by auto
  show ?thesis using stored_map [OF ok assms(2)] assms
    by (auto simp: flatten_add_at_def assigned_iff [OF ok] n stored_def Let_def)
qed

lemma remove_map:
  assumes ok: "flatten_ok bits t"
  shows "\<exists>t'. flatten_remove B i t = (Ok (objects_of bits t i), t') \<and> flatten_ok bits t' \<and> capacity t' = capacity t \<and>
    objects_of bits t' = (objects_of bits t)(i := None)"
proof (cases "i \<in> bits (fo_id_bitmap t)")
  case True
  note d = flatten_okD [OF ok]
  obtain v where v: "fo_objects t ! i = Some v" using d(3) [OF True] by blast
  have i: "i < 1024" using d(1) d(2) [OF True] by simp
  have "card (bits (fo_id_bitmap t) - {i}) = card (bits (fo_id_bitmap t)) - 1" using d(4) True by simp
  then show ?thesis using True v d(1,2,3,5) set [OF i, of False "fo_id_bitmap t"] ok
    by (auto simp: flatten_remove_def assigned_iff [OF ok] Let_def flatten_ok_def objects_of_def fun_eq_iff)
next
  case False
  then show ?thesis using ok by (auto simp: flatten_remove_def assigned_iff objects_of_def fun_eq_iff)
qed

end

text \<open>The interpretation: a word of 1024 bits.\<close>

definition word_bitmap :: "1024 word Bitmap" where
  "word_bitmap = \<lparr>bm_zero = 0, bm_get = (\<lambda>i b. bit b i), bm_set = (\<lambda>i v b. if v then set_bit i b else unset_bit i b),
     bm_first_false = (\<lambda>b. find (\<lambda>i. \<not> bit b i) [0..<1024])\<rparr>"

interpretation word_bitmap: id_bitmap word_bitmap "\<lambda>b. {i. bit b i}"
proof
  show "bm_first_false word_bitmap b = Some i \<Longrightarrow> i < 1024 \<and> i \<notin> {i. bit b i} \<and> {..<i} \<subseteq> {i. bit b i}" for b i
    by (auto simp: word_bitmap_def find_Some_iff)
  show "bm_first_false word_bitmap b = None \<Longrightarrow> {..<1024} \<subseteq> {i. bit b i}" for b
    by (auto simp: word_bitmap_def find_None_iff)
  show "i < 1024 \<Longrightarrow> {j. bit (bm_set word_bitmap i v b) j} = (if v then insert i {i. bit b i} else {i. bit b i} - {i})" for i v b
    by (auto simp: word_bitmap_def bit_set_bit_iff bit_unset_bit_iff)
qed (auto simp: word_bitmap_def)

subsection \<open>System calls on the table refine calls on a map\<close>

text \<open>The specification: descriptors are a partial map from \<open>c_int\<close>, and a new one is the least that is free.\<close>

type_synonym 'f fd_map = "int \<rightharpoonup> 'f"

datatype fd_call = CallClose int | CallDup int | CallDup2 int int | CallFcntl int int usize

fun call_fds :: "fd_call \<Rightarrow> int list" where
  "call_fds (CallClose fd) = [fd]"
| "call_fds (CallDup fd) = [fd]"
| "call_fds (CallDup2 old_fd new_fd) = [old_fd, new_fd]"
| "call_fds (CallFcntl fd cmd arg) = [fd]"

definition spec_dup :: "int \<Rightarrow> 'f fd_map \<Rightarrow> int \<times> 'f fd_map" where
  "spec_dup fd m = (case m fd of None \<Rightarrow> (- LinuxError_code EBADF, m)
     | Some f \<Rightarrow> (case find (\<lambda>i. m (int i) = None) [0..<AX_FILE_LIMIT] of
         None \<Rightarrow> (- LinuxError_code EMFILE, m) | Some i \<Rightarrow> (int i, m(int i \<mapsto> f))))"

fun spec_call :: "fd_call \<Rightarrow> 'f fd_map \<Rightarrow> int \<times> 'f fd_map" where
  "spec_call (CallClose fd) m =
     (if fd \<in> {0, 1, 2} then (0, m) else if m fd = None then (- LinuxError_code EBADF, m) else (0, m(fd := None)))"
| "spec_call (CallDup fd) m = spec_dup fd m"
| "spec_call (CallDup2 old_fd new_fd) m =
     (if old_fd = new_fd then (old_fd, m)
      else if new_fd \<notin> {0..<int AX_FILE_LIMIT} then (- LinuxError_code EBADF, m)
      else case m old_fd of None \<Rightarrow> (- LinuxError_code EBADF, m)
        | Some f \<Rightarrow> if m new_fd = None then (new_fd, m(new_fd \<mapsto> f)) else (- LinuxError_code EMFILE, m))"
| "spec_call (CallFcntl fd cmd arg) m =
     (if (word_of_int cmd :: u32) \<in> {F_DUPFD, F_DUPFD_CLOEXEC} then spec_dup fd m
      else if (word_of_int cmd :: u32) = F_SETFL \<and> fd \<notin> {0, 1, 2} \<and> m fd = None then (- LinuxError_code EBADF, m)
      else (0, m))"

text \<open>The code; every \<open>set_nonblocking\<close> that the descriptors below can meet returns \<open>Ok\<close>.\<close>

definition exec_call :: "'b Bitmap \<Rightarrow> fd_call \<Rightarrow> (('b, 'f) FdTable, int, LinuxError) action" where
  "exec_call B c = (case c of CallClose fd \<Rightarrow> sys_close B fd | CallDup fd \<Rightarrow> sys_dup B fd
     | CallDup2 old_fd new_fd \<Rightarrow> sys_dup2 B (\<lambda>_ _. Ok ()) old_fd new_fd
     | CallFcntl fd cmd arg \<Rightarrow> sys_fcntl B (\<lambda>_ _. Ok ()) fd cmd arg)"

fun run_calls :: "('c \<Rightarrow> 's \<Rightarrow> 'a \<times> 's) \<Rightarrow> 'c list \<Rightarrow> 's \<Rightarrow> 'a list \<times> 's" where
  "run_calls step [] s = ([], s)"
| "run_calls step (c # cs) s = (case step c s of (r, s') \<Rightarrow> case run_calls step cs s' of (rs, s'') \<Rightarrow> (r # rs, s''))"

definition c_int :: "int \<Rightarrow> bool" where "c_int fd \<longleftrightarrow> - (2 ^ 31) \<le> fd \<and> fd < 2 ^ 31"

definition fds_of :: "('b \<Rightarrow> nat set) \<Rightarrow> ('b, 'f) FdTable \<Rightarrow> 'f fd_map" where
  "fds_of bits t fd = (if 0 \<le> fd then objects_of bits t (nat fd) else None)"

definition table_ok :: "('b \<Rightarrow> nat set) \<Rightarrow> ('b, 'f) FdTable \<Rightarrow> bool" where
  "table_ok bits t \<longleftrightarrow> flatten_ok bits t \<and> capacity t = AX_FILE_LIMIT"

lemma as_usize_nonneg: "c_int fd \<Longrightarrow> 0 \<le> fd \<Longrightarrow> as_usize fd = nat fd"
  by (simp add: as_usize_def c_int_def)

lemma as_usize_neg: "c_int fd \<Longrightarrow> fd < 0 \<Longrightarrow> 1024 \<le> as_usize fd"
proof -
  assume a: "c_int fd" "fd < 0"
  have "fd mod 2 ^ 64 = (fd + 2 ^ 64) mod 2 ^ 64" by simp
  also have "\<dots> = fd + 2 ^ 64" using a by (intro mod_pos_pos_trivial) (auto simp: c_int_def)
  finally show ?thesis using a by (simp add: as_usize_def c_int_def)
qed

context id_bitmap
begin

lemma objects_at: "table_ok bits t \<Longrightarrow> c_int fd \<Longrightarrow> objects_of bits t (as_usize fd) = fds_of bits t fd"
proof (cases "0 \<le> fd")
  case False
  assume a: "table_ok bits t" "c_int fd"
  then have "as_usize fd \<notin> bits (fo_id_bitmap t)"
    using flatten_okD(2) [of bits t "as_usize fd"] as_usize_neg [of fd] False by (auto simp: table_ok_def AX_FILE_LIMIT_def)
  then show ?thesis using False by (simp add: fds_of_def objects_of_def)
qed (simp add: fds_of_def as_usize_nonneg)

lemma get_file_like_fds:
  "table_ok bits t \<Longrightarrow> c_int fd \<Longrightarrow> get_file_like B fd t = (case fds_of bits t fd of None \<Rightarrow> Err EBADF | Some f \<Rightarrow> Ok f)"
  by (simp add: get_file_like_def get_map objects_at table_ok_def split: option.splits)

lemma fds_update: "table_ok bits t \<Longrightarrow> 0 \<le> fd \<Longrightarrow> objects_of bits t' = (objects_of bits t)(nat fd := x) \<Longrightarrow> fds_of bits t' = (fds_of bits t)(fd := x)"
  by (auto simp: fds_of_def fun_eq_iff nat_eq_iff)

lemma add_fds:
  assumes "table_ok bits t"
  shows "case find (\<lambda>i. fds_of bits t (int i) = None) [0..<AX_FILE_LIMIT] of
      None \<Rightarrow> add_file_like B f t = (Err EMFILE, t)
    | Some i \<Rightarrow> \<exists>t'. add_file_like B f t = (Ok (int i), t') \<and> table_ok bits t' \<and> fds_of bits t' = (fds_of bits t)(int i \<mapsto> f)"
  using add_map [of t f] fds_update [OF assms, where fd = "int _"] assms
  by (auto simp: table_ok_def add_file_like_def fds_of_def [of _ _ "int _"] split: option.splits)

lemma add_at_fds:
  assumes "table_ok bits t" "0 \<le> fd" "fd < 1024"
  shows "\<exists>t'. flatten_add_at B (nat fd) f t = (Ok (if fds_of bits t fd = None then Some (nat fd) else None) :: (_, 'e) result, t') \<and> table_ok bits t' \<and>
    fds_of bits t' = (if fds_of bits t fd = None then (fds_of bits t)(fd \<mapsto> f) else fds_of bits t)"
proof -
  have "nat fd < capacity t" "fds_of bits t fd = objects_of bits t (nat fd)"
    using assms by (auto simp: table_ok_def AX_FILE_LIMIT_def fds_of_def)
  then obtain t' where t': "flatten_add_at B (nat fd) f t = (Ok (if fds_of bits t fd = None then Some (nat fd) else None) :: (_, 'e) result, t')"
      "flatten_ok bits t'" "capacity t' = capacity t" "objects_of bits t' = (objects_of bits t)(nat fd := (if fds_of bits t fd = None then Some f else fds_of bits t fd))"
    using add_at_map [of t "nat fd" f] assms(1) by (fastforce simp: table_ok_def)
  then show ?thesis using fds_update [OF assms(1,2) t'(4)] assms by (auto simp: table_ok_def)
qed

lemma close_fds:
  assumes "table_ok bits t" "c_int fd"
  shows "\<exists>t'. close_file_like B fd t = (if fds_of bits t fd = None then Err EBADF else Ok (), t') \<and> table_ok bits t' \<and>
    fds_of bits t' = (fds_of bits t)(fd := None)"
proof -
  obtain t' where t': "flatten_remove B (as_usize fd) t = (Ok (fds_of bits t fd) :: (_, LinuxError) result, t')" "flatten_ok bits t'" "capacity t' = capacity t"
      "objects_of bits t' = (objects_of bits t)(as_usize fd := None)"
    using remove_map [of t "as_usize fd"] assms objects_at [OF assms] by (auto simp: table_ok_def)
  have "fds_of bits t' = (fds_of bits t)(fd := None)"
  proof (cases "0 \<le> fd")
    case True
    then show ?thesis using fds_update [OF assms(1) True] t'(4) as_usize_nonneg [OF assms(2) True] by simp
  next
    case False
    then have "objects_of bits t (as_usize fd) = None" using objects_at [OF assms] by (simp add: fds_of_def)
    then have "objects_of bits t' = objects_of bits t" using t'(4) by auto
    then show ?thesis using False by (auto simp: fds_of_def fun_eq_iff)
  qed
  then show ?thesis using t' assms by (auto simp: close_file_like_def and_then_def table_ok_def split: option.splits)
qed

lemma dup_fds:
  assumes "table_ok bits t" "c_int fd"
  shows "\<exists>t'. syscall_body (dup_fd B fd t) = (Ok (fst (spec_dup fd (fds_of bits t))), t') \<and> table_ok bits t' \<and>
    fds_of bits t' = snd (spec_dup fd (fds_of bits t))"
proof (cases "fds_of bits t fd")
  case None
  then show ?thesis using assms by (simp add: dup_fd_def and_then_def get_file_like_fds syscall_body_def spec_dup_def)
next
  case (Some f)
  then have "dup_fd B fd t = add_file_like B f t" using assms by (simp add: dup_fd_def and_then_def get_file_like_fds)
  then show ?thesis using add_fds [OF assms(1), of f] Some assms(1)
    by (auto simp: syscall_body_def spec_dup_def split: option.splits)
qed

lemma fcntl_fds:
  assumes "table_ok bits t" "c_int fd"
  shows "\<exists>t'. sys_fcntl B (\<lambda>_ _. Ok ()) fd cmd arg t = (Ok (fst (spec_call (CallFcntl fd cmd arg) (fds_of bits t))), t') \<and> table_ok bits t' \<and>
    fds_of bits t' = snd (spec_call (CallFcntl fd cmd arg) (fds_of bits t))"
proof (cases "(word_of_int cmd :: u32) \<in> {F_DUPFD, F_DUPFD_CLOEXEC}")
  case True
  then have "sys_fcntl B (\<lambda>_ _. Ok ()) fd cmd arg t = syscall_body (dup_fd B fd t)" by (auto simp: sys_fcntl_def Let_def)
  then show ?thesis using dup_fds [OF assms] True by simp
next
  case False
  then show ?thesis using assms
    by (auto simp: sys_fcntl_def Let_def syscall_body_def get_file_like_fds split: option.splits)
qed

lemma exec_call_fds:
  assumes ok: "table_ok bits t" and c: "\<forall>fd \<in> set (call_fds c). c_int fd"
  shows "\<exists>t'. exec_call B c t = (Ok (fst (spec_call c (fds_of bits t))), t') \<and> table_ok bits t' \<and>
    fds_of bits t' = snd (spec_call c (fds_of bits t))"
proof (cases c)
  case (CallClose fd)
  then show ?thesis using close_fds [OF ok, of fd] c ok
    by (cases "fds_of bits t fd") (auto simp: exec_call_def sys_close_def and_then_def syscall_body_def fun_upd_idem)
next
  case (CallDup fd)
  then show ?thesis using dup_fds [OF ok, of fd] c by (simp add: exec_call_def sys_dup_def)
next
  case (CallFcntl fd cmd arg)
  then show ?thesis using fcntl_fds [OF ok, of fd cmd arg] c by (simp add: exec_call_def)
next
  case (CallDup2 old_fd new_fd)
  have f: "sys_fcntl B (\<lambda>_ _. Ok ()) old_fd (uint F_GETFD) 0 t = (Ok 0, t)"
    by (simp add: sys_fcntl_def Let_def F_GETFD_def F_DUPFD_def F_DUPFD_CLOEXEC_def F_SETFL_def syscall_body_def)
  have r: "AX_FILE_LIMIT \<le> as_usize new_fd \<longleftrightarrow> new_fd \<notin> {0..<int AX_FILE_LIMIT}"
    using c as_usize_neg [of new_fd] as_usize_nonneg [of new_fd] by (cases "0 \<le> new_fd") (auto simp: CallDup2 AX_FILE_LIMIT_def)
  show ?thesis
  proof (cases "old_fd = new_fd \<or> new_fd \<notin> {0..<int AX_FILE_LIMIT} \<or> fds_of bits t old_fd = None")
    case True
    then show ?thesis using f r ok c
      by (auto simp: CallDup2 exec_call_def sys_dup2_def and_then_def syscall_body_def get_file_like_fds)
  next
    case False
    then obtain g where g: "fds_of bits t old_fd = Some g" by auto
    have n: "0 \<le> new_fd" "new_fd < 1024" using False by (auto simp: AX_FILE_LIMIT_def)
    show ?thesis using False r g c ok add_at_fds [where 'e = LinuxError, OF ok n, of g] as_usize_nonneg [of new_fd] n
      by (auto simp: CallDup2 exec_call_def sys_dup2_def and_then_def syscall_body_def get_file_like_fds)
  qed
qed

lemma run_calls_fds:
  "table_ok bits t \<Longrightarrow> \<forall>c \<in> set cs. \<forall>fd \<in> set (call_fds c). c_int fd \<Longrightarrow>
     \<exists>t'. run_calls (exec_call B) cs t = (map Ok (fst (run_calls spec_call cs (fds_of bits t))), t') \<and> table_ok bits t' \<and>
       fds_of bits t' = snd (run_calls spec_call cs (fds_of bits t))"
proof (induction cs arbitrary: t)
  case (Cons c cs)
  obtain t1 where t1: "exec_call B c t = (Ok (fst (spec_call c (fds_of bits t))), t1)" "table_ok bits t1"
      "fds_of bits t1 = snd (spec_call c (fds_of bits t))"
    using exec_call_fds [OF Cons.prems(1), of c] Cons.prems(2) by auto
  show ?case using Cons.IH [OF t1(2)] Cons.prems(2) t1 by (auto simp: case_prod_beta)
qed simp

lemma fd_table_init_ok:
  "\<exists>t. fd_table_init B f0 f1 f2 = Ok t \<and> table_ok bits t \<and> fds_of bits t = [0 \<mapsto> f0, 1 \<mapsto> f1, 2 \<mapsto> f2]"
proof -
  obtain t :: "('b, 'a) FdTable" where t: "flatten_new B AX_FILE_LIMIT = Ok t" "table_ok bits t" "objects_of bits t = Map.empty"
    using new_ok [of AX_FILE_LIMIT] by (auto simp: table_ok_def AX_FILE_LIMIT_def)
  then have e: "fds_of bits t = Map.empty" by (auto simp: fds_of_def)
  obtain t0 where 0: "flatten_add_at B 0 f0 t = (Ok (Some 0) :: (_, unit) result, t0)" "table_ok bits t0" "fds_of bits t0 = [0 \<mapsto> f0]"
    using add_at_fds [OF t(2), of 0 f0] by (auto simp: e)
  obtain t1 where 1: "flatten_add_at B 1 f1 t0 = (Ok (Some 1) :: (_, unit) result, t1)" "table_ok bits t1" "fds_of bits t1 = [0 \<mapsto> f0, 1 \<mapsto> f1]"
    using add_at_fds [OF 0(2), of 1 f1] by (auto simp: 0(3))
  obtain t2 where 2: "flatten_add_at B 2 f2 t1 = (Ok (Some 2) :: (_, unit) result, t2)" "table_ok bits t2" "fds_of bits t2 = [0 \<mapsto> f0, 1 \<mapsto> f1, 2 \<mapsto> f2]"
    using add_at_fds [OF 1(2), of 2 f2] by (auto simp: 1(3))
  show ?thesis using t 0 1 2 by (auto simp: fd_table_init_def and_then_def assert_then_def)
qed

end

text \<open>
  C28: Any sequence of \<open>close\<close>, \<open>dup\<close>, \<open>dup2\<close> and \<open>fcntl\<close> calls, with any descriptors, valid or not, negative
  or too large, never panics and never reads an uninitialised slot: each call returns what it returns on a
  partial map from descriptors to files, where a new descriptor is the least free one, and the table
  afterwards is that map.
\<close>

theorem fd_calls_refine_map:
  assumes "id_bitmap B bits" and "\<forall>c \<in> set cs. \<forall>fd \<in> set (call_fds c). c_int fd"
  shows "\<exists>t t'. fd_table_init B f0 f1 f2 = Ok t \<and>
    run_calls (exec_call B) cs t = (map Ok (fst (run_calls spec_call cs [0 \<mapsto> f0, 1 \<mapsto> f1, 2 \<mapsto> f2])), t') \<and>
    table_ok bits t' \<and> fds_of bits t' = snd (run_calls spec_call cs [0 \<mapsto> f0, 1 \<mapsto> f1, 2 \<mapsto> f2])"
proof -
  obtain t where t: "fd_table_init B f0 f1 f2 = Ok t" "table_ok bits t" "fds_of bits t = [0 \<mapsto> f0, 1 \<mapsto> f1, 2 \<mapsto> f2]"
    using id_bitmap.fd_table_init_ok [OF assms(1)] by metis
  then show ?thesis using id_bitmap.run_calls_fds [OF assms(1) t(2) assms(2)] by auto
qed

definition demo_calls :: "fd_call list" where
  "demo_calls = [CallDup 1, CallDup2 3 1, CallDup2 0 7, CallClose 3, CallClose (-1), CallFcntl 7 0 0]"

lemma find_upt: "find P [i..<j] = (if i < j then if P i then Some i else find P [Suc i..<j] else None)"
  by (simp add: upt_conv_Cons)

lemma demo_calls_spec:
  "fst (run_calls spec_call demo_calls [0 \<mapsto> CHR ''i'', 1 \<mapsto> CHR ''o'', 2 \<mapsto> CHR ''e'']) = [3, - 24, 7, 0, - 9, 3]"
  "snd (run_calls spec_call demo_calls [0 \<mapsto> CHR ''i'', 1 \<mapsto> CHR ''o'', 2 \<mapsto> CHR ''e'']) 3 = Some CHR ''i''"
  by (simp_all add: demo_calls_def spec_dup_def AX_FILE_LIMIT_def find_upt [of _ _ 1024] F_DUPFD_def del: upt_Suc)

theorem fd_calls_refine_map_witness:
  "\<exists>t t'. fd_table_init word_bitmap CHR ''i'' CHR ''o'' CHR ''e'' = Ok t \<and>
     run_calls (exec_call word_bitmap) demo_calls t = (map Ok [3, - 24, 7, 0, - 9, 3], t') \<and>
     fds_of (\<lambda>b. {i. bit b i}) t' 3 = Some CHR ''i''"
proof -
  have "\<forall>c \<in> set demo_calls. \<forall>fd \<in> set (call_fds c). c_int fd" by (simp add: demo_calls_def c_int_def)
  from fd_calls_refine_map [OF word_bitmap.id_bitmap_axioms this, of "CHR ''i''" "CHR ''o''" "CHR ''e''"]
  show ?thesis unfolding demo_calls_spec(1) using demo_calls_spec(2) by metis
qed

end
