(* ===== verification/Syscalls.thy ===== *)
theory Syscalls
  imports Link FdTable FsClients
begin

text \<open>
  \<open>api/linux_syscall_api\<close>: the system calls \<open>openat\<close>, \<open>close\<close>, \<open>read\<close> and \<open>write\<close> over the descriptor table of a task,
  with its descriptors for files and directories (\<open>syscall_fs\<close>), for the console (\<open>modules/axtask/src/stdio.rs\<close>), and
  the way a command line is split (\<open>api.rs\<close>). A descriptor sits in one slot of one table: no call here shares
  it, so the \<open>Arc\<close> around it is its value, and closing drops it.
\<close>

subsection \<open>Descriptors: \<open>ctype/file.rs\<close>, \<open>ctype/dir.rs\<close>\<close>

record TimeSecs =
  tv_sec :: u64
  tv_nsec :: u64

record FileMetaData =
  atime :: TimeSecs
  mtime :: TimeSecs
  ctime :: TimeSecs

record FileDesc =
  fd_path :: string
  fd_file :: File
  fd_flags :: u32
  fd_stat :: FileMetaData

definition TimeSecs_default :: TimeSecs where "TimeSecs_default = \<lparr>tv_sec = 0, tv_nsec = 0\<rparr>"

definition NSEC_PER_SEC :: u64 where "NSEC_PER_SEC = 1000000000"
definition UTIME_NOW :: u64 where "UTIME_NOW = 0x3fffffff"
definition UTIME_OMIT :: u64 where "UTIME_OMIT = 0x3ffffffe"

definition TimeSecs_now :: "u64 \<Rightarrow> TimeSecs" where
  "TimeSecs_now nano = (let s = nano div NSEC_PER_SEC in \<lparr>tv_sec = s, tv_nsec = nano - s * NSEC_PER_SEC\<rparr>)"

definition turn_to_nanos :: "TimeSecs \<Rightarrow> u64" where
  "turn_to_nanos t = tv_sec t * NSEC_PER_SEC + tv_nsec t"

definition set_as_utime :: "u64 \<Rightarrow> TimeSecs \<Rightarrow> TimeSecs \<Rightarrow> TimeSecs" where
  "set_as_utime nano other t =
     (if tv_nsec other = UTIME_NOW then TimeSecs_now nano else if tv_nsec other = UTIME_OMIT then t else other)"

definition FileDesc_new :: "string \<Rightarrow> File \<Rightarrow> u32 \<Rightarrow> FileDesc" where
  "FileDesc_new path f flags = \<lparr>fd_path = path, fd_file = f, fd_flags = flags,
     fd_stat = \<lparr>atime = TimeSecs_default, mtime = TimeSecs_default, ctime = TimeSecs_default\<rparr>\<rparr>"

text \<open>
  The implementations of \<open>FileIO\<close> that the table can hold; the console files have their flags. \<open>get_path\<close> of the
  console is the default of the trait.
\<close>

datatype FileIO = StdinIO u32 | StdoutIO u32 | StderrIO u32 | FileIO FileDesc | DirIO string

fun io_is_dir :: "FileIO \<Rightarrow> bool" where
  "io_is_dir (DirIO p) = True"
| "io_is_dir _ = False"

fun io_get_path :: "FileIO \<Rightarrow> string" where
  "io_get_path (FileIO d) = fd_path d"
| "io_get_path (DirIO p) = p"
| "io_get_path _ = ''Function get_path not implemented''"

fun io_readable :: "FileIO \<Rightarrow> bool" where
  "io_readable (StdinIO fl) = True"
| "io_readable (FileIO d) = flags_readable (fd_flags d)"
| "io_readable _ = False"

fun io_writable :: "FileIO \<Rightarrow> bool" where
  "io_writable (StdoutIO fl) = True"
| "io_writable (StderrIO fl) = True"
| "io_writable (FileIO d) = flags_writable (fd_flags d)"
| "io_writable _ = False"

fun io_executable :: "FileIO \<Rightarrow> bool" where
  "io_executable (FileIO d) = file_executable (fd_file d)"
| "io_executable _ = False"

fun io_get_status :: "FileIO \<Rightarrow> u32" where
  "io_get_status (StdinIO fl) = fl"
| "io_get_status (StdoutIO fl) = fl"
| "io_get_status (FileIO d) = fd_flags d"
| "io_get_status _ = 0"

fun io_set_status :: "u32 \<Rightarrow> FileIO \<Rightarrow> bool \<times> FileIO" where
  "io_set_status fl (FileIO d) = (True, FileIO (d\<lparr>fd_flags := fl\<rparr>))"
| "io_set_status fl (StdinIO old) = (if is_close_on_exec fl then (True, StdinIO O_CLOEXEC) else (False, StdinIO old))"
| "io_set_status fl (StdoutIO old) = (if is_close_on_exec fl then (True, StdoutIO fl) else (False, StdoutIO old))"
| "io_set_status fl f = (False, f)"

text \<open>The complement of a set of flags keeps to the bits that are defined.\<close>

definition cloexec_flags :: "bool \<Rightarrow> u32 \<Rightarrow> u32" where
  "cloexec_flags is_set fl = (if is_set then fl OR O_CLOEXEC else fl AND (OpenFlags_all AND NOT O_CLOEXEC))"

fun io_set_close_on_exec :: "bool \<Rightarrow> FileIO \<Rightarrow> bool \<times> FileIO" where
  "io_set_close_on_exec b (FileIO d) = (True, FileIO (d\<lparr>fd_flags := cloexec_flags b (fd_flags d)\<rparr>))"
| "io_set_close_on_exec b (StdinIO fl) = (True, StdinIO (cloexec_flags b fl))"
| "io_set_close_on_exec b (StdoutIO fl) = (True, StdoutIO (cloexec_flags b fl))"
| "io_set_close_on_exec b f = (False, f)"

text \<open>
  \<open>write\<close> of a file descriptor fills the gap between the end of the file and the cursor with zeros before it
  writes. The vector of zeros cannot be larger than \<open>isize::MAX\<close>.
\<close>

definition desc_size :: "('r, u64) file_action" where
  "desc_size fS = (res_bind (fops_get_attr (fst fS) (snd fS)) (\<lambda>attr. Ok (attr_size attr)), fS)"

definition fill_gap :: "u64 \<Rightarrow> u64 \<Rightarrow> ('r, unit) file_action" where
  "fill_gap old_offset sz =
     (if old_offset > sz
      then and_then (unwrap_act (fops_seek (SeekStart sz))) (\<lambda>_.
        if old_offset - sz \<ge> 0x8000000000000000 then (\<lambda>fS. (Panic, fS))
        else and_then (fops_write (replicate (unat (old_offset - sz)) 0)) (\<lambda>_ fS. (Ok (), fS)))
      else (\<lambda>fS. (Ok (), fS)))"

definition desc_write :: "u8 list \<Rightarrow> ('r, nat) file_action" where
  "desc_write buf =
     and_then (unwrap_act (fops_seek (SeekCurrent 0))) (\<lambda>old_offset.
     and_then (unwrap_act desc_size) (\<lambda>sz.
     and_then (fill_gap old_offset sz) (\<lambda>_. fops_write buf)))"

text \<open>\<open>ready_to_read\<close> and \<open>ready_to_write\<close>: the cursor is not at the end of the file.\<close>

definition not_at_end :: "('r, bool) file_action" where
  "not_at_end =
     and_then (unwrap_act (fops_seek (SeekCurrent 0))) (\<lambda>now_pos.
     and_then (unwrap_act (fops_seek (SeekEnd 0))) (\<lambda>len.
     and_then (unwrap_act (fops_seek (SeekStart now_pos))) (\<lambda>_ fS. (Ok (now_pos \<noteq> len), fS))))"

definition desc_ready_to_read :: "u32 \<Rightarrow> ('r, bool) file_action" where
  "desc_ready_to_read flags = (if \<not> flags_readable flags then (\<lambda>fS. (Ok False, fS)) else not_at_end)"

definition desc_ready_to_write :: "u32 \<Rightarrow> ('r, bool) file_action" where
  "desc_ready_to_write flags = (if \<not> flags_writable flags then (\<lambda>fS. (Ok False, fS)) else not_at_end)"

text \<open>\<open>INODE_NAME_MAP\<close>: the number of a path is the number of paths before it plus one.\<close>

type_synonym inodes = "(string, u64) btree"

definition new_inode :: "string \<Rightarrow> inodes \<Rightarrow> inodes" where
  "new_inode path m = (if map_of m path \<noteq> None then m else bt_insert path (of_nat (length m) + 1) m)"

definition new_file :: "string \<Rightarrow> u32 \<Rightarrow> ('r, File) fs_action" where
  "new_file path flags = file_open path (OpenOptions_new\<lparr>opt_read := flags_readable flags, opt_write := flags_writable flags,
     opt_create := flags_creatable flags, opt_create_new := flags_new_creatable flags\<rparr>)"

definition new_fd :: "string \<Rightarrow> u32 \<Rightarrow> ('r, FileIO) fs_action" where
  "new_fd path flags = and_then (new_file path flags) (\<lambda>f S. (Ok (FileIO (FileDesc_new path f flags)), S))"

definition new_dir :: "string \<Rightarrow> ('r, FileIO) fs_action" where
  "new_dir dir_path = and_then (\<lambda>S. (path_exists dir_path S, S)) (\<lambda>there.
     and_then (if \<not> there then DirBuilder_create False dir_path else (\<lambda>S. (Ok (), S))) (\<lambda>_ S. (Ok (DirIO dir_path), S)))"

subsection \<open>\<open>stat\<close>\<close>

definition S_IFREG :: u32 where "S_IFREG = 0x8000"
definition S_IFDIR :: u32 where "S_IFDIR = 0x4000"
definition S_IRUSR :: u32 where "S_IRUSR = 0x100"
definition S_IWUSR :: u32 where "S_IWUSR = 0x80"
definition S_IRGRP :: u32 where "S_IRGRP = 0x20"
definition S_IROTH :: u32 where "S_IROTH = 4"

definition normal_file_mode :: "u32 \<Rightarrow> u32" where
  "normal_file_mode file_type = file_type OR S_IWUSR OR S_IRUSR OR S_IRGRP OR S_IROTH"

text \<open>The fields that are always zero are left out.\<close>

record Kstat =
  st_dev :: u64
  st_ino :: u64
  st_mode :: u32
  st_nlink :: u32
  st_size :: u64
  st_blksize :: u32
  st_blocks :: u64
  st_atime :: TimeSecs
  st_mtime :: TimeSecs
  st_ctime :: TimeSecs

definition desc_get_stat :: "FileDesc \<Rightarrow> 'r LinkFs \<Rightarrow> (inodes, Kstat, AxError) action" where
  "desc_get_stat d L m =
     (case fops_get_attr (fd_file d) (lk_fs L) of
        Ok attr \<Rightarrow>
          (let m' = new_inode (fd_path d) m in
           (case map_of m' (fd_path d) of
              None \<Rightarrow> (Panic, m')
            | Some ino \<Rightarrow> (res_bind (get_link_count (fd_path d) L) (\<lambda>links. Ok \<lparr>st_dev = 1, st_ino = ino, st_mode = normal_file_mode S_IFREG OR 420, st_nlink = of_nat links,
                st_size = attr_size attr, st_blksize = 512, st_blocks = attr_blocks attr, st_atime = atime (fd_stat d),
                st_mtime = mtime (fd_stat d), st_ctime = ctime (fd_stat d)\<rparr>), m')))
      | Err e \<Rightarrow> (Err e, m) | Panic \<Rightarrow> (Panic, m) | Diverge \<Rightarrow> (Diverge, m))"

definition dir_get_stat :: Kstat where
  "dir_get_stat = \<lparr>st_dev = 1, st_ino = 0, st_mode = normal_file_mode S_IFDIR, st_nlink = 1, st_size = 0, st_blksize = 0, st_blocks = 0,
     st_atime = TimeSecs_default, st_mtime = TimeSecs_default, st_ctime = TimeSecs_default\<rparr>"

subsection \<open>The console: \<open>stdio.rs\<close>\<close>

text \<open>
  What the coming calls of \<open>getchar\<close> return, and what has been written. \<open>read\<close> asks until there is a character; it
  writes it to the start of the buffer without looking at its length, so that an empty buffer is written out of bounds.
\<close>

record Console =
  con_in :: "u8 option list"
  con_out :: "u8 list"

fun getchar_loop :: "u8 option list \<Rightarrow> (u8 \<times> u8 option list) option" where
  "getchar_loop [] = None"
| "getchar_loop (None # cs) = getchar_loop cs"
| "getchar_loop (Some c # cs) = Some (c, cs)"

definition stdin_read :: "u8 list \<Rightarrow> (Console, nat \<times> u8 list, AxError) action" where
  "stdin_read buf C = (case getchar_loop (con_in C) of
       None \<Rightarrow> (Diverge, C\<lparr>con_in := []\<rparr>)
     | Some (ch, cs) \<Rightarrow> (if buf = [] then Panic else Ok (1, buf[0 := ch]), C\<lparr>con_in := cs\<rparr>))"

definition stdout_write :: "u8 list \<Rightarrow> (Console, nat, AxError) action" where
  "stdout_write buf C = (Ok (length buf), C\<lparr>con_out := con_out C @ buf\<rparr>)"

subsection \<open>The system calls: \<open>imp/io.rs\<close>\<close>

record 'r SysState =
  k_links :: "'r LinkFs"
  k_fds :: "FileIO FdManager"
  k_inodes :: inodes
  k_console :: Console

type_synonym ('r, 'a, 'e) sys_action = "('r SysState, 'a, 'e) action"

abbreviation k_fs :: "'r SysState \<Rightarrow> 'r Fs" where "k_fs K \<equiv> lk_fs (k_links K)"
abbreviation k_table :: "'r SysState \<Rightarrow> FileIO option list" where "k_table K \<equiv> fd_table (k_fds K)"

definition set_fs :: "'r Fs \<Rightarrow> 'r SysState \<Rightarrow> 'r SysState" where
  "set_fs S K = K\<lparr>k_links := (k_links K)\<lparr>lk_fs := S\<rparr>\<rparr>"

definition set_slot :: "nat \<Rightarrow> FileIO option \<Rightarrow> 'r SysState \<Rightarrow> 'r SysState" where
  "set_slot fd x K = K\<lparr>k_fds := (k_fds K)\<lparr>fd_table := (k_table K)[fd := x]\<rparr>\<rparr>"

definition on_fs :: "('r, 'a) fs_action \<Rightarrow> ('r, 'a, AxError) sys_action" where
  "on_fs m K = (case m (k_fs K) of (r, S) \<Rightarrow> (r, set_fs S K))"

definition on_console :: "(Console, 'a, AxError) action \<Rightarrow> ('r, 'a, AxError) sys_action" where
  "on_console m K = (case m (k_console K) of (r, C) \<Rightarrow> (r, K\<lparr>k_console := C\<rparr>))"

text \<open>An operation on the open file of the descriptor \<open>d\<close> in the slot \<open>fd\<close>.\<close>

definition on_file :: "nat \<Rightarrow> FileDesc \<Rightarrow> ('r, 'a) file_action \<Rightarrow> ('r, 'a, AxError) sys_action" where
  "on_file fd d m K = (case m (fd_file d, k_fs K) of
     (r, (f, S)) \<Rightarrow> (r, set_slot fd (Some (FileIO (d\<lparr>fd_file := f\<rparr>))) (set_fs S K)))"

definition get_slot :: "usize \<Rightarrow> 'r SysState \<Rightarrow> FileIO option" where
  "get_slot fd K = (if unat fd < length (k_table K) then k_table K ! unat fd else None)"

definition io_read :: "('r \<Rightarrow> nat \<Rightarrow> u8 list \<times> 'r) \<Rightarrow> nat \<Rightarrow> FileIO \<Rightarrow> u8 list \<Rightarrow> ('r, nat \<times> u8 list, AxError) sys_action" where
  "io_read rand fd f buf = (case f of
      StdinIO _ \<Rightarrow> on_console (stdin_read buf)
    | FileIO d \<Rightarrow> on_file fd d (fops_read rand buf)
    | DirIO _ \<Rightarrow> (\<lambda>K. (Err IsADirectory, K))
    | _ \<Rightarrow> (\<lambda>K. (Err Unsupported, K)))"

definition io_write :: "nat \<Rightarrow> FileIO \<Rightarrow> u8 list \<Rightarrow> ('r, nat, AxError) sys_action" where
  "io_write fd f buf = (case f of
      StdinIO _ \<Rightarrow> (\<lambda>K. (Err Unsupported, K))
    | FileIO d \<Rightarrow> on_file fd d (desc_write buf)
    | DirIO _ \<Rightarrow> (\<lambda>K. (Err IsADirectory, K))
    | _ \<Rightarrow> on_console (stdout_write buf))"

definition io_flush :: "FileIO \<Rightarrow> 'r SysState \<Rightarrow> (unit, AxError) result" where
  "io_flush f K = (case f of
      StdinIO _ \<Rightarrow> Err Unsupported
    | FileIO d \<Rightarrow> fops_flush (fd_file d) (k_fs K)
    | DirIO _ \<Rightarrow> Err IsADirectory
    | _ \<Rightarrow> Ok ())"

definition io_seek :: "nat \<Rightarrow> FileIO \<Rightarrow> SeekFrom \<Rightarrow> ('r, u64, AxError) sys_action" where
  "io_seek fd f pos = (case f of
      FileIO d \<Rightarrow> on_file fd d (fops_seek pos)
    | DirIO _ \<Rightarrow> (\<lambda>K. (Err IsADirectory, K))
    | _ \<Rightarrow> (\<lambda>K. (Err Unsupported, K)))"

definition io_truncate :: "FileIO \<Rightarrow> u64 \<Rightarrow> ('r, unit, AxError) sys_action" where
  "io_truncate f len = (case f of
      FileIO d \<Rightarrow> on_fs (fops_truncate (fd_file d) len)
    | _ \<Rightarrow> (\<lambda>K. (Err Unsupported, K)))"

text \<open>
  The buffer of the user: a null pointer, a range that cannot be mapped, or the bytes in it. \<open>read\<close> returns
  the buffer with the number of bytes.
\<close>

datatype UserBuf = NullBuf | BadBuf | UserBuf "u8 list"

fun read_errno :: "AxError \<Rightarrow> LinuxError" where
  "read_errno WouldBlock = EAGAIN"
| "read_errno InvalidInput = EINVAL"
| "read_errno _ = EPERM"

fun write_errno :: "AxError \<Rightarrow> LinuxError" where
  "write_errno ConnectionReset = EPIPE"
| "write_errno WouldBlock = EAGAIN"
| "write_errno InvalidInput = EINVAL"
| "write_errno _ = EPERM"

definition syscall_read ::
  "('r \<Rightarrow> nat \<Rightarrow> u8 list \<times> 'r) \<Rightarrow> usize \<Rightarrow> UserBuf \<Rightarrow> ('r, nat \<times> u8 list, LinuxError) sys_action" where
  "syscall_read rand fd ubuf K = (case ubuf of
      UserBuf buf \<Rightarrow>
        (case get_slot fd K of
           None \<Rightarrow> (Err EBADF, K)
         | Some f \<Rightarrow> if io_is_dir f then (Err EISDIR, K)
             else (case io_read rand (unat fd) f buf K of (r, K') \<Rightarrow> (map_err read_errno r, K')))
    | _ \<Rightarrow> (Err EFAULT, K))"

definition syscall_write :: "usize \<Rightarrow> UserBuf \<Rightarrow> ('r, nat, LinuxError) sys_action" where
  "syscall_write fd ubuf K = (case ubuf of
      UserBuf buf \<Rightarrow>
        (case get_slot fd K of
           None \<Rightarrow> (Err EBADF, K)
         | Some f \<Rightarrow> if io_is_dir f then (Err EBADF, K)
             else (case io_write (unat fd) f buf K of (r, K') \<Rightarrow> (map_err write_errno r, K')))
    | _ \<Rightarrow> (Err EFAULT, K))"

text \<open>
  \<open>openat\<close>: the slot and the inode number are taken before the file is opened and stay taken when that fails.
\<close>

definition record_inode :: "string \<Rightarrow> 'r SysState \<Rightarrow> 'r SysState" where
  "record_inode path K = K\<lparr>k_inodes := new_inode path (k_inodes K)\<rparr>"

definition open_path :: "string \<Rightarrow> u32 \<Rightarrow> nat \<Rightarrow> ('r, nat, LinuxError) sys_action" where
  "open_path path flags fd_num K =
     (if fp_is_dir path
      then (case on_fs (new_dir path) K of
          (Ok f, K') \<Rightarrow> (Ok fd_num, set_slot fd_num (Some f) K')
        | (Err _, K') \<Rightarrow> (Err ENOENT, K')
        | (Panic, K') \<Rightarrow> (Panic, K')
        | (Diverge, K') \<Rightarrow> (Diverge, K'))
      else (case on_fs (new_fd path flags) K of
          (Ok f, K') \<Rightarrow>
            (case create_link path path (k_links K') of
               (Panic, L) \<Rightarrow> (Panic, set_slot fd_num (Some f) (K'\<lparr>k_links := L\<rparr>))
             | (Diverge, L) \<Rightarrow> (Diverge, set_slot fd_num (Some f) (K'\<lparr>k_links := L\<rparr>))
             | (_, L) \<Rightarrow> (Ok fd_num, set_slot fd_num (Some f) (K'\<lparr>k_links := L\<rparr>)))
        | (Err _, K') \<Rightarrow> (Err ENOENT, K')
        | (Panic, K') \<Rightarrow> (Panic, K')
        | (Diverge, K') \<Rightarrow> (Diverge, K')))"

definition syscall_openat :: "usize \<Rightarrow> UserPath \<Rightarrow> usize \<Rightarrow> ('r, nat, LinuxError) sys_action" where
  "syscall_openat fd path flags K =
     (let fl = OpenFlags_from flags in
      case deal_with_path io_get_path io_is_dir (k_table K) fd path (flags_is_dir fl) (k_links K) of
        Ok (Some p) \<Rightarrow>
          (case alloc_fd (k_fds K) of
             (Ok fd_num, m) \<Rightarrow> open_path p fl fd_num (record_inode p (K\<lparr>k_fds := m\<rparr>))
           | (Err _, m) \<Rightarrow> (Err EMFILE, K\<lparr>k_fds := m\<rparr>)
           | (Panic, m) \<Rightarrow> (Panic, K)
           | (Diverge, m) \<Rightarrow> (Diverge, K))
      | Ok None \<Rightarrow> (Err EINVAL, K)
      | Err _ \<Rightarrow> (Err EINVAL, K)
      | Panic \<Rightarrow> (Panic, K)
      | Diverge \<Rightarrow> (Diverge, K))"

definition drop_io :: "FileIO \<Rightarrow> 'r Fs \<Rightarrow> 'r Fs" where
  "drop_io f S = (case f of FileIO d \<Rightarrow> file_drop (fd_file d) S | _ \<Rightarrow> S)"

definition syscall_close :: "usize \<Rightarrow> ('r, nat, LinuxError) sys_action" where
  "syscall_close fd K =
     (if unat fd \<ge> length (k_table K) then (Err EPERM, K)
      else case k_table K ! unat fd of
        None \<Rightarrow> (Err EPERM, K)
      | Some f \<Rightarrow> (Ok 0, set_fs (drop_io f (k_fs K)) (set_slot (unat fd) None K)))"

subsection \<open>Dispatch: \<open>fs_syscall_id.rs\<close>, \<open>mod.rs\<close>, \<open>lib.rs\<close>\<close>

datatype FsSyscallId = OPENAT | CLOSE | READ | WRITE

definition FsSyscallId_try_from :: "usize \<Rightarrow> FsSyscallId option" where
  "FsSyscallId_try_from n = (if n = 56 then Some OPENAT else if n = 57 then Some CLOSE
     else if n = 63 then Some READ else if n = 64 then Some WRITE else None)"

text \<open>The arguments in the registers, with what the pointers among them lead to.\<close>

record SysArgs =
  arg_fd :: usize
  arg_path :: UserPath
  arg_flags :: usize
  arg_buf :: UserBuf

definition result_int :: "(nat, LinuxError) result \<Rightarrow> (int, LinuxError) result" where
  "result_int r = res_bind r (\<lambda>n. Ok (int n))"

definition fs_syscall ::
  "('r \<Rightarrow> nat \<Rightarrow> u8 list \<times> 'r) \<Rightarrow> FsSyscallId \<Rightarrow> SysArgs \<Rightarrow> 'r SysState \<Rightarrow> (int, LinuxError) result \<times> u8 list \<times> 'r SysState" where
  "fs_syscall rand n args K = (case n of
      OPENAT \<Rightarrow> (case syscall_openat (arg_fd args) (arg_path args) (arg_flags args) K of (r, K') \<Rightarrow> (result_int r, [], K'))
    | CLOSE \<Rightarrow> (case syscall_close (arg_fd args) K of (r, K') \<Rightarrow> (result_int r, [], K'))
    | READ \<Rightarrow> (case syscall_read rand (arg_fd args) (arg_buf args) K of
          (r, K') \<Rightarrow> (result_int (res_bind r (\<lambda>nb. Ok (fst nb))), case r of Ok nb \<Rightarrow> snd nb | _ \<Rightarrow> [], K'))
    | WRITE \<Rightarrow> (case syscall_write (arg_fd args) (arg_buf args) K of (r, K') \<Rightarrow> (result_int r, [], K')))"

definition deal_result :: "(int, LinuxError) result \<Rightarrow> (int, LinuxError) result" where
  "deal_result r = (case r of Err e \<Rightarrow> Ok (- LinuxError_code e) | _ \<Rightarrow> r)"

subsection \<open>Command lines: \<open>api.rs\<close>\<close>

text \<open>
  \<open>get_args\<close> on the bytes of a string. The slices start and end next to a space, a single-byte character, so
  that they are valid UTF-8.
\<close>

definition quote_char :: u8 where "quote_char = 34"
definition space_char :: u8 where "space_char = 32"

fun args_loop :: "u8 list \<Rightarrow> nat list \<Rightarrow> bool \<Rightarrow> nat \<Rightarrow> u8 list list \<Rightarrow> nat \<times> u8 list list" where
  "args_loop line [] in_quote arg_start args = (arg_start, args)"
| "args_loop line (pos # ps) in_quote arg_start args =
     (let in_quote = (if line ! pos = quote_char then \<not> in_quote else in_quote) in
      if line ! pos = space_char \<and> \<not> in_quote
      then args_loop line ps in_quote (Suc pos) (if arg_start \<noteq> pos then args @ [take (pos - arg_start) (drop arg_start line)] else args)
      else args_loop line ps in_quote arg_start args)"

definition get_args :: "u8 list \<Rightarrow> u8 list list" where
  "get_args line = (case args_loop line [0..<length line] False 0 [] of
     (arg_start, args) \<Rightarrow> if arg_start \<noteq> length line then args @ [drop arg_start line] else args)"

end
