(* ===== verification/SyscallsCorrect.thy ===== *)
theory SyscallsCorrect
  imports Syscalls
begin

text \<open>
  What the system calls keep: every open descriptor holds a reference to its node, links and inode numbers stay
  exact, and each call changes its own slot only. What is written to a descriptor is read back through another.
\<close>

subsection \<open>References of the open files\<close>

definition same_refs :: "'r Fs \<Rightarrow> 'r Fs \<Rightarrow> bool" where
  "same_refs S S' \<longleftrightarrow> (\<exists>s. S' = S\<lparr>vfs := s\<rparr> \<and> vfs_ok s \<and> held s = held (vfs S))"

definition fs_holds :: "addr list \<Rightarrow> 'r Fs \<Rightarrow> bool" where
  "fs_holds xs S \<longleftrightarrow> vfs_ok (vfs S) \<and> (\<forall>a. count_list (xs @ fs_refs S) a \<le> held (vfs S) a)"

lemma fs_refs_vfs [simp]: "fs_refs (S\<lparr>vfs := s\<rparr>) = fs_refs S"
  by (simp add: fs_refs_def)

lemma fs_holds_ok: "fs_holds xs S \<Longrightarrow> fs_ok S"
  by (auto simp: fs_holds_def fs_ok_def dest: spec intro: le_trans [rotated])

lemma fs_ok_vfs: "fs_ok S \<Longrightarrow> vfs_ok (vfs S)"
  by (simp add: fs_ok_def)

lemma same_refs_refl: "fs_ok S \<Longrightarrow> same_refs S S"
  unfolding same_refs_def by (intro exI [of _ "vfs S"]) (simp add: fs_ok_def)

lemma same_refs_trans: "same_refs S S' \<Longrightarrow> same_refs S' S'' \<Longrightarrow> same_refs S S''"
  by (auto simp: same_refs_def)

lemma same_refs_holds: "same_refs S S' \<Longrightarrow> fs_holds xs S \<Longrightarrow> fs_holds xs S'"
  by (auto simp: same_refs_def fs_holds_def)

lemma same_refs_ok: "same_refs S S' \<Longrightarrow> fs_ok S \<Longrightarrow> fs_ok S'"
  by (auto simp: same_refs_def fs_ok_def)

lemma same_refs_path: "same_refs S S' \<Longrightarrow> current_dir_path S' = current_dir_path S"
  by (auto simp: same_refs_def)

lemma fs_holds_hold: "fs_holds xs S \<Longrightarrow> nodes (vfs S) a \<noteq> None \<Longrightarrow> fs_holds (a # xs) (S\<lparr>vfs := hold a (vfs S)\<rparr>)"
  using vfs_step_ok [of "vfs S" "hold a (vfs S)"] vfs_step.open_node [of "vfs S" a]
  by (auto simp: fs_holds_def) (simp_all add: hold_def)

lemma fs_holds_release:
  assumes "fs_holds (a # xs) S"
  shows "fs_holds xs (S\<lparr>vfs := release a (vfs S)\<rparr>)"
proof -
  have c: "count_list (a # xs @ fs_refs S) b \<le> held (vfs S) b" for b using assms by (simp add: fs_holds_def)
  have "held (vfs S) a > 0" using c [of a] by simp
  then have "vfs_ok (release a (vfs S))"
    using vfs_step_ok [OF _ vfs_step.close_node] assms by (auto simp: fs_holds_def)
  moreover have "count_list (xs @ fs_refs S) b \<le> held (release a (vfs S)) b" for b
    using c [of b] by (auto simp: release_def)
  ultimately show ?thesis by (simp add: fs_holds_def)
qed

lemma fs_holds_perm: "mset xs = mset ys \<Longrightarrow> fs_holds xs S = fs_holds ys S"
  by (simp add: fs_holds_def) (metis count_mset)

lemma fs_holds_exists: "fs_holds xs S \<Longrightarrow> a \<in> set xs \<Longrightarrow> nodes (vfs S) a \<noteq> None"
proof -
  assume h: "fs_holds xs S" "a \<in> set xs"
  then have "0 < count_list xs a" by (metis count_list_0_iff gr0I)
  moreover have "count_list xs a + count_list (fs_refs S) a \<le> held (vfs S) a" using h(1) by (simp add: fs_holds_def)
  ultimately have "held (vfs S) a > 0" by simp
  then show ?thesis using h(1) vfs_okD(9) by (auto simp: fs_holds_def)
qed

lemma same_refs_on_vfs:
  assumes "on_vfs m S = (r, S')" and "\<And>r s'. m (vfs S) = (r, s') \<Longrightarrow> vfs_ok s' \<and> held s' = held (vfs S)"
  shows "same_refs S S'"
  using assms by (cases "m (vfs S)") (auto simp: on_vfs_def same_refs_def)

lemma same_refs_ref_create:
  assumes ok: "fs_ok S" and run: "ref_create d path ty S = (r, S')"
  shows "same_refs S S'"
proof -
  have v: "vfs_ok (vfs S)" using ok by (rule fs_ok_vfs)
  have "same_refs S S'" if "on_vfs (vfs_create a p ty) S = (r', S')" for a p r'
    using same_refs_on_vfs [OF that] vfs_create_ok [OF v] vfs_create_held by metis
  then show ?thesis using run same_refs_refl [OF ok]
    by (cases d) (auto simp: root_create_def split: prod.splits if_splits)
qed

lemma same_refs_create_file: "fs_ok S \<Longrightarrow> create_file dir path S = (r, S') \<Longrightarrow> same_refs S S'"
  using same_refs_ref_create same_refs_refl
  by (auto simp: create_file_def and_then_def Let_def split: prod.splits result.splits if_splits)

lemma same_refs_create_dir: "fs_ok S \<Longrightarrow> create_dir dir path S = (r, S') \<Longrightarrow> same_refs S S'"
  using same_refs_ref_create same_refs_refl
  by (auto simp: create_dir_def split: result.splits AxError.splits)

lemma same_refs_open_node: "fs_ok S \<Longrightarrow> open_node dir path opts S = (r, S') \<Longrightarrow> same_refs S S'"
  using same_refs_create_file [of S dir path] same_refs_refl [of S]
  by (auto simp: open_node_def split: if_splits result.splits AxError.splits)

lemma vfs_write_at_frame: "vfs_ok s \<Longrightarrow> vfs_write_at a off buf s = (r, s') \<Longrightarrow> vfs_ok s' \<and> held s' = held s"
  using vfs_step_ok [OF _ vfs_step.write_file, of s a off buf r s']
  by (auto simp: vfs_write_at_def set_node_def split: option.splits Node.splits result.splits)

lemma vfs_read_at_frame: "vfs_ok s \<Longrightarrow> vfs_read_at rand a off buf s = (r, s') \<Longrightarrow> vfs_ok s' \<and> held s' = held s"
  using vfs_step_ok [OF _ vfs_step.read_file, of s rand a off buf r s']
  by (auto simp: vfs_read_at_def set_node_def split: option.splits Node.splits prod.splits)

text \<open>An action on an open file moves its cursor and keeps all references.\<close>

definition file_frame :: "File \<Rightarrow> 'r Fs \<Rightarrow> File \<times> 'r Fs \<Rightarrow> bool" where
  "file_frame f S fS \<longleftrightarrow> fs_ok (snd fS) \<and> same_refs S (snd fS) \<and> fst fS = f\<lparr>file_offset := file_offset (fst fS)\<rparr>"

lemma file_frame_refl: "fs_ok S \<Longrightarrow> file_frame f S (f, S)"
  by (simp add: file_frame_def same_refs_refl)

lemma keeps_frame_in_fs:
  assumes "\<And>S r S'. fs_ok S \<Longrightarrow> m S = (r, S') \<Longrightarrow> same_refs S S'"
  shows "keeps (file_frame f S) (in_fs m)"
proof (rule keepsI)
  fix fS r fS' assume fr: "file_frame f S fS" and "in_fs m fS = (r, fS')"
  moreover obtain r' S' where m: "m (snd fS) = (r', S')" by (cases "m (snd fS)")
  ultimately have e: "fS' = (fst fS, S')" by (simp add: in_fs_def)
  have "same_refs (snd fS) S'" using assms m fr by (simp add: file_frame_def)
  then show "file_frame f S fS'" using fr same_refs_trans same_refs_ok by (auto simp: file_frame_def e)
qed

lemma file_frame_offset [simp]: "file_frame f S (g\<lparr>file_offset := p\<rparr>, T) \<longleftrightarrow> file_frame f S (g, T)"
proof -
  have "g\<lparr>file_offset := p\<rparr> = f\<lparr>file_offset := p\<rparr> \<longleftrightarrow> g = f\<lparr>file_offset := file_offset g\<rparr>" by (cases g; cases f) simp
  then show ?thesis by (simp add: file_frame_def)
qed

lemma keeps_on_vfs:
  assumes "\<And>s r s'. vfs_ok s \<Longrightarrow> m s = (r, s') \<Longrightarrow> vfs_ok s' \<and> held s' = held s"
  shows "keeps (file_frame f S) (in_fs (on_vfs m))"
proof (rule keeps_frame_in_fs)
  fix T :: "'a Fs" and r T' assume "fs_ok T" and run: "on_vfs m T = (r, T')"
  then show "same_refs T T'" using assms fs_ok_vfs by (intro same_refs_on_vfs [OF run]) blast
qed

lemma keeps_in_pure: "keeps (file_frame f S) (in_fs (pure_res r))"
  by (intro keeps_frame_in_fs) (auto simp: pure_res_def intro: same_refs_refl)

lemma keeps_bind_cursor: "keeps (file_frame f S) m \<Longrightarrow>
    keeps (file_frame f S) (and_then m (\<lambda>a (g, T). (h a g T, (g\<lparr>file_offset := file_offset g + of_nat (k a)\<rparr>, T))))"
  by (rule keeps_and_then) (auto simp: keeps_def)

lemma keeps_unwrap_act: "keeps P m \<Longrightarrow> keeps P (unwrap_act m)"
  by (auto simp: keeps_def unwrap_act_def split: prod.splits)

lemma keeps_fops_seek: "keeps (file_frame f S) (fops_seek pos)"
proof (rule keepsI)
  fix fS r fS' assume fr: "file_frame f S fS" and run: "fops_seek pos fS = (r, fS')"
  obtain g T where fS: "fS = (g, T)" by (cases fS)
  have "fS' = (g, T) \<or> (\<exists>p. fS' = (g\<lparr>file_offset := p\<rparr>, T))"
    using run unfolding fS fops_seek_def and_then_def by (auto split: result.splits SeekFrom.splits option.splits)
  then show "file_frame f S fS'" using fr fS by auto
qed

lemma keeps_fops_read: "keeps (file_frame f S) (fops_read rand buf)"
proof (rule keepsI)
  fix fS r fS' assume fr: "file_frame f S fS" and run: "fops_read rand buf fS = (r, fS')"
  have "keeps (file_frame f S) (in_fs (fops_read_at rand g off buf))" for g off
  proof (rule keeps_frame_in_fs)
    fix T r T' assume "fs_ok T" "fops_read_at rand g off buf T = (r, T')"
    moreover from this have "same_refs T T'" if "on_vfs (vfs_read_at rand a off buf) T = (r', T')" for a r'
      using same_refs_on_vfs [OF that] vfs_read_at_frame [OF fs_ok_vfs] by blast
    ultimately show "same_refs T T'"
      using same_refs_refl [of T] by (auto simp: fops_read_at_def and_then_def pure_res_def access_def split: if_splits)
  qed
  then have "keeps (file_frame f S) (and_then (in_fs (fops_read_at rand (fst fS) (file_offset (fst fS)) buf)) (\<lambda>(n, buf') (f, S).
       (Ok (n, buf'), (f\<lparr>file_offset := file_offset f + of_nat n\<rparr>, S))))"
    by (rule keeps_and_then) (auto simp: keeps_def)
  then show "file_frame f S fS'" using fr run [unfolded fops_read_def] by (rule keepsD)
qed

lemma keeps_fops_write: "keeps (file_frame f S) (fops_write buf)"
proof (rule keepsI)
  fix fS r fS' assume fr: "file_frame f S fS" and run: "fops_write buf fS = (r, fS')"
  have app: "keeps (file_frame f S) (\<lambda>(f, S). if is_append f
         then (case fops_get_attr f S of
             Ok attr \<Rightarrow> (Ok (), (f\<lparr>file_offset := attr_size attr\<rparr>, S))
           | Err e \<Rightarrow> (Err e, (f, S)) | Panic \<Rightarrow> (Panic, (f, S)) | Diverge \<Rightarrow> (Diverge, (f, S)))
         else (Ok (), (f, S)))"
    by (auto simp: keeps_def split: result.splits)
  have wr: "keeps (file_frame f S) (\<lambda>fS. and_then (in_fs (on_vfs (vfs_write_at node (file_offset (fst fS)) buf))) (\<lambda>n (f, S).
       (Ok n, (f\<lparr>file_offset := file_offset f + of_nat n\<rparr>, S))) fS)" for node
  proof (rule keepsI)
    fix gT r gT' assume g: "file_frame f S gT" and run: "and_then (in_fs (on_vfs (vfs_write_at node (file_offset (fst gT)) buf))) (\<lambda>n (f, S).
       (Ok n, (f\<lparr>file_offset := file_offset f + of_nat n\<rparr>, S))) gT = (r, gT')"
    have "keeps (file_frame f S) (and_then (in_fs (on_vfs (vfs_write_at node (file_offset (fst gT)) buf))) (\<lambda>n (f, S).
       (Ok n, (f\<lparr>file_offset := file_offset f + of_nat n\<rparr>, S))))"
      by (rule keeps_and_then [OF keeps_on_vfs]) (use vfs_write_at_frame in blast, auto simp: keeps_def)
    then show "file_frame f S gT'" using g run by (rule keepsD)
  qed
  have "keeps (file_frame f S) (and_then (in_fs (pure_res (access (file_node (fst fS)) CAP_WRITE))) (\<lambda>node.
     and_then (\<lambda>(f, S). if is_append f
         then (case fops_get_attr f S of
             Ok attr \<Rightarrow> (Ok (), (f\<lparr>file_offset := attr_size attr\<rparr>, S))
           | Err e \<Rightarrow> (Err e, (f, S)) | Panic \<Rightarrow> (Panic, (f, S)) | Diverge \<Rightarrow> (Diverge, (f, S)))
         else (Ok (), (f, S))) (\<lambda>_ fS.
     and_then (in_fs (on_vfs (vfs_write_at node (file_offset (fst fS)) buf))) (\<lambda>n (f, S).
       (Ok n, (f\<lparr>file_offset := file_offset f + of_nat n\<rparr>, S))) fS)))"
    by (intro keeps_and_then keeps_in_pure app wr)
  then show "file_frame f S fS'" using fr run [unfolded fops_write_def] by (rule keepsD)
qed

lemma keeps_desc_size: "keeps (file_frame f S) desc_size"
  by (simp add: keeps_def desc_size_def)

lemma keeps_fill_gap: "keeps (file_frame f S) (fill_gap old sz)"
proof -
  have z: "keeps (file_frame f S) (if b then (\<lambda>fS. (Panic, fS)) else and_then (fops_write zs) (\<lambda>_ fS. (Ok (), fS)))" for b zs
    using keeps_and_then [OF keeps_fops_write [of f S zs], of "\<lambda>_ fS. (Ok (), fS)"] by (auto simp: keeps_def)
  then show ?thesis
    using keeps_and_then [OF keeps_unwrap_act [OF keeps_fops_seek [of f S "SeekStart sz"]] z] by (simp add: fill_gap_def) (simp add: keeps_def)
qed

lemma keeps_desc_write: "keeps (file_frame f S) (desc_write buf)"
  unfolding desc_write_def
  by (intro keeps_and_then keeps_unwrap_act keeps_fops_seek keeps_fops_write keeps_desc_size keeps_fill_gap)

subsection \<open>The state of the system calls\<close>

fun io_nodes :: "FileIO option \<Rightarrow> addr list" where
  "io_nodes (Some (FileIO d)) = [node_of (fd_file d)]"
| "io_nodes _ = []"

definition open_nodes :: "FileIO option list \<Rightarrow> addr list" where
  "open_nodes t = concat (map io_nodes t)"

lemma open_nodes_simps [simp]: "open_nodes [] = []" "open_nodes (x # t) = io_nodes x @ open_nodes t" "open_nodes (t @ u) = open_nodes t @ open_nodes u"
  by (simp_all add: open_nodes_def)

lemma open_nodes_update:
  "i < length t \<Longrightarrow> mset (open_nodes (t[i := x])) + mset (io_nodes (t ! i)) = mset (open_nodes t) + mset (io_nodes x)"
proof (induction t arbitrary: i)
  case (Cons y t)
  then show ?case by (cases i) (simp_all add: ac_simps)
qed simp

lemma open_nodes_nth: "i < length t \<Longrightarrow> t ! i = Some (FileIO d) \<Longrightarrow> node_of (fd_file d) \<in> set (open_nodes t)"
  by (force simp: open_nodes_def in_set_conv_nth)

definition inodes_ok :: "inodes \<Rightarrow> bool" where
  "inodes_ok m \<longleftrightarrow> bt_ok m \<and> mset (map snd m) = mset (map of_nat [1..<Suc (length m)])"

definition self_links :: "'r LinkFs \<Rightarrow> bool" where
  "self_links L \<longleftrightarrow> links_ok L \<and> (\<forall>s d. map_of (link_path_map L) s = Some d \<longrightarrow> s = d)"

definition sys_ok :: "'r SysState \<Rightarrow> bool" where
  "sys_ok K \<longleftrightarrow> fs_holds (open_nodes (k_table K)) (k_fs K) \<and> self_links (k_links K) \<and> inodes_ok (k_inodes K) \<and>
     length (k_table K) \<le> unat (fd_limit (k_fds K))"

text \<open>The slots that are not \<open>fd\<close> stay as they are.\<close>

definition other_slots :: "nat \<Rightarrow> 'r SysState \<Rightarrow> 'r SysState \<Rightarrow> bool" where
  "other_slots fd K K' \<longleftrightarrow> length (k_table K) \<le> length (k_table K') \<and> (\<forall>j < length (k_table K). j \<noteq> fd \<longrightarrow> k_table K' ! j = k_table K ! j)"

lemma other_slots_refl [simp]: "other_slots fd K K"
  by (simp add: other_slots_def)

lemma sys_ok_fs: "sys_ok K \<Longrightarrow> fs_ok (k_fs K)"
  by (auto simp: sys_ok_def dest: fs_holds_ok)

lemma self_links_fs [simp]: "self_links (L\<lparr>lk_fs := S\<rparr>) \<longleftrightarrow> self_links L"
  by (simp add: self_links_def)

lemma sys_simps [simp]:
  "k_fs (set_fs S K) = S" "k_fds (set_fs S K) = k_fds K" "k_inodes (set_fs S K) = k_inodes K" "k_console (set_fs S K) = k_console K"
  "self_links (k_links (set_fs S K)) = self_links (k_links K)"
  "k_table (set_slot fd x K) = (k_table K)[fd := x]" "fd_limit (k_fds (set_slot fd x K)) = fd_limit (k_fds K)"
  "k_links (set_slot fd x K) = k_links K" "k_inodes (set_slot fd x K) = k_inodes K" "k_console (set_slot fd x K) = k_console K"
  by (simp_all add: set_fs_def set_slot_def)

lemma sys_ok_console [simp]: "sys_ok (K\<lparr>k_console := C\<rparr>) \<longleftrightarrow> sys_ok K"
  by (simp add: sys_ok_def)

lemma sys_ok_set_fs: "sys_ok K \<Longrightarrow> same_refs (k_fs K) S \<Longrightarrow> sys_ok (set_fs S K)"
  by (auto simp: sys_ok_def dest: same_refs_holds)

lemma on_file_ok:
  assumes ok: "sys_ok K" and fd: "fd < length (k_table K)" "k_table K ! fd = Some (FileIO d)"
    and m: "keeps (file_frame (fd_file d) (k_fs K)) m" and run: "on_file fd d m K = (r, K')"
  shows "sys_ok K' \<and> other_slots fd K K' \<and> same_refs (k_fs K) (k_fs K') \<and>
    (\<exists>p. k_table K' ! fd = Some (FileIO (d\<lparr>fd_file := (fd_file d)\<lparr>file_offset := p\<rparr>\<rparr>)))"
proof -
  obtain r' f S where r: "m (fd_file d, k_fs K) = (r', (f, S))" by (metis prod.collapse)
  have fr: "file_frame (fd_file d) (k_fs K) (f, S)"
    using m file_frame_refl [OF sys_ok_fs [OF ok]] r by (rule keepsD)
  obtain p where f: "f = (fd_file d)\<lparr>file_offset := p\<rparr>" and S: "same_refs (k_fs K) S" using fr by (auto simp: file_frame_def)
  have K': "K' = set_slot fd (Some (FileIO (d\<lparr>fd_file := f\<rparr>))) (set_fs S K)" using run r by (simp add: on_file_def)
  have "mset (open_nodes ((k_table K)[fd := Some (FileIO (d\<lparr>fd_file := f\<rparr>))])) = mset (open_nodes (k_table K))"
    using open_nodes_update [OF fd(1), of "Some (FileIO (d\<lparr>fd_file := f\<rparr>))"] by (simp add: fd(2) f)
  then have "sys_ok K'"
    using ok same_refs_holds [OF S] fs_holds_perm by (auto simp: sys_ok_def K')
  then show ?thesis using fd S by (auto simp: K' f other_slots_def)
qed

lemma io_read_ok:
  assumes "sys_ok K" and "fd < length (k_table K)" "k_table K ! fd = Some f" and "io_read rand fd f buf K = (r, K')"
  shows "sys_ok K' \<and> other_slots fd K K'"
  using assms on_file_ok [OF assms(1,2) _ keeps_fops_read]
  by (cases f) (auto simp: io_read_def on_console_def other_slots_def split: prod.splits)

lemma io_write_ok:
  assumes "sys_ok K" and "fd < length (k_table K)" "k_table K ! fd = Some f" and "io_write fd f buf K = (r, K')"
  shows "sys_ok K' \<and> other_slots fd K K'"
  using assms on_file_ok [OF assms(1,2) _ keeps_desc_write]
  by (cases f) (auto simp: io_write_def on_console_def other_slots_def split: prod.splits)

lemma get_slot_Some: "get_slot fd K = Some f \<Longrightarrow> unat fd < length (k_table K) \<and> k_table K ! unat fd = Some f"
  by (simp add: get_slot_def split: if_splits)

lemma syscall_read_ok: "sys_ok K \<Longrightarrow> syscall_read rand fd b K = (r, K') \<Longrightarrow> sys_ok K' \<and> other_slots (unat fd) K K'"
  by (auto simp: syscall_read_def split: UserBuf.splits option.splits if_splits prod.splits dest!: get_slot_Some dest: io_read_ok)

lemma syscall_write_ok: "sys_ok K \<Longrightarrow> syscall_write fd b K = (r, K') \<Longrightarrow> sys_ok K' \<and> other_slots (unat fd) K K'"
  by (auto simp: syscall_write_def split: UserBuf.splits option.splits if_splits prod.splits dest!: get_slot_Some dest: io_write_ok)

lemma syscall_close_ok:
  assumes ok: "sys_ok K" and run: "syscall_close fd K = (r, K')"
  shows "sys_ok K' \<and> other_slots (unat fd) K K'"
proof (cases "unat fd < length (k_table K) \<and> k_table K ! unat fd \<noteq> None")
  case True
  then obtain f where fd: "unat fd < length (k_table K)" "k_table K ! unat fd = Some f" by auto
  have K': "K' = set_fs (drop_io f (k_fs K)) (set_slot (unat fd) None K)" using run fd by (simp add: syscall_close_def)
  let ?t = "(k_table K)[unat fd := None]"
  have "mset (open_nodes ?t) + mset (io_nodes (Some f)) = mset (open_nodes (k_table K))"
    using open_nodes_update [OF fd(1), of None] by (simp add: fd(2))
  then have "fs_holds (io_nodes (Some f) @ open_nodes ?t) (k_fs K)"
    using ok unfolding sys_ok_def by (subst fs_holds_perm [of _ "open_nodes (k_table K)"]) (simp_all add: add.commute)
  then have "fs_holds (open_nodes ?t) (drop_io f (k_fs K))"
    using fs_holds_release by (cases f) (auto simp: drop_io_def file_drop_def)
  then show ?thesis using ok fd(1) by (auto simp: sys_ok_def K' other_slots_def)
qed (use assms in \<open>auto simp: syscall_close_def split: if_splits\<close>)

subsection \<open>Opening\<close>

lemma file_open_frame:
  assumes ok: "fs_ok S" and "\<not> opt_truncate opts" and run: "file_open_at dir path opts S = (r, S')"
  shows "case r of
      Ok f \<Rightarrow> \<exists>s. same_refs S (S\<lparr>vfs := s\<rparr>) \<and> nodes s (node_of f) \<noteq> None \<and> S' = S\<lparr>vfs := hold (node_of f) s\<rparr> \<and> file_offset f = 0
    | _ \<Rightarrow> same_refs S S'"
proof (cases "is_valid opts")
  case False
  then show ?thesis using run same_refs_refl [OF ok] by (auto simp: file_open_at_def)
next
  case True
  obtain r1 S1 where o: "open_node dir path opts S = (r1, S1)" by (cases "open_node dir path opts S")
  then have sr: "same_refs S S1" using same_refs_open_node [OF ok] by blast
  then obtain s where s: "S1 = S\<lparr>vfs := s\<rparr>" "vfs_ok s" by (auto simp: same_refs_def)
  show ?thesis
  proof (cases r1)
    case (Ok node)
    show ?thesis
    proof (cases "nodes s node")
      case None
      then have "r = Panic" "S' = S1" using run True o Ok s(1) by (auto simp: file_open_at_def and_then_def pure_res_def vfs_get_attr_def)
      then show ?thesis using sr by simp
    next
      case (Some n)
      then have "(\<exists>e. r = Err e \<and> S' = S1) \<or> (\<exists>f. r = Ok f \<and> node_of f = node \<and> file_offset f = 0 \<and> S' = S1\<lparr>vfs := hold node (vfs S1)\<rparr>)"
        using run True o Ok s(1) assms(2) by (auto simp: file_open_at_def and_then_def pure_res_def vfs_get_attr_def split: if_splits)
      then show ?thesis using sr s Some by (auto intro!: exI [of _ s])
    qed
  qed (use run True o sr in \<open>auto simp: file_open_at_def and_then_def\<close>)
qed

lemma new_dir_frame: "fs_ok S \<Longrightarrow> new_dir p S = (r, S') \<Longrightarrow> same_refs S S' \<and> (\<forall>f. r = Ok f \<longrightarrow> f = DirIO p)"
  using same_refs_create_dir [of S None p] same_refs_refl [of S]
  by (auto simp: new_dir_def and_then_def DirBuilder_create_def split: result.splits prod.splits if_splits)

definition links_grow :: "string \<Rightarrow> 'r LinkFs \<Rightarrow> 'r LinkFs \<Rightarrow> bool" where
  "links_grow p L L' \<longleftrightarrow> (\<forall>x. map_of (link_path_map L') x = map_of (link_path_map L) x \<or>
     x = p \<and> map_of (link_path_map L) x = None \<and> map_of (link_path_map L') x = Some p)"

lemma create_self_link:
  assumes "self_links L" and "create_link p p L = (r, L')"
  shows "self_links L' \<and> lk_fs L' = lk_fs L \<and> links_grow p L L'"
proof -
  have ok: "links_ok L" using assms(1) by (simp add: self_links_def)
  have bt: "bt_ok (link_path_map L)" using ok by (simp add: links_ok_def)
  have new: "self_links (snd (insert_link p p L))" if "map_of (link_path_map L) p = None"
    using assms(1) insert_link_ok [OF ok that, of p] bt by (auto simp: self_links_def insert_link_def map_of_bt_insert)
  have same: "d = p" if "map_of (link_path_map L) p = Some d" for d using assms(1) that by (auto simp: self_links_def)
  show ?thesis
    using assms new same bt
    by (auto simp: create_link_def path_exists_def insert_link_def links_grow_def map_of_bt_insert
        split: if_splits result.splits bool.splits option.splits)
qed

lemma new_inode_ok:
  assumes ok: "inodes_ok m"
  shows "inodes_ok (new_inode p m)"
proof (cases "map_of m p")
  case None
  have m: "mset (bt_insert p v m) = add_mset (p, v) (mset m)" for v
    using None by (induction m) auto
  have l: "length (bt_insert p v m) = Suc (length m)" for v using m [of v] by (metis size_add_mset size_mset)
  have "image_mset snd (mset (bt_insert p v m)) = add_mset v (image_mset snd (mset m))" for v by (simp add: m)
  then have "mset (map snd (bt_insert p v m)) = add_mset v (mset (map snd m))" for v by simp
  then show ?thesis using ok None bt_insert_ok [of m p] by (simp add: inodes_ok_def new_inode_def l)
qed (use ok in \<open>simp add: new_inode_def\<close>)

lemma alloc_fd_ok:
  assumes "sys_ok K" and run: "alloc_fd (k_fds K) = (r, m)"
  shows "sys_ok (record_inode p (K\<lparr>k_fds := m\<rparr>)) \<and> sys_ok (K\<lparr>k_fds := m\<rparr>) \<and>
    (\<forall>i. r = Ok i \<longrightarrow> i < length (fd_table m) \<and> fd_table m ! i = None \<and> (\<forall>j < i. fd_table m ! j \<noteq> None) \<and>
       length (k_table K) \<le> length (fd_table m) \<and> (\<forall>j < length (k_table K). fd_table m ! j = k_table K ! j)) \<and>
    r \<noteq> Panic \<and> r \<noteq> Diverge \<and> fd_limit m = fd_limit (k_fds K) \<and> (\<forall>e. r = Err e \<longrightarrow> m = k_fds K)"
proof -
  have "open_nodes (fd_table m) = open_nodes (k_table K)" "fd_limit m = fd_limit (k_fds K)" "r \<noteq> Panic" "r \<noteq> Diverge"
      "length (k_table K) \<le> length (fd_table m)" "\<forall>e. r = Err e \<longrightarrow> m = k_fds K"
    using run by (auto simp: alloc_fd_def split: option.splits if_splits)
  moreover have "length (fd_table m) \<le> unat (fd_limit (k_fds K))"
    using run assms(1) by (auto simp: alloc_fd_def sys_ok_def split: option.splits if_splits)
  ultimately show ?thesis
    using assms new_inode_ok alloc_fd_lowest [of "k_fds K" _ m] by (auto simp: sys_ok_def record_inode_def)
qed

lemma new_slot_ok:
  assumes ok: "sys_ok K" and fd: "fd < length (k_table K)" "k_table K ! fd = None"
    and h: "fs_holds (io_nodes (Some f) @ open_nodes (k_table K)) S" and L: "self_links L" "lk_fs L = S"
  shows "sys_ok (set_slot fd (Some f) (K\<lparr>k_links := L\<rparr>)) \<and> other_slots fd K (set_slot fd (Some f) (K\<lparr>k_links := L\<rparr>))"
proof -
  have "mset (open_nodes ((k_table K)[fd := Some f])) = mset (io_nodes (Some f) @ open_nodes (k_table K))"
    using open_nodes_update [OF fd(1), of "Some f"] by (simp add: fd(2))
  then have "fs_holds (open_nodes ((k_table K)[fd := Some f])) S" using h fs_holds_perm by blast
  then show ?thesis using ok L fd(1) by (auto simp: sys_ok_def other_slots_def)
qed

text \<open>
  What \<open>openat\<close> does: the new descriptor is the lowest free slot; for a file it holds the opened file with its
  cursor at the start, and the node of the file has one more reference.
\<close>

definition opened :: "string \<Rightarrow> u32 \<Rightarrow> nat \<Rightarrow> 'r SysState \<Rightarrow> 'r SysState \<Rightarrow> bool" where
  "opened p fl fd K K' \<longleftrightarrow> fd < length (k_table K') \<and>
     (if fp_is_dir p then k_table K' ! fd = Some (DirIO p)
      else \<exists>f S. new_file p fl (k_fs K) = (Ok f, S) \<and> k_fs K' = S \<and> links_grow p (k_links K) (k_links K') \<and> k_table K' ! fd = Some (FileIO (FileDesc_new p f fl)))"

lemma open_path_ok:
  assumes ok: "sys_ok K" and fd: "fd < length (k_table K)" "k_table K ! fd = None" and run: "open_path p fl fd K = (r, K')"
  shows "sys_ok K' \<and> other_slots fd K K' \<and> (\<forall>n. r = Ok n \<longrightarrow> n = fd \<and> opened p fl fd K K')"
proof (cases "fp_is_dir p")
  case True
  obtain r1 S where d: "new_dir p (k_fs K) = (r1, S)" by (cases "new_dir p (k_fs K)")
  note fr = new_dir_frame [OF sys_ok_fs [OF ok] d]
  have K1: "sys_ok (set_fs S K)" using sys_ok_set_fs [OF ok] fr by blast
  show ?thesis
  proof (cases r1)
    case (Ok f)
    then have f: "f = DirIO p" using fr by simp
    have "K' = set_slot fd (Some f) (set_fs S K)" "r = Ok fd" using run True d Ok by (simp_all add: open_path_def on_fs_def)
    moreover have "sys_ok (set_slot fd (Some f) (set_fs S K))"
      using K1 new_slot_ok [of "set_fs S K" fd f S "k_links (set_fs S K)"] fd by (simp add: f sys_ok_def)
    ultimately show ?thesis using True fd by (simp add: f opened_def other_slots_def)
  qed (use run True d K1 in \<open>auto simp: open_path_def on_fs_def other_slots_def\<close>)
next
  case False
  obtain r1 S where o: "new_file p fl (k_fs K) = (r1, S)" by (cases "new_file p fl (k_fs K)")
  note fr = file_open_frame [OF sys_ok_fs [OF ok] _ o [unfolded new_file_def file_open_def]]
  show ?thesis
  proof (cases r1)
    case (Ok f)
    obtain s where s: "same_refs (k_fs K) ((k_fs K)\<lparr>vfs := s\<rparr>)" "nodes s (node_of f) \<noteq> None" "S = (k_fs K)\<lparr>vfs := hold (node_of f) s\<rparr>"
      using fr Ok by (auto simp: OpenOptions_new_def)
    define x where "x = FileIO (FileDesc_new p f fl)"
    have io: "io_nodes (Some x) = [node_of f]" by (simp add: x_def FileDesc_new_def)
    have h: "fs_holds (io_nodes (Some x) @ open_nodes (k_table K)) S"
      using fs_holds_hold [of "open_nodes (k_table K)" "(k_fs K)\<lparr>vfs := s\<rparr>" "node_of f"] same_refs_holds [OF s(1)] ok s(2)
      by (simp add: io s(3) sys_ok_def)
    obtain rl L where l: "create_link p p (k_links (set_fs S K)) = (rl, L)" by (cases "create_link p p (k_links (set_fs S K))")
    have L: "self_links L" "lk_fs L = S" using create_self_link [OF _ l] ok by (auto simp: sys_ok_def)
    have grow: "links_grow p (k_links K) L" using create_self_link [OF _ l] ok by (simp add: sys_ok_def set_fs_def links_grow_def)
    have n: "on_fs (new_fd p fl) K = (Ok x, set_fs S K)" using o Ok by (simp add: on_fs_def new_fd_def and_then_def x_def)
    have "K' = set_slot fd (Some x) ((set_fs S K)\<lparr>k_links := L\<rparr>)" and r: "\<forall>n. r = Ok n \<longrightarrow> n = fd"
      using run False n l by (auto simp: open_path_def split: result.splits)
    then have K': "K' = set_slot fd (Some x) (K\<lparr>k_links := L\<rparr>)" by (simp add: set_fs_def)
    have "opened p fl fd K K'" using False fd(1) o Ok L(2) grow by (simp add: opened_def K' x_def)
    then show ?thesis using r new_slot_ok [OF ok fd h L] unfolding K' by blast
  next
    case (Err e)
    then show ?thesis using run False o fr sys_ok_set_fs [OF ok]
      by (auto simp: open_path_def on_fs_def new_fd_def and_then_def other_slots_def OpenOptions_new_def)
  next
    case Panic
    then show ?thesis using run False o fr sys_ok_set_fs [OF ok]
      by (auto simp: open_path_def on_fs_def new_fd_def and_then_def other_slots_def OpenOptions_new_def)
  next
    case Diverge
    then show ?thesis using run False o fr sys_ok_set_fs [OF ok]
      by (auto simp: open_path_def on_fs_def new_fd_def and_then_def other_slots_def OpenOptions_new_def)
  qed
qed

lemma syscall_openat_ok:
  assumes ok: "sys_ok K" and run: "syscall_openat fd path flags K = (r, K')"
  shows "sys_ok K' \<and> (\<forall>j < length (k_table K). k_table K ! j \<noteq> None \<longrightarrow> k_table K' ! j = k_table K ! j) \<and> length (k_table K) \<le> length (k_table K') \<and>
    (\<forall>n. r = Ok n \<longrightarrow> (\<exists>p. deal_with_path io_get_path io_is_dir (k_table K) fd path (flags_is_dir (OpenFlags_from flags)) (k_links K) = Ok (Some p) \<and>
       (n < length (k_table K) \<longrightarrow> k_table K ! n = None) \<and> (\<forall>j < n. j < length (k_table K) \<and> k_table K ! j \<noteq> None) \<and>
       opened p (OpenFlags_from flags) n K K'))"
proof (cases "\<exists>p. deal_with_path io_get_path io_is_dir (k_table K) fd path (flags_is_dir (OpenFlags_from flags)) (k_links K) = Ok (Some p)")
  case True
  then obtain p where p: "deal_with_path io_get_path io_is_dir (k_table K) fd path (flags_is_dir (OpenFlags_from flags)) (k_links K) = Ok (Some p)"
    by blast
  obtain ra m where a: "alloc_fd (k_fds K) = (ra, m)" by (cases "alloc_fd (k_fds K)")
  note al = alloc_fd_ok [OF ok a]
  show ?thesis
  proof (cases ra)
    case (Ok i)
    let ?K = "record_inode p (K\<lparr>k_fds := m\<rparr>)"
    have i: "i < length (fd_table m)" "fd_table m ! i = None" "\<forall>j < i. fd_table m ! j \<noteq> None" "length (k_table K) \<le> length (fd_table m)"
        "\<forall>j < length (k_table K). fd_table m ! j = k_table K ! j" using al Ok by auto
    have t: "k_table ?K = fd_table m" "k_fs ?K = k_fs K" by (simp_all add: record_inode_def)
    have len: "length (fd_table m) \<le> Suc (length (k_table K))" "i = length (k_table K) \<or> length (fd_table m) = length (k_table K)"
      using a Ok by (auto simp: alloc_fd_def split: option.splits if_splits)
    have run': "open_path p (OpenFlags_from flags) i ?K = (r, K')" using run p a Ok by (simp add: syscall_openat_def)
    note o = open_path_ok [OF conjunct1 [OF al] _ _ run', unfolded t, OF i(1,2)]
    have opd: "opened p fl n ?K K' = opened p fl n K K'" for fl n by (simp add: opened_def t(2)) (simp add: record_inode_def)
    show ?thesis
    proof (intro conjI allI impI)
      show "sys_ok K'" using o by blast
      show "length (k_table K) \<le> length (k_table K')" using o i(4) t(1) by (auto simp: other_slots_def)
      show "k_table K' ! j = k_table K ! j" if "j < length (k_table K)" "k_table K ! j \<noteq> None" for j
      proof -
        have "j \<noteq> i" using i(2,5) that by auto
        then have "k_table K' ! j = fd_table m ! j" using o i(4) that(1) t(1) by (simp add: other_slots_def)
        then show ?thesis using i(5) that(1) by simp
      qed
      show "\<exists>p. deal_with_path io_get_path io_is_dir (k_table K) fd path (flags_is_dir (OpenFlags_from flags)) (k_links K) = Ok (Some p) \<and>
       (n < length (k_table K) \<longrightarrow> k_table K ! n = None) \<and> (\<forall>j < n. j < length (k_table K) \<and> k_table K ! j \<noteq> None) \<and>
       opened p (OpenFlags_from flags) n K K'" if "r = Ok n" for n
        using o that p i len opd by auto
    qed
  qed (use run p a al ok in \<open>auto simp: syscall_openat_def\<close>)
qed (use assms in \<open>auto simp: syscall_openat_def Let_def split: result.splits option.splits\<close>)

subsection \<open>Sequences of system calls\<close>

inductive sys_step :: "'r SysState \<Rightarrow> 'r SysState \<Rightarrow> bool" where
  openat: "syscall_openat fd path flags K = (r, K') \<Longrightarrow> sys_step K K'"
| close: "syscall_close fd K = (r, K') \<Longrightarrow> sys_step K K'"
| read: "syscall_read rand fd b K = (x, K') \<Longrightarrow> sys_step K K'"
| write_call: "syscall_write fd b K = (r, K') \<Longrightarrow> sys_step K K'"

lemma sys_step_ok: "sys_step K K' \<Longrightarrow> sys_ok K \<Longrightarrow> sys_ok K'"
  by (induction rule: sys_step.induct) (auto dest: syscall_openat_ok syscall_close_ok syscall_read_ok syscall_write_ok)

text \<open>A process starts with the console in the first three slots.\<close>

definition sys_start :: "'r Fs \<Rightarrow> Console \<Rightarrow> usize \<Rightarrow> 'r SysState" where
  "sys_start S C limit = \<lparr>k_links = no_links S, k_fds = fd_new [Some (StdinIO 0), Some (StdoutIO 0), Some (StderrIO 0)] limit,
     k_inodes = [], k_console = C\<rparr>"

lemma sys_start_ok: "fs_ok S \<Longrightarrow> 3 \<le> unat limit \<Longrightarrow> sys_ok (sys_start S C limit)"
  using no_links_ok [of S]
  by (simp add: sys_ok_def sys_start_def fs_holds_def fs_ok_def self_links_def inodes_ok_def bt_ok_def fd_new_def) (simp add: no_links_def)

lemma inodes_distinct:
  assumes "inodes_ok m" and len: "length m < 2 ^ 64"
  shows "distinct (map snd m)"
proof -
  have "inj_on (of_nat :: nat \<Rightarrow> u64) {1..<Suc (length m)}"
  proof (rule inj_onI)
    fix x y :: nat assume x: "x \<in> {1..<Suc (length m)}" and y: "y \<in> {1..<Suc (length m)}" and e: "(of_nat x :: u64) = of_nat y"
    have "unat (of_nat x :: u64) = x" using x len by (intro unat_of_nat_64) simp
    moreover have "unat (of_nat y :: u64) = y" using y len by (intro unat_of_nat_64) simp
    ultimately show "x = y" using e by metis
  qed
  then have "distinct (map (of_nat :: nat \<Rightarrow> u64) [1..<Suc (length m)])" by (simp add: distinct_map del: upt_Suc)
  then show ?thesis using assms(1) unfolding inodes_ok_def by (metis mset_eq_imp_distinct_iff)
qed


subsection \<open>Writing\<close>

lemma fops_write_bytes:
  assumes c: "file_bytes (f, S) = Some c" and wr: "file_writable f" and na: "\<not> is_append f"
    and b: "unat (file_offset f) + length buf < 2 ^ 63"
  shows "fops_write buf (f, S) = (Ok (length buf), (f\<lparr>file_offset := file_offset f + of_nat (length buf)\<rparr>,
    S\<lparr>vfs := set_node (node_of f) (RamFile (written (unat (file_offset f)) buf c)) (vfs S)\<rparr>))"
proof -
  have "access (file_node f) CAP_WRITE = Ok (node_of f)" using wr by (simp add: file_writable_def access_def)
  moreover have "nodes (vfs S) (node_of f) = Some (RamFile c)" using c by (simp add: file_bytes_Some)
  ultimately show ?thesis
    using na by (simp add: fops_write_def in_fs_def pure_res_def and_then_def on_vfs_def vfs_write_at_def
        file_write_at_bytes [OF b] written_def)
qed

lemma seek_here: "file_bytes (f, S) = Some c \<Longrightarrow> fops_seek (SeekCurrent 0) (f, S) = (Ok (file_offset f), (f, S))"
  using fops_seek_run(2) [of f S c 0] by simp

lemma desc_size_run: "file_bytes (f, S) = Some c \<Longrightarrow> desc_size (f, S) = (Ok (of_nat (length c)), (f, S))"
  by (simp add: desc_size_def fops_get_attr_def vfs_get_attr_def file_bytes_Some attr_new_file_def)

lemma desc_write_run:
  assumes c: "file_bytes (f, S) = Some c" and wr: "file_writable f" and na: "\<not> is_append f"
    and b: "unat (file_offset f) + length buf < 2 ^ 63" and len: "length c < 2 ^ 63"
  shows "desc_write buf (f, S) = fops_write buf (f, S) \<and>
    fops_write buf (f, S) = (Ok (length buf), (f\<lparr>file_offset := file_offset f + of_nat (length buf)\<rparr>,
      S\<lparr>vfs := set_node (node_of f) (RamFile (written (unat (file_offset f)) buf c)) (vfs S)\<rparr>))"
proof (cases "of_nat (length c) < file_offset f")
  case False
  then show ?thesis
    by (simp add: desc_write_def and_then_def unwrap_act_def seek_here [OF c] desc_size_run [OF c] fill_gap_def fops_write_bytes [OF c wr na b])
next
  case True
  let ?sz = "of_nat (length c) :: u64" and ?gap = "unat (file_offset f) - length c"
  have u: "unat ?sz = length c" using len by (intro unat_of_nat_64) simp
  then have gap: "unat (file_offset f - ?sz) = ?gap" "length c < unat (file_offset f)"
    using True by (simp_all add: unat_sub_no_underflow word_less_nat_alt)
  let ?f1 = "f\<lparr>file_offset := ?sz\<rparr>" and ?c1 = "c @ replicate ?gap 0"
  let ?S1 = "S\<lparr>vfs := set_node (node_of f) (RamFile ?c1) (vfs S)\<rparr>"
  have c1: "file_bytes (?f1, S) = Some c" using c by (simp add: file_bytes_Some)
  have w1: "fops_write (replicate ?gap 0) (?f1, S) = (Ok ?gap, (f, ?S1))"
  proof -
    have "file_offset f = of_nat (length c + ?gap)" using gap(2) by simp
    then have "?sz + of_nat ?gap = file_offset f" by simp
    moreover have "written (unat ?sz) (replicate ?gap 0) c = ?c1" by (simp add: written_def u)
    ultimately show ?thesis
      using fops_write_bytes [OF c1, of "replicate ?gap 0"] wr na b gap(2) by (simp add: file_writable_def u)
  qed
  have c2: "file_bytes (f, ?S1) = Some ?c1" by (simp add: file_bytes_Some set_node_def)
  have w2: "fops_write buf (f, ?S1) = fops_write buf (f, S)"
    using gap(2) unfolding fops_write_bytes [OF c wr na b] fops_write_bytes [OF c2 wr na b] by (simp add: written_def)
  have "\<not> 0x8000000000000000 \<le> file_offset f - ?sz" using gap b by (simp add: word_le_nat_alt)
  then have "fill_gap (file_offset f) ?sz (f, S) = (Ok (), (f, ?S1))"
    using True w1 by (simp add: fill_gap_def and_then_def unwrap_act_def fops_seek_run(1) [OF c] gap(1))
  then have "desc_write buf (f, S) = fops_write buf (f, ?S1)"
    by (simp add: desc_write_def and_then_def unwrap_act_def seek_here [OF c] desc_size_run [OF c])
  then show ?thesis using w2 fops_write_bytes [OF c wr na b] by simp
qed


subsection \<open>From one descriptor to the next\<close>

text \<open>A path resolves as before when only links from a path to itself have been added.\<close>

lemma real_path_grow:
  assumes "self_links L" and "links_grow q L L'" and "real_path s L = q"
  shows "real_path s L' = q"
proof (cases "map_of (link_path_map L) s")
  case None
  then have "map_of (link_path_map L') s = None \<or> map_of (link_path_map L') s = Some q" using assms(2) unfolding links_grow_def by metis
  then show ?thesis using None assms(3) by (auto simp: real_path_def)
next
  case (Some d)
  then have "map_of (link_path_map L') s = Some d" using assms(2) unfolding links_grow_def by (metis option.distinct(1))
  then show ?thesis using Some assms(3) by (simp add: real_path_def)
qed

lemma deal_with_path_grow:
  assumes "self_links L" and "links_grow q L L'" and "current_dir_path (lk_fs L') = current_dir_path (lk_fs L)"
    and "deal_with_path g i t AT_FDCWD (UserStr p) fd L = Ok (Some q)"
  shows "deal_with_path g i t' AT_FDCWD (UserStr p) fd L' = Ok (Some q)"
proof -
  have "absolute_path x (lk_fs L') = absolute_path x (lk_fs L)" for x using assms(3) by (simp add: absolute_path_def)
  then have "FilePath_new x L = Ok q \<Longrightarrow> FilePath_new x L' = Ok q" for x
    using real_path_grow [OF assms(1,2)] by (auto simp: FilePath_new_def Let_def split: result.splits)
  then show ?thesis using assms(4) by (auto simp: deal_with_path_def Let_def split: if_splits result.splits)
qed

lemma new_fileE:
  assumes ok: "fs_ok S" and run: "new_file q fl S = (Ok f, S')"
  obtains a T n where "fs_ok T" "fs_lookup None q T = Ok a" "nodes (vfs T) a = Some n" "S' = T\<lparr>vfs := hold a (vfs T)\<rparr>"
    "node_of f = a" "\<not> is_append f" "file_offset f = 0" "file_writable f = flags_writable fl" "same_refs S T"
    "\<And>b. fs_lookup None q S = Ok b \<Longrightarrow> T = S"
proof -
  let ?opts = "OpenOptions_new\<lparr>opt_read := flags_readable fl, opt_write := flags_writable fl, opt_create := flags_creatable fl,
    opt_create_new := flags_new_creatable fl\<rparr>"
  have nt: "\<not> opt_truncate ?opts" "\<not> opt_append ?opts" by (simp_all add: OpenOptions_new_def)
  have r: "file_open_at None q ?opts S = (Ok f, S')" using run by (simp add: new_file_def file_open_def)
  then obtain a T where o: "open_node None q ?opts S = (Ok a, T)" and v: "is_valid ?opts"
    by (auto simp: file_open_at_def and_then_def split: if_splits prod.splits result.splits)
  obtain n where n: "nodes (vfs T) a = Some n" and S': "S' = T\<lparr>vfs := hold a (vfs T)\<rparr>" "node_of f = a" "\<not> is_append f" "file_offset f = 0"
      "wc_cap (file_node f) = opts_cap ?opts"
    using r v o nt by (cases "nodes (vfs T) a") (auto simp: file_open_at_def and_then_def pure_res_def vfs_get_attr_def split: if_splits)
  have "T = S" if "fs_lookup None q S = Ok b" for b
    using o that by (auto simp: open_node_def split: if_splits)
  moreover have "file_writable f = flags_writable fl" using S'(5) nt(2) by (simp add: file_writable_def can_access_def)
  ultimately show thesis using that open_node_ok [OF ok o] open_node_lookup [OF o] n S' same_refs_open_node [OF ok o] by blast
qed

lemma fops_read_start:
  assumes c: "file_bytes (f, S) = Some c" and "file_offset f = 0" and run: "fops_read rand buf (f, S) = (Ok (n, out), fS)" and "length buf < 2 ^ 63"
  shows "n = min (length buf) (length c) \<and> take n out = take n c"
proof -
  have "file_read_at 0 buf c = Ok (length (take (length buf) c), take (length buf) c @ drop (length (take (length buf) c)) buf)"
    using file_read_at_bytes [of 0 buf c] assms(4) by simp
  then show ?thesis using run c assms(2)
    by (auto simp: fops_read_def fops_read_at_def in_fs_def and_then_def pure_res_def access_def on_vfs_def vfs_read_at_def file_bytes_Some min.commute
        split: if_splits)
qed

text \<open>Writing at the start of a file through a descriptor, and closing it.\<close>

lemma write_slot:
  assumes ok: "sys_ok K" and s: "get_slot fd K = Some (FileIO d)" and c: "file_bytes (fd_file d, k_fs K) = Some c" "length c < 2 ^ 63"
    and w: "file_writable (fd_file d)" and f: "\<not> is_append (fd_file d)" "unat (file_offset (fd_file d)) + length buf < 2 ^ 63"
    and run: "syscall_write fd (UserBuf buf) K = (Ok n, K')"
  shows "n = length buf \<and> k_links K' = (k_links K)\<lparr>lk_fs := (k_fs K)\<lparr>vfs :=
      set_node (node_of (fd_file d)) (RamFile (written (unat (file_offset (fd_file d))) buf c)) (vfs (k_fs K))\<rparr>\<rparr> \<and>
    (\<exists>p. get_slot fd K' = Some (FileIO (d\<lparr>fd_file := (fd_file d)\<lparr>file_offset := p\<rparr>\<rparr>)))"
proof -
  have sl: "unat fd < length (k_table K)" "k_table K ! unat fd = Some (FileIO d)" using get_slot_Some [OF s] by simp_all
  have io: "io_write (unat fd) (FileIO d) buf K = on_file (unat fd) d (desc_write buf) K" by (simp add: io_write_def)
  have r: "on_file (unat fd) d (desc_write buf) K = (Ok n, K')"
    using run s by (auto simp: syscall_write_def io split: prod.splits)
  show ?thesis
    using r desc_write_run [OF c(1) w f c(2)] sl by (auto simp: on_file_def get_slot_def) (simp_all add: set_fs_def)
qed

lemma fd_word:
  assumes "sys_ok K" and "fd < length (k_table K)"
  shows "unat (of_nat fd :: usize) = fd"
proof -
  have "fd < unat (fd_limit (k_fds K))" using assms by (simp add: sys_ok_def)
  also have "\<dots> < 2 ^ 64" using unsigned_less [of "fd_limit (k_fds K)"] by simp
  finally show ?thesis by (rule unat_of_nat_64)
qed

lemma write_then_close:
  assumes ok: "sys_ok K" and open1: "syscall_openat AT_FDCWD (UserStr p) flags K = (Ok fd, K1)"
    and d: "get_slot (of_nat fd) K1 = Some (FileIO d)" "file_bytes (fd_file d, k_fs K1) = Some c"
    and wr: "flags_writable (OpenFlags_from flags)" "syscall_write (of_nat fd) (UserBuf buf) K1 = (Ok n, K2)"
    and cl: "syscall_close (of_nat fd) K2 = (Ok z, K3)" and len: "length c < 2 ^ 63" "length buf < 2 ^ 63"
  obtains q a T where "deal_with_path io_get_path io_is_dir (k_table K3) AT_FDCWD (UserStr p) (flags_is_dir (OpenFlags_from flags)) (k_links K3) = Ok (Some q)"
    "\<not> fp_is_dir q" "sys_ok K3" "k_table K3 ! fd = None" "\<forall>j < fd. j < length (k_table K3) \<and> k_table K3 ! j \<noteq> None" "n = length buf"
    "fs_lookup None q (k_fs K3) = Ok a" "k_fs K3 = T\<lparr>vfs := set_node a (RamFile (buf @ drop (length buf) c)) (vfs T)\<rparr>" "fd < length (k_table K3)"
proof -
  obtain q where q: "deal_with_path io_get_path io_is_dir (k_table K) AT_FDCWD (UserStr p) (flags_is_dir (OpenFlags_from flags)) (k_links K) = Ok (Some q)"
    and low: "fd < length (k_table K) \<longrightarrow> k_table K ! fd = None" "\<forall>j < fd. j < length (k_table K) \<and> k_table K ! j \<noteq> None"
    and op: "opened q (OpenFlags_from flags) fd K K1" and ok1: "sys_ok K1"
    and keep1: "\<forall>j < length (k_table K). k_table K ! j \<noteq> None \<longrightarrow> k_table K1 ! j = k_table K ! j" "length (k_table K) \<le> length (k_table K1)"
    using syscall_openat_ok [OF ok open1] by blast
  have fd: "fd < length (k_table K1)" using op by (simp add: opened_def)
  then have w: "unat (of_nat fd :: usize) = fd" using fd_word ok1 by blast
  have slot: "k_table K1 ! fd = Some (FileIO d)" using get_slot_Some [OF d(1)] w by simp
  then have reg: "\<not> fp_is_dir q" using op by (auto simp: opened_def split: if_splits)
  then obtain f where nf: "new_file q (OpenFlags_from flags) (k_fs K) = (Ok f, k_fs K1)" and grow: "links_grow q (k_links K) (k_links K1)"
    and df: "d = FileDesc_new q f (OpenFlags_from flags)" using op slot by (auto simp: opened_def)
  obtain a T x where T: "fs_ok T" "fs_lookup None q T = Ok a" "nodes (vfs T) a = Some x" "k_fs K1 = T\<lparr>vfs := hold a (vfs T)\<rparr>"
      "node_of f = a" "\<not> is_append f" "file_offset f = 0" "file_writable f = flags_writable (OpenFlags_from flags)" "same_refs (k_fs K) T"
    using new_fileE [OF sys_ok_fs [OF ok] nf] by metis
  have ff: "fd_file d = f" by (simp add: df FileDesc_new_def)
  have x: "x = RamFile c" using d(2) T(3,4,5) by (simp add: ff file_bytes_Some hold_def)
  let ?c = "buf @ drop (length buf) c" and ?T = "T\<lparr>vfs := set_node a (RamFile (buf @ drop (length buf) c)) (vfs T)\<rparr>"
  have W: "n = length buf" "k_links K2 = (k_links K1)\<lparr>lk_fs := (k_fs K1)\<lparr>vfs := set_node a (RamFile ?c) (vfs (k_fs K1))\<rparr>\<rparr>"
      "\<exists>p. get_slot (of_nat fd) K2 = Some (FileIO (d\<lparr>fd_file := f\<lparr>file_offset := p\<rparr>\<rparr>))"
    using write_slot [OF ok1 d(1,2) len(1) _ _ _ wr(2)] T(5-8) wr(1) len(2) by (simp_all add: ff written_def)
  have ok2: "sys_ok K2" and keep2: "other_slots fd K1 K2" using syscall_write_ok [OF ok1 wr(2)] w by simp_all
  have ok3: "sys_ok K3" and keep3: "other_slots fd K2 K3" using syscall_close_ok [OF ok2 cl] w by simp_all
  obtain p' where s2: "get_slot (of_nat fd) K2 = Some (FileIO (d\<lparr>fd_file := f\<lparr>file_offset := p'\<rparr>\<rparr>))" using W(3) by blast
  have K3: "k_fs K3 = (k_fs K2)\<lparr>vfs := release a (vfs (k_fs K2))\<rparr>" "k_table K3 ! fd = None" "link_path_map (k_links K3) = link_path_map (k_links K2)"
    using cl get_slot_Some [OF s2] w T(5) by (auto simp: syscall_close_def drop_io_def file_drop_def) (simp add: set_fs_def set_slot_def)
  have "Vfs.linked a (vfs T)" using fs_lookup_linked [OF T(1-3)] by (simp add: x)
  then have "Vfs.linked a (set_node a (RamFile ?c) (vfs T))" using linked_set_file [OF T(3)] by (simp add: x)
  then have fs3: "k_fs K3 = ?T" using K3(1) T(4) W(2) by (simp add: release_hold)
  have "links_grow q (k_links K) (k_links K3)" using grow K3(3) W(2) by (simp add: links_grow_def)
  moreover have "current_dir_path (k_fs K3) = current_dir_path (k_fs K)" using same_refs_path [OF T(9)] by (simp add: fs3)
  ultimately have q3: "deal_with_path io_get_path io_is_dir (k_table K3) AT_FDCWD (UserStr p) (flags_is_dir (OpenFlags_from flags)) (k_links K3) = Ok (Some q)"
    using deal_with_path_grow q ok unfolding sys_ok_def by blast
  have "k_table K3 ! j \<noteq> None \<and> j < length (k_table K3)" if "j < fd" for j
    using that low(2) keep1 keep2 keep3 by (auto simp: other_slots_def)
  moreover have "fs_lookup None q ?T = Ok a" using fs_lookup_same [OF same_tree_set_file [OF T(3)]] T(2) by (simp add: x)
  moreover have "fd < length (k_table K3)" using fd keep2 keep3 by (simp add: other_slots_def)
  ultimately show thesis using that [OF q3 reg ok3 K3(2) _ W(1) _ fs3] by (simp add: fs3)
qed

text \<open>
  C21: What a process writes to a file it has opened is what it reads after it has closed the file and opened the
  same path again: the descriptor is the same, the write takes all the bytes, and the read gives them back,
  followed by what the file held behind them before, since no flag of \<open>openat\<close> truncates a file.
\<close>

theorem write_close_open_read:
  assumes ok: "sys_ok K" and open1: "syscall_openat AT_FDCWD (UserStr p) flags K = (Ok fd, K1)"
    and d: "get_slot (of_nat fd) K1 = Some (FileIO d)" "file_bytes (fd_file d, k_fs K1) = Some c"
    and wr: "flags_writable (OpenFlags_from flags)" "syscall_write (of_nat fd) (UserBuf buf) K1 = (Ok n, K2)"
    and cl: "syscall_close (of_nat fd) K2 = (Ok z, K3)"
    and open2: "syscall_openat AT_FDCWD (UserStr p) flags' K3 = (Ok fd', K4)" "flags_is_dir (OpenFlags_from flags') = flags_is_dir (OpenFlags_from flags)"
    and rd: "syscall_read rand (of_nat fd') (UserBuf buf') K4 = (Ok (m, out), K5)"
    and len: "length c < 2 ^ 63" "length buf < 2 ^ 63" "length buf' < 2 ^ 63"
  shows "fd' = fd \<and> n = length buf \<and> m = min (length buf') (length (buf @ drop (length buf) c)) \<and> take m out = take m (buf @ drop (length buf) c)"
proof -
  obtain q a T where q: "deal_with_path io_get_path io_is_dir (k_table K3) AT_FDCWD (UserStr p) (flags_is_dir (OpenFlags_from flags)) (k_links K3) = Ok (Some q)"
      "\<not> fp_is_dir q" "sys_ok K3" "k_table K3 ! fd = None" "\<forall>j < fd. j < length (k_table K3) \<and> k_table K3 ! j \<noteq> None" "n = length buf"
      and l: "fs_lookup None q (k_fs K3) = Ok a" and fs3: "k_fs K3 = T\<lparr>vfs := set_node a (RamFile (buf @ drop (length buf) c)) (vfs T)\<rparr>"
      and fd: "fd < length (k_table K3)"
    using write_then_close [OF ok open1 d wr cl len(1,2)] by metis
  have low: "fd' < length (k_table K3) \<longrightarrow> k_table K3 ! fd' = None" "\<forall>j < fd'. j < length (k_table K3) \<and> k_table K3 ! j \<noteq> None"
    and op: "opened q (OpenFlags_from flags') fd' K3 K4" and ok4: "sys_ok K4"
    using syscall_openat_ok [OF q(3) open2(1)] q(1) unfolding open2(2) by auto
  have same: "fd' = fd" using low q(4,5) by (meson linorder_neqE_nat)
  obtain g where g: "new_file q (OpenFlags_from flags') (k_fs K3) = (Ok g, k_fs K4)" "k_table K4 ! fd = Some (FileIO (FileDesc_new q g (OpenFlags_from flags')))"
    using op q(2) by (auto simp: opened_def same)
  obtain b T' where G: "fs_lookup None q T' = Ok b" "k_fs K4 = T'\<lparr>vfs := hold b (vfs T')\<rparr>" "node_of g = b" "file_offset g = 0"
      "\<And>b. fs_lookup None q (k_fs K3) = Ok b \<Longrightarrow> T' = k_fs K3"
    using new_fileE [OF sys_ok_fs [OF q(3)] g(1)] by metis
  have "T' = k_fs K3" using G(5) l by blast
  then have cg: "file_bytes (g, k_fs K4) = Some (buf @ drop (length buf) c)"
    using G(1-3) l by (simp add: fs3 file_bytes_Some hold_def set_node_def)
  have fd4: "fd < length (k_table K4)" using op by (simp add: opened_def same)
  then have "get_slot (of_nat fd) K4 = Some (FileIO (FileDesc_new q g (OpenFlags_from flags')))"
    using g(2) fd_word [OF ok4 fd4] by (simp add: get_slot_def)
  then obtain fS where "fops_read rand buf' (g, k_fs K4) = (Ok (m, out), fS)"
    using rd by (auto simp: same syscall_read_def io_read_def on_file_def FileDesc_new_def split: prod.splits)
  then show ?thesis using fops_read_start [OF cg G(4) _ len(3)] same q(6) by simp
qed

text \<open>The file \<open>/f\<close> of the example, opened for reading and writing.\<close>

definition demo_sys :: "unit SysState" where
  "demo_sys = sys_start demo_files \<lparr>con_in = [], con_out = []\<rparr> 8"

definition demo_slot :: "unit SysState \<Rightarrow> unit SysState" where
  "demo_slot K = snd (open_path ''/f'' 2 3 (record_inode ''/f'' (K\<lparr>k_fds := snd (alloc_fd (k_fds K))\<rparr>)))"

lemma demo_openat:
  assumes "FilePath_new ''/f'' (k_links K) = Ok ''/f''" and "fst (alloc_fd (k_fds K)) = Ok 3"
    and "fst (open_path ''/f'' 2 3 (record_inode ''/f'' (K\<lparr>k_fds := snd (alloc_fd (k_fds K))\<rparr>))) = Ok 3"
  shows "syscall_openat AT_FDCWD (UserStr ''/f'') 2 K = (Ok 3, demo_slot K)"
proof -
  have fl: "OpenFlags_from 2 = 2" "\<not> flags_is_dir 2" by code_simp+
  obtain m where m: "alloc_fd (k_fds K) = (Ok 3, m)" using assms(2) by (cases "alloc_fd (k_fds K)") simp
  have "deal_with_path io_get_path io_is_dir (k_table K) AT_FDCWD (UserStr ''/f'') False (k_links K) = Ok (Some ''/f'')"
    by (simp add: deal_with_path_def Let_def ends_slash_def assms(1))
  moreover have "open_path ''/f'' 2 3 (record_inode ''/f'' (K\<lparr>k_fds := m\<rparr>)) = (Ok 3, demo_slot K)"
    using fst_run [OF assms(3)] by (simp add: demo_slot_def m)
  ultimately show ?thesis by (simp add: syscall_openat_def fl m)
qed

definition demo_1 :: "unit SysState" where "demo_1 = demo_slot demo_sys"
definition demo_2 :: "unit SysState" where "demo_2 = snd (syscall_write 3 (UserBuf [7, 8]) demo_1)"
definition demo_3 :: "unit SysState" where "demo_3 = snd (syscall_close 3 demo_2)"
definition demo_4 :: "unit SysState" where "demo_4 = demo_slot demo_3"

lemma demo_open1: "syscall_openat AT_FDCWD (UserStr ''/f'') 2 demo_sys = (Ok 3, demo_1)"
  unfolding demo_1_def by (rule demo_openat) code_simp+

lemma demo_desc: "get_slot (of_nat 3) demo_1 = Some (FileIO (FileDesc_new ''/f'' \<lparr>file_node = \<lparr>wc_inner = 3, wc_cap = 3\<rparr>, is_append = False, file_offset = 0\<rparr> 2))"
  by code_simp
lemma demo_content: "nodes (vfs (k_fs demo_1)) 3 = Some (RamFile [])"
  by code_simp
lemma demo_write: "syscall_write 3 (UserBuf [7, 8]) demo_1 = (Ok 2, demo_2)"
proof -
  have "fst (syscall_write 3 (UserBuf [7, 8]) demo_1) = Ok 2" by code_simp
  then show ?thesis by (simp add: demo_2_def prod_eq_iff)
qed
lemma demo_close: "syscall_close 3 demo_2 = (Ok 0, demo_3)"
proof -
  have "fst (syscall_close 3 demo_2) = Ok 0" by code_simp
  then show ?thesis by (simp add: demo_3_def prod_eq_iff)
qed
lemma demo_open2: "syscall_openat AT_FDCWD (UserStr ''/f'') 2 demo_3 = (Ok 3, demo_4)"
  unfolding demo_4_def by (rule demo_openat) code_simp+

theorem write_close_open_read_witness:
  "\<exists>out. fst (syscall_read (\<lambda>r n. ([], r)) 3 (UserBuf [0, 0, 0]) demo_4) = Ok (2, out) \<and> take 2 out = [7, 8 :: u8]"
proof -
  have ok: "sys_ok demo_sys" unfolding demo_sys_def by (rule sys_start_ok [OF demo_files_ok]) simp
  have c: "file_bytes (fd_file (FileDesc_new ''/f'' \<lparr>file_node = \<lparr>wc_inner = 3, wc_cap = 3\<rparr>, is_append = False, file_offset = 0\<rparr> 2), k_fs demo_1) = Some []"
    using demo_content by (simp add: file_bytes_Some FileDesc_new_def)
  have fl: "flags_writable (OpenFlags_from 2)" by code_simp
  have w: "syscall_write (of_nat 3) (UserBuf [7, 8]) demo_1 = (Ok 2, demo_2)" and cl: "syscall_close (of_nat 3) demo_2 = (Ok 0, demo_3)"
    using demo_write demo_close by simp_all
  have r: "fst (syscall_read (\<lambda>r n. ([], r)) (of_nat 3) (UserBuf [0, 0, 0]) demo_4) = Ok (2, [7, 8, 0])" by code_simp
  show ?thesis
    using write_close_open_read [OF ok demo_open1 demo_desc c fl w cl demo_open2 refl fst_run [OF r]] r by simp
qed



subsection \<open>Further behaviour\<close>

text \<open>A write that is refused still moves a cursor that is behind the end of the file.\<close>

lemma refused_write_moves_cursor:
  assumes c: "file_bytes (f, S) = Some c" and "\<not> file_writable f" and len: "length c < unat (file_offset f)"
  shows "\<exists>r S'. desc_write buf (f, S) = (r, (f\<lparr>file_offset := of_nat (length c)\<rparr>, S')) \<and> (r = Err PermissionDenied \<or> r = Panic)"
proof -
  have u: "unat (of_nat (length c) :: u64) = length c"
  proof (rule unat_of_nat_64)
    have "unat (file_offset f) < 2 ^ LENGTH(64)" by (rule unsigned_less)
    from less_trans [OF len this] show "length c < 2 ^ 64" by simp
  qed
  then have lt: "of_nat (length c) < file_offset f" using len by (simp add: word_less_nat_alt)
  have "fops_write zs (f\<lparr>file_offset := of_nat (length c)\<rparr>, S) = (Err PermissionDenied, (f\<lparr>file_offset := of_nat (length c)\<rparr>, S))" for zs
    using assms(2) by (simp add: file_writable_def can_access_def fops_write_def in_fs_def pure_res_def and_then_def access_def)
  then show ?thesis
    using lt by (simp add: desc_write_def fill_gap_def and_then_def unwrap_act_def seek_here [OF c] desc_size_run [OF c] fops_seek_run(1) [OF c])
qed

text \<open>A file whose cursor is at its end counts as not ready to be written.\<close>

lemma at_end_not_ready:
  assumes c: "file_bytes (f, S) = Some c" and "file_offset f = of_nat (length c)" and "length c < 2 ^ 63"
  shows "desc_ready_to_write fl (f, S) = (Ok False, (f, S))"
proof -
  have "fops_seek (SeekEnd 0) (f, S) = (Ok (of_nat (length c)), (f, S))"
    using c assms(2) checked_add_signed_nat [of "of_nat (length c)" 0]
    by (simp add: file_bytes_Some fops_seek_def and_then_def fops_get_attr_def vfs_get_attr_def attr_new_file_def)
  then show ?thesis
    by (simp add: desc_ready_to_write_def not_at_end_def and_then_def unwrap_act_def seek_here [OF c] fops_seek_run(1) [OF c] assms(2))
qed

text \<open>\<open>O_CREAT\<close> without the right to write is refused.\<close>

lemma create_read_only_refused: "new_file p O_CREATE S = (Err InvalidInput, S)"
  by (simp add: new_file_def file_open_def file_open_at_def is_valid_def OpenOptions_new_def flags_readable_def flags_writable_def
      flags_creatable_def flag_set_def O_CREATE_def O_WRONLY_def O_RDWR_def)

lemma nanos_roundtrip: "turn_to_nanos (TimeSecs_now nano) = nano"
  by (simp add: turn_to_nanos_def TimeSecs_now_def Let_def)

text \<open>
  A command line is split at the spaces outside quotes; the quotes stay in the arguments.
\<close>

fun fields :: "bool \<Rightarrow> u8 list \<Rightarrow> u8 list \<Rightarrow> u8 list list" where
  "fields q acc [] = [acc]"
| "fields q acc (c # cs) = (let q = (if c = quote_char then \<not> q else q)
     in if c = space_char \<and> \<not> q then acc # fields q [] cs else fields q (acc @ [c]) cs)"

lemma args_loop_fields:
  assumes "start \<le> pos" and "pos \<le> length line"
  shows "(case args_loop line [pos..<length line] q start args of (s, as) \<Rightarrow> if s \<noteq> length line then as @ [drop s line] else as) =
    args @ filter (\<lambda>a. a \<noteq> []) (fields q (take (pos - start) (drop start line)) (drop pos line))"
  using assms
proof (induction "length line - pos" arbitrary: pos q start args)
  case 0
  then have "pos = length line" by simp
  then show ?case using 0 by (auto simp: Let_def)
next
  case (Suc k)
  then have p: "pos < length line" by simp
  have up: "[pos..<length line] = pos # [Suc pos..<length line]" using p by (rule upt_conv_Cons)
  have dr: "drop pos line = line ! pos # drop (Suc pos) line" using p by (rule Cons_nth_drop_Suc [symmetric])
  have tk: "take (Suc pos - start) (drop start line) = take (pos - start) (drop start line) @ [line ! pos]"
    using p Suc.prems by (simp add: Suc_diff_le take_Suc_conv_app_nth)
  have ne: "take (pos - start) (drop start line) = [] \<longleftrightarrow> start = pos" using p Suc.prems by auto
  have k: "k = length line - Suc pos" using Suc.hyps(2) by simp
  let ?q = "if line ! pos = quote_char then \<not> q else q"
  show ?case
  proof (cases "line ! pos = space_char \<and> \<not> ?q")
    case True
    then show ?thesis
      using Suc.hyps(1) [OF k, of "Suc pos" ?q "if start \<noteq> pos then args @ [take (pos - start) (drop start line)] else args"] p ne
      by (auto simp: up dr Let_def)
  next
    case False
    then show ?thesis using Suc.hyps(1) [OF k, of start ?q args] p Suc.prems unfolding up dr by (auto simp: Let_def tk)
  qed
qed

lemma get_args_fields: "get_args line = filter (\<lambda>a. a \<noteq> []) (fields False [] line)"
  using args_loop_fields [of 0 0 line False "[]"] by (simp add: get_args_def)

end
