(* ===== verification/Pipe.thy ===== *)
theory Pipe
  imports FdTable
begin

text \<open>
  \<open>api/arceos_posix_api/src/imp/pipe.rs\<close>: pipes over a ring buffer of 256 bytes. \<open>read\<close> and \<open>write\<close> are loops that
  hold the lock of the buffer for one iteration and yield when they cannot go on, so one iteration is one
  step, and the loops have fuel. Two threads that use the two ends interleave at these steps.
\<close>

subsection \<open>The ring buffer\<close>

datatype RingBufferStatus = RingFull | RingEmpty | RingNormal

definition RING_BUFFER_SIZE :: nat where "RING_BUFFER_SIZE = 256"

record PipeRingBuffer =
  ring_arr :: "u8 list"
  ring_head :: nat
  ring_tail :: nat
  ring_status :: RingBufferStatus

definition ring_new :: PipeRingBuffer where
  "ring_new = \<lparr>ring_arr = replicate RING_BUFFER_SIZE 0, ring_head = 0, ring_tail = 0, ring_status = RingEmpty\<rparr>"

definition write_byte :: "u8 \<Rightarrow> PipeRingBuffer \<Rightarrow> PipeRingBuffer" where
  "write_byte byte r =
     (let tail = (ring_tail r + 1) mod RING_BUFFER_SIZE in
      r\<lparr>ring_arr := (ring_arr r)[ring_tail r := byte], ring_tail := tail,
        ring_status := (if tail = ring_head r then RingFull else RingNormal)\<rparr>)"

definition read_byte :: "PipeRingBuffer \<Rightarrow> u8 \<times> PipeRingBuffer" where
  "read_byte r =
     (let head = (ring_head r + 1) mod RING_BUFFER_SIZE in
      (ring_arr r ! ring_head r,
       r\<lparr>ring_head := head, ring_status := (if head = ring_tail r then RingEmpty else RingNormal)\<rparr>))"

definition available_read :: "PipeRingBuffer \<Rightarrow> nat" where
  "available_read r =
     (if ring_status r = RingEmpty then 0
      else if ring_tail r > ring_head r then ring_tail r - ring_head r
      else ring_tail r + RING_BUFFER_SIZE - ring_head r)"

definition available_write :: "PipeRingBuffer \<Rightarrow> nat" where
  "available_write r = (if ring_status r = RingFull then 0 else RING_BUFFER_SIZE - available_read r)"

subsection \<open>The two ends\<close>

text \<open>
  One iteration of \<open>read\<close> with the lock held: \<open>got\<close> are the bytes read so far. \<open>closed\<close> says that the
  write end is gone (\<open>Arc::strong_count\<close> is 1). The flag in the result says whether the call returns.
\<close>

fun read_bytes :: "nat \<Rightarrow> nat \<Rightarrow> u8 list \<Rightarrow> PipeRingBuffer \<Rightarrow> bool \<times> u8 list \<times> PipeRingBuffer" where
  "read_bytes 0 max_len got r = (False, got, r)"
| "read_bytes (Suc k) max_len got r =
     (if length got = max_len then (True, got, r)
      else case read_byte r of (c, r') \<Rightarrow> read_bytes k max_len (got @ [c]) r')"

definition read_iter :: "bool \<Rightarrow> nat \<Rightarrow> u8 list \<Rightarrow> PipeRingBuffer \<Rightarrow> bool \<times> u8 list \<times> PipeRingBuffer" where
  "read_iter closed max_len got r =
     (let loop_read = available_read r in
      if loop_read = 0 then (closed, got, r) else read_bytes loop_read max_len got r)"

text \<open>One iteration of \<open>write\<close>: \<open>buf\<close> are the bytes still to be written.\<close>

fun write_bytes :: "nat \<Rightarrow> u8 list \<Rightarrow> PipeRingBuffer \<Rightarrow> bool \<times> u8 list \<times> PipeRingBuffer" where
  "write_bytes 0 buf r = (False, buf, r)"
| "write_bytes (Suc k) buf r = (case buf of [] \<Rightarrow> (True, [], r) | b # bs \<Rightarrow> write_bytes k bs (write_byte b r))"

definition write_iter :: "u8 list \<Rightarrow> PipeRingBuffer \<Rightarrow> bool \<times> u8 list \<times> PipeRingBuffer" where
  "write_iter buf r =
     (let loop_write = available_write r in
      if loop_write = 0 then (False, buf, r) else write_bytes loop_write buf r)"

text \<open>The calls, as long as no other thread gets at the buffer in between.\<close>

record Pipe = pipe_readable :: bool

definition pipe_writable :: "Pipe \<Rightarrow> bool" where "pipe_writable p \<longleftrightarrow> \<not> pipe_readable p"

fun read_loop :: "nat \<Rightarrow> bool \<Rightarrow> nat \<Rightarrow> u8 list \<Rightarrow> (PipeRingBuffer, u8 list, LinuxError) action" where
  "read_loop 0 closed max_len got r = (Diverge, r)"
| "read_loop (Suc fuel) closed max_len got r = (case read_iter closed max_len got r of
      (True, got', r') \<Rightarrow> (Ok got', r')
    | (False, got', r') \<Rightarrow> read_loop fuel closed max_len got' r')"

definition pipe_read :: "nat \<Rightarrow> Pipe \<Rightarrow> bool \<Rightarrow> nat \<Rightarrow> (PipeRingBuffer, u8 list, LinuxError) action" where
  "pipe_read fuel p closed max_len r = (if \<not> pipe_readable p then (Err EPERM, r) else read_loop fuel closed max_len [] r)"

fun write_loop :: "nat \<Rightarrow> u8 list \<Rightarrow> (PipeRingBuffer, unit, LinuxError) action" where
  "write_loop 0 buf r = (Diverge, r)"
| "write_loop (Suc fuel) buf r = (case write_iter buf r of
      (True, buf', r') \<Rightarrow> (Ok (), r')
    | (False, buf', r') \<Rightarrow> write_loop fuel buf' r')"

definition pipe_write :: "nat \<Rightarrow> Pipe \<Rightarrow> u8 list \<Rightarrow> (PipeRingBuffer, nat, LinuxError) action" where
  "pipe_write fuel p buf = (if \<not> pipe_writable p then (\<lambda>r. (Err EPERM, r))
     else and_then (write_loop fuel buf) (\<lambda>_ r. (Ok (length buf), r)))"

record PollState =
  poll_readable :: bool
  poll_writable :: bool

definition pipe_poll :: "Pipe \<Rightarrow> PipeRingBuffer \<Rightarrow> PollState" where
  "pipe_poll p r = \<lparr>poll_readable = (pipe_readable p \<and> available_read r > 0), poll_writable = (pipe_writable p \<and> available_write r > 0)\<rparr>"

subsection \<open>The ring buffer is a bounded queue\<close>

definition ring_ok :: "PipeRingBuffer \<Rightarrow> bool" where
  "ring_ok r \<longleftrightarrow> length (ring_arr r) = 256 \<and> ring_head r < 256 \<and> ring_tail r < 256 \<and>
     (ring_status r = RingNormal \<longleftrightarrow> ring_head r \<noteq> ring_tail r)"

definition content :: "PipeRingBuffer \<Rightarrow> u8 list" where
  "content r = map (\<lambda>i. ring_arr r ! ((ring_head r + i) mod 256)) [0..<available_read r]"

lemma ring_new_ok: "ring_ok ring_new" "content ring_new = []"
  by (simp_all add: ring_ok_def ring_new_def RING_BUFFER_SIZE_def content_def available_read_def)

lemma length_content [simp]: "length (content r) = available_read r"
  by (simp add: content_def)

lemma status_cases: "ring_status r = RingFull \<or> ring_status r = RingEmpty \<or> ring_status r = RingNormal"
  by (cases "ring_status r") simp_all

lemma tail_mod:
  assumes "ring_ok r"
  shows "available_read r \<le> 256" "available_read r = 256 \<longleftrightarrow> ring_status r = RingFull" "available_read r = 0 \<longleftrightarrow> ring_status r = RingEmpty"
    "(ring_head r + available_read r) mod 256 = ring_tail r" "available_write r = 256 - available_read r"
  using assms status_cases [of r]
  by (auto simp: ring_ok_def available_read_def available_write_def RING_BUFFER_SIZE_def mod_if)

lemma succ_mod: "i < 256 \<Longrightarrow> (i + 1) mod 256 = (if i = 255 then 0 else i + 1)" for i :: nat
  by (simp add: mod_if)

lemma write_byte_ok:
  assumes ok: "ring_ok r" and "ring_status r \<noteq> RingFull"
  shows "ring_ok (write_byte b r)" "content (write_byte b r) = content r @ [b]"
proof -
  let ?n = "available_read r"
  have ht: "ring_head r < 256" "ring_tail r < 256" "length (ring_arr r) = 256" using ok by (auto simp: ring_ok_def)
  show "ring_ok (write_byte b r)" using ok by (auto simp: ring_ok_def write_byte_def Let_def RING_BUFFER_SIZE_def)
  have n: "?n < 256" using tail_mod(1,2) [OF ok] assms(2) by linarith
  have a: "available_read (write_byte b r) = Suc ?n"
    using ok assms(2) status_cases [of r] succ_mod [OF ht(2)]
    by (auto simp: ring_ok_def write_byte_def Let_def available_read_def RING_BUFFER_SIZE_def)
  have "(ring_head r + i) mod 256 \<noteq> ring_tail r" if "i < ?n" for i
    using tail_mod(4) [OF ok] that n ht by (auto simp: mod_if split: if_splits)
  then have "map (\<lambda>i. (ring_arr r)[ring_tail r := b] ! ((ring_head r + i) mod 256)) [0..<?n] = content r"
    unfolding content_def by (intro map_cong refl) (metis atLeastLessThan_iff nth_list_update_neq set_upt)
  then show "content (write_byte b r) = content r @ [b]"
    using a tail_mod(4) [OF ok] ht by (simp add: content_def write_byte_def Let_def)
qed

lemma read_byte_ok:
  assumes ok: "ring_ok r" and "ring_status r \<noteq> RingEmpty"
  shows "ring_ok (snd (read_byte r))" "content r = fst (read_byte r) # content (snd (read_byte r))"
proof -
  let ?r = "snd (read_byte r)"
  have ht: "ring_head r < 256" "ring_tail r < 256" using ok by (auto simp: ring_ok_def)
  show "ring_ok ?r" using ok by (auto simp: ring_ok_def read_byte_def Let_def RING_BUFFER_SIZE_def)
  have a: "available_read r = Suc (available_read ?r)"
    using ok assms(2) status_cases [of r] succ_mod [OF ht(1)]
    by (auto simp: ring_ok_def read_byte_def Let_def available_read_def RING_BUFFER_SIZE_def)
  have "content r = ring_arr r ! (ring_head r mod 256) # map (\<lambda>i. ring_arr r ! ((ring_head r + Suc i) mod 256)) [0..<available_read ?r]"
    unfolding content_def a by (simp add: upt_conv_Cons map_Suc_upt [symmetric] del: upt_Suc)
  moreover have "(ring_head r + Suc i) mod 256 = ((ring_head r + 1) mod 256 + i) mod 256" for i by (simp add: mod_simps)
  ultimately show "content r = fst (read_byte r) # content ?r"
    using ht by (simp add: content_def read_byte_def Let_def RING_BUFFER_SIZE_def)
qed

lemma read_bytes_content:
  assumes "ring_ok r" "k \<le> available_read r" "length got \<le> m" "n = min k (m - length got)"
  shows "\<exists>r'. read_bytes k m got r = (m - length got < k, got @ take n (content r), r') \<and> ring_ok r' \<and>
    content r' = drop n (content r)"
  using assms
proof (induction k arbitrary: got r n)
  case (Suc k)
  show ?case
  proof (cases "length got = m")
    case False
    have ne: "ring_status r \<noteq> RingEmpty" using Suc.prems(1,2) tail_mod(3) [of r] by auto
    obtain c r1 where r1: "read_byte r = (c, r1)" by (cases "read_byte r")
    have ok: "ring_ok r1" and c: "content r = c # content r1"
      using read_byte_ok [OF Suc.prems(1) ne] by (simp_all add: r1)
    have k: "k \<le> available_read r1" using Suc.prems(2) c by (metis Suc_le_mono length_Cons length_content)
    have l: "length (got @ [c]) \<le> m" using Suc.prems(3) False by simp
    have n: "n = Suc (min k (m - length (got @ [c])))" using Suc.prems(3,4) False by auto
    show ?thesis using Suc.IH [OF ok k l refl] False Suc.prems(3)
      by (auto simp: r1 n c)
  qed (use Suc.prems in auto)
qed simp

lemma write_bytes_content:
  assumes "ring_ok r" "k + available_read r \<le> 256" "n = min k (length buf)"
  shows "\<exists>r'. write_bytes k buf r = (length buf < k, drop n buf, r') \<and> ring_ok r' \<and> content r' = content r @ take n buf"
  using assms
proof (induction k arbitrary: buf r n)
  case (Suc k)
  show ?case
  proof (cases buf)
    case (Cons b bs)
    have nf: "ring_status r \<noteq> RingFull" using Suc.prems(1,2) tail_mod(2) [of r] by auto
    note w = write_byte_ok [OF Suc.prems(1) nf, of b]
    have "available_read (write_byte b r) = Suc (available_read r)"
      using arg_cong [OF w(2), of length] by simp
    then have k: "k + available_read (write_byte b r) \<le> 256" using Suc.prems(2) by simp
    show ?thesis using Suc.IH [OF w(1) k refl, of bs] Suc.prems(3) by (auto simp: Cons w(2))
  qed (use Suc.prems in auto)
qed simp

text \<open>One iteration of each call on the queue that the buffer holds.\<close>

lemma read_iter_content:
  assumes "ring_ok r" "length got \<le> m" "n = min (available_read r) (m - length got)"
  shows "\<exists>r'. read_iter closed m got r =
      (if content r = [] then closed else m - length got < available_read r, got @ take n (content r), r') \<and>
    ring_ok r' \<and> content r' = drop n (content r)"
proof -
  have "content r = [] \<longleftrightarrow> available_read r = 0" by (simp flip: length_0_conv)
  then show ?thesis using read_bytes_content [OF assms(1) order_refl assms(2,3)] assms
    by (auto simp: read_iter_def Let_def)
qed

lemma write_iter_content:
  assumes "ring_ok r" "n = min (256 - available_read r) (length buf)"
  shows "\<exists>r'. write_iter buf r = (length buf < 256 - available_read r, drop n buf, r') \<and> ring_ok r' \<and> content r' = content r @ take n buf"
  using write_bytes_content [OF assms(1), of "256 - available_read r" n buf] tail_mod(1,5) [OF assms(1)] assms
  by (auto simp: write_iter_def Let_def)

text \<open>The calls without interference. Two iterations are enough when they return at all.\<close>

lemma read_loop_closed:
  assumes "ring_ok r"
  shows "\<exists>r'. read_loop (Suc (Suc fuel)) True m [] r = (Ok (take m (content r)), r') \<and> ring_ok r' \<and> content r' = drop m (content r)"
proof -
  let ?n = "min (available_read r) m"
  obtain r1 where r1: "read_iter True m [] r = (if content r = [] then True else m < available_read r, take m (content r), r1)"
      "ring_ok r1" "content r1 = drop m (content r)"
    using read_iter_content [OF assms, of "[]" m ?n True] by (auto simp: min_def)
  show ?thesis
  proof (cases "content r = [] \<or> m < available_read r")
    case True
    then show ?thesis using r1 by auto
  next
    case False
    have "content r1 = []" "length (take m (content r)) \<le> m" using False r1(3) by simp_all
    then show ?thesis using r1 False read_iter_content [OF r1(2) _ refl, of "take m (content r)" m True] by auto
  qed
qed

lemma read_loop_enough:
  assumes "ring_ok r" "m < available_read r"
  shows "\<exists>r'. read_loop (Suc fuel) closed m [] r = (Ok (take m (content r)), r') \<and> ring_ok r' \<and> content r' = drop m (content r)"
proof -
  have "content r \<noteq> []" using assms(2) length_content [of r] by fastforce
  then show ?thesis using read_iter_content [OF assms(1) _ refl, of "[]" m closed] assms(2) by (auto simp: min_def)
qed

lemma read_loop_empty:
  assumes "ring_ok r" "content r = []" "length got \<le> m"
  shows "fst (read_loop fuel False m got r) = Diverge"
  using assms
proof (induction fuel arbitrary: got r)
  case (Suc fuel)
  then show ?case using read_iter_content [OF Suc.prems(1,3) refl, of False] by auto
qed simp

lemma read_loop_waits:
  assumes "ring_ok r" "available_read r \<le> m"
  shows "fst (read_loop fuel False m [] r) = Diverge"
proof (cases fuel)
  case (Suc f)
  obtain r1 where r1: "read_iter False m [] r = (False, content r, r1)" "ring_ok r1" "content r1 = []"
    using read_iter_content [OF assms(1) _ refl, of "[]" m False] assms(2) by (auto simp: min_def)
  then show ?thesis using read_loop_empty [OF r1(2,3), of "content r" m f] assms(2) Suc by simp
qed simp

lemma write_loop_enough:
  assumes "ring_ok r" "length buf + available_read r < 256"
  shows "\<exists>r'. write_loop (Suc fuel) buf r = (Ok (), r') \<and> ring_ok r' \<and> content r' = content r @ buf"
proof -
  have l: "length buf < 256 - available_read r" using assms(2) by simp
  then show ?thesis using write_iter_content [OF assms(1) refl, of buf] by (auto simp: min_def)
qed

lemma write_loop_full:
  assumes "ring_ok r" "available_read r = 256"
  shows "fst (write_loop fuel buf r) = Diverge"
  using assms
proof (induction fuel arbitrary: buf r)
  case (Suc fuel)
  obtain r1 where "write_iter buf r = (False, buf, r1)" "ring_ok r1" "content r1 = content r"
    using write_iter_content [OF Suc.prems(1) refl, of buf] Suc.prems(2) by auto
  moreover from this(3) have "available_read r1 = 256" using Suc.prems(2) length_content by metis
  ultimately show ?case using Suc.IH [of r1 buf] by simp
qed simp

lemma write_loop_waits:
  assumes "ring_ok r" "256 \<le> length buf + available_read r"
  shows "fst (write_loop fuel buf r) = Diverge"
proof (cases fuel)
  case (Suc f)
  let ?n = "256 - available_read r"
  obtain r1 where r1: "write_iter buf r = (False, drop ?n buf, r1)" "ring_ok r1" "content r1 = content r @ take ?n buf"
  proof -
    have "\<not> length buf < ?n" "min ?n (length buf) = ?n" using assms(2) by auto
    then show thesis using write_iter_content [OF assms(1) refl, of buf] that by auto
  qed
  have "available_read r1 = 256" using arg_cong [OF r1(3), of length] assms(2) tail_mod(1) [OF assms(1)] by simp
  then show ?thesis using write_loop_full [OF r1(2)] r1(1) Suc by simp
qed simp

lemma pipe_read_returns:
  assumes "ring_ok r"
  shows "(\<exists>fuel. fst (pipe_read fuel \<lparr>pipe_readable = True\<rparr> closed m r) \<noteq> Diverge) \<longleftrightarrow> closed \<or> m < available_read r"
proof (cases "closed \<or> m < available_read r")
  case True
  then have "\<exists>r'. read_loop 2 closed m [] r = (Ok (take m (content r)), r')"
  proof (cases closed)
    case True
    then show ?thesis using read_loop_closed [OF assms, of 0 m] by (simp add: numeral_2_eq_2 del: read_loop.simps) blast
  next
    case False
    then show ?thesis using True read_loop_enough [OF assms, of m 1 closed] by (simp add: numeral_2_eq_2 del: read_loop.simps) blast
  qed
  then have "fst (pipe_read 2 \<lparr>pipe_readable = True\<rparr> closed m r) \<noteq> Diverge" by (auto simp: pipe_read_def simp del: read_loop.simps)
  then show ?thesis using True by blast
next
  case False
  then show ?thesis using read_loop_waits [OF assms, of m] by (simp add: pipe_read_def)
qed

lemma pipe_write_returns:
  assumes "ring_ok r"
  shows "(\<exists>fuel. fst (pipe_write fuel \<lparr>pipe_readable = False\<rparr> buf r) \<noteq> Diverge) \<longleftrightarrow> length buf + available_read r < 256"
proof (cases "length buf + available_read r < 256")
  case True
  then have "fst (pipe_write (Suc 0) \<lparr>pipe_readable = False\<rparr> buf r) \<noteq> Diverge"
    using write_loop_enough [OF assms, of buf 0] by (auto simp: pipe_write_def pipe_writable_def and_then_def)
  then show ?thesis using True by blast
next
  case False
  then have "fst (write_loop fuel buf r) = Diverge" for fuel using write_loop_waits [OF assms, of buf] by simp
  then have "fst (pipe_write fuel \<lparr>pipe_readable = False\<rparr> buf r) = Diverge" for fuel
    using and_then_fail(3) [OF fst_run, of "write_loop fuel buf" r "\<lambda>_ r. (Ok (length buf), r)"] by (simp add: pipe_write_def pipe_writable_def)
  then show ?thesis using False by simp
qed

text \<open>
  C27: When the two calls return, with no other thread at the buffer. A read returns if the write end is closed
  or if the buffer holds more than the requested bytes; if it holds no more than that, the call waits for more
  and never returns, also when it has already read every byte that was requested. A write returns if it leaves
  the buffer with free space, and waits if it fills the buffer, also when every byte has been written.
\<close>

theorem pipe_returns_iff:
  assumes "ring_ok r"
  shows "((\<exists>fuel. fst (pipe_read fuel \<lparr>pipe_readable = True\<rparr> closed m r) \<noteq> Diverge) \<longleftrightarrow> closed \<or> m < available_read r) \<and>
    ((\<exists>fuel. fst (pipe_write fuel \<lparr>pipe_readable = False\<rparr> buf r) \<noteq> Diverge) \<longleftrightarrow> length buf + available_read r < 256)"
  using pipe_read_returns [OF assms] pipe_write_returns [OF assms] by blast

theorem pipe_returns_iff_witness:
  "\<not> (\<exists>fuel. fst (pipe_read fuel \<lparr>pipe_readable = True\<rparr> False 1 (write_byte 7 ring_new)) \<noteq> Diverge)"
proof -
  have "ring_ok (write_byte 7 ring_new)" by (rule write_byte_ok) (simp_all add: ring_new_ok, simp add: ring_new_def)
  moreover have "available_read (write_byte 7 ring_new) = 1" by code_simp
  ultimately show ?thesis using pipe_returns_iff [of "write_byte 7 ring_new" False 1 "[]"] by simp
qed

subsection \<open>A reader and a writer\<close>

text \<open>
  The two ends in two threads: a call in progress is the bytes it has still to write, or the requested length
  with the bytes it has read. \<open>sent\<close> and \<open>reads\<close> record what was given to \<open>write\<close> and what \<open>read\<close> has returned
  for which length. The write end cannot be dropped while a call uses it.
\<close>

record PipeSystem =
  sys_ring :: PipeRingBuffer
  sys_closed :: bool
  sys_wr :: "u8 list option"
  sys_rd :: "(nat \<times> u8 list) option"
  sent :: "u8 list"
  reads :: "(nat \<times> u8 list) list"

definition pipe_start :: PipeSystem where
  "pipe_start = \<lparr>sys_ring = ring_new, sys_closed = False, sys_wr = None, sys_rd = None, sent = [], reads = []\<rparr>"

inductive pipe_step :: "PipeSystem \<Rightarrow> PipeSystem \<Rightarrow> bool" where
  call_write: "sys_wr s = None \<Longrightarrow> \<not> sys_closed s \<Longrightarrow> pipe_step s (s\<lparr>sys_wr := Some buf, sent := sent s @ buf\<rparr>)"
| iter_write: "sys_wr s = Some buf \<Longrightarrow> write_iter buf (sys_ring s) = (ret, buf', r') \<Longrightarrow>
    pipe_step s (s\<lparr>sys_ring := r', sys_wr := if ret then None else Some buf'\<rparr>)"
| drop_write_end: "sys_wr s = None \<Longrightarrow> pipe_step s (s\<lparr>sys_closed := True\<rparr>)"
| call_read: "sys_rd s = None \<Longrightarrow> pipe_step s (s\<lparr>sys_rd := Some (m, [])\<rparr>)"
| iter_read: "sys_rd s = Some (m, got) \<Longrightarrow> read_iter (sys_closed s) m got (sys_ring s) = (ret, got', r') \<Longrightarrow>
    pipe_step s (s\<lparr>sys_ring := r', sys_rd := if ret then None else Some (m, got'),
                   reads := reads s @ (if ret then [(m, got')] else [])\<rparr>)"

inductive_cases pipe_stepE: "pipe_step s t"

definition returned :: "PipeSystem \<Rightarrow> u8 list" where "returned s = concat (map snd (reads s))"

definition pending :: "PipeSystem \<Rightarrow> u8 list" where "pending s = (case sys_wr s of None \<Rightarrow> [] | Some buf \<Rightarrow> buf)"

definition in_call :: "PipeSystem \<Rightarrow> u8 list" where "in_call s = (case sys_rd s of None \<Rightarrow> [] | Some (m, got) \<Rightarrow> got)"

definition pipe_inv :: "PipeSystem \<Rightarrow> bool" where
  "pipe_inv s \<longleftrightarrow> ring_ok (sys_ring s) \<and> returned s @ in_call s @ content (sys_ring s) @ pending s = sent s \<and>
     (\<forall>m got. sys_rd s = Some (m, got) \<longrightarrow> length got \<le> m) \<and> (sys_closed s \<longrightarrow> sys_wr s = None) \<and>
     (\<forall>(m, bs) \<in> set (reads s). length bs \<le> m \<and>
        (length bs < m \<longrightarrow> sys_closed s \<and> in_call s = [] \<and> content (sys_ring s) = []))"

lemma pipe_start_inv: "pipe_inv pipe_start"
  by (simp add: pipe_inv_def pipe_start_def ring_new_ok returned_def in_call_def pending_def)

lemma pipe_inv_write:
  assumes inv: "pipe_inv s" and w: "sys_wr s = Some buf" "write_iter buf (sys_ring s) = (ret, buf', r')"
  shows "pipe_inv (s\<lparr>sys_ring := r', sys_wr := if ret then None else Some buf'\<rparr>)"
proof -
  have ok: "ring_ok (sys_ring s)" and open_end: "\<not> sys_closed s" using inv w(1) by (auto simp: pipe_inv_def)
  have r: "ring_ok r'" "content r' @ buf' = content (sys_ring s) @ buf" "ret \<longrightarrow> buf' = []"
    using write_iter_content [OF ok refl, of buf] w(2) by (auto simp: min_def)
  have "content r' @ (if ret then [] else buf') = content (sys_ring s) @ buf" using r(2,3) by auto
  then show ?thesis using inv w(1) r(1) open_end
    by (auto simp: pipe_inv_def returned_def in_call_def pending_def split: if_splits)
qed

lemma pipe_inv_read:
  assumes inv: "pipe_inv s" and rd: "sys_rd s = Some (m, got)" "read_iter (sys_closed s) m got (sys_ring s) = (ret, got', r')"
  shows "pipe_inv (s\<lparr>sys_ring := r', sys_rd := if ret then None else Some (m, got'),
                     reads := reads s @ (if ret then [(m, got')] else [])\<rparr>)"
proof -
  have ok: "ring_ok (sys_ring s)" and l: "length got \<le> m" using inv rd(1) by (auto simp: pipe_inv_def)
  let ?n = "min (available_read (sys_ring s)) (m - length got)"
  have r: "ring_ok r'" "got' @ content r' = got @ content (sys_ring s)" "got' = got @ take ?n (content (sys_ring s))"
      "ret \<longleftrightarrow> (if content (sys_ring s) = [] then sys_closed s else m - length got < available_read (sys_ring s))"
    using read_iter_content [OF ok l refl, of "sys_closed s"] rd(2) by auto
  have l': "length got' \<le> m" using l r(3) by auto
  have short: "sys_closed s \<and> content r' = []" if "ret" "length got' < m"
    using that l r(2-4) length_content [of "sys_ring s"] by (auto split: if_splits)
  have quiet: "got' = [] \<and> content r' = []" if "got = []" "content (sys_ring s) = []" using that r(2) by simp
  show ?thesis using inv rd(1) r(1) l' short quiet arg_cong [OF r(2), of "\<lambda>x. returned s @ x @ pending s"]
    by (auto simp: pipe_inv_def returned_def in_call_def pending_def split: if_splits)
qed

lemma pipe_step_inv: "pipe_step s t \<Longrightarrow> pipe_inv s \<Longrightarrow> pipe_inv t"
proof (induction rule: pipe_step.induct)
  case (iter_write s buf ret buf' r')
  then show ?case by (rule_tac pipe_inv_write)
next
  case (iter_read s m got ret got' r')
  then show ?case by (rule_tac pipe_inv_read)
qed (auto simp: pipe_inv_def returned_def in_call_def pending_def)

text \<open>
  C26: A pipe delivers the bytes in order, for every interleaving of a reading and a writing thread: what the reads
  have returned so far is a prefix of what was given to the writes, no read returns more than it asked for,
  and a read that returns less has met the end: the write end is closed and every byte has been delivered.
\<close>

theorem pipe_delivers_in_order:
  assumes "pipe_step\<^sup>*\<^sup>* pipe_start s"
  shows "(\<exists>rest. sent s = returned s @ rest) \<and>
    (\<forall>(m, bs) \<in> set (reads s). length bs \<le> m \<and> (length bs < m \<longrightarrow> sys_closed s \<and> returned s = sent s))"
proof -
  have inv: "pipe_inv s" using assms by (induction rule: rtranclp_induct) (auto intro: pipe_start_inv pipe_step_inv)
  then have p: "sys_closed s \<Longrightarrow> pending s = []" and e: "sent s = returned s @ in_call s @ content (sys_ring s) @ pending s"
    by (simp_all add: pipe_inv_def pending_def)
  have "length bs \<le> m \<and> (length bs < m \<longrightarrow> sys_closed s \<and> returned s = sent s)" if "(m, bs) \<in> set (reads s)" for m bs
    using inv that p e by (auto simp: pipe_inv_def)
  then show ?thesis using e by blast
qed

definition demo_pipe :: PipeSystem where
  "demo_pipe = pipe_start\<lparr>sys_ring := snd (snd (write_iter [1, 2] ring_new)), sys_closed := True, sent := [1, 2]\<rparr>"

lemma demo_pipe_reached: "pipe_step\<^sup>*\<^sup>* pipe_start demo_pipe"
proof -
  let ?s1 = "pipe_start\<lparr>sys_wr := Some [1, 2], sent := [1, 2]\<rparr>"
  let ?s2 = "pipe_start\<lparr>sys_ring := snd (snd (write_iter [1, 2] ring_new)), sent := [1, 2]\<rparr>"
  have "fst (write_iter [1, 2] ring_new)" by code_simp
  then obtain b r where w: "write_iter [1, 2] ring_new = (True, b, r)" by (cases "write_iter [1, 2] ring_new") auto
  have "pipe_step pipe_start ?s1" using call_write [of pipe_start "[1, 2]"] by (simp add: pipe_start_def)
  moreover have "pipe_step ?s1 ?s2" using iter_write [of ?s1 "[1, 2]" True b r] w by (simp add: pipe_start_def)
  moreover have "pipe_step ?s2 demo_pipe" using drop_write_end [of ?s2] by (simp add: pipe_start_def demo_pipe_def)
  ultimately show ?thesis by (meson converse_rtranclp_into_rtranclp rtranclp.rtrancl_refl)
qed

theorem pipe_delivers_in_order_witness:
  "\<exists>s. pipe_step\<^sup>*\<^sup>* pipe_start s \<and> reads s = [(5, [1, 2])] \<and> sys_closed s \<and> returned s = sent s"
proof -
  let ?r = "sys_ring demo_pipe" and ?c = "demo_pipe\<lparr>sys_rd := Some (5, [])\<rparr>"
  let ?r1 = "snd (snd (read_iter True 5 [] ?r))"
  let ?s1 = "demo_pipe\<lparr>sys_ring := ?r1, sys_rd := Some (5, [1, 2]), reads := []\<rparr>"
  let ?s2 = "demo_pipe\<lparr>sys_ring := ?r1, sys_rd := None, reads := [(5, [1, 2])]\<rparr>"
  have d: "sys_closed demo_pipe" "sys_rd demo_pipe = None" "reads demo_pipe = []" by (simp_all add: demo_pipe_def pipe_start_def)
  have "fst (read_iter True 5 [] ?r) = False" "fst (snd (read_iter True 5 [] ?r)) = [1, 2]" by code_simp+
  then have r1: "read_iter True 5 [] ?r = (False, [1, 2], ?r1)" by (simp add: prod_eq_iff)
  have "available_read ?r1 = 0" by code_simp
  then have r2: "read_iter True 5 [1, 2] ?r1 = (True, [1, 2], ?r1)" by (simp add: read_iter_def)
  have "pipe_step demo_pipe ?c" using call_read [of demo_pipe 5] d by simp
  moreover have "pipe_step ?c ?s1" using iter_read [of ?c 5 "[]" False "[1, 2]" ?r1] r1 d by simp
  moreover have "pipe_step ?s1 ?s2" using iter_read [of ?s1 5 "[1, 2]" True "[1, 2]" ?r1] r2 d by simp
  ultimately have s: "pipe_step\<^sup>*\<^sup>* pipe_start ?s2" using demo_pipe_reached by (meson rtranclp.rtrancl_into_rtrancl)
  from pipe_delivers_in_order [OF s] have "returned ?s2 = sent ?s2" by simp
  then show ?thesis using s d by (intro exI [of _ ?s2]) simp
qed

end
