(* ===== verification/Poll.thy ===== *)
theory Poll
  imports Pipe BTree
begin

unbundle bit_operations_syntax

text \<open>
  \<open>api/arceos_posix_api/src/imp/io_mpx\<close>: waiting for several descriptors at once, with \<open>select\<close> (\<open>select.rs\<close>) and \<open>epoll\<close>
  (\<open>epoll.rs\<close>). Both calls look at the descriptors in rounds and yield in between; what other threads do
  to the table and to the files shows in the next round, so that a call has a list of rounds: the table, what \<open>poll\<close> of
  each file returns, and the time at the end of the round. Constants of the C headers have their values in Linux.
\<close>

record ('b, 'f) round =
  rd_table :: "('b, 'f) FdTable"
  rd_poll :: "'f \<Rightarrow> (PollState, LinuxError) result"
  rd_now :: nat

text \<open>\<open>get_file_like(fd)?.poll()\<close>: the outer result is that of the lookup.\<close>

definition file_poll :: "'b Bitmap \<Rightarrow> ('b, 'f) round \<Rightarrow> int \<Rightarrow> ((PollState, LinuxError) result, LinuxError) result" where
  "file_poll B rd fd = res_bind (get_file_like B fd (rd_table rd)) (\<lambda>f. Ok (rd_poll rd f))"

subsection \<open>\<open>select\<close>\<close>

definition FD_SETSIZE :: nat where "FD_SETSIZE = 1024"
definition BITS_PER_USIZE :: nat where "BITS_PER_USIZE = 64"
definition FD_SETSIZE_USIZES :: nat where "FD_SETSIZE_USIZES = 16"

definition div_ceil :: "nat \<Rightarrow> nat \<Rightarrow> nat" where "div_ceil n k = (n + k - 1) div k"

text \<open>An \<open>fd_set\<close> of the user is an array of 16 words or a null pointer.\<close>

type_synonym fd_set = "usize list option"

record FdSets =
  set_nfds :: nat
  read_set :: "usize list"
  write_set :: "usize list"
  except_set :: "usize list"

text \<open>Only the words that hold the first \<open>nfds\<close> bits are copied; the others are not initialised and not read.\<close>

definition copy_from_fd_set :: "nat \<Rightarrow> fd_set \<Rightarrow> usize list" where
  "copy_from_fd_set n fds = (case fds of None \<Rightarrow> replicate n 0 | Some ws \<Rightarrow> take n ws)"

definition FdSets_from :: "nat \<Rightarrow> fd_set \<Rightarrow> fd_set \<Rightarrow> fd_set \<Rightarrow> FdSets" where
  "FdSets_from nfds rs ws es =
     (let nfds = min nfds FD_SETSIZE; n = div_ceil nfds BITS_PER_USIZE in
      \<lparr>set_nfds = nfds, read_set = copy_from_fd_set n rs, write_set = copy_from_fd_set n ws, except_set = copy_from_fd_set n es\<rparr>)"

definition zero_fd_set :: "fd_set \<Rightarrow> nat \<Rightarrow> fd_set" where
  "zero_fd_set fds nfds = map_option (\<lambda>ws. let n = div_ceil nfds BITS_PER_USIZE in replicate n 0 @ drop n ws) fds"

definition set_fd_set :: "fd_set \<Rightarrow> nat \<Rightarrow> (fd_set, LinuxError) result" where
  "set_fd_set fds fd = (case fds of None \<Rightarrow> Ok None
     | Some ws \<Rightarrow> let k = fd div BITS_PER_USIZE in
         if k < length ws then Ok (Some (ws[k := ws ! k OR push_bit (fd mod BITS_PER_USIZE) 1])) else Panic)"

text \<open>The sets of the user that are filled, and the number of entries.\<close>

record SelState =
  sel_read :: fd_set
  sel_write :: fd_set
  sel_except :: fd_set
  sel_num :: nat

type_synonym sel_action = "(SelState, unit, LinuxError) action"

definition mark_read :: "nat \<Rightarrow> sel_action" where
  "mark_read fd s = (res_bind (set_fd_set (sel_read s) fd) (\<lambda>_. Ok ()),
     case set_fd_set (sel_read s) fd of Ok f \<Rightarrow> s\<lparr>sel_read := f, sel_num := sel_num s + 1\<rparr> | _ \<Rightarrow> s)"

definition mark_write :: "nat \<Rightarrow> sel_action" where
  "mark_write fd s = (res_bind (set_fd_set (sel_write s) fd) (\<lambda>_. Ok ()),
     case set_fd_set (sel_write s) fd of Ok f \<Rightarrow> s\<lparr>sel_write := f, sel_num := sel_num s + 1\<rparr> | _ \<Rightarrow> s)"

definition mark_except :: "nat \<Rightarrow> sel_action" where
  "mark_except fd s = (res_bind (set_fd_set (sel_except s) fd) (\<lambda>_. Ok ()),
     case set_fd_set (sel_except s) fd of Ok f \<Rightarrow> s\<lparr>sel_except := f, sel_num := sel_num s + 1\<rparr> | _ \<Rightarrow> s)"

definition has_bit :: "usize \<Rightarrow> nat \<Rightarrow> bool" where
  "has_bit w j \<longleftrightarrow> w AND push_bit j 1 \<noteq> 0"

definition sel_when :: "bool \<Rightarrow> sel_action \<Rightarrow> sel_action" where
  "sel_when b m = (if b then m else (\<lambda>s. (Ok (), s)))"

text \<open>What is done for a descriptor that is asked for.\<close>

definition select_fd :: "(nat \<Rightarrow> ((PollState, LinuxError) result, LinuxError) result) \<Rightarrow> nat \<Rightarrow> bool \<Rightarrow> bool \<Rightarrow> bool \<Rightarrow> sel_action" where
  "select_fd P fd r w e s = (case P fd of
       Ok (Ok state) \<Rightarrow> and_then (sel_when (poll_readable state \<and> r) (mark_read fd)) (\<lambda>_. sel_when (poll_writable state \<and> w) (mark_write fd)) s
     | Ok (Err _) \<Rightarrow> sel_when e (mark_except fd) s
     | Err x \<Rightarrow> (Err x, s)
     | Ok Diverge \<Rightarrow> (Diverge, s)
     | Diverge \<Rightarrow> (Diverge, s)
     | _ \<Rightarrow> (Panic, s))"

fun bit_loop :: "(nat \<Rightarrow> ((PollState, LinuxError) result, LinuxError) result) \<Rightarrow> nat \<Rightarrow> nat \<Rightarrow> usize \<times> usize \<times> usize \<Rightarrow> nat list \<Rightarrow> sel_action" where
  "bit_loop P nfds i (rb, wb, eb) [] s = (Ok (), s)"
| "bit_loop P nfds i (rb, wb, eb) (j # js) s =
     (if \<not> i + j < nfds then (Ok (), s)
      else if \<not> has_bit (rb OR wb OR eb) j then bit_loop P nfds i (rb, wb, eb) js s
      else and_then (select_fd P (i + j) (has_bit rb j) (has_bit wb j) (has_bit eb j)) (\<lambda>_. bit_loop P nfds i (rb, wb, eb) js) s)"

text \<open>Reading behind the copied words would be out of bounds.\<close>

fun word_loop :: "(nat \<Rightarrow> ((PollState, LinuxError) result, LinuxError) result) \<Rightarrow> nat \<Rightarrow> nat \<Rightarrow> (usize \<times> usize \<times> usize) list \<Rightarrow> sel_action" where
  "word_loop P nfds i [] s = (if i < nfds then (Panic, s) else (Ok (), s))"
| "word_loop P nfds i ((rb, wb, eb) # ws) s =
     (if \<not> i < nfds then (Ok (), s)
      else if rb OR wb OR eb = 0 then word_loop P nfds (i + BITS_PER_USIZE) ws s
      else and_then (bit_loop P nfds i (rb, wb, eb) [0..<BITS_PER_USIZE]) (\<lambda>_. word_loop P nfds (i + BITS_PER_USIZE) ws) s)"

definition select_poll_all :: "(nat \<Rightarrow> ((PollState, LinuxError) result, LinuxError) result) \<Rightarrow> FdSets \<Rightarrow> (SelState, nat, LinuxError) action" where
  "select_poll_all P sets s =
     and_then (word_loop P (set_nfds sets) 0 (zip (read_set sets) (zip (write_set sets) (except_set sets))))
       (\<lambda>_ s. (Ok (sel_num s), s)) (s\<lparr>sel_num := 0\<rparr>)"

fun select_loop :: "'b Bitmap \<Rightarrow> ('b, 'f) round list \<Rightarrow> nat option \<Rightarrow> FdSets \<Rightarrow> (SelState, nat, LinuxError) action" where
  "select_loop B [] deadline sets s = (Diverge, s)"
| "select_loop B (rd # rds) deadline sets s =
     and_then (select_poll_all (\<lambda>fd. file_poll B rd (int fd)) sets) (\<lambda>res s.
       if res > 0 then (Ok res, s)
       else if (case deadline of None \<Rightarrow> False | Some ddl \<Rightarrow> rd_now rd \<ge> ddl) then (Ok 0, s)
       else select_loop B rds deadline sets s) s"

text \<open>\<open>timeout\<close> is a duration; \<open>start\<close> is the time of the call.\<close>

definition sys_select :: "'b Bitmap \<Rightarrow> ('b, 'f) round list \<Rightarrow> nat \<Rightarrow> int \<Rightarrow> fd_set \<Rightarrow> fd_set \<Rightarrow> fd_set \<Rightarrow> nat option \<Rightarrow>
    (int, LinuxError) result \<times> fd_set \<times> fd_set \<times> fd_set" where
  "sys_select B rds start nfds rs ws es timeout =
     (if nfds < 0 then (Ok (- LinuxError_code EINVAL), (rs, ws, es))
      else let n = min (nat nfds) FD_SETSIZE; deadline = map_option (\<lambda>t. start + t) timeout; sets = FdSets_from n rs ws es;
        s0 = \<lparr>sel_read = zero_fd_set rs n, sel_write = zero_fd_set ws n, sel_except = zero_fd_set es n, sel_num = 0\<rparr> in
      case select_loop B rds deadline sets s0 of
        (r, s) \<Rightarrow> (fst (syscall_body (res_bind r (\<lambda>n. Ok (int n)), s)), (sel_read s, sel_write s, sel_except s)))"

subsection \<open>\<open>epoll\<close>\<close>

definition EPOLLIN :: u32 where "EPOLLIN = 1"
definition EPOLLOUT :: u32 where "EPOLLOUT = 4"
definition EPOLLERR :: u32 where "EPOLLERR = 8"
definition EPOLL_CTL_ADD :: u32 where "EPOLL_CTL_ADD = 1"
definition EPOLL_CTL_DEL :: u32 where "EPOLL_CTL_DEL = 2"
definition EPOLL_CTL_MOD :: u32 where "EPOLL_CTL_MOD = 3"

record epoll_event =
  ev_events :: u32
  ev_data :: u64

text \<open>\<open>epoll_create\<close> adds \<open>inst\<close>, the file for a new instance.\<close>

definition sys_epoll_create :: "'b Bitmap \<Rightarrow> 'f \<Rightarrow> int \<Rightarrow> (('b, 'f) FdTable, int, LinuxError) action" where
  "sys_epoll_create B inst sz t = syscall_body (if sz < 0 then (Err EINVAL, t) else add_file_like B inst t)"

text \<open>An instance maps descriptors, as \<open>usize\<close>, to the events to wait for.\<close>

type_synonym EpollInstance = "(nat, epoll_event) btree"

definition epoll_control ::
  "'b Bitmap \<Rightarrow> ('b, 'f) FdTable \<Rightarrow> usize \<Rightarrow> int \<Rightarrow> epoll_event \<Rightarrow> (EpollInstance, nat, LinuxError) action" where
  "epoll_control B t op fd event m = (case get_file_like B fd t of
       Ok _ \<Rightarrow>
         (let key = as_usize fd; op32 = (ucast op :: u32) in
          if op32 = EPOLL_CTL_ADD then
            (if map_of m key = None then (Ok 0, bt_insert key event m) else (Err EEXIST, m))
          else if op32 = EPOLL_CTL_MOD then
            (if map_of m key = None then (Err ENOENT, m) else (Ok 0, bt_insert key event m))
          else if op32 = EPOLL_CTL_DEL then
            (if map_of m key = None then (Err ENOENT, m) else (Ok 0, bt_remove key m))
          else (Err EINVAL, m))
     | Err e \<Rightarrow> (Err e, m)
     | Panic \<Rightarrow> (Panic, m)
     | Diverge \<Rightarrow> (Diverge, m))"

text \<open>The events of the user and the number of those that are filled; the index is checked by the slice.\<close>

type_synonym ep_action = "(epoll_event list \<times> nat, unit, LinuxError) action"

definition put_event :: "u32 \<Rightarrow> u64 \<Rightarrow> ep_action" where
  "put_event what data s = (case s of (events, n) \<Rightarrow>
     if n < length events then (Ok (), (events[n := \<lparr>ev_events = what, ev_data = data\<rparr>], n + 1)) else (Panic, s))"

definition put_when :: "bool \<Rightarrow> u32 \<Rightarrow> u64 \<Rightarrow> ep_action" where
  "put_when b what data s = (if b then put_event what data s else (Ok (), s))"

text \<open>The key \<open>infd as c_int\<close>.\<close>

definition as_c_int :: "nat \<Rightarrow> int" where
  "as_c_int n = (let x = int n mod 2 ^ 32 in if x < 2 ^ 31 then x else x - 2 ^ 32)"

fun epoll_loop :: "(int \<Rightarrow> ((PollState, LinuxError) result, LinuxError) result) \<Rightarrow> EpollInstance \<Rightarrow> ep_action" where
  "epoll_loop P [] s = (Ok (), s)"
| "epoll_loop P ((infd, ev) # m) s = (case P (as_c_int infd) of
       Ok (Err _) \<Rightarrow> and_then (put_when (ev_events ev AND EPOLLERR \<noteq> 0) EPOLLERR (ev_data ev)) (\<lambda>_. epoll_loop P m) s
     | Ok (Ok state) \<Rightarrow>
         and_then (put_when (poll_readable state \<and> ev_events ev AND EPOLLIN \<noteq> 0) EPOLLIN (ev_data ev)) (\<lambda>_.
         and_then (put_when (poll_writable state \<and> ev_events ev AND EPOLLOUT \<noteq> 0) EPOLLOUT (ev_data ev)) (\<lambda>_. epoll_loop P m)) s
     | Err e \<Rightarrow> (Err e, s)
     | Ok Diverge \<Rightarrow> (Diverge, s)
     | Diverge \<Rightarrow> (Diverge, s)
     | _ \<Rightarrow> (Panic, s))"

definition epoll_poll_all :: "(int \<Rightarrow> ((PollState, LinuxError) result, LinuxError) result) \<Rightarrow> EpollInstance \<Rightarrow> (epoll_event list, nat, LinuxError) action" where
  "epoll_poll_all P m events = (case epoll_loop P m (events, 0) of
     (r, (events', n)) \<Rightarrow> (res_bind r (\<lambda>_. Ok n), events'))"

text \<open>
  A round of \<open>epoll_wait\<close> also has the instance, which other threads may change. \<open>into_epoll\<close> is the downcast of the file
  behind \<open>epfd\<close> at the time of the call.
\<close>

fun epoll_wait_loop :: "'b Bitmap \<Rightarrow> (('b, 'f) round \<times> EpollInstance) list \<Rightarrow> nat option \<Rightarrow> (epoll_event list, nat, LinuxError) action" where
  "epoll_wait_loop B [] deadline events = (Diverge, events)"
| "epoll_wait_loop B ((rd, m) # rds) deadline events =
     and_then (epoll_poll_all (file_poll B rd) m) (\<lambda>n events.
       if n > 0 then (Ok n, events)
       else if (case deadline of None \<Rightarrow> False | Some ddl \<Rightarrow> rd_now rd \<ge> ddl) then (Ok 0, events)
       else epoll_wait_loop B rds deadline events) events"

definition sys_epoll_wait ::
  "'b Bitmap \<Rightarrow> ('b, 'f) FdTable \<Rightarrow> ('f \<Rightarrow> bool) \<Rightarrow> (('b, 'f) round \<times> EpollInstance) list \<Rightarrow> nat \<Rightarrow> int \<Rightarrow> epoll_event list \<Rightarrow> int \<Rightarrow>
    (int, LinuxError) result \<times> epoll_event list" where
  "sys_epoll_wait B t is_epoll rds start epfd events timeout =
     syscall_body (and_then (\<lambda>ev. (if ev = [] then Err EINVAL else Ok (), ev)) (\<lambda>_.
       and_then (\<lambda>ev. (res_bind (get_file_like B epfd t) (\<lambda>f. if is_epoll f then Ok () else Err EINVAL), ev)) (\<lambda>_ ev.
         case epoll_wait_loop B rds (if timeout < 0 then None else Some (start + nat timeout)) ev of
           (r, ev') \<Rightarrow> (res_bind r (\<lambda>n. Ok (int n)), ev'))) events)"

definition sys_epoll_ctl ::
  "'b Bitmap \<Rightarrow> ('b, 'f) FdTable \<Rightarrow> ('f \<Rightarrow> bool) \<Rightarrow> int \<Rightarrow> int \<Rightarrow> int \<Rightarrow> epoll_event \<Rightarrow> (EpollInstance, int, LinuxError) action" where
  "sys_epoll_ctl B t is_epoll epfd op fd event m =
     syscall_body (and_then (\<lambda>m. (res_bind (get_file_like B epfd t) (\<lambda>f. if is_epoll f then Ok () else Err EINVAL), m)) (\<lambda>_ m.
       case epoll_control B t (word_of_int op) fd event m of (r, m') \<Rightarrow> (res_bind r (\<lambda>n. Ok (int n)), m')) m)"

subsection \<open>The loops of \<open>select\<close> look at every descriptor once\<close>

lemma has_bit_bit: "has_bit w j = bit w j"
  by (simp add: has_bit_def bit_iff_and_push_bit_not_eq_0)

fun scan :: "(nat \<Rightarrow> ((PollState, LinuxError) result, LinuxError) result) \<Rightarrow> (nat \<Rightarrow> bool) \<Rightarrow> (nat \<Rightarrow> bool) \<Rightarrow> (nat \<Rightarrow> bool) \<Rightarrow> nat list \<Rightarrow> sel_action" where
  "scan P r w e [] s = (Ok (), s)"
| "scan P r w e (fd # fds) s =
     and_then (if r fd \<or> w fd \<or> e fd then select_fd P fd (r fd) (w fd) (e fd) else (\<lambda>s. (Ok (), s))) (\<lambda>_. scan P r w e fds) s"

lemma and_then_assoc: "and_then (and_then m f) g s = and_then m (\<lambda>a. and_then (f a) g) s"
  by (simp add: and_then_def split: prod.splits result.splits)

lemma and_then_skip [simp]: "and_then (\<lambda>s. (Ok (), s)) (\<lambda>_. m) s = m s"
  by (simp add: and_then_def)

lemma scan_append: "scan P r w e (xs @ ys) s = and_then (scan P r w e xs) (\<lambda>_. scan P r w e ys) s"
proof (induction xs arbitrary: s)
  case (Cons x xs)
  have "scan P r w e (xs @ ys) = and_then (scan P r w e xs) (\<lambda>_. scan P r w e ys)" using Cons by (simp add: fun_eq_iff)
  then show ?case by (simp add: and_then_def split: prod.splits result.splits)
qed (simp add: and_then_def)

lemma scan_cong:
  assumes "\<And>fd. fd \<in> set xs \<Longrightarrow> r fd = r' fd \<and> w fd = w' fd \<and> e fd = e' fd"
  shows "scan P r w e xs s = scan P r' w' e' xs s"
  using assms
proof (induction xs arbitrary: s)
  case (Cons x xs)
  have "scan P r w e xs = scan P r' w' e' xs" using Cons by (simp add: fun_eq_iff)
  then show ?case using Cons.prems [of x] by simp
qed simp

lemma scan_none: "(\<And>fd. fd \<in> set xs \<Longrightarrow> \<not> r fd \<and> \<not> w fd \<and> \<not> e fd) \<Longrightarrow> scan P r w e xs s = (Ok (), s)"
  by (induction xs) simp_all

lemma bit_loop_scan:
  "j \<le> 64 \<Longrightarrow> bit_loop P nfds i (rb, wb, eb) [j..<64] s =
     scan P (\<lambda>fd. bit rb (fd - i)) (\<lambda>fd. bit wb (fd - i)) (\<lambda>fd. bit eb (fd - i)) [i + j..<min nfds (i + 64)] s"
proof (induction "64 - j" arbitrary: j s)
  case 0
  then show ?case by simp
next
  case (Suc k)
  then have j: "[j..<64] = j # [Suc j..<64]" by (simp add: upt_conv_Cons)
  show ?case
  proof (cases "i + j < nfds")
    case False
    then show ?thesis by (simp add: j)
  next
    case True
    then have up: "[i + j..<min nfds (i + 64)] = (i + j) # [i + Suc j..<min nfds (i + 64)]" using Suc by (simp add: upt_conv_Cons)
    have IH: "bit_loop P nfds i (rb, wb, eb) [Suc j..<64] =
        scan P (\<lambda>fd. bit rb (fd - i)) (\<lambda>fd. bit wb (fd - i)) (\<lambda>fd. bit eb (fd - i)) [i + Suc j..<min nfds (i + 64)]"
      using Suc.hyps(1) [of "Suc j"] Suc.hyps(2) by (simp add: fun_eq_iff)
    show ?thesis unfolding j up using True IH by (simp add: has_bit_bit bit_or_iff)
  qed
qed

lemma word_loop_scan:
  "nfds \<le> i + 64 * length ws \<Longrightarrow> word_loop P nfds i ws s =
     scan P (\<lambda>fd. bit (fst (ws ! ((fd - i) div 64))) ((fd - i) mod 64)) (\<lambda>fd. bit (fst (snd (ws ! ((fd - i) div 64)))) ((fd - i) mod 64))
       (\<lambda>fd. bit (snd (snd (ws ! ((fd - i) div 64)))) ((fd - i) mod 64)) [i..<nfds] s"
proof (induction ws arbitrary: i s)
  case (Cons x ws)
  obtain rb wb eb where x: "x = (rb, wb, eb)" by (cases x)
  let ?s = "\<lambda>xs i fds. scan P (\<lambda>fd. bit (fst (xs ! ((fd - i) div 64))) ((fd - i) mod 64)) (\<lambda>fd. bit (fst (snd (xs ! ((fd - i) div 64)))) ((fd - i) mod 64))
       (\<lambda>fd. bit (snd (snd (xs ! ((fd - i) div 64)))) ((fd - i) mod 64)) fds"
  show ?case
  proof (cases "i < nfds")
    case True
    have IH: "word_loop P nfds (i + 64) ws = ?s ws (i + 64) [i + 64..<nfds]" using Cons by (simp add: fun_eq_iff)
    have sh: "(fd - i) div 64 = Suc ((fd - (i + 64)) div 64) \<and> (fd - i) mod 64 = (fd - (i + 64)) mod 64" if "i + 64 \<le> fd" for fd
    proof -
      have "fd - i = (fd - (i + 64)) + 64" using that by simp
      then show ?thesis by (metis add_Suc_right add_0_right div_add_self2 mod_add_self2 zero_neq_numeral One_nat_def add.commute plus_1_eq_Suc)
    qed
    have rest: "?s (x # ws) i [i + 64..<nfds] = ?s ws (i + 64) [i + 64..<nfds]"
      by (rule ext, rule scan_cong) (use sh in auto)
    have first: "?s (x # ws) i [i..<min nfds (i + 64)] =
        scan P (\<lambda>fd. bit rb (fd - i)) (\<lambda>fd. bit wb (fd - i)) (\<lambda>fd. bit eb (fd - i)) [i..<min nfds (i + 64)]"
      by (rule ext, rule scan_cong) (auto simp: x)
    have "[i..<nfds] = [i..<min nfds (i + 64)] @ [i + 64..<nfds]"
    proof (cases "nfds \<le> i + 64")
      case False
      then show ?thesis by (simp add: min_def upt_add_eq_append [symmetric] le_add_diff_inverse) (metis le_add1 le_add_diff_inverse nat_le_linear upt_add_eq_append)
    qed (simp add: min_def)
    then have "?s (x # ws) i [i..<nfds] s = and_then (?s (x # ws) i [i..<min nfds (i + 64)]) (\<lambda>_. ?s (x # ws) i [i + 64..<nfds]) s"
      by (simp only: scan_append)
    also have "\<dots> = and_then (bit_loop P nfds i (rb, wb, eb) [0..<64]) (\<lambda>_. word_loop P nfds (i + 64) ws) s"
      using bit_loop_scan [of 0 P nfds i rb wb eb] by (simp only: rest first IH add_0_right) (simp add: fun_eq_iff and_then_def)
    also have "\<dots> = word_loop P nfds i (x # ws) s"
    proof (cases "rb OR wb OR eb = 0")
      case z: True
      then have "rb = 0 \<and> wb = 0 \<and> eb = 0" by (metis or_eq_0_iff)
      then have "bit_loop P nfds i (rb, wb, eb) [0..<64] s = (Ok (), s)" for s
        using bit_loop_scan [of 0 P nfds i rb wb eb s] by (simp add: scan_none)
      then show ?thesis using True z by (simp add: x BITS_PER_USIZE_def and_then_def)
    qed (use True in \<open>simp add: x BITS_PER_USIZE_def\<close>)
    finally show ?thesis by simp
  qed (simp add: x)
qed simp

subsection \<open>What is reported\<close>

definition isset :: "fd_set \<Rightarrow> nat \<Rightarrow> bool" where
  "isset fds fd \<longleftrightarrow> (case fds of None \<Rightarrow> False | Some ws \<Rightarrow> fd div 64 < length ws \<and> bit (ws ! (fd div 64)) (fd mod 64))"

definition fd_set_ok :: "fd_set \<Rightarrow> bool" where
  "fd_set_ok fds \<longleftrightarrow> (case fds of None \<Rightarrow> True | Some ws \<Rightarrow> length ws = 16)"

lemma set_fd_set_run:
  assumes "fd_set_ok fds" and "fd < 1024"
  shows "\<exists>f. set_fd_set fds fd = Ok f \<and> fd_set_ok f \<and> (f = None \<longleftrightarrow> fds = None) \<and>
    (\<forall>x. isset f x \<longleftrightarrow> isset fds x \<or> fds \<noteq> None \<and> x = fd)"
proof (cases fds)
  case (Some ws)
  have k: "fd div 64 < length ws" using assms by (simp add: fd_set_ok_def Some)
  have "(1 :: usize) = 1" "fd mod 64 < 64" by simp_all
  then have "bit (push_bit (fd mod 64) 1 :: usize) j \<longleftrightarrow> j = fd mod 64" for j
    by (auto simp: bit_push_bit_iff bit_1_iff bit_exp_iff)
  moreover have "x = fd \<longleftrightarrow> x div 64 = fd div 64 \<and> x mod 64 = fd mod 64" for x by (metis div_mult_mod_eq)
  ultimately have "isset (Some (ws[fd div 64 := ws ! (fd div 64) OR push_bit (fd mod 64) 1])) x \<longleftrightarrow> isset fds x \<or> fds \<noteq> None \<and> x = fd" for x
    using k by (auto simp: isset_def Some nth_list_update bit_or_iff)
  then show ?thesis using assms(1) k by (auto simp: set_fd_set_def Some BITS_PER_USIZE_def fd_set_ok_def Let_def)
qed (simp add: set_fd_set_def fd_set_ok_def isset_def)

text \<open>The sets \<open>r\<close>, \<open>w\<close> and \<open>e\<close> that are asked for, and what is ready among them.\<close>

definition ready_read :: "(nat \<Rightarrow> ((PollState, LinuxError) result, LinuxError) result) \<Rightarrow> (nat \<Rightarrow> bool) \<Rightarrow> nat \<Rightarrow> bool" where
  "ready_read P r fd \<longleftrightarrow> r fd \<and> (case P fd of Ok (Ok st) \<Rightarrow> poll_readable st | _ \<Rightarrow> False)"

definition ready_write :: "(nat \<Rightarrow> ((PollState, LinuxError) result, LinuxError) result) \<Rightarrow> (nat \<Rightarrow> bool) \<Rightarrow> nat \<Rightarrow> bool" where
  "ready_write P w fd \<longleftrightarrow> w fd \<and> (case P fd of Ok (Ok st) \<Rightarrow> poll_writable st | _ \<Rightarrow> False)"

definition ready_except :: "(nat \<Rightarrow> ((PollState, LinuxError) result, LinuxError) result) \<Rightarrow> (nat \<Rightarrow> bool) \<Rightarrow> nat \<Rightarrow> bool" where
  "ready_except P e fd \<longleftrightarrow> e fd \<and> (case P fd of Ok (Err x) \<Rightarrow> True | _ \<Rightarrow> False)"

definition polled :: "((PollState, LinuxError) result, LinuxError) result \<Rightarrow> bool" where
  "polled p \<longleftrightarrow> (case p of Ok (Ok _) \<Rightarrow> True | Ok (Err _) \<Rightarrow> True | _ \<Rightarrow> False)"

definition sel_ok :: "SelState \<Rightarrow> bool" where
  "sel_ok s \<longleftrightarrow> fd_set_ok (sel_read s) \<and> fd_set_ok (sel_write s) \<and> fd_set_ok (sel_except s)"

text \<open>From \<open>s\<close> to \<open>t\<close> the sets have gained the members that are ready, unless they are null.\<close>

definition gained :: "(nat \<Rightarrow> bool) \<Rightarrow> (nat \<Rightarrow> bool) \<Rightarrow> (nat \<Rightarrow> bool) \<Rightarrow> SelState \<Rightarrow> SelState \<Rightarrow> bool" where
  "gained R W E s t \<longleftrightarrow> sel_ok t \<and> (sel_read t = None \<longleftrightarrow> sel_read s = None) \<and> (sel_write t = None \<longleftrightarrow> sel_write s = None) \<and>
     (sel_except t = None \<longleftrightarrow> sel_except s = None) \<and>
     (\<forall>x. isset (sel_read t) x \<longleftrightarrow> isset (sel_read s) x \<or> sel_read s \<noteq> None \<and> R x) \<and>
     (\<forall>x. isset (sel_write t) x \<longleftrightarrow> isset (sel_write s) x \<or> sel_write s \<noteq> None \<and> W x) \<and>
     (\<forall>x. isset (sel_except t) x \<longleftrightarrow> isset (sel_except s) x \<or> sel_except s \<noteq> None \<and> E x)"

lemma gained_refl: "sel_ok s \<Longrightarrow> gained (\<lambda>_. False) (\<lambda>_. False) (\<lambda>_. False) s s"
  by (simp add: gained_def)

lemma gained_trans: "gained R W E s t \<Longrightarrow> gained R' W' E' t u \<Longrightarrow> gained (\<lambda>x. R x \<or> R' x) (\<lambda>x. W x \<or> W' x) (\<lambda>x. E x \<or> E' x) s u"
  by (auto simp: gained_def)

lemma mark_read_run:
  assumes ok: "sel_ok s" and fd: "fd < 1024"
  shows "\<exists>t. sel_when b (mark_read fd) s = (Ok (), t) \<and> gained (\<lambda>x. b \<and> x = fd) (\<lambda>_. False) (\<lambda>_. False) s t \<and> sel_num t = sel_num s + of_bool b"
proof (cases b)
  case True
  obtain f where f: "set_fd_set (sel_read s) fd = Ok f" "fd_set_ok f" "f = None \<longleftrightarrow> sel_read s = None"
      "\<forall>x. isset f x \<longleftrightarrow> isset (sel_read s) x \<or> sel_read s \<noteq> None \<and> x = fd"
  proof -
    have "fd_set_ok (sel_read s)" using ok by (simp add: sel_ok_def)
    from set_fd_set_run [OF this fd] show thesis by (elim exE conjE) (rule that)
  qed
  then show ?thesis using ok True
    by (intro exI [of _ "s\<lparr>sel_read := f, sel_num := sel_num s + 1\<rparr>"]) (simp add: sel_when_def mark_read_def gained_def sel_ok_def)
qed (use gained_refl [OF ok] in \<open>simp add: sel_when_def\<close>)

lemma mark_write_run:
  assumes ok: "sel_ok s" and fd: "fd < 1024"
  shows "\<exists>t. sel_when b (mark_write fd) s = (Ok (), t) \<and> gained (\<lambda>_. False) (\<lambda>x. b \<and> x = fd) (\<lambda>_. False) s t \<and> sel_num t = sel_num s + of_bool b"
proof (cases b)
  case True
  obtain f where f: "set_fd_set (sel_write s) fd = Ok f" "fd_set_ok f" "f = None \<longleftrightarrow> sel_write s = None"
      "\<forall>x. isset f x \<longleftrightarrow> isset (sel_write s) x \<or> sel_write s \<noteq> None \<and> x = fd"
  proof -
    have "fd_set_ok (sel_write s)" using ok by (simp add: sel_ok_def)
    from set_fd_set_run [OF this fd] show thesis by (elim exE conjE) (rule that)
  qed
  then show ?thesis using ok True
    by (intro exI [of _ "s\<lparr>sel_write := f, sel_num := sel_num s + 1\<rparr>"]) (simp add: sel_when_def mark_write_def gained_def sel_ok_def)
qed (use gained_refl [OF ok] in \<open>simp add: sel_when_def\<close>)

lemma mark_except_run:
  assumes ok: "sel_ok s" and fd: "fd < 1024"
  shows "\<exists>t. sel_when b (mark_except fd) s = (Ok (), t) \<and> gained (\<lambda>_. False) (\<lambda>_. False) (\<lambda>x. b \<and> x = fd) s t \<and> sel_num t = sel_num s + of_bool b"
proof (cases b)
  case True
  obtain f where f: "set_fd_set (sel_except s) fd = Ok f" "fd_set_ok f" "f = None \<longleftrightarrow> sel_except s = None"
      "\<forall>x. isset f x \<longleftrightarrow> isset (sel_except s) x \<or> sel_except s \<noteq> None \<and> x = fd"
  proof -
    have "fd_set_ok (sel_except s)" using ok by (simp add: sel_ok_def)
    from set_fd_set_run [OF this fd] show thesis by (elim exE conjE) (rule that)
  qed
  then show ?thesis using ok True
    by (intro exI [of _ "s\<lparr>sel_except := f, sel_num := sel_num s + 1\<rparr>"]) (simp add: sel_when_def mark_except_def gained_def sel_ok_def)
qed (use gained_refl [OF ok] in \<open>simp add: sel_when_def\<close>)

lemma select_fd_run:
  assumes ok: "sel_ok s" and fd: "fd < 1024" and p: "polled (P fd)"
  shows "\<exists>t. select_fd P fd (r fd) (w fd) (e fd) s = (Ok (), t) \<and>
    gained (\<lambda>x. ready_read P r fd \<and> x = fd) (\<lambda>x. ready_write P w fd \<and> x = fd) (\<lambda>x. ready_except P e fd \<and> x = fd) s t \<and>
    sel_num t = sel_num s + of_bool (ready_read P r fd) + of_bool (ready_write P w fd) + of_bool (ready_except P e fd)"
proof -
  consider st where "P fd = Ok (Ok st)" | x where "P fd = Ok (Err x)" using p by (auto simp: polled_def split: result.splits)
  then show ?thesis
  proof cases
    case 1
    obtain t where t: "sel_when (poll_readable st \<and> r fd) (mark_read fd) s = (Ok (), t)"
        "gained (\<lambda>x. (poll_readable st \<and> r fd) \<and> x = fd) (\<lambda>_. False) (\<lambda>_. False) s t" "sel_num t = sel_num s + of_bool (poll_readable st \<and> r fd)"
      using mark_read_run [OF ok fd] by blast
    then have "sel_ok t" by (simp add: gained_def)
    then obtain u where u: "sel_when (poll_writable st \<and> w fd) (mark_write fd) t = (Ok (), u)"
        "gained (\<lambda>_. False) (\<lambda>x. (poll_writable st \<and> w fd) \<and> x = fd) (\<lambda>_. False) t u" "sel_num u = sel_num t + of_bool (poll_writable st \<and> w fd)"
      using mark_write_run [OF _ fd] by blast
    show ?thesis
      using gained_trans [OF t(2) u(2)] t(1,3) u(1,3)
      by (intro exI [of _ u]) (simp add: select_fd_def 1 and_then_def ready_read_def ready_write_def ready_except_def conj_commute)
  next
    case 2
    then show ?thesis using mark_except_run [OF ok fd, of "e fd"] by (simp add: select_fd_def ready_read_def ready_write_def ready_except_def)
  qed
qed

lemma scan_run:
  assumes "sel_ok s" and "\<forall>fd \<in> set xs. fd < 1024" and "\<forall>fd \<in> set xs. r fd \<or> w fd \<or> e fd \<longrightarrow> polled (P fd)"
  shows "\<exists>t. scan P r w e xs s = (Ok (), t) \<and>
    gained (\<lambda>x. x \<in> set xs \<and> ready_read P r x) (\<lambda>x. x \<in> set xs \<and> ready_write P w x) (\<lambda>x. x \<in> set xs \<and> ready_except P e x) s t \<and>
    sel_num t = sel_num s + length (filter (ready_read P r) xs) + length (filter (ready_write P w) xs) + length (filter (ready_except P e) xs)"
  using assms
proof (induction xs arbitrary: s)
  case Nil
  then show ?case using gained_refl by auto
next
  case (Cons fd xs)
  let ?m = "if r fd \<or> w fd \<or> e fd then select_fd P fd (r fd) (w fd) (e fd) else (\<lambda>s. (Ok (), s))"
  obtain t where t: "?m s = (Ok (), t)"
      "gained (\<lambda>x. ready_read P r fd \<and> x = fd) (\<lambda>x. ready_write P w fd \<and> x = fd) (\<lambda>x. ready_except P e fd \<and> x = fd) s t"
      "sel_num t = sel_num s + of_bool (ready_read P r fd) + of_bool (ready_write P w fd) + of_bool (ready_except P e fd)"
  proof (cases "r fd \<or> w fd \<or> e fd")
    case True
    then show thesis using that select_fd_run [of s fd P r w e] Cons.prems by auto
  next
    case False
    then show thesis using that [of s] gained_refl [OF Cons.prems(1)] by (simp add: ready_read_def ready_write_def ready_except_def)
  qed
  then have "sel_ok t" by (simp add: gained_def)
  then obtain u where u: "scan P r w e xs t = (Ok (), u)"
      "gained (\<lambda>x. x \<in> set xs \<and> ready_read P r x) (\<lambda>x. x \<in> set xs \<and> ready_write P w x) (\<lambda>x. x \<in> set xs \<and> ready_except P e x) t u"
      "sel_num u = sel_num t + length (filter (ready_read P r) xs) + length (filter (ready_write P w) xs) + length (filter (ready_except P e) xs)"
    using Cons.IH [of t] Cons.prems by auto
  have "(\<lambda>x. ready_read P r fd \<and> x = fd \<or> x \<in> set xs \<and> ready_read P r x) = (\<lambda>x. x \<in> set (fd # xs) \<and> ready_read P r x)"
    "(\<lambda>x. ready_write P w fd \<and> x = fd \<or> x \<in> set xs \<and> ready_write P w x) = (\<lambda>x. x \<in> set (fd # xs) \<and> ready_write P w x)"
    "(\<lambda>x. ready_except P e fd \<and> x = fd \<or> x \<in> set xs \<and> ready_except P e x) = (\<lambda>x. x \<in> set (fd # xs) \<and> ready_except P e x)" by auto
  then have "gained (\<lambda>x. x \<in> set (fd # xs) \<and> ready_read P r x) (\<lambda>x. x \<in> set (fd # xs) \<and> ready_write P w x)
      (\<lambda>x. x \<in> set (fd # xs) \<and> ready_except P e x) s u"
    using gained_trans [OF t(2) u(2)] by simp
  moreover have "scan P r w e (fd # xs) s = (Ok (), u)" using u(1) unfolding scan.simps and_then_run [where m = ?m, OF t(1)] .
  ultimately show ?case using t(3) u(3) by auto
qed

lemma div_ceil_less: "fd < n \<Longrightarrow> fd div 64 < div_ceil n 64"
  by (simp add: div_ceil_def)

lemma div_ceil_16: "n \<le> 1024 \<Longrightarrow> div_ceil n 64 \<le> 16"
  by (simp add: div_ceil_def)

lemma copied_bits:
  assumes "fd_set_ok fds" and "n \<le> 1024"
  shows "length (copy_from_fd_set (div_ceil n 64) fds) = div_ceil n 64"
    and "fd < n \<Longrightarrow> bit (copy_from_fd_set (div_ceil n 64) fds ! (fd div 64)) (fd mod 64) = isset fds fd"
  using assms div_ceil_less [of fd n] div_ceil_16 [of n]
  by (auto simp: copy_from_fd_set_def fd_set_ok_def isset_def split: option.splits)

lemma zeroed_bits:
  assumes "fd_set_ok fds" and "n \<le> 1024"
  shows "fd_set_ok (zero_fd_set fds n)" and "zero_fd_set fds n = None \<longleftrightarrow> fds = None" and "fd < n \<Longrightarrow> \<not> isset (zero_fd_set fds n) fd"
  using assms div_ceil_less [of fd n] div_ceil_16 [of n]
  by (auto simp: zero_fd_set_def fd_set_ok_def isset_def BITS_PER_USIZE_def nth_append Let_def split: option.splits)

lemma length_filter_below: "length (filter p [0..<n]) = card {x. x < n \<and> p x}"
proof -
  have "length (filter p [0..<n]) = card (set (filter p [0..<n]))" by (rule distinct_card [symmetric]) simp
  then show ?thesis by (simp add: conj_commute)
qed

definition ready_count :: "(nat \<Rightarrow> ((PollState, LinuxError) result, LinuxError) result) \<Rightarrow> fd_set \<Rightarrow> fd_set \<Rightarrow> fd_set \<Rightarrow> nat \<Rightarrow> nat" where
  "ready_count P rs ws es n = card {x. x < n \<and> ready_read P (isset rs) x} + card {x. x < n \<and> ready_write P (isset ws) x} +
     card {x. x < n \<and> ready_except P (isset es) x}"

definition asked :: "fd_set \<Rightarrow> fd_set \<Rightarrow> fd_set \<Rightarrow> nat \<Rightarrow> bool" where
  "asked rs ws es fd \<longleftrightarrow> isset rs fd \<or> isset ws fd \<or> isset es fd"

lemma select_poll_all_run:
  assumes sets: "fd_set_ok rs" "fd_set_ok ws" "fd_set_ok es" and n: "n \<le> 1024" and s: "sel_ok s"
    and p: "\<forall>fd < n. asked rs ws es fd \<longrightarrow> polled (P fd)"
  shows "\<exists>t. select_poll_all P (FdSets_from n rs ws es) s = (Ok (ready_count P rs ws es n), t) \<and>
    gained (\<lambda>x. x < n \<and> ready_read P (isset rs) x) (\<lambda>x. x < n \<and> ready_write P (isset ws) x) (\<lambda>x. x < n \<and> ready_except P (isset es) x) s t"
proof -
  let ?k = "div_ceil n 64"
  let ?r = "copy_from_fd_set ?k rs" and ?w = "copy_from_fd_set ?k ws" and ?e = "copy_from_fd_set ?k es"
  note len = copied_bits(1) [OF sets(1) n] copied_bits(1) [OF sets(2) n] copied_bits(1) [OF sets(3) n]
  have "n \<le> 0 + 64 * length (zip ?r (zip ?w ?e))" using len by (simp add: div_ceil_def)
  note wl = word_loop_scan [OF this, of P "s\<lparr>sel_num := 0\<rparr>"]
  also have "scan P (\<lambda>fd. bit (fst (zip ?r (zip ?w ?e) ! ((fd - 0) div 64))) ((fd - 0) mod 64)) (\<lambda>fd. bit (fst (snd (zip ?r (zip ?w ?e) ! ((fd - 0) div 64)))) ((fd - 0) mod 64))
       (\<lambda>fd. bit (snd (snd (zip ?r (zip ?w ?e) ! ((fd - 0) div 64)))) ((fd - 0) mod 64)) [0..<n] (s\<lparr>sel_num := 0\<rparr>) =
     scan P (isset rs) (isset ws) (isset es) [0..<n] (s\<lparr>sel_num := 0\<rparr>)"
    by (rule scan_cong) (use len div_ceil_less copied_bits(2) [OF sets(1) n] copied_bits(2) [OF sets(2) n] copied_bits(2) [OF sets(3) n] in auto)
  finally have w: "word_loop P n 0 (zip ?r (zip ?w ?e)) (s\<lparr>sel_num := 0\<rparr>) = scan P (isset rs) (isset ws) (isset es) [0..<n] (s\<lparr>sel_num := 0\<rparr>)" .
  have "sel_ok (s\<lparr>sel_num := 0\<rparr>)" using s by (simp add: sel_ok_def)
  then obtain t where t: "scan P (isset rs) (isset ws) (isset es) [0..<n] (s\<lparr>sel_num := 0\<rparr>) = (Ok (), t)"
      "gained (\<lambda>x. x < n \<and> ready_read P (isset rs) x) (\<lambda>x. x < n \<and> ready_write P (isset ws) x) (\<lambda>x. x < n \<and> ready_except P (isset es) x) (s\<lparr>sel_num := 0\<rparr>) t"
      "sel_num t = ready_count P rs ws es n"
    using scan_run [of "s\<lparr>sel_num := 0\<rparr>" "[0..<n]" "isset rs" "isset ws" "isset es" P] n p
    by (auto simp: asked_def ready_count_def length_filter_below)
  have "gained R W E (s\<lparr>sel_num := 0\<rparr>) t = gained R W E s t" for R W E by (simp add: gained_def)
  then show ?thesis
    using t w n by (intro exI [of _ t]) (simp add: select_poll_all_def FdSets_from_def FD_SETSIZE_def BITS_PER_USIZE_def and_then_def Let_def min_def)
qed

lemma select_loop_run:
  assumes sets: "fd_set_ok rs" "fd_set_ok ws" "fd_set_ok es" and n: "n \<le> 1024"
    and p: "\<forall>rd' \<in> set (quiet @ [rd]). \<forall>fd < n. asked rs ws es fd \<longrightarrow> polled (file_poll B rd' (int fd))"
    and q: "\<forall>rd' \<in> set quiet. ready_count (\<lambda>fd. file_poll B rd' (int fd)) rs ws es n = 0 \<and> (\<forall>ddl. deadline = Some ddl \<longrightarrow> rd_now rd' < ddl)"
    and last: "ready_count (\<lambda>fd. file_poll B rd (int fd)) rs ws es n > 0 \<or> (\<exists>ddl. deadline = Some ddl \<and> ddl \<le> rd_now rd)"
  shows "sel_ok s \<Longrightarrow> (\<forall>x < n. \<not> isset (sel_read s) x \<and> \<not> isset (sel_write s) x \<and> \<not> isset (sel_except s) x) \<Longrightarrow>
    (sel_read s = None \<longleftrightarrow> rs = None) \<and> (sel_write s = None \<longleftrightarrow> ws = None) \<and> (sel_except s = None \<longleftrightarrow> es = None) \<Longrightarrow>
    \<exists>t. select_loop B (quiet @ rd # rest) deadline (FdSets_from n rs ws es) s = (Ok (ready_count (\<lambda>fd. file_poll B rd (int fd)) rs ws es n), t) \<and>
    (\<forall>x < n. (isset (sel_read t) x \<longleftrightarrow> ready_read (\<lambda>fd. file_poll B rd (int fd)) (isset rs) x) \<and>
      (isset (sel_write t) x \<longleftrightarrow> ready_write (\<lambda>fd. file_poll B rd (int fd)) (isset ws) x) \<and>
      (isset (sel_except t) x \<longleftrightarrow> ready_except (\<lambda>fd. file_poll B rd (int fd)) (isset es) x))"
  using p q
proof (induction quiet arbitrary: s)
  case Nil
  obtain t where t: "select_poll_all (\<lambda>fd. file_poll B rd (int fd)) (FdSets_from n rs ws es) s = (Ok (ready_count (\<lambda>fd. file_poll B rd (int fd)) rs ws es n), t)"
      "gained (\<lambda>x. x < n \<and> ready_read (\<lambda>fd. file_poll B rd (int fd)) (isset rs) x) (\<lambda>x. x < n \<and> ready_write (\<lambda>fd. file_poll B rd (int fd)) (isset ws) x)
        (\<lambda>x. x < n \<and> ready_except (\<lambda>fd. file_poll B rd (int fd)) (isset es) x) s t"
    using select_poll_all_run [OF sets n Nil.prems(1), of "\<lambda>fd. file_poll B rd (int fd)"] Nil.prems(4) by auto
  have "\<not> isset None x" for x by (simp add: isset_def)
  then have "\<forall>x < n. (isset (sel_read t) x \<longleftrightarrow> ready_read (\<lambda>fd. file_poll B rd (int fd)) (isset rs) x) \<and>
      (isset (sel_write t) x \<longleftrightarrow> ready_write (\<lambda>fd. file_poll B rd (int fd)) (isset ws) x) \<and>
      (isset (sel_except t) x \<longleftrightarrow> ready_except (\<lambda>fd. file_poll B rd (int fd)) (isset es) x)"
    using t(2) Nil.prems(2,3) by (auto simp: gained_def ready_read_def ready_write_def ready_except_def)
  then show ?case using t(1) last by (intro exI [of _ t]) (auto simp: and_then_def)
next
  case (Cons rd' quiet)
  let ?P = "\<lambda>fd. file_poll B rd' (int fd)"
  have z: "ready_count ?P rs ws es n = 0" and dl: "\<forall>ddl. deadline = Some ddl \<longrightarrow> rd_now rd' < ddl" using Cons.prems(5) by simp_all
  obtain t where t: "select_poll_all ?P (FdSets_from n rs ws es) s = (Ok 0, t)"
      "gained (\<lambda>x. x < n \<and> ready_read ?P (isset rs) x) (\<lambda>x. x < n \<and> ready_write ?P (isset ws) x) (\<lambda>x. x < n \<and> ready_except ?P (isset es) x) s t"
    using select_poll_all_run [OF sets n Cons.prems(1), of ?P] Cons.prems(4) z by auto
  have none: "\<forall>x < n. \<not> ready_read ?P (isset rs) x \<and> \<not> ready_write ?P (isset ws) x \<and> \<not> ready_except ?P (isset es) x"
    using z by (auto simp: ready_count_def)
  have "sel_ok t" "\<forall>x < n. \<not> isset (sel_read t) x \<and> \<not> isset (sel_write t) x \<and> \<not> isset (sel_except t) x"
      "(sel_read t = None \<longleftrightarrow> rs = None) \<and> (sel_write t = None \<longleftrightarrow> ws = None) \<and> (sel_except t = None \<longleftrightarrow> es = None)"
    using t(2) none Cons.prems(2,3) by (auto simp: gained_def)
  note ih = Cons.IH [OF this]
  have "select_loop B ((rd' # quiet) @ rd # rest) deadline (FdSets_from n rs ws es) s = select_loop B (quiet @ rd # rest) deadline (FdSets_from n rs ws es) t"
    using t(1) dl by (cases deadline) (auto simp: and_then_def)
  then show ?case using ih Cons.prems(4,5) by simp
qed

text \<open>
  C24: \<open>select\<close> returns in the first round in which a descriptor that was asked for is ready or the time is over. It
  looks at the words of the three sets and skips the empty ones, but reports exactly what a look at each descriptor
  below \<open>nfds\<close> finds: the sets hold the descriptors that are ready, and the result is their number.
\<close>

theorem select_reports_ready:
  assumes sets: "fd_set_ok rs" "fd_set_ok ws" "fd_set_ok es" and "0 \<le> nfds" and n: "n = min (nat nfds) 1024"
    and p: "\<forall>rd' \<in> set (quiet @ [rd]). \<forall>fd < n. asked rs ws es fd \<longrightarrow> polled (file_poll B rd' (int fd))"
    and q: "\<forall>rd' \<in> set quiet. ready_count (\<lambda>fd. file_poll B rd' (int fd)) rs ws es n = 0 \<and> (\<forall>t. timeout = Some t \<longrightarrow> rd_now rd' < start + t)"
    and last: "ready_count (\<lambda>fd. file_poll B rd (int fd)) rs ws es n > 0 \<or> (\<exists>t. timeout = Some t \<and> start + t \<le> rd_now rd)"
  shows "\<exists>rs' ws' es'. sys_select B (quiet @ rd # rest) start nfds rs ws es timeout =
      (Ok (int (ready_count (\<lambda>fd. file_poll B rd (int fd)) rs ws es n)), (rs', ws', es')) \<and>
    (\<forall>x < n. (isset rs' x \<longleftrightarrow> ready_read (\<lambda>fd. file_poll B rd (int fd)) (isset rs) x) \<and>
      (isset ws' x \<longleftrightarrow> ready_write (\<lambda>fd. file_poll B rd (int fd)) (isset ws) x) \<and>
      (isset es' x \<longleftrightarrow> ready_except (\<lambda>fd. file_poll B rd (int fd)) (isset es) x))"
proof -
  let ?s = "\<lparr>sel_read = zero_fd_set rs n, sel_write = zero_fd_set ws n, sel_except = zero_fd_set es n, sel_num = 0\<rparr>"
  let ?d = "map_option (\<lambda>t. start + t) timeout"
  have n': "n \<le> 1024" using n by simp
  have s: "sel_ok ?s" "\<forall>x < n. \<not> isset (sel_read ?s) x \<and> \<not> isset (sel_write ?s) x \<and> \<not> isset (sel_except ?s) x"
      "(sel_read ?s = None \<longleftrightarrow> rs = None) \<and> (sel_write ?s = None \<longleftrightarrow> ws = None) \<and> (sel_except ?s = None \<longleftrightarrow> es = None)"
    using zeroed_bits [OF sets(1) n'] zeroed_bits [OF sets(2) n'] zeroed_bits [OF sets(3) n'] by (simp_all add: sel_ok_def)
  have q': "\<forall>rd' \<in> set quiet. ready_count (\<lambda>fd. file_poll B rd' (int fd)) rs ws es n = 0 \<and> (\<forall>ddl. ?d = Some ddl \<longrightarrow> rd_now rd' < ddl)"
    and last': "ready_count (\<lambda>fd. file_poll B rd (int fd)) rs ws es n > 0 \<or> (\<exists>ddl. ?d = Some ddl \<and> ddl \<le> rd_now rd)"
    using q last by auto
  from select_loop_run [OF sets n' p q' last' s, of rest]
  obtain t where t: "select_loop B (quiet @ rd # rest) ?d (FdSets_from n rs ws es) ?s = (Ok (ready_count (\<lambda>fd. file_poll B rd (int fd)) rs ws es n), t)"
    "\<forall>x < n. (isset (sel_read t) x \<longleftrightarrow> ready_read (\<lambda>fd. file_poll B rd (int fd)) (isset rs) x) \<and>
      (isset (sel_write t) x \<longleftrightarrow> ready_write (\<lambda>fd. file_poll B rd (int fd)) (isset ws) x) \<and>
      (isset (sel_except t) x \<longleftrightarrow> ready_except (\<lambda>fd. file_poll B rd (int fd)) (isset es) x)" by blast
  have "sys_select B (quiet @ rd # rest) start nfds rs ws es timeout =
      (Ok (int (ready_count (\<lambda>fd. file_poll B rd (int fd)) rs ws es n)), (sel_read t, sel_write t, sel_except t))"
    using assms(4) t(1) by (simp add: sys_select_def FD_SETSIZE_def n [symmetric] Let_def syscall_body_def)
  then show ?thesis using t(2) by blast
qed

definition demo_poll :: "char \<Rightarrow> (PollState, LinuxError) result" where
  "demo_poll f = (if f = CHR ''i'' then Ok \<lparr>poll_readable = True, poll_writable = False\<rparr> else Err EAGAIN)"

lemma demo_table:
  "\<exists>t. get_file_like word_bitmap 0 t = Ok CHR ''i'' \<and> get_file_like word_bitmap 1 t = Ok CHR ''o'' \<and> get_file_like word_bitmap 2 t = Ok CHR ''e''"
proof -
  obtain t where t: "table_ok (\<lambda>b :: 1024 word. {i. bit b i}) t" "fds_of (\<lambda>b. {i. bit b i}) t = [0 \<mapsto> CHR ''i'', 1 \<mapsto> CHR ''o'', 2 \<mapsto> CHR ''e'']"
    using word_bitmap.fd_table_init_ok [of "CHR ''i''" "CHR ''o''" "CHR ''e''"] by blast
  have "c_int 0" "c_int 1" "c_int 2" by (simp_all add: c_int_def)
  then show ?thesis
    using word_bitmap.get_file_like_fds [OF t(1), of 0] word_bitmap.get_file_like_fds [OF t(1), of 1] word_bitmap.get_file_like_fds [OF t(1), of 2]
    by (intro exI [of _ t]) (simp add: t(2))
qed

lemma less_2_cases: "x < (2 :: nat) \<longleftrightarrow> x = 0 \<or> x = 1"
  by auto

theorem select_reports_ready_witness:
  "\<exists>t rs' ws' es'. sys_select word_bitmap [\<lparr>rd_table = t, rd_poll = demo_poll, rd_now = 0\<rparr>] 0 2 (Some (1 # replicate 15 0)) None (Some (2 # replicate 15 0)) None =
      (Ok 2, (rs', ws', es')) \<and> isset rs' 0 \<and> isset es' 1"
proof -
  obtain t where t: "get_file_like word_bitmap 0 t = Ok CHR ''i''" "get_file_like word_bitmap 1 t = Ok CHR ''o''"
    using demo_table by blast
  let ?rd = "\<lparr>rd_table = t, rd_poll = demo_poll, rd_now = 0\<rparr>" and ?rs = "Some (1 # replicate 15 0) :: fd_set" and ?es = "Some (2 # replicate 15 0) :: fd_set"
  let ?P = "\<lambda>fd. file_poll word_bitmap ?rd (int fd)"
  have P: "?P 0 = Ok (Ok \<lparr>poll_readable = True, poll_writable = False\<rparr>)" "?P 1 = Ok (Err EAGAIN)"
    using t by (simp_all add: file_poll_def demo_poll_def)
  have b: "isset ?rs 0" "\<not> isset ?rs 1" "\<not> isset ?es 0" "isset ?es 1" "\<not> isset None x" for x
    by (simp_all add: isset_def bit_numeral_rec)
  have "{x. x < 2 \<and> ready_read ?P (isset ?rs) x} = {0}" "{x. x < 2 \<and> ready_write ?P (isset None) x} = {}" "{x. x < 2 \<and> ready_except ?P (isset ?es) x} = {1}"
    using P b by (auto simp: less_2_cases ready_read_def ready_write_def ready_except_def)
  then have c: "ready_count ?P ?rs None ?es 2 = 2" by (simp add: ready_count_def)
  have ok: "fd_set_ok ?rs" "fd_set_ok None" "fd_set_ok ?es" by (simp_all add: fd_set_ok_def)
  have p: "\<forall>rd' \<in> set ([] @ [?rd]). \<forall>fd < 2. asked ?rs None ?es fd \<longrightarrow> polled (file_poll word_bitmap rd' (int fd))"
    using P by (auto simp: less_2_cases polled_def)
  obtain rs' ws' es' where r: "sys_select word_bitmap ([] @ ?rd # []) 0 2 ?rs None ?es None = (Ok (int (ready_count ?P ?rs None ?es 2)), (rs', ws', es'))"
      "\<forall>x < 2. (isset rs' x \<longleftrightarrow> ready_read ?P (isset ?rs) x) \<and> (isset ws' x \<longleftrightarrow> ready_write ?P (isset None) x) \<and> (isset es' x \<longleftrightarrow> ready_except ?P (isset ?es) x)"
    using select_reports_ready [OF ok _ _ p, of 2 None 0 "[]"] c by auto
  have "ready_read ?P (isset ?rs) 0" "ready_except ?P (isset ?es) 1" using P b by (simp_all add: ready_read_def ready_except_def)
  then show ?thesis using r c by (intro exI [of _ t] exI [of _ rs'] exI [of _ ws'] exI [of _ es']) simp
qed

text \<open>A descriptor that is asked for and closed makes the whole call fail.\<close>

lemma scan_closed:
  assumes "sel_ok s" and "\<forall>fd \<in> set xs. fd < 1024" and "\<forall>fd \<in> set xs. r fd \<or> w fd \<or> e fd \<longrightarrow> polled (P fd)"
    and "P fd = Err EBADF" and "r fd \<or> w fd \<or> e fd"
  shows "fst (scan P r w e (xs @ fd # ys) s) = Err EBADF"
proof -
  obtain t where "scan P r w e xs s = (Ok (), t)" using scan_run [OF assms(1-3)] by blast
  then show ?thesis using assms(4,5) by (simp add: scan_append and_then_def select_fd_def)
qed

subsection \<open>What \<open>epoll\<close> reports\<close>

definition ep_ready :: "(int \<Rightarrow> ((PollState, LinuxError) result, LinuxError) result) \<Rightarrow> nat \<times> epoll_event \<Rightarrow> epoll_event list" where
  "ep_ready P x = (case x of (infd, ev) \<Rightarrow> (case P (as_c_int infd) of
       Ok (Ok st) \<Rightarrow> (if poll_readable st \<and> ev_events ev AND EPOLLIN \<noteq> 0 then [\<lparr>ev_events = EPOLLIN, ev_data = ev_data ev\<rparr>] else []) @
         (if poll_writable st \<and> ev_events ev AND EPOLLOUT \<noteq> 0 then [\<lparr>ev_events = EPOLLOUT, ev_data = ev_data ev\<rparr>] else [])
     | Ok (Err _) \<Rightarrow> (if ev_events ev AND EPOLLERR \<noteq> 0 then [\<lparr>ev_events = EPOLLERR, ev_data = ev_data ev\<rparr>] else [])
     | _ \<Rightarrow> []))"

definition ep_events :: "(int \<Rightarrow> ((PollState, LinuxError) result, LinuxError) result) \<Rightarrow> EpollInstance \<Rightarrow> epoll_event list" where
  "ep_events P m = concat (map (ep_ready P) m)"

text \<open>Events put one after the other, as long as there is room.\<close>

fun puts :: "epoll_event list \<Rightarrow> ep_action" where
  "puts [] s = (Ok (), s)"
| "puts (x # xs) s = and_then (put_event (ev_events x) (ev_data x)) (\<lambda>_. puts xs) s"

lemma puts_append: "puts (xs @ ys) s = and_then (puts xs) (\<lambda>_. puts ys) s"
proof (induction xs arbitrary: s)
  case (Cons x xs)
  have "puts (xs @ ys) = and_then (puts xs) (\<lambda>_. puts ys)" using Cons by (simp add: fun_eq_iff)
  then show ?case by (simp add: and_then_def split: prod.splits result.splits)
qed (simp add: and_then_def)

lemma puts_if: "put_when b what data s = puts (if b then [\<lparr>ev_events = what, ev_data = data\<rparr>] else []) s"
  by (simp add: put_when_def and_then_def split: prod.splits result.splits)

lemma epoll_loop_puts: "\<forall>x \<in> set m. polled (P (as_c_int (fst x))) \<Longrightarrow> epoll_loop P m s = puts (ep_events P m) s"
proof (induction m arbitrary: s)
  case (Cons x m)
  obtain infd ev where x: "x = (infd, ev)" by (cases x)
  have IH: "epoll_loop P m = puts (ep_events P m)" using Cons by (simp add: fun_eq_iff)
  have pw: "put_when b what data = puts (if b then [\<lparr>ev_events = what, ev_data = data\<rparr>] else [])" for b what data
    by (rule ext) (rule puts_if)
  have e: "ep_events P (x # m) = ep_ready P x @ ep_events P m" by (simp add: ep_events_def)
  consider st where "P (as_c_int infd) = Ok (Ok st)" | y where "P (as_c_int infd) = Ok (Err y)"
    using Cons.prems by (auto simp: x polled_def split: result.splits)
  then show ?case
  proof cases
    case 1
    then show ?thesis unfolding e puts_append unfolding x epoll_loop.simps IH pw
      by (simp only: 1 result.case ep_ready_def prod.case puts_append fun_eq_iff [of "puts (_ @ _)"]) (simp add: and_then_def puts_append split: prod.splits result.splits)
  next
    case 2
    then show ?thesis unfolding e puts_append unfolding x epoll_loop.simps IH pw by (simp only: 2 result.case ep_ready_def prod.case)
  qed
qed (simp add: ep_events_def)

lemma puts_run:
  "n \<le> length events \<Longrightarrow> puts xs (events, n) =
     (if n + length xs \<le> length events then (Ok (), (take n events @ xs @ drop (n + length xs) events, n + length xs))
      else (Panic, (take n events @ take (length events - n) xs, length events)))"
proof (induction xs arbitrary: events n)
  case (Cons x xs)
  show ?case
  proof (cases "n < length events")
    case True
    let ?ev = "events[n := \<lparr>ev_events = ev_events x, ev_data = ev_data x\<rparr>]"
    have x: "\<lparr>ev_events = ev_events x, ev_data = ev_data x\<rparr> = x" by simp
    have "take (Suc n) ?ev = take n events @ [x]" using True by (simp add: take_Suc_conv_app_nth)
    then show ?thesis using Cons.IH [of "n + 1" ?ev] True by (simp add: put_event_def and_then_def Suc_diff_Suc [symmetric] del: upt_Suc)
  next
    case False
    then show ?thesis using Cons.prems by (simp add: put_event_def and_then_def)
  qed
qed (simp add: take_drop)

lemma epoll_poll_all_run:
  assumes "\<forall>x \<in> set m. polled (P (as_c_int (fst x)))"
  shows "epoll_poll_all P m events = (let es = ep_events P m in
    if length es \<le> length events then (Ok (length es), es @ drop (length es) events) else (Panic, take (length events) es))"
  using puts_run [of 0 events "ep_events P m"] by (simp add: epoll_poll_all_def epoll_loop_puts [OF assms] Let_def)

lemma epoll_wait_loop_run:
  assumes p: "\<forall>(rd', m') \<in> set (quiet @ [(rd, m)]). \<forall>x \<in> set m'. polled (file_poll B rd' (as_c_int (fst x)))"
    and q: "\<forall>(rd', m') \<in> set quiet. ep_events (file_poll B rd') m' = [] \<and> (\<forall>ddl. deadline = Some ddl \<longrightarrow> rd_now rd' < ddl)"
    and last: "ep_events (file_poll B rd) m \<noteq> [] \<or> (\<exists>ddl. deadline = Some ddl \<and> ddl \<le> rd_now rd)"
  shows "epoll_wait_loop B (quiet @ (rd, m) # rest) deadline events = epoll_poll_all (file_poll B rd) m events"
  using p q
proof (induction quiet)
  case Nil
  have "\<forall>x \<in> set m. polled (file_poll B rd (as_c_int (fst x)))" using Nil by simp
  note e = epoll_poll_all_run [OF this, of events]
  show ?case using last by (auto simp: e and_then_def Let_def)
next
  case (Cons r quiet)
  obtain rd' m' where r: "r = (rd', m')" by (cases r)
  have "\<forall>x \<in> set m'. polled (file_poll B rd' (as_c_int (fst x)))" using Cons.prems(1) by (simp add: r)
  note e = epoll_poll_all_run [OF this, of events]
  have z: "ep_events (file_poll B rd') m' = []" and d: "\<forall>ddl. deadline = Some ddl \<longrightarrow> rd_now rd' < ddl" using Cons.prems(2) by (simp_all add: r)
  have "epoll_wait_loop B (quiet @ (rd, m) # rest) deadline events = epoll_poll_all (file_poll B rd) m events"
    using Cons by simp
  then show ?case using d by (cases deadline) (simp_all add: r and_then_def e z)
qed

text \<open>
  C25: \<open>epoll_wait\<close> returns in the first round in which a registered event has occurred or the time is over, with
  the events that have occurred in the order of the descriptors; when they are more than the buffer of the
  caller has room for, the kernel panics after filling it.
\<close>

theorem epoll_wait_reports:
  assumes "events \<noteq> []" and f: "get_file_like B epfd t = Ok f" "is_epoll f"
    and p: "\<forall>(rd', m') \<in> set (quiet @ [(rd, m)]). \<forall>x \<in> set m'. polled (file_poll B rd' (as_c_int (fst x)))"
    and q: "\<forall>(rd', m') \<in> set quiet. ep_events (file_poll B rd') m' = [] \<and> (0 \<le> timeout \<longrightarrow> rd_now rd' < start + nat timeout)"
    and last: "ep_events (file_poll B rd) m \<noteq> [] \<or> 0 \<le> timeout \<and> start + nat timeout \<le> rd_now rd"
  shows "sys_epoll_wait B t is_epoll (quiet @ (rd, m) # rest) start epfd events timeout =
    (let es = ep_events (file_poll B rd) m in
     if length es \<le> length events then (Ok (int (length es)), es @ drop (length es) events) else (Panic, take (length events) es))"
proof -
  let ?d = "if timeout < 0 then None else Some (start + nat timeout)"
  have m: "\<forall>x \<in> set m. polled (file_poll B rd (as_c_int (fst x)))" using p by simp
  have q': "\<forall>(rd', m') \<in> set quiet. ep_events (file_poll B rd') m' = [] \<and> (\<forall>ddl. ?d = Some ddl \<longrightarrow> rd_now rd' < ddl)"
    and l': "ep_events (file_poll B rd) m \<noteq> [] \<or> (\<exists>ddl. ?d = Some ddl \<and> ddl \<le> rd_now rd)"
    using q last by (auto split: prod.splits)
  have "epoll_wait_loop B (quiet @ (rd, m) # rest) ?d events = epoll_poll_all (file_poll B rd) m events"
    by (rule epoll_wait_loop_run [OF p q' l'])
  then show ?thesis
    using assms(1) f by (simp add: sys_epoll_wait_def and_then_def epoll_poll_all_run [OF m] Let_def syscall_body_def)
qed

theorem epoll_wait_reports_witness:
  "\<exists>t. sys_epoll_wait word_bitmap t (\<lambda>f. f = CHR ''e'') [(\<lparr>rd_table = t, rd_poll = demo_poll, rd_now = 0\<rparr>,
      [(0, \<lparr>ev_events = 5, ev_data = 7\<rparr>), (1, \<lparr>ev_events = 8, ev_data = 9\<rparr>)])] 0 2 [\<lparr>ev_events = 0, ev_data = 0\<rparr>] (-1) =
    (Panic, [\<lparr>ev_events = EPOLLIN, ev_data = 7\<rparr>])"
proof -
  obtain t where t: "get_file_like word_bitmap 0 t = Ok CHR ''i''" "get_file_like word_bitmap 1 t = Ok CHR ''o''" "get_file_like word_bitmap 2 t = Ok CHR ''e''"
    using demo_table by blast
  let ?rd = "\<lparr>rd_table = t, rd_poll = demo_poll, rd_now = 0\<rparr>" and ?m = "[(0, \<lparr>ev_events = 5, ev_data = 7\<rparr>), (1, \<lparr>ev_events = 8, ev_data = 9\<rparr>)]"
  have P: "file_poll word_bitmap ?rd 0 = Ok (Ok \<lparr>poll_readable = True, poll_writable = False\<rparr>)" "file_poll word_bitmap ?rd 1 = Ok (Err EAGAIN)"
    using t by (simp_all add: file_poll_def demo_poll_def)
  have c: "as_c_int 0 = 0" "as_c_int 1 = 1" "as_c_int (Suc 0) = 1" by (simp_all add: as_c_int_def)
  have es: "ep_events (file_poll word_bitmap ?rd) ?m = [\<lparr>ev_events = EPOLLIN, ev_data = 7\<rparr>, \<lparr>ev_events = EPOLLERR, ev_data = 9\<rparr>]"
    using P by (simp add: ep_events_def ep_ready_def c EPOLLIN_def EPOLLERR_def del: One_nat_def)
  have p: "\<forall>(rd', m') \<in> set ([] @ [(?rd, ?m)]). \<forall>x \<in> set m'. polled (file_poll word_bitmap rd' (as_c_int (fst x)))"
    using P by (simp add: c polled_def del: One_nat_def)
  have "sys_epoll_wait word_bitmap t (\<lambda>f. f = CHR ''e'') ([] @ (?rd, ?m) # []) 0 2 [\<lparr>ev_events = 0, ev_data = 0\<rparr>] (-1) =
      (Panic, [\<lparr>ev_events = EPOLLIN, ev_data = 7\<rparr>])"
    using epoll_wait_reports [OF _ t(3) _ p, of "[\<lparr>ev_events = 0, ev_data = 0\<rparr>]" "\<lambda>f. f = CHR ''e''" "-1" 0 "[]"] by (simp add: es del: One_nat_def)
  then show ?thesis by auto
qed

text \<open>A registered descriptor that has been closed makes the call fail.\<close>

lemma epoll_closed_fails:
  assumes "\<forall>x \<in> set m. polled (P (as_c_int (fst x)))" and "P (as_c_int fd) = Err EBADF" and "length (ep_events P m) \<le> length events"
  shows "fst (epoll_poll_all P (m @ (fd, ev) # m') events) = Err EBADF"
proof -
  have app: "epoll_loop P (m @ xs) s = and_then (epoll_loop P m) (\<lambda>_. epoll_loop P xs) s" for xs s
    using assms(1)
  proof (induction m arbitrary: s)
    case (Cons x m)
    have "epoll_loop P (m @ xs) = and_then (epoll_loop P m) (\<lambda>_. epoll_loop P xs)" using Cons by (simp add: fun_eq_iff)
    then show ?case by (cases x) (simp add: and_then_def split: prod.splits result.splits)
  qed (simp add: and_then_def)
  obtain s where "epoll_loop P m (events, 0) = (Ok (), s)"
    using epoll_loop_puts [OF assms(1), of "(events, 0)"] puts_run [of 0 events "ep_events P m"] assms(3) by simp
  then show ?thesis using assms(2) by (simp add: epoll_poll_all_def app and_then_def split: prod.splits)
qed

end
