(* ===== verification/Spec2Isabelle.thy ===== *)
theory Spec2Isabelle
  imports Slab MemorySetMap PageTableCorrect FrameAllocCorrect KernelSteps Path TaskApi FsClients DiskCorrect Ratio Elf SyscallsCorrect Poll
begin

text \<open>
  A model of the kernel in \<open>src/async/async2\<close>, a modular unikernel in Rust (ArceOS) grown into a monolithic
  kernel with processes, signals, memory mappings and files, for a 64-bit RISC-V target. The kernel is a
  set of crates; the theories follow them, bottom up. File names below are relative to \<open>src/async/async2\<close>.

  \<^bold>\<open>Conventions.\<close> \<open>Prelude\<close> has the vocabulary. Machine integers are words of their width and wrap, as
  in the release build; signed ones are \<open>int\<close> with the wrap-around written out. A function that may fail,
  panic or run for ever returns a \<open>result\<close>; one with \<open>&mut\<close> access is an \<open>action\<close> on an explicit state, and
  \<open>and_then\<close> is the \<open>?\<close> operator, so that writes before an early return persist. Third-party code (the bitmap,
  the buddy heap, the random generator) and trait objects are records of operations with a locale that
  states what is relied on, and each locale is interpreted.

  \<^bold>\<open>Memory.\<close> \<open>MemoryAddr\<close>: alignment (\<open>crates/memory_addr\<close>). \<open>PageTableEntry\<close>: flags and Sv39 entries
  (\<open>crates/page_table_entry\<close>). \<open>PageTable\<close> has the operations of \<open>PageTable64\<close> over physical memory
  (\<open>crates/page_table/src/bits64.rs\<close>); \<open>PageTableOps\<close>, \<open>PageTableView\<close>, \<open>PageTableRegion\<close> and \<open>PageTableCorrect\<close> show that mapping,
  unmapping and their region variants change the translation of exactly the addresses they name, for any
  frame allocator that meets the locale \<open>paging_if\<close>. \<open>Allocator\<close>: the bitmap page allocator, the two-level global
  allocator and owned pages (\<open>crates/allocator\<close>, \<open>modules/axalloc\<close>); \<open>Slab\<close>: the slab heap under it (\<open>crates/slab_allocator\<close>).
  \<open>FrameAlloc\<close> and \<open>FrameAllocCorrect\<close> (\<open>modules/axhal/src/paging.rs\<close>) make the global allocator the frame source of page
  tables: the sublocale \<open>frame_source \<subseteq> paging_if\<close> composes the two.
  \<open>MemArea\<close>, \<open>MemorySet\<close>, \<open>MemorySetCorrect\<close>, \<open>MemorySetMap\<close> (\<open>modules/axmem\<close>): areas of lazily allocated pages, memory sets,
  shared memory; \<open>mmap\<close>, \<open>munmap\<close>, \<open>mprotect\<close> and page faults refine operations on the map from addresses to pages.

  \<^bold>\<open>Tasks.\<close> \<open>LinkedList\<close>: the intrusive list (\<open>crates/linked_list\<close>), which refines a list. \<open>Scheduler\<close>,
  \<open>SchedulerCorrect\<close>: FIFO, round robin and CFS (\<open>crates/scheduler\<close>) under the locales \<open>base_scheduler\<close> and \<open>ready_queue\<close>.
  \<open>TaskCtx\<close>: tasks and their time statistics (\<open>crates/taskctx\<close>). \<open>TimerList\<close> (\<open>crates/timer_list\<close>). \<open>RunQueue\<close>, \<open>RunQueueCorrect\<close>,
  \<open>KernelSteps\<close>: run queue, wait queues, alarms and the mutex (\<open>modules/axtask\<close>) as entry points of an \<open>inductive\<close>
  step relation over any scheduler (locale \<open>run_queue\<close>, interpreted for FIFO and round robin), with the
  invariant of the reachable states and the liveness of wake-ups. \<open>Signal\<close> (\<open>modules/axsignal\<close>), \<open>TaskApi\<close>
  (\<open>modules/axtask/src/task.rs\<close>, \<open>api.rs\<close>): children, exit, wait and signal delivery.

  \<^bold>\<open>Files.\<close> \<open>AxErrno\<close>: error codes. \<open>BTree\<close>: ordered maps as sorted association lists (locale \<open>ordered_map\<close>).
  \<open>Path\<close>: \<open>canonicalize\<close> (\<open>crates/axfs_vfs/src/path.rs\<close>). \<open>Vfs\<close>: nodes of the RAM and device file systems
  (\<open>crates/axfs_ramfs\<close>, \<open>crates/axfs_devfs\<close>, \<open>crates/axfs_vfs/src/structs.rs\<close>) in a store of reference-counted nodes: \<open>held\<close> counts
  the handles, \<open>reap\<close> drops what nothing refers to. \<open>VfsCorrect\<close>, \<open>VfsTheorems\<close>: the trees stay well formed; what
  \<open>create\<close>, \<open>remove\<close>, \<open>lookup\<close> and \<open>read_dir\<close> do. \<open>RootFs\<close>, \<open>RootFsCorrect\<close>: mount points, path operations and the current
  directory (\<open>modules/axfs/src/root.rs\<close>, \<open>mounts.rs\<close>). \<open>Io\<close>, \<open>IoCorrect\<close>: \<open>Read\<close>, \<open>Write\<close>, \<open>BufRead\<close>, \<open>BufReader\<close>
  (\<open>crates/axio\<close>); the locale \<open>byte_stream\<close> is the contract of a reader, and the sublocale \<open>buffered_stream \<subseteq> byte_stream\<close>
  says that a \<open>BufReader\<close> keeps it. \<open>Fops\<close>: open files and directories with capabilities (\<open>modules/axfs/src/fops.rs\<close>,
  \<open>crates/capability\<close>). \<open>FsApi\<close>, \<open>FsApiCorrect\<close>, \<open>FsClients\<close> (\<open>modules/axfs/src/api\<close>): an open file is a byte stream, a file
  written by path is read back, the directory iterator yields the children, and what a file mapping of \<open>MemArea\<close>
  reads after it was written back. \<open>Disk\<close>, \<open>DiskCorrect\<close>: the disk cursor over a block device (\<open>modules/axfs/src/dev.rs\<close>, the readers of
  \<open>fs/fatfs.rs\<close>), for any device of the locale \<open>block_device\<close> and for the RAM disk (\<open>crates/driver_block\<close>).

  \<^bold>\<open>Programs and descriptors.\<close> \<open>UserStack\<close>, \<open>Elf\<close> (\<open>crates/elf_parser\<close>): the initial stack of a user program, which its
  start code (\<open>c_start\<close>) reads back, its segments, auxiliary vector and relocations; what the accessors of the crate
  \<open>xmas_elf\<close> return is a record. \<open>Link\<close> (\<open>modules/axtask/src/link.rs\<close>): the maps of links above \<open>RootFs\<close>. \<open>FdTable\<close>: the container
  \<open>FlattenObjects\<close> (\<open>crates/flatten_objects\<close>) and the descriptor table (\<open>api/arceos_posix_api/src/imp/fd_ops.rs\<close>), which refine a finite
  map; the bitmap of the identifiers is a parameter with the locale \<open>id_bitmap\<close>. \<open>Pipe\<close> (\<open>imp/pipe.rs\<close>): the ring buffer
  and the two ends, where one locked iteration is one step of an \<open>inductive\<close> relation. \<open>Ratio\<close> (\<open>crates/ratio\<close>).

  \<^bold>\<open>System calls.\<close> \<open>Syscalls\<close> (\<open>api/linux_syscall_api\<close>, \<open>modules/axtask/src/stdio.rs\<close>): \<open>openat\<close>, \<open>close\<close>, \<open>read\<close>, \<open>write\<close> with
  the dispatch by number, over the descriptors for files, directories and the console. What a user pointer leads to is an
  argument (\<open>UserBuf\<close>, \<open>UserPath\<close>: null, not mapped, or the bytes), the console input is the list of what \<open>getchar\<close>
  returns, and a descriptor is its value, since no modelled call shares a slot. \<open>SyscallsCorrect\<close>: the invariant
  of all sequences of calls and that what was written is read after opening the path again; both rest on \<open>Link\<close>, \<open>FdTable\<close> and the
  theorems about \<open>Fops\<close>. \<open>Poll\<close> (\<open>imp/io_mpx/select.rs\<close>, \<open>epoll.rs\<close>): a call that waits looks at the files in rounds; other
  threads act between the rounds, so that the rounds are an argument: the table, what \<open>poll\<close> of each file returns, the time.

  \<^bold>\<open>Fuel.\<close> Loops whose end depends on other code have fuel and return \<open>Diverge\<close> without: \<open>resched_pick\<close> (as many
  rounds as there are queued tasks are enough, \<open>run_task_reaches\<close>), \<open>notify_all_loop\<close> (one more than the waiting tasks),
  \<open>global_alloc\<close> (one more than the free pages, \<open>global_alloc_returns\<close>), \<open>read_to_end_loop\<close> (one more than the bytes to come,
  \<open>read_to_end_all\<close>), \<open>read_until_loop\<close> (it also retries on \<open>WouldBlock\<close>), \<open>ReadDir_next\<close> (3: the two dot entries and one more) and
  \<open>ReadDir_all\<close> (one more than the children), the read and write loops of \<open>Pipe\<close> (two iterations, whenever a call returns at all),
  the rounds of \<open>Poll\<close> (up to the first with an event or at the deadline),
  \<open>c_start\<close> (the size of the stack). All other loops are recursive functions with a termination proof.

  \<^bold>\<open>Bounds.\<close> Theorems about lengths assume what the machine guarantees: content below \<open>2 ^ 63\<close> bytes, since a
  vector holds at most \<open>isize::MAX\<close>, and positions whose sum with a length does not wrap.

  \<^bold>\<open>Not modelled.\<close> Register and trap contents, page table switches and TLB flushes, which have no effect on the
  modelled state; interrupts and other processors: each operation runs to completion, as under the locks
  of the code. The FAT and ext4 file systems, the network stack, and virtio drivers wrap third-party
  crates. Loading a program into a process is left out of \<open>TaskApi\<close>. Of the system call layer,
  the trap handler, \<open>ioctl\<close>, and the POSIX wrappers for sockets, threads and resource limits are left out; \<open>exit\<close> is in \<open>TaskApi\<close>. \<open>src/async/async\<close>, \<open>sync\<close> and \<open>syncwz\<close> are other versions of the same kernel; the remaining
  directories hold course exercises and reports.
\<close>

end
